(* ===== verification/Prelude.thy ===== *)
theory Prelude
  imports Main "HOL-Library.AList" "HOL-Library.Sublist"
begin

text \<open>
  What the components share.

  \<^item> JavaScript strings. A string of the sources is a sequence of UTF-16 code units; here it is a
    \<^typ>\<open>string\<close>, whose characters stand for the code units 0 to 255 (Latin-1). On these,
    \<open>trim\<close>, \<open>toLowerCase\<close> and the regular expression class \<open>\s\<close> are modelled exactly.
    Where the code can produce a larger code unit the model returns an explicit failure.
  \<^item> JavaScript \<open>Map\<close>. The interface \<open>js_map\<close> states what the code relies on (a lookup
    after \<open>set\<close> and \<open>delete\<close>, iteration in insertion order), and association lists with
    \<^const>\<open>AList.update\<close> and \<^const>\<open>AList.delete\<close> provide it.
  \<^item> Operations that read and write a state and may throw: a function from the state to a result
    and the state left behind. A thrown error keeps the writes done before it, as in the code.
  \<^item> Machines: a step function with an invariant, and its runs.
\<close>

section \<open>Collections of rules\<close>

named_theorems js_simps \<open>evaluation of the string operations\<close>
named_theorems preserve \<open>rules for preservation of a predicate by an operation\<close>

section \<open>Results\<close>

text \<open>\<open>Inl\<close> is a thrown error, \<open>Inr\<close> a returned value.\<close>

definition rbind :: "'e + 'a \<Rightarrow> ('a \<Rightarrow> 'e + 'b) \<Rightarrow> 'e + 'b" where
  "rbind r f = (case r of Inl e \<Rightarrow> Inl e | Inr a \<Rightarrow> f a)"

lemma rbind_simps [simp]: "rbind (Inl e) f = Inl e" "rbind (Inr a) f = f a"
  by (simp_all add: rbind_def)

lemma rbind_Inr_iff: "rbind r f = Inr b \<longleftrightarrow> (\<exists>a. r = Inr a \<and> f a = Inr b)"
  by (cases r) auto

lemma rbind_Inl_iff: "rbind r f = Inl e \<longleftrightarrow> r = Inl e \<or> (\<exists>a. r = Inr a \<and> f a = Inl e)"
  by (cases r) auto

fun rmap :: "('a \<Rightarrow> 'e + 'b) \<Rightarrow> 'a list \<Rightarrow> 'e + 'b list" where
  "rmap f [] = Inr []"
| "rmap f (x # xs) = rbind (f x) (\<lambda>y. rbind (rmap f xs) (\<lambda>ys. Inr (y # ys)))"

lemma rmap_Inr_iff: "rmap f xs = Inr ys \<longleftrightarrow> list_all2 (\<lambda>x y. f x = Inr y) xs ys"
proof (induction xs arbitrary: ys)
  case Nil
  then show ?case by auto
next
  case (Cons x xs)
  then show ?case by (cases ys) (auto simp: rbind_Inr_iff)
qed

section \<open>Operations on a state that may throw\<close>

type_synonym ('s, 'e, 'a) st_op = "'s \<Rightarrow> ('e + 'a) \<times> 's"

definition sret :: "'a \<Rightarrow> ('s, 'e, 'a) st_op" where
  "sret a s = (Inr a, s)"

definition sthrow :: "'e \<Rightarrow> ('s, 'e, 'a) st_op" where
  "sthrow e s = (Inl e, s)"

definition slift :: "'e + 'a \<Rightarrow> ('s, 'e, 'a) st_op" where
  "slift r s = (r, s)"

definition smodify :: "('s \<Rightarrow> 's) \<Rightarrow> ('s, 'e, unit) st_op" where
  "smodify f s = (Inr (), f s)"

definition sbind :: "('s, 'e, 'a) st_op \<Rightarrow> ('a \<Rightarrow> ('s, 'e, 'b) st_op) \<Rightarrow> ('s, 'e, 'b) st_op" where
  "sbind m f s = (case m s of (Inl e, t) \<Rightarrow> (Inl e, t) | (Inr a, t) \<Rightarrow> f a t)"

lemmas st_op_defs = sret_def sthrow_def slift_def smodify_def

lemma sbind_Inr_iff:
  "sbind m f s = (Inr b, t) \<longleftrightarrow> (\<exists>a u. m s = (Inr a, u) \<and> f a u = (Inr b, t))"
  by (auto simp: sbind_def split: prod.splits sum.splits)

lemma sbind_apply [simp]:
  "m s = (Inr a, u) \<Longrightarrow> sbind m f s = f a u"
  "m s = (Inl e, u) \<Longrightarrow> sbind m f s = (Inl e, u)"
  by (simp_all add: sbind_def)

text \<open>\<open>preserves P m\<close>: whatever \<open>m\<close> does, returning or throwing, \<open>P\<close> is kept.\<close>

definition preserves :: "('s \<Rightarrow> bool) \<Rightarrow> ('s, 'e, 'a) st_op \<Rightarrow> bool" where
  "preserves P m \<longleftrightarrow> (\<forall>s. P s \<longrightarrow> P (snd (m s)))"

lemma preservesI: "(\<And>s. P s \<Longrightarrow> P (snd (m s))) \<Longrightarrow> preserves P m"
  by (simp add: preserves_def)

lemma preservesD: "preserves P m \<Longrightarrow> P s \<Longrightarrow> P (snd (m s))"
  by (simp add: preserves_def)

lemma preserves_sret [preserve]: "preserves P (sret a)"
  by (simp add: preserves_def sret_def)

lemma preserves_sthrow [preserve]: "preserves P (sthrow e)"
  by (simp add: preserves_def sthrow_def)

lemma preserves_slift [preserve]: "preserves P (slift r)"
  by (simp add: preserves_def slift_def)

lemma preserves_sbind [preserve]:
  assumes "preserves P m" and "\<And>a. preserves P (f a)"
  shows "preserves P (sbind m f)"
proof (rule preservesI)
  fix s
  assume "P s"
  then have "P (snd (m s))"
    by (rule preservesD [OF assms(1)])
  then show "P (snd (sbind m f s))"
    using assms(2) by (auto simp: sbind_def preserves_def split: prod.splits sum.splits)
qed

lemma preserves_if [preserve]:
  "(b \<Longrightarrow> preserves P m) \<Longrightarrow> (\<not> b \<Longrightarrow> preserves P n) \<Longrightarrow> preserves P (if b then m else n)"
  by simp

lemma preserves_option [preserve]:
  "preserves P m \<Longrightarrow> (\<And>x. preserves P (f x)) \<Longrightarrow> preserves P (case y of None \<Rightarrow> m | Some x \<Rightarrow> f x)"
  by (simp split: option.split)

section \<open>Machines and their runs\<close>

text \<open>
  A component with state offers operations; \<open>step x s\<close> is the state after operation \<open>x\<close>, whether it
  returned or threw. What every step keeps, every run keeps.
\<close>

locale machine =
  fixes step :: "'op \<Rightarrow> 's \<Rightarrow> 's"
    and inv :: "'s \<Rightarrow> bool"
  assumes step_inv: "inv s \<Longrightarrow> inv (step x s)"
begin

lemma run_inv: "inv s \<Longrightarrow> inv (fold step xs s)"
  by (induction xs arbitrary: s) (simp_all add: step_inv)

lemma run_inv_prefix: "inv s \<Longrightarrow> prefix ys xs \<Longrightarrow> inv (fold step ys s)"
  by (rule run_inv)

end

text \<open>A machine with a rank in a preorder that no step lowers: the rank never falls along a run.\<close>

locale ranked_machine = machine step inv
  for step :: "'op \<Rightarrow> 's \<Rightarrow> 's" and inv :: "'s \<Rightarrow> bool" +
  fixes rank :: "'s \<Rightarrow> 'r::preorder"
  assumes rank_step: "inv s \<Longrightarrow> rank s \<le> rank (step x s)"
begin

lemma run_rank: "inv s \<Longrightarrow> rank s \<le> rank (fold step xs s)"
proof (induction xs arbitrary: s)
  case Nil
  then show ?case by simp
next
  case (Cons x xs)
  then have "rank s \<le> rank (step x s)" and "rank (step x s) \<le> rank (fold step xs (step x s))"
    by (simp_all add: rank_step step_inv)
  then show ?case by (simp add: order_trans)
qed

end

section \<open>JavaScript maps\<close>

text \<open>
  The part of \<open>Map\<close> the code uses. \<open>entries\<close> is the iteration order: \<open>set\<close> on a present key keeps
  its place, on a new key appends, \<open>delete\<close> removes the entry and keeps the order of the others.
\<close>

locale js_map =
  fixes get :: "'m \<Rightarrow> 'k \<Rightarrow> 'v option"
    and put :: "'k \<Rightarrow> 'v \<Rightarrow> 'm \<Rightarrow> 'm"
    and del :: "'k \<Rightarrow> 'm \<Rightarrow> 'm"
    and entries :: "'m \<Rightarrow> ('k \<times> 'v) list"
    and ok :: "'m \<Rightarrow> bool"
  assumes get_put: "get (put k v m) = (get m)(k \<mapsto> v)"
    and get_del: "get (del k m) = (get m)(k := None)"
    and ok_put: "ok m \<Longrightarrow> ok (put k v m)"
    and ok_del: "ok m \<Longrightarrow> ok (del k m)"
    and get_entries: "ok m \<Longrightarrow> get m k = Some v \<longleftrightarrow> (k, v) \<in> set (entries m)"
    and distinct_entries: "ok m \<Longrightarrow> distinct (map fst (entries m))"
    and entries_put_new: "get m k = None \<Longrightarrow> entries (put k v m) = entries m @ [(k, v)]"
    and keys_put_old: "get m k = Some w \<Longrightarrow> map fst (entries (put k v m)) = map fst (entries m)"
    and entries_del: "entries (del k m) = filter (\<lambda>(k', _). k' \<noteq> k) (entries m)"
begin

lemmas map_laws = get_put get_del ok_put ok_del

lemma get_put_same [simp]: "get (put k v m) k = Some v"
  by (simp add: get_put)

lemma get_put_other: "k' \<noteq> k \<Longrightarrow> get (put k v m) k' = get m k'"
  by (simp add: get_put)

lemma get_del_same [simp]: "get (del k m) k = None"
  by (simp add: get_del)

lemma get_del_other: "k' \<noteq> k \<Longrightarrow> get (del k m) k' = get m k'"
  by (simp add: get_del)

lemma ok_fold_del: "ok m \<Longrightarrow> ok (fold del ks m)"
  by (induction ks arbitrary: m) (simp_all add: ok_del)

lemma get_fold_del: "get (fold del ks m) k = (if k \<in> set ks then None else get m k)"
  by (induction ks arbitrary: m) (auto simp: get_del)

lemma entries_fold_del: "entries (fold del ks m) = filter (\<lambda>(k, _). k \<notin> set ks) (entries m)"
proof (induction ks arbitrary: m)
  case Nil
  then show ?case by simp
next
  case (Cons k ks)
  then show ?case
    by (simp add: entries_del conj_commute case_prod_unfold)
qed

lemma length_entries_put:
  "length (entries (put k v m)) = length (entries m) + (if get m k = None then 1 else 0)"
proof (cases "get m k")
  case None
  then show ?thesis by (simp add: entries_put_new)
next
  case (Some w)
  then have "length (map fst (entries (put k v m))) = length (map fst (entries m))"
    by (simp only: keys_put_old)
  with Some show ?thesis by simp
qed

end

type_synonym ('k, 'v) amap = "('k \<times> 'v) list"

lemma map_fst_update_old: "map_of m k = Some w \<Longrightarrow> map fst (AList.update k v m) = map fst m"
  by (induction m) (auto split: if_splits)

lemma update_new: "map_of m k = None \<Longrightarrow> AList.update k v m = m @ [(k, v)]"
  by (induction m) (auto split: if_splits)

lemma delete_is_filter: "AList.delete k m = filter (\<lambda>(k', _). k' \<noteq> k) m"
  by (induction m) auto

interpretation amap: js_map
  "map_of" "AList.update" "AList.delete" "\<lambda>m. m" "\<lambda>m. distinct (map fst m)"
proof (unfold_locales, goal_cases)
  case 1 show ?case by (rule update_conv')
next
  case 2 show ?case by (rule delete_conv')
next
  case 3 then show ?case by (rule distinct_update)
next
  case 4 then show ?case by (rule distinct_delete)
next
  case 5 then show ?case by (rule map_of_eq_Some_iff)
next
  case 6 then show ?case .
next
  case 7 then show ?case by (rule update_new)
next
  case 8 then show ?case by (rule map_fst_update_old)
next
  case 9 show ?case by (rule delete_is_filter)
qed

lemma count_update_old:
  "map_of m k = Some v \<Longrightarrow> P v = P w \<Longrightarrow>
   length (filter P (map snd (AList.update k w m))) = length (filter P (map snd m))"
  by (induction m) (auto split: if_splits)

lemma count_filter_le: "length (filter P (map snd (filter Q m))) \<le> length (filter P (map snd m))"
  by (induction m) auto

section \<open>Secondary indexes\<close>

text \<open>
  A store \<open>L\<close> of values under identifiers and a second map \<open>B\<close> from the keys of the values to the
  identifiers. \<open>indexed\<close> says they agree in both directions, hence that a key belongs to one value.
\<close>

definition indexed :: "('i \<Rightarrow> 'v option) \<Rightarrow> ('v \<Rightarrow> 'k option) \<Rightarrow> ('k \<Rightarrow> 'i option) \<Rightarrow> bool" where
  "indexed L f B \<longleftrightarrow> (\<forall>k i. B k = Some i \<longleftrightarrow> (\<exists>v. L i = Some v \<and> f v = Some k))"

lemma indexedI:
  "(\<And>k i. B k = Some i \<Longrightarrow> \<exists>v. L i = Some v \<and> f v = Some k) \<Longrightarrow>
   (\<And>k i v. L i = Some v \<Longrightarrow> f v = Some k \<Longrightarrow> B k = Some i) \<Longrightarrow> indexed L f B"
  unfolding indexed_def by blast

lemma indexed_lookup: "indexed L f B \<Longrightarrow> L i = Some v \<Longrightarrow> f v = Some k \<Longrightarrow> B k = Some i"
  unfolding indexed_def by blast

lemma indexed_bound: "indexed L f B \<Longrightarrow> B k = Some i \<Longrightarrow> \<exists>v. L i = Some v \<and> f v = Some k"
  unfolding indexed_def by blast

lemma indexed_unique:
  "indexed L f B \<Longrightarrow> L i = Some v \<Longrightarrow> L j = Some w \<Longrightarrow> f v = Some k \<Longrightarrow> f w = Some k \<Longrightarrow> i = j"
  using indexed_lookup [of L f B i v k] indexed_lookup [of L f B j w k] by simp

lemma indexed_del:
  assumes x: "indexed L f B" and v: "L i = Some v"
  shows "indexed (L(i := None)) f (case f v of None \<Rightarrow> B | Some k \<Rightarrow> B(k := None))"
proof (rule indexedI)
  fix k j
  assume b: "(case f v of None \<Rightarrow> B | Some k \<Rightarrow> B(k := None)) k = Some j"
  then have "B k = Some j" and "f v \<noteq> Some k"
    by (auto split: option.splits if_splits)
  then show "\<exists>w. (L(i := None)) j = Some w \<and> f w = Some k"
    using indexed_bound [OF x] v by fastforce
next
  fix k j w
  assume w: "(L(i := None)) j = Some w" "f w = Some k"
  then have j: "j \<noteq> i" "L j = Some w"
    by (auto split: if_splits)
  then have "f v \<noteq> Some k"
    using indexed_unique [OF x v j(2)] w(2) by auto
  then show "(case f v of None \<Rightarrow> B | Some k \<Rightarrow> B(k := None)) k = Some j"
    using indexed_lookup [OF x j(2) w(2)] by (auto split: option.splits)
qed

lemma indexed_put:
  assumes x: "indexed L f B"
    and free: "\<And>k. f v = Some k \<Longrightarrow> B k = None \<or> B k = Some i"
    and old: "\<And>w. L i = Some w \<Longrightarrow> f w = f v"
  shows "indexed (L(i \<mapsto> v)) f (case f v of None \<Rightarrow> B | Some k \<Rightarrow> B(k \<mapsto> i))"
proof (rule indexedI)
  fix k j
  assume b: "(case f v of None \<Rightarrow> B | Some k \<Rightarrow> B(k \<mapsto> i)) k = Some j"
  show "\<exists>w. (L(i \<mapsto> v)) j = Some w \<and> f w = Some k"
  proof (cases "f v = Some k")
    case True
    with b have "j = i" by simp
    with True show ?thesis by simp
  next
    case False
    with b have "B k = Some j" by (auto split: option.splits if_splits)
    then obtain w where "L j = Some w" "f w = Some k"
      using indexed_bound [OF x] by blast
    with False old show ?thesis by (cases "j = i") auto
  qed
next
  fix k j w
  assume w: "(L(i \<mapsto> v)) j = Some w" "f w = Some k"
  show "(case f v of None \<Rightarrow> B | Some k \<Rightarrow> B(k \<mapsto> i)) k = Some j"
  proof (cases "j = i")
    case True
    with w show ?thesis by simp
  next
    case False
    with w have "B k = Some j"
      using indexed_lookup [OF x] by auto
    with False free [of k] show ?thesis by (auto split: option.splits)
  qed
qed

section \<open>JavaScript strings\<close>

text \<open>White space: tab to carriage return, space and the no-break space, which is what
  \<open>trim\<close> removes and \<open>\s\<close> matches among the code units below 256.\<close>

definition is_js_space :: "char \<Rightarrow> bool" where
  "is_js_space c = (let n = of_char c :: nat in n = 32 \<or> (9 \<le> n \<and> n \<le> 13) \<or> n = 160)"

definition js_trim_start :: "string \<Rightarrow> string" where
  "js_trim_start s = dropWhile is_js_space s"

definition js_trim :: "string \<Rightarrow> string" where
  "js_trim s = rev (js_trim_start (rev (js_trim_start s)))"

text \<open>\<open>toLowerCase\<close> below 256: the ASCII letters and the accented capitals but the multiplication
  sign.\<close>

definition js_lower_char :: "char \<Rightarrow> char" where
  "js_lower_char c =
     (let n = of_char c :: nat
      in if (65 \<le> n \<and> n \<le> 90) \<or> (192 \<le> n \<and> n \<le> 222 \<and> n \<noteq> 215) then char_of (n + 32) else c)"

definition js_lower :: "string \<Rightarrow> string" where
  "js_lower = map js_lower_char"

definition is_digit_char :: "char \<Rightarrow> bool" where
  "is_digit_char c = (let n = of_char c :: nat in 48 \<le> n \<and> n \<le> 57)"

definition is_letter_char :: "char \<Rightarrow> bool" where
  "is_letter_char c = (let n = of_char c :: nat in (65 \<le> n \<and> n \<le> 90) \<or> (97 \<le> n \<and> n \<le> 122))"

definition is_hex_char :: "char \<Rightarrow> bool" where
  "is_hex_char c =
     (let n = of_char c :: nat
      in (48 \<le> n \<and> n \<le> 57) \<or> (65 \<le> n \<and> n \<le> 70) \<or> (97 \<le> n \<and> n \<le> 102))"

text \<open>The value of an optional string, and JavaScript truthiness of one (\<open>undefined\<close> and the empty
  string are false).\<close>

definition truthy :: "string option \<Rightarrow> bool" where
  "truthy v = (case v of None \<Rightarrow> False | Some s \<Rightarrow> s \<noteq> [])"

lemma truthy_simps [simp]: "\<not> truthy None" "truthy (Some s) \<longleftrightarrow> s \<noteq> []"
  by (simp_all add: truthy_def)

definition js_join :: "string \<Rightarrow> string list \<Rightarrow> string" where
  "js_join sep xs = (case xs of [] \<Rightarrow> [] | y # ys \<Rightarrow> y @ concat (map (\<lambda>z. sep @ z) ys))"

text \<open>\<open>indexOf\<close> of one character.\<close>

fun js_index_of :: "char \<Rightarrow> string \<Rightarrow> nat option" where
  "js_index_of c [] = None"
| "js_index_of c (d # s) = (if c = d then Some 0 else map_option Suc (js_index_of c s))"

lemma js_index_of_None: "js_index_of c s = None \<longleftrightarrow> c \<notin> set s"
  by (induction s) auto

lemma js_index_of_Some:
  "js_index_of c s = Some i \<longleftrightarrow> i < length s \<and> s ! i = c \<and> c \<notin> set (take i s)"
proof (induction s arbitrary: i)
  case Nil
  then show ?case by simp
next
  case (Cons d s)
  show ?case by (cases i) (auto simp: Cons.IH)
qed

lemma js_index_of_append: "c \<notin> set s \<Longrightarrow> js_index_of c (s @ c # t) = Some (length s)"
  by (induction s) auto

text \<open>A string without white space at its ends is left alone by \<open>trim\<close>.\<close>

definition trimmed :: "string \<Rightarrow> bool" where
  "trimmed s \<longleftrightarrow> s = [] \<or> (\<not> is_js_space (hd s) \<and> \<not> is_js_space (last s))"

lemma dropWhile_fst_keep: "xs \<noteq> [] \<Longrightarrow> \<not> P (hd xs) \<Longrightarrow> dropWhile P xs = xs"
  by (cases xs) simp_all

lemma js_trim_trimmed: "trimmed s \<Longrightarrow> js_trim s = s"
  by (cases "s = []")
    (simp_all add: js_trim_def js_trim_start_def trimmed_def dropWhile_fst_keep hd_rev)

lemma dropWhile_no_hd: "dropWhile P xs \<noteq> [] \<Longrightarrow> \<not> P (hd (dropWhile P xs))"
  by (rule hd_dropWhile) (simp add: dropWhile_eq_Nil_conv)

lemma last_dropWhile: "dropWhile P xs \<noteq> [] \<Longrightarrow> last (dropWhile P xs) = last xs"
  by (induction xs) auto

lemma trimmed_js_trim: "trimmed (js_trim s)"
proof (cases "js_trim s = []")
  case True
  then show ?thesis by (simp add: trimmed_def)
next
  case False
  let ?u = "dropWhile is_js_space s"
  let ?v = "dropWhile is_js_space (rev ?u)"
  have v: "?v \<noteq> []" and u: "?u \<noteq> []"
    using False unfolding js_trim_def js_trim_start_def by (metis rev.simps(1), metis dropWhile.simps(1) rev.simps(1))
  have "last (rev ?v) = hd ?v"
    using v by (simp add: last_rev)
  then have l: "\<not> is_js_space (last (rev ?v))"
    using dropWhile_no_hd [OF v] by simp
  have "hd (rev ?v) = last ?v"
    using v by (simp add: hd_rev)
  also have "\<dots> = hd ?u"
    using last_dropWhile [OF v] u by (simp add: last_rev)
  finally have h: "\<not> is_js_space (hd (rev ?v))"
    using dropWhile_no_hd [OF u] by simp
  from h l show ?thesis
    by (simp add: trimmed_def js_trim_def js_trim_start_def)
qed

lemma js_trim_idem [simp]: "js_trim (js_trim s) = js_trim s"
  by (rule js_trim_trimmed) (rule trimmed_js_trim)

lemma js_trim_Nil [simp]: "js_trim [] = []"
  by (simp add: js_trim_def js_trim_start_def)

lemma set_js_trim: "set (js_trim s) \<subseteq> set s"
  unfolding js_trim_def js_trim_start_def by (metis set_dropWhileD set_rev subsetI)

lemma length_js_trim: "length (js_trim s) \<le> length s"
proof -
  have "length (js_trim s) \<le> length (js_trim_start s)"
    by (simp add: js_trim_def js_trim_start_def) (metis length_dropWhile_le length_rev)
  also have "\<dots> \<le> length s"
    by (simp add: js_trim_start_def length_dropWhile_le)
  finally show ?thesis .
qed

lemma trimmed_no_space: "(\<And>c. c \<in> set s \<Longrightarrow> \<not> is_js_space c) \<Longrightarrow> trimmed s"
  by (cases s) (auto simp: trimmed_def)

text \<open>\<open>includes\<close>, and \<open>replace(/\s+/g, ' ')\<close>.\<close>

fun js_includes :: "string \<Rightarrow> string \<Rightarrow> bool" where
  "js_includes [] q = (q = [])"
| "js_includes (c # s) q = (take (length q) (c # s) = q \<or> js_includes s q)"

lemma js_includes_iff: "js_includes s q \<longleftrightarrow> (\<exists>a b. s = a @ q @ b)"
proof (induction s)
  case Nil
  then show ?case by simp
next
  case (Cons c s)
  show ?case
  proof
    assume l: "js_includes (c # s) q"
    show "\<exists>a b. c # s = a @ q @ b"
    proof (cases "take (length q) (c # s) = q")
      case True
      then have "c # s = [] @ q @ drop (length q) (c # s)"
        using append_take_drop_id [of "length q" "c # s"] by simp
      then show ?thesis by blast
    next
      case False
      with l Cons obtain a b where "s = a @ q @ b" by auto
      then have "c # s = (c # a) @ q @ b" by simp
      then show ?thesis by blast
    qed
  next
    assume "\<exists>a b. c # s = a @ q @ b"
    then obtain a b where s: "c # s = a @ q @ b" by blast
    show "js_includes (c # s) q"
    proof (cases a)
      case Nil
      with s have "take (length q) (c # s) = q" by simp
      then show ?thesis by simp
    next
      case (Cons d a')
      with s have "s = a' @ q @ b" by simp
      with Cons.IH show ?thesis by auto
    qed
  qed
qed

function collapse_spaces :: "string \<Rightarrow> string" where
  "collapse_spaces [] = []"
| "collapse_spaces (c # s) =
     (if is_js_space c then CHR '' '' # collapse_spaces (dropWhile is_js_space s)
      else c # collapse_spaces s)"
  by pat_completeness auto
termination
  by (relation "measure length") (auto simp: le_imp_less_Suc length_dropWhile_le)

lemmas js_string_defs = js_trim_def js_trim_start_def is_js_space_def js_lower_def js_lower_char_def
  is_digit_char_def is_letter_char_def is_hex_char_def js_join_def

declare js_string_defs [js_simps]

end
