(* ===== verification/Leases.thy ===== *)
theory Leases
  imports Prelude
begin

text \<open>
  Device leases: \<^verbatim>\<open>src/daemon/lease-registry.ts\<close>, with the tenant identifier check of
  \<^verbatim>\<open>src/daemon/config.ts\<close> and the lease record of
  \<^verbatim>\<open>packages/contracts/src/device-provider.ts\<close>.

  The registry keeps three JavaScript maps (the leases, the run bindings, the device bindings) and its
  configured limits. A clock reading of the code (\<open>this.now()\<close>) is an argument of the operation that
  takes it, one argument per reading, and the random identifier of a new lease is an argument of
  \<open>allocateLease\<close>. The callback \<open>onLeaseExpired\<close> is recorded in \<open>expiredCalls\<close>. The keys
  \<open>JSON.stringify([...])\<close> are arrays of strings, so the tuple of these strings stands for the key.
\<close>

section \<open>Data\<close>

datatype lease_backend = IosSimulator | IosInstance | AndroidInstance

record device_lease =
  leaseId :: string
  tenantId :: string
  runId :: string
  backend :: lease_backend
  leaseProvider :: "string option"
  deviceKey :: "string option"
  clientId :: "string option"
  createdAt :: int
  heartbeatAt :: int
  expiresAt :: int

text \<open>A number the caller passes: an integer, or a value \<open>Number.isInteger\<close> rejects (a fraction,
  an infinity, \<open>NaN\<close>).\<close>

datatype js_number = JsInt int | JsNonInt

record lease_registry_options =
  opt_maxActiveSimulatorLeases :: "js_number option"
  opt_defaultLeaseTtlMs :: "js_number option"
  opt_minLeaseTtlMs :: "js_number option"
  opt_maxLeaseTtlMs :: "js_number option"

record lease_scope_request =
  rq_tenantId :: "string option"
  rq_runId :: "string option"
  rq_leaseBackend :: "string option"
  rq_leaseProvider :: "string option"
  rq_deviceKey :: "string option"
  rq_clientId :: "string option"

record allocate_lease_request =
  al_tenantId :: string
  al_runId :: string
  al_leaseBackend :: "string option"
  al_leaseProvider :: "string option"
  al_deviceKey :: "string option"
  al_clientId :: "string option"
  al_ttlMs :: "js_number option"

record heartbeat_lease_request = lease_scope_request +
  hb_leaseId :: string
  hb_ttlMs :: "js_number option"

record release_lease_request = lease_scope_request +
  rl_leaseId :: string

record admission_request = lease_scope_request +
  ad_leaseId :: "string option"

record normalized_scope_request =
  ns_tenantId :: "string option"
  ns_runId :: "string option"
  ns_leaseBackend :: "lease_backend option"
  ns_leaseProvider :: "string option"
  ns_deviceKey :: "string option"
  ns_clientId :: "string option"

record normalized_allocate_request =
  na_tenantId :: string
  na_runId :: string
  na_backend :: lease_backend
  na_leaseProvider :: "string option"
  na_deviceKey :: "string option"
  na_clientId :: "string option"
  na_ttlMs :: "js_number option"

text \<open>The errors the registry throws, with the data of their messages.\<close>

datatype lease_error =
    UnsupportedLeaseBackend string
  | InvalidDeviceKey
  | InvalidAgentIdentifier string nat
  | InvalidTenantId
  | InvalidRunId
  | InvalidLeaseId
  | TenantIsolationRequires string
  | LeaseTtlOutOfRange int int
  | DeviceLeaseBusy device_lease
  | LeaseCapacityExceeded nat int
  | LeaseNotFound
  | LeaseScopeMismatch
  | LeaseScopeRequired

fun lease_error_code :: "lease_error \<Rightarrow> string" where
  "lease_error_code (DeviceLeaseBusy _) = ''DEVICE_IN_USE''"
| "lease_error_code (LeaseCapacityExceeded _ _) = ''DEVICE_IN_USE''"
| "lease_error_code LeaseNotFound = ''UNAUTHORIZED''"
| "lease_error_code LeaseScopeMismatch = ''UNAUTHORIZED''"
| "lease_error_code LeaseScopeRequired = ''UNAUTHORIZED''"
| "lease_error_code _ = ''INVALID_ARGS''"

definition DEFAULT_LEASE_TTL_MS :: int where "DEFAULT_LEASE_TTL_MS = 60000"
definition MIN_LEASE_TTL_MS :: int where "MIN_LEASE_TTL_MS = 5000"
definition MAX_LEASE_TTL_MS :: int where "MAX_LEASE_TTL_MS = 10 * 60000"
definition DEFAULT_LEASE_PROVIDER :: string where "DEFAULT_LEASE_PROVIDER = ''default''"

lemmas lease_constants = DEFAULT_LEASE_TTL_MS_def MIN_LEASE_TTL_MS_def MAX_LEASE_TTL_MS_def

section \<open>Normalisation of the identifiers\<close>

definition is_identifier_char :: "char \<Rightarrow> bool" where
  "is_identifier_char c \<longleftrightarrow>
     is_letter_char c \<or> is_digit_char c \<or> c = CHR ''.'' \<or> c = CHR ''_'' \<or> c = CHR ''-''"

definition normalizeTenantId :: "string option \<Rightarrow> string option" where
  "normalizeTenantId raw =
     (case raw of
        None \<Rightarrow> None
      | Some r \<Rightarrow>
          if r = [] then None
          else let value = js_trim r in
            if value = [] then None
            else if \<not> (1 \<le> length value \<and> length value \<le> 128 \<and> list_all is_identifier_char value)
            then None
            else Some value)"

definition normalizeRunId :: "string option \<Rightarrow> string option" where
  "normalizeRunId raw =
     (case raw of
        None \<Rightarrow> None
      | Some r \<Rightarrow>
          if r = [] then None
          else let value = js_trim r in
            if value = [] then None
            else if \<not> (1 \<le> length value \<and> length value \<le> 128 \<and> list_all is_identifier_char value)
            then None
            else Some value)"

definition normalizeLeaseId :: "string option \<Rightarrow> string option" where
  "normalizeLeaseId raw =
     (case raw of
        None \<Rightarrow> None
      | Some r \<Rightarrow>
          if r = [] then None
          else let value = js_trim r in
            if value = [] then None
            else if \<not> (16 \<le> length value \<and> length value \<le> 128 \<and> list_all is_hex_char value)
            then None
            else Some (js_lower value))"

definition normalizeLeaseBackend :: "string option \<Rightarrow> lease_error + lease_backend" where
  "normalizeLeaseBackend raw =
     (let value = js_lower (js_trim (case raw of None \<Rightarrow> [] | Some r \<Rightarrow> r))
      in if value = [] \<or> value = ''ios-simulator'' then Inr IosSimulator
         else if value = ''ios-instance'' then Inr IosInstance
         else if value = ''android-instance'' then Inr AndroidInstance
         else Inl (UnsupportedLeaseBackend (case raw of None \<Rightarrow> [] | Some r \<Rightarrow> r)))"

definition is_printable_char :: "char \<Rightarrow> bool" where
  "is_printable_char c = (let n = of_char c :: nat in 32 \<le> n \<and> n \<le> 126)"

definition normalizeDeviceKey :: "string option \<Rightarrow> lease_error + string option" where
  "normalizeDeviceKey raw =
     (case raw of
        None \<Rightarrow> Inr None
      | Some r \<Rightarrow>
          let value = js_trim r in
          if value = [] \<or> length value > 256 \<or> \<not> list_all is_printable_char value
          then Inl InvalidDeviceKey
          else Inr (Some value))"

definition normalizeAgentIdentifier ::
    "string option \<Rightarrow> string \<Rightarrow> nat \<Rightarrow> lease_error + string option" where
  "normalizeAgentIdentifier raw label maxLength =
     (case raw of
        None \<Rightarrow> Inr None
      | Some r \<Rightarrow>
          let value = js_trim r in
          if value = [] \<or> length value > maxLength \<or> \<not> list_all is_identifier_char value
          then Inl (InvalidAgentIdentifier label maxLength)
          else Inr (Some value))"

definition normalizeClientId :: "string option \<Rightarrow> lease_error + string option" where
  "normalizeClientId raw = normalizeAgentIdentifier raw ''client id'' 128"

definition normalizeLeaseProvider :: "string option \<Rightarrow> lease_error + string option" where
  "normalizeLeaseProvider raw = normalizeAgentIdentifier raw ''lease provider'' 64"

definition normalizeRequiredTenantId :: "string \<Rightarrow> lease_error + string" where
  "normalizeRequiredTenantId raw =
     (case normalizeTenantId (Some raw) of None \<Rightarrow> Inl InvalidTenantId | Some t \<Rightarrow> Inr t)"

definition normalizeRequiredRunId :: "string \<Rightarrow> lease_error + string" where
  "normalizeRequiredRunId raw =
     (case normalizeRunId (Some raw) of None \<Rightarrow> Inl InvalidRunId | Some t \<Rightarrow> Inr t)"

definition normalizeAllocateLeaseRequest ::
    "allocate_lease_request \<Rightarrow> lease_error + normalized_allocate_request" where
  "normalizeAllocateLeaseRequest request =
     rbind (normalizeLeaseBackend (al_leaseBackend request)) (\<lambda>b.
     rbind (normalizeLeaseProvider (al_leaseProvider request)) (\<lambda>p.
     rbind (normalizeDeviceKey (al_deviceKey request)) (\<lambda>d.
     rbind (normalizeClientId (al_clientId request)) (\<lambda>c.
     rbind (normalizeRequiredTenantId (al_tenantId request)) (\<lambda>t.
     rbind (normalizeRequiredRunId (al_runId request)) (\<lambda>r.
       Inr \<lparr>na_tenantId = t, na_runId = r, na_backend = b, na_leaseProvider = p,
            na_deviceKey = d, na_clientId = c, na_ttlMs = al_ttlMs request\<rparr>))))))"

definition leaseRequiresOwnerScope :: "device_lease \<Rightarrow> bool" where
  "leaseRequiresOwnerScope lease \<longleftrightarrow>
     truthy (case leaseProvider lease of Some p \<Rightarrow> Some p
             | None \<Rightarrow> (case deviceKey lease of Some d \<Rightarrow> Some d | None \<Rightarrow> clientId lease))"

definition hasRequiredOwnerScope :: "device_lease \<Rightarrow> 'a lease_scope_request_scheme \<Rightarrow> bool" where
  "hasRequiredOwnerScope lease request \<longleftrightarrow>
     (if \<not> truthy (rq_tenantId request) \<or> \<not> truthy (rq_runId request) then False
      else list_all (\<lambda>(leaseValue, requestValue). \<not> truthy leaseValue \<or> truthy requestValue)
        [(leaseProvider lease, rq_leaseProvider request),
         (deviceKey lease, rq_deviceKey request),
         (clientId lease, rq_clientId request)])"

section \<open>The registry\<close>

type_synonym run_key = "string \<times> string \<times> lease_backend \<times> string \<times> string"
type_synonym device_key = "lease_backend \<times> string \<times> string"

record lease_registry =
  leases :: "(string, device_lease) amap"
  runBindings :: "(run_key, string) amap"
  deviceBindings :: "(device_key, string) amap"
  maxActiveSimulatorLeases :: int
  defaultLeaseTtlMs :: int
  minLeaseTtlMs :: int
  maxLeaseTtlMs :: int
  expiredCalls :: "device_lease list"

type_synonym 'a lease_op = "(lease_registry, lease_error, 'a) st_op"

definition newLeaseRegistry :: "lease_registry_options \<Rightarrow> lease_registry" where
  "newLeaseRegistry options =
     (let minTtl = (case opt_minLeaseTtlMs options of
                      Some (JsInt n) \<Rightarrow> max 1 n | _ \<Rightarrow> MIN_LEASE_TTL_MS)
      in \<lparr>leases = [], runBindings = [], deviceBindings = [],
          maxActiveSimulatorLeases =
            (case opt_maxActiveSimulatorLeases options of Some (JsInt n) \<Rightarrow> max 0 n | _ \<Rightarrow> 0),
          defaultLeaseTtlMs =
            (case opt_defaultLeaseTtlMs options of
               Some (JsInt n) \<Rightarrow> max 1 n | _ \<Rightarrow> DEFAULT_LEASE_TTL_MS),
          minLeaseTtlMs = minTtl,
          maxLeaseTtlMs =
            (case opt_maxLeaseTtlMs options of
               Some (JsInt n) \<Rightarrow> max minTtl n | _ \<Rightarrow> MAX_LEASE_TTL_MS),
          expiredCalls = []\<rparr>)"

subsection \<open>Keys and bindings\<close>

definition or_default :: "string option \<Rightarrow> string \<Rightarrow> string" where
  "or_default v d = (case v of None \<Rightarrow> d | Some x \<Rightarrow> x)"

definition bindingKey ::
    "string \<Rightarrow> string \<Rightarrow> lease_backend \<Rightarrow> string option \<Rightarrow> string option \<Rightarrow> run_key" where
  "bindingKey tenant run b provider device =
     (tenant, run, b, or_default provider DEFAULT_LEASE_PROVIDER, or_default device ''*'')"

definition deviceBindingKey ::
    "lease_backend \<Rightarrow> string option \<Rightarrow> string option \<Rightarrow> device_key option" where
  "deviceBindingKey b provider device =
     (if \<not> truthy device then None
      else Some (b, or_default provider DEFAULT_LEASE_PROVIDER, the device))"

definition leaseRunKey :: "device_lease \<Rightarrow> run_key" where
  "leaseRunKey l = bindingKey (tenantId l) (runId l) (backend l) (leaseProvider l) (deviceKey l)"

definition leaseDeviceKey :: "device_lease \<Rightarrow> device_key option" where
  "leaseDeviceKey l = deviceBindingKey (backend l) (leaseProvider l) (deviceKey l)"

definition bindLease :: "device_lease \<Rightarrow> lease_registry \<Rightarrow> lease_registry" where
  "bindLease lease r =
     (let r' = r\<lparr>runBindings := AList.update (leaseRunKey lease) (leaseId lease) (runBindings r)\<rparr>
      in case leaseDeviceKey lease of
           None \<Rightarrow> r'
         | Some k \<Rightarrow> r'\<lparr>deviceBindings := AList.update k (leaseId lease) (deviceBindings r')\<rparr>)"

definition unbindLease :: "device_lease \<Rightarrow> lease_registry \<Rightarrow> lease_registry" where
  "unbindLease lease r =
     (let r' = r\<lparr>runBindings := AList.delete (leaseRunKey lease) (runBindings r)\<rparr>
      in case leaseDeviceKey lease of
           None \<Rightarrow> r'
         | Some k \<Rightarrow> r'\<lparr>deviceBindings := AList.delete k (deviceBindings r')\<rparr>)"

definition setLease :: "device_lease \<Rightarrow> lease_registry \<Rightarrow> lease_registry" where
  "setLease lease r = r\<lparr>leases := AList.update (leaseId lease) lease (leases r)\<rparr>"

definition dropLease :: "device_lease \<Rightarrow> lease_registry \<Rightarrow> lease_registry" where
  "dropLease lease r = unbindLease lease (r\<lparr>leases := AList.delete (leaseId lease) (leases r)\<rparr>)"

subsection \<open>Expiry\<close>

definition notifyExpired :: "device_lease \<Rightarrow> lease_registry \<Rightarrow> lease_registry" where
  "notifyExpired lease r = r\<lparr>expiredCalls := expiredCalls r @ [lease]\<rparr>"

text \<open>The loop over \<open>this.leases.values()\<close>: the deletions in its body are of the entry just visited,
  so the values visited are those present at its start.\<close>

fun consumeExpiredLoop ::
    "int \<Rightarrow> device_lease list \<Rightarrow> device_lease list \<Rightarrow> lease_registry \<Rightarrow>
      device_lease list \<times> lease_registry" where
  "consumeExpiredLoop now [] expired r = (expired, r)"
| "consumeExpiredLoop now (lease # rest) expired r =
     (if expiresAt lease > now then consumeExpiredLoop now rest expired r
      else consumeExpiredLoop now rest (expired @ [lease]) (notifyExpired lease (dropLease lease r)))"

definition consumeExpiredLeases :: "int \<Rightarrow> lease_registry \<Rightarrow> device_lease list \<times> lease_registry" where
  "consumeExpiredLeases now r = consumeExpiredLoop now (map snd (leases r)) [] r"

definition consumeExpiredLease ::
    "int \<Rightarrow> string \<Rightarrow> lease_registry \<Rightarrow> device_lease option \<times> lease_registry" where
  "consumeExpiredLease now lid r =
     (case normalizeLeaseId (Some lid) of
        None \<Rightarrow> (None, r)
      | Some normalizedLeaseId \<Rightarrow>
          (case map_of (leases r) normalizedLeaseId of
             None \<Rightarrow> (None, r)
           | Some lease \<Rightarrow>
               if expiresAt lease > now then (None, r)
               else (Some lease, notifyExpired lease (dropLease lease r))))"

definition cleanupExpiredLeases :: "int \<Rightarrow> unit lease_op" where
  "cleanupExpiredLeases now r = (Inr (), snd (consumeExpiredLeases now r))"

subsection \<open>Checks\<close>

definition enforceCapacity :: "lease_backend \<Rightarrow> unit lease_op" where
  "enforceCapacity b r =
     (if b \<noteq> IosSimulator then (Inr (), r)
      else if maxActiveSimulatorLeases r \<le> 0 then (Inr (), r)
      else let active = length (filter (\<lambda>l. backend l = IosSimulator) (map snd (leases r)))
        in if int active < maxActiveSimulatorLeases r then (Inr (), r)
           else (Inl (LeaseCapacityExceeded active (maxActiveSimulatorLeases r)), r))"

definition resolveLeaseTtlMs :: "js_number option \<Rightarrow> int lease_op" where
  "resolveLeaseTtlMs raw r =
     (case raw of
        Some (JsInt value) \<Rightarrow>
          (if value < minLeaseTtlMs r \<or> value > maxLeaseTtlMs r
           then (Inl (LeaseTtlOutOfRange (minLeaseTtlMs r) (maxLeaseTtlMs r)), r)
           else (Inr value, r))
      | _ \<Rightarrow> (Inr (defaultLeaseTtlMs r), r))"

definition normalizeRequiredLeaseId :: "string option \<Rightarrow> lease_error + string" where
  "normalizeRequiredLeaseId raw =
     (case normalizeLeaseId raw of None \<Rightarrow> Inl InvalidLeaseId | Some l \<Rightarrow> Inr l)"

definition getActiveLease :: "string \<Rightarrow> device_lease lease_op" where
  "getActiveLease lid r =
     (case map_of (leases r) lid of Some lease \<Rightarrow> (Inr lease, r) | None \<Rightarrow> (Inl LeaseNotFound, r))"

definition assertOptionalLeaseIdentityMatch ::
    "device_lease \<Rightarrow> string option \<Rightarrow> string option \<Rightarrow> string option \<Rightarrow> lease_error + unit" where
  "assertOptionalLeaseIdentityMatch lease provider device client =
     (if truthy provider \<and> leaseProvider lease \<noteq> provider then Inl LeaseScopeMismatch
      else if truthy device \<and> deviceKey lease \<noteq> device then Inl LeaseScopeMismatch
      else if truthy client \<and> clientId lease \<noteq> client then Inl LeaseScopeMismatch
      else Inr ())"

definition normalizeOptionalScopeMatchRequest ::
    "'a lease_scope_request_scheme \<Rightarrow> lease_error + normalized_scope_request" where
  "normalizeOptionalScopeMatchRequest request =
     (let tenant = normalizeTenantId (rq_tenantId request);
          run = normalizeRunId (rq_runId request)
      in if truthy (rq_tenantId request) \<and> \<not> truthy tenant then Inl InvalidTenantId
         else if truthy (rq_runId request) \<and> \<not> truthy run then Inl InvalidRunId
         else
           rbind (if truthy (rq_leaseBackend request)
                  then rbind (normalizeLeaseBackend (rq_leaseBackend request)) (\<lambda>b. Inr (Some b))
                  else Inr None) (\<lambda>b.
           rbind (normalizeLeaseProvider (rq_leaseProvider request)) (\<lambda>p.
           rbind (normalizeDeviceKey (rq_deviceKey request)) (\<lambda>d.
           rbind (normalizeClientId (rq_clientId request)) (\<lambda>c.
             Inr \<lparr>ns_tenantId = tenant, ns_runId = run, ns_leaseBackend = b,
                  ns_leaseProvider = p, ns_deviceKey = d, ns_clientId = c\<rparr>)))))"

definition assertOptionalScopeMatch ::
    "device_lease \<Rightarrow> 'a lease_scope_request_scheme \<Rightarrow> lease_error + unit" where
  "assertOptionalScopeMatch lease request =
     rbind (normalizeOptionalScopeMatchRequest request) (\<lambda>n.
       if (truthy (ns_tenantId n) \<and> Some (tenantId lease) \<noteq> ns_tenantId n) \<or>
          (truthy (ns_runId n) \<and> Some (runId lease) \<noteq> ns_runId n) \<or>
          (ns_leaseBackend n \<noteq> None \<and> Some (backend lease) \<noteq> ns_leaseBackend n)
       then Inl LeaseScopeMismatch
       else assertOptionalLeaseIdentityMatch lease
              (ns_leaseProvider n) (ns_deviceKey n) (ns_clientId n))"

definition assertRequiredScopeForDeviceAwareLease ::
    "device_lease \<Rightarrow> 'a lease_scope_request_scheme \<Rightarrow> lease_error + unit" where
  "assertRequiredScopeForDeviceAwareLease lease request =
     (if \<not> leaseRequiresOwnerScope lease then Inr ()
      else if \<not> hasRequiredOwnerScope lease request then Inl LeaseScopeRequired
      else Inr ())"

definition canReuseRunBinding :: "device_lease \<Rightarrow> string option \<Rightarrow> bool" where
  "canReuseRunBinding lease client \<longleftrightarrow> clientId lease = client"

subsection \<open>Operations\<close>

definition refreshLease :: "int \<Rightarrow> device_lease \<Rightarrow> int \<Rightarrow> device_lease lease_op" where
  "refreshLease now lease ttlMs r =
     (let updated = lease\<lparr>heartbeatAt := now, expiresAt := now + ttlMs\<rparr>
      in (Inr updated, bindLease updated (setLease updated r)))"

definition requestBindingKey :: "normalized_allocate_request \<Rightarrow> run_key" where
  "requestBindingKey q =
     bindingKey (na_tenantId q) (na_runId q) (na_backend q) (na_leaseProvider q) (na_deviceKey q)"

definition refreshExistingRunBinding ::
    "int \<Rightarrow> normalized_allocate_request \<Rightarrow> int \<Rightarrow> device_lease option lease_op" where
  "refreshExistingRunBinding now request leaseTtlMs r =
     (let key = requestBindingKey request;
          existingId = map_of (runBindings r) key
      in if \<not> truthy existingId then (Inr None, r)
         else case map_of (leases r) (the existingId) of
             None \<Rightarrow> (Inr None, r\<lparr>runBindings := AList.delete key (runBindings r)\<rparr>)
           | Some existingLease \<Rightarrow>
               if canReuseRunBinding existingLease (na_clientId request)
               then sbind (refreshLease now existingLease leaseTtlMs) (\<lambda>l. sret (Some l)) r
               else if truthy (deviceKey existingLease) then (Inl (DeviceLeaseBusy existingLease), r)
               else sbind (slift (assertOptionalLeaseIdentityMatch existingLease
                       (na_leaseProvider request) (na_deviceKey request) (na_clientId request)))
                 (\<lambda>_. sbind (refreshLease now existingLease leaseTtlMs) (\<lambda>l. sret (Some l))) r)"

definition assertDeviceAvailable :: "normalized_allocate_request \<Rightarrow> unit lease_op" where
  "assertDeviceAvailable params r =
     (case deviceBindingKey (na_backend params) (na_leaseProvider params) (na_deviceKey params) of
        None \<Rightarrow> (Inr (), r)
      | Some key \<Rightarrow>
          let activeLeaseId = map_of (deviceBindings r) key in
          if \<not> truthy activeLeaseId then (Inr (), r)
          else case map_of (leases r) (the activeLeaseId) of
              None \<Rightarrow> (Inr (), r\<lparr>deviceBindings := AList.delete key (deviceBindings r)\<rparr>)
            | Some activeLease \<Rightarrow> (Inl (DeviceLeaseBusy activeLease), r))"

definition keep_truthy :: "string option \<Rightarrow> string option" where
  "keep_truthy v = (if truthy v then v else None)"

definition createLease :: "int \<Rightarrow> string \<Rightarrow> normalized_allocate_request \<Rightarrow> int \<Rightarrow> device_lease" where
  "createLease now newId request leaseTtlMs =
     \<lparr>leaseId = newId, tenantId = na_tenantId request, runId = na_runId request,
      backend = na_backend request, leaseProvider = keep_truthy (na_leaseProvider request),
      deviceKey = keep_truthy (na_deviceKey request), clientId = keep_truthy (na_clientId request),
      createdAt = now, heartbeatAt = now, expiresAt = now + leaseTtlMs\<rparr>"

definition allocateLease ::
    "int \<Rightarrow> int \<Rightarrow> string \<Rightarrow> allocate_lease_request \<Rightarrow> device_lease lease_op" where
  "allocateLease now now' newId request =
     sbind (slift (normalizeAllocateLeaseRequest request)) (\<lambda>normalized.
     sbind (cleanupExpiredLeases now) (\<lambda>_.
     sbind (resolveLeaseTtlMs (na_ttlMs normalized)) (\<lambda>leaseTtlMs.
     sbind (refreshExistingRunBinding now' normalized leaseTtlMs) (\<lambda>existing.
       case existing of
         Some lease \<Rightarrow> sret lease
       | None \<Rightarrow>
           sbind (assertDeviceAvailable normalized) (\<lambda>_.
           sbind (enforceCapacity (na_backend normalized)) (\<lambda>_.
             let lease = createLease now' newId normalized leaseTtlMs in
             sbind (smodify (\<lambda>r. bindLease lease (setLease lease r))) (\<lambda>_. sret lease)))))))"

definition heartbeatLease ::
    "int \<Rightarrow> int \<Rightarrow> heartbeat_lease_request \<Rightarrow> device_lease lease_op" where
  "heartbeatLease now now' request =
     sbind (slift (normalizeRequiredLeaseId (Some (hb_leaseId request)))) (\<lambda>lid.
     sbind (cleanupExpiredLeases now) (\<lambda>_.
     sbind (getActiveLease lid) (\<lambda>lease.
     sbind (slift (assertRequiredScopeForDeviceAwareLease lease request)) (\<lambda>_.
     sbind (slift (assertOptionalScopeMatch lease request)) (\<lambda>_.
     sbind (resolveLeaseTtlMs (hb_ttlMs request)) (\<lambda>leaseTtlMs.
       refreshLease now' lease leaseTtlMs))))))"

definition getLease :: "int \<Rightarrow> release_lease_request \<Rightarrow> device_lease option lease_op" where
  "getLease now request =
     sbind (slift (normalizeRequiredLeaseId (Some (rl_leaseId request)))) (\<lambda>lid.
     sbind (cleanupExpiredLeases now) (\<lambda>_ r.
       case map_of (leases r) lid of
         None \<Rightarrow> (Inr None, r)
       | Some lease \<Rightarrow>
           sbind (slift (assertRequiredScopeForDeviceAwareLease lease request)) (\<lambda>_.
           sbind (slift (assertOptionalScopeMatch lease request)) (\<lambda>_. sret (Some lease))) r))"

definition releaseLease :: "int \<Rightarrow> release_lease_request \<Rightarrow> device_lease option lease_op" where
  "releaseLease now request =
     sbind (getLease now request) (\<lambda>found.
       case found of
         None \<Rightarrow> sret None
       | Some lease \<Rightarrow> sbind (smodify (dropLease lease)) (\<lambda>_. sret (Some lease)))"

definition assertLeaseAdmission :: "int \<Rightarrow> admission_request \<Rightarrow> unit lease_op" where
  "assertLeaseAdmission now request =
     sbind (slift (normalizeLeaseBackend (rq_leaseBackend request))) (\<lambda>b r.
       case normalizeTenantId (rq_tenantId request) of
         None \<Rightarrow> (Inl (TenantIsolationRequires ''tenant id''), r)
       | Some tenant \<Rightarrow>
       (case normalizeRunId (rq_runId request) of
         None \<Rightarrow> (Inl (TenantIsolationRequires ''run id''), r)
       | Some run \<Rightarrow>
       (case normalizeLeaseId (ad_leaseId request) of
         None \<Rightarrow> (Inl (TenantIsolationRequires ''lease id''), r)
       | Some lid \<Rightarrow>
           sbind (cleanupExpiredLeases now) (\<lambda>_.
           sbind (getActiveLease lid) (\<lambda>lease.
             slift (assertOptionalScopeMatch lease
               \<lparr>rq_tenantId = Some tenant, rq_runId = Some run,
                rq_leaseBackend = Some (case b of IosSimulator \<Rightarrow> ''ios-simulator''
                  | IosInstance \<Rightarrow> ''ios-instance'' | AndroidInstance \<Rightarrow> ''android-instance''),
                rq_leaseProvider = rq_leaseProvider request,
                rq_deviceKey = rq_deviceKey request,
                rq_clientId = rq_clientId request\<rparr>))) r)))"

definition listActiveLeases :: "int \<Rightarrow> device_lease list lease_op" where
  "listActiveLeases now =
     sbind (cleanupExpiredLeases now) (\<lambda>_ r. (Inr (map snd (leases r)), r))"


section \<open>The registry invariant\<close>

text \<open>
  The three maps agree: a lease is stored under its identifier, and a run key (a device key) is bound
  to an identifier exactly when the lease of that identifier is stored and has this key. So no two
  stored leases share a run key, and no two share a device key.
\<close>

definition reg_inv :: "lease_registry \<Rightarrow> bool" where
  "reg_inv r \<longleftrightarrow>
     distinct (map fst (leases r)) \<and>
     (\<forall>lid l. map_of (leases r) lid = Some l \<longrightarrow> leaseId l = lid \<and> lid \<noteq> []) \<and>
     indexed (map_of (leases r)) (\<lambda>l. Some (leaseRunKey l)) (map_of (runBindings r)) \<and>
     indexed (map_of (leases r)) leaseDeviceKey (map_of (deviceBindings r))"

lemma reg_inv_distinct: "reg_inv r \<Longrightarrow> distinct (map fst (leases r))"
  and reg_inv_id: "reg_inv r \<Longrightarrow> map_of (leases r) lid = Some l \<Longrightarrow> leaseId l = lid \<and> lid \<noteq> []"
  and reg_inv_run:
    "reg_inv r \<Longrightarrow> indexed (map_of (leases r)) (\<lambda>l. Some (leaseRunKey l)) (map_of (runBindings r))"
  and reg_inv_dev: "reg_inv r \<Longrightarrow> indexed (map_of (leases r)) leaseDeviceKey (map_of (deviceBindings r))"
  by (simp_all add: reg_inv_def)

lemma reg_inv_member:
  assumes "reg_inv r"
  shows "l \<in> snd ` set (leases r) \<longleftrightarrow> map_of (leases r) (leaseId l) = Some l"
proof
  assume "l \<in> snd ` set (leases r)"
  then obtain lid where "(lid, l) \<in> set (leases r)" by auto
  then have "map_of (leases r) lid = Some l"
    using reg_inv_distinct [OF assms] by simp
  then show "map_of (leases r) (leaseId l) = Some l"
    using reg_inv_id [OF assms] by auto
qed (force dest: map_of_SomeD)

text \<open>What the map updates do to the three maps and to the rest of the state.\<close>

lemma setLease_sel [simp]:
  "map_of (leases (setLease l r)) = (map_of (leases r))(leaseId l \<mapsto> l)"
  "runBindings (setLease l r) = runBindings r"
  "deviceBindings (setLease l r) = deviceBindings r"
  "expiredCalls (setLease l r) = expiredCalls r"
  by (simp_all add: setLease_def update_conv')

lemma bindLease_sel [simp]:
  "leases (bindLease l r) = leases r"
  "map_of (runBindings (bindLease l r)) = (map_of (runBindings r))(leaseRunKey l \<mapsto> leaseId l)"
  "map_of (deviceBindings (bindLease l r)) =
     (case leaseDeviceKey l of None \<Rightarrow> map_of (deviceBindings r)
      | Some k \<Rightarrow> (map_of (deviceBindings r))(k \<mapsto> leaseId l))"
  "expiredCalls (bindLease l r) = expiredCalls r"
  by (simp_all add: bindLease_def update_conv' Let_def split: option.splits)

lemma dropLease_sel [simp]:
  "leases (dropLease l r) = AList.delete (leaseId l) (leases r)"
  "map_of (runBindings (dropLease l r)) = (map_of (runBindings r))(leaseRunKey l := None)"
  "map_of (deviceBindings (dropLease l r)) =
     (case leaseDeviceKey l of None \<Rightarrow> map_of (deviceBindings r)
      | Some k \<Rightarrow> (map_of (deviceBindings r))(k := None))"
  "expiredCalls (dropLease l r) = expiredCalls r"
  by (simp_all add: dropLease_def unbindLease_def delete_conv' Let_def split: option.splits)

lemma notifyExpired_sel [simp]:
  "leases (notifyExpired l r) = leases r"
  "runBindings (notifyExpired l r) = runBindings r"
  "deviceBindings (notifyExpired l r) = deviceBindings r"
  "expiredCalls (notifyExpired l r) = expiredCalls r @ [l]"
  by (simp_all add: notifyExpired_def)

definition lease_config :: "lease_registry \<Rightarrow> int \<times> int \<times> int \<times> int" where
  "lease_config r = (maxActiveSimulatorLeases r, defaultLeaseTtlMs r, minLeaseTtlMs r, maxLeaseTtlMs r)"

lemma lease_config_updates [simp]:
  "lease_config (setLease l r) = lease_config r"
  "lease_config (bindLease l r) = lease_config r"
  "lease_config (dropLease l r) = lease_config r"
  "lease_config (notifyExpired l r) = lease_config r"
  "lease_config (r\<lparr>runBindings := x\<rparr>) = lease_config r"
  "lease_config (r\<lparr>deviceBindings := y\<rparr>) = lease_config r"
  by (auto simp: lease_config_def setLease_def bindLease_def dropLease_def unbindLease_def
      notifyExpired_def Let_def split: option.splits)

lemma reg_inv_notify [simp]: "reg_inv (notifyExpired l r) \<longleftrightarrow> reg_inv r"
  by (simp add: reg_inv_def)

lemma reg_inv_drop:
  assumes inv: "reg_inv r" and l: "map_of (leases r) (leaseId l) = Some l"
  shows "reg_inv (dropLease l r)"
  using indexed_del [OF reg_inv_run [OF inv] l] indexed_del [OF reg_inv_dev [OF inv] l]
    reg_inv_distinct [OF inv] reg_inv_id [OF inv]
  by (simp add: reg_inv_def delete_conv' distinct_delete)

lemma reg_inv_put:
  assumes inv: "reg_inv r" and id: "leaseId l \<noteq> []"
    and run: "map_of (runBindings r) (leaseRunKey l) \<in> {None, Some (leaseId l)}"
    and dev: "\<And>k. leaseDeviceKey l = Some k \<Longrightarrow>
      map_of (deviceBindings r) k \<in> {None, Some (leaseId l)}"
    and old: "\<And>m. map_of (leases r) (leaseId l) = Some m \<Longrightarrow>
      leaseRunKey m = leaseRunKey l \<and> leaseDeviceKey m = leaseDeviceKey l"
  shows "reg_inv (bindLease l (setLease l r))"
proof -
  let ?L = "(map_of (leases r))(leaseId l \<mapsto> l)"
  have "indexed ?L (\<lambda>l. Some (leaseRunKey l)) ((map_of (runBindings r))(leaseRunKey l \<mapsto> leaseId l))"
    using indexed_put [OF reg_inv_run [OF inv], of l "leaseId l"] run old by auto
  moreover have "indexed ?L leaseDeviceKey (map_of (deviceBindings (bindLease l (setLease l r))))"
    unfolding bindLease_sel setLease_sel
    by (rule indexed_put [OF reg_inv_dev [OF inv]]) (use dev old in auto)
  ultimately show ?thesis
    using reg_inv_distinct [OF inv] reg_inv_id [OF inv] id
    by (simp add: reg_inv_def) (simp add: setLease_def distinct_update)
qed

text \<open>Refreshing a stored lease changes its times only.\<close>

lemma refresh_keys [simp]:
  "leaseRunKey (l\<lparr>heartbeatAt := h, expiresAt := e\<rparr>) = leaseRunKey l"
  "leaseDeviceKey (l\<lparr>heartbeatAt := h, expiresAt := e\<rparr>) = leaseDeviceKey l"
  by (simp_all add: leaseRunKey_def leaseDeviceKey_def)

lemma reg_inv_refresh:
  assumes inv: "reg_inv r" and l: "map_of (leases r) (leaseId l) = Some l"
  shows "reg_inv (snd (refreshLease now l ttl r))"
proof -
  let ?u = "l\<lparr>heartbeatAt := now, expiresAt := now + ttl\<rparr>"
  have "reg_inv (bindLease ?u (setLease ?u r))"
  proof (rule reg_inv_put [OF inv])
    show "leaseId ?u \<noteq> []"
      using reg_inv_id [OF inv l] by simp
    show "map_of (runBindings r) (leaseRunKey ?u) \<in> {None, Some (leaseId ?u)}"
      using indexed_lookup [OF reg_inv_run [OF inv] l] by simp
    show "map_of (deviceBindings r) k \<in> {None, Some (leaseId ?u)}" if "leaseDeviceKey ?u = Some k" for k
      using indexed_lookup [OF reg_inv_dev [OF inv] l] that by simp
  qed (use l in auto)
  then show ?thesis
    by (simp add: refreshLease_def Let_def)
qed

section \<open>Expiry\<close>

abbreviation expired_at :: "int \<Rightarrow> device_lease \<Rightarrow> bool" where
  "expired_at now l \<equiv> expiresAt l \<le> now"

definition stored_leases :: "lease_registry \<Rightarrow> device_lease list" where
  "stored_leases r = map snd (leases r)"

lemma consumeExpiredLoop_spec:
  assumes "reg_inv r" and "\<And>l. l \<in> set ls \<Longrightarrow> map_of (leases r) (leaseId l) = Some l"
    and "distinct (map leaseId ls)"
  shows "fst (consumeExpiredLoop now ls acc r) = acc @ filter (expired_at now) ls \<and>
    leases (snd (consumeExpiredLoop now ls acc r)) =
      filter (\<lambda>(k, _). k \<notin> leaseId ` set (filter (expired_at now) ls)) (leases r) \<and>
    expiredCalls (snd (consumeExpiredLoop now ls acc r)) =
      expiredCalls r @ filter (expired_at now) ls \<and>
    lease_config (snd (consumeExpiredLoop now ls acc r)) = lease_config r \<and>
    reg_inv (snd (consumeExpiredLoop now ls acc r))"
  using assms
proof (induction ls arbitrary: acc r)
  case Nil
  then show ?case by simp
next
  case (Cons l ls)
  let ?r = "notifyExpired l (dropLease l r)"
  have l: "map_of (leases r) (leaseId l) = Some l"
    using Cons.prems(2) by simp
  have rest: "map_of (leases ?r) (leaseId m) = Some m" if "m \<in> set ls" for m
  proof -
    have "leaseId m \<noteq> leaseId l"
      using that Cons.prems(3) by (metis distinct.simps(2) image_eqI list.set_map list.simps(9))
    then show ?thesis
      using that Cons.prems(2) by (simp add: delete_conv')
  qed
  have inv: "reg_inv ?r"
    using reg_inv_drop [OF Cons.prems(1) l] by simp
  show ?case
  proof (cases "expiresAt l > now")
    case True
    with Cons.IH [OF Cons.prems(1), of acc] Cons.prems(2,3) show ?thesis by simp
  next
    case False
    with Cons.IH [OF inv rest, of "acc @ [l]"] Cons.prems(3) show ?thesis
      by (simp add: delete_is_filter case_prod_unfold conj_commute)
  qed
qed

lemma stored_facts:
  assumes "reg_inv r"
  shows stored_lookup: "l \<in> set (stored_leases r) \<longleftrightarrow> map_of (leases r) (leaseId l) = Some l"
    and stored_ids: "map leaseId (stored_leases r) = map fst (leases r)"
proof -
  show "l \<in> set (stored_leases r) \<longleftrightarrow> map_of (leases r) (leaseId l) = Some l"
    using reg_inv_member [OF assms, of l] by (simp add: stored_leases_def)
  have "leaseId (snd p) = fst p" if "p \<in> set (leases r)" for p
    using that reg_inv_distinct [OF assms] reg_inv_id [OF assms, of "fst p" "snd p"] by simp
  then show "map leaseId (stored_leases r) = map fst (leases r)"
    by (simp add: stored_leases_def)
qed

text \<open>\<open>consumeExpiredLeases\<close> splits the stored leases by their expiry, in order.\<close>

lemma consumeExpiredLeases_spec:
  assumes inv: "reg_inv r"
  shows "fst (consumeExpiredLeases now r) = filter (expired_at now) (stored_leases r)"
    and "leases (snd (consumeExpiredLeases now r)) =
      filter (\<lambda>(_, l). \<not> expired_at now l) (leases r)"
    and "expiredCalls (snd (consumeExpiredLeases now r)) =
      expiredCalls r @ filter (expired_at now) (stored_leases r)"
    and "lease_config (snd (consumeExpiredLeases now r)) = lease_config r"
    and "reg_inv (snd (consumeExpiredLeases now r))"
proof -
  let ?ls = "stored_leases r"
  have 1: "map_of (leases r) (leaseId l) = Some l" if "l \<in> set ?ls" for l
    using that by (simp add: stored_lookup [OF inv])
  have 2: "distinct (map leaseId ?ls)"
    using reg_inv_distinct [OF inv] by (simp add: stored_ids [OF inv])
  have 3: "fst p \<in> leaseId ` set (filter (expired_at now) ?ls) \<longleftrightarrow> expired_at now (snd p)"
    if "p \<in> set (leases r)" for p
  proof -
    have p: "map_of (leases r) (fst p) = Some (snd p)" "leaseId (snd p) = fst p"
      using that reg_inv_distinct [OF inv] reg_inv_id [OF inv, of "fst p" "snd p"] by simp_all
    then have "snd p \<in> set ?ls" by (simp add: stored_lookup [OF inv])
    with p 1 show ?thesis by force
  qed
  note spec = consumeExpiredLoop_spec [OF inv 1 2, of now "[]", folded stored_leases_def]
  have 4: "filter (\<lambda>(k, _). k \<notin> leaseId ` set (filter (expired_at now) ?ls)) (leases r) =
      filter (\<lambda>(_, l). \<not> expired_at now l) (leases r)"
    by (rule filter_cong) (use 3 in \<open>auto simp: case_prod_unfold\<close>)
  show "fst (consumeExpiredLeases now r) = filter (expired_at now) (stored_leases r)"
    and "leases (snd (consumeExpiredLeases now r)) =
      filter (\<lambda>(_, l). \<not> expired_at now l) (leases r)"
    and "expiredCalls (snd (consumeExpiredLeases now r)) =
      expiredCalls r @ filter (expired_at now) (stored_leases r)"
    and "lease_config (snd (consumeExpiredLeases now r)) = lease_config r"
    and "reg_inv (snd (consumeExpiredLeases now r))"
    using spec 4 by (simp_all add: consumeExpiredLeases_def stored_leases_def)
qed

lemma map_of_filter_value:
  "distinct (map fst m) \<Longrightarrow>
   map_of (filter (\<lambda>(_, v). P v) m) k = (case map_of m k of None \<Rightarrow> None | Some v \<Rightarrow> if P v then Some v else None)"
  by (induction m) (auto split: option.splits simp: map_of_eq_None_iff)

definition live :: "int \<Rightarrow> lease_registry \<Rightarrow> string \<Rightarrow> device_lease option" where
  "live now r lid =
     (case map_of (leases r) lid of Some l \<Rightarrow> if expired_at now l then None else Some l | None \<Rightarrow> None)"

lemma live_Some: "live now r lid = Some l \<longleftrightarrow> map_of (leases r) lid = Some l \<and> now < expiresAt l"
  by (auto simp: live_def split: option.splits)

abbreviation swept :: "int \<Rightarrow> lease_registry \<Rightarrow> lease_registry" where
  "swept now r \<equiv> snd (consumeExpiredLeases now r)"

lemma swept_lookup: "reg_inv r \<Longrightarrow> map_of (leases (swept now r)) lid = live now r lid"
  by (simp add: consumeExpiredLeases_spec(2) map_of_filter_value [OF reg_inv_distinct] live_def
      split: option.splits)

lemma cleanup_apply: "cleanupExpiredLeases now r = (Inr (), swept now r)"
  by (simp add: cleanupExpiredLeases_def)

lemma reg_inv_swept: "reg_inv r \<Longrightarrow> reg_inv (swept now r)"
  by (rule consumeExpiredLeases_spec(5))

section \<open>Every operation keeps the invariant\<close>

lemma stored_refreshable:
  "reg_inv r \<Longrightarrow> map_of (leases r) lid = Some l \<Longrightarrow> reg_inv (snd (refreshLease now l ttl r))"
  using reg_inv_refresh reg_inv_id by metis

lemma refreshLease_result:
  "refreshLease now l ttl r =
    (Inr (l\<lparr>heartbeatAt := now, expiresAt := now + ttl\<rparr>), snd (refreshLease now l ttl r))"
  by (simp add: refreshLease_def Let_def)

lemma resolveLeaseTtlMs_state [simp]: "snd (resolveLeaseTtlMs raw r) = r"
  by (auto simp: resolveLeaseTtlMs_def split: option.splits js_number.splits)

lemma enforceCapacity_state [simp]: "snd (enforceCapacity b r) = r"
  by (auto simp: enforceCapacity_def Let_def)

text \<open>Under the invariant no binding dangles, so the two repairs of the code never fire and both
  binding lookups have a simpler equation.\<close>

abbreviation touched :: "int \<Rightarrow> int \<Rightarrow> device_lease \<Rightarrow> device_lease" where
  "touched now ttl l \<equiv> l\<lparr>heartbeatAt := now, expiresAt := now + ttl\<rparr>"

lemma run_binding_stored:
  assumes "reg_inv r" and "map_of (runBindings r) k = Some lid"
  obtains l where "map_of (leases r) lid = Some l" and "leaseId l = lid" and "lid \<noteq> []"
    and "leaseRunKey l = k"
  using indexed_bound [OF reg_inv_run [OF assms(1)] assms(2)] reg_inv_id [OF assms(1)] by auto

lemma device_binding_stored:
  assumes "reg_inv r" and "map_of (deviceBindings r) k = Some lid"
  obtains l where "map_of (leases r) lid = Some l" and "leaseId l = lid" and "lid \<noteq> []"
    and "leaseDeviceKey l = Some k"
  using indexed_bound [OF reg_inv_dev [OF assms(1)] assms(2)] reg_inv_id [OF assms(1)] by auto

lemma refreshExisting_eq:
  assumes inv: "reg_inv r"
  shows "refreshExistingRunBinding now q ttl r =
    (case map_of (runBindings r) (requestBindingKey q) of
       None \<Rightarrow> (Inr None, r)
     | Some lid \<Rightarrow>
         let l = the (map_of (leases r) lid);
             done = (Inr (Some (touched now ttl l)), snd (refreshLease now l ttl r))
         in if clientId l = na_clientId q then done
            else if truthy (deviceKey l) then (Inl (DeviceLeaseBusy l), r)
            else case assertOptionalLeaseIdentityMatch l
                   (na_leaseProvider q) (na_deviceKey q) (na_clientId q) of
                Inl e \<Rightarrow> (Inl e, r)
              | Inr _ \<Rightarrow> done)"
proof (cases "map_of (runBindings r) (requestBindingKey q)")
  case None
  then show ?thesis by (simp add: refreshExistingRunBinding_def)
next
  case (Some lid)
  then obtain l where "map_of (leases r) lid = Some l" and "lid \<noteq> []"
    by (rule run_binding_stored [OF inv])
  with Some show ?thesis
    by (simp add: refreshExistingRunBinding_def canReuseRunBinding_def Let_def sbind_def slift_def
        sret_def refreshLease_def split: sum.split)
qed

lemma assertDeviceAvailable_eq:
  assumes inv: "reg_inv r"
  shows "assertDeviceAvailable q r =
    (case deviceBindingKey (na_backend q) (na_leaseProvider q) (na_deviceKey q) of
       None \<Rightarrow> (Inr (), r)
     | Some k \<Rightarrow>
         (case map_of (deviceBindings r) k of
            None \<Rightarrow> (Inr (), r)
          | Some lid \<Rightarrow> (Inl (DeviceLeaseBusy (the (map_of (leases r) lid))), r)))"
proof (cases "deviceBindingKey (na_backend q) (na_leaseProvider q) (na_deviceKey q)")
  case None
  then show ?thesis by (simp add: assertDeviceAvailable_def)
next
  case key: (Some k)
  show ?thesis
  proof (cases "map_of (deviceBindings r) k")
    case None
    with key show ?thesis by (simp add: assertDeviceAvailable_def)
  next
    case (Some lid)
    then obtain l where "map_of (leases r) lid = Some l" and "lid \<noteq> []"
      by (rule device_binding_stored [OF inv])
    with key Some show ?thesis by (simp add: assertDeviceAvailable_def)
  qed
qed

lemma refreshExisting_inv:
  assumes inv: "reg_inv r"
  shows "reg_inv (snd (refreshExistingRunBinding now q ttl r))"
proof (cases "map_of (runBindings r) (requestBindingKey q)")
  case None
  with inv show ?thesis by (simp add: refreshExisting_eq)
next
  case (Some lid)
  then obtain l where "map_of (leases r) lid = Some l"
    by (rule run_binding_stored [OF inv])
  then show ?thesis
    using inv Some stored_refreshable [OF inv]
    by (simp add: refreshExisting_eq [OF inv] Let_def split: sum.split)
qed

lemma refreshExisting_None:
  assumes inv: "reg_inv r" and res: "refreshExistingRunBinding now q ttl r = (Inr None, r')"
  shows "r' = r \<and> map_of (runBindings r) (requestBindingKey q) = None"
  using res by (simp add: refreshExisting_eq [OF inv] Let_def split: option.splits if_splits sum.splits)

lemma assertDeviceAvailable_inv:
  assumes inv: "reg_inv r"
  shows "snd (assertDeviceAvailable q r) = r"
    and "fst (assertDeviceAvailable q r) = Inr () \<longleftrightarrow>
      (\<forall>k. deviceBindingKey (na_backend q) (na_leaseProvider q) (na_deviceKey q) = Some k \<longrightarrow>
        map_of (deviceBindings r) k = None)"
  by (simp_all add: assertDeviceAvailable_eq [OF inv] split: option.split)

lemma or_default_keep: "v \<noteq> Some [] \<Longrightarrow> or_default (keep_truthy v) d = or_default v d"
  by (auto simp: keep_truthy_def truthy_def or_default_def split: option.splits)

lemma truthy_keep [simp]: "truthy (keep_truthy v) = truthy v"
  by (simp add: keep_truthy_def)

lemma normalize_nonempty:
  "normalizeAgentIdentifier raw label n = Inr v \<Longrightarrow> v \<noteq> Some []"
  "normalizeDeviceKey raw = Inr v' \<Longrightarrow> v' \<noteq> Some []"
  by (auto simp: normalizeAgentIdentifier_def normalizeDeviceKey_def Let_def split: option.splits if_splits)

lemma normalized_allocate:
  assumes "normalizeAllocateLeaseRequest q = Inr n"
  shows "na_leaseProvider n \<noteq> Some [] \<and> na_deviceKey n \<noteq> Some [] \<and> na_clientId n \<noteq> Some [] \<and>
    normalizeLeaseBackend (al_leaseBackend q) = Inr (na_backend n) \<and>
    normalizeTenantId (Some (al_tenantId q)) = Some (na_tenantId n) \<and>
    normalizeRunId (Some (al_runId q)) = Some (na_runId n) \<and>
    normalizeDeviceKey (al_deviceKey q) = Inr (na_deviceKey n) \<and>
    normalizeLeaseProvider (al_leaseProvider q) = Inr (na_leaseProvider n) \<and>
    normalizeClientId (al_clientId q) = Inr (na_clientId n) \<and>
    na_ttlMs n = al_ttlMs q"
  using assms normalize_nonempty
  by (auto simp: normalizeAllocateLeaseRequest_def rbind_Inr_iff normalizeRequiredTenantId_def
      normalizeRequiredRunId_def normalizeLeaseProvider_def normalizeClientId_def split: option.splits)

lemma createLease_keys:
  assumes "na_leaseProvider q \<noteq> Some []" and "na_deviceKey q \<noteq> Some []"
  shows "leaseRunKey (createLease now lid q ttl) = requestBindingKey q"
    and "leaseDeviceKey (createLease now lid q ttl) =
      deviceBindingKey (na_backend q) (na_leaseProvider q) (na_deviceKey q)"
    and "leaseId (createLease now lid q ttl) = lid"
  using assms
  by (auto simp: createLease_def leaseRunKey_def leaseDeviceKey_def requestBindingKey_def
      bindingKey_def deviceBindingKey_def or_default_keep)
    (auto simp: keep_truthy_def)

text \<open>The three outcomes of an allocation after the sweep and the lifetime check.\<close>

definition allocateCore ::
    "int \<Rightarrow> string \<Rightarrow> normalized_allocate_request \<Rightarrow> int \<Rightarrow> device_lease lease_op" where
  "allocateCore now newId q ttl =
     sbind (refreshExistingRunBinding now q ttl) (\<lambda>existing.
       case existing of
         Some lease \<Rightarrow> sret lease
       | None \<Rightarrow>
           sbind (assertDeviceAvailable q) (\<lambda>_.
           sbind (enforceCapacity (na_backend q)) (\<lambda>_.
             let lease = createLease now newId q ttl in
             sbind (smodify (\<lambda>r. bindLease lease (setLease lease r))) (\<lambda>_. sret lease))))"

lemma allocateLease_core:
  "allocateLease now now' newId request =
     sbind (slift (normalizeAllocateLeaseRequest request)) (\<lambda>n.
     sbind (cleanupExpiredLeases now) (\<lambda>_.
     sbind (resolveLeaseTtlMs (na_ttlMs n)) (\<lambda>ttl. allocateCore now' newId n ttl)))"
  by (simp add: allocateLease_def allocateCore_def)

lemma allocateCore_cases:
  assumes inv: "reg_inv r"
  obtains (existing) x r' where "refreshExistingRunBinding now q ttl r = (x, r')"
      and "x \<noteq> Inr None"
      and "allocateCore now newId q ttl r = (case x of Inl e \<Rightarrow> (Inl e, r') | Inr l \<Rightarrow> (Inr (the l), r'))"
  | (refused) e where "map_of (runBindings r) (requestBindingKey q) = None"
      and "refreshExistingRunBinding now q ttl r = (Inr None, r)"
      and "allocateCore now newId q ttl r = (Inl e, r)"
  | (created) "map_of (runBindings r) (requestBindingKey q) = None"
      and "refreshExistingRunBinding now q ttl r = (Inr None, r)"
      and "fst (assertDeviceAvailable q r) = Inr ()"
      and "fst (enforceCapacity (na_backend q) r) = Inr ()"
      and "allocateCore now newId q ttl r =
        (let l = createLease now newId q ttl in (Inr l, bindLease l (setLease l r)))"
proof (cases "fst (refreshExistingRunBinding now q ttl r) = Inr None")
  case True
  then obtain r' where "refreshExistingRunBinding now q ttl r = (Inr None, r')"
    by (metis prod.collapse)
  with refreshExisting_None [OF inv this]
  have none: "refreshExistingRunBinding now q ttl r = (Inr None, r)"
    and key: "map_of (runBindings r) (requestBindingKey q) = None"
    by simp_all
  have dev: "assertDeviceAvailable q r = (fst (assertDeviceAvailable q r), r)"
    and cap: "enforceCapacity (na_backend q) r = (fst (enforceCapacity (na_backend q) r), r)"
    using assertDeviceAvailable_inv(1) [OF inv, of q] enforceCapacity_state [of "na_backend q" r]
    by (metis prod.collapse)+
  consider e where "fst (assertDeviceAvailable q r) = Inl e"
    | e where "fst (assertDeviceAvailable q r) = Inr ()" "fst (enforceCapacity (na_backend q) r) = Inl e"
    | "fst (assertDeviceAvailable q r) = Inr ()" "fst (enforceCapacity (na_backend q) r) = Inr ()"
    by (metis old.sum.exhaust unit.exhaust)
  then show ?thesis
  proof cases
    case 1
    with dev none have "allocateCore now newId q ttl r = (Inl e, r)"
      by (simp add: allocateCore_def sbind_def)
    with key none show ?thesis by (rule refused)
  next
    case 2
    with dev cap none have "allocateCore now newId q ttl r = (Inl e, r)"
      by (simp add: allocateCore_def sbind_def)
    with key none show ?thesis by (rule refused)
  next
    case 3
    with dev cap none have "allocateCore now newId q ttl r =
        (let l = createLease now newId q ttl in (Inr l, bindLease l (setLease l r)))"
      by (simp add: allocateCore_def sbind_def smodify_def sret_def Let_def)
    with key none 3 show ?thesis by (intro created)
  qed
next
  case False
  obtain x r' where xr: "refreshExistingRunBinding now q ttl r = (x, r')"
    by (metis surj_pair)
  show ?thesis
  proof (rule existing [OF xr])
    show "x \<noteq> Inr None" using False xr by simp
    then show "allocateCore now newId q ttl r = (case x of Inl e \<Rightarrow> (Inl e, r') | Inr l \<Rightarrow> (Inr (the l), r'))"
      using xr by (auto simp: allocateCore_def sbind_def sret_def split: sum.splits option.splits)
  qed
qed

subsection \<open>Preservation\<close>

lemma reg_inv_create:
  assumes inv: "reg_inv r"
    and fresh: "map_of (leases r) newId = None" "newId \<noteq> []"
    and q: "na_leaseProvider q \<noteq> Some []" "na_deviceKey q \<noteq> Some []"
    and run: "map_of (runBindings r) (requestBindingKey q) = None"
    and dev: "fst (assertDeviceAvailable q r) = Inr ()"
  shows "let l = createLease now newId q ttl in reg_inv (bindLease l (setLease l r))"
  unfolding Let_def
  by (rule reg_inv_put [OF inv])
    (use fresh run dev createLease_keys [OF q] assertDeviceAvailable_inv(2) [OF inv] in auto)

lemma reg_inv_allocateCore:
  assumes inv: "reg_inv r" and fresh: "map_of (leases r) newId = None" "newId \<noteq> []"
    and q: "na_leaseProvider q \<noteq> Some []" "na_deviceKey q \<noteq> Some []"
  shows "reg_inv (snd (allocateCore now newId q ttl r))"
  using inv
proof (cases rule: allocateCore_cases [where now = now and q = q and ttl = ttl and newId = newId])
  case (existing x r')
  then show ?thesis
    using refreshExisting_inv [OF inv, of now q ttl] by (simp split: sum.split)
next
  case (refused e)
  with inv show ?thesis by simp
next
  case created
  with reg_inv_create [OF inv fresh q created(1,3)] show ?thesis
    by (simp add: Let_def)
qed

lemma reg_inv_allocateLease:
  assumes inv: "reg_inv r" and fresh: "map_of (leases r) newId = None" "newId \<noteq> []"
  shows "reg_inv (snd (allocateLease now now' newId q r))"
proof (cases "normalizeAllocateLeaseRequest q")
  case (Inl e)
  with inv show ?thesis by (simp add: allocateLease_core sbind_def slift_def)
next
  case (Inr n)
  have "map_of (leases (swept now r)) newId = None"
    using fresh by (simp add: swept_lookup [OF inv] live_def)
  then have core: "reg_inv (snd (allocateCore now' newId n ttl (swept now r)))" for ttl
    using reg_inv_allocateCore [OF reg_inv_swept [OF inv]] fresh normalized_allocate [OF Inr] by simp
  show ?thesis
    using Inr core reg_inv_swept [OF inv]
    by (auto simp: allocateLease_core sbind_def slift_def cleanup_apply resolveLeaseTtlMs_def
        split: option.splits js_number.splits)
qed

lemma preserves_smodify [preserve]: "(\<And>s. P s \<Longrightarrow> P (f s)) \<Longrightarrow> preserves P (smodify f)"
  by (simp add: preserves_def smodify_def)

lemma preserves_cleanup [preserve]: "preserves reg_inv (cleanupExpiredLeases now)"
  by (simp add: preserves_def cleanup_apply reg_inv_swept)

lemma getLease_found:
  assumes inv: "reg_inv r" and res: "getLease now q r = (Inr (Some l), r')"
  shows "r' = swept now r \<and> map_of (leases r') (leaseId l) = Some l \<and>
    normalizeLeaseId (Some (rl_leaseId q)) = Some (leaseId l)"
proof -
  obtain lid where lid: "normalizeLeaseId (Some (rl_leaseId q)) = Some lid"
    and l: "map_of (leases (swept now r)) lid = Some l" and r': "r' = swept now r"
    using res
    by (auto simp: getLease_def sbind_def slift_def sret_def cleanup_apply normalizeRequiredLeaseId_def
        split: option.splits sum.splits prod.splits)
  then show ?thesis
    using reg_inv_id [OF reg_inv_swept [OF inv] l] by simp
qed

lemma getLease_state: "reg_inv r \<Longrightarrow> snd (getLease now q r) \<in> {r, swept now r}"
  by (auto simp: getLease_def sbind_def slift_def sret_def cleanup_apply
      split: option.splits sum.splits)

lemma releaseLease_eq:
  "releaseLease now q r =
    (case getLease now q r of
       (Inl e, r') \<Rightarrow> (Inl e, r')
     | (Inr None, r') \<Rightarrow> (Inr None, r')
     | (Inr (Some l), r') \<Rightarrow> (Inr (Some l), dropLease l r'))"
  by (simp add: releaseLease_def sbind_def sret_def smodify_def split: prod.split sum.split option.split)

lemma reg_inv_releaseLease:
  assumes inv: "reg_inv r"
  shows "reg_inv (snd (releaseLease now q r))"
proof (cases "\<exists>l r'. getLease now q r = (Inr (Some l), r')")
  case True
  then obtain l r' where l: "getLease now q r = (Inr (Some l), r')" by blast
  from getLease_found [OF inv l] reg_inv_swept [OF inv] have "reg_inv (dropLease l r')"
    by (auto intro: reg_inv_drop)
  with l show ?thesis by (simp add: releaseLease_eq)
next
  case False
  then have "snd (releaseLease now q r) = snd (getLease now q r)"
    by (auto simp: releaseLease_eq split: prod.splits sum.splits option.splits)
  then show ?thesis
    using getLease_state [OF inv, of now q] inv reg_inv_swept [OF inv] by auto
qed

lemma heartbeatLease_cases:
  obtains "heartbeatLease now now' q r = (Inl InvalidLeaseId, r)"
    and "normalizeLeaseId (Some (hb_leaseId q)) = None"
  | e where "heartbeatLease now now' q r = (Inl e, swept now r)"
  | lid l ttl where "normalizeLeaseId (Some (hb_leaseId q)) = Some lid"
    and "map_of (leases (swept now r)) lid = Some l"
    and "assertRequiredScopeForDeviceAwareLease l q = Inr ()"
    and "assertOptionalScopeMatch l q = Inr ()"
    and "fst (resolveLeaseTtlMs (hb_ttlMs q) (swept now r)) = Inr ttl"
    and "heartbeatLease now now' q r = refreshLease now' l ttl (swept now r)"
proof (cases "normalizeLeaseId (Some (hb_leaseId q))")
  case None
  then show ?thesis
    by (intro that(1)) (simp_all add: heartbeatLease_def sbind_def slift_def normalizeRequiredLeaseId_def)
next
  case (Some lid)
  show ?thesis
  proof (cases "map_of (leases (swept now r)) lid")
    case None
    with Some have "heartbeatLease now now' q r = (Inl LeaseNotFound, swept now r)"
      by (simp add: heartbeatLease_def sbind_def slift_def normalizeRequiredLeaseId_def cleanup_apply
          getActiveLease_def)
    then show ?thesis by (rule that(2))
  next
    case l: (Some l)
    let ?ttl = "resolveLeaseTtlMs (hb_ttlMs q) (swept now r)"
    have ttl: "?ttl = (fst ?ttl, swept now r)"
      by (metis prod.collapse resolveLeaseTtlMs_state)
    have eq: "heartbeatLease now now' q r =
      (case assertRequiredScopeForDeviceAwareLease l q of Inl e \<Rightarrow> (Inl e, swept now r) | Inr _ \<Rightarrow>
       (case assertOptionalScopeMatch l q of Inl e \<Rightarrow> (Inl e, swept now r) | Inr _ \<Rightarrow>
       (case fst ?ttl of Inl e \<Rightarrow> (Inl e, swept now r) | Inr t \<Rightarrow> refreshLease now' l t (swept now r))))"
      using Some l ttl
      by (auto simp: heartbeatLease_def sbind_def slift_def normalizeRequiredLeaseId_def cleanup_apply
          getActiveLease_def split: sum.split prod.split)
    show ?thesis
    proof (cases "\<exists>e. heartbeatLease now now' q r = (Inl e, swept now r)")
      case True
      then show ?thesis using that(2) by blast
    next
      case False
      with eq have "assertRequiredScopeForDeviceAwareLease l q = Inr ()"
        and "assertOptionalScopeMatch l q = Inr ()"
        and "\<exists>t. fst ?ttl = Inr t"
        by (auto split: sum.splits)
      then show ?thesis using that(3) [OF Some l] eq by auto
    qed
  qed
qed

lemma reg_inv_heartbeatLease:
  assumes inv: "reg_inv r"
  shows "reg_inv (snd (heartbeatLease now now' q r))"
proof (cases rule: heartbeatLease_cases [of now now' q r])
  case (3 lid l ttl)
  then show ?thesis
    using stored_refreshable [OF reg_inv_swept [OF inv] 3(2)] by simp
qed (use inv reg_inv_swept in auto)

lemma reg_inv_other_ops:
  assumes inv: "reg_inv r"
  shows "reg_inv (snd (assertLeaseAdmission now q r))"
    and "reg_inv (snd (listActiveLeases now r))"
    and "reg_inv (snd (consumeExpiredLease now lid r))"
    and "reg_inv (snd (getLease now q' r))"
proof -
  note sw = reg_inv_swept [OF inv]
  show "reg_inv (snd (assertLeaseAdmission now q r))"
    using inv sw
    by (auto simp: assertLeaseAdmission_def sbind_def slift_def cleanup_apply getActiveLease_def
        split: option.splits sum.splits)
  show "reg_inv (snd (listActiveLeases now r))"
    using sw by (simp add: listActiveLeases_def sbind_def cleanup_apply)
  show "reg_inv (snd (getLease now q' r))"
    using getLease_state [OF inv, of now q'] inv sw by auto
  show "reg_inv (snd (consumeExpiredLease now lid r))"
    using inv reg_inv_drop [OF inv] reg_inv_id [OF inv]
    by (auto simp: consumeExpiredLease_def split: option.splits)
qed

section \<open>Capacity\<close>

definition simulator_count :: "lease_registry \<Rightarrow> nat" where
  "simulator_count r = length (filter (\<lambda>l. backend l = IosSimulator) (stored_leases r))"

definition capacity_ok :: "lease_registry \<Rightarrow> bool" where
  "capacity_ok r \<longleftrightarrow>
     (0 < maxActiveSimulatorLeases r \<longrightarrow> int (simulator_count r) \<le> maxActiveSimulatorLeases r)"

lemma config_max: "lease_config r = lease_config s \<Longrightarrow> maxActiveSimulatorLeases r = maxActiveSimulatorLeases s"
  by (simp add: lease_config_def)

lemma capacity_ok_le:
  "capacity_ok r \<Longrightarrow> lease_config s = lease_config r \<Longrightarrow> simulator_count s \<le> simulator_count r \<Longrightarrow>
   capacity_ok s"
  by (auto simp: capacity_ok_def dest: config_max)

lemma simulator_count_swept: "reg_inv r \<Longrightarrow> simulator_count (swept now r) \<le> simulator_count r"
  unfolding simulator_count_def stored_leases_def
  by (simp only: consumeExpiredLeases_spec(2) count_filter_le)

lemma simulator_count_drop: "simulator_count (dropLease l r) \<le> simulator_count r"
  unfolding simulator_count_def stored_leases_def
  by (simp only: dropLease_sel delete_is_filter count_filter_le)

lemma leases_refresh:
  "leases (snd (refreshLease now l ttl r)) = AList.update (leaseId l) (touched now ttl l) (leases r)"
  by (simp add: refreshLease_def Let_def setLease_def)

lemma simulator_count_refresh:
  assumes inv: "reg_inv r" and l: "map_of (leases r) lid = Some l"
  shows "simulator_count (snd (refreshLease now l ttl r)) = simulator_count r"
proof -
  have "leaseId l = lid" using reg_inv_id [OF assms] by simp
  then show ?thesis
    unfolding simulator_count_def stored_leases_def leases_refresh
    using count_update_old [OF l, where P = "\<lambda>l. backend l = IosSimulator"] by simp
qed

lemma refresh_config [simp]: "lease_config (snd (refreshLease now l ttl r)) = lease_config r"
  by (simp add: refreshLease_def Let_def)

lemma capacity_refresh:
  "reg_inv r \<Longrightarrow> capacity_ok r \<Longrightarrow> map_of (leases r) lid = Some l \<Longrightarrow>
   capacity_ok (snd (refreshLease now l ttl r))"
  by (rule capacity_ok_le) (auto simp: simulator_count_refresh)

lemma capacity_swept: "reg_inv r \<Longrightarrow> capacity_ok r \<Longrightarrow> capacity_ok (swept now r)"
  by (erule capacity_ok_le) (simp_all add: consumeExpiredLeases_spec(4) simulator_count_swept)

lemma capacity_drop: "capacity_ok r \<Longrightarrow> capacity_ok (dropLease l r)"
  by (erule capacity_ok_le) (simp_all add: simulator_count_drop)

lemma capacity_notify [simp]: "capacity_ok (notifyExpired l r) = capacity_ok r"
  by (simp add: capacity_ok_def simulator_count_def stored_leases_def notifyExpired_def)

lemma capacity_create:
  assumes cap: "capacity_ok r" and free: "fst (enforceCapacity (backend l) r) = Inr ()"
    and fresh: "map_of (leases r) (leaseId l) = None"
  shows "capacity_ok (bindLease l (setLease l r))"
proof -
  have "lease_config (bindLease l (setLease l r)) = lease_config r" by simp
  then have max: "maxActiveSimulatorLeases (bindLease l (setLease l r)) = maxActiveSimulatorLeases r"
    by (rule config_max)
  have "simulator_count (bindLease l (setLease l r)) =
      simulator_count r + (if backend l = IosSimulator then 1 else 0)"
    using fresh by (simp add: simulator_count_def stored_leases_def setLease_def update_new)
  with cap free max show ?thesis
    by (auto simp: capacity_ok_def enforceCapacity_def Let_def simulator_count_def stored_leases_def
        split: if_splits)
qed

lemma createLease_backend: "backend (createLease now newId q ttl) = na_backend q"
  by (simp add: createLease_def)

lemma capacity_refreshExisting:
  assumes inv: "reg_inv r" and cap: "capacity_ok r"
  shows "capacity_ok (snd (refreshExistingRunBinding now q ttl r))"
proof (cases "map_of (runBindings r) (requestBindingKey q)")
  case None
  with inv cap show ?thesis by (simp add: refreshExisting_eq)
next
  case (Some lid)
  then obtain l where "map_of (leases r) lid = Some l"
    by (rule run_binding_stored [OF inv])
  with Some show ?thesis
    using cap capacity_refresh [OF inv cap]
    by (simp add: refreshExisting_eq [OF inv] Let_def split: sum.split)
qed

lemma capacity_allocateCore:
  assumes inv: "reg_inv r" and cap: "capacity_ok r" and fresh: "map_of (leases r) newId = None"
    and q: "na_leaseProvider q \<noteq> Some []" "na_deviceKey q \<noteq> Some []"
  shows "capacity_ok (snd (allocateCore now newId q ttl r))"
  using inv
proof (cases rule: allocateCore_cases [where now = now and q = q and ttl = ttl and newId = newId])
  case (existing x r')
  then show ?thesis
    using capacity_refreshExisting [OF inv cap, of now q ttl] by (simp split: sum.split)
next
  case (refused e)
  with cap show ?thesis by simp
next
  case created
  then show ?thesis
    using capacity_create [OF cap, of "createLease now newId q ttl"] fresh
      createLease_keys(3) [OF q] createLease_backend
    by (simp add: Let_def)
qed

lemma capacity_allocateLease:
  assumes inv: "reg_inv r" and cap: "capacity_ok r" and fresh: "map_of (leases r) newId = None"
  shows "capacity_ok (snd (allocateLease now now' newId q r))"
proof (cases "normalizeAllocateLeaseRequest q")
  case (Inl e)
  with cap show ?thesis by (simp add: allocateLease_core sbind_def slift_def)
next
  case (Inr n)
  have "map_of (leases (swept now r)) newId = None"
    using fresh by (simp add: swept_lookup [OF inv] live_def)
  then have "capacity_ok (snd (allocateCore now' newId n ttl (swept now r)))" for ttl
    using capacity_allocateCore [OF reg_inv_swept capacity_swept] inv cap normalized_allocate [OF Inr]
    by simp
  then show ?thesis
    using Inr capacity_swept [OF inv cap]
    by (auto simp: allocateLease_core sbind_def slift_def cleanup_apply resolveLeaseTtlMs_def
        split: option.splits js_number.splits)
qed

lemma capacity_heartbeatLease:
  assumes inv: "reg_inv r" and cap: "capacity_ok r"
  shows "capacity_ok (snd (heartbeatLease now now' q r))"
proof (cases rule: heartbeatLease_cases [of now now' q r])
  case (3 lid l ttl)
  then show ?thesis
    using capacity_refresh [OF reg_inv_swept capacity_swept 3(2)] inv cap by simp
qed (use inv cap capacity_swept in auto)

lemma capacity_other_ops:
  assumes inv: "reg_inv r" and cap: "capacity_ok r"
  shows "capacity_ok (snd (assertLeaseAdmission now q r))"
    and "capacity_ok (snd (listActiveLeases now r))"
    and "capacity_ok (snd (consumeExpiredLease now lid r))"
    and "capacity_ok (snd (getLease now q' r))"
    and "capacity_ok (snd (releaseLease now q' r))"
proof -
  note sw = capacity_swept [OF inv cap]
  show "capacity_ok (snd (assertLeaseAdmission now q r))"
    using cap sw
    by (auto simp: assertLeaseAdmission_def sbind_def slift_def cleanup_apply getActiveLease_def
        split: option.splits sum.splits)
  show "capacity_ok (snd (listActiveLeases now r))"
    using sw by (simp add: listActiveLeases_def sbind_def cleanup_apply)
  show get: "capacity_ok (snd (getLease now q' r))"
    using getLease_state [OF inv, of now q'] cap sw by auto
  show "capacity_ok (snd (consumeExpiredLease now lid r))"
    using cap capacity_drop [OF cap]
    by (auto simp: consumeExpiredLease_def split: option.splits)
  show "capacity_ok (snd (releaseLease now q' r))"
    using get capacity_drop
    by (auto simp: releaseLease_eq split: prod.splits sum.splits option.splits)
qed

section \<open>Reachable registries\<close>

text \<open>
  One rule per operation of the class; the state after the call is taken whether it returned or
  threw. The identifier of a new lease is 16 random bytes in hexadecimal: it is not empty, and the
  rule takes it unused (the code relies on that and does not check it).
\<close>

inductive lease_step :: "lease_registry \<Rightarrow> lease_registry \<Rightarrow> bool" where
  allocate: "map_of (leases r) newId = None \<Longrightarrow> newId \<noteq> [] \<Longrightarrow>
    lease_step r (snd (allocateLease now now' newId q r))"
| heartbeat: "lease_step r (snd (heartbeatLease now now' h r))"
| release: "lease_step r (snd (releaseLease now rel r))"
| lookup: "lease_step r (snd (getLease now rel r))"
| admission: "lease_step r (snd (assertLeaseAdmission now a r))"
| listing: "lease_step r (snd (listActiveLeases now r))"
| sweep: "lease_step r (snd (consumeExpiredLeases now r))"
| consume: "lease_step r (snd (consumeExpiredLease now lid r))"

inductive lease_reachable :: "lease_registry_options \<Rightarrow> lease_registry \<Rightarrow> bool" for opts where
  start: "lease_reachable opts (newLeaseRegistry opts)"
| step: "lease_reachable opts r \<Longrightarrow> lease_step r s \<Longrightarrow> lease_reachable opts s"

lemma reg_inv_new: "reg_inv (newLeaseRegistry opts)"
  by (simp add: reg_inv_def newLeaseRegistry_def Let_def indexed_def)

lemma capacity_new: "capacity_ok (newLeaseRegistry opts)"
  by (auto simp: capacity_ok_def simulator_count_def stored_leases_def newLeaseRegistry_def Let_def)

lemma lease_step_inv: "lease_step r s \<Longrightarrow> reg_inv r \<Longrightarrow> reg_inv s"
  by (induction rule: lease_step.induct)
    (simp_all add: reg_inv_allocateLease reg_inv_heartbeatLease reg_inv_releaseLease
      reg_inv_other_ops reg_inv_swept)

lemma lease_step_capacity: "lease_step r s \<Longrightarrow> reg_inv r \<Longrightarrow> capacity_ok r \<Longrightarrow> capacity_ok s"
  by (induction rule: lease_step.induct)
    (simp_all add: capacity_allocateLease capacity_heartbeatLease capacity_other_ops capacity_swept)

lemma reachable_inv: "lease_reachable opts r \<Longrightarrow> reg_inv r \<and> capacity_ok r"
  by (induction rule: lease_reachable.induct)
    (auto simp: reg_inv_new capacity_new dest: lease_step_inv lease_step_capacity)

subsection \<open>The configuration never changes\<close>

lemma config_allocateLease:
  assumes inv: "reg_inv r"
  shows "lease_config (snd (allocateLease now now' newId q r)) = lease_config r"
proof (cases "normalizeAllocateLeaseRequest q")
  case (Inl e)
  then show ?thesis by (simp add: allocateLease_core sbind_def slift_def)
next
  case (Inr n)
  let ?r = "swept now r"
  have inv': "reg_inv ?r" by (rule reg_inv_swept [OF inv])
  have core: "lease_config (snd (allocateCore now' newId n ttl ?r)) = lease_config ?r" for ttl
    using inv'
  proof (cases rule: allocateCore_cases [where now = now' and q = n and ttl = ttl and newId = newId])
    case (existing x r')
    then show ?thesis
      by (auto simp: refreshExisting_eq [OF inv'] Let_def split: option.splits sum.splits if_splits)
  qed (simp_all add: Let_def)
  show ?thesis
    using Inr core consumeExpiredLeases_spec(4) [OF inv]
    by (auto simp: allocateLease_core sbind_def slift_def cleanup_apply resolveLeaseTtlMs_def
        split: option.splits js_number.splits)
qed

lemma config_other_ops:
  assumes inv: "reg_inv r"
  shows "lease_config (snd (heartbeatLease now now' h r)) = lease_config r"
    and "lease_config (snd (assertLeaseAdmission now q r)) = lease_config r"
    and "lease_config (snd (listActiveLeases now r)) = lease_config r"
    and "lease_config (snd (consumeExpiredLease now lid r)) = lease_config r"
    and "lease_config (snd (getLease now q' r)) = lease_config r"
    and "lease_config (snd (releaseLease now q' r)) = lease_config r"
proof -
  note sw = consumeExpiredLeases_spec(4) [OF inv]
  show "lease_config (snd (heartbeatLease now now' h r)) = lease_config r"
    by (cases rule: heartbeatLease_cases [of now now' h r]) (simp_all add: sw)
  show "lease_config (snd (assertLeaseAdmission now q r)) = lease_config r"
    using sw by (auto simp: assertLeaseAdmission_def sbind_def slift_def cleanup_apply
        getActiveLease_def split: option.splits sum.splits)
  show "lease_config (snd (listActiveLeases now r)) = lease_config r"
    by (simp add: listActiveLeases_def sbind_def cleanup_apply sw)
  show get: "lease_config (snd (getLease now q' r)) = lease_config r"
    using getLease_state [OF inv, of now q'] sw by auto
  show "lease_config (snd (consumeExpiredLease now lid r)) = lease_config r"
    by (auto simp: consumeExpiredLease_def split: option.splits)
  show "lease_config (snd (releaseLease now q' r)) = lease_config r"
    using get by (auto simp: releaseLease_eq split: prod.splits sum.splits option.splits)
qed

lemma lease_step_config: "lease_step r s \<Longrightarrow> reg_inv r \<Longrightarrow> lease_config s = lease_config r"
  by (induction rule: lease_step.induct)
    (simp_all add: config_allocateLease config_other_ops consumeExpiredLeases_spec(4))

lemma reachable_config: "lease_reachable opts r \<Longrightarrow> lease_config r = lease_config (newLeaseRegistry opts)"
  by (induction rule: lease_reachable.induct) (auto dest: lease_step_config reachable_inv)

section \<open>Allocation\<close>

lemma allocateLease_result:
  assumes "normalizeAllocateLeaseRequest q = Inr n"
    and "fst (resolveLeaseTtlMs (al_ttlMs q) (swept now r)) = Inr ttl"
  shows "allocateLease now now' newId q r = allocateCore now' newId n ttl (swept now r)"
proof -
  have "resolveLeaseTtlMs (na_ttlMs n) (swept now r) = (Inr ttl, swept now r)"
    using assms normalized_allocate [OF assms(1)] resolveLeaseTtlMs_state by (metis prod.collapse)
  then show ?thesis
    using assms(1) by (simp add: allocateLease_core sbind_def slift_def cleanup_apply)
qed

lemma allocateLease_Inr:
  assumes "allocateLease now now' newId q r = (Inr l, r')"
  obtains n ttl where "normalizeAllocateLeaseRequest q = Inr n"
    and "fst (resolveLeaseTtlMs (al_ttlMs q) (swept now r)) = Inr ttl"
    and "allocateCore now' newId n ttl (swept now r) = (Inr l, r')"
proof -
  obtain n where n: "normalizeAllocateLeaseRequest q = Inr n"
    using assms by (cases "normalizeAllocateLeaseRequest q") (auto simp: allocateLease_core sbind_def slift_def)
  have "fst (resolveLeaseTtlMs (na_ttlMs n) (swept now r)) = Inl e \<Longrightarrow>
      fst (allocateLease now now' newId q r) = Inl e" for e
    using n by (auto simp: allocateLease_core sbind_def slift_def cleanup_apply split: prod.splits)
  with assms n normalized_allocate [OF n] obtain ttl where
    "fst (resolveLeaseTtlMs (al_ttlMs q) (swept now r)) = Inr ttl"
    by (cases "fst (resolveLeaseTtlMs (al_ttlMs q) (swept now r))") auto
  with n assms show ?thesis
    by (intro that) (simp_all add: allocateLease_result)
qed

text \<open>The lease handed out is stored, carries the keys of the request and the new times.\<close>

lemma allocateCore_Inr:
  assumes inv: "reg_inv r" and res: "allocateCore now newId q ttl r = (Inr l, r')"
    and fresh: "map_of (leases r) newId = None"
    and q: "na_leaseProvider q \<noteq> Some []" "na_deviceKey q \<noteq> Some []"
  shows "map_of (leases r') (leaseId l) = Some l \<and> leaseRunKey l = requestBindingKey q \<and>
    heartbeatAt l = now \<and> expiresAt l = now + ttl \<and>
    (leaseId l = newId \<or> map_of (leases r) (leaseId l) \<noteq> None)"
  using inv
proof (cases rule: allocateCore_cases [where now = now and q = q and ttl = ttl and newId = newId])
  case (existing x s)
  then obtain lid where lid: "map_of (runBindings r) (requestBindingKey q) = Some lid"
    by (cases "map_of (runBindings r) (requestBindingKey q)") (auto simp: refreshExisting_eq [OF inv])
  then obtain m where m: "map_of (leases r) lid = Some m" "leaseId m = lid" "lid \<noteq> []"
      "leaseRunKey m = requestBindingKey q"
    by (rule run_binding_stored [OF inv])
  have "l = touched now ttl m \<and> r' = snd (refreshLease now m ttl r)"
    using existing res lid m
    by (auto simp: refreshExisting_eq [OF inv] Let_def split: sum.splits if_splits)
  then show ?thesis
    using m by (simp add: leases_refresh update_conv')
next
  case (refused e)
  with res show ?thesis by simp
next
  case created
  then have "l = createLease now newId q ttl" and "r' = bindLease l (setLease l r)"
    using res by (simp_all add: Let_def)
  then show ?thesis
    using createLease_keys [OF q, of now newId ttl] by (simp add: createLease_def)
qed

section \<open>Properties\<close>

text \<open>A configuration, requests and registries for the witnesses.\<close>

definition demo_options :: lease_registry_options where
  "demo_options = \<lparr>opt_maxActiveSimulatorLeases = Some (JsInt 1), opt_defaultLeaseTtlMs = None,
     opt_minLeaseTtlMs = None, opt_maxLeaseTtlMs = None\<rparr>"

definition demo_request :: "string \<Rightarrow> string \<Rightarrow> allocate_lease_request" where
  "demo_request tenant device = \<lparr>al_tenantId = tenant, al_runId = ''run-1'', al_leaseBackend = None,
     al_leaseProvider = None, al_deviceKey = Some device, al_clientId = Some ''cli'',
     al_ttlMs = Some (JsInt 5000)\<rparr>"

definition demo_scope :: "string option \<Rightarrow> lease_scope_request" where
  "demo_scope tenant = \<lparr>rq_tenantId = tenant, rq_runId = Some ''run-1'', rq_leaseBackend = None,
     rq_leaseProvider = None, rq_deviceKey = Some ''udid-1'', rq_clientId = Some ''cli''\<rparr>"

abbreviation demo_id :: string where "demo_id \<equiv> ''0123456789abcdef''"

definition demo_registry :: lease_registry where
  "demo_registry = snd (allocateLease 0 0 demo_id (demo_request ''acme'' ''udid-1'')
     (newLeaseRegistry demo_options))"

definition demo_lease :: device_lease where
  "demo_lease = \<lparr>leaseId = demo_id, tenantId = ''acme'', runId = ''run-1'', backend = IosSimulator,
     leaseProvider = None, deviceKey = Some ''udid-1'', clientId = Some ''cli'',
     createdAt = 0, heartbeatAt = 0, expiresAt = 5000\<rparr>"

lemma demo_reachable: "lease_reachable demo_options demo_registry"
  unfolding demo_registry_def
  by (rule lease_reachable.step [OF lease_reachable.start lease_step.allocate])
    (simp_all add: newLeaseRegistry_def Let_def)

lemma demo_stored: "stored_leases demo_registry = [demo_lease]"
  by code_simp

lemma demo_live: "live 1 demo_registry demo_id = Some demo_lease"
  by code_simp

text \<open>C1. In every reachable registry two active leases never share a device (backend, provider and
  device key), nor a run (tenant, run, backend, provider and device key): a device is leased to at
  most one holder at a time.\<close>

theorem lease_holder_unique:
  assumes reach: "lease_reachable opts r"
    and l: "l \<in> set (stored_leases r)" and m: "m \<in> set (stored_leases r)"
    and same: "leaseDeviceKey l = Some k \<and> leaseDeviceKey m = Some k \<or> leaseRunKey l = leaseRunKey m"
  shows "l = m"
proof -
  have inv: "reg_inv r" using reachable_inv [OF reach] by simp
  have lk: "map_of (leases r) (leaseId l) = Some l" "map_of (leases r) (leaseId m) = Some m"
    using l m by (simp_all add: stored_lookup [OF inv])
  from same have ids: "leaseId l = leaseId m"
  proof (elim disjE conjE)
    assume "leaseDeviceKey l = Some k" and "leaseDeviceKey m = Some k"
    then show ?thesis by (rule indexed_unique [OF reg_inv_dev [OF inv] lk])
  next
    assume "leaseRunKey l = leaseRunKey m"
    then show ?thesis
      by (intro indexed_unique [OF reg_inv_run [OF inv] lk, of "leaseRunKey m"]) simp_all
  qed
  show ?thesis using lk unfolding ids by simp
qed

theorem lease_holder_unique_witness:
  "lease_reachable demo_options demo_registry \<and> demo_lease \<in> set (stored_leases demo_registry) \<and>
   leaseRunKey demo_lease = leaseRunKey demo_lease \<and> demo_lease = demo_lease"
  using lease_holder_unique [OF demo_reachable, of demo_lease demo_lease] demo_reachable
  by (simp add: demo_stored)

text \<open>With a positive configured maximum, no reachable registry holds more simulator leases than
  this maximum.\<close>

lemma lease_capacity_respected:
  assumes reach: "lease_reachable opts r"
    and opt: "opt_maxActiveSimulatorLeases opts = Some (JsInt n)" and n: "0 < n"
  shows "int (length (filter (\<lambda>l. backend l = IosSimulator) (stored_leases r))) \<le> n"
proof -
  have "maxActiveSimulatorLeases r = n"
    using config_max [OF reachable_config [OF reach]] opt n by (simp add: newLeaseRegistry_def Let_def)
  then show ?thesis
    using reachable_inv [OF reach] n by (simp add: capacity_ok_def simulator_count_def)
qed

lemma lease_capacity_respected_example:
  "lease_reachable demo_options demo_registry \<and>
   int (length (filter (\<lambda>l. backend l = IosSimulator) (stored_leases demo_registry))) \<le> 1 \<and>
   length (stored_leases demo_registry) = 1"
  using lease_capacity_respected [OF demo_reachable, of 1] demo_reachable
  by (simp add: demo_stored demo_options_def)

text \<open>A successful allocation returns a stored lease for the requested run (the run key is the one
  of the normalised request), a new one or a refreshed live one, whose heartbeat is the current time
  and whose lifetime is the requested one within the configured window, or the default when no
  integer was requested.\<close>

lemma allocateLease_grants:
  assumes reach: "lease_reachable opts r" and fresh: "map_of (leases r) newId = None"
    and res: "allocateLease now now' newId q r = (Inr l, r')"
  shows "map_of (leases r') (leaseId l) = Some l \<and>
    (\<exists>n. normalizeAllocateLeaseRequest q = Inr n \<and> leaseRunKey l = requestBindingKey n) \<and>
    (leaseId l = newId \<or> live now r (leaseId l) \<noteq> None) \<and>
    heartbeatAt l = now' \<and>
    (case al_ttlMs q of
       Some (JsInt ttl) \<Rightarrow> minLeaseTtlMs r \<le> ttl \<and> ttl \<le> maxLeaseTtlMs r \<and> expiresAt l = now' + ttl
     | _ \<Rightarrow> expiresAt l = now' + defaultLeaseTtlMs r)"
proof -
  have inv: "reg_inv r" using reachable_inv [OF reach] by simp
  have cfg: "lease_config (swept now r) = lease_config r"
    by (rule consumeExpiredLeases_spec(4) [OF inv])
  have fresh': "map_of (leases (swept now r)) newId = None"
    using fresh by (simp add: swept_lookup [OF inv] live_def)
  from res obtain n ttl where n: "normalizeAllocateLeaseRequest q = Inr n"
    and ttl: "fst (resolveLeaseTtlMs (al_ttlMs q) (swept now r)) = Inr ttl"
    and core: "allocateCore now' newId n ttl (swept now r) = (Inr l, r')"
    by (rule allocateLease_Inr)
  have "na_leaseProvider n \<noteq> Some []" and "na_deviceKey n \<noteq> Some []"
    using normalized_allocate [OF n] by simp_all
  from allocateCore_Inr [OF reg_inv_swept [OF inv] core fresh' this] n ttl cfg
  show ?thesis
    by (auto simp: swept_lookup [OF inv] resolveLeaseTtlMs_def lease_config_def
        split: option.splits js_number.splits if_splits)
qed

lemma allocateLease_grants_example:
  "lease_reachable demo_options (newLeaseRegistry demo_options) \<and>
   map_of (leases demo_registry) demo_id = Some demo_lease \<and> expiresAt demo_lease = 5000"
proof -
  have "allocateLease 0 0 demo_id (demo_request ''acme'' ''udid-1'') (newLeaseRegistry demo_options) =
      (Inr demo_lease, demo_registry)"
    unfolding demo_registry_def by (rule prod_eqI) (code_simp, simp)
  moreover have "map_of (leases (newLeaseRegistry demo_options)) demo_id = None"
    by code_simp
  ultimately have "map_of (leases demo_registry) (leaseId demo_lease) = Some demo_lease"
    using allocateLease_grants [OF lease_reachable.start] by blast
  then show ?thesis
    using lease_reachable.start by (simp add: demo_lease_def)
qed


text \<open>A run key that names a real device determines the device key: \<open>'*'\<close> is the placeholder of
  \<open>bindingKey\<close> for a missing device.\<close>

lemma run_key_device:
  assumes run: "leaseRunKey l = requestBindingKey n"
    and key: "deviceBindingKey (na_backend n) (na_leaseProvider n) (na_deviceKey n) = Some k"
    and star: "na_deviceKey n \<noteq> Some ''*''"
  shows "leaseDeviceKey l = Some k \<and> truthy (deviceKey l)"
proof -
  obtain d where d: "na_deviceKey n = Some d" "d \<noteq> []"
    using key by (cases "na_deviceKey n") (auto simp: deviceBindingKey_def split: if_splits)
  have "or_default (deviceKey l) ''*'' = d" and b: "backend l = na_backend n"
    and p: "or_default (leaseProvider l) DEFAULT_LEASE_PROVIDER = or_default (na_leaseProvider n) DEFAULT_LEASE_PROVIDER"
    using run d by (simp_all add: leaseRunKey_def requestBindingKey_def bindingKey_def or_default_def)
  then have "deviceKey l = Some d"
    using star d by (cases "deviceKey l") (auto simp: or_default_def)
  with b p key d show ?thesis
    by (simp add: leaseDeviceKey_def deviceBindingKey_def)
qed

lemma allocateCore_busy:
  assumes inv: "reg_inv r" and m: "map_of (leases r) (leaseId m) = Some m"
    and k: "leaseDeviceKey m = Some k"
    and key: "deviceBindingKey (na_backend n) (na_leaseProvider n) (na_deviceKey n) = Some k"
    and other: "leaseRunKey m \<noteq> requestBindingKey n \<or> clientId m \<noteq> na_clientId n"
    and star: "na_deviceKey n \<noteq> Some ''*''"
  shows "allocateCore now newId n ttl r = (Inl (DeviceLeaseBusy m), r)"
proof (cases "map_of (runBindings r) (requestBindingKey n)")
  case None
  have "map_of (deviceBindings r) k = Some (leaseId m)"
    by (rule indexed_lookup [OF reg_inv_dev [OF inv] m k])
  then have "assertDeviceAvailable n r = (Inl (DeviceLeaseBusy m), r)"
    using key m by (simp add: assertDeviceAvailable_eq [OF inv])
  with None show ?thesis
    by (simp add: allocateCore_def refreshExisting_eq [OF inv] sbind_def)
next
  case (Some lid)
  then obtain l where l: "map_of (leases r) lid = Some l" "leaseRunKey l = requestBindingKey n"
    by (rule run_binding_stored [OF inv])
  note dk = run_key_device [OF l(2) key star]
  then have "lid = leaseId m"
    by (intro indexed_unique [OF reg_inv_dev [OF inv] l(1) m _ k]) simp
  then have "l = m" using l m by simp
  with other l have "clientId m \<noteq> na_clientId n" by simp
  then show ?thesis
    using Some \<open>lid = leaseId m\<close> m dk \<open>l = m\<close>
    by (simp add: allocateCore_def refreshExisting_eq [OF inv] sbind_def)
qed

text \<open>C37. While a live lease holds a device, a valid allocation of the same device by another run, or by
  another client of the same run, fails: the holder is reported as busy, or the requested lifetime is
  refused first, and the holder keeps its lease. (The device key \<open>'*'\<close> is excluded: the code uses
  it as the placeholder of a missing device.)\<close>

theorem allocateLease_device_busy:
  assumes reach: "lease_reachable opts r"
    and norm: "normalizeAllocateLeaseRequest q = Inr n"
    and held: "live now r (leaseId m) = Some m" and k: "leaseDeviceKey m = Some k"
    and key: "deviceBindingKey (na_backend n) (na_leaseProvider n) (na_deviceKey n) = Some k"
    and other: "leaseRunKey m \<noteq> requestBindingKey n \<or> clientId m \<noteq> na_clientId n"
    and star: "na_deviceKey n \<noteq> Some ''*''"
  shows "fst (allocateLease now now' newId q r) \<in>
      {Inl (DeviceLeaseBusy m), Inl (LeaseTtlOutOfRange (minLeaseTtlMs r) (maxLeaseTtlMs r))} \<and>
    map_of (leases (snd (allocateLease now now' newId q r))) (leaseId m) = Some m"
proof -
  have inv: "reg_inv r" using reachable_inv [OF reach] by simp
  let ?s = "swept now r"
  have cfg: "lease_config ?s = lease_config r" by (rule consumeExpiredLeases_spec(4) [OF inv])
  have m: "map_of (leases ?s) (leaseId m) = Some m" using held by (simp add: swept_lookup [OF inv])
  have core: "allocateCore now' newId n ttl ?s = (Inl (DeviceLeaseBusy m), ?s)" for ttl
    by (rule allocateCore_busy [OF reg_inv_swept [OF inv] m k key other star])
  show ?thesis
    using norm core m cfg
    by (auto simp: allocateLease_core sbind_def slift_def cleanup_apply resolveLeaseTtlMs_def
        lease_config_def split: option.split js_number.split)
qed

definition demo_rival :: normalized_allocate_request where
  "demo_rival = (case normalizeAllocateLeaseRequest (demo_request ''rival'' ''udid-1'') of Inr n \<Rightarrow> n)"

theorem allocateLease_device_busy_witness:
  "fst (allocateLease 1 1 ''1'' (demo_request ''rival'' ''udid-1'') demo_registry) =
     Inl (DeviceLeaseBusy demo_lease)"
proof -
  have "normalizeAllocateLeaseRequest (demo_request ''rival'' ''udid-1'') = Inr demo_rival"
    by code_simp
  moreover have "leaseDeviceKey demo_lease = Some (IosSimulator, ''default'', ''udid-1'')"
    by code_simp
  moreover have "deviceBindingKey (na_backend demo_rival) (na_leaseProvider demo_rival)
      (na_deviceKey demo_rival) = Some (IosSimulator, ''default'', ''udid-1'')"
    by code_simp
  moreover have "leaseRunKey demo_lease \<noteq> requestBindingKey demo_rival" by code_simp
  moreover have "na_deviceKey demo_rival \<noteq> Some ''*''" by code_simp
  moreover have "live 1 demo_registry (leaseId demo_lease) = Some demo_lease" by code_simp
  ultimately have "fst (allocateLease 1 1 ''1'' (demo_request ''rival'' ''udid-1'') demo_registry) \<in>
      {Inl (DeviceLeaseBusy demo_lease),
       Inl (LeaseTtlOutOfRange (minLeaseTtlMs demo_registry) (maxLeaseTtlMs demo_registry))}"
    using allocateLease_device_busy [OF demo_reachable] by blast
  moreover have "fst (allocateLease 1 1 ''1'' (demo_request ''rival'' ''udid-1'') demo_registry) \<noteq>
      Inl (LeaseTtlOutOfRange (minLeaseTtlMs demo_registry) (maxLeaseTtlMs demo_registry))"
    by code_simp
  ultimately show ?thesis by simp
qed


section \<open>Admission and release\<close>

lemma normalize_idem:
  "normalizeTenantId raw = Some v \<Longrightarrow> normalizeTenantId (Some v) = Some v \<and> v \<noteq> []"
  "normalizeRunId raw = Some v \<Longrightarrow> normalizeRunId (Some v) = Some v \<and> v \<noteq> []"
  by (auto simp: normalizeTenantId_def normalizeRunId_def Let_def split: option.splits if_splits)

definition backend_name :: "lease_backend \<Rightarrow> string" where
  "backend_name b = (case b of IosSimulator \<Rightarrow> ''ios-simulator''
     | IosInstance \<Rightarrow> ''ios-instance'' | AndroidInstance \<Rightarrow> ''android-instance'')"

lemma normalize_backend_name:
  "normalizeLeaseBackend (Some (backend_name b)) = Inr b \<and> backend_name b \<noteq> []"
proof -
  have "normalizeLeaseBackend (Some (backend_name IosSimulator)) = Inr IosSimulator"
    and "normalizeLeaseBackend (Some (backend_name IosInstance)) = Inr IosInstance"
    and "normalizeLeaseBackend (Some (backend_name AndroidInstance)) = Inr AndroidInstance"
    by code_simp+
  then show ?thesis by (cases b) (simp_all add: backend_name_def)
qed

text \<open>What a request for a live lease must carry: its own tenant, run and backend, and the provider,
  device and client of the lease where it names them.\<close>

definition identity_matches :: "device_lease \<Rightarrow> string option \<Rightarrow> string option \<Rightarrow> string option \<Rightarrow> bool" where
  "identity_matches l p d c \<longleftrightarrow>
     (p = None \<or> leaseProvider l = p) \<and> (d = None \<or> deviceKey l = d) \<and> (c = None \<or> clientId l = c)"

definition admissible :: "int \<Rightarrow> admission_request \<Rightarrow> lease_registry \<Rightarrow> device_lease \<Rightarrow> bool" where
  "admissible now q r l \<longleftrightarrow>
     (\<exists>lid. normalizeLeaseId (ad_leaseId q) = Some lid \<and> live now r lid = Some l) \<and>
     normalizeTenantId (rq_tenantId q) = Some (tenantId l) \<and>
     normalizeRunId (rq_runId q) = Some (runId l) \<and>
     normalizeLeaseBackend (rq_leaseBackend q) = Inr (backend l) \<and>
     (\<exists>p d c. normalizeLeaseProvider (rq_leaseProvider q) = Inr p \<and>
        normalizeDeviceKey (rq_deviceKey q) = Inr d \<and> normalizeClientId (rq_clientId q) = Inr c \<and>
        identity_matches l p d c)"

lemma identity_match_iff:
  assumes "p \<noteq> Some []" "d \<noteq> Some []" "c \<noteq> Some []"
  shows "assertOptionalLeaseIdentityMatch l p d c = Inr () \<longleftrightarrow> identity_matches l p d c"
  using assms
  by (auto simp: assertOptionalLeaseIdentityMatch_def identity_matches_def truthy_def split: option.splits)

lemma scope_match_iff:
  assumes t: "normalizeTenantId (Some t) = Some t" "t \<noteq> []"
    and n: "normalizeRunId (Some n) = Some n" "n \<noteq> []"
  shows "assertOptionalScopeMatch l \<lparr>rq_tenantId = Some t, rq_runId = Some n,
      rq_leaseBackend = Some (backend_name b), rq_leaseProvider = rp, rq_deviceKey = rd,
      rq_clientId = rc\<rparr> = Inr () \<longleftrightarrow>
    tenantId l = t \<and> runId l = n \<and> backend l = b \<and>
    (\<exists>p d c. normalizeLeaseProvider rp = Inr p \<and> normalizeDeviceKey rd = Inr d \<and>
       normalizeClientId rc = Inr c \<and> identity_matches l p d c)"
proof -
  have pc: "p \<noteq> Some []" if "normalizeLeaseProvider rp = Inr p \<or> normalizeClientId rc = Inr p" for p
    using that normalize_nonempty(1) by (auto simp: normalizeLeaseProvider_def normalizeClientId_def)
  have d: "d \<noteq> Some []" if "normalizeDeviceKey rd = Inr d" for d
    using normalize_nonempty(2) [OF that] .
  show ?thesis
    using t n normalize_backend_name [of b] pc d
    by (cases "normalizeLeaseProvider rp"; cases "normalizeDeviceKey rd"; cases "normalizeClientId rc")
      (auto simp: assertOptionalScopeMatch_def normalizeOptionalScopeMatchRequest_def Let_def
        identity_match_iff)
qed

lemma admission_eq:
  assumes inv: "reg_inv r"
  shows "fst (assertLeaseAdmission now q r) = Inr () \<longleftrightarrow> (\<exists>l. admissible now q r l)"
proof (cases "\<exists>b t n lid. normalizeLeaseBackend (rq_leaseBackend q) = Inr b \<and>
    normalizeTenantId (rq_tenantId q) = Some t \<and> normalizeRunId (rq_runId q) = Some n \<and>
    normalizeLeaseId (ad_leaseId q) = Some lid")
  case False
  then show ?thesis
    by (auto simp: assertLeaseAdmission_def sbind_def slift_def admissible_def
        split: option.splits sum.splits)
next
  case True
  then obtain b t n lid where eqs: "normalizeLeaseBackend (rq_leaseBackend q) = Inr b"
    "normalizeTenantId (rq_tenantId q) = Some t" "normalizeRunId (rq_runId q) = Some n"
    "normalizeLeaseId (ad_leaseId q) = Some lid"
    by blast
  show ?thesis
  proof (cases "live now r lid")
    case None
    with eqs show ?thesis
      by (simp add: assertLeaseAdmission_def sbind_def slift_def cleanup_apply getActiveLease_def
          swept_lookup [OF inv] admissible_def)
  next
    case (Some l)
    then have "fst (assertLeaseAdmission now q r) =
        assertOptionalScopeMatch l \<lparr>rq_tenantId = Some t, rq_runId = Some n,
          rq_leaseBackend = Some (backend_name b), rq_leaseProvider = rq_leaseProvider q,
          rq_deviceKey = rq_deviceKey q, rq_clientId = rq_clientId q\<rparr>"
      using eqs
      by (simp add: assertLeaseAdmission_def sbind_def slift_def cleanup_apply getActiveLease_def
          swept_lookup [OF inv] backend_name_def split: sum.split)
    also have "\<dots> = Inr () \<longleftrightarrow> admissible now q r l"
      using eqs Some normalize_idem(1) [OF eqs(2)] normalize_idem(2) [OF eqs(3)]
      by (subst scope_match_iff) (auto simp: admissible_def)
    finally show ?thesis
      using eqs Some by (auto simp: admissible_def)
  qed
qed


text \<open>Admission is an equivalence: in a reachable registry a request is admitted exactly when its
  identifiers are well-formed and name a live lease of the same tenant, run and backend, whose
  provider, device key and client are those of the request wherever it states them.\<close>

lemma lease_admission_iff:
  assumes "lease_reachable opts r"
  shows "fst (assertLeaseAdmission now q r) = Inr () \<longleftrightarrow> (\<exists>l. admissible now q r l)"
  using assms reachable_inv admission_eq by blast

definition demo_admission :: "string \<Rightarrow> admission_request" where
  "demo_admission tenant = \<lparr>rq_tenantId = Some tenant, rq_runId = Some ''run-1'',
     rq_leaseBackend = None, rq_leaseProvider = None, rq_deviceKey = Some ''udid-1'',
     rq_clientId = Some ''cli'', ad_leaseId = Some demo_id\<rparr>"

lemma lease_admission_iff_example:
  "(\<exists>l. admissible 1 (demo_admission ''acme'') demo_registry l) \<and>
   \<not> (\<exists>l. admissible 1 (demo_admission ''rival'') demo_registry l) \<and>
   \<not> (\<exists>l. admissible 5000 (demo_admission ''acme'') demo_registry l)"
proof -
  have "fst (assertLeaseAdmission 1 (demo_admission ''acme'') demo_registry) = Inr ()"
    and "fst (assertLeaseAdmission 1 (demo_admission ''rival'') demo_registry) \<noteq> Inr ()"
    and "fst (assertLeaseAdmission 5000 (demo_admission ''acme'') demo_registry) \<noteq> Inr ()"
    by code_simp+
  then show ?thesis
    using lease_admission_iff [OF demo_reachable] by blast
qed

text \<open>A release that returns a lease removes exactly this lease: it named a live lease with the
  required owner scope, the other live leases stay as they are, and the device of the released lease
  and its run are free again.\<close>

lemma releaseLease_frees:
  assumes reach: "lease_reachable opts r"
    and res: "releaseLease now q r = (Inr (Some l), r')"
  shows "live now r (leaseId l) = Some l \<and>
    normalizeLeaseId (Some (rl_leaseId q)) = Some (leaseId l) \<and>
    map_of (leases r') = (live now r)(leaseId l := None) \<and>
    map_of (runBindings r') (leaseRunKey l) = None \<and>
    (\<forall>k. leaseDeviceKey l = Some k \<longrightarrow> map_of (deviceBindings r') k = None)"
proof -
  have inv: "reg_inv r" using reachable_inv [OF reach] by simp
  obtain s where get: "getLease now q r = (Inr (Some l), s)" and r': "r' = dropLease l s"
    using res by (auto simp: releaseLease_eq split: prod.splits sum.splits option.splits)
  from getLease_found [OF inv get] have s: "s = swept now r"
    and l: "map_of (leases s) (leaseId l) = Some l"
    and lid: "normalizeLeaseId (Some (rl_leaseId q)) = Some (leaseId l)"
    by blast+
  have "map_of (leases r') = (live now r)(leaseId l := None)"
    by (rule ext) (simp add: r' s delete_conv' swept_lookup [OF inv])
  moreover have "live now r (leaseId l) = Some l"
    using l unfolding s by (simp add: swept_lookup [OF inv])
  moreover have "map_of (runBindings r') (leaseRunKey l) = None"
    and "\<forall>k. leaseDeviceKey l = Some k \<longrightarrow> map_of (deviceBindings r') k = None"
    by (simp_all add: r' delete_conv')
  ultimately show ?thesis using lid by simp
qed

definition demo_release :: "string option \<Rightarrow> release_lease_request" where
  "demo_release tenant = \<lparr>rq_tenantId = tenant, rq_runId = Some ''run-1'', rq_leaseBackend = None,
     rq_leaseProvider = None, rq_deviceKey = Some ''udid-1'', rq_clientId = Some ''cli'',
     rl_leaseId = demo_id\<rparr>"

lemma releaseLease_frees_example:
  "map_of (deviceBindings (snd (releaseLease 1 (demo_release (Some ''acme'')) demo_registry)))
     (IosSimulator, ''default'', ''udid-1'') = None \<and>
   map_of (deviceBindings demo_registry) (IosSimulator, ''default'', ''udid-1'') = Some demo_id"
proof -
  have "fst (releaseLease 1 (demo_release (Some ''acme'')) demo_registry) = Inr (Some demo_lease)"
    by code_simp
  then have "releaseLease 1 (demo_release (Some ''acme'')) demo_registry = (Inr (Some demo_lease),
      snd (releaseLease 1 (demo_release (Some ''acme'')) demo_registry))"
    by (simp add: prod_eq_iff)
  moreover have "leaseDeviceKey demo_lease = Some (IosSimulator, ''default'', ''udid-1'')"
    by code_simp
  ultimately have "map_of (deviceBindings (snd (releaseLease 1 (demo_release (Some ''acme'')) demo_registry)))
      (IosSimulator, ''default'', ''udid-1'') = None"
    using releaseLease_frees [OF demo_reachable] by blast
  moreover have "map_of (deviceBindings demo_registry) (IosSimulator, ''default'', ''udid-1'') = Some demo_id"
    by code_simp
  ultimately show ?thesis by simp
qed

text \<open>A lease that names a device, a client or a provider other than the default is protected: a
  heartbeat or a release without the identifiers of its owner throws, and the lease stays in the
  registry.\<close>

lemma lease_owner_scope_required:
  assumes reach: "lease_reachable opts r"
    and l: "live now r lid = Some l" and owned: "leaseRequiresOwnerScope l"
    and h: "normalizeLeaseId (Some (hb_leaseId h)) = Some lid" "\<not> hasRequiredOwnerScope l h"
    and q: "normalizeLeaseId (Some (rl_leaseId q)) = Some lid" "\<not> hasRequiredOwnerScope l q"
  shows "heartbeatLease now now' h r = (Inl LeaseScopeRequired, snd (consumeExpiredLeases now r)) \<and>
    releaseLease now q r = (Inl LeaseScopeRequired, snd (consumeExpiredLeases now r)) \<and>
    map_of (leases (snd (consumeExpiredLeases now r))) lid = Some l"
proof -
  have inv: "reg_inv r" using reachable_inv [OF reach] by simp
  have s: "map_of (leases (swept now r)) lid = Some l"
    using l by (simp add: swept_lookup [OF inv])
  then have "heartbeatLease now now' h r = (Inl LeaseScopeRequired, swept now r)"
    using owned h by (simp add: heartbeatLease_def sbind_def slift_def normalizeRequiredLeaseId_def
        cleanup_apply getActiveLease_def assertRequiredScopeForDeviceAwareLease_def)
  moreover have "getLease now q r = (Inl LeaseScopeRequired, swept now r)"
    using s owned q by (simp add: getLease_def sbind_def slift_def normalizeRequiredLeaseId_def
        cleanup_apply assertRequiredScopeForDeviceAwareLease_def)
  ultimately show ?thesis using s by (simp add: releaseLease_eq)
qed

definition demo_heartbeat :: "string option \<Rightarrow> heartbeat_lease_request" where
  "demo_heartbeat tenant = \<lparr>rq_tenantId = tenant, rq_runId = Some ''run-1'', rq_leaseBackend = None,
     rq_leaseProvider = None, rq_deviceKey = Some ''udid-1'', rq_clientId = Some ''cli'',
     hb_leaseId = demo_id, hb_ttlMs = None\<rparr>"

lemma lease_owner_scope_required_example:
  "fst (heartbeatLease 1 1 (demo_heartbeat None) demo_registry) = Inl LeaseScopeRequired \<and>
   fst (releaseLease 1 (demo_release None) demo_registry) = Inl LeaseScopeRequired"
proof -
  have "normalizeLeaseId (Some (hb_leaseId (demo_heartbeat None))) = Some demo_id"
    and "\<not> hasRequiredOwnerScope demo_lease (demo_heartbeat None)"
    and "normalizeLeaseId (Some (rl_leaseId (demo_release None))) = Some demo_id"
    and "\<not> hasRequiredOwnerScope demo_lease (demo_release None)"
    and "leaseRequiresOwnerScope demo_lease"
    by code_simp+
  with lease_owner_scope_required [OF demo_reachable demo_live, of "demo_heartbeat None"
      "demo_release None" 1]
  show ?thesis by simp
qed

text \<open>A configuration with a minimum lifetime above the default maximum of ten minutes and no
  maximum of its own leaves an empty window: every allocation with an explicit lifetime fails, for
  every registry reachable under it, and only requests without one are served.\<close>

lemma lease_ttl_window_empty:
  assumes reach: "lease_reachable opts r"
    and "opt_minLeaseTtlMs opts = Some (JsInt m)" and "600000 < m" and "opt_maxLeaseTtlMs opts = None"
    and q: "al_ttlMs q = Some (JsInt ttl)"
  shows "\<exists>e. fst (allocateLease now now' newId q r) = Inl e"
proof -
  have inv: "reg_inv r" using reachable_inv [OF reach] by simp
  have "lease_config (swept now r) = lease_config (newLeaseRegistry opts)"
    using reachable_config [OF reach] consumeExpiredLeases_spec(4) [OF inv] by simp
  then have "minLeaseTtlMs (swept now r) = m" "maxLeaseTtlMs (swept now r) = 600000"
    using assms by (simp_all add: lease_config_def newLeaseRegistry_def Let_def lease_constants)
  then have bad: "fst (resolveLeaseTtlMs (Some (JsInt ttl)) (swept now r)) =
      Inl (LeaseTtlOutOfRange m 600000)"
    using \<open>600000 < m\<close> by (simp add: resolveLeaseTtlMs_def) arith
  show ?thesis
  proof (cases "fst (allocateLease now now' newId q r)")
    case (Inl e)
    then show ?thesis by simp
  next
    case (Inr l)
    then have "allocateLease now now' newId q r = (Inr l, snd (allocateLease now now' newId q r))"
      by (metis prod.collapse)
    then obtain n t where "fst (resolveLeaseTtlMs (al_ttlMs q) (swept now r)) = Inr t"
      by (rule allocateLease_Inr)
    with bad q show ?thesis by simp
  qed
qed

definition narrow_options :: lease_registry_options where
  "narrow_options = demo_options\<lparr>opt_minLeaseTtlMs := Some (JsInt 900000)\<rparr>"

lemma lease_ttl_window_empty_example:
  "\<exists>e. fst (allocateLease 0 0 demo_id ((demo_request ''acme'' ''udid-1'')\<lparr>al_ttlMs := Some (JsInt 900000)\<rparr>)
     (newLeaseRegistry narrow_options)) = Inl e"
  by (rule lease_ttl_window_empty [OF lease_reachable.start, of _ 900000])
    (simp_all add: narrow_options_def demo_options_def)

text \<open>The device key \<open>'*'\<close> is a valid key, and the same as the placeholder of a run without a
  device: a second allocation of the same run that names this key is served with the lease that has
  no device.\<close>

lemma star_device_conflated:
  "(let q = \<lambda>device. (demo_request ''acme'' ''udid-1'')\<lparr>al_deviceKey := device\<rparr>;
        first = allocateLease 0 0 demo_id (q None) (newLeaseRegistry demo_options);
        second = allocateLease 1 1 ''fedcba9876543210'' (q (Some ''*'')) (snd first)
    in (case fst second of Inr l \<Rightarrow> Some (leaseId l, deviceKey l) | Inl _ \<Rightarrow> None)) =
   Some (demo_id, None)"
  by code_simp

end
