(* ===== verification/Snapshots.thy ===== *)
theory Snapshots
  imports Complex_Main Prelude
begin

text \<open>
  Snapshot data and the reference grammar: \<^verbatim>\<open>packages/kernel/src/snapshot.ts\<close>.

  A node is a record with the source's fields; an optional field is an option. Coordinates are
  rational numbers: the finite doubles are among them, and the arithmetic of the model is exact where
  the code rounds to doubles. A snapshot is an object that the code compares by reference
  (\<open>session.snapshot !== snapshot\<close>), so its record carries the identity of the object in
  \<open>ss_object\<close>: two records are equal when they are the same object (the code never changes a stored
  snapshot). Indices, depths and generations are integers.
\<close>

section \<open>Nodes and snapshots\<close>

record rect =
  rx :: rat
  ry :: rat
  rwidth :: rat
  rheight :: rat

record point =
  px :: rat
  py :: rat

datatype interaction_block = Covered

record raw_node =
  nd_index :: int
  nd_type :: "string option"
  nd_role :: "string option"
  nd_subrole :: "string option"
  nd_label :: "string option"
  nd_value :: "string option"
  nd_identifier :: "string option"
  nd_rect :: "rect option"
  nd_enabled :: "bool option"
  nd_selected :: "bool option"
  nd_focused :: "bool option"
  nd_visibleToUser :: "bool option"
  nd_hittable :: "bool option"
  nd_depth :: "int option"
  nd_parentIndex :: "int option"
  nd_pid :: "int option"
  nd_bundleId :: "string option"
  nd_appName :: "string option"
  nd_windowTitle :: "string option"
  nd_surface :: "string option"
  nd_hiddenContentAbove :: "bool option"
  nd_hiddenContentBelow :: "bool option"
  nd_interactionBlocked :: "interaction_block option"
  nd_presentationHints :: "string list option"

record snapshot_node = raw_node +
  nd_ref :: string
  nd_inheritsLabel :: bool
  nd_inheritsIdentifier :: bool

datatype snapshot_backend = Xctest | Android | MacosHelper | LinuxAtspi | WebBackend

fun snapshot_backend_name :: "snapshot_backend \<Rightarrow> string" where
  "snapshot_backend_name Xctest = ''xctest''"
| "snapshot_backend_name Android = ''android''"
| "snapshot_backend_name MacosHelper = ''macos-helper''"
| "snapshot_backend_name LinuxAtspi = ''linux-atspi''"
| "snapshot_backend_name WebBackend = ''web''"

definition isSnapshotBackend :: "string \<Rightarrow> bool" where
  "isSnapshotBackend value \<longleftrightarrow>
     value = ''xctest'' \<or> value = ''android'' \<or> value = ''macos-helper'' \<or>
     value = ''linux-atspi'' \<or> value = ''web''"

lemma isSnapshotBackend_iff: "isSnapshotBackend s \<longleftrightarrow> (\<exists>b. s = snapshot_backend_name b)"
proof
  assume "isSnapshotBackend s"
  then show "\<exists>b. s = snapshot_backend_name b"
    unfolding isSnapshotBackend_def
    by (elim disjE) (simp_all only: snapshot_backend_name.simps [symmetric], blast+)
next
  assume "\<exists>b. s = snapshot_backend_name b"
  then obtain b where s: "s = snapshot_backend_name b" ..
  show "isSnapshotBackend s"
    unfolding s isSnapshotBackend_def by (cases b) simp_all
qed

definition usesMobileSnapshotPresentation :: "snapshot_backend option \<Rightarrow> bool" where
  "usesMobileSnapshotPresentation b \<longleftrightarrow> b = None \<or> b = Some Xctest \<or> b = Some Android"

record snapshot_state =
  ss_object :: nat
  ss_nodes :: "snapshot_node list"
  ss_createdAt :: int
  ss_truncated :: "bool option"
  ss_backend :: "snapshot_backend option"
  ss_comparisonSafe :: "bool option"
  ss_presentationKey :: "string option"
  ss_systemSurfaceOnly :: "bool option"

definition blank_node :: raw_node where
  "blank_node = \<lparr>nd_index = 0, nd_type = None, nd_role = None, nd_subrole = None, nd_label = None,
     nd_value = None, nd_identifier = None, nd_rect = None, nd_enabled = None, nd_selected = None,
     nd_focused = None, nd_visibleToUser = None, nd_hittable = None, nd_depth = None,
     nd_parentIndex = None, nd_pid = None, nd_bundleId = None, nd_appName = None,
     nd_windowTitle = None, nd_surface = None, nd_hiddenContentAbove = None,
     nd_hiddenContentBelow = None, nd_interactionBlocked = None, nd_presentationHints = None\<rparr>"

section \<open>Decimal numbers\<close>

fun nat_dec :: "nat \<Rightarrow> string" where
  "nat_dec n = (if n < 10 then [char_of (48 + n)] else nat_dec (n div 10) @ [char_of (48 + n mod 10)])"

declare nat_dec.simps [simp del]

definition int_dec :: "int \<Rightarrow> string" where
  "int_dec i = (if i < 0 then ''-'' @ nat_dec (nat (- i)) else nat_dec (nat i))"

definition digit_val :: "char \<Rightarrow> int" where
  "digit_val c = int (of_char c) - 48"

text \<open>\<open>Number\<close> of a string of decimal digits, exact where the code rounds beyond \<open>2 ^ 53\<close>.\<close>

definition dec_val :: "string \<Rightarrow> int" where
  "dec_val s = foldl (\<lambda>a c. 10 * a + digit_val c) 0 s"

lemma digit_char: "n < 10 \<Longrightarrow> is_digit_char (char_of (48 + n)) \<and> digit_val (char_of (48 + n)) = int n"
  by (simp add: is_digit_char_def digit_val_def Let_def)

lemma nat_dec_digits: "list_all is_digit_char (nat_dec n) \<and> nat_dec n \<noteq> []"
proof (induction n rule: nat_dec.induct)
  case (1 n)
  then show ?case
    by (subst (1 2) nat_dec.simps) (simp add: digit_char)
qed

lemma dec_val_nat_dec [simp]: "dec_val (nat_dec n) = int n"
proof (induction n rule: nat_dec.induct)
  case (1 n)
  then show ?case
    by (subst nat_dec.simps) (auto simp: dec_val_def digit_char zdiv_int zmod_int)
qed

lemma nat_dec_inject [simp]: "nat_dec m = nat_dec n \<longleftrightarrow> m = n"
  by (metis dec_val_nat_dec of_nat_eq_iff)

lemma digit_not_space: "is_digit_char c \<Longrightarrow> \<not> is_js_space c"
  by (simp add: is_digit_char_def is_js_space_def Let_def)

section \<open>References\<close>

definition attachRefs :: "raw_node list \<Rightarrow> snapshot_node list" where
  "attachRefs nodes =
     map (\<lambda>(idx, node). raw_node.extend node
            \<lparr>nd_ref = CHR ''e'' # nat_dec (idx + 1), nd_inheritsLabel = False,
             nd_inheritsIdentifier = False\<rparr>)
       (enumerate 0 nodes)"

record split_ref =
  sr_base :: string
  sr_generation :: "int option"

text \<open>The regular expression \<open>^~s(\d+)$\<close>.\<close>

definition match_generation_suffix :: "string \<Rightarrow> string option" where
  "match_generation_suffix s =
     (if take 2 s = ''~s'' \<and> drop 2 s \<noteq> [] \<and> list_all is_digit_char (drop 2 s)
      then Some (drop 2 s) else None)"

definition splitRefGenerationSuffix :: "string \<Rightarrow> split_ref option" where
  "splitRefGenerationSuffix input =
     (let trimmed = js_trim input
      in case js_index_of (CHR ''~'') trimmed of
           None \<Rightarrow> Some \<lparr>sr_base = trimmed, sr_generation = None\<rparr>
         | Some tildeIndex \<Rightarrow>
             (case match_generation_suffix (drop tildeIndex trimmed) of
                None \<Rightarrow> None
              | Some digits \<Rightarrow>
                  if tildeIndex = 0 then None
                  else Some \<lparr>sr_base = take tildeIndex trimmed,
                             sr_generation = Some (dec_val digits)\<rparr>))"

definition normalizeRef :: "string \<Rightarrow> string option" where
  "normalizeRef input =
     (case splitRefGenerationSuffix input of
        None \<Rightarrow> None
      | Some split \<Rightarrow>
          let trimmed = sr_base split in
          if take 1 trimmed = ''@''
          then (let ref = drop 1 trimmed in if ref \<noteq> [] then Some ref else None)
          else if take 1 trimmed = ''e'' then Some trimmed
          else None)"

definition findNodeByRef :: "snapshot_node list \<Rightarrow> string \<Rightarrow> snapshot_node option" where
  "findNodeByRef nodes ref = find (\<lambda>node. nd_ref node = ref) nodes"

text \<open>The pinned form the responses tell clients to use.\<close>

definition pinned_ref :: "string \<Rightarrow> nat \<Rightarrow> string" where
  "pinned_ref base g = base @ ''~s'' @ nat_dec g"

lemma trimmed_pinned:
  assumes "base \<noteq> []" and "\<not> is_js_space (hd base)"
  shows "trimmed (pinned_ref base g)"
proof -
  have "last (nat_dec g) \<in> set (nat_dec g)" and "nat_dec g \<noteq> []"
    using nat_dec_digits [of g] by simp_all
  then have "\<not> is_js_space (last (nat_dec g))"
    using nat_dec_digits [of g] digit_not_space by (auto simp only: list_all_iff)
  with assms \<open>nat_dec g \<noteq> []\<close> show ?thesis
    by (simp add: trimmed_def pinned_ref_def)
qed

lemma split_pinned:
  assumes "base \<noteq> []" and "\<not> is_js_space (hd base)" and "CHR ''~'' \<notin> set base"
  shows "splitRefGenerationSuffix (pinned_ref base g) =
    Some \<lparr>sr_base = base, sr_generation = Some (int g)\<rparr>"
proof -
  have "js_trim (pinned_ref base g) = base @ CHR ''~'' # CHR ''s'' # nat_dec g"
    using js_trim_trimmed [OF trimmed_pinned [OF assms(1,2)]] by (simp add: pinned_ref_def)
  then show ?thesis
    using assms nat_dec_digits [of g]
    by (simp add: splitRefGenerationSuffix_def js_index_of_append match_generation_suffix_def Let_def)
qed

lemma attachRefs_ref:
  "i < length nodes \<Longrightarrow> nd_ref (attachRefs nodes ! i) = CHR ''e'' # nat_dec (i + 1)"
  by (simp add: attachRefs_def nth_enumerate_eq raw_node.defs)

lemma length_attachRefs [simp]: "length (attachRefs nodes) = length nodes"
  by (simp add: attachRefs_def)

lemma find_first:
  "i < length xs \<Longrightarrow> P (xs ! i) \<Longrightarrow> (\<And>j. j < i \<Longrightarrow> \<not> P (xs ! j)) \<Longrightarrow> find P xs = Some (xs ! i)"
  by (auto simp: find_Some_iff)

lemma findNodeByRef_attachRefs:
  assumes "i < length nodes"
  shows "findNodeByRef (attachRefs nodes) (CHR ''e'' # nat_dec (i + 1)) = Some (attachRefs nodes ! i)"
  unfolding findNodeByRef_def
  by (rule find_first) (use assms in \<open>simp_all add: attachRefs_ref\<close>)

text \<open>A reference handed out for node \<open>i\<close> of a snapshot, plain (\<open>eN\<close>), with the at-sign (\<open>@eN\<close>)
  or pinned to any generation (\<open>@eN~sG\<close>), with white space around it, is parsed back to exactly that
  node, and the pinned form also yields its generation.\<close>

lemma issued_ref_roundtrip:
  assumes "i < length nodes"
  shows "let ref = nd_ref (attachRefs nodes ! i)
    in (\<forall>form \<in> {ref, CHR ''@'' # ref, pinned_ref ref g, pinned_ref (CHR ''@'' # ref) g}.
         Option.bind (normalizeRef form) (findNodeByRef (attachRefs nodes)) = Some (attachRefs nodes ! i)) \<and>
       splitRefGenerationSuffix (pinned_ref (CHR ''@'' # ref) g) =
         Some \<lparr>sr_base = CHR ''@'' # ref, sr_generation = Some (int g)\<rparr>"
proof -
  let ?ref = "CHR ''e'' # nat_dec (i + 1)"
  have digits: "list_all is_digit_char (nat_dec (i + 1))" using nat_dec_digits by blast
  then have no: "c \<notin> set ?ref" if "\<not> is_digit_char c" "c \<noteq> CHR ''e''" for c
    using that by (auto simp: list_all_iff)
  have tilde: "CHR ''~'' \<notin> set ?ref" by (rule no) code_simp+
  have sp: "\<not> is_js_space c" if "c \<in> set ?ref" for c
  proof (cases "c = CHR ''e''")
    case True
    then show ?thesis by (simp add: is_js_space_def)
  next
    case False
    with that have "c \<in> set (nat_dec (i + 1))" by simp
    with digits show ?thesis using digit_not_space unfolding list_all_iff by blast
  qed
  have at: "\<not> is_js_space (CHR ''@'')" by (simp add: is_js_space_def)
  have plain: "splitRefGenerationSuffix ?ref = Some \<lparr>sr_base = ?ref, sr_generation = None\<rparr>"
  proof -
    have "js_trim ?ref = ?ref" by (rule js_trim_trimmed) (rule trimmed_no_space, rule sp)
    moreover have "js_index_of (CHR ''~'') ?ref = None" using tilde by (rule js_index_of_None [THEN iffD2])
    ultimately show ?thesis by (simp add: splitRefGenerationSuffix_def)
  qed
  have with_at: "splitRefGenerationSuffix (CHR ''@'' # ?ref) =
      Some \<lparr>sr_base = CHR ''@'' # ?ref, sr_generation = None\<rparr>"
  proof -
    have "js_trim (CHR ''@'' # ?ref) = CHR ''@'' # ?ref"
      by (rule js_trim_trimmed) (rule trimmed_no_space, use sp at in auto)
    moreover have "js_index_of (CHR ''~'') (CHR ''@'' # ?ref) = None"
      by (rule js_index_of_None [THEN iffD2]) (use tilde in simp)
    ultimately show ?thesis by (simp add: splitRefGenerationSuffix_def)
  qed
  have pin: "splitRefGenerationSuffix (pinned_ref ?ref g) = Some \<lparr>sr_base = ?ref, sr_generation = Some (int g)\<rparr>"
    by (rule split_pinned) (use sp [of "CHR ''e''"] tilde in auto)
  have pin_at: "splitRefGenerationSuffix (pinned_ref (CHR ''@'' # ?ref) g) =
      Some \<lparr>sr_base = CHR ''@'' # ?ref, sr_generation = Some (int g)\<rparr>"
    by (rule split_pinned) (use at tilde in auto)
  have "normalizeRef form = Some ?ref"
    if "form \<in> {?ref, CHR ''@'' # ?ref, pinned_ref ?ref g, pinned_ref (CHR ''@'' # ?ref) g}" for form
    using that plain with_at pin pin_at by (auto simp: normalizeRef_def)
  then show ?thesis
    using pin_at findNodeByRef_attachRefs [OF assms] by (simp add: attachRefs_ref [OF assms])
qed

lemma issued_ref_roundtrip_example:
  "normalizeRef ''@e2~s123456'' = Some ''e2'' \<and>
   Option.bind (normalizeRef (pinned_ref (CHR ''@'' # ''e2'') 123456))
     (findNodeByRef (attachRefs [blank_node, blank_node\<lparr>nd_index := 1\<rparr>])) =
   Some (attachRefs [blank_node, blank_node\<lparr>nd_index := 1\<rparr>] ! 1)"
proof -
  let ?ns = "[blank_node, blank_node\<lparr>nd_index := 1\<rparr>]"
  have "nd_ref (attachRefs ?ns ! 1) = ''e2''"
    by code_simp
  then have "Option.bind (normalizeRef (pinned_ref (CHR ''@'' # ''e2'') 123456))
      (findNodeByRef (attachRefs ?ns)) = Some (attachRefs ?ns ! 1)"
    using issued_ref_roundtrip [of 1 ?ns 123456] by (simp add: Let_def)
  moreover have "normalizeRef ''@e2~s123456'' = Some ''e2''" by code_simp
  ultimately show ?thesis by simp
qed

end
