(* ===== verification/RefFrame.thy ===== *)
theory RefFrame
  imports Snapshots "HOL-Library.Option_ord"
begin

text \<open>
  The ref frame of a session: which element references a client may still use to target a mutation.
  \<^verbatim>\<open>src/daemon/ref-frame.ts\<close> (the frame and the admission matrix),
  \<^verbatim>\<open>src/daemon/session-snapshot.ts\<close> (the observation and its generation, partial issuance, staleness
  warnings), the session construction of \<^verbatim>\<open>src/daemon/snapshot-runtime.ts\<close> and
  \<^verbatim>\<open>src/daemon/handlers/snapshot-session.ts\<close>, that of an open in \<^verbatim>\<open>src/daemon/handlers/session-open-surface.ts\<close>, the rejection responses of
  \<^verbatim>\<open>src/daemon/handlers/interaction-ref-policy.ts\<close> and the publication of internal observations,
  \<^verbatim>\<open>src/daemon/internal-observation.ts\<close>.

  \<open>ref_session\<close> holds the fields of \<open>SessionState\<close> these files read or write. Objects that the code
  compares by reference carry their identity: \<open>rs_object\<close> for a session, \<open>ss_object\<close> for a snapshot,
  the first argument of \<open>ScopeRefs\<close> for an issuance set. The weak map \<open>runtimeRevisions\<close> is keyed by
  the session object and its default is 0, so its entry is the field \<open>rs_runtimeRevision\<close>, which a
  new object has at 0. The random seed of the first generation is an argument.
\<close>

section \<open>The session and its frame\<close>

datatype ref_frame_scope = ScopeAll | ScopeRefs nat "string list"

datatype ref_frame_state = FrameActive | FrameExpired

datatype ref_reject_reason =
    RefFrameExpired | RefGenerationMismatch | PlainRefRequiresCompleteFrame | RefNotIssued

datatype ref_frame_admission = Admitted | Rejected ref_reject_reason

record ref_session =
  rs_object :: nat
  rs_createdAt :: int
  rs_snapshot :: "snapshot_state option"
  rs_snapshotGeneration :: "int option"
  rs_snapshotScopeSource :: "snapshot_state option"
  rs_refFrameState :: "ref_frame_state option"
  rs_refFrameScope :: "ref_frame_scope option"
  rs_refFrameTree :: "snapshot_state option"
  rs_refFrameGeneration :: "int option"
  rs_lastComparisonSafeSnapshot :: "snapshot_state option"
  rs_runtimeRevision :: nat

definition or_else :: "'a option \<Rightarrow> 'a option \<Rightarrow> 'a option" where
  "or_else x y = (case x of Some a \<Rightarrow> Some a | None \<Rightarrow> y)"

definition refFrameEpoch :: "ref_session \<Rightarrow> int option" where
  "refFrameEpoch session = or_else (rs_refFrameGeneration session) (rs_snapshotGeneration session)"

definition readSessionRuntimeRevision :: "ref_session \<Rightarrow> nat" where
  "readSessionRuntimeRevision session = rs_runtimeRevision session"

definition advanceSessionRuntimeRevision :: "ref_session \<Rightarrow> ref_session" where
  "advanceSessionRuntimeRevision session =
     session\<lparr>rs_runtimeRevision := readSessionRuntimeRevision session + 1\<rparr>"

definition expireRefFrame :: "ref_session \<Rightarrow> ref_session" where
  "expireRefFrame session =
     (advanceSessionRuntimeRevision session)
       \<lparr>rs_refFrameState := Some FrameExpired, rs_snapshotScopeSource := None\<rparr>"

definition activateRefFrame :: "ref_session \<Rightarrow> ref_frame_scope option \<Rightarrow> ref_session" where
  "activateRefFrame session scope =
     session\<lparr>rs_refFrameState := Some FrameActive, rs_refFrameScope := scope,
       rs_refFrameTree := rs_snapshot session,
       rs_refFrameGeneration := rs_snapshotGeneration session\<rparr>"

definition activateCompleteRefFrame :: "ref_session \<Rightarrow> ref_session" where
  "activateCompleteRefFrame session = activateRefFrame session None"

definition activatePartialRefFrame :: "ref_session \<Rightarrow> ref_frame_scope \<Rightarrow> ref_session" where
  "activatePartialRefFrame session scope = activateRefFrame session (Some scope)"

definition refFrameState :: "ref_session \<Rightarrow> ref_frame_state" where
  "refFrameState session =
     (case rs_refFrameState session of Some s \<Rightarrow> s | None \<Rightarrow> FrameActive)"

definition refFrameScope :: "ref_session \<Rightarrow> ref_frame_scope" where
  "refFrameScope session = (case rs_refFrameScope session of Some s \<Rightarrow> s | None \<Rightarrow> ScopeAll)"

definition admitRefMutation :: "ref_session \<Rightarrow> string \<Rightarrow> int option \<Rightarrow> ref_frame_admission" where
  "admitRefMutation session refBody mintedGeneration =
     (if refFrameState session = FrameExpired then Rejected RefFrameExpired
      else if mintedGeneration \<noteq> None \<and> mintedGeneration \<noteq> refFrameEpoch session
      then Rejected RefGenerationMismatch
      else case refFrameScope session of
          ScopeAll \<Rightarrow> Admitted
        | ScopeRefs obj refs \<Rightarrow>
            if mintedGeneration = None then Rejected PlainRefRequiresCompleteFrame
            else if refBody \<notin> set refs then Rejected RefNotIssued
            else Admitted)"

section \<open>The observation\<close>

definition nextSnapshotGeneration :: "int \<Rightarrow> int option \<Rightarrow> int" where
  "nextSnapshotGeneration seed current = (case current of None \<Rightarrow> seed | Some g \<Rightarrow> g + 1)"

definition setSessionSnapshot :: "int \<Rightarrow> ref_session \<Rightarrow> snapshot_state \<Rightarrow> ref_session" where
  "setSessionSnapshot seed session snapshot =
     (let s1 = (if rs_snapshot session \<noteq> Some snapshot
                then session\<lparr>rs_snapshotGeneration :=
                       Some (nextSnapshotGeneration seed (rs_snapshotGeneration session))\<rparr>
                else session);
          s2 = s1\<lparr>rs_snapshot := Some snapshot, rs_snapshotScopeSource := None\<rparr>
      in if ss_comparisonSafe snapshot = Some True
         then s2\<lparr>rs_lastComparisonSafeSnapshot := Some snapshot\<rparr> else s2)"

definition setSnapshotLineage ::
    "int \<Rightarrow> ref_session \<Rightarrow> snapshot_state option \<Rightarrow> bool \<Rightarrow> int option \<Rightarrow> ref_session" where
  "setSnapshotLineage seed session scopeSource keptCurrentSnapshot previousGeneration =
     session\<lparr>rs_snapshotScopeSource := scopeSource,
       rs_snapshotGeneration :=
         (if keptCurrentSnapshot then previousGeneration
          else Some (nextSnapshotGeneration seed previousGeneration))\<rparr>"

definition normalizeRefBody :: "string \<Rightarrow> string" where
  "normalizeRefBody ref =
     (let withoutAt = (if take 1 ref = ''@'' then drop 1 ref else ref)
      in case js_index_of (CHR ''~'') withoutAt of
           None \<Rightarrow> withoutAt
         | Some tilde \<Rightarrow> take tilde withoutAt)"

text \<open>A JavaScript \<open>Set\<close> keeps the first occurrence of each value, in order of insertion.\<close>

definition js_set_add :: "'a list \<Rightarrow> 'a \<Rightarrow> 'a list" where
  "js_set_add s x = (if x \<in> set s then s else s @ [x])"

definition normalizeRefBodies :: "string list \<Rightarrow> string list" where
  "normalizeRefBodies refs =
     foldl (\<lambda>scope ref. let body = normalizeRefBody ref
              in if body \<noteq> [] then js_set_add scope body else scope) [] refs"

definition markSessionPartialRefsIssued :: "nat \<Rightarrow> ref_session \<Rightarrow> string list \<Rightarrow> ref_session" where
  "markSessionPartialRefsIssued obj session refs =
     (let scope = normalizeRefBodies refs
      in if scope = [] then session
         else activatePartialRefFrame session (ScopeRefs obj scope))"

datatype stale_warning =
    StaleSnapshotRefs
  | PinnedStaleRef string int int

definition buildPinnedStaleRefWarning :: "string \<Rightarrow> int \<Rightarrow> int \<Rightarrow> stale_warning" where
  "buildPinnedStaleRefWarning ref mintedGeneration currentFrameEpoch =
     PinnedStaleRef (if take 1 ref = ''@'' then drop 1 ref else ref)
       mintedGeneration currentFrameEpoch"

definition resolveRefStalenessWarning ::
    "ref_session option \<Rightarrow> string \<Rightarrow> int option \<Rightarrow> stale_warning option" where
  "resolveRefStalenessWarning session ref mintedGeneration =
     (if session \<noteq> None \<and> refFrameState (the session) = FrameExpired then Some StaleSnapshotRefs
      else case mintedGeneration of
          None \<Rightarrow> None
        | Some minted \<Rightarrow>
            let currentFrameEpoch =
                  (case session of
                     None \<Rightarrow> 0
                   | Some s \<Rightarrow> (case refFrameEpoch s of None \<Rightarrow> 0 | Some e \<Rightarrow> e))
            in if minted \<noteq> currentFrameEpoch
               then Some (buildPinnedStaleRefWarning ref minted currentFrameEpoch)
               else None)"

text \<open>The error response for a refused mutation, with the data of its details.\<close>

record ref_rejection =
  rj_reason :: ref_reject_reason
  rj_ref :: string
  rj_currentGeneration :: "int option"
  rj_scope :: "string list option"
  rj_mintedGeneration :: "int option"
  rj_staleRefsWarning :: "stale_warning option"

definition refMutationAdmissionResponse ::
    "ref_session \<Rightarrow> string \<Rightarrow> int option \<Rightarrow> stale_warning option \<Rightarrow> ref_rejection option" where
  "refMutationAdmissionResponse session ref mintedGeneration staleRefsWarning =
     (let refBody = (if take 1 ref = ''@'' then drop 1 ref else ref)
      in case admitRefMutation session refBody mintedGeneration of
           Admitted \<Rightarrow> None
         | Rejected reason \<Rightarrow>
             Some \<lparr>rj_reason = reason, rj_ref = ref, rj_currentGeneration = refFrameEpoch session,
               rj_scope = (case refFrameScope session of ScopeAll \<Rightarrow> None | ScopeRefs _ refs \<Rightarrow> Some refs),
               rj_mintedGeneration = mintedGeneration, rj_staleRefsWarning = staleRefsWarning\<rparr>)"

section \<open>The snapshot command\<close>

text \<open>\<open>{...session, snapshot, ...}\<close> is a new object: it gets a fresh identity and, with it, a runtime
  revision of 0.\<close>

definition buildSnapshotSession ::
    "nat \<Rightarrow> int \<Rightarrow> ref_session option \<Rightarrow> snapshot_state option \<Rightarrow> ref_session" where
  "buildSnapshotSession obj now session snapshot =
     (let safe = (case snapshot of None \<Rightarrow> False | Some s \<Rightarrow> ss_comparisonSafe s = Some True)
      in case session of
           Some s \<Rightarrow>
             s\<lparr>rs_object := obj, rs_runtimeRevision := 0, rs_snapshot := snapshot,
               rs_lastComparisonSafeSnapshot :=
                 (if safe then snapshot else rs_lastComparisonSafeSnapshot s)\<rparr>
         | None \<Rightarrow>
             \<lparr>rs_object = obj, rs_createdAt = now, rs_snapshot = snapshot,
              rs_snapshotGeneration = None, rs_snapshotScopeSource = None,
              rs_refFrameState = None, rs_refFrameScope = None, rs_refFrameTree = None,
              rs_refFrameGeneration = None,
              rs_lastComparisonSafeSnapshot = (if safe then snapshot else None),
              rs_runtimeRevision = 0\<rparr>)"

definition shouldKeepCurrentSnapshot ::
    "ref_session option \<Rightarrow> snapshot_state \<Rightarrow> bool \<Rightarrow> bool" where
  "shouldKeepCurrentSnapshot current snapshot refScopedSnapshot \<longleftrightarrow>
     refScopedSnapshot \<and> length (ss_nodes snapshot) = 0 \<and>
     Option.bind current rs_snapshot \<noteq> None"

definition resolveNextSnapshotScopeSource ::
    "ref_session option \<Rightarrow> bool \<Rightarrow> bool \<Rightarrow> snapshot_state option" where
  "resolveNextSnapshotScopeSource current keepCurrentSnapshot refScopedSnapshot =
     (if \<not> refScopedSnapshot then None
      else if keepCurrentSnapshot then Option.bind current rs_snapshotScopeSource
      else or_else (Option.bind current rs_snapshotScopeSource) (Option.bind current rs_snapshot))"

definition reactivateCompleteFrameIfIssuing :: "ref_session \<Rightarrow> bool \<Rightarrow> bool \<Rightarrow> ref_session" where
  "reactivateCompleteFrameIfIssuing session keepCurrentSnapshot issuesRefsToClient =
     (if \<not> keepCurrentSnapshot \<and> issuesRefsToClient then activateCompleteRefFrame session
      else session)"

definition buildNextSnapshotSession ::
    "nat \<Rightarrow> int \<Rightarrow> int \<Rightarrow> ref_session option \<Rightarrow> snapshot_state \<Rightarrow> bool \<Rightarrow> bool \<Rightarrow> ref_session" where
  "buildNextSnapshotSession obj now seed current recordSnapshot refScopedSnapshot issuesRefsToClient =
     (let keepCurrentSnapshot = shouldKeepCurrentSnapshot current recordSnapshot refScopedSnapshot;
          snapshot = (if keepCurrentSnapshot then Option.bind current rs_snapshot
                      else Some recordSnapshot);
          nextSession = buildSnapshotSession obj now current snapshot;
          nextSession' = setSnapshotLineage seed nextSession
            (resolveNextSnapshotScopeSource current keepCurrentSnapshot refScopedSnapshot)
            keepCurrentSnapshot (Option.bind current rs_snapshotGeneration)
      in reactivateCompleteFrameIfIssuing nextSession' keepCurrentSnapshot issuesRefsToClient)"

section \<open>The open command and copies\<close>

definition newRefSession :: "nat \<Rightarrow> int \<Rightarrow> ref_session" where
  "newRefSession obj now =
     \<lparr>rs_object = obj, rs_createdAt = now, rs_snapshot = None, rs_snapshotGeneration = None,
      rs_snapshotScopeSource = None, rs_refFrameState = None, rs_refFrameScope = None,
      rs_refFrameTree = None, rs_refFrameGeneration = None, rs_lastComparisonSafeSnapshot = None,
      rs_runtimeRevision = 0\<rparr>"

text \<open>An open on an existing session is a copy of it without the stored snapshot; the generation counter and the frame are
  kept. Without a session it is a new one.\<close>

definition buildNextOpenSession :: "nat \<Rightarrow> int \<Rightarrow> ref_session option \<Rightarrow> ref_session" where
  "buildNextOpenSession obj now existingSession =
     (case existingSession of
        Some s \<Rightarrow> s\<lparr>rs_object := obj, rs_runtimeRevision := 0, rs_snapshot := None\<rparr>
      | None \<Rightarrow> newRefSession obj now)"

text \<open>The handlers that write back \<open>{...session, field}\<close> with a field that is not modelled here (a lease, a log, a performance
  recording, the app in the foreground) replace the session by a copy.\<close>

definition copy_session :: "nat \<Rightarrow> ref_session \<Rightarrow> ref_session" where
  "copy_session obj s = s\<lparr>rs_object := obj, rs_runtimeRevision := 0\<rparr>"

section \<open>The session as a machine\<close>

text \<open>The writes the daemon makes to a session: a read-only capture, a snapshot or diff command, a
  device side effect, the issuance of a partial result, an open on the existing session, and a copy.\<close>

datatype frame_op =
    Observe int snapshot_state
  | PublishSnapshot nat int int snapshot_state bool bool
  | SideEffect
  | IssuePartial nat "string list"
  | Reopen nat int
  | CopySession nat

fun frame_step :: "frame_op \<Rightarrow> ref_session \<Rightarrow> ref_session" where
  "frame_step (Observe seed snapshot) s = setSessionSnapshot seed s snapshot"
| "frame_step (PublishSnapshot obj now seed snapshot refScoped issues) s =
     buildNextSnapshotSession obj now seed (Some s) snapshot refScoped issues"
| "frame_step SideEffect s = expireRefFrame s"
| "frame_step (IssuePartial obj refs) s = markSessionPartialRefsIssued obj s refs"
| "frame_step (Reopen obj now) s = buildNextOpenSession obj now (Some s)"
| "frame_step (CopySession obj) s = copy_session obj s"

lemmas frame_defs = setSessionSnapshot_def buildNextSnapshotSession_def buildSnapshotSession_def
  setSnapshotLineage_def resolveNextSnapshotScopeSource_def reactivateCompleteFrameIfIssuing_def
  activateCompleteRefFrame_def activatePartialRefFrame_def activateRefFrame_def expireRefFrame_def
  advanceSessionRuntimeRevision_def readSessionRuntimeRevision_def markSessionPartialRefsIssued_def
  nextSnapshotGeneration_def buildNextOpenSession_def copy_session_def Let_def

text \<open>The frame is coherent: a stored tree has a generation, the epoch of the frame is not ahead of it,
  and when they are equal the frame's tree is the stored one, if there still is one.\<close>

definition frame_inv :: "ref_session \<Rightarrow> bool" where
  "frame_inv s \<longleftrightarrow>
     (rs_snapshotGeneration s = None \<longrightarrow> rs_snapshot s = None) \<and>
     rs_refFrameGeneration s \<le> rs_snapshotGeneration s \<and>
     (rs_refFrameGeneration s = None \<longrightarrow> rs_refFrameTree s = None) \<and>
     (rs_refFrameGeneration s \<noteq> None \<and> rs_refFrameGeneration s = rs_snapshotGeneration s \<and> rs_snapshot s \<noteq> None \<longrightarrow>
        rs_refFrameTree s = rs_snapshot s)"

lemma frame_inv_step: "frame_inv s \<Longrightarrow> frame_inv (frame_step x s)"
  by (cases x) (auto simp: frame_inv_def frame_defs shouldKeepCurrentSnapshot_def less_eq_option_def
      split: option.splits)

lemma generation_step: "frame_inv s \<Longrightarrow> rs_snapshotGeneration s \<le> rs_snapshotGeneration (frame_step x s)"
  by (cases x) (auto simp: frame_inv_def frame_defs shouldKeepCurrentSnapshot_def less_eq_option_def
      split: option.splits)

interpretation frame: ranked_machine frame_step frame_inv rs_snapshotGeneration
  by unfold_locales (simp_all add: frame_inv_step generation_step)

text \<open>What later states owe to a state in which a tree was stored at generation \<open>g\<close>. An open removes the stored tree, and a frame
  issued before the next capture has none.\<close>

definition tree_of_generation :: "int \<Rightarrow> snapshot_state option \<Rightarrow> ref_session \<Rightarrow> bool" where
  "tree_of_generation g tree s \<longleftrightarrow>
     frame_inv s \<and> Some g \<le> rs_snapshotGeneration s \<and>
     (rs_snapshotGeneration s = Some g \<longrightarrow> rs_snapshot s = tree \<or> rs_snapshot s = None) \<and>
     (rs_refFrameGeneration s = Some g \<longrightarrow> rs_refFrameTree s = tree \<or> rs_refFrameTree s = None)"

lemma tree_of_generation_step: "tree_of_generation g tree s \<Longrightarrow> tree_of_generation g tree (frame_step x s)"
  using frame_inv_step [of s x]
  by (cases x) (auto simp: tree_of_generation_def frame_defs shouldKeepCurrentSnapshot_def
      less_eq_option_def frame_inv_def split: option.splits)

interpretation generation: machine frame_step "tree_of_generation g tree" for g tree
  by unfold_locales (rule tree_of_generation_step)

text \<open>Partial results are issued from a stored tree, as \<^verbatim>\<open>find\<close>, the settled diff and the publication of an observation do, which
  capture before they issue.\<close>

fun issues_on_capture :: "frame_op list \<Rightarrow> ref_session \<Rightarrow> bool" where
  "issues_on_capture [] s = True"
| "issues_on_capture (IssuePartial obj refs # xs) s =
     (rs_snapshot s \<noteq> None \<and> issues_on_capture xs (frame_step (IssuePartial obj refs) s))"
| "issues_on_capture (x # xs) s = issues_on_capture xs (frame_step x s)"

lemma issues_on_capture_Cons:
  "issues_on_capture (x # xs) s \<longleftrightarrow>
     (\<forall>obj refs. x = IssuePartial obj refs \<longrightarrow> rs_snapshot s \<noteq> None) \<and> issues_on_capture xs (frame_step x s)"
  by (cases x) simp_all

lemma frame_tree_step:
  assumes "rs_refFrameGeneration s = Some g \<longrightarrow> rs_refFrameTree s \<noteq> None"
    and "\<forall>obj refs. x = IssuePartial obj refs \<longrightarrow> rs_snapshot s \<noteq> None"
  shows "rs_refFrameGeneration (frame_step x s) = Some g \<longrightarrow> rs_refFrameTree (frame_step x s) \<noteq> None"
  using assms by (cases x) (auto simp: frame_defs shouldKeepCurrentSnapshot_def split: option.splits)

lemma frame_tree_run:
  assumes "issues_on_capture xs s" and "rs_refFrameGeneration s = Some g \<longrightarrow> rs_refFrameTree s \<noteq> None"
  shows "rs_refFrameGeneration (fold frame_step xs s) = Some g \<longrightarrow> rs_refFrameTree (fold frame_step xs s) \<noteq> None"
  using assms
proof (induction xs arbitrary: s)
  case Nil
  then show ?case by simp
next
  case (Cons x xs)
  then have "issues_on_capture xs (frame_step x s)"
    and "\<forall>obj refs. x = IssuePartial obj refs \<longrightarrow> rs_snapshot s \<noteq> None"
    by (simp_all add: issues_on_capture_Cons)
  then show ?case using Cons.IH Cons.prems(2) frame_tree_step by simp
qed
lemma frame_inv_new [simp]: "frame_inv (newRefSession obj now)"
  by (simp add: frame_inv_def newRefSession_def)

subsection \<open>Steps that leave the authority alone\<close>

definition frame_fields :: "ref_session \<Rightarrow>
    ref_frame_state option \<times> ref_frame_scope option \<times> snapshot_state option \<times> int option" where
  "frame_fields s = (rs_refFrameState s, rs_refFrameScope s, rs_refFrameTree s, rs_refFrameGeneration s)"

text \<open>Steps that do not touch the frame: a capture, a snapshot command that does not hand its refs to the client (a diff, or an
  observation that keeps the current tree), the session of an open and a copy. The open command is a side effect as well.\<close>

fun read_only :: "frame_op \<Rightarrow> bool" where
  "read_only (Observe _ _) = True"
| "read_only (PublishSnapshot _ _ _ _ _ issues) = (\<not> issues)"
| "read_only (Reopen _ _) = True"
| "read_only (CopySession _) = True"
| "read_only _ = False"

lemma read_only_step: "read_only x \<Longrightarrow> frame_fields (frame_step x s) = frame_fields s"
  by (cases x) (auto simp: frame_fields_def frame_defs split: option.splits)

lemma read_only_run:
  "list_all read_only xs \<Longrightarrow> frame_fields (fold frame_step xs s) = frame_fields s"
  by (induction xs arbitrary: s) (simp_all add: read_only_step)

lemma admit_frame_fields:
  assumes "frame_fields s = frame_fields t" and "rs_refFrameGeneration t \<noteq> None"
  shows "admitRefMutation s body pin = admitRefMutation t body pin \<and>
    resolveRefStalenessWarning (Some s) ref pin = resolveRefStalenessWarning (Some t) ref pin"
  using assms
  by (auto simp: frame_fields_def admitRefMutation_def resolveRefStalenessWarning_def refFrameState_def
      refFrameEpoch_def refFrameScope_def or_else_def split: option.splits)

text \<open>Steps that give no new authority, whatever they do to the observation.\<close>

fun issues_nothing :: "frame_op \<Rightarrow> bool" where
  "issues_nothing (PublishSnapshot _ _ _ _ _ issues) = (\<not> issues)"
| "issues_nothing (IssuePartial _ refs) = (normalizeRefBodies refs = [])"
| "issues_nothing _ = True"

lemma expired_step:
  "issues_nothing x \<Longrightarrow> refFrameState s = FrameExpired \<Longrightarrow> refFrameState (frame_step x s) = FrameExpired"
  by (cases x) (auto simp: refFrameState_def frame_defs split: option.splits)

lemma expired_run:
  "list_all issues_nothing xs \<Longrightarrow> refFrameState s = FrameExpired \<Longrightarrow>
   refFrameState (fold frame_step xs s) = FrameExpired"
  by (induction xs arbitrary: s) (simp_all add: expired_step)

lemma normalizeRefBodies_foldl:
  "set (foldl (\<lambda>scope ref. let body = normalizeRefBody ref
      in if body \<noteq> [] then js_set_add scope body else scope) acc refs) =
   set acc \<union> {b. b \<noteq> [] \<and> (\<exists>r \<in> set refs. b = normalizeRefBody r)}"
  by (induction refs arbitrary: acc) (auto simp: js_set_add_def Let_def)

lemma set_normalizeRefBodies:
  "set (normalizeRefBodies refs) = {b. b \<noteq> [] \<and> (\<exists>r \<in> set refs. b = normalizeRefBody r)}"
  by (simp add: normalizeRefBodies_def normalizeRefBodies_foldl)

section \<open>Properties of the frame\<close>

text \<open>C30. In a session from its start, a generation names one tree for good: if a tree was stored at generation \<open>g\<close>, then at any
  later time, with captures, publications, side effects, issuances of captured references, opens on the session and copies in
  between, the stored tree of generation \<open>g\<close> is this tree or has been removed by an open, the tree of a frame with epoch \<open>g\<close> is
  this tree, and the observation counter has not gone back. A pin can never be resolved against another tree.\<close>

theorem pinned_generation_names_one_tree:
  assumes s: "s = fold frame_step xs (newRefSession obj now)" and t: "t = fold frame_step ys s"
    and g: "rs_snapshotGeneration s = Some g" "rs_snapshot s = Some tree"
    and ys: "issues_on_capture ys s"
  shows "Some g \<le> rs_snapshotGeneration t \<and>
    (rs_snapshotGeneration t = Some g \<longrightarrow> rs_snapshot t = Some tree \<or> rs_snapshot t = None) \<and>
    (rs_refFrameGeneration t = Some g \<longrightarrow> rs_refFrameTree t = Some tree)"
proof -
  have "frame_inv s" unfolding s by (rule frame.run_inv) simp
  then have "tree_of_generation g (Some tree) s" and frame: "rs_refFrameGeneration s = Some g \<longrightarrow> rs_refFrameTree s \<noteq> None"
    using g by (simp_all add: tree_of_generation_def frame_inv_def)
  then have "tree_of_generation g (Some tree) t"
    unfolding t by (intro generation.run_inv)
  moreover have "rs_refFrameGeneration t = Some g \<longrightarrow> rs_refFrameTree t \<noteq> None"
    unfolding t by (rule frame_tree_run [OF ys frame])
  ultimately show ?thesis by (auto simp: tree_of_generation_def)
qed

definition demo_snapshot :: "nat \<Rightarrow> nat \<Rightarrow> snapshot_state" where
  "demo_snapshot obj n = \<lparr>ss_object = obj, ss_nodes = attachRefs (replicate n blank_node),
     ss_createdAt = 0, ss_truncated = None, ss_backend = Some Android, ss_comparisonSafe = Some True,
     ss_presentationKey = None, ss_systemSurfaceOnly = None\<rparr>"

definition demo_published :: ref_session where
  "demo_published = fold frame_step [PublishSnapshot 1 0 123456 (demo_snapshot 10 3) False True]
     (newRefSession 0 0)"

theorem pinned_generation_names_one_tree_witness:
  "let t = fold frame_step [Observe 0 (demo_snapshot 11 2), SideEffect, Reopen 2 1, Observe 0 (demo_snapshot 12 1)]
        demo_published
   in rs_refFrameTree t = Some (demo_snapshot 10 3) \<and> rs_snapshotGeneration t = Some 123458"
proof -
  let ?ys = "[Observe 0 (demo_snapshot 11 2), SideEffect, Reopen 2 1, Observe 0 (demo_snapshot 12 1)]"
  have "rs_snapshotGeneration demo_published = Some 123456"
    and "rs_snapshot demo_published = Some (demo_snapshot 10 3)"
    and "issues_on_capture ?ys demo_published"
    and "rs_refFrameGeneration (fold frame_step ?ys demo_published) = Some 123456"
    and "rs_snapshotGeneration (fold frame_step ?ys demo_published) = Some 123458"
    by code_simp+
  then show ?thesis
    using pinned_generation_names_one_tree [OF demo_published_def refl, of 123456 "demo_snapshot 10 3" ?ys]
    by (simp add: Let_def)
qed

text \<open>The condition is needed: references issued after an open and before a capture would make an active frame without a tree.\<close>

lemma issued_without_capture:
  "let t = fold frame_step [Reopen 2 1, IssuePartial 7 [''@e1'']] demo_published
   in rs_refFrameGeneration t = Some 123456 \<and> rs_refFrameTree t = None \<and>
     admitRefMutation t ''e1'' (Some 123456) = Admitted"
  by code_simp

text \<open>A device side effect ends every authority: until refs are issued again, no reference, plain or
  pinned, is admitted for a mutation, whatever is captured in between, and reads of a reference carry
  the staleness warning.\<close>

lemma expired_frame_admits_nothing:
  assumes "list_all issues_nothing xs"
  shows "let s' = fold frame_step xs (frame_step SideEffect s)
    in admitRefMutation s' body pin = Rejected RefFrameExpired \<and>
       resolveRefStalenessWarning (Some s') ref pin = Some StaleSnapshotRefs"
proof -
  have "refFrameState (frame_step SideEffect s) = FrameExpired"
    by (simp add: refFrameState_def expireRefFrame_def)
  from expired_run [OF assms this] show ?thesis
    by (simp add: Let_def admitRefMutation_def resolveRefStalenessWarning_def)
qed

lemma expired_frame_admits_nothing_example:
  "admitRefMutation (fold frame_step [Observe 0 (demo_snapshot 11 2), IssuePartial 7 [''@'']]
     (frame_step SideEffect demo_published)) ''e1'' (Some 123456) = Rejected RefFrameExpired \<and>
   admitRefMutation demo_published ''e1'' (Some 123456) = Admitted"
proof -
  have "list_all issues_nothing [Observe 0 (demo_snapshot 11 2), IssuePartial 7 [''@'']]" by code_simp
  note expired_frame_admits_nothing [OF this, of demo_published "''e1''" "Some 123456", unfolded Let_def]
  moreover have "admitRefMutation demo_published ''e1'' (Some 123456) = Admitted" by code_simp
  ultimately show ?thesis by blast
qed

text \<open>A partial issuance authorizes exactly the references it returned, and captures do not change
  that: until the next side effect or issuance, a mutation is admitted exactly when its reference is
  pinned to the generation of the issuance and is one of the returned ones.\<close>

lemma partial_issue_authority:
  assumes "normalizeRefBodies refs \<noteq> []" and "rs_snapshotGeneration s = Some g"
    and "list_all read_only xs"
  shows "admitRefMutation (fold frame_step xs (frame_step (IssuePartial obj refs) s)) body pin = Admitted \<longleftrightarrow>
    pin = Some g \<and> body \<noteq> [] \<and> (\<exists>r \<in> set refs. body = normalizeRefBody r)"
proof -
  let ?t = "frame_step (IssuePartial obj refs) s"
  have gen: "rs_refFrameGeneration ?t \<noteq> None" using assms by (simp add: frame_defs)
  have "admitRefMutation ?t body pin = Admitted \<longleftrightarrow> pin = Some g \<and> body \<in> set (normalizeRefBodies refs)"
    using assms by (auto simp: frame_defs admitRefMutation_def refFrameState_def refFrameEpoch_def
        refFrameScope_def or_else_def)
  then show ?thesis
    using admit_frame_fields [OF read_only_run [OF assms(3)] gen] by (simp add: set_normalizeRefBodies)
qed

lemma partial_issue_authority_example:
  "admitRefMutation (fold frame_step [Observe 0 (demo_snapshot 11 2)]
     (frame_step (IssuePartial 7 [''@e2~s1'']) demo_published)) ''e2'' (Some 123456) = Admitted \<and>
   admitRefMutation (fold frame_step [Observe 0 (demo_snapshot 11 2)]
     (frame_step (IssuePartial 7 [''@e2~s1'']) demo_published)) ''e1'' (Some 123456) \<noteq> Admitted"
proof -
  have "normalizeRefBodies [''@e2~s1''] \<noteq> []" and "rs_snapshotGeneration demo_published = Some 123456"
    and "list_all read_only [Observe 0 (demo_snapshot 11 2)]"
    by code_simp+
  note iff = partial_issue_authority [OF this, of 7 _ "Some 123456"]
  have "normalizeRefBody ''@e2~s1'' = ''e2''" by code_simp
  then show ?thesis
    unfolding iff by simp
qed

text \<open>A snapshot command that returns its nodes authorizes the complete namespace: until the next
  side effect or issuance every plain reference is admitted, and a pinned one exactly at the
  generation the command stored, even after captures moved the observation on.\<close>

lemma complete_publication_authority:
  assumes "\<not> shouldKeepCurrentSnapshot (Some s) snap scoped" and "list_all read_only xs"
  shows "let t = frame_step (PublishSnapshot obj now seed snap scoped True) s
    in rs_refFrameTree t = Some snap \<and>
       (admitRefMutation (fold frame_step xs t) body pin = Admitted \<longleftrightarrow>
         pin = None \<or> pin = rs_snapshotGeneration t)"
proof -
  let ?t = "frame_step (PublishSnapshot obj now seed snap scoped True) s"
  have gen: "rs_refFrameGeneration ?t \<noteq> None" using assms by (simp add: frame_defs)
  have "admitRefMutation ?t body pin = Admitted \<longleftrightarrow> pin = None \<or> pin = rs_snapshotGeneration ?t"
    and "rs_refFrameTree ?t = Some snap"
    using assms by (auto simp: frame_defs admitRefMutation_def refFrameState_def refFrameEpoch_def
        refFrameScope_def or_else_def)
  then show ?thesis
    using admit_frame_fields [OF read_only_run [OF assms(2)] gen] by (simp add: Let_def)
qed

lemma complete_publication_authority_example:
  "admitRefMutation (fold frame_step [Observe 0 (demo_snapshot 11 2)] demo_published) ''e3'' None = Admitted \<and>
   admitRefMutation (fold frame_step [Observe 0 (demo_snapshot 11 2)] demo_published) ''e3''
     (Some 123457) \<noteq> Admitted"
proof -
  have "\<not> shouldKeepCurrentSnapshot (Some (newRefSession 0 0)) (demo_snapshot 10 3) False"
    and "list_all read_only [Observe 0 (demo_snapshot 11 2)]"
    and g: "rs_snapshotGeneration demo_published = Some 123456"
    by code_simp+
  then have "admitRefMutation (fold frame_step [Observe 0 (demo_snapshot 11 2)] demo_published) ''e3'' pin =
      Admitted \<longleftrightarrow> pin = None \<or> pin = Some 123456" for pin
    using complete_publication_authority [of "newRefSession 0 0" "demo_snapshot 10 3" False
        "[Observe 0 (demo_snapshot 11 2)]" 1 0 123456 "''e3''" pin]
    by (simp add: demo_published_def Let_def)
  then show ?thesis by simp
qed


text \<open>The read warning and the mutation refusal agree on staleness: in a session with a generation,
  a reference carries a warning exactly when its use in a mutation is refused for an expired frame or
  for a superseded generation; in particular an admitted reference carries none.\<close>

lemma admission_and_warning_agree:
  assumes "refFrameEpoch s \<noteq> None"
  shows "resolveRefStalenessWarning (Some s) ref pin \<noteq> None \<longleftrightarrow>
    (\<exists>r. refMutationAdmissionResponse s ref pin w = Some r \<and>
       rj_reason r \<in> {RefFrameExpired, RefGenerationMismatch})"
  using assms
  by (cases pin) (auto simp: resolveRefStalenessWarning_def refMutationAdmissionResponse_def
      admitRefMutation_def Let_def split: option.split ref_frame_scope.split)

lemma admission_and_warning_agree_example:
  "resolveRefStalenessWarning (Some demo_published) ''@e1'' (Some 99) \<noteq> None \<and>
   refMutationAdmissionResponse demo_published ''@e1'' (Some 99) None \<noteq> None"
proof -
  have "refFrameEpoch demo_published \<noteq> None"
    and "resolveRefStalenessWarning (Some demo_published) ''@e1'' (Some 99) \<noteq> None"
    by code_simp+
  then show ?thesis
    using admission_and_warning_agree [of demo_published "''@e1''" "Some 99" None] by auto
qed

end
