(* ===== verification/Observation.thy ===== *)
theory Observation
  imports RefFrame
begin

text \<open>
  Internal observations and their publication: \<^verbatim>\<open>src/daemon/internal-observation.ts\<close>, on the session
  store and the ref frames.

  The world holds the sessions by name, the weak map from an evidence object to its capture lineage,
  and the next object identity the runtime hands out. A session is mutated in place, so a write goes
  to the session stored under the name; a snapshot command replaces the object.
\<close>

section \<open>The world\<close>

record observation_lineage =
  ol_sessionName :: string
  ol_session :: nat
  ol_sessionCreatedAt :: int
  ol_snapshot :: snapshot_state
  ol_snapshotGeneration :: int
  ol_runtimeRevision :: nat
  ol_refFrame :: "ref_frame_state option \<times> ref_frame_scope option \<times> snapshot_state option \<times> int option"

record obs_world =
  ow_sessions :: "(string, ref_session) amap"
  ow_evidence :: "(nat, observation_lineage) amap"
  ow_next :: nat

datatype obs_error = SessionUnavailable | NoGeneration

datatype publish_refusal = PubEmpty | PubCancelled | PubStaleCapture | PubInvalidProjection

datatype publication_result = Published int nat | NotPublished publish_refusal

record ref_projection =
  rp_refsGeneration :: "int option"
  rp_refs :: "string list"

definition readRefFrameLineage :: "ref_session \<Rightarrow>
    ref_frame_state option \<times> ref_frame_scope option \<times> snapshot_state option \<times> int option" where
  "readRefFrameLineage session =
     (rs_refFrameState session, rs_refFrameScope session, rs_refFrameTree session,
      rs_refFrameGeneration session)"

definition storeInternalObservation ::
    "string \<Rightarrow> int \<Rightarrow> snapshot_state \<Rightarrow> obs_world \<Rightarrow> (obs_error + nat \<times> int) \<times> obs_world" where
  "storeInternalObservation name seed snapshot w =
     (case map_of (ow_sessions w) name of
        None \<Rightarrow> (Inl SessionUnavailable, w)
      | Some session0 \<Rightarrow>
          let session = setSessionSnapshot seed session0 snapshot;
              w' = w\<lparr>ow_sessions := AList.update name session (ow_sessions w)\<rparr>
          in (case rs_snapshotGeneration session of
                None \<Rightarrow> (Inl NoGeneration, w')
              | Some g \<Rightarrow>
                  let evidence = ow_next w;
                      lineage = \<lparr>ol_sessionName = name, ol_session = rs_object session,
                        ol_sessionCreatedAt = rs_createdAt session, ol_snapshot = snapshot,
                        ol_snapshotGeneration = g,
                        ol_runtimeRevision = readSessionRuntimeRevision session,
                        ol_refFrame = readRefFrameLineage session\<rparr>
                  in (Inr (evidence, g),
                      w'\<lparr>ow_evidence := AList.update evidence lineage (ow_evidence w'),
                         ow_next := evidence + 1\<rparr>)))"

definition isCurrentLineage :: "string \<Rightarrow> obs_world \<Rightarrow> observation_lineage \<Rightarrow> bool" where
  "isCurrentLineage name w lineage \<longleftrightarrow>
     name = ol_sessionName lineage \<and>
     (case map_of (ow_sessions w) name of
        None \<Rightarrow> False
      | Some current \<Rightarrow>
          rs_object current = ol_session lineage \<and>
          rs_createdAt current = ol_sessionCreatedAt lineage \<and>
          rs_snapshot current = Some (ol_snapshot lineage) \<and>
          rs_snapshotGeneration current = Some (ol_snapshotGeneration lineage) \<and>
          readSessionRuntimeRevision current = ol_runtimeRevision lineage \<and>
          readRefFrameLineage current = ol_refFrame lineage)"

definition areProjectedRefsFromSnapshot :: "string list \<Rightarrow> snapshot_state \<Rightarrow> bool" where
  "areProjectedRefsFromSnapshot refs snapshot \<longleftrightarrow>
     list_all (\<lambda>ref. ref \<in> set (map nd_ref (ss_nodes snapshot))) refs"

definition finalizeClientRefPublication ::
    "string \<Rightarrow> nat \<Rightarrow> ref_projection \<Rightarrow> bool \<Rightarrow> obs_world \<Rightarrow> publication_result \<times> obs_world" where
  "finalizeClientRefPublication name evidence projection aborted w =
     (let lineage = map_of (ow_evidence w) evidence;
          w' = w\<lparr>ow_evidence := AList.delete evidence (ow_evidence w)\<rparr>;
          refs = normalizeRefBodies (rp_refs projection)
      in if length refs = 0 then (NotPublished PubEmpty, w')
         else if aborted then (NotPublished PubCancelled, w')
         else case lineage of
             None \<Rightarrow> (NotPublished PubStaleCapture, w')
           | Some l \<Rightarrow>
               if \<not> isCurrentLineage name w' l then (NotPublished PubStaleCapture, w')
               else if rp_refsGeneration projection \<noteq> Some (ol_snapshotGeneration l) \<or>
                       \<not> areProjectedRefsFromSnapshot refs (ol_snapshot l)
               then (NotPublished PubInvalidProjection, w')
               else let session = the (map_of (ow_sessions w') name)
                 in (Published (ol_snapshotGeneration l) (length refs),
                     w'\<lparr>ow_sessions := AList.update name
                          (markSessionPartialRefsIssued (ow_next w') session refs) (ow_sessions w'),
                        ow_next := ow_next w' + 1\<rparr>))"

section \<open>The world as a machine\<close>

datatype world_op =
    WObserve string int snapshot_state
  | WPublish string int int snapshot_state bool bool
  | WSideEffect string
  | WIssue string "string list"
  | WOpen string int
  | WCopy string
  | WClose string
  | WStore string int snapshot_state
  | WFinalize string nat ref_projection bool

definition on_session :: "string \<Rightarrow> (ref_session \<Rightarrow> ref_session) \<Rightarrow> obs_world \<Rightarrow> obs_world" where
  "on_session name f w =
     (case map_of (ow_sessions w) name of
        None \<Rightarrow> w
      | Some s \<Rightarrow> w\<lparr>ow_sessions := AList.update name (f s) (ow_sessions w), ow_next := ow_next w + 1\<rparr>)"

fun world_step :: "world_op \<Rightarrow> obs_world \<Rightarrow> obs_world" where
  "world_step (WObserve name seed snapshot) w =
     on_session name (\<lambda>s. setSessionSnapshot seed s snapshot) w"
| "world_step (WPublish name now seed snapshot scoped issues) w =
     w\<lparr>ow_sessions := AList.update name
          (buildNextSnapshotSession (ow_next w) now seed (map_of (ow_sessions w) name)
             snapshot scoped issues) (ow_sessions w),
       ow_next := ow_next w + 1\<rparr>"
| "world_step (WSideEffect name) w = on_session name expireRefFrame w"
| "world_step (WIssue name refs) w =
     on_session name (\<lambda>s. markSessionPartialRefsIssued (ow_next w) s refs) w"
| "world_step (WOpen name now) w =
     w\<lparr>ow_sessions := AList.update name
          (buildNextOpenSession (ow_next w) now (map_of (ow_sessions w) name)) (ow_sessions w),
       ow_next := ow_next w + 1\<rparr>"
| "world_step (WCopy name) w = on_session name (copy_session (ow_next w)) w"
| "world_step (WClose name) w = w\<lparr>ow_sessions := AList.delete name (ow_sessions w)\<rparr>"
| "world_step (WStore name seed snapshot) w = snd (storeInternalObservation name seed snapshot w)"
| "world_step (WFinalize name evidence projection aborted) w =
     snd (finalizeClientRefPublication name evidence projection aborted w)"

text \<open>The session under \<open>name\<close>, while it is the object \<open>obj\<close>, has at least the runtime revision \<open>k\<close>.\<close>

definition rev_floor :: "string \<Rightarrow> nat \<Rightarrow> nat \<Rightarrow> obs_world \<Rightarrow> bool" where
  "rev_floor name obj k w \<longleftrightarrow>
     obj < ow_next w \<and>
     (\<forall>s. map_of (ow_sessions w) name = Some s \<and> rs_object s = obj \<longrightarrow> k \<le> rs_runtimeRevision s)"

lemma object_revision [simp]:
  "rs_object (setSessionSnapshot seed s snapshot) = rs_object s"
  "rs_runtimeRevision (setSessionSnapshot seed s snapshot) = rs_runtimeRevision s"
  "rs_object (expireRefFrame s) = rs_object s"
  "rs_runtimeRevision (expireRefFrame s) = rs_runtimeRevision s + 1"
  "rs_object (markSessionPartialRefsIssued obj s refs) = rs_object s"
  "rs_runtimeRevision (markSessionPartialRefsIssued obj s refs) = rs_runtimeRevision s"
  "rs_object (buildNextSnapshotSession obj now seed current snapshot scoped issues) = obj"
  "rs_object (newRefSession obj now) = obj"
  "rs_object (buildNextOpenSession obj now existing) = obj"
  "rs_object (copy_session obj s) = obj"
  by (auto simp: frame_defs newRefSession_def split: option.split)

lemma rev_floor_update:
  "rev_floor name obj k w \<Longrightarrow>
   (\<And>s. rs_object (f s) = rs_object s) \<Longrightarrow> (\<And>s. rs_runtimeRevision s \<le> rs_runtimeRevision (f s)) \<Longrightarrow>
   rev_floor name obj k (on_session name' f w)"
  by (auto simp: rev_floor_def on_session_def update_conv' dest: order_trans split: option.split if_splits)

lemma finalize_world:
  "snd (finalizeClientRefPublication name ev projection aborted w) =
     w\<lparr>ow_evidence := AList.delete ev (ow_evidence w)\<rparr> \<or>
   (\<exists>s. map_of (ow_sessions w) name = Some s \<and>
      snd (finalizeClientRefPublication name ev projection aborted w) =
        on_session name (\<lambda>s. markSessionPartialRefsIssued (ow_next w) s
           (normalizeRefBodies (rp_refs projection)))
          (w\<lparr>ow_evidence := AList.delete ev (ow_evidence w)\<rparr>))"
  by (auto simp: finalizeClientRefPublication_def isCurrentLineage_def on_session_def Let_def
      split: option.split)

lemma rev_floor_step: "rev_floor name obj k w \<Longrightarrow> rev_floor name obj k (world_step x w)"
proof (cases x)
  case (WFinalize n ev projection aborted)
  assume floor: "rev_floor name obj k w"
  let ?w = "w\<lparr>ow_evidence := AList.delete ev (ow_evidence w)\<rparr>"
  have "rev_floor name obj k ?w" using floor by (simp add: rev_floor_def)
  then show ?thesis
    using WFinalize finalize_world [of n ev projection aborted w]
    by (auto simp: rev_floor_update)
next
  case (WStore n seed snapshot)
  assume "rev_floor name obj k w"
  then show ?thesis
    using WStore by (auto simp: rev_floor_def storeInternalObservation_def Let_def update_conv'
        split: option.splits if_splits)
next
  case (WCopy n)
  assume "rev_floor name obj k w"
  then show ?thesis
    using WCopy by (auto simp: rev_floor_def on_session_def update_conv' split: option.split if_splits)
qed (simp_all add: rev_floor_update, auto simp: rev_floor_def update_conv' delete_conv' split: if_splits)

interpretation revision: machine world_step "rev_floor name obj k" for name obj k
  by unfold_locales (rule rev_floor_step)

text \<open>An evidence object stands for one capture, until it is consumed.\<close>

definition evidence_of :: "nat \<Rightarrow> observation_lineage option \<Rightarrow> obs_world \<Rightarrow> bool" where
  "evidence_of ev l w \<longleftrightarrow>
     ev < ow_next w \<and> (map_of (ow_evidence w) ev = None \<or> map_of (ow_evidence w) ev = l)"

lemma on_session_evidence [simp]: "ow_evidence (on_session name f w) = ow_evidence w"
  by (simp add: on_session_def split: option.split)

lemma on_session_next [simp]: "ev < ow_next w \<Longrightarrow> ev < ow_next (on_session name f w)"
  by (simp add: on_session_def split: option.split)

lemma evidence_of_step: "evidence_of ev l w \<Longrightarrow> evidence_of ev l (world_step x w)"
proof (cases x)
  case (WFinalize n ev' projection aborted)
  assume "evidence_of ev l w"
  then show ?thesis
    using WFinalize finalize_world [of n ev' projection aborted w]
    by (auto simp: evidence_of_def delete_conv')
next
  case (WStore n seed snapshot)
  assume "evidence_of ev l w"
  then show ?thesis
    using WStore by (auto simp: evidence_of_def storeInternalObservation_def Let_def update_conv'
        split: option.splits)
qed (auto simp: evidence_of_def)

interpretation evidence: machine world_step "evidence_of ev l" for ev l
  by unfold_locales (rule evidence_of_step)


section \<open>Properties\<close>

lemma finalize_Published:
  assumes "finalizeClientRefPublication name ev projection aborted w = (Published g n, w')"
  shows "\<exists>l s. map_of (ow_evidence w) ev = Some l \<and> isCurrentLineage name w l \<and>
    map_of (ow_sessions w) name = Some s \<and> g = ol_snapshotGeneration l \<and>
    rp_refsGeneration projection = Some g \<and>
    normalizeRefBodies (rp_refs projection) \<noteq> [] \<and>
    areProjectedRefsFromSnapshot (normalizeRefBodies (rp_refs projection)) (ol_snapshot l) \<and>
    map_of (ow_sessions w') name =
      Some (markSessionPartialRefsIssued (ow_next w) s (normalizeRefBodies (rp_refs projection)))"
  using assms
  by (auto simp: finalizeClientRefPublication_def isCurrentLineage_def Let_def update_conv'
      split: option.splits if_splits)

lemma js_set_add_same: "list_all (\<lambda>b. b \<noteq> [] \<and> take 1 b \<noteq> ''@'' \<and> CHR ''~'' \<notin> set b) bs \<Longrightarrow>
  set (normalizeRefBodies bs) = set bs"
  by (auto simp: set_normalizeRefBodies normalizeRefBody_def list_all_iff js_index_of_None [THEN iffD2])

lemma normalizeRefBody_no_tilde: "CHR ''~'' \<notin> set (normalizeRefBody r)"
proof (cases "js_index_of (CHR ''~'') (if take 1 r = ''@'' then drop 1 r else r)")
  case None
  then show ?thesis
    using js_index_of_None [of "CHR ''~''" "if take 1 r = ''@'' then drop 1 r else r"]
    by (simp only: normalizeRefBody_def Let_def option.case simp_thms)
next
  case (Some i)
  then have "CHR ''~'' \<notin> set (take i (if take 1 r = ''@'' then drop 1 r else r))"
    unfolding js_index_of_Some by blast
  with Some show ?thesis by (simp only: normalizeRefBody_def Let_def option.case) simp
qed

text \<open>A publication that succeeds rests on the capture it names: the session still holds this
  snapshot at this generation, every published reference is a node of it, and afterwards a mutation
  of this session is admitted exactly for a published reference pinned to that generation, resolved
  against that snapshot.\<close>

lemma publication_authorizes_capture:
  assumes pub: "finalizeClientRefPublication name ev projection aborted w = (Published g n, w')"
    and plain: "\<forall>l nd. map_of (ow_evidence w) ev = Some l \<longrightarrow> nd \<in> set (ss_nodes (ol_snapshot l)) \<longrightarrow>
      take 1 (nd_ref nd) \<noteq> ''@''"
  shows "\<exists>l s. map_of (ow_evidence w) ev = Some l \<and> g = ol_snapshotGeneration l \<and>
    map_of (ow_sessions w') name = Some s \<and>
    rs_refFrameTree s = Some (ol_snapshot l) \<and> rs_snapshotGeneration s = Some g \<and>
    set (normalizeRefBodies (rp_refs projection)) \<subseteq> set (map nd_ref (ss_nodes (ol_snapshot l))) \<and>
    (\<forall>body pin. admitRefMutation s body pin = Admitted \<longleftrightarrow>
       pin = Some g \<and> body \<in> set (normalizeRefBodies (rp_refs projection)))"
proof -
  let ?bs = "normalizeRefBodies (rp_refs projection)"
  from finalize_Published [OF pub] obtain l s where l: "map_of (ow_evidence w) ev = Some l"
    and cur: "isCurrentLineage name w l" and s: "map_of (ow_sessions w) name = Some s"
    and g: "g = ol_snapshotGeneration l" and ne: "?bs \<noteq> []"
    and from_snap: "areProjectedRefsFromSnapshot ?bs (ol_snapshot l)"
    and s': "map_of (ow_sessions w') name = Some (markSessionPartialRefsIssued (ow_next w) s ?bs)"
    by blast
  have gen: "rs_snapshotGeneration s = Some g" and snap: "rs_snapshot s = Some (ol_snapshot l)"
    using cur s g by (simp_all add: isCurrentLineage_def)
  have sub: "set ?bs \<subseteq> set (map nd_ref (ss_nodes (ol_snapshot l)))"
    using from_snap by (auto simp: areProjectedRefsFromSnapshot_def list_all_iff)
  have body: "b \<noteq> [] \<and> take 1 b \<noteq> ''@'' \<and> CHR ''~'' \<notin> set b" if "b \<in> set ?bs" for b
    using that sub plain l normalizeRefBody_no_tilde by (auto simp: set_normalizeRefBodies)
  then have same: "set (normalizeRefBodies ?bs) = set ?bs"
    by (intro js_set_add_same) (simp add: list_all_iff)
  have "set ?bs \<noteq> {}" using ne by simp
  then have ne': "normalizeRefBodies ?bs \<noteq> []" using same by force
  then have "admitRefMutation (markSessionPartialRefsIssued (ow_next w) s ?bs) b pin = Admitted \<longleftrightarrow>
      pin = Some g \<and> b \<in> set ?bs" for b pin
    using gen same by (auto simp: frame_defs admitRefMutation_def refFrameState_def refFrameEpoch_def
        refFrameScope_def or_else_def)
  moreover have "rs_refFrameTree (markSessionPartialRefsIssued (ow_next w) s ?bs) = Some (ol_snapshot l)"
    and "rs_snapshotGeneration (markSessionPartialRefsIssued (ow_next w) s ?bs) = Some g"
    using ne' gen snap by (simp_all add: frame_defs)
  ultimately show ?thesis using l g s' sub by blast
qed


definition demo_world :: obs_world where
  "demo_world = fold world_step [WOpen ''app'' 0, WPublish ''app'' 0 123456 (demo_snapshot 10 3) False True]
     \<lparr>ow_sessions = [], ow_evidence = [], ow_next = 0\<rparr>"

definition demo_stored_world :: obs_world where
  "demo_stored_world = world_step (WStore ''app'' 0 (demo_snapshot 11 2)) demo_world"

definition demo_projection :: ref_projection where
  "demo_projection = \<lparr>rp_refsGeneration = Some 123457, rp_refs = [''@e2'']\<rparr>"

lemma publication_authorizes_capture_example:
  "\<exists>s. map_of (ow_sessions (world_step (WFinalize ''app'' 2 demo_projection False) demo_stored_world)) ''app'' =
       Some s \<and>
     admitRefMutation s ''e2'' (Some 123457) = Admitted \<and> admitRefMutation s ''e1'' (Some 123457) \<noteq> Admitted"
proof -
  let ?r = "finalizeClientRefPublication ''app'' 2 demo_projection False demo_stored_world"
  have pub: "fst ?r = Published 123457 1" by code_simp
  then have pub': "?r = (Published 123457 1, snd ?r)" by (simp add: prod_eq_iff)
  have ev: "map_option (\<lambda>l. list_all (\<lambda>nd. take 1 (nd_ref nd) \<noteq> ''@'') (ss_nodes (ol_snapshot l)))
      (map_of (ow_evidence demo_stored_world) 2) = Some True"
    by code_simp
  then have plain: "\<forall>l nd. map_of (ow_evidence demo_stored_world) 2 = Some l \<longrightarrow>
      nd \<in> set (ss_nodes (ol_snapshot l)) \<longrightarrow> take 1 (nd_ref nd) \<noteq> ''@''"
    by (auto simp: list_all_iff)
  have bs: "normalizeRefBodies (rp_refs demo_projection) = [''e2'']" by code_simp
  show ?thesis
    using publication_authorizes_capture [OF pub' plain] unfolding bs by (elim exE conjE) simp
qed

lemma store_lineage:
  assumes "storeInternalObservation name seed snap w = (Inr (ev, g), w')"
  shows "\<exists>l s. map_of (ow_evidence w') ev = Some l \<and> ol_sessionName l = name \<and>
    map_of (ow_sessions w') name = Some s \<and> ol_session l = rs_object s \<and>
    ol_runtimeRevision l = rs_runtimeRevision s \<and> ev < ow_next w' \<and>
    (\<exists>s0. map_of (ow_sessions w) name = Some s0 \<and> rs_object s0 = rs_object s) \<and> ow_next w \<le> ow_next w'"
  using assms
  by (auto simp: storeInternalObservation_def Let_def readSessionRuntimeRevision_def
      split: option.splits)

text \<open>C31. A capture cannot be published across a device side effect on its session: whatever happens
  between the capture, the side effect and the attempt, to this session or to others, the attempt
  publishes nothing and changes no session.\<close>

theorem side_effect_blocks_publication:
  assumes store: "storeInternalObservation name seed snap w = (Inr (ev, g), w1)"
    and w: "\<And>s. map_of (ow_sessions w) name = Some s \<Longrightarrow> rs_object s < ow_next w"
    and later: "w2 = fold world_step ys (world_step (WSideEffect name) (fold world_step xs w1))"
  shows "\<exists>why. fst (finalizeClientRefPublication name' ev projection aborted w2) = NotPublished why \<and>
    ow_sessions (snd (finalizeClientRefPublication name' ev projection aborted w2)) = ow_sessions w2"
proof -
  obtain l s where l: "map_of (ow_evidence w1) ev = Some l" "ol_sessionName l = name"
    and s: "map_of (ow_sessions w1) name = Some s" "ol_session l = rs_object s"
    and r: "ol_runtimeRevision l = rs_runtimeRevision s"
    and fresh: "ev < ow_next w1" "rs_object s < ow_next w1"
    using store_lineage [OF store] w by (metis less_le_trans)
  let ?o = "rs_object s" and ?k = "rs_runtimeRevision s"
  have "evidence_of ev (Some l) w1"
    using l fresh by (simp add: evidence_of_def)
  from evidence.run_inv [OF this, of xs, THEN evidence_of_step, of "WSideEffect name",
      THEN evidence.run_inv, of ys]
  have e2: "map_of (ow_evidence w2) ev = None \<or> map_of (ow_evidence w2) ev = Some l"
    by (simp only: later evidence_of_def)
  have "rev_floor name ?o ?k w1"
    using s fresh by (simp add: rev_floor_def)
  then have "rev_floor name ?o ?k (fold world_step xs w1)"
    by (rule revision.run_inv)
  then have "rev_floor name ?o (Suc ?k) (world_step (WSideEffect name) (fold world_step xs w1))"
    by (auto simp: rev_floor_def on_session_def update_conv' split: option.split)
  then have "rev_floor name ?o (Suc ?k) w2"
    unfolding later by (rule revision.run_inv)
  then have "\<not> isCurrentLineage name' v l" if "ow_sessions v = ow_sessions w2" for v
    using that l s r
    by (auto simp: rev_floor_def isCurrentLineage_def readSessionRuntimeRevision_def split: option.splits)
  with e2 show ?thesis
    by (auto simp: finalizeClientRefPublication_def Let_def split: option.split)
qed

theorem side_effect_blocks_publication_witness:
  "\<exists>why. fst (finalizeClientRefPublication ''app'' 2 demo_projection False
     (world_step (WSideEffect ''app'') demo_stored_world)) = NotPublished why"
proof -
  let ?st = "storeInternalObservation ''app'' 0 (demo_snapshot 11 2) demo_world"
  have "fst ?st = Inr (2, 123457)" by code_simp
  then have "?st = (Inr (2, 123457), demo_stored_world)"
    by (simp add: prod_eq_iff demo_stored_world_def)
  moreover have "map_option (\<lambda>s. rs_object s < ow_next demo_world) (map_of (ow_sessions demo_world) ''app'') =
      Some True"
    by code_simp
  then have "rs_object s < ow_next demo_world" if "map_of (ow_sessions demo_world) ''app'' = Some s" for s
    using that by simp
  ultimately show ?thesis
    using side_effect_blocks_publication [of "''app''" 0 "demo_snapshot 11 2" demo_world 2 123457
        demo_stored_world _ "[]" "[]" "''app''" demo_projection False]
    by simp
qed

text \<open>An evidence is a one-shot capability: after one attempt to publish it, successful or not, no
  later attempt publishes anything, whatever happens in between.\<close>

lemma evidence_is_one_shot:
  assumes "ev < ow_next w"
  shows "\<exists>why. fst (finalizeClientRefPublication name' ev projection' aborted'
    (fold world_step xs (world_step (WFinalize name ev projection aborted) w))) = NotPublished why"
proof -
  let ?w = "world_step (WFinalize name ev projection aborted) w"
  have "evidence_of ev None ?w"
    using assms finalize_world [of name ev projection aborted w]
    by (auto simp: evidence_of_def delete_conv')
  then have "evidence_of ev None (fold world_step xs ?w)"
    by (rule evidence.run_inv)
  then show ?thesis
    by (auto simp: evidence_of_def finalizeClientRefPublication_def Let_def)
qed

lemma evidence_is_one_shot_example:
  "(\<exists>why. fst (finalizeClientRefPublication ''app'' 2 demo_projection False
      (world_step (WFinalize ''app'' 2 demo_projection False) demo_stored_world)) = NotPublished why) \<and>
   fst (finalizeClientRefPublication ''app'' 2 demo_projection False demo_stored_world) = Published 123457 1"
proof -
  have "2 < ow_next demo_stored_world" by code_simp
  from evidence_is_one_shot [OF this, of "''app''" demo_projection False "[]" "''app''" demo_projection False]
  have "\<exists>why. fst (finalizeClientRefPublication ''app'' 2 demo_projection False
      (world_step (WFinalize ''app'' 2 demo_projection False) demo_stored_world)) = NotPublished why"
    by simp
  moreover have "fst (finalizeClientRefPublication ''app'' 2 demo_projection False demo_stored_world) = Published 123457 1"
    by code_simp
  ultimately show ?thesis by blast
qed

end
