(* ===== verification/Publication.thy ===== *)
theory Publication
  imports Prelude
begin

text \<open>
  Script publication of a session: \<^verbatim>\<open>src/daemon/session-script-publication-state.ts\<close> (the state
  machine), \<^verbatim>\<open>src/daemon/session-replay-transaction.ts\<close> (the repair projection),
  \<^verbatim>\<open>src/daemon/session-script-publication-capability.ts\<close> (the authoring projection), the write gate and
  the atomic publish of \<^verbatim>\<open>src/daemon/session-script-writer.ts\<close>, the recorder of
  \<^verbatim>\<open>src/daemon/session-action-recorder.ts\<close>, the commit at close and the ordinary
  close of \<^verbatim>\<open>src/daemon/handlers/session-close-script.ts\<close> (with the guard of \<^verbatim>\<open>session-close.ts\<close>), the recording outcome of an open in
  \<^verbatim>\<open>src/daemon/handlers/session-open.ts\<close>, the teardown commit of
  \<^verbatim>\<open>src/daemon/session-store.ts\<close> and the command of
  \<^verbatim>\<open>src/daemon/handlers/session-script-publication.ts\<close>.

  A session is mutated in place by the code; here an operation returns the session after it. Recorded
  actions are values of a type parameter. The file system is a map from paths to contents, and every
  write takes a flag \<open>fault\<close>: whether the file system fails for a reason other than an existing
  target. Node's path functions, the home and the working directory are the record \<open>path_env\<close>; the
  serialisation of the actions (\<open>prepareSessionScript\<close>) is an argument of the write.
\<close>

section \<open>Paths\<close>

record path_env =
  pe_home :: string
  pe_cwd :: string
  pe_join :: "string \<Rightarrow> string \<Rightarrow> string"
  pe_isAbsolute :: "string \<Rightarrow> bool"
  pe_resolve :: "string \<Rightarrow> string \<Rightarrow> string"

definition expandUserHomePath :: "path_env \<Rightarrow> string \<Rightarrow> string" where
  "expandUserHomePath E inputPath =
     (if inputPath = ''~'' then pe_home E
      else if take 2 inputPath = ''~/'' then pe_join E (pe_home E) (drop 2 inputPath)
      else inputPath)"

definition resolveUserPath :: "path_env \<Rightarrow> string \<Rightarrow> string" where
  "resolveUserPath E inputPath =
     (let expandedPath = expandUserHomePath E inputPath
      in if pe_isAbsolute E expandedPath then expandedPath
         else pe_resolve E (pe_cwd E) expandedPath)"

definition expandSessionPath :: "path_env \<Rightarrow> string \<Rightarrow> string" where
  "expandSessionPath E filePath = resolveUserPath E filePath"

definition safeSessionName :: "string \<Rightarrow> string" where
  "safeSessionName name =
     map (\<lambda>c. if is_letter_char c \<or> is_digit_char c \<or> c = CHR ''.'' \<or> c = CHR ''_'' \<or> c = CHR ''-''
              then c else CHR ''_'') name"

section \<open>The publication state machine\<close>

datatype script_target = DefaultTarget bool | ExplicitTarget string bool

fun target_force :: "script_target \<Rightarrow> bool" where
  "target_force (DefaultTarget f) = f"
| "target_force (ExplicitTarget _ f) = f"

fun with_force :: "script_target \<Rightarrow> script_target" where
  "with_force (DefaultTarget _) = DefaultTarget True"
| "with_force (ExplicitTarget p _) = ExplicitTarget p True"

datatype authoring_status = AuthArmed | AuthAborted | AuthPublished

datatype repair_status = RepArmed | RepComplete | RepCloseSucceeded | RepCommitted | RepAborted

record repair_state =
  rp_status :: repair_status
  rp_target :: script_target
  rp_boundary :: nat
  rp_sourcePath :: "string option"
  rp_closeReceipt :: "string option"

datatype script_publication =
    NoPublication
  | Authoring authoring_status script_target
  | Repair repair_state

record target_request =
  tq_path :: "string option"
  tq_force :: bool

definition resolveScriptTarget :: "script_target option \<Rightarrow> target_request \<Rightarrow> script_target" where
  "resolveScriptTarget previous requested =
     (case tq_path requested of
        None \<Rightarrow>
          (let base = (case previous of None \<Rightarrow> DefaultTarget False | Some t \<Rightarrow> t)
           in if tq_force requested then with_force base else base)
      | Some path \<Rightarrow>
          (let retainsAuthorization =
                 (case previous of
                    None \<Rightarrow> False
                  | Some (DefaultTarget f) \<Rightarrow> f
                  | Some (ExplicitTarget p f) \<Rightarrow> f \<and> p = path)
           in ExplicitTarget path (tq_force requested \<or> retainsAuthorization)))"

fun demoteRepairToArmed :: "script_publication \<Rightarrow> script_publication" where
  "demoteRepairToArmed (Repair r) = Repair (r\<lparr>rp_status := RepArmed\<rparr>)"
| "demoteRepairToArmed s = s"

fun scriptPublicationTarget :: "script_publication \<Rightarrow> script_target option" where
  "scriptPublicationTarget NoPublication = None"
| "scriptPublicationTarget (Authoring _ t) = Some t"
| "scriptPublicationTarget (Repair r) = Some (rp_target r)"

fun isRepairCommittable :: "script_publication \<Rightarrow> bool" where
  "isRepairCommittable (Repair r) = (rp_status r = RepComplete \<or> rp_status r = RepCloseSucceeded)"
| "isRepairCommittable _ = False"

fun isScriptPublished :: "script_publication \<Rightarrow> bool" where
  "isScriptPublished (Repair r) = (rp_status r = RepCommitted)"
| "isScriptPublished (Authoring status _) = (status = AuthPublished)"
| "isScriptPublished NoPublication = False"

definition armAuthoring :: "target_request \<Rightarrow> script_publication" where
  "armAuthoring requested = Authoring AuthArmed (resolveScriptTarget None requested)"

fun abortAuthoring :: "script_publication \<Rightarrow> script_publication" where
  "abortAuthoring (Authoring AuthArmed t) = Authoring AuthAborted t"
| "abortAuthoring s = s"

fun markAuthoringPublished :: "script_publication \<Rightarrow> string \<Rightarrow> script_publication" where
  "markAuthoringPublished (Authoring _ t) writtenPath =
     Authoring AuthPublished (ExplicitTarget writtenPath (target_force t))"
| "markAuthoringPublished s writtenPath = s"

definition armRepair ::
    "script_publication \<Rightarrow> target_request \<Rightarrow> nat \<Rightarrow> string option \<Rightarrow> script_publication" where
  "armRepair state requested boundary sourcePath =
     (case state of
        Repair previous \<Rightarrow>
          Repair \<lparr>rp_status = rp_status previous,
            rp_target = resolveScriptTarget (Some (rp_target previous)) requested,
            rp_boundary = rp_boundary previous,
            rp_sourcePath =
              (case rp_sourcePath previous of Some p \<Rightarrow> Some p | None \<Rightarrow> sourcePath),
            rp_closeReceipt = rp_closeReceipt previous\<rparr>
      | _ \<Rightarrow>
          Repair \<lparr>rp_status = RepArmed, rp_target = resolveScriptTarget None requested,
            rp_boundary = boundary, rp_sourcePath = sourcePath, rp_closeReceipt = None\<rparr>)"

fun markRepairComplete :: "script_publication \<Rightarrow> script_publication" where
  "markRepairComplete (Repair r) =
     (if rp_status r \<noteq> RepArmed then Repair r else Repair (r\<lparr>rp_status := RepComplete\<rparr>))"
| "markRepairComplete s = s"

fun recordRepairCloseSucceeded :: "script_publication \<Rightarrow> string \<Rightarrow> script_publication" where
  "recordRepairCloseSucceeded (Repair r) operationIdentity =
     Repair (r\<lparr>rp_status := (if rp_status r = RepComplete then RepCloseSucceeded else rp_status r),
               rp_closeReceipt := Some operationIdentity\<rparr>)"
| "recordRepairCloseSucceeded s operationIdentity = s"

fun commitRepair :: "script_publication \<Rightarrow> script_publication" where
  "commitRepair (Repair r) = Repair (r\<lparr>rp_closeReceipt := None, rp_status := RepCommitted\<rparr>)"
| "commitRepair s = s"

fun abortRepair :: "script_publication \<Rightarrow> script_publication" where
  "abortRepair (Repair r) = Repair (r\<lparr>rp_closeReceipt := None, rp_status := RepAborted\<rparr>)"
| "abortRepair s = s"

fun repairBoundary :: "script_publication \<Rightarrow> nat option" where
  "repairBoundary (Repair r) = Some (rp_boundary r)"
| "repairBoundary _ = None"

fun repairSourcePath :: "script_publication \<Rightarrow> string option" where
  "repairSourcePath (Repair r) = rp_sourcePath r"
| "repairSourcePath _ = None"

fun isUncommittedRepair :: "script_publication \<Rightarrow> bool" where
  "isUncommittedRepair (Repair r) = (rp_status r \<noteq> RepCommitted)"
| "isUncommittedRepair _ = False"

definition scriptTargetPath :: "script_publication \<Rightarrow> string option" where
  "scriptTargetPath state =
     (case scriptPublicationTarget state of Some (ExplicitTarget p _) \<Rightarrow> Some p | _ \<Rightarrow> None)"

definition scriptTargetForce :: "script_publication \<Rightarrow> bool" where
  "scriptTargetForce state =
     (case scriptPublicationTarget state of Some t \<Rightarrow> target_force t | None \<Rightarrow> False)"

section \<open>The session projections\<close>

record 'a pub_session =
  ps_name :: string
  ps_createdStamp :: string
  ps_recordSession :: bool
  ps_actions :: "'a list"
  ps_scriptPublication :: "script_publication option"

definition publicationState :: "'a pub_session \<Rightarrow> script_publication" where
  "publicationState session =
     (case ps_scriptPublication session of Some s \<Rightarrow> s | None \<Rightarrow> NoPublication)"

definition set_publication :: "script_publication \<Rightarrow> 'a pub_session \<Rightarrow> 'a pub_session" where
  "set_publication p s = s\<lparr>ps_scriptPublication := Some p\<rparr>"

text \<open>The flag \<open>--save-script\<close>: absent or false, bare, or with a path.\<close>

datatype save_script_flag = SaveOff | SaveBare | SavePath string

definition armRepairStep ::
    "path_env \<Rightarrow> save_script_flag \<Rightarrow> bool \<Rightarrow> string \<Rightarrow> string \<Rightarrow> bool \<Rightarrow> 'a pub_session \<Rightarrow> 'a pub_session"
  where
  "armRepairStep E saveScript force sourcePath healedSiblingPath firstArm session =
     (let s = session\<lparr>ps_recordSession := True\<rparr>;
          state = publicationState s;
          explicitPath =
            (case saveScript of
               SavePath p \<Rightarrow> Some (expandSessionPath E p)
             | _ \<Rightarrow> (case state of Repair _ \<Rightarrow> None | _ \<Rightarrow> Some healedSiblingPath))
      in set_publication
           (armRepair state \<lparr>tq_path = explicitPath, tq_force = force\<rparr>
             (if firstArm then length (ps_actions s) else 0) (Some sourcePath)) s)"

definition resetRepairCompletionForRerun :: "'a pub_session \<Rightarrow> 'a pub_session" where
  "resetRepairCompletionForRerun s = set_publication (demoteRepairToArmed (publicationState s)) s"

definition markRepairTransactionComplete :: "'a pub_session \<Rightarrow> 'a pub_session" where
  "markRepairTransactionComplete s = set_publication (markRepairComplete (publicationState s)) s"

definition recordRepairPlatformClose :: "string \<Rightarrow> 'a pub_session \<Rightarrow> 'a pub_session" where
  "recordRepairPlatformClose operationIdentity s =
     set_publication (recordRepairCloseSucceeded (publicationState s) operationIdentity) s"

definition abortRepairTransaction :: "'a pub_session \<Rightarrow> 'a pub_session" where
  "abortRepairTransaction s = set_publication (abortRepair (publicationState s)) s"

definition hasRepairPlatformCloseReceipt :: "'a pub_session \<Rightarrow> string \<Rightarrow> bool" where
  "hasRepairPlatformCloseReceipt s operationIdentity =
     (case publicationState s of Repair r \<Rightarrow> rp_closeReceipt r = Some operationIdentity | _ \<Rightarrow> False)"

definition isRepairArmedSession :: "'a pub_session \<Rightarrow> bool" where
  "isRepairArmedSession s = (case publicationState s of Repair _ \<Rightarrow> True | _ \<Rightarrow> False)"

definition isUncommittedRepairSession :: "'a pub_session \<Rightarrow> bool" where
  "isUncommittedRepairSession s = isUncommittedRepair (publicationState s)"

definition repairSessionBoundary :: "'a pub_session \<Rightarrow> nat option" where
  "repairSessionBoundary s = repairBoundary (publicationState s)"

definition isAuthoringArmedSession :: "'a pub_session \<Rightarrow> bool" where
  "isAuthoringArmedSession s =
     (case publicationState s of Authoring AuthArmed _ \<Rightarrow> True | _ \<Rightarrow> False)"

definition armAuthoringOnOpen :: "path_env \<Rightarrow> target_request \<Rightarrow> 'a pub_session \<Rightarrow> 'a pub_session" where
  "armAuthoringOnOpen E requested session =
     set_publication
       (armAuthoring \<lparr>tq_path = map_option (expandSessionPath E) (tq_path requested),
                      tq_force = tq_force requested\<rparr>)
       (session\<lparr>ps_recordSession := True\<rparr>)"

definition abortAuthoringOnSecondOpen :: "'a pub_session \<Rightarrow> 'a pub_session" where
  "abortAuthoringOnSecondOpen session =
     set_publication (abortAuthoring (publicationState session)) (session\<lparr>ps_recordSession := False\<rparr>)"

definition applyRecordedSaveScriptFlags ::
    "path_env \<Rightarrow> save_script_flag \<Rightarrow> bool \<Rightarrow> 'a pub_session \<Rightarrow> 'a pub_session" where
  "applyRecordedSaveScriptFlags E saveScript force session =
     (if saveScript = SaveOff \<or> saveScript = SavePath [] then session
      else
        let s = session\<lparr>ps_recordSession := True\<rparr>;
            requested = \<lparr>tq_path = (case saveScript of SavePath p \<Rightarrow> Some (expandSessionPath E p)
                                                  | _ \<Rightarrow> None),
                         tq_force = force\<rparr>
        in set_publication
             (case publicationState s of
                Repair r \<Rightarrow> armRepair (Repair r) requested (rp_boundary r) (rp_sourcePath r)
              | Authoring status t \<Rightarrow> Authoring status (resolveScriptTarget (Some t) requested)
              | NoPublication \<Rightarrow> armAuthoring requested) s)"

definition retargetActivePublication ::
    "path_env \<Rightarrow> string option \<Rightarrow> bool \<Rightarrow> 'a pub_session \<Rightarrow> 'a pub_session" where
  "retargetActivePublication E explicitPath liveForce session =
     (case publicationState session of
        Authoring status t \<Rightarrow>
          set_publication (Authoring status (resolveScriptTarget (Some t)
            \<lparr>tq_path = map_option (expandSessionPath E) explicitPath, tq_force = liveForce\<rparr>)) session
      | _ \<Rightarrow> session)"

definition markActivePublicationDone :: "string \<Rightarrow> 'a pub_session \<Rightarrow> 'a pub_session" where
  "markActivePublicationDone writtenPath session =
     (set_publication (markAuthoringPublished (publicationState session) writtenPath) session)
       \<lparr>ps_recordSession := False\<rparr>"

definition markCloseGeneratedPublicationDone :: "string \<Rightarrow> 'a pub_session \<Rightarrow> 'a pub_session" where
  "markCloseGeneratedPublicationDone writtenPath session =
     (case publicationState session of
        Authoring st t \<Rightarrow> set_publication (markAuthoringPublished (Authoring st t) writtenPath) session
      | _ \<Rightarrow> session)"

definition effectiveWriteForce :: "'a pub_session \<Rightarrow> bool \<Rightarrow> bool" where
  "effectiveWriteForce session liveForce \<longleftrightarrow> liveForce \<or> scriptTargetForce (publicationState session)"

definition isSessionScriptPublished :: "'a pub_session \<Rightarrow> bool" where
  "isSessionScriptPublished session = isScriptPublished (publicationState session)"


section \<open>Recording, writing, closing\<close>

text \<open>What the recorder reads of an entry; the recorded action itself is a value of the parameter.\<close>

record record_entry =
  re_noRecord :: bool
  re_record :: bool
  re_interactiveObservation :: bool
  re_saveScript :: save_script_flag
  re_force :: bool

definition isExcludedRepairSegmentObservation :: "'a pub_session \<Rightarrow> record_entry \<Rightarrow> bool" where
  "isExcludedRepairSegmentObservation session entry \<longleftrightarrow>
     re_interactiveObservation entry \<and> repairSessionBoundary session \<noteq> None \<and> \<not> re_record entry"

definition recordActionEntry ::
    "path_env \<Rightarrow> record_entry \<Rightarrow> 'a \<Rightarrow> 'a pub_session \<Rightarrow> 'a pub_session" where
  "recordActionEntry E entry action session =
     (if re_noRecord entry then session
      else if isExcludedRepairSegmentObservation session entry then session
      else let s = applyRecordedSaveScriptFlags E (re_saveScript entry) (re_force entry) session
        in s\<lparr>ps_actions := ps_actions s @ [action]\<rparr>)"

text \<open>An \<open>AppError\<close> with its message, or any other failure.\<close>

datatype pub_failure = AppFailure string | SystemFailure string

datatype pub_error =
    Raised pub_failure
  | RepairCommitFailure pub_failure
  | ActivePublicationFailure pub_failure

datatype write_result = Written string nat | NotWritten "pub_error option" | Thrown pub_error

type_synonym script_files = "(string, string) amap"

definition isRepairArmedWriteBlocked :: "'a pub_session \<Rightarrow> bool" where
  "isRepairArmedWriteBlocked session =
     (case publicationState session of
        Repair r \<Rightarrow>
          (if rp_status r = RepCommitted then True else \<not> isRepairCommittable (Repair r))
      | _ \<Rightarrow> False)"

text \<open>A rename over the target with \<open>force\<close>, else a link that fails when the target exists.\<close>

definition publishHealedScriptAtomically ::
    "string \<Rightarrow> string \<Rightarrow> bool \<Rightarrow> bool \<Rightarrow> script_files \<Rightarrow> (pub_failure + unit) \<times> script_files" where
  "publishHealedScriptAtomically scriptPath script force fault files =
     (if fault then (Inl (SystemFailure ''fs''), files)
      else if force then (Inr (), AList.update scriptPath script files)
      else if map_of files scriptPath \<noteq> None
      then (Inl (AppFailure ''A file already exists''), files)
      else (Inr (), AList.update scriptPath script files))"

definition resolveScriptPath :: "path_env \<Rightarrow> string \<Rightarrow> 'a pub_session \<Rightarrow> string" where
  "resolveScriptPath E sessionsDir session =
     (let targetPath = scriptTargetPath (publicationState session)
      in if truthy targetPath then expandSessionPath E (the targetPath)
         else pe_join E sessionsDir
                (safeSessionName (ps_name session) @ ''-'' @ ps_createdStamp session @ ''.ad''))"

definition toRepairCommitFailure :: "pub_failure \<Rightarrow> pub_error" where
  "toRepairCommitFailure e =
     (case e of AppFailure m \<Rightarrow> Raised (AppFailure m) | SystemFailure m \<Rightarrow> RepairCommitFailure (SystemFailure m))"

definition handleSessionScriptWriteFailure :: "pub_failure \<Rightarrow> bool \<Rightarrow> bool \<Rightarrow> write_result" where
  "handleSessionScriptWriteFailure e repairArmed activePublication =
     (if repairArmed then NotWritten (Some (toRepairCommitFailure e))
      else if activePublication then NotWritten (Some (ActivePublicationFailure e))
      else case e of AppFailure m \<Rightarrow> Thrown (Raised e) | SystemFailure m \<Rightarrow> NotWritten None)"

text \<open>\<open>prep\<close> is \<open>prepareSessionScript\<close>: with the two flags of its options it returns the script and the
  number of its actions, or fails.\<close>

type_synonym 'a script_prep = "'a pub_session \<Rightarrow> bool \<Rightarrow> bool \<Rightarrow> pub_failure + (string \<times> nat)"

record 'a pub_env =
  pv_paths :: path_env
  pv_sessionsDir :: string
  pv_prep :: "'a script_prep"
  pv_closeAction :: 'a

definition write_script ::
    "'a pub_env \<Rightarrow> bool \<Rightarrow> bool \<Rightarrow> bool \<Rightarrow> 'a pub_session \<times> script_files \<Rightarrow>
     write_result \<times> 'a pub_session \<times> script_files" where
  "write_script V force activePublication fault w =
     (let session = fst w; files = snd w;
          repairArmed = isRepairArmedSession session
      in if \<not> ps_recordSession session then (NotWritten None, session, files)
         else if isRepairArmedWriteBlocked session then (NotWritten None, session, files)
         else case pv_prep V session repairArmed activePublication of
             Inl e \<Rightarrow> (handleSessionScriptWriteFailure e repairArmed activePublication, session, files)
           | Inr (script, actionCount) \<Rightarrow>
               let scriptPath = resolveScriptPath (pv_paths V) (pv_sessionsDir V) session
               in (case publishHealedScriptAtomically scriptPath script force fault files of
                     (Inl e, files') \<Rightarrow>
                       (handleSessionScriptWriteFailure e repairArmed activePublication, session, files')
                   | (Inr _, files') \<Rightarrow>
                       (Written scriptPath actionCount,
                        if repairArmed
                        then set_publication (commitRepair (publicationState session)) session
                        else session,
                        files')))"

datatype repair_close_commit =
    NotArmed | Committed "string option" | CloseAborted | CloseFailed pub_error

text \<open>The request of a \<open>close\<close>: its recording flags and its live \<open>--force\<close>.\<close>

definition commitRepairScriptBeforeClose ::
    "'a pub_env \<Rightarrow> record_entry \<Rightarrow> bool \<Rightarrow> 'a pub_session \<times> script_files \<Rightarrow>
     repair_close_commit \<times> 'a pub_session \<times> script_files" where
  "commitRepairScriptBeforeClose V entry fault w =
     (let session = fst w; files = snd w
      in if \<not> isRepairArmedSession session then (NotArmed, session, files)
         else
           let actionsBeforeClose = length (ps_actions session);
               s1 = recordActionEntry (pv_paths V) entry (pv_closeAction V) session;
               alreadyPublished = isSessionScriptPublished s1
           in (case write_script V (effectiveWriteForce s1 (re_force entry)) False fault (s1, files) of
                 (Written path n, s2, files') \<Rightarrow> (Committed (Some path), s2, files')
               | (NotWritten (Some error), s2, files') \<Rightarrow>
                   (CloseFailed error, s2\<lparr>ps_actions := take actionsBeforeClose (ps_actions s2)\<rparr>, files')
               | (NotWritten None, s2, files') \<Rightarrow>
                   if alreadyPublished then (Committed None, s2, files')
                   else (CloseAborted, abortRepairTransaction s2, files')
               | (Thrown error, s2, files') \<Rightarrow> (CloseFailed error, s2, files')))"

definition recordRepairFinalizeCloseIfCommitting :: "'a pub_env \<Rightarrow> 'a pub_session \<Rightarrow> 'a pub_session" where
  "recordRepairFinalizeCloseIfCommitting V session =
     (if \<not> isRepairCommittable (publicationState session) then session
      else recordActionEntry (pv_paths V)
             \<lparr>re_noRecord = False, re_record = False, re_interactiveObservation = False,
              re_saveScript = SaveOff, re_force = False\<rparr> (pv_closeAction V) session)"

text \<open>\<open>Boolean(flags.saveScript)\<close>.\<close>

definition save_script_requested :: "save_script_flag \<Rightarrow> bool" where
  "save_script_requested flag \<longleftrightarrow> flag \<noteq> SaveOff \<and> flag \<noteq> SavePath []"

text \<open>The close of a session that is not under repair: it records the close unless the platform failed, and writes the script. Only
  an exception becomes the error of the response; the hint put on it is not modelled.\<close>

definition finalizeOrdinaryCloseScript ::
    "'a pub_env \<Rightarrow> record_entry \<Rightarrow> bool \<Rightarrow> bool \<Rightarrow> 'a pub_session \<times> script_files \<Rightarrow>
     pub_error option \<times> 'a pub_session \<times> script_files" where
  "finalizeOrdinaryCloseScript V entry platformCloseError fault w =
     (let session = fst w; files = snd w;
          s1 = (if platformCloseError then session
                else recordActionEntry (pv_paths V) entry (pv_closeAction V) session);
          s2 = (if save_script_requested (re_saveScript entry) then s1\<lparr>ps_recordSession := True\<rparr> else s1)
      in (case write_script V (effectiveWriteForce s2 (re_force entry)) False fault (s2, files) of
            (Written path n, s3, files') \<Rightarrow> (None, markCloseGeneratedPublicationDone path s3, files')
          | (NotWritten e, s3, files') \<Rightarrow> (None, s3, files')
          | (Thrown error, s3, files') \<Rightarrow> (Some error, s3, files')))"

definition assertTerminalRecordingCloseAllowed :: "save_script_flag \<Rightarrow> 'a pub_session \<Rightarrow> bool" where
  "assertTerminalRecordingCloseAllowed saveScript session \<longleftrightarrow>
     \<not> save_script_requested saveScript \<or> isAuthoringArmedSession session \<or>
     (case publicationState session of Authoring _ _ \<Rightarrow> False | _ \<Rightarrow> True)"

text \<open>The warning that a second open adds to its response is not modelled.\<close>

definition applyOrdinaryScriptRecordingOpenOutcome ::
    "path_env \<Rightarrow> 'a pub_session option \<Rightarrow> bool \<Rightarrow> 'a pub_session \<Rightarrow> 'a pub_session" where
  "applyOrdinaryScriptRecordingOpenOutcome E existingSession saveScriptRequested session =
     (if existingSession = None \<and> saveScriptRequested
      then armAuthoringOnOpen E \<lparr>tq_path = None, tq_force = False\<rparr> session
      else if \<not> (case existingSession of None \<Rightarrow> False | Some e \<Rightarrow> isAuthoringArmedSession e) then session
      else abortAuthoringOnSecondOpen session)"

text \<open>The end of a successful open: the next session records when it did or the flag is given, the lifecycle of its recording is
  decided, and the open is recorded.\<close>

definition finish_open ::
    "path_env \<Rightarrow> 'a pub_session option \<Rightarrow> record_entry \<Rightarrow> 'a \<Rightarrow> 'a pub_session \<Rightarrow> 'a pub_session" where
  "finish_open E existingSession entry action session =
     (let saveScript = save_script_requested (re_saveScript entry);
          nextSession = session\<lparr>ps_recordSession := ps_recordSession session \<or> saveScript\<rparr>
      in recordActionEntry E entry action
           (applyOrdinaryScriptRecordingOpenOutcome E existingSession saveScript nextSession))"

text \<open>What a teardown leaves for the next command on the session key.\<close>

datatype repair_tombstone = NoTombstone | RepairExpired | RepairCommitFailed pub_error

definition finalizeRepairTeardown ::
    "'a pub_env \<Rightarrow> bool \<Rightarrow> 'a pub_session \<times> script_files \<Rightarrow>
     repair_tombstone \<times> write_result \<times> 'a pub_session \<times> script_files" where
  "finalizeRepairTeardown V fault w =
     (let s1 = recordRepairFinalizeCloseIfCommitting V (fst w);
          (result, s2, files') = write_script V (effectiveWriteForce s1 False) False fault (s1, snd w);
          tombstone =
            (if \<not> isUncommittedRepairSession s2 then NoTombstone
             else case result of NotWritten (Some e) \<Rightarrow> RepairCommitFailed e | _ \<Rightarrow> RepairExpired)
      in (tombstone, result, s2, files'))"

datatype publication_ineligibility = IneligibleRepair | IneligibleAborted | IneligiblePublished | NotArmedForPublication

definition publicationIneligibility :: "'a pub_session \<Rightarrow> publication_ineligibility option" where
  "publicationIneligibility session =
     (if isRepairArmedSession session then Some IneligibleRepair
      else case publicationState session of
          Authoring AuthAborted _ \<Rightarrow> Some IneligibleAborted
        | Authoring AuthPublished _ \<Rightarrow> Some IneligiblePublished
        | _ \<Rightarrow> if isAuthoringArmedSession session \<and> ps_recordSession session then None
               else Some NotArmedForPublication)"

datatype publication_response =
    TooManyPaths
  | Ineligible publication_ineligibility
  | EmptyPath
  | PublicationFailed "pub_error option"
  | PublishedScript string nat

definition handleSessionScriptPublication ::
    "'a pub_env \<Rightarrow> string list \<Rightarrow> bool \<Rightarrow> bool \<Rightarrow> 'a pub_session \<times> script_files \<Rightarrow>
     publication_response \<times> 'a pub_session \<times> script_files" where
  "handleSessionScriptPublication V positionals force fault w =
     (let session = fst w; files = snd w
      in if length positionals > 1 then (TooManyPaths, session, files)
         else case publicationIneligibility session of
             Some why \<Rightarrow> (Ineligible why, session, files)
           | None \<Rightarrow>
               let explicitPath = (case positionals of [] \<Rightarrow> None | p # _ \<Rightarrow> Some (js_trim p))
               in if positionals \<noteq> [] \<and> \<not> truthy explicitPath then (EmptyPath, session, files)
                  else
                    let s1 = retargetActivePublication (pv_paths V) explicitPath force session
                    in (case write_script V (effectiveWriteForce s1 force) True fault (s1, files) of
                          (Written path n, s2, files') \<Rightarrow>
                            (PublishedScript path n, markActivePublicationDone path s2, files')
                        | (NotWritten e, s2, files') \<Rightarrow> (PublicationFailed e, s2, files')
                        | (Thrown e, s2, files') \<Rightarrow> (PublicationFailed (Some e), s2, files')))"

section \<open>The session as a machine\<close>

datatype 'a pub_op =
    ArmStep save_script_flag bool string string bool
  | Rerun
  | PlanComplete
  | PlatformClosed string
  | Open bool record_entry 'a
  | RecordAction record_entry 'a
  | PublishActive "string list" bool bool
  | CommitAtClose record_entry bool
  | OrdinaryClose record_entry bool bool
  | Teardown bool

text \<open>A session that no open has finished yet.\<close>

definition unopened :: "'a pub_session \<Rightarrow> bool" where
  "unopened s \<longleftrightarrow> ps_actions s = [] \<and> \<not> ps_recordSession s \<and> ps_scriptPublication s = None"

fun pub_step :: "'a pub_env \<Rightarrow> 'a pub_op \<Rightarrow> 'a pub_session \<times> script_files \<Rightarrow> 'a pub_session \<times> script_files" where
  "pub_step V (ArmStep flag force source sibling first) (s, f) =
     (armRepairStep (pv_paths V) flag force source sibling first s, f)"
| "pub_step V Rerun (s, f) =
     (if repairSessionBoundary s = None then s else resetRepairCompletionForRerun s, f)"
| "pub_step V PlanComplete (s, f) =
     (if repairSessionBoundary s = None then s else markRepairTransactionComplete s, f)"
| "pub_step V (PlatformClosed receipt) (s, f) =
     (if isRepairArmedSession s \<and> \<not> hasRepairPlatformCloseReceipt s receipt
      then recordRepairPlatformClose receipt s else s, f)"
| "pub_step V (Open first entry action) (s, f) =
     (if first \<and> \<not> unopened s then s
      else finish_open (pv_paths V) (if first then None else Some s) entry action s, f)"
| "pub_step V (RecordAction entry action) (s, f) = (recordActionEntry (pv_paths V) entry action s, f)"
| "pub_step V (PublishActive positionals force fault) w =
     snd (handleSessionScriptPublication V positionals force fault w)"
| "pub_step V (CommitAtClose entry fault) w = snd (commitRepairScriptBeforeClose V entry fault w)"
| "pub_step V (OrdinaryClose entry platformCloseError fault) w =
     (if \<not> assertTerminalRecordingCloseAllowed (re_saveScript entry) (fst w) \<or> isRepairArmedSession (fst w) then w
      else snd (finalizeOrdinaryCloseScript V entry platformCloseError fault w))"
| "pub_step V (Teardown fault) w = snd (snd (finalizeRepairTeardown V fault w))"


section \<open>What each operation does to the publication state\<close>

lemma publicationState_set [simp]: "publicationState (set_publication p s) = p"
  by (simp add: publicationState_def set_publication_def)

lemma publicationState_record [simp]: "publicationState (s\<lparr>ps_recordSession := b\<rparr>) = publicationState s"
  by (simp add: publicationState_def)

lemma publicationState_actions [simp]: "publicationState (s\<lparr>ps_actions := a\<rparr>) = publicationState s"
  by (simp add: publicationState_def)

lemma set_publication_sel [simp]:
  "ps_actions (set_publication p s) = ps_actions s"
  "ps_recordSession (set_publication p s) = ps_recordSession s"
  by (simp_all add: set_publication_def)

lemma target_force_with [simp]: "target_force (with_force t)"
  by (cases t) simp_all

text \<open>A target gains a grant only from a live one; a different explicit path without one loses it.\<close>

lemma resolve_no_force:
  "\<not> tq_force q \<Longrightarrow> (\<And>t. previous = Some t \<Longrightarrow> \<not> target_force t) \<Longrightarrow>
   \<not> target_force (resolveScriptTarget previous q)"
  by (auto simp: resolveScriptTarget_def split: option.split script_target.split)

definition flag_request :: "path_env \<Rightarrow> save_script_flag \<Rightarrow> bool \<Rightarrow> target_request" where
  "flag_request E flag force =
     \<lparr>tq_path = (case flag of SavePath p \<Rightarrow> Some (expandSessionPath E p) | _ \<Rightarrow> None), tq_force = force\<rparr>"

lemma flag_request_force [simp]: "tq_force (flag_request E flag force) = force"
  by (simp add: flag_request_def)

lemma resolve_keeps_ungranted [simp]:
  "\<not> tq_force q \<Longrightarrow> \<not> target_force (resolveScriptTarget None q)"
  "\<not> tq_force q \<Longrightarrow> \<not> target_force t \<Longrightarrow> \<not> target_force (resolveScriptTarget (Some t) q)"
  by (rule resolve_no_force; simp)+

lemma applyFlags_state:
  "publicationState (applyRecordedSaveScriptFlags E flag force s) =
     (if flag = SaveOff \<or> flag = SavePath [] then publicationState s
      else case publicationState s of
          Repair r \<Rightarrow> Repair (r\<lparr>rp_target := resolveScriptTarget (Some (rp_target r)) (flag_request E flag force)\<rparr>)
        | Authoring st t \<Rightarrow> Authoring st (resolveScriptTarget (Some t) (flag_request E flag force))
        | NoPublication \<Rightarrow> Authoring AuthArmed (resolveScriptTarget None (flag_request E flag force)))"
  by (auto simp: applyRecordedSaveScriptFlags_def flag_request_def armRepair_def armAuthoring_def Let_def
      split: script_publication.split option.split save_script_flag.split)

lemma applyFlags_sel [simp]:
  "ps_actions (applyRecordedSaveScriptFlags E flag force s) = ps_actions s"
  "ps_recordSession s \<Longrightarrow> ps_recordSession (applyRecordedSaveScriptFlags E flag force s)"
  by (simp_all add: applyRecordedSaveScriptFlags_def Let_def)

lemma recordAction_state:
  "publicationState (recordActionEntry E entry a s) = publicationState s \<or>
   publicationState (recordActionEntry E entry a s) =
     publicationState (applyRecordedSaveScriptFlags E (re_saveScript entry) (re_force entry) s)"
  by (simp add: recordActionEntry_def Let_def)

lemma recordAction_actions:
  "ps_actions (recordActionEntry E entry a s) = ps_actions s \<or>
   ps_actions (recordActionEntry E entry a s) = ps_actions s @ [a]"
  by (simp add: recordActionEntry_def Let_def)

text \<open>Recording keeps a repair transaction as it is, up to its target.\<close>

lemma recordAction_repair:
  assumes "publicationState s = Repair r"
  obtains t where "publicationState (recordActionEntry E entry a s) = Repair (r\<lparr>rp_target := t\<rparr>)"
    and "\<not> re_force entry \<Longrightarrow> \<not> target_force (rp_target r) \<Longrightarrow> \<not> target_force t"
proof -
  consider "publicationState (recordActionEntry E entry a s) = Repair (r\<lparr>rp_target := rp_target r\<rparr>)"
    | "publicationState (recordActionEntry E entry a s) = Repair (r\<lparr>rp_target :=
         resolveScriptTarget (Some (rp_target r)) (flag_request E (re_saveScript entry) (re_force entry))\<rparr>)"
    using recordAction_state [of E entry a s] assms by (auto simp: applyFlags_state split: if_splits)
  then show ?thesis
  proof cases
    case 1
    then show ?thesis by (rule that)
  next
    case 2
    then show ?thesis
      by (rule that) (rule resolve_no_force, simp_all add: flag_request_def)
  qed
qed

text \<open>A write leaves the state and the files alone, or publishes: then the session records, no repair is
  incomplete, one path gets the script, and it existed before only under \<open>force\<close>.\<close>

lemma write_script_cases:
  obtains (unwritten) "\<And>p n. fst (write_script V force active fault (s, f)) \<noteq> Written p n"
      and "snd (write_script V force active fault (s, f)) = (s, f)"
  | (published) script n where
      "ps_recordSession s" and "\<not> isRepairArmedWriteBlocked s"
      and "pv_prep V s (isRepairArmedSession s) active = Inr (script, n)" and "\<not> fault"
      and "force \<or> map_of f (resolveScriptPath (pv_paths V) (pv_sessionsDir V) s) = None"
      and "write_script V force active fault (s, f) =
        (Written (resolveScriptPath (pv_paths V) (pv_sessionsDir V) s) n,
         if isRepairArmedSession s then set_publication (commitRepair (publicationState s)) s else s,
         AList.update (resolveScriptPath (pv_paths V) (pv_sessionsDir V) s) script f)"
proof (cases "ps_recordSession s \<and> \<not> isRepairArmedWriteBlocked s")
  case False
  then have "write_script V force active fault (s, f) = (NotWritten None, s, f)"
    by (auto simp: write_script_def Let_def)
  then show ?thesis by - (rule unwritten, simp_all)
next
  case True
  show ?thesis
  proof (cases "pv_prep V s (isRepairArmedSession s) active")
    case (Inl e)
    with True show ?thesis
      by - (rule unwritten, auto simp: write_script_def Let_def handleSessionScriptWriteFailure_def
          split: pub_failure.split)
  next
    case (Inr q)
    then obtain script n where q: "pv_prep V s (isRepairArmedSession s) active = Inr (script, n)"
      by (cases q) simp
    let ?p = "resolveScriptPath (pv_paths V) (pv_sessionsDir V) s"
    show ?thesis
    proof (cases "\<not> fault \<and> (force \<or> map_of f ?p = None)")
      case ok: True
      have "write_script V force active fault (s, f) =
        (Written ?p n,
         if isRepairArmedSession s then set_publication (commitRepair (publicationState s)) s else s,
         AList.update ?p script f)"
        using True q ok by (auto simp: write_script_def publishHealedScriptAtomically_def Let_def)
      with True q ok show ?thesis by - (rule published, simp_all)
    next
      case bad: False
      with True q show ?thesis
        by - (rule unwritten, auto simp: write_script_def publishHealedScriptAtomically_def Let_def
            handleSessionScriptWriteFailure_def split: pub_failure.split if_splits)
    qed
  qed
qed


abbreviation terminal :: "repair_status \<Rightarrow> repair_state \<Rightarrow> repair_state" where
  "terminal st r \<equiv> r\<lparr>rp_closeReceipt := None, rp_status := st\<rparr>"

lemma repair_armed: "publicationState s = Repair r \<Longrightarrow> isRepairArmedSession s"
  by (simp add: isRepairArmedSession_def)

lemma write_blocked:
  "publicationState s = Repair r \<Longrightarrow>
   isRepairArmedWriteBlocked s \<longleftrightarrow> rp_status r \<notin> {RepComplete, RepCloseSucceeded}"
  by (cases "rp_status r") (simp_all add: isRepairArmedWriteBlocked_def)

text \<open>The four outcomes of a close on a session under repair.\<close>

lemma commit_cases:
  assumes r: "publicationState s = Repair r"
  obtains (committed) path script t where
      "commitRepairScriptBeforeClose V entry fault (s, f) =
        (Committed (Some path),
         set_publication (Repair (terminal RepCommitted (r\<lparr>rp_target := t\<rparr>)))
           (recordActionEntry (pv_paths V) entry (pv_closeAction V) s),
         AList.update path script f)"
      and "rp_status r \<in> {RepComplete, RepCloseSucceeded}"
      and "re_force entry \<or> target_force (rp_target r) \<or> map_of f path = None"
      and "\<not> re_force entry \<Longrightarrow> \<not> target_force (rp_target r) \<Longrightarrow> \<not> target_force t"
  | (failed) e s' t where "commitRepairScriptBeforeClose V entry fault (s, f) = (CloseFailed e, s', f)"
      and "publicationState s' = Repair (r\<lparr>rp_target := t\<rparr>)" and "ps_actions s' = ps_actions s"
      and "\<not> re_force entry \<Longrightarrow> \<not> target_force (rp_target r) \<Longrightarrow> \<not> target_force t"
  | (already) s' t where "commitRepairScriptBeforeClose V entry fault (s, f) = (Committed None, s', f)"
      and "publicationState s' = Repair (r\<lparr>rp_target := t\<rparr>)" and "rp_status r = RepCommitted"
      and "\<not> re_force entry \<Longrightarrow> \<not> target_force (rp_target r) \<Longrightarrow> \<not> target_force t"
  | (aborted) s' t where "commitRepairScriptBeforeClose V entry fault (s, f) = (CloseAborted, s', f)"
      and "publicationState s' = Repair (terminal RepAborted (r\<lparr>rp_target := t\<rparr>))"
      and "rp_status r \<noteq> RepCommitted"
      and "\<not> re_force entry \<Longrightarrow> \<not> target_force (rp_target r) \<Longrightarrow> \<not> target_force t"
proof -
  let ?s1 = "recordActionEntry (pv_paths V) entry (pv_closeAction V) s"
  obtain t where t: "publicationState ?s1 = Repair (r\<lparr>rp_target := t\<rparr>)"
    and tf: "\<not> re_force entry \<Longrightarrow> \<not> target_force (rp_target r) \<Longrightarrow> \<not> target_force t"
    using recordAction_repair [OF r] by blast
  let ?force = "effectiveWriteForce ?s1 (re_force entry)"
  let ?w = "write_script V ?force False fault (?s1, f)"
  have force: "?force \<Longrightarrow> re_force entry \<or> target_force (rp_target r)"
    using tf by (auto simp: effectiveWriteForce_def scriptTargetForce_def t)
  have armed: "isRepairArmedSession s" "isRepairArmedSession ?s1"
    using repair_armed r t by blast+
  have eq: "commitRepairScriptBeforeClose V entry fault (s, f) =
      (case ?w of
         (Written path n, s2, files') \<Rightarrow> (Committed (Some path), s2, files')
       | (NotWritten (Some error), s2, files') \<Rightarrow>
           (CloseFailed error, s2\<lparr>ps_actions := take (length (ps_actions s)) (ps_actions s2)\<rparr>, files')
       | (NotWritten None, s2, files') \<Rightarrow>
           if isSessionScriptPublished ?s1 then (Committed None, s2, files')
           else (CloseAborted, abortRepairTransaction s2, files')
       | (Thrown error, s2, files') \<Rightarrow> (CloseFailed error, s2, files'))"
    using armed(1) by (simp add: commitRepairScriptBeforeClose_def Let_def)
  have pub: "isSessionScriptPublished ?s1 \<longleftrightarrow> rp_status r = RepCommitted"
    by (simp add: isSessionScriptPublished_def t)
  have take: "take (length (ps_actions s)) (ps_actions ?s1) = ps_actions s"
    using recordAction_actions [of "pv_paths V" entry "pv_closeAction V" s] by auto
  show ?thesis
  proof (cases rule: write_script_cases [of V ?force False fault ?s1 f])
    case unwritten
    obtain wr where wr: "?w = (wr, ?s1, f)"
      using unwritten(2) by (metis prod.collapse)
    have not_thrown: "wr \<noteq> Thrown e" for e
      using wr armed by (auto simp: write_script_def Let_def handleSessionScriptWriteFailure_def
          split: sum.splits prod.splits if_splits)
    consider e where "wr = NotWritten (Some e)" | "wr = NotWritten None" "rp_status r = RepCommitted"
      | "wr = NotWritten None" "rp_status r \<noteq> RepCommitted"
      using unwritten(1) wr not_thrown by (metis fst_conv not_None_eq write_result.exhaust)
    then show ?thesis
    proof cases
      case 1
      then show ?thesis
        using eq wr take t tf by - (rule failed [of e "?s1\<lparr>ps_actions := ps_actions s\<rparr>" t], auto)
    next
      case 2
      then show ?thesis
        using eq wr pub t tf by - (rule already [of ?s1 t], auto)
    next
      case 3
      then show ?thesis
        using eq wr pub t tf by - (rule aborted [of "abortRepairTransaction ?s1" t], auto simp: abortRepairTransaction_def)
    qed
  next
    case (published script n)
    then show ?thesis
      using eq armed t tf write_blocked [OF t] force
      by - (rule committed [of _ t script], auto)
  qed
qed

lemma teardown_repair:
  assumes r: "publicationState s = Repair r"
  obtains (quiet) t s' where "snd (snd (finalizeRepairTeardown V fault (s, f))) = (s', f)"
      and "publicationState s' = Repair (r\<lparr>rp_target := t\<rparr>)"
      and "\<not> target_force (rp_target r) \<Longrightarrow> \<not> target_force t"
  | (committed) path script t s' where "snd (snd (finalizeRepairTeardown V fault (s, f))) = (s', AList.update path script f)"
      and "publicationState s' = Repair (terminal RepCommitted (r\<lparr>rp_target := t\<rparr>))"
      and "rp_status r \<in> {RepComplete, RepCloseSucceeded}"
      and "target_force (rp_target r) \<or> map_of f path = None"
      and "\<not> target_force (rp_target r) \<Longrightarrow> \<not> target_force t"
proof -
  let ?s1 = "recordRepairFinalizeCloseIfCommitting V s"
  have st: "publicationState ?s1 = Repair r"
    using r by (simp add: recordRepairFinalizeCloseIfCommitting_def recordActionEntry_def applyRecordedSaveScriptFlags_def
        isExcludedRepairSegmentObservation_def)
  have armed: "isRepairArmedSession ?s1" by (rule repair_armed [OF st])
  let ?force = "effectiveWriteForce ?s1 False"
  have force: "?force \<longleftrightarrow> target_force (rp_target r)"
    by (simp add: effectiveWriteForce_def scriptTargetForce_def st)
  have eq: "snd (snd (finalizeRepairTeardown V fault (s, f))) = snd (write_script V ?force False fault (?s1, f))"
    by (simp add: finalizeRepairTeardown_def Let_def split: prod.split)
  show ?thesis
  proof (cases rule: write_script_cases [of V ?force False fault ?s1 f])
    case unwritten
    then show ?thesis
      using eq st by - (rule quiet [of ?s1 "rp_target r"], auto)
  next
    case (published script n)
    then show ?thesis
      using eq st armed force write_blocked [OF st]
      by - (rule committed [of _ _ _ "rp_target r"], auto)
  qed
qed


section \<open>One step of a session under repair\<close>

text \<open>The live \<open>--force\<close> an operation carries.\<close>

fun op_force :: "'a pub_op \<Rightarrow> bool" where
  "op_force (ArmStep _ force _ _ _) = force"
| "op_force (RecordAction entry _) = re_force entry"
| "op_force (PublishActive _ force _) = force"
| "op_force (CommitAtClose entry _) = re_force entry"
| "op_force (Open _ entry _) = re_force entry"
| "op_force (OrdinaryClose entry _ _) = re_force entry"
| "op_force _ = False"

definition repair_next :: "'a pub_op \<Rightarrow> repair_state \<Rightarrow> script_files \<Rightarrow> repair_state \<Rightarrow> script_files \<Rightarrow> bool" where
  "repair_next x r f r' f' \<longleftrightarrow>
     rp_boundary r' = rp_boundary r \<and>
     (rp_sourcePath r \<noteq> None \<longrightarrow> rp_sourcePath r' = rp_sourcePath r) \<and>
     (f' = f \<or>
      (\<exists>path script. f' = AList.update path script f \<and> rp_status r \<in> {RepComplete, RepCloseSucceeded} \<and>
         rp_status r' = RepCommitted \<and> rp_closeReceipt r' = None \<and>
         (map_of f path = None \<or> target_force (rp_target r) \<or> op_force x))) \<and>
     (x \<noteq> Rerun \<and> rp_status r = RepAborted \<longrightarrow> rp_status r' = RepAborted) \<and>
     (\<forall>receipt. rp_closeReceipt r = Some receipt \<and> (\<forall>other. x = PlatformClosed other \<longrightarrow> other = receipt) \<longrightarrow>
        rp_closeReceipt r' = Some receipt \<or> rp_status r' \<in> {RepCommitted, RepAborted}) \<and>
     (\<not> op_force x \<and> \<not> target_force (rp_target r) \<longrightarrow> \<not> target_force (rp_target r'))"

lemma repair_next_same: "repair_next x r f r f"
  by (simp add: repair_next_def)

lemma repair_next_target:
  "(\<not> op_force x \<Longrightarrow> \<not> target_force (rp_target r) \<Longrightarrow> \<not> target_force t) \<Longrightarrow>
   repair_next x r f (r\<lparr>rp_target := t\<rparr>) f"
  by (auto simp: repair_next_def)

lemma armRepairStep_repair:
  assumes "publicationState s = Repair r"
  shows "publicationState (armRepairStep E flag force source sibling first s) =
    Repair (r\<lparr>rp_target := resolveScriptTarget (Some (rp_target r)) (flag_request E flag force),
      rp_sourcePath := (case rp_sourcePath r of Some p \<Rightarrow> Some p | None \<Rightarrow> Some source)\<rparr>)"
  using assms by (auto simp: armRepairStep_def armRepair_def flag_request_def Let_def
      split: save_script_flag.split option.split)

lemma repair_step:
  assumes r: "publicationState s = Repair r"
  shows "\<exists>r'. publicationState (fst (pub_step V x (s, f))) = Repair r' \<and>
    repair_next x r f r' (snd (pub_step V x (s, f)))"
proof (cases x)
  case (ArmStep flag force source sibling first)
  have "\<not> force \<Longrightarrow> \<not> target_force (rp_target r) \<Longrightarrow>
      \<not> target_force (resolveScriptTarget (Some (rp_target r)) (flag_request (pv_paths V) flag force))"
    by (rule resolve_no_force) (simp_all add: flag_request_def)
  with ArmStep show ?thesis
    using armRepairStep_repair [OF r] by (auto simp: repair_next_def)
next
  case (RecordAction entry a)
  obtain t where "publicationState (recordActionEntry (pv_paths V) entry a s) = Repair (r\<lparr>rp_target := t\<rparr>)"
    and "\<not> re_force entry \<Longrightarrow> \<not> target_force (rp_target r) \<Longrightarrow> \<not> target_force t"
    using recordAction_repair [OF r] by blast
  with RecordAction show ?thesis by (auto intro!: repair_next_target)
next
  case (Open first entry a)
  have closed: "\<not> unopened s" and "\<not> isAuthoringArmedSession s"
    using r by (auto simp: unopened_def publicationState_def isAuthoringArmedSession_def split: option.splits)
  then have eq: "pub_step V x (s, f) = (if first then s else recordActionEntry (pv_paths V) entry a
      (s\<lparr>ps_recordSession := ps_recordSession s \<or> save_script_requested (re_saveScript entry)\<rparr>), f)"
    using Open by (simp add: finish_open_def applyOrdinaryScriptRecordingOpenOutcome_def Let_def)
  show ?thesis
  proof (cases first)
    case True
    with eq r show ?thesis by (simp add: repair_next_same)
  next
    case False
    let ?s = "s\<lparr>ps_recordSession := ps_recordSession s \<or> save_script_requested (re_saveScript entry)\<rparr>"
    have st: "publicationState ?s = Repair r" using r by simp
    obtain t where "publicationState (recordActionEntry (pv_paths V) entry a ?s) = Repair (r\<lparr>rp_target := t\<rparr>)"
      and "\<not> re_force entry \<Longrightarrow> \<not> target_force (rp_target r) \<Longrightarrow> \<not> target_force t"
      using recordAction_repair [OF st, of "pv_paths V" entry a] by auto
    with eq False Open show ?thesis by (auto intro!: repair_next_target)
  qed
next
  case (OrdinaryClose entry platform fault)
  with r show ?thesis by (simp add: repair_armed repair_next_same)
next
  case (PublishActive positionals force fault)
  with r show ?thesis
    by (auto simp: handleSessionScriptPublication_def publicationIneligibility_def repair_armed
        repair_next_same)
next
  case (CommitAtClose entry fault)
  from r show ?thesis
  proof (cases rule: commit_cases [where V = V and entry = entry and fault = fault and f = f])
    case (committed path script t)
    then show ?thesis
      using CommitAtClose by (auto simp: repair_next_def)
  next
    case (failed e s' t)
    with CommitAtClose show ?thesis by (auto intro!: repair_next_target)
  next
    case (already s' t)
    with CommitAtClose show ?thesis by (auto intro!: repair_next_target)
  next
    case (aborted s' t)
    with CommitAtClose show ?thesis by (auto simp: repair_next_def)
  qed
next
  case (Teardown fault)
  from r show ?thesis
  proof (cases rule: teardown_repair [of s r V fault f])
    case (quiet t s')
    with Teardown show ?thesis by (auto intro!: repair_next_target)
  next
    case (committed path script t s')
    with Teardown show ?thesis by (auto simp: repair_next_def)
  qed
qed (use r in \<open>auto simp: repair_next_def repairSessionBoundary_def isAuthoringArmedSession_def
  hasRepairPlatformCloseReceipt_def resetRepairCompletionForRerun_def markRepairTransactionComplete_def
  recordRepairPlatformClose_def\<close>)


section \<open>Runs\<close>

definition under_repair :: "nat \<Rightarrow> string option \<Rightarrow> 'a pub_session \<times> script_files \<Rightarrow> bool" where
  "under_repair boundary source w \<longleftrightarrow>
     (\<exists>r. publicationState (fst w) = Repair r \<and> rp_boundary r = boundary \<and>
        (source \<noteq> None \<longrightarrow> rp_sourcePath r = source))"

lemma under_repair_step: "under_repair b src w \<Longrightarrow> under_repair b src (pub_step V x w)"
proof -
  assume "under_repair b src w"
  then obtain r where r: "publicationState (fst w) = Repair r" "rp_boundary r = b"
    "src \<noteq> None \<longrightarrow> rp_sourcePath r = src"
    by (auto simp: under_repair_def)
  from repair_step [OF r(1), of V x "snd w"] obtain r' where
    "publicationState (fst (pub_step V x w)) = Repair r'" "repair_next x r (snd w) r' (snd (pub_step V x w))"
    by auto
  with r show ?thesis
    by (auto simp: under_repair_def repair_next_def)
qed

interpretation repair: machine "pub_step V" "under_repair b src" for V b src
  by unfold_locales (rule under_repair_step)

definition kept_files :: "script_files \<Rightarrow> script_files \<Rightarrow> bool" where
  "kept_files f f' \<longleftrightarrow> (\<forall>p c. map_of f p = Some c \<longrightarrow> map_of f' p = Some c)"

lemma kept_files_refl [simp]: "kept_files f f"
  by (simp add: kept_files_def)

lemma kept_files_trans: "kept_files f g \<Longrightarrow> kept_files g h \<Longrightarrow> kept_files f h"
  by (simp add: kept_files_def)

lemma kept_files_update [simp]: "map_of f p = None \<Longrightarrow> kept_files f (AList.update p c f)"
  by (auto simp: kept_files_def update_conv')

lemma write_no_force: "kept_files f (snd (snd (write_script V False active fault (s, f))))"
  by (cases rule: write_script_cases [of V False active fault s f]) auto

lemma write_force_state:
  "scriptTargetForce (publicationState (fst (snd (write_script V force active fault (s, f))))) =
   scriptTargetForce (publicationState s)"
proof (cases rule: write_script_cases [of V force active fault s f])
  case unwritten
  then show ?thesis by simp
next
  case (published script n)
  then show ?thesis
    by (cases "publicationState s") (auto simp: scriptTargetForce_def isRepairArmedSession_def)
qed

lemma recordAction_no_force:
  assumes "\<not> re_force entry" and "\<not> scriptTargetForce (publicationState s)"
  shows "\<not> scriptTargetForce (publicationState (recordActionEntry E entry a s))"
  using recordAction_state [of E entry a s] assms
  by (cases "publicationState s")
    (auto simp: applyFlags_state scriptTargetForce_def split: if_splits)

lemma publishActive_no_force:
  assumes "\<not> scriptTargetForce (publicationState s)"
  shows "\<not> scriptTargetForce (publicationState (fst (snd (handleSessionScriptPublication V ps False fault (s, f))))) \<and>
    kept_files f (snd (snd (handleSessionScriptPublication V ps False fault (s, f))))"
proof (cases "publicationIneligibility s = None \<and> length ps \<le> 1 \<and> (ps = [] \<or> js_trim (hd ps) \<noteq> [])")
  case False
  with assms show ?thesis
    by (auto simp: handleSessionScriptPublication_def Let_def split: list.split option.split)
next
  case True
  let ?e = "case ps of [] \<Rightarrow> None | p # _ \<Rightarrow> Some (js_trim p)"
  let ?s1 = "retargetActivePublication (pv_paths V) ?e False s"
  obtain st t where st: "publicationState s = Authoring st t"
    using True by (cases "publicationState s")
      (auto simp: publicationIneligibility_def isAuthoringArmedSession_def isRepairArmedSession_def)
  have "\<not> target_force (resolveScriptTarget (Some t) \<lparr>tq_path = map_option (expandSessionPath (pv_paths V)) ?e,
      tq_force = False\<rparr>)"
    by (rule resolve_no_force) (use assms st in \<open>simp_all add: scriptTargetForce_def\<close>)
  then have s1: "\<not> scriptTargetForce (publicationState ?s1)"
    using st by (simp add: retargetActivePublication_def scriptTargetForce_def)
  obtain wr s2 f' where w: "write_script V False True fault (?s1, f) = (wr, s2, f')"
    by (metis prod.collapse)
  have s2: "\<not> scriptTargetForce (publicationState s2)" and f': "kept_files f f'"
    using write_force_state [of V False True fault ?s1 f] write_no_force [of f V True fault ?s1] s1 w by simp_all
  have fin: "\<not> scriptTargetForce (publicationState (markActivePublicationDone p s2))" for p
    using s2 by (cases "publicationState s2") (auto simp: markActivePublicationDone_def scriptTargetForce_def)
  have "handleSessionScriptPublication V ps False fault (s, f) =
      (case wr of Written path n \<Rightarrow> (PublishedScript path n, markActivePublicationDone path s2, f')
       | NotWritten e \<Rightarrow> (PublicationFailed e, s2, f') | Thrown e \<Rightarrow> (PublicationFailed (Some e), s2, f'))"
    using True w s1 by (auto simp: handleSessionScriptPublication_def effectiveWriteForce_def Let_def
        split: list.split option.split write_result.split)
  then show ?thesis
    using s2 f' fin by (simp split: write_result.split)
qed

lemma armStep_no_force:
  assumes "\<not> scriptTargetForce (publicationState s)"
  shows "\<not> scriptTargetForce (publicationState (armRepairStep E flag False source sibling first s))"
  using assms
  by (cases "publicationState s") (auto simp: armRepairStep_def armRepair_def Let_def scriptTargetForce_def)

lemma teardown_no_force:
  assumes "\<not> isRepairArmedSession s" and "\<not> scriptTargetForce (publicationState s)"
  shows "\<not> scriptTargetForce (publicationState (fst (snd (snd (finalizeRepairTeardown V fault (s, f)))))) \<and>
    kept_files f (snd (snd (snd (finalizeRepairTeardown V fault (s, f)))))"
proof -
  have "recordRepairFinalizeCloseIfCommitting V s = s"
    using assms(1) by (cases "publicationState s")
      (auto simp: recordRepairFinalizeCloseIfCommitting_def isRepairArmedSession_def)
  then have "snd (snd (finalizeRepairTeardown V fault (s, f))) = snd (write_script V False False fault (s, f))"
    using assms(2) by (simp add: finalizeRepairTeardown_def effectiveWriteForce_def Let_def split: prod.split)
  then show ?thesis
    using write_force_state [of V False False fault s f] write_no_force [of f V False fault s] assms(2) by simp
qed

lemma open_no_force:
  assumes "\<not> re_force entry" and "\<not> scriptTargetForce (publicationState s)"
  shows "\<not> scriptTargetForce (publicationState (finish_open E existing entry action s))"
proof -
  let ?s = "s\<lparr>ps_recordSession := ps_recordSession s \<or> save_script_requested (re_saveScript entry)\<rparr>"
  have "\<not> scriptTargetForce (publicationState
      (applyOrdinaryScriptRecordingOpenOutcome E existing (save_script_requested (re_saveScript entry)) ?s))"
    using assms(2) by (cases "publicationState s" rule: abortAuthoring.cases)
      (auto simp: applyOrdinaryScriptRecordingOpenOutcome_def armAuthoringOnOpen_def armAuthoring_def
        abortAuthoringOnSecondOpen_def scriptTargetForce_def resolveScriptTarget_def split: option.split)
  then show ?thesis
    unfolding finish_open_def Let_def by (rule recordAction_no_force [OF assms(1)])
qed

lemma close_done_force:
  "scriptTargetForce (publicationState (markCloseGeneratedPublicationDone path s)) = scriptTargetForce (publicationState s)"
  by (cases "publicationState s") (simp_all add: markCloseGeneratedPublicationDone_def scriptTargetForce_def)

lemma ordinary_close_no_force:
  assumes "\<not> re_force entry" and "\<not> scriptTargetForce (publicationState s)"
  shows "\<not> scriptTargetForce (publicationState (fst (snd (finalizeOrdinaryCloseScript V entry platform fault (s, f))))) \<and>
    kept_files f (snd (snd (finalizeOrdinaryCloseScript V entry platform fault (s, f))))"
proof -
  let ?s1 = "if platform then s else recordActionEntry (pv_paths V) entry (pv_closeAction V) s"
  let ?s2 = "if save_script_requested (re_saveScript entry) then ?s1\<lparr>ps_recordSession := True\<rparr> else ?s1"
  have s2: "\<not> scriptTargetForce (publicationState ?s2)"
    using assms(2) recordAction_no_force [OF assms, of "pv_paths V" "pv_closeAction V"] by simp
  obtain wr s3 f' where w: "write_script V False False fault (?s2, f) = (wr, s3, f')"
    by (metis prod.collapse)
  have "\<not> scriptTargetForce (publicationState s3)" and "kept_files f f'"
    using write_force_state [of V False False fault ?s2 f] write_no_force [of f V False fault ?s2] s2 w by simp_all
  moreover have "snd (finalizeOrdinaryCloseScript V entry platform fault (s, f)) =
      (case wr of Written path n \<Rightarrow> (markCloseGeneratedPublicationDone path s3, f') | _ \<Rightarrow> (s3, f'))"
    using w s2 assms(1) by (simp add: finalizeOrdinaryCloseScript_def effectiveWriteForce_def Let_def split: write_result.split)
  ultimately show ?thesis
    by (simp add: close_done_force split: write_result.split)
qed

lemma pub_step_no_force:
  assumes x: "\<not> op_force x" and s: "\<not> scriptTargetForce (publicationState s)"
  shows "\<not> scriptTargetForce (publicationState (fst (pub_step V x (s, f)))) \<and>
    kept_files f (snd (pub_step V x (s, f)))"
proof (cases "isRepairArmedSession s")
  case True
  then obtain r where "publicationState s = Repair r"
    by (auto simp: isRepairArmedSession_def split: script_publication.splits)
  from repair_step [OF this, of V x f] x s this show ?thesis
    by (auto simp: repair_next_def scriptTargetForce_def)
next
  case False
  then have none: "repairSessionBoundary s = None"
    by (cases "publicationState s") (simp_all add: repairSessionBoundary_def isRepairArmedSession_def)
  show ?thesis
  proof (cases x)
    case (Open first entry action)
    then have "\<not> re_force entry" using x by simp
    from open_no_force [OF this s] Open s show ?thesis by simp
  next
    case (OrdinaryClose entry platform fault)
    then have "\<not> re_force entry" using x by simp
    from ordinary_close_no_force [OF this s] OrdinaryClose s show ?thesis by simp
  next
    case (PublishActive ps force fault)
    with x publishActive_no_force [OF s] show ?thesis by simp
  next
    case (CommitAtClose entry fault)
    with False s show ?thesis by (simp add: commitRepairScriptBeforeClose_def)
  next
    case (Teardown fault)
    with False s teardown_no_force show ?thesis by simp
  qed (use x s False none in \<open>auto simp: armStep_no_force recordAction_no_force\<close>)
qed

lemma pub_run_no_force:
  "list_all (\<lambda>x. \<not> op_force x) xs \<Longrightarrow> \<not> scriptTargetForce (publicationState (fst w)) \<Longrightarrow>
   \<not> scriptTargetForce (publicationState (fst (fold (pub_step V) xs w))) \<and>
   kept_files (snd w) (snd (fold (pub_step V) xs w))"
proof (induction xs arbitrary: w)
  case Nil
  then show ?case by simp
next
  case (Cons x xs)
  then have "\<not> scriptTargetForce (publicationState (fst (pub_step V x w))) \<and> kept_files (snd w) (snd (pub_step V x w))"
    using pub_step_no_force [of x "fst w" V "snd w"] by simp
  with Cons.IH [of "pub_step V x w"] Cons.prems show ?case
    by (simp add: kept_files_trans [of "snd w" "snd (pub_step V x w)"])
qed


section \<open>Properties\<close>

lemma repair_at:
  assumes "publicationState (fst w) = Repair r"
  shows "\<exists>r'. publicationState (fst (fold (pub_step V) xs w)) = Repair r'"
proof -
  have "under_repair (rp_boundary r) (rp_sourcePath r) w"
    using assms by (simp add: under_repair_def)
  from repair.run_inv [OF this, of V xs] show ?thesis
    by (auto simp: under_repair_def)
qed

text \<open>A repair transaction is stamped once: whatever the session does afterwards (more armed steps,
  reruns, closes, commits, an abort, recorded actions), it stays a repair transaction with the same
  action boundary and the same source path.\<close>

lemma repair_stamps_once:
  assumes "publicationState (fst w) = Repair r" and "rp_sourcePath r = Some p"
  shows "\<exists>r'. publicationState (fst (fold (pub_step V) xs w)) = Repair r' \<and>
    rp_boundary r' = rp_boundary r \<and> rp_sourcePath r' = Some p"
proof -
  have "under_repair (rp_boundary r) (Some p) w"
    using assms by (simp add: under_repair_def)
  from repair.run_inv [OF this, of V xs] show ?thesis
    by (auto simp: under_repair_def)
qed

definition demo_paths :: path_env where
  "demo_paths = \<lparr>pe_home = ''/home'', pe_cwd = ''/work'', pe_join = (\<lambda>a b. a @ ''/'' @ b),
     pe_isAbsolute = (\<lambda>p. take 1 p = ''/''), pe_resolve = (\<lambda>a b. a @ ''/'' @ b)\<rparr>"

definition demo_env :: "string pub_env" where
  "demo_env = \<lparr>pv_paths = demo_paths, pv_sessionsDir = ''/sessions'',
     pv_prep = (\<lambda>s _ _. Inr (concat (drop (case repairSessionBoundary s of Some b \<Rightarrow> b | None \<Rightarrow> 0) (ps_actions s)), length (ps_actions s))),
     pv_closeAction = ''close;''\<rparr>"

definition plain_entry :: record_entry where
  "plain_entry = \<lparr>re_noRecord = False, re_record = False, re_interactiveObservation = False,
     re_saveScript = SaveOff, re_force = False\<rparr>"

definition demo_armed :: "string pub_session \<times> script_files" where
  "demo_armed = fold (pub_step demo_env)
     [RecordAction plain_entry ''old;'', ArmStep SaveBare False ''/f.ad'' ''/f.healed.ad'' True,
      RecordAction plain_entry ''press;'']
     (\<lparr>ps_name = ''s'', ps_createdStamp = ''t'', ps_recordSession = False, ps_actions = [],
       ps_scriptPublication = None\<rparr>, [(''/taken.ad'', ''mine'')])"

definition demo_repair :: repair_state where
  "demo_repair = \<lparr>rp_status = RepArmed, rp_target = ExplicitTarget ''/f.healed.ad'' False, rp_boundary = 1,
     rp_sourcePath = Some ''/f.ad'', rp_closeReceipt = None\<rparr>"

lemma demo_armed_state: "publicationState (fst demo_armed) = Repair demo_repair"
  by code_simp

lemma repair_stamps_once_example:
  "repairSessionBoundary (fst (fold (pub_step demo_env)
     [RecordAction plain_entry ''a;'', ArmStep SaveBare False ''/g.ad'' ''/g.healed.ad'' True, Rerun]
     demo_armed)) = Some 1"
proof -
  have "rp_sourcePath demo_repair = Some ''/f.ad''" and "rp_boundary demo_repair = 1"
    by (simp_all add: demo_repair_def)
  from repair_stamps_once [OF demo_armed_state this(1), of demo_env "[RecordAction plain_entry ''a;'',
      ArmStep SaveBare False ''/g.ad'' ''/g.healed.ad'' True, Rerun]"] this(2)
  show ?thesis by (auto simp: repairSessionBoundary_def)
qed

text \<open>A healed script is published only by a complete transaction: when an operation of a session
  under repair changes the files, the plan was complete, the transaction is committed afterwards
  with its close receipt cleared, one path was written, and it existed before only if the target or
  the request carries \<open>--force\<close>.\<close>

lemma healed_script_needs_completion:
  assumes "publicationState s = Repair r" and "snd (pub_step V x (s, f)) \<noteq> f"
  shows "rp_status r \<in> {RepComplete, RepCloseSucceeded} \<and>
    (\<exists>path script r'. snd (pub_step V x (s, f)) = AList.update path script f \<and>
       publicationState (fst (pub_step V x (s, f))) = Repair r' \<and>
       rp_status r' = RepCommitted \<and> rp_closeReceipt r' = None \<and>
       (map_of f path = None \<or> target_force (rp_target r) \<or> op_force x))"
  using repair_step [OF assms(1), of V x f] assms(2) by (auto simp: repair_next_def)

definition demo_complete :: "string pub_session \<times> script_files" where
  "demo_complete = fold (pub_step demo_env) [PlanComplete, PlatformClosed ''[]''] demo_armed"

lemma healed_script_needs_completion_example:
  "map_of (snd (pub_step demo_env (CommitAtClose plain_entry False) demo_complete)) ''/f.healed.ad'' =
     Some ''press;close;'' \<and>
   (\<exists>r'. publicationState (fst (pub_step demo_env (CommitAtClose plain_entry False) demo_complete)) = Repair r' \<and>
      rp_status r' = RepCommitted)"
proof -
  let ?c = "CommitAtClose plain_entry False :: string pub_op"
  obtain r where r: "publicationState (fst demo_complete) = Repair r"
    using repair_at [OF demo_armed_state] unfolding demo_complete_def by blast
  have m: "map_of (snd (pub_step demo_env ?c demo_complete)) ''/f.healed.ad'' = Some ''press;close;''"
    and n: "map_of (snd demo_complete) ''/f.healed.ad'' = None"
    by code_simp+
  then have "snd (pub_step demo_env ?c demo_complete) \<noteq> snd demo_complete"
    by (metis option.distinct(1))
  then show ?thesis
    using healed_script_needs_completion [of "fst demo_complete" r demo_env ?c "snd demo_complete"] r m
    by auto
qed

text \<open>C33. No file is overwritten without a grant: if the session holds no force authorization and none of
  the operations of a run carries a live \<open>--force\<close>, every file keeps its content, and the session
  holds no authorization afterwards.\<close>

theorem no_overwrite_without_force:
  assumes "list_all (\<lambda>x. \<not> op_force x) xs" and "\<not> scriptTargetForce (publicationState (fst w))"
    and "map_of (snd w) path = Some content"
  shows "map_of (snd (fold (pub_step V) xs w)) path = Some content \<and>
    \<not> scriptTargetForce (publicationState (fst (fold (pub_step V) xs w)))"
  using pub_run_no_force [OF assms(1,2), of V] assms(3) by (simp add: kept_files_def)

theorem no_overwrite_without_force_witness:
  "map_of (snd (fold (pub_step demo_env)
     [ArmStep (SavePath ''/taken.ad'') False ''/f.ad'' ''/f.healed.ad'' False, PlanComplete,
      CommitAtClose plain_entry False] demo_armed)) ''/taken.ad'' = Some ''mine''"
proof -
  let ?xs = "[ArmStep (SavePath ''/taken.ad'') False ''/f.ad'' ''/f.healed.ad'' False, PlanComplete,
      CommitAtClose plain_entry False] :: string pub_op list"
  have "list_all (\<lambda>x. \<not> op_force x) ?xs" and "map_of (snd demo_armed) ''/taken.ad'' = Some ''mine''"
    and "\<not> scriptTargetForce (publicationState (fst demo_armed))"
    by code_simp+
  with no_overwrite_without_force [of ?xs demo_armed "''/taken.ad''" "''mine''" demo_env] show ?thesis by blast
qed


text \<open>The ordinary life of a recording: the first open arms it, the close writes it to a path that is free and leaves one that is taken,
  and a second open ends it.\<close>

lemma ordinary_recording_example:
  "let saving = (\<lambda>p. plain_entry\<lparr>re_saveScript := SavePath p\<rparr>);
       fresh = (\<lparr>ps_name = ''s'', ps_createdStamp = ''t'', ps_recordSession = False, ps_actions = [],
         ps_scriptPublication = None\<rparr>, [(''/taken.ad'', ''mine'')]);
       files = (\<lambda>p more. snd (fold (pub_step demo_env)
         (Open True (saving p) ''open;'' # more @ [OrdinaryClose plain_entry False False]) fresh))
   in map_of (files ''/new.ad'' []) ''/new.ad'' = Some ''open;close;'' \<and>
      map_of (files ''/taken.ad'' []) ''/taken.ad'' = Some ''mine'' \<and>
      map_of (files ''/new.ad'' [Open False plain_entry ''open;'']) ''/new.ad'' = None"
  by code_simp

lemma aborted_run:
  "list_all (\<lambda>x. x \<noteq> Rerun) xs \<Longrightarrow> publicationState (fst w) = Repair r \<Longrightarrow> rp_status r = RepAborted \<Longrightarrow>
   snd (fold (pub_step V) xs w) = snd w \<and>
   (\<exists>r'. publicationState (fst (fold (pub_step V) xs w)) = Repair r' \<and> rp_status r' = RepAborted)"
proof (induction xs arbitrary: w r)
  case Nil
  then show ?case by auto
next
  case (Cons x xs)
  from repair_step [OF Cons.prems(2), of V x "snd w"] obtain r' where
    r': "publicationState (fst (pub_step V x w)) = Repair r'"
    and nx: "repair_next x r (snd w) r' (snd (pub_step V x w))"
    by auto
  have "rp_status r' = RepAborted" and "snd (pub_step V x w) = snd w"
    using nx Cons.prems by (auto simp: repair_next_def)
  with Cons.IH [OF _ r'] Cons.prems(1) show ?case by simp
qed

text \<open>An aborted repair publishes nothing while the plan is not run again: no operation other than a
  \<open>--from\<close> rerun changes a file or the aborted status.\<close>

lemma aborted_repair_publishes_nothing:
  assumes "publicationState (fst w) = Repair r" and "rp_status r = RepAborted"
    and "list_all (\<lambda>x. x \<noteq> Rerun) xs"
  shows "snd (fold (pub_step V) xs w) = snd w \<and>
    (\<exists>r'. publicationState (fst (fold (pub_step V) xs w)) = Repair r' \<and> rp_status r' = RepAborted)"
  using aborted_run [OF assms(3,1,2)] .

definition demo_aborted :: "string pub_session \<times> script_files" where
  "demo_aborted = pub_step demo_env (CommitAtClose plain_entry False) demo_armed"

lemma demo_aborted_state:
  "publicationState (fst demo_aborted) = Repair (demo_repair\<lparr>rp_status := RepAborted\<rparr>)"
  by code_simp

lemma aborted_repair_publishes_nothing_example:
  "snd (fold (pub_step demo_env) [PlanComplete, CommitAtClose plain_entry False, Teardown False] demo_aborted) =
   snd demo_aborted"
  using aborted_repair_publishes_nothing [OF demo_aborted_state,
      of "[PlanComplete, CommitAtClose plain_entry False, Teardown False]" demo_env]
  by simp

text \<open>The abort is not final: the rerun demotes every repair status to armed, the aborted one too, so
  an aborted transaction can be completed and committed afterwards, and a committed one can be
  committed a second time.\<close>

lemma rerun_revives_terminal_repair:
  "map_of (snd demo_aborted) ''/f.healed.ad'' = None \<and>
   map_of (snd (fold (pub_step demo_env) [Rerun, PlanComplete, CommitAtClose plain_entry False] demo_aborted))
     ''/f.healed.ad'' = Some ''press;close;close;'' \<and>
   (\<forall>w r. publicationState (fst w) = Repair r \<longrightarrow>
      publicationState (fst (pub_step V Rerun w)) = Repair (r\<lparr>rp_status := RepArmed\<rparr>))"
proof (intro conjI allI impI)
  show "map_of (snd demo_aborted) ''/f.healed.ad'' = None"
    by code_simp
  show "map_of (snd (fold (pub_step demo_env) [Rerun, PlanComplete, CommitAtClose plain_entry False] demo_aborted))
     ''/f.healed.ad'' = Some ''press;close;close;''"
    by code_simp
next
  fix w :: "'a pub_session \<times> script_files" and r
  assume "publicationState (fst w) = Repair r"
  then show "publicationState (fst (pub_step V Rerun w)) = Repair (r\<lparr>rp_status := RepArmed\<rparr>)"
    by (cases w) (simp add: repairSessionBoundary_def resetRepairCompletionForRerun_def)
qed

lemma rerun_revives_terminal_repair_example:
  "publicationState (fst (pub_step demo_env Rerun demo_aborted)) = Repair demo_repair"
proof -
  have "publicationState (fst (pub_step demo_env Rerun demo_aborted)) =
      Repair (demo_repair\<lparr>rp_status := RepAborted, rp_status := RepArmed\<rparr>)"
    using rerun_revives_terminal_repair [of demo_env] demo_aborted_state by blast
  then show ?thesis by (simp add: demo_repair_def)
qed

text \<open>The receipt of a successful platform close survives everything but the end of the transaction:
  as long as no state on the way is committed or aborted and no other close is recorded, the retry
  of the same close still finds its receipt and does not dispatch the close again.\<close>

lemma close_receipt_survives:
  assumes "publicationState (fst w) = Repair r" and "rp_closeReceipt r = Some receipt"
    and "list_all (\<lambda>x. \<forall>other. x = PlatformClosed other \<longrightarrow> other = receipt) xs"
    and "\<forall>n \<le> length xs. \<forall>r'. publicationState (fst (fold (pub_step V) (take n xs) w)) = Repair r' \<longrightarrow>
      rp_status r' \<notin> {RepCommitted, RepAborted}"
  shows "hasRepairPlatformCloseReceipt (fst (fold (pub_step V) xs w)) receipt"
  using assms
proof (induction xs arbitrary: w r)
  case Nil
  then show ?case by (simp add: hasRepairPlatformCloseReceipt_def)
next
  case (Cons x xs)
  from repair_step [OF Cons.prems(1), of V x "snd w"] obtain r' where
    r': "publicationState (fst (pub_step V x w)) = Repair r'"
    and nx: "repair_next x r (snd w) r' (snd (pub_step V x w))"
    by auto
  have "rp_status r' \<notin> {RepCommitted, RepAborted}"
    using Cons.prems(4) [rule_format, of 1 r'] r' by simp
  then have "rp_closeReceipt r' = Some receipt"
    using nx Cons.prems(2,3) by (auto simp: repair_next_def)
  moreover have "\<forall>n \<le> length xs. \<forall>r'. publicationState (fst (fold (pub_step V) (take n xs) (pub_step V x w))) =
      Repair r' \<longrightarrow> rp_status r' \<notin> {RepCommitted, RepAborted}"
  proof (intro allI impI)
    fix n r2
    assume "n \<le> length xs"
      and "publicationState (fst (fold (pub_step V) (take n xs) (pub_step V x w))) = Repair r2"
    then show "rp_status r2 \<notin> {RepCommitted, RepAborted}"
      using Cons.prems(4) [rule_format, of "Suc n" r2] by simp
  qed
  ultimately show ?case
    using Cons.IH [OF r'] Cons.prems(3) by simp
qed

text \<open>A commit that fails at close can be retried: the transaction keeps its status, boundary, source
  and receipt, the synthetic close action is removed again, and no file changed.\<close>

lemma failed_commit_keeps_transaction:
  assumes "publicationState s = Repair r"
    and "commitRepairScriptBeforeClose V entry fault (s, f) = (CloseFailed e, s', f')"
  shows "f' = f \<and> ps_actions s' = ps_actions s \<and>
    (\<exists>t. publicationState s' = Repair (r\<lparr>rp_target := t\<rparr>))"
  using assms(1)
proof (cases rule: commit_cases [where V = V and entry = entry and fault = fault and f = f])
  case (failed e2 s2 t)
  with assms(2) show ?thesis by auto
qed (use assms(2) in simp_all)

definition demo_blocked :: "string pub_session \<times> script_files" where
  "demo_blocked = pub_step demo_env (ArmStep (SavePath ''/taken.ad'') False ''/f.ad'' ''/f.healed.ad'' False)
     demo_complete"

lemma failed_commit_keeps_transaction_example:
  "ps_actions (fst (snd (commitRepairScriptBeforeClose demo_env plain_entry False demo_blocked))) =
     ps_actions (fst demo_blocked) \<and>
   snd (snd (commitRepairScriptBeforeClose demo_env plain_entry False demo_blocked)) = snd demo_blocked"
proof -
  let ?c = "commitRepairScriptBeforeClose demo_env plain_entry False demo_blocked"
  obtain r where r: "publicationState (fst demo_blocked) = Repair r"
    using repair_at [OF demo_armed_state, of demo_env "[PlanComplete, PlatformClosed ''[]'',
        ArmStep (SavePath ''/taken.ad'') False ''/f.ad'' ''/f.healed.ad'' False]"]
    unfolding demo_blocked_def demo_complete_def by auto
  have "fst ?c = CloseFailed (Raised (AppFailure ''A file already exists''))" by code_simp
  then have "commitRepairScriptBeforeClose demo_env plain_entry False (fst demo_blocked, snd demo_blocked) =
      (CloseFailed (Raised (AppFailure ''A file already exists'')), fst (snd ?c), snd (snd ?c))"
    by (simp add: prod_eq_iff)
  from failed_commit_keeps_transaction [OF r this] show ?thesis by simp
qed

lemma close_receipt_survives_example:
  "hasRepairPlatformCloseReceipt (fst (fold (pub_step demo_env)
     [CommitAtClose plain_entry True, Rerun, PlanComplete] demo_complete)) ''[]''"
proof -
  let ?xs = "[CommitAtClose plain_entry True, Rerun, PlanComplete] :: string pub_op list"
  obtain r where r: "publicationState (fst demo_complete) = Repair r"
    using repair_at [OF demo_armed_state] unfolding demo_complete_def by blast
  have "hasRepairPlatformCloseReceipt (fst demo_complete) ''[]''" by code_simp
  with r have receipt: "rp_closeReceipt r = Some ''[]''" by (simp add: hasRepairPlatformCloseReceipt_def)
  let ?ok = "\<lambda>w. case publicationState (fst w) of
      Repair r' \<Rightarrow> rp_status r' \<noteq> RepCommitted \<and> rp_status r' \<noteq> RepAborted | _ \<Rightarrow> True"
  have "list_all (\<lambda>n. ?ok (fold (pub_step demo_env) (take n ?xs) demo_complete)) [0, 1, 2, 3]"
    by code_simp
  then have ok: "?ok (fold (pub_step demo_env) (take n ?xs) demo_complete)" if "n \<le> length ?xs" for n
  proof -
    assume all: "list_all (\<lambda>n. ?ok (fold (pub_step demo_env) (take n ?xs) demo_complete)) [0, 1, 2, 3]"
    have "n \<in> set [0, 1, 2, 3]" using that by auto
    with all show ?thesis unfolding list_all_iff by blast
  qed
  have "rp_status r' \<notin> {RepCommitted, RepAborted}"
    if "n \<le> length ?xs" and "publicationState (fst (fold (pub_step demo_env) (take n ?xs) demo_complete)) = Repair r'"
    for n r'
    using ok [OF that(1)] unfolding that(2) by simp
  then show ?thesis
    by (intro close_receipt_survives [OF r receipt]) auto
qed

end
