(* ===== verification/Devices.thy ===== *)
theory Devices
  imports Prelude
begin

text \<open>
  Devices and their selection: \<^verbatim>\<open>packages/kernel/src/device.ts\<close>.

  One datatype holds the platform strings of the internal platforms, of the public leaves and of the
  selectors; a device carries an internal platform, or a legacy leaf (\<open>ios\<close>, \<open>macos\<close>) in old records.
  The collation of names (\<open>localeCompare\<close>) is an argument, so what is proved holds for every locale.
\<close>

section \<open>Platforms and devices\<close>

datatype platform = PApple | PAndroid | PVega | PLinux | PWeb | PIos | PMacos

datatype apple_os = OsIos | OsIpados | OsTvos | OsWatchos | OsVisionos | OsMacos

datatype device_kind = Simulator | Emulator | PhysicalDevice

datatype device_target = Mobile | Tv | Desktop

datatype ios_backend = Coredevice | XctestBackend

record device_info =
  dv_platform :: platform
  dv_id :: string
  dv_name :: string
  dv_kind :: device_kind
  dv_target :: "device_target option"
  dv_appleOs :: "apple_os option"
  dv_booted :: "bool option"
  dv_simulatorSetPath :: "string option"
  dv_iosPhysicalDeviceBackend :: "ios_backend option"

record device_selector =
  sl_platform :: "platform option"
  sl_target :: "device_target option"
  sl_deviceName :: "string option"
  sl_udid :: "string option"
  sl_serial :: "string option"

record device_selection_context =
  cx_simulatorSetPath :: "string option"
  cx_allowStoppedAndroidAvdPlaceholders :: bool

datatype device_error =
    NoAppleDevice string
  | NoSerialDevice "platform option" string
  | NoDeviceNamed string
  | NoDevicesInSet string
  | NoDevicesFound

definition PLATFORMS :: "platform list" where
  "PLATFORMS = [PApple, PAndroid, PVega, PLinux, PWeb]"

definition PUBLIC_PLATFORMS :: "platform list" where
  "PUBLIC_PLATFORMS = [PIos, PMacos, PAndroid, PVega, PLinux, PWeb]"

definition isPlatform :: "platform \<Rightarrow> bool" where
  "isPlatform p \<longleftrightarrow> p \<in> set PLATFORMS"

definition isPublicPlatform :: "platform \<Rightarrow> bool" where
  "isPublicPlatform p \<longleftrightarrow> p \<in> set PUBLIC_PLATFORMS"

definition isApplePlatform :: "platform option \<Rightarrow> bool" where
  "isApplePlatform p \<longleftrightarrow> p = Some PApple \<or> p = Some PIos \<or> p = Some PMacos"

definition isMacOs :: "device_info \<Rightarrow> bool" where
  "isMacOs d \<longleftrightarrow> dv_appleOs d = Some OsMacos \<or> dv_platform d = PMacos"

definition isIosFamily :: "device_info \<Rightarrow> bool" where
  "isIosFamily d \<longleftrightarrow> isApplePlatform (Some (dv_platform d)) \<and> \<not> isMacOs d"

definition isMobilePlatform :: "device_info \<Rightarrow> bool" where
  "isMobilePlatform d \<longleftrightarrow>
     dv_platform d = PAndroid \<or> (isApplePlatform (Some (dv_platform d)) \<and> \<not> isMacOs d)"

definition publicPlatformString :: "device_info \<Rightarrow> platform" where
  "publicPlatformString d =
     (if \<not> isApplePlatform (Some (dv_platform d)) then dv_platform d
      else if isMacOs d then PMacos else PIos)"

definition deviceFieldsFromPublicPlatform :: "platform \<Rightarrow> platform \<times> apple_os option" where
  "deviceFieldsFromPublicPlatform p =
     (if p = PMacos then (PApple, Some OsMacos) else if p = PIos then (PApple, None) else (p, None))"

definition isTvOsDevice :: "device_info \<Rightarrow> bool" where
  "isTvOsDevice d \<longleftrightarrow> isApplePlatform (Some (dv_platform d)) \<and> dv_target d = Some Tv"

definition resolveDeviceAppleOs :: "device_info \<Rightarrow> apple_os" where
  "resolveDeviceAppleOs d =
     (case dv_appleOs d of
        Some os \<Rightarrow> os
      | None \<Rightarrow> if dv_platform d = PMacos then OsMacos else if isTvOsDevice d then OsTvos else OsIos)"

definition matchesPlatformSelector :: "device_info \<Rightarrow> platform option \<Rightarrow> bool" where
  "matchesPlatformSelector d selector =
     (case selector of
        None \<Rightarrow> True
      | Some p \<Rightarrow>
          if p = PApple then isApplePlatform (Some (dv_platform d))
          else if p = PIos then isApplePlatform (Some (dv_platform d)) \<and> \<not> isMacOs d
          else if p = PMacos then isApplePlatform (Some (dv_platform d)) \<and> isMacOs d
          else dv_platform d = p)"

definition supportsAppleSimulatorSelection :: "platform option \<Rightarrow> bool" where
  "supportsAppleSimulatorSelection p \<longleftrightarrow> p = None \<or> p = Some PApple \<or> p = Some PIos"

definition resolveAppleSimulatorSetPathForSelector ::
    "string option \<Rightarrow> platform option \<Rightarrow> device_target option \<Rightarrow> string option" where
  "resolveAppleSimulatorSetPathForSelector path p target =
     (if \<not> truthy path then None
      else if p = Some PMacos \<or> target = Some Desktop then None
      else path)"

definition isSerialAddressablePlatform :: "platform \<Rightarrow> bool" where
  "isSerialAddressablePlatform p \<longleftrightarrow> p = PAndroid \<or> p = PVega"

section \<open>Names\<close>

text \<open>\<open>replace(/_/g, ' ')\<close>.\<close>

definition normalizeDeviceName :: "string \<Rightarrow> string" where
  "normalizeDeviceName value =
     js_trim (collapse_spaces (map (\<lambda>c. if c = CHR ''_'' then CHR '' '' else c) (js_lower value)))"

definition is_word_char :: "char \<Rightarrow> bool" where
  "is_word_char c \<longleftrightarrow> is_letter_char c \<or> is_digit_char c \<or> c = CHR ''_''"

text \<open>\<open>/\bipad\b/i\<close>: \<open>before\<close> tells whether the character before the rest is a word character.\<close>

fun has_ipad_word :: "bool \<Rightarrow> string \<Rightarrow> bool" where
  "has_ipad_word before [] = False"
| "has_ipad_word before (c # s) =
     ((\<not> before \<and> js_lower (take 4 (c # s)) = ''ipad'' \<and>
       (case drop 4 (c # s) of [] \<Rightarrow> True | d # _ \<Rightarrow> \<not> is_word_char d)) \<or>
      has_ipad_word (is_word_char c) s)"

definition isIpadDeviceName :: "string \<Rightarrow> bool" where
  "isIpadDeviceName name = has_ipad_word False name"

text \<open>\<open>/^emulator-\d+$/\<close>.\<close>

definition is_emulator_serial :: "string \<Rightarrow> bool" where
  "is_emulator_serial s \<longleftrightarrow>
     take 9 s = ''emulator-'' \<and> drop 9 s \<noteq> [] \<and> list_all is_digit_char (drop 9 s)"

definition isStoppedAndroidAvdPlaceholder :: "device_info \<Rightarrow> bool" where
  "isStoppedAndroidAvdPlaceholder d \<longleftrightarrow>
     dv_platform d = PAndroid \<and> dv_kind d = Emulator \<and> dv_booted d = Some False \<and>
     \<not> is_emulator_serial (dv_id d)"

section \<open>Selectors\<close>

definition matchesExplicitDeviceSelector :: "device_info \<Rightarrow> device_selector \<Rightarrow> bool" where
  "matchesExplicitDeviceSelector d sel =
     (if truthy (sl_udid sel) \<and> \<not> (Some (dv_id d) = sl_udid sel \<and> isApplePlatform (Some (dv_platform d)))
      then False
      else if truthy (sl_serial sel) \<and>
              \<not> (Some (dv_id d) = sl_serial sel \<and> isSerialAddressablePlatform (dv_platform d))
      then False
      else if truthy (sl_deviceName sel) \<and>
              normalizeDeviceName (dv_name d) \<noteq> normalizeDeviceName (the (sl_deviceName sel))
      then False
      else True)"

definition device_target_of :: "device_info \<Rightarrow> device_target" where
  "device_target_of d = (case dv_target d of None \<Rightarrow> Mobile | Some t \<Rightarrow> t)"

definition matchesDeviceSelector :: "device_info \<Rightarrow> device_selector \<Rightarrow> bool \<Rightarrow> bool" where
  "matchesDeviceSelector d sel includeExplicitSelectors \<longleftrightarrow>
     matchesPlatformSelector d (sl_platform sel) \<and>
     (case sl_target sel of None \<Rightarrow> True | Some t \<Rightarrow> device_target_of d = t) \<and>
     (\<not> includeExplicitSelectors \<or> matchesExplicitDeviceSelector d sel)"

section \<open>Ranking Apple devices\<close>

definition appleTargetSelectionRank :: "device_info \<Rightarrow> int \<Rightarrow> int \<Rightarrow> int \<Rightarrow> int \<Rightarrow> int" where
  "appleTargetSelectionRank d phoneRank ipadRank tvRank fallbackRank =
     (case device_target_of d of
        Mobile \<Rightarrow> if isIpadDeviceName (dv_name d) then ipadRank else phoneRank
      | Tv \<Rightarrow> tvRank
      | Desktop \<Rightarrow> fallbackRank)"

definition appleDeviceSelectionRank :: "device_info \<Rightarrow> int" where
  "appleDeviceSelectionRank d =
     (if dv_kind d = Simulator then appleTargetSelectionRank d 0 1 2 3
      else if dv_kind d = PhysicalDevice \<and> isApplePlatform (Some (dv_platform d)) \<and> \<not> isMacOs d
      then appleTargetSelectionRank d 10 11 12 13
      else 14)"

definition booted_number :: "device_info \<Rightarrow> int" where
  "booted_number d = (if dv_booted d = Some True then 1 else 0)"

definition compareAppleDevicesForSelection ::
    "(string \<Rightarrow> string \<Rightarrow> int) \<Rightarrow> device_info \<times> nat \<Rightarrow> device_info \<times> nat \<Rightarrow> int" where
  "compareAppleDevicesForSelection collate left right =
     (let byRank = appleDeviceSelectionRank (fst left) - appleDeviceSelectionRank (fst right);
          byBoot = booted_number (fst right) - booted_number (fst left);
          byName = collate (dv_name (fst left)) (dv_name (fst right))
      in if byRank \<noteq> 0 then byRank
         else if byBoot \<noteq> 0 then byBoot
         else if byName \<noteq> 0 then byName
         else int (snd left) - int (snd right))"

text \<open>\<open>sort\<close> with a comparator: a stable insertion sort.\<close>

fun insert_by :: "('a \<Rightarrow> 'a \<Rightarrow> int) \<Rightarrow> 'a \<Rightarrow> 'a list \<Rightarrow> 'a list" where
  "insert_by cmp x [] = [x]"
| "insert_by cmp x (y # ys) = (if cmp x y \<le> 0 then x # y # ys else y # insert_by cmp x ys)"

definition js_sort :: "('a \<Rightarrow> 'a \<Rightarrow> int) \<Rightarrow> 'a list \<Rightarrow> 'a list" where
  "js_sort cmp xs = foldr (insert_by cmp) xs []"

definition sortAppleDevicesForSelection ::
    "(string \<Rightarrow> string \<Rightarrow> int) \<Rightarrow> device_info list \<Rightarrow> device_info list" where
  "sortAppleDevicesForSelection collate devices =
     map fst (js_sort (compareAppleDevicesForSelection collate) (zip devices [0..<length devices]))"

definition isAppleDeviceCandidateSet :: "device_info list \<Rightarrow> bool" where
  "isAppleDeviceCandidateSet devices \<longleftrightarrow>
     length devices > 0 \<and> list_all (\<lambda>d. isApplePlatform (Some (dv_platform d))) devices"

section \<open>Resolution\<close>

definition throwNoDevicesFound :: "device_selector \<Rightarrow> device_selection_context \<Rightarrow> device_error" where
  "throwNoDevicesFound sel ctx =
     (if truthy (cx_simulatorSetPath ctx) \<and> supportsAppleSimulatorSelection (sl_platform sel)
      then NoDevicesInSet (the (cx_simulatorSetPath ctx))
      else NoDevicesFound)"

text \<open>The choice among the candidates left when no explicit selector names one.\<close>

definition chooseFrom :: "device_info list \<Rightarrow> device_info option" where
  "chooseFrom candidates =
     (if length candidates = 1 then Some (hd candidates)
      else if length candidates = 0 then None
      else
        let virtual = filter (\<lambda>d. dv_kind d \<noteq> PhysicalDevice) candidates;
            selectable = (if length virtual > 0 then virtual else candidates);
            booted = filter (\<lambda>d. dv_booted d = Some True) selectable
        in if length booted = 1 \<and> \<not> isAppleDeviceCandidateSet selectable then Some (hd booted)
           else if isAppleDeviceCandidateSet selectable then Some (hd selectable)
           else Some (if booted \<noteq> [] then hd booted else hd selectable))"

definition chooseCandidate ::
    "(string \<Rightarrow> string \<Rightarrow> int) \<Rightarrow> device_info list \<Rightarrow> device_info option" where
  "chooseCandidate collate candidates =
     chooseFrom (if isAppleDeviceCandidateSet candidates
                 then sortAppleDevicesForSelection collate candidates else candidates)"

definition resolveDevice ::
    "(string \<Rightarrow> string \<Rightarrow> int) \<Rightarrow> device_info list \<Rightarrow> device_selector \<Rightarrow> device_selection_context \<Rightarrow>
     device_error + device_info" where
  "resolveDevice collate devices sel ctx =
     (let candidates = filter (\<lambda>d. matchesDeviceSelector d sel False) devices
      in if truthy (sl_udid sel)
         then (case find (\<lambda>d. Some (dv_id d) = sl_udid sel \<and> isApplePlatform (Some (dv_platform d))) candidates of
                 None \<Rightarrow> Inl (NoAppleDevice (the (sl_udid sel)))
               | Some d \<Rightarrow> Inr d)
         else if truthy (sl_serial sel)
         then (case find (\<lambda>d. Some (dv_id d) = sl_serial sel \<and> isSerialAddressablePlatform (dv_platform d)) candidates of
                 None \<Rightarrow> Inl (NoSerialDevice (sl_platform sel) (the (sl_serial sel)))
               | Some d \<Rightarrow> Inr d)
         else
           let live = (if \<not> cx_allowStoppedAndroidAvdPlaceholders ctx
                       then filter (\<lambda>d. \<not> isStoppedAndroidAvdPlaceholder d) candidates else candidates)
           in if truthy (sl_deviceName sel)
              then (case find (\<lambda>d. normalizeDeviceName (dv_name d) = normalizeDeviceName (the (sl_deviceName sel))) live of
                      None \<Rightarrow> Inl (NoDeviceNamed (the (sl_deviceName sel)))
                    | Some d \<Rightarrow> Inr d)
              else (case chooseCandidate collate live of
                      None \<Rightarrow> Inl (throwNoDevicesFound sel ctx)
                    | Some d \<Rightarrow> Inr d))"


section \<open>Sorting\<close>

lemma set_insert_by [simp]: "set (insert_by cmp x ys) = insert x (set ys)"
  by (induction ys) auto

lemma set_js_sort [simp]: "set (js_sort cmp xs) = set xs"
  by (induction xs) (simp_all add: js_sort_def)

lemma length_insert_by [simp]: "length (insert_by cmp x ys) = Suc (length ys)"
  by (induction ys) auto

lemma length_js_sort [simp]: "length (js_sort cmp xs) = length xs"
  by (induction xs) (simp_all add: js_sort_def)

definition comparator :: "('a \<Rightarrow> 'a \<Rightarrow> int) \<Rightarrow> bool" where
  "comparator cmp \<longleftrightarrow> (\<forall>x y. 0 < cmp x y \<longleftrightarrow> cmp y x < 0) \<and>
     (\<forall>x y z. cmp x y \<le> 0 \<longrightarrow> cmp y z \<le> 0 \<longrightarrow> cmp x z \<le> 0)"

lemma comparator_swap: "comparator cmp \<Longrightarrow> 0 < cmp x y \<longleftrightarrow> cmp y x < 0"
  by (simp add: comparator_def)

lemma comparator_trans: "comparator cmp \<Longrightarrow> cmp x y \<le> 0 \<Longrightarrow> cmp y z \<le> 0 \<Longrightarrow> cmp x z \<le> 0"
  unfolding comparator_def by blast

lemma comparator_eq: "comparator cmp \<Longrightarrow> cmp x y = 0 \<longleftrightarrow> cmp y x = 0"
  using comparator_swap [of cmp x y] comparator_swap [of cmp y x] by linarith

lemma sorted_insert_by:
  assumes "comparator cmp" and "sorted_wrt (\<lambda>x y. cmp x y \<le> 0) ys"
  shows "sorted_wrt (\<lambda>x y. cmp x y \<le> 0) (insert_by cmp x ys)"
  using assms(2)
proof (induction ys)
  case Nil
  then show ?case by simp
next
  case (Cons y ys)
  show ?case
  proof (cases "cmp x y \<le> 0")
    case True
    with Cons.prems show ?thesis by (auto intro: comparator_trans [OF assms(1)])
  next
    case False
    then have "cmp y x \<le> 0" using comparator_swap [OF assms(1), of x y] by simp
    with False Cons show ?thesis by simp
  qed
qed

lemma sorted_js_sort: "comparator cmp \<Longrightarrow> sorted_wrt (\<lambda>x y. cmp x y \<le> 0) (js_sort cmp xs)"
  by (induction xs) (simp_all add: js_sort_def sorted_insert_by)

text \<open>A comparison by a number, and a comparison refined by another one.\<close>

lemma comparator_number: "comparator (\<lambda>x y. (f x :: int) - f y)"
  by (auto simp: comparator_def)

lemma comparator_then:
  assumes "comparator cmp" and "comparator cmp'"
  shows "comparator (\<lambda>x y. if cmp x y \<noteq> 0 then cmp x y else cmp' x y)"
proof -
  have strict: "cmp x z < 0" if "cmp x y < 0" "cmp y z \<le> 0" for x y z
  proof (rule ccontr)
    assume "\<not> cmp x z < 0"
    then have "cmp z x \<le> 0" using comparator_swap [OF assms(1), of z x] by simp
    with that(2) have "cmp y x \<le> 0" by (rule comparator_trans [OF assms(1)])
    with that(1) comparator_swap [OF assms(1), of y x] show False by simp
  qed
  have strict': "cmp x z < 0" if "cmp x y \<le> 0" "cmp y z < 0" for x y z
  proof (rule ccontr)
    assume "\<not> cmp x z < 0"
    then have "cmp z x \<le> 0" using comparator_swap [OF assms(1), of z x] by simp
    with that(1) have "cmp z y \<le> 0" by (intro comparator_trans [OF assms(1), of z x y])
    with that(2) comparator_swap [OF assms(1), of z y] show False by simp
  qed
  have "0 < (if cmp x y \<noteq> 0 then cmp x y else cmp' x y) \<longleftrightarrow>
      (if cmp y x \<noteq> 0 then cmp y x else cmp' y x) < 0" for x y
    using comparator_swap [OF assms(1), of x y] comparator_swap [OF assms(2), of x y]
      comparator_eq [OF assms(1), of x y] by simp
  moreover have "(if cmp x z \<noteq> 0 then cmp x z else cmp' x z) \<le> 0"
    if le: "(if cmp x y \<noteq> 0 then cmp x y else cmp' x y) \<le> 0" "(if cmp y z \<noteq> 0 then cmp y z else cmp' y z) \<le> 0"
    for x y z
  proof -
    consider "cmp x y < 0" "cmp y z \<le> 0" | "cmp x y = 0" "cmp y z < 0" | "cmp x y = 0" "cmp y z = 0"
      using le by (cases "cmp x y = 0"; cases "cmp y z = 0") simp_all
    then show ?thesis
    proof cases
      case 1
      from strict [OF this] show ?thesis by simp
    next
      case 2
      then have "cmp x z < 0" by (intro strict' [of x y z]) simp_all
      then show ?thesis by simp
    next
      case 3
      then have "cmp' x z \<le> 0"
        using le comparator_trans [OF assms(2), of x y z] by simp
      moreover have "cmp x z \<le> 0" using 3 by (intro comparator_trans [OF assms(1), of x y z]) simp_all
      ultimately show ?thesis by simp
    qed
  qed
  ultimately show ?thesis unfolding comparator_def by blast
qed

lemma comparator_on: "comparator cmp \<Longrightarrow> comparator (\<lambda>x y. cmp (f x) (f y))"
  unfolding comparator_def by blast

lemma apple_comparator:
  assumes "comparator collate"
  shows "comparator (compareAppleDevicesForSelection collate)"
proof -
  have names: "comparator (\<lambda>l r. collate (dv_name (fst l)) (dv_name (fst r)))" (is "comparator ?names")
    using comparator_on [OF assms, of "\<lambda>l. dv_name (fst l)"] .
  have "comparator (\<lambda>l r. int (snd l) - int (snd r))" (is "comparator ?index")
    by (rule comparator_number)
  note tail = comparator_then [OF names this]
  have boot: "comparator (\<lambda>l r. - booted_number (fst l) - - booted_number (fst r))" (is "comparator ?boot")
    by (rule comparator_number)
  have rank: "comparator (\<lambda>l r. appleDeviceSelectionRank (fst l) - appleDeviceSelectionRank (fst r))"
    by (rule comparator_number)
  have "compareAppleDevicesForSelection collate =
      (\<lambda>x y. if appleDeviceSelectionRank (fst x) - appleDeviceSelectionRank (fst y) \<noteq> 0
        then appleDeviceSelectionRank (fst x) - appleDeviceSelectionRank (fst y)
        else if - booted_number (fst x) - - booted_number (fst y) \<noteq> 0
        then - booted_number (fst x) - - booted_number (fst y)
        else if ?names x y \<noteq> 0 then ?names x y else ?index x y)"
    by (intro ext) (simp add: compareAppleDevicesForSelection_def Let_def)
  then show ?thesis
    using comparator_then [OF rank comparator_then [OF boot tail]] by simp
qed


section \<open>The choice\<close>

lemma sortApple_nth:
  assumes "comparator collate"
  shows "sorted_wrt (\<lambda>d e. appleDeviceSelectionRank d < appleDeviceSelectionRank e \<or>
      appleDeviceSelectionRank d = appleDeviceSelectionRank e \<and> booted_number e \<le> booted_number d)
    (sortAppleDevicesForSelection collate ds)"
proof -
  let ?R = "\<lambda>d e. appleDeviceSelectionRank d < appleDeviceSelectionRank e \<or>
      appleDeviceSelectionRank d = appleDeviceSelectionRank e \<and> booted_number e \<le> booted_number d"
  have "?R (fst x) (fst y)" if "compareAppleDevicesForSelection collate x y \<le> 0" for x y
    using that by (auto simp: compareAppleDevicesForSelection_def Let_def split: if_splits)
  with sorted_js_sort [OF apple_comparator [OF assms], of "zip ds [0..<length ds]"]
  have "sorted_wrt (\<lambda>x y. ?R (fst x) (fst y)) (js_sort (compareAppleDevicesForSelection collate) (zip ds [0..<length ds]))"
    by (rule sorted_wrt_mono_rel [rotated]) blast
  then show ?thesis
    by (simp add: sortAppleDevicesForSelection_def sorted_wrt_map)
qed

lemma set_sortApple [simp]: "set (sortAppleDevicesForSelection collate ds) = set ds"
proof -
  have "map fst (zip ds [0..<length ds]) = ds" by simp
  then have "set (map fst (zip ds [0..<length ds])) = set ds" by (rule arg_cong)
  then show ?thesis
    unfolding sortAppleDevicesForSelection_def set_map set_js_sort .
qed

lemma length_sortApple [simp]: "length (sortAppleDevicesForSelection collate ds) = length ds"
  by (simp add: sortAppleDevicesForSelection_def)

lemma apple_set_cong: "set ds = set es \<Longrightarrow> isAppleDeviceCandidateSet ds = isAppleDeviceCandidateSet es"
  by (auto simp: isAppleDeviceCandidateSet_def list_all_iff)

abbreviation virtual_device :: "device_info \<Rightarrow> bool" where
  "virtual_device d \<equiv> dv_kind d \<noteq> PhysicalDevice"

text \<open>The pool the choice is made from: the virtual devices, or all of them when none is virtual.\<close>

definition selectable_from :: "device_info list \<Rightarrow> device_info list" where
  "selectable_from ds = (if filter virtual_device ds \<noteq> [] then filter virtual_device ds else ds)"

lemma set_selectable_cong: "set ds = set es \<Longrightarrow> set (selectable_from ds) = set (selectable_from es)"
  by (auto simp: selectable_from_def filter_empty_conv)

lemma selectable_nonempty: "ds \<noteq> [] \<Longrightarrow> selectable_from ds \<noteq> []"
  by (simp add: selectable_from_def)

lemma chooseFrom_pool:
  assumes "cs \<noteq> []"
  shows "chooseFrom cs =
    Some (if isAppleDeviceCandidateSet (selectable_from cs) then hd (selectable_from cs)
          else if filter (\<lambda>d. dv_booted d = Some True) (selectable_from cs) \<noteq> []
          then hd (filter (\<lambda>d. dv_booted d = Some True) (selectable_from cs))
          else hd (selectable_from cs))"
proof (cases "length cs = 1")
  case True
  then obtain c where "cs = [c]" by (auto simp: length_Suc_conv)
  then show ?thesis by (simp add: chooseFrom_def selectable_from_def)
next
  case False
  define pool where "pool = selectable_from cs"
  define booted where "booted = filter (\<lambda>d. dv_booted d = Some True) pool"
  have "chooseFrom cs =
      (if length booted = 1 \<and> \<not> isAppleDeviceCandidateSet pool then Some (hd booted)
       else if isAppleDeviceCandidateSet pool then Some (hd pool)
       else Some (if booted \<noteq> [] then hd booted else hd pool))"
    using False assms by (simp add: chooseFrom_def Let_def pool_def booted_def selectable_from_def)
  also have "\<dots> = Some (if isAppleDeviceCandidateSet pool then hd pool
      else if booted \<noteq> [] then hd booted else hd pool)"
    by (cases booted) simp_all
  finally show ?thesis by (simp only: pool_def booted_def)
qed

lemma chooseFrom_member:
  assumes "chooseFrom cs = Some d"
  shows "d \<in> set (selectable_from cs)"
    and "\<not> isAppleDeviceCandidateSet (selectable_from cs) \<Longrightarrow> e \<in> set (selectable_from cs) \<Longrightarrow>
      dv_booted e = Some True \<Longrightarrow> dv_booted d = Some True"
proof -
  define pool where "pool = selectable_from cs"
  define booted where "booted = filter (\<lambda>d. dv_booted d = Some True) pool"
  have ne: "cs \<noteq> []" using assms by (auto simp: chooseFrom_def)
  then have pool: "pool \<noteq> []" by (simp add: pool_def selectable_nonempty)
  have d: "d = (if isAppleDeviceCandidateSet pool then hd pool else if booted \<noteq> [] then hd booted else hd pool)"
    using assms chooseFrom_pool [OF ne] by (simp only: option.inject pool_def booted_def)
  have sub: "booted \<noteq> [] \<Longrightarrow> hd booted \<in> set pool \<and> dv_booted (hd booted) = Some True"
    using hd_in_set [of booted] by (simp add: booted_def)
  show "d \<in> set (selectable_from cs)"
    using d sub pool by (simp add: pool_def [symmetric])
  show "dv_booted d = Some True"
    if "\<not> isAppleDeviceCandidateSet (selectable_from cs)" "e \<in> set (selectable_from cs)" "dv_booted e = Some True"
  proof -
    from that(2,3) have "booted \<noteq> []" by (auto simp: booted_def pool_def filter_empty_conv)
    with d sub that(1) show ?thesis by (simp add: pool_def)
  qed
qed

text \<open>A device that the selector and the context admit.\<close>

definition answers :: "device_selector \<Rightarrow> device_selection_context \<Rightarrow> device_info \<Rightarrow> bool" where
  "answers sel ctx d \<longleftrightarrow> matchesDeviceSelector d sel False \<and>
     (if truthy (sl_udid sel) then Some (dv_id d) = sl_udid sel \<and> isApplePlatform (Some (dv_platform d))
      else if truthy (sl_serial sel) then Some (dv_id d) = sl_serial sel \<and> isSerialAddressablePlatform (dv_platform d)
      else (cx_allowStoppedAndroidAvdPlaceholders ctx \<or> \<not> isStoppedAndroidAvdPlaceholder d) \<and>
           (truthy (sl_deviceName sel) \<longrightarrow>
              normalizeDeviceName (dv_name d) = normalizeDeviceName (the (sl_deviceName sel))))"

lemma chooseFrom_None: "chooseFrom cs = None \<longleftrightarrow> cs = []"
proof (cases "cs = []")
  case True
  then show ?thesis by (simp add: chooseFrom_def)
next
  case False
  then show ?thesis by (simp add: chooseFrom_pool)
qed

lemma choose_None: "chooseCandidate collate ds = None \<longleftrightarrow> ds = []"
  unfolding chooseCandidate_def chooseFrom_None by (metis length_0_conv length_sortApple)

lemma choose_pool_set:
  "set (selectable_from (if b then sortAppleDevicesForSelection collate ds else ds)) = set (selectable_from ds)"
  by (rule set_selectable_cong) simp

lemma choose_member:
  assumes "chooseCandidate collate ds = Some d"
  shows "d \<in> set (selectable_from ds)"
    and "\<not> isAppleDeviceCandidateSet (selectable_from ds) \<Longrightarrow> e \<in> set (selectable_from ds) \<Longrightarrow>
      dv_booted e = Some True \<Longrightarrow> dv_booted d = Some True"
  using chooseFrom_member [OF assms [unfolded chooseCandidate_def]]
  unfolding choose_pool_set apple_set_cong [OF choose_pool_set] .

lemma choose_apple_best:
  assumes "comparator collate" and "isAppleDeviceCandidateSet ds"
    and d: "chooseCandidate collate ds = Some d" and e: "e \<in> set (selectable_from ds)"
  shows "appleDeviceSelectionRank d < appleDeviceSelectionRank e \<or>
    appleDeviceSelectionRank d = appleDeviceSelectionRank e \<and>
    (dv_booted e = Some True \<longrightarrow> dv_booted d = Some True)"
proof -
  let ?R = "\<lambda>d e. appleDeviceSelectionRank d < appleDeviceSelectionRank e \<or>
      appleDeviceSelectionRank d = appleDeviceSelectionRank e \<and> booted_number e \<le> booted_number d"
  let ?cs = "sortAppleDevicesForSelection collate ds"
  have ne: "ds \<noteq> []" using assms(2) by (auto simp: isAppleDeviceCandidateSet_def)
  have cs: "?cs \<noteq> []" using ne by (metis length_0_conv length_sortApple)
  then have "selectable_from ?cs \<noteq> []" by (rule selectable_nonempty)
  moreover have "set (selectable_from ?cs) \<subseteq> set ds" by (auto simp: selectable_from_def)
  ultimately have "isAppleDeviceCandidateSet (selectable_from ?cs)"
    using assms(2) unfolding isAppleDeviceCandidateSet_def list_all_iff length_greater_0_conv by blast
  moreover note cs
  ultimately have hd: "d = hd (selectable_from ?cs)"
    using d assms(2) by (simp add: chooseCandidate_def chooseFrom_pool)
  have "sorted_wrt ?R (selectable_from ?cs)"
    using sortApple_nth [OF assms(1), of ds] by (simp add: selectable_from_def sorted_wrt_filter)
  moreover have "e \<in> set (selectable_from ?cs)"
    using e set_selectable_cong [of ?cs ds] by simp
  ultimately have "?R d e"
    using hd by (cases "selectable_from ?cs") auto
  then show ?thesis by (auto simp: booted_number_def split: if_splits)
qed

lemma find_answer:
  "case (case find P (filter Q xs) of None \<Rightarrow> Inl e | Some d \<Rightarrow> Inr d) of
     Inr d \<Rightarrow> d \<in> set xs \<and> Q d \<and> P d
   | Inl e \<Rightarrow> filter (\<lambda>d. Q d \<and> P d) xs = []"
proof (cases "find P (filter Q xs)")
  case None
  then have "filter (\<lambda>d. Q d \<and> P d) xs = []" by (auto simp: find_None_iff filter_empty_conv)
  with None show ?thesis by simp
next
  case (Some d)
  then obtain i where "i < length (filter Q xs)" and "P (filter Q xs ! i)" and "d = filter Q xs ! i"
    by (auto simp: find_Some_iff)
  then have "d \<in> set (filter Q xs)" and "P d" by (metis nth_mem, metis)
  with Some show ?thesis by simp
qed

text \<open>C38. Device resolution is sound and complete: it answers with a device of the list that the
  selector and the context admit (the given udid on an Apple device, the given serial on an Android or
  Vega device, otherwise no stopped AVD placeholder unless these are allowed, and the given name), and
  fails only when the list holds none.\<close>

theorem resolveDevice_finds:
  "case resolveDevice collate devices sel ctx of
     Inr d \<Rightarrow> d \<in> set devices \<and> answers sel ctx d
   | Inl e \<Rightarrow> filter (answers sel ctx) devices = []"
proof -
  let ?cands = "filter (\<lambda>d. matchesDeviceSelector d sel False) devices"
  let ?live = "if \<not> cx_allowStoppedAndroidAvdPlaceholders ctx
    then filter (\<lambda>d. \<not> isStoppedAndroidAvdPlaceholder d) ?cands else ?cands"
  consider (udid) "truthy (sl_udid sel)" | (serial) "\<not> truthy (sl_udid sel)" "truthy (sl_serial sel)"
    | (name) "\<not> truthy (sl_udid sel)" "\<not> truthy (sl_serial sel)" "truthy (sl_deviceName sel)"
    | (none) "\<not> truthy (sl_udid sel)" "\<not> truthy (sl_serial sel)" "\<not> truthy (sl_deviceName sel)"
    by blast
  then show ?thesis
  proof cases
    case udid
    have eq: "resolveDevice collate devices sel ctx =
        (case find (\<lambda>d. Some (dv_id d) = sl_udid sel \<and> isApplePlatform (Some (dv_platform d))) ?cands of
           None \<Rightarrow> Inl (NoAppleDevice (the (sl_udid sel))) | Some d \<Rightarrow> Inr d)"
      using udid by (simp add: resolveDevice_def)
    show ?thesis
      using find_answer [where P = "\<lambda>d. Some (dv_id d) = sl_udid sel \<and> isApplePlatform (Some (dv_platform d))"
          and Q = "\<lambda>d. matchesDeviceSelector d sel False" and xs = devices
          and e = "NoAppleDevice (the (sl_udid sel))"] udid
      unfolding eq answers_def by (simp only: if_True)
  next
    case serial
    have eq: "resolveDevice collate devices sel ctx =
        (case find (\<lambda>d. Some (dv_id d) = sl_serial sel \<and> isSerialAddressablePlatform (dv_platform d)) ?cands of
           None \<Rightarrow> Inl (NoSerialDevice (sl_platform sel) (the (sl_serial sel))) | Some d \<Rightarrow> Inr d)"
      using serial by (simp add: resolveDevice_def)
    show ?thesis
      using find_answer [where P = "\<lambda>d. Some (dv_id d) = sl_serial sel \<and> isSerialAddressablePlatform (dv_platform d)"
          and Q = "\<lambda>d. matchesDeviceSelector d sel False" and xs = devices
          and e = "NoSerialDevice (sl_platform sel) (the (sl_serial sel))"] serial
      unfolding eq answers_def by (simp only: if_True if_False)
  next
    case name
    let ?Q = "\<lambda>d. matchesDeviceSelector d sel False \<and>
        (cx_allowStoppedAndroidAvdPlaceholders ctx \<or> \<not> isStoppedAndroidAvdPlaceholder d)"
    let ?P = "\<lambda>d. normalizeDeviceName (dv_name d) = normalizeDeviceName (the (sl_deviceName sel))"
    have live: "?live = filter ?Q devices" by (simp add: conj_commute cong: conj_cong)
    have eq: "resolveDevice collate devices sel ctx =
        (case find ?P (filter ?Q devices) of None \<Rightarrow> Inl (NoDeviceNamed (the (sl_deviceName sel))) | Some d \<Rightarrow> Inr d)"
      using name unfolding live [symmetric] by (simp add: resolveDevice_def Let_def)
    have ans: "answers sel ctx = (\<lambda>d. ?Q d \<and> ?P d)"
      using name by (intro ext) (simp add: answers_def)
    show ?thesis
      using find_answer [where P = ?P and Q = ?Q and xs = devices and e = "NoDeviceNamed (the (sl_deviceName sel))"]
      unfolding eq ans by (simp only: conj_assoc)
  next
    case none
    have live: "set ?live = {d \<in> set devices. answers sel ctx d}"
      using none by (auto simp: answers_def)
    have eq: "resolveDevice collate devices sel ctx =
        (case chooseCandidate collate ?live of None \<Rightarrow> Inl (throwNoDevicesFound sel ctx) | Some d \<Rightarrow> Inr d)"
      using none by (simp add: resolveDevice_def Let_def)
    show ?thesis
    proof (cases "chooseCandidate collate ?live")
      case None
      then have "set ?live = {}" using choose_None [of collate ?live] by simp
      with live eq None show ?thesis by (auto simp: filter_empty_conv)
    next
      case (Some d)
      have "set (selectable_from ?live) \<subseteq> set ?live" by (auto simp: selectable_from_def)
      with choose_member(1) [OF Some] live have "d \<in> set devices \<and> answers sel ctx d" by blast
      with eq Some show ?thesis by simp
    qed
  qed
qed


theorem resolveDevice_finds_witness:
  "case resolveDevice (\<lambda>a b. int (length a) - int (length b))
     [\<lparr>dv_platform = PAndroid, dv_id = ''e1'', dv_name = ''Pixel'', dv_kind = Emulator, dv_target = None,
       dv_appleOs = None, dv_booted = Some False, dv_simulatorSetPath = None, dv_iosPhysicalDeviceBackend = None\<rparr>]
     \<lparr>sl_platform = Some PAndroid, sl_target = None, sl_deviceName = None, sl_udid = None, sl_serial = None\<rparr>
     \<lparr>cx_simulatorSetPath = None, cx_allowStoppedAndroidAvdPlaceholders = True\<rparr> of
     Inr d \<Rightarrow> dv_id d = ''e1'' | Inl e \<Rightarrow> False"
proof -
  let ?d = "\<lparr>dv_platform = PAndroid, dv_id = ''e1'', dv_name = ''Pixel'', dv_kind = Emulator, dv_target = None,
       dv_appleOs = None, dv_booted = Some False, dv_simulatorSetPath = None, dv_iosPhysicalDeviceBackend = None\<rparr>"
  let ?s = "\<lparr>sl_platform = Some PAndroid, sl_target = None, sl_deviceName = None, sl_udid = None, sl_serial = None\<rparr>"
  let ?c = "\<lparr>cx_simulatorSetPath = None, cx_allowStoppedAndroidAvdPlaceholders = True\<rparr>"
  have "answers ?s ?c ?d" by code_simp
  then have "filter (answers ?s ?c) [?d] \<noteq> []" by simp
  then show ?thesis
    using resolveDevice_finds [where collate = "\<lambda>a b. int (length a) - int (length b)" and devices = "[?d]" and sel = ?s and ctx = ?c]
    by (auto split: sum.splits)
qed

lemma resolveDevice_admitted:
  assumes "\<not> truthy (sl_udid sel)" and "\<not> truthy (sl_serial sel)" and "\<not> truthy (sl_deviceName sel)"
  shows "resolveDevice collate devices sel ctx =
    (case chooseCandidate collate (filter (answers sel ctx) devices) of
       None \<Rightarrow> Inl (throwNoDevicesFound sel ctx) | Some d \<Rightarrow> Inr d)"
proof -
  have "answers sel ctx = (\<lambda>d. matchesDeviceSelector d sel False \<and>
      (cx_allowStoppedAndroidAvdPlaceholders ctx \<or> \<not> isStoppedAndroidAvdPlaceholder d))"
    using assms by (intro ext) (simp add: answers_def)
  then have "(if \<not> cx_allowStoppedAndroidAvdPlaceholders ctx
      then filter (\<lambda>d. \<not> isStoppedAndroidAvdPlaceholder d) (filter (\<lambda>d. matchesDeviceSelector d sel False) devices)
      else filter (\<lambda>d. matchesDeviceSelector d sel False) devices) = filter (answers sel ctx) devices"
    by (simp add: conj_commute)
  with assms show ?thesis by (simp add: resolveDevice_def Let_def)
qed

text \<open>Without an explicit device, the choice among the admitted devices follows the preferences: a
  virtual device when there is one; a booted one when the selectable devices are not all Apple and one
  of them is booted; and when all the admitted devices are Apple, a selectable device of the best rank
  (phones before tablets before televisions, simulators before physical devices), booted if any of that
  rank is, whatever the collation of names.\<close>

lemma resolveDevice_choice:
  assumes "comparator collate" and "resolveDevice collate devices sel ctx = Inr d"
    and "\<not> truthy (sl_udid sel)" and "\<not> truthy (sl_serial sel)" and "\<not> truthy (sl_deviceName sel)"
  defines "admitted \<equiv> filter (answers sel ctx) devices"
  shows "d \<in> set (selectable_from admitted) \<and>
    (\<not> isAppleDeviceCandidateSet (selectable_from admitted) \<longrightarrow>
       (\<exists>e \<in> set (selectable_from admitted). dv_booted e = Some True) \<longrightarrow> dv_booted d = Some True) \<and>
    (isAppleDeviceCandidateSet admitted \<longrightarrow>
       (\<forall>e \<in> set (selectable_from admitted).
          appleDeviceSelectionRank d < appleDeviceSelectionRank e \<or>
          appleDeviceSelectionRank d = appleDeviceSelectionRank e \<and>
          (dv_booted e = Some True \<longrightarrow> dv_booted d = Some True)))"
proof -
  have choose: "chooseCandidate collate admitted = Some d"
    using assms(2) unfolding admitted_def resolveDevice_admitted [OF assms(3-5)]
    by (simp split: option.splits)
  show ?thesis
    using choose_member [OF choose] choose_apple_best [OF assms(1) _ choose] by blast
qed

definition sample_device :: "platform \<Rightarrow> string \<Rightarrow> device_kind \<Rightarrow> bool \<Rightarrow> device_info" where
  "sample_device p i k b = \<lparr>dv_platform = p, dv_id = i, dv_name = i, dv_kind = k, dv_target = None,
     dv_appleOs = None, dv_booted = Some b, dv_simulatorSetPath = None, dv_iosPhysicalDeviceBackend = None\<rparr>"

definition any_device :: device_selector where
  "any_device = \<lparr>sl_platform = None, sl_target = None, sl_deviceName = None, sl_udid = None, sl_serial = None\<rparr>"

definition default_context :: device_selection_context where
  "default_context = \<lparr>cx_simulatorSetPath = None, cx_allowStoppedAndroidAvdPlaceholders = False\<rparr>"

lemma resolveDevice_choice_example:
  "dv_booted (sample_device PApple ''b'' Simulator True) = Some True \<and>
   appleDeviceSelectionRank (sample_device PApple ''b'' Simulator True) = 0"
proof -
  let ?collate = "\<lambda>a b :: string. int (length a) - int (length b)"
  let ?ds = "[sample_device PApple ''a'' Simulator False, sample_device PApple ''b'' Simulator True]"
  have "comparator ?collate" by (rule comparator_number)
  moreover have "resolveDevice ?collate ?ds any_device default_context =
      Inr (sample_device PApple ''b'' Simulator True)" by code_simp
  moreover have "\<not> truthy (sl_udid any_device)" "\<not> truthy (sl_serial any_device)"
    "\<not> truthy (sl_deviceName any_device)" by code_simp+
  ultimately have "\<forall>e \<in> set (selectable_from (filter (answers any_device default_context) ?ds)).
      appleDeviceSelectionRank (sample_device PApple ''b'' Simulator True) < appleDeviceSelectionRank e \<or>
      appleDeviceSelectionRank (sample_device PApple ''b'' Simulator True) = appleDeviceSelectionRank e \<and>
      (dv_booted e = Some True \<longrightarrow> dv_booted (sample_device PApple ''b'' Simulator True) = Some True)"
    if "isAppleDeviceCandidateSet (filter (answers any_device default_context) ?ds)"
    using resolveDevice_choice [of ?collate ?ds any_device default_context] that by blast
  moreover have "isAppleDeviceCandidateSet (filter (answers any_device default_context) ?ds)"
    and "sample_device PApple ''b'' Simulator True \<in> set (selectable_from (filter (answers any_device default_context) ?ds))"
    by code_simp+
  moreover have "appleDeviceSelectionRank (sample_device PApple ''b'' Simulator True) = 0" by code_simp
  ultimately show ?thesis by (simp add: sample_device_def)
qed

text \<open>When the admitted devices are not all Apple but the virtual ones among them are, the choice is
  the first virtual device in discovery order: neither the rank nor a booted simulator counts, because
  the list was only sorted for an all-Apple set.\<close>

lemma mixed_candidates_take_first:
  assumes "\<not> truthy (sl_udid sel)" and "\<not> truthy (sl_serial sel)" and "\<not> truthy (sl_deviceName sel)"
    and "\<not> isAppleDeviceCandidateSet (filter (answers sel ctx) devices)"
    and "isAppleDeviceCandidateSet (filter virtual_device (filter (answers sel ctx) devices))"
  shows "resolveDevice collate devices sel ctx =
    Inr (hd (filter virtual_device (filter (answers sel ctx) devices)))"
proof -
  define admitted where "admitted = filter (answers sel ctx) devices"
  have virtual: "filter virtual_device admitted \<noteq> []"
    using assms(5) by (auto simp: admitted_def isAppleDeviceCandidateSet_def)
  then have "admitted \<noteq> []" by auto
  then have "chooseCandidate collate admitted = Some (hd (filter virtual_device admitted))"
    using assms(4,5) virtual
    by (simp add: chooseCandidate_def chooseFrom_pool selectable_from_def flip: admitted_def)
  then show ?thesis
    unfolding resolveDevice_admitted [OF assms(1-3)] admitted_def by simp
qed

lemma mixed_candidates_take_first_example:
  "resolveDevice (\<lambda>a b. 0)
     [sample_device PAndroid ''phone'' PhysicalDevice True, sample_device PApple ''off'' Simulator False,
      sample_device PApple ''on'' Simulator True] any_device default_context =
   Inr (sample_device PApple ''off'' Simulator False)"
proof -
  let ?ds = "[sample_device PAndroid ''phone'' PhysicalDevice True, sample_device PApple ''off'' Simulator False,
      sample_device PApple ''on'' Simulator True]"
  have "\<not> truthy (sl_udid any_device)" "\<not> truthy (sl_serial any_device)" "\<not> truthy (sl_deviceName any_device)"
    "\<not> isAppleDeviceCandidateSet (filter (answers any_device default_context) ?ds)"
    "isAppleDeviceCandidateSet (filter virtual_device (filter (answers any_device default_context) ?ds))"
    by code_simp+
  note first = mixed_candidates_take_first [OF this, of "\<lambda>a b. 0"]
  have "hd (filter virtual_device (filter (answers any_device default_context) ?ds)) =
      sample_device PApple ''off'' Simulator False" by code_simp
  with first show ?thesis by (simp only:)
qed

end
