(* ===== verification/LockPolicy.thy ===== *)
theory LockPolicy
  imports Devices
begin

text \<open>
  Device selectors of a request against the session it runs in: \<^verbatim>\<open>src/daemon/session-selector.ts\<close>,
  \<^verbatim>\<open>device-selector-intent.ts\<close>, \<^verbatim>\<open>request-lock-policy.ts\<close>, \<^verbatim>\<open>session-recovery-hints.ts\<close>, and
  \<^verbatim>\<open>src/utils/device-isolation.ts\<close>, \<^verbatim>\<open>shell-quote.ts\<close>.

  The flags of a request are a record with the seven device selectors; the other flags are its extension
  and no operation here touches them. Whether a command may override the lock is a fact of the command
  registry and an argument here.
\<close>

section \<open>Flags, sessions and requests\<close>

record command_flags =
  fl_platform :: "platform option"
  fl_target :: "device_target option"
  fl_udid :: "string option"
  fl_serial :: "string option"
  fl_device :: "string option"
  fl_iosSimulatorDeviceSet :: "string option"
  fl_androidDeviceAllowlist :: "string option"

record bound_session =
  bs_name :: string
  bs_device :: device_info
  bs_recording :: bool

datatype lock_policy = LockReject | LockStrip

record 'a lock_request =
  rq_command :: string
  rq_session :: string
  rq_flags :: "'a command_flags_scheme option"
  rq_lockPolicy :: "lock_policy option"
  rq_lockPlatform :: "platform option"

datatype conflict_key =
    CPlatform | CTarget | CUdid | CSerial | CDevice | CIosSimulatorDeviceSet | CAndroidDeviceAllowlist

type_synonym conflict = "conflict_key \<times> string"

record lock_error =
  le_message :: string
  le_session :: string
  le_conflicts :: "string list"
  le_hint :: string

fun platform_name :: "platform \<Rightarrow> string" where
  "platform_name PApple = ''apple''" | "platform_name PAndroid = ''android''"
| "platform_name PVega = ''vega''" | "platform_name PLinux = ''linux''" | "platform_name PWeb = ''web''"
| "platform_name PIos = ''ios''" | "platform_name PMacos = ''macos''"

fun target_name :: "device_target \<Rightarrow> string" where
  "target_name Mobile = ''mobile''" | "target_name Tv = ''tv''" | "target_name Desktop = ''desktop''"

section \<open>Isolation and quoting\<close>

definition normalizeNonEmpty :: "string option \<Rightarrow> string option" where
  "normalizeNonEmpty value =
     (case value of None \<Rightarrow> None | Some v \<Rightarrow> if js_trim v \<noteq> [] then Some (js_trim v) else None)"

definition resolveIosSimulatorDeviceSetPath :: "string option \<Rightarrow> string option" where
  "resolveIosSimulatorDeviceSetPath flagValue = normalizeNonEmpty flagValue"

text \<open>\<open>split\<close> at runs of separators: the pieces between single separators, the empty ones left to the
  filter.\<close>

fun split_where :: "(char \<Rightarrow> bool) \<Rightarrow> string \<Rightarrow> string list" where
  "split_where P [] = [[]]"
| "split_where P (c # s) =
     (if P c then [] # split_where P s
      else case split_where P s of [] \<Rightarrow> [[c]] | w # ws \<Rightarrow> (c # w) # ws)"

definition parseSerialAllowlist :: "string \<Rightarrow> string list" where
  "parseSerialAllowlist value =
     filter (\<lambda>entry. entry \<noteq> []) (map js_trim (split_where (\<lambda>c. is_js_space c \<or> c = CHR '','') value))"

definition resolveAndroidSerialAllowlist :: "string option \<Rightarrow> string option \<Rightarrow> string list option" where
  "resolveAndroidSerialAllowlist flagValue envValue =
     map_option parseSerialAllowlist
       (case normalizeNonEmpty flagValue of Some v \<Rightarrow> Some v | None \<Rightarrow> normalizeNonEmpty envValue)"

definition is_safe_shell_char :: "char \<Rightarrow> bool" where
  "is_safe_shell_char c \<longleftrightarrow> is_letter_char c \<or> is_digit_char c \<or> c \<in> set ''_@%+=:,./-''"

definition shellQuote :: "string \<Rightarrow> string" where
  "shellQuote value =
     [CHR 0x27] @ concat (map (\<lambda>c. if c = CHR 0x27 then [CHR 0x27, CHR 0x5C, CHR 0x27, CHR 0x27] else [c]) value) @
     [CHR 0x27]"

definition shellQuoteIfNeeded :: "string \<Rightarrow> string" where
  "shellQuoteIfNeeded value =
     (if value \<noteq> [] \<and> list_all is_safe_shell_char value then value else shellQuote value)"

section \<open>Recovery hints\<close>

datatype recovery_context = DeviceInUse | SelectorConflict

definition describeSessionDevice :: "bound_session \<Rightarrow> string" where
  "describeSessionDevice s =
     platform_name (dv_platform (bs_device s)) @ '' device \"'' @ js_trim (dv_name (bs_device s)) @ ''\" ('' @
     dv_id (bs_device s) @ '')''"

definition buildRecordingSessionRecoveryHint :: "bound_session \<Rightarrow> recovery_context \<Rightarrow> string" where
  "buildRecordingSessionRecoveryHint s context =
     (let sessionArg = shellQuoteIfNeeded (bs_name s);
          closeCommand = ''agent-device close --session '' @ sessionArg;
          recordStopCommand = ''agent-device record stop --session '' @ sessionArg;
          reuseText =
            (if context = SelectorConflict
             then ''To keep using this device, rerun the command with --session '' @ sessionArg @
                  '' and remove conflicting device selectors.''
             else ''To keep using this device, reuse --session '' @ sessionArg @
                  '' for commands that should attach to the recording session.'')
      in ''Recording session \"'' @ bs_name s @ ''\" owns this device. Run '' @ recordStopCommand @
         ''; if the session still appears in agent-device session list, run '' @ closeCommand @ ''. '' @
         reuseText @ '' Run agent-device session list to inspect active sessions.'')"

definition buildOpenSessionRecoveryHint :: "bound_session \<Rightarrow> recovery_context \<Rightarrow> string" where
  "buildOpenSessionRecoveryHint s context =
     (let sessionArg = shellQuoteIfNeeded (bs_name s);
          closeCommand = ''agent-device close --session '' @ sessionArg
      in if context = SelectorConflict
         then ''Run agent-device session list to inspect active sessions. '' @
              ''To reuse this device, rerun the command with --session '' @ sessionArg @
              '' and remove conflicting device selectors. '' @
              ''To switch devices, first run '' @ closeCommand @
              '', then open the desired device with a different --session name.''
         else ''Run agent-device session list to inspect active sessions. '' @
              ''To reuse this device, rerun the command with --session '' @ sessionArg @ ''. '' @
              ''To open a new session on this device, first run '' @ closeCommand @ ''.'')"

definition buildSessionRecoveryHint :: "bound_session \<Rightarrow> recovery_context \<Rightarrow> string" where
  "buildSessionRecoveryHint s context =
     (if bs_recording s then buildRecordingSessionRecoveryHint s context
      else buildOpenSessionRecoveryHint s context)"

section \<open>Conflicts with a session\<close>

definition listSessionSelectorConflicts :: "bound_session \<Rightarrow> 'a command_flags_scheme option \<Rightarrow> conflict list" where
  "listSessionSelectorConflicts session flags =
     (case flags of
        None \<Rightarrow> []
      | Some f \<Rightarrow>
          let device = bs_device session
          in (case fl_platform f of
                Some p \<Rightarrow> if \<not> matchesPlatformSelector device (Some p) then [(CPlatform, platform_name p)] else []
              | None \<Rightarrow> []) @
             (case fl_target f of
                Some t \<Rightarrow> if t \<noteq> device_target_of device then [(CTarget, target_name t)] else []
              | None \<Rightarrow> []) @
             (if truthy (fl_udid f) \<and> (\<not> isIosFamily device \<or> the (fl_udid f) \<noteq> dv_id device)
              then [(CUdid, the (fl_udid f))] else []) @
             (if truthy (fl_serial f) \<and>
                 (\<not> isSerialAddressablePlatform (dv_platform device) \<or> the (fl_serial f) \<noteq> dv_id device)
              then [(CSerial, the (fl_serial f))] else []) @
             (if truthy (fl_device f) \<and>
                 js_lower (js_trim (the (fl_device f))) \<noteq> js_lower (js_trim (dv_name device))
              then [(CDevice, the (fl_device f))] else []) @
             (if truthy (fl_iosSimulatorDeviceSet f) \<and>
                 (\<not> isIosFamily device \<or> dv_kind device \<noteq> Simulator \<or>
                  Some (js_trim (the (fl_iosSimulatorDeviceSet f))) \<noteq> map_option js_trim (dv_simulatorSetPath device))
              then [(CIosSimulatorDeviceSet, the (fl_iosSimulatorDeviceSet f))] else []) @
             (if truthy (fl_androidDeviceAllowlist f) \<and>
                 (dv_platform device \<noteq> PAndroid \<or>
                  dv_id device \<notin> set (parseSerialAllowlist (the (fl_androidDeviceAllowlist f))))
              then [(CAndroidDeviceAllowlist, the (fl_androidDeviceAllowlist f))] else []))"

fun flagNameForConflictKey :: "conflict_key \<Rightarrow> string" where
  "flagNameForConflictKey CIosSimulatorDeviceSet = ''--ios-simulator-device-set''"
| "flagNameForConflictKey CAndroidDeviceAllowlist = ''--android-device-allowlist''"
| "flagNameForConflictKey CPlatform = ''--platform''"
| "flagNameForConflictKey CTarget = ''--target''"
| "flagNameForConflictKey CUdid = ''--udid''"
| "flagNameForConflictKey CSerial = ''--serial''"
| "flagNameForConflictKey CDevice = ''--device''"

definition formatSessionSelectorConflict :: "conflict \<Rightarrow> string" where
  "formatSessionSelectorConflict c = flagNameForConflictKey (fst c) @ ''='' @ snd c"

definition assertSessionSelectorMatches :: "bound_session \<Rightarrow> 'a command_flags_scheme option \<Rightarrow> lock_error + unit" where
  "assertSessionSelectorMatches session flags =
     (let mismatches = listSessionSelectorConflicts session flags
      in if length mismatches = 0 then Inr ()
         else Inl \<lparr>le_message = ''Session \"'' @ bs_name session @ ''\" is already bound to '' @
                     describeSessionDevice session @ '', but this request selected '' @
                     js_join '', '' (map formatSessionSelectorConflict mismatches) @ ''.'',
                   le_session = bs_name session,
                   le_conflicts = map formatSessionSelectorConflict mismatches,
                   le_hint = buildSessionRecoveryHint session SelectorConflict\<rparr>)"

section \<open>Which selectors a request carries\<close>

definition hasSelectorValue :: "string option \<Rightarrow> bool" where
  "hasSelectorValue value = (case value of None \<Rightarrow> False | Some v \<Rightarrow> length (js_trim v) > 0)"

fun flag_value :: "'a command_flags_scheme \<Rightarrow> conflict_key \<Rightarrow> string option" where
  "flag_value f CPlatform = map_option platform_name (fl_platform f)"
| "flag_value f CTarget = map_option target_name (fl_target f)"
| "flag_value f CUdid = fl_udid f"
| "flag_value f CSerial = fl_serial f"
| "flag_value f CDevice = fl_device f"
| "flag_value f CIosSimulatorDeviceSet = fl_iosSimulatorDeviceSet f"
| "flag_value f CAndroidDeviceAllowlist = fl_androidDeviceAllowlist f"

definition EXPLICIT_DEVICE_SELECTOR_KEYS :: "conflict_key list" where
  "EXPLICIT_DEVICE_SELECTOR_KEYS = [CPlatform, CTarget, CDevice, CUdid, CSerial]"

definition LOCKABLE_DEVICE_SELECTOR_KEYS :: "conflict_key list" where
  "LOCKABLE_DEVICE_SELECTOR_KEYS =
     EXPLICIT_DEVICE_SELECTOR_KEYS @ [CIosSimulatorDeviceSet, CAndroidDeviceAllowlist]"

definition hasAnySelectorValue :: "'a command_flags_scheme option \<Rightarrow> conflict_key list \<Rightarrow> bool" where
  "hasAnySelectorValue flags keys =
     (case flags of None \<Rightarrow> False | Some f \<Rightarrow> list_ex (\<lambda>k. hasSelectorValue (flag_value f k)) keys)"

definition hasExplicitDeviceSelector :: "'a command_flags_scheme option \<Rightarrow> bool" where
  "hasExplicitDeviceSelector flags = hasAnySelectorValue flags EXPLICIT_DEVICE_SELECTOR_KEYS"

definition hasLockableDeviceSelector :: "'a command_flags_scheme option \<Rightarrow> bool" where
  "hasLockableDeviceSelector flags = hasAnySelectorValue flags LOCKABLE_DEVICE_SELECTOR_KEYS"

section \<open>Conflicts with a fresh lock\<close>

definition platformSelectorsConflict :: "platform option \<Rightarrow> platform option \<Rightarrow> bool" where
  "platformSelectorsConflict requested locked =
     (if requested = None \<or> locked = None then False
      else if requested = locked then False
      else if requested = Some PApple then \<not> isApplePlatform locked
      else if locked = Some PApple then \<not> isApplePlatform requested
      else True)"

fun targetSelectorsConflict :: "device_target \<Rightarrow> platform \<Rightarrow> bool" where
  "targetSelectorsConflict target PAndroid = (target = Desktop)"
| "targetSelectorsConflict target PIos = (target = Desktop)"
| "targetSelectorsConflict target PVega = (target \<noteq> Tv)"
| "targetSelectorsConflict target PMacos = (target \<noteq> Desktop)"
| "targetSelectorsConflict target PLinux = (target \<noteq> Desktop)"
| "targetSelectorsConflict target PWeb = (target \<noteq> Desktop)"
| "targetSelectorsConflict target PApple = False"

definition isAppleDesktopSelector :: "'a command_flags_scheme \<Rightarrow> bool" where
  "isAppleDesktopSelector f \<longleftrightarrow> fl_target f = Some Desktop \<or> fl_platform f = Some PMacos"

fun freshSessionSelectorKeysForPlatform :: "platform \<Rightarrow> 'a command_flags_scheme \<Rightarrow> conflict_key list" where
  "freshSessionSelectorKeysForPlatform PAndroid f = [CUdid, CIosSimulatorDeviceSet]"
| "freshSessionSelectorKeysForPlatform PVega f = [CUdid, CIosSimulatorDeviceSet, CAndroidDeviceAllowlist]"
| "freshSessionSelectorKeysForPlatform PIos f = [CSerial, CAndroidDeviceAllowlist]"
| "freshSessionSelectorKeysForPlatform PApple f =
     (if isAppleDesktopSelector f then [CUdid, CSerial, CAndroidDeviceAllowlist, CIosSimulatorDeviceSet]
      else [CSerial, CAndroidDeviceAllowlist])"
| "freshSessionSelectorKeysForPlatform PMacos f = [CUdid, CSerial, CIosSimulatorDeviceSet, CAndroidDeviceAllowlist]"
| "freshSessionSelectorKeysForPlatform PLinux f = [CUdid, CSerial, CIosSimulatorDeviceSet, CAndroidDeviceAllowlist]"
| "freshSessionSelectorKeysForPlatform PWeb f = [CUdid, CSerial, CIosSimulatorDeviceSet, CAndroidDeviceAllowlist]"

definition freshSessionDeviceSelectorConflicts :: "'a command_flags_scheme \<Rightarrow> platform \<Rightarrow> conflict list" where
  "freshSessionDeviceSelectorConflicts f lock =
     map (\<lambda>k. (k, the (flag_value f k)))
       (filter (\<lambda>k. hasSelectorValue (flag_value f k)) (freshSessionSelectorKeysForPlatform lock f))"

definition listFreshSessionConflicts :: "'a command_flags_scheme \<Rightarrow> platform option \<Rightarrow> conflict list" where
  "listFreshSessionConflicts f lockPlatform =
     (case lockPlatform of
        None \<Rightarrow> []
      | Some lock \<Rightarrow>
          (case fl_platform f of
             Some p \<Rightarrow> if platformSelectorsConflict (Some p) (Some lock) then [(CPlatform, platform_name p)] else []
           | None \<Rightarrow> []) @
          (case fl_target f of
             Some t \<Rightarrow> if targetSelectorsConflict t lock then [(CTarget, target_name t)] else []
           | None \<Rightarrow> []) @
          freshSessionDeviceSelectorConflicts f lock)"

section \<open>The policy\<close>

fun delete_flag :: "conflict_key \<Rightarrow> 'a command_flags_scheme \<Rightarrow> 'a command_flags_scheme" where
  "delete_flag CPlatform f = f\<lparr>fl_platform := None\<rparr>"
| "delete_flag CTarget f = f\<lparr>fl_target := None\<rparr>"
| "delete_flag CUdid f = f\<lparr>fl_udid := None\<rparr>"
| "delete_flag CSerial f = f\<lparr>fl_serial := None\<rparr>"
| "delete_flag CDevice f = f\<lparr>fl_device := None\<rparr>"
| "delete_flag CIosSimulatorDeviceSet f = f\<lparr>fl_iosSimulatorDeviceSet := None\<rparr>"
| "delete_flag CAndroidDeviceAllowlist f = f\<lparr>fl_androidDeviceAllowlist := None\<rparr>"

definition stripSessionConflicts :: "'a command_flags_scheme \<Rightarrow> conflict list \<Rightarrow> 'a command_flags_scheme" where
  "stripSessionConflicts f conflicts = fold (\<lambda>c. delete_flag (fst c)) conflicts f"

definition applyStripLockPolicy ::
    "'a command_flags_scheme \<Rightarrow> conflict list \<Rightarrow> platform option \<Rightarrow> bound_session option \<Rightarrow> 'a command_flags_scheme" where
  "applyStripLockPolicy f conflicts lockPlatform existingSession =
     (let stripped = stripSessionConflicts f conflicts
      in case existingSession of
           Some s \<Rightarrow> stripped\<lparr>fl_platform := Some (publicPlatformString (bs_device s))\<rparr>
         | None \<Rightarrow>
             if lockPlatform \<noteq> None \<and> fl_platform stripped = None
             then stripped\<lparr>fl_platform := lockPlatform\<rparr> else stripped)"

definition shouldApplyLockPlatformDefault ::
    "bool \<Rightarrow> bound_session option \<Rightarrow> 'a command_flags_scheme \<Rightarrow> platform option \<Rightarrow> bool" where
  "shouldApplyLockPlatformDefault canOverrideSelector existingSession f lockPlatform =
     (if lockPlatform = None \<or> existingSession \<noteq> None \<or> fl_platform f \<noteq> None then False
      else if \<not> canOverrideSelector then True
      else \<not> hasLockableDeviceSelector (Some f))"

definition buildLockPolicyConflictMessage ::
    "'a lock_request \<Rightarrow> conflict list \<Rightarrow> bound_session option \<Rightarrow> string" where
  "buildLockPolicyConflictMessage req conflicts existingSession =
     (let conflictList = js_join '', '' (map formatSessionSelectorConflict conflicts)
      in case existingSession of
           Some s \<Rightarrow> rq_command req @ '' is already bound to session \"'' @ bs_name s @ ''\" on '' @
             describeSessionDevice s @ '', but this request selected '' @ conflictList @ ''.''
         | None \<Rightarrow> rq_command req @ '' is using a bound-session lock'' @
             (case rq_lockPlatform req of None \<Rightarrow> [] | Some p \<Rightarrow> '' for '' @ platform_name p) @
             '', but this request selected '' @ conflictList @ ''.'')"

definition buildLockPolicyConflictHint :: "'a lock_request \<Rightarrow> bound_session option \<Rightarrow> string" where
  "buildLockPolicyConflictHint req existingSession =
     (case existingSession of
        Some s \<Rightarrow> buildSessionRecoveryHint s SelectorConflict
      | None \<Rightarrow>
          let sessionText = (if rq_session req \<noteq> [] then '' --session '' @ shellQuoteIfNeeded (rq_session req) else []);
              openText = (case rq_lockPlatform req of
                Some p \<Rightarrow> ''Run agent-device open <app>'' @ sessionText @ '' --platform '' @ platform_name p @
                  '' first if no session is active. ''
              | None \<Rightarrow> ''Run agent-device open <app>'' @ sessionText @ '' first if no session is active. '')
          in ''Remove conflicting device selectors from this command, or use --session-lock strip to let agent-device ignore them. '' @
             openText @ ''Run agent-device session list to inspect active sessions.'')"

definition no_flags :: "'a \<Rightarrow> 'a command_flags_scheme" where
  "no_flags rest = \<lparr>fl_platform = None, fl_target = None, fl_udid = None, fl_serial = None, fl_device = None,
     fl_iosSimulatorDeviceSet = None, fl_androidDeviceAllowlist = None, \<dots> = rest\<rparr>"

text \<open>\<open>rest\<close> are the other flags of an empty flag record.\<close>

definition applyRequestLockPolicy ::
    "(string \<Rightarrow> bool) \<Rightarrow> 'a \<Rightarrow> 'a lock_request \<Rightarrow> bound_session option \<Rightarrow> lock_error + 'a lock_request" where
  "applyRequestLockPolicy canOverrideLockPolicySelector rest req existingSession =
     (case rq_lockPolicy req of
        None \<Rightarrow> Inr req
      | Some lockPolicy \<Rightarrow>
          let nextFlags = (case rq_flags req of Some f \<Rightarrow> f | None \<Rightarrow> no_flags rest);
              canOverrideSelector = canOverrideLockPolicySelector (rq_command req);
              lockPlatform = rq_lockPlatform req;
              conflicts =
                (if canOverrideSelector then []
                 else case existingSession of
                     Some s \<Rightarrow> listSessionSelectorConflicts s (Some nextFlags)
                   | None \<Rightarrow> listFreshSessionConflicts nextFlags lockPlatform)
          in if length conflicts = 0
             then Inr (req\<lparr>rq_flags := Some
                    (if shouldApplyLockPlatformDefault canOverrideSelector existingSession nextFlags lockPlatform
                     then nextFlags\<lparr>fl_platform := lockPlatform\<rparr> else nextFlags)\<rparr>)
             else if lockPolicy = LockStrip
             then Inr (req\<lparr>rq_flags := Some (applyStripLockPolicy nextFlags conflicts lockPlatform existingSession)\<rparr>)
             else Inl \<lparr>le_message = buildLockPolicyConflictMessage req conflicts existingSession,
                       le_session = rq_session req,
                       le_conflicts = map formatSessionSelectorConflict conflicts,
                       le_hint = buildLockPolicyConflictHint req existingSession\<rparr>)"

section \<open>Stripping\<close>

lemma flag_delete: "flag_value (delete_flag k f) k' = (if k = k' then None else flag_value f k')"
  by (cases k; cases k') simp_all

lemma flag_strip: "flag_value (stripSessionConflicts f cs) k = (if k \<in> fst ` set cs then None else flag_value f k)"
  unfolding stripSessionConflicts_def
  by (induction cs arbitrary: f) (auto simp: flag_delete)

lemma platform_name_inject [simp]: "platform_name p = platform_name q \<longleftrightarrow> p = q"
  by (cases p; cases q) simp_all

lemma target_name_inject [simp]: "target_name t = target_name u \<longleftrightarrow> t = u"
  by (cases t; cases u) simp_all

text \<open>The selectors of flags as one function, which determines them.\<close>

lemma flags_determined:
  assumes "flag_value f = flag_value g"
  shows "fl_platform f = fl_platform g" "fl_target f = fl_target g" "fl_udid f = fl_udid g"
    "fl_serial f = fl_serial g" "fl_device f = fl_device g"
    "fl_iosSimulatorDeviceSet f = fl_iosSimulatorDeviceSet g"
    "fl_androidDeviceAllowlist f = fl_androidDeviceAllowlist g"
proof -
  have at: "flag_value f k = flag_value g k" for k using assms by simp
  show "fl_platform f = fl_platform g"
    using at [of CPlatform] by (cases "fl_platform f"; cases "fl_platform g") simp_all
  show "fl_target f = fl_target g"
    using at [of CTarget] by (cases "fl_target f"; cases "fl_target g") simp_all
  show "fl_udid f = fl_udid g" "fl_serial f = fl_serial g" "fl_device f = fl_device g"
    "fl_iosSimulatorDeviceSet f = fl_iosSimulatorDeviceSet g"
    "fl_androidDeviceAllowlist f = fl_androidDeviceAllowlist g"
    using at [of CUdid] at [of CSerial] at [of CDevice] at [of CIosSimulatorDeviceSet]
      at [of CAndroidDeviceAllowlist] by simp_all
qed

text \<open>Which selectors a session refuses, one key at a time.\<close>

fun session_refuses :: "device_info \<Rightarrow> 'a command_flags_scheme \<Rightarrow> conflict_key \<Rightarrow> bool" where
  "session_refuses d f CPlatform = (case fl_platform f of None \<Rightarrow> False | Some p \<Rightarrow> \<not> matchesPlatformSelector d (Some p))"
| "session_refuses d f CTarget = (case fl_target f of None \<Rightarrow> False | Some t \<Rightarrow> t \<noteq> device_target_of d)"
| "session_refuses d f CUdid = (truthy (fl_udid f) \<and> (\<not> isIosFamily d \<or> the (fl_udid f) \<noteq> dv_id d))"
| "session_refuses d f CSerial =
     (truthy (fl_serial f) \<and> (\<not> isSerialAddressablePlatform (dv_platform d) \<or> the (fl_serial f) \<noteq> dv_id d))"
| "session_refuses d f CDevice =
     (truthy (fl_device f) \<and> js_lower (js_trim (the (fl_device f))) \<noteq> js_lower (js_trim (dv_name d)))"
| "session_refuses d f CIosSimulatorDeviceSet =
     (truthy (fl_iosSimulatorDeviceSet f) \<and> (\<not> isIosFamily d \<or> dv_kind d \<noteq> Simulator \<or>
        Some (js_trim (the (fl_iosSimulatorDeviceSet f))) \<noteq> map_option js_trim (dv_simulatorSetPath d)))"
| "session_refuses d f CAndroidDeviceAllowlist =
     (truthy (fl_androidDeviceAllowlist f) \<and> (dv_platform d \<noteq> PAndroid \<or>
        dv_id d \<notin> set (parseSerialAllowlist (the (fl_androidDeviceAllowlist f)))))"

definition all_keys :: "conflict_key list" where
  "all_keys = [CPlatform, CTarget, CUdid, CSerial, CDevice, CIosSimulatorDeviceSet, CAndroidDeviceAllowlist]"

lemma set_all_keys: "k \<in> set all_keys"
  by (cases k) (simp_all add: all_keys_def)

lemma session_conflicts_eq:
  "listSessionSelectorConflicts s (Some f) =
     map (\<lambda>k. (k, the (flag_value f k))) (filter (session_refuses (bs_device s) f) all_keys)"
proof -
  have plat: "(case fl_platform f of
        Some p \<Rightarrow> if \<not> matchesPlatformSelector (bs_device s) (Some p) then [(CPlatform, platform_name p)] else []
      | None \<Rightarrow> []) =
      (if session_refuses (bs_device s) f CPlatform then [(CPlatform, the (flag_value f CPlatform))] else [])"
    by (simp split: option.split)
  have tgt: "(case fl_target f of
        Some t \<Rightarrow> if t \<noteq> device_target_of (bs_device s) then [(CTarget, target_name t)] else []
      | None \<Rightarrow> []) =
      (if session_refuses (bs_device s) f CTarget then [(CTarget, the (flag_value f CTarget))] else [])"
    by (simp split: option.split)
  have split: "map g (filter P (k # ks)) = (if P k then [g k] else []) @ map g (filter P ks)"
    for g :: "conflict_key \<Rightarrow> conflict" and P k ks by simp
  show ?thesis
    unfolding listSessionSelectorConflicts_def option.case Let_def plat tgt all_keys_def split
    by (simp only: session_refuses.simps flag_value.simps filter.simps list.map append_Nil2)
qed

lemma session_conflicts_keys: "fst ` set (listSessionSelectorConflicts s (Some f)) = {k. session_refuses (bs_device s) f k}"
  using set_all_keys by (auto simp: session_conflicts_eq image_image)

lemma session_conflicts_none:
  "listSessionSelectorConflicts s (Some f) = [] \<longleftrightarrow> (\<forall>k. \<not> session_refuses (bs_device s) f k)"
  using set_all_keys by (auto simp: session_conflicts_eq filter_empty_conv)

lemma session_refuses_flag:
  "flag_value g k = flag_value f k \<Longrightarrow> session_refuses d g k = session_refuses d f k"
  by (cases k; cases "fl_platform f"; cases "fl_platform g"; cases "fl_target f"; cases "fl_target g") simp_all

lemma session_refuses_None: "flag_value f k = None \<Longrightarrow> \<not> session_refuses d f k"
  by (cases k) (simp_all split: option.splits)

lemma leaf_matches: "matchesPlatformSelector d (Some (publicPlatformString d))"
  by (auto simp: matchesPlatformSelector_def publicPlatformString_def isApplePlatform_def)

lemma strip_session_clean:
  "listSessionSelectorConflicts s
     (Some (applyStripLockPolicy f (listSessionSelectorConflicts s (Some f)) lock (Some s))) = []"
  (is "listSessionSelectorConflicts s (Some ?g) = []")
proof -
  let ?d = "bs_device s"
  have "\<not> session_refuses ?d ?g k" for k
  proof (cases "k = CPlatform")
    case True
    then show ?thesis by (simp add: applyStripLockPolicy_def Let_def leaf_matches)
  next
    case False
    then have "flag_value ?g k = (if session_refuses ?d f k then None else flag_value f k)"
      using flag_strip [of f "listSessionSelectorConflicts s (Some f)" k]
      unfolding session_conflicts_keys by (cases k) (simp_all add: applyStripLockPolicy_def Let_def)
    then show ?thesis
      using session_refuses_None [of ?g k] session_refuses_flag [of ?g k f] by metis
  qed
  then show ?thesis by (simp add: session_conflicts_none)
qed

text \<open>The same for a fresh lock.\<close>

definition fresh_refuses :: "platform \<Rightarrow> 'a command_flags_scheme \<Rightarrow> conflict_key \<Rightarrow> bool" where
  "fresh_refuses lock f k =
     (case k of
        CPlatform \<Rightarrow> (case fl_platform f of None \<Rightarrow> False | Some p \<Rightarrow> platformSelectorsConflict (Some p) (Some lock))
      | CTarget \<Rightarrow> (case fl_target f of None \<Rightarrow> False | Some t \<Rightarrow> targetSelectorsConflict t lock)
      | _ \<Rightarrow> k \<in> set (freshSessionSelectorKeysForPlatform lock f) \<and> hasSelectorValue (flag_value f k))"

lemma fresh_keys_plain:
  "CPlatform \<notin> set (freshSessionSelectorKeysForPlatform lock f)" "CTarget \<notin> set (freshSessionSelectorKeysForPlatform lock f)"
  by (cases lock; simp)+

lemma fresh_conflicts_keys:
  "fst ` set (listFreshSessionConflicts f (Some lock)) = {k. fresh_refuses lock f k}"
proof -
  have keys: "fst ` set (freshSessionDeviceSelectorConflicts f lock) =
      {k \<in> set (freshSessionSelectorKeysForPlatform lock f). hasSelectorValue (flag_value f k)}"
    by (simp add: freshSessionDeviceSelectorConflicts_def image_image)
  have parts: "fst ` set (listFreshSessionConflicts f (Some lock)) =
      {k. k = CPlatform \<and> fresh_refuses lock f CPlatform} \<union> {k. k = CTarget \<and> fresh_refuses lock f CTarget} \<union>
      {k \<in> set (freshSessionSelectorKeysForPlatform lock f). hasSelectorValue (flag_value f k)}"
    unfolding keys [symmetric]
    by (auto simp: listFreshSessionConflicts_def fresh_refuses_def split: option.splits if_splits)
  have "k \<in> fst ` set (listFreshSessionConflicts f (Some lock)) \<longleftrightarrow> fresh_refuses lock f k" for k
    unfolding parts using fresh_keys_plain [of lock f]
    by (cases k) (simp_all add: fresh_refuses_def)
  then show ?thesis by blast
qed

lemma fresh_conflicts_none:
  "listFreshSessionConflicts f (Some lock) = [] \<longleftrightarrow> (\<forall>k. \<not> fresh_refuses lock f k)"
  using fresh_conflicts_keys [of f lock] by (metis (mono_tags) empty_iff image_is_empty list.set(1) mem_Collect_eq
      set_empty subsetI subset_empty)

lemma fresh_platform_self: "\<not> platformSelectorsConflict (Some p) (Some p)"
  by (simp add: platformSelectorsConflict_def)

lemma strip_fresh_clean:
  "listFreshSessionConflicts (applyStripLockPolicy f (listFreshSessionConflicts f lock) lock None) lock = []"
proof (cases lock)
  case None
  then show ?thesis by (simp add: listFreshSessionConflicts_def)
next
  case (Some l)
  let ?stripped = "stripSessionConflicts f (listFreshSessionConflicts f (Some l))"
  let ?g = "applyStripLockPolicy f (listFreshSessionConflicts f (Some l)) (Some l) None"
  have v0: "flag_value ?stripped k = (if fresh_refuses l f k then None else flag_value f k)" for k
    using flag_strip [of f "listFreshSessionConflicts f (Some l)" k] unfolding fresh_conflicts_keys by simp
  have v: "flag_value ?g k = flag_value ?stripped k" if "k \<noteq> CPlatform" for k
    using that by (cases k) (simp_all add: applyStripLockPolicy_def Let_def)
  have plat: "fl_platform ?g = (if fl_platform f = None \<or> fresh_refuses l f CPlatform then Some l else fl_platform f)"
    using v0 [of CPlatform] by (auto simp: applyStripLockPolicy_def Let_def split: if_splits)
  have desktop: "isAppleDesktopSelector ?g = isAppleDesktopSelector f" if "l = PApple"
  proof -
    have tgt: "fl_target ?g = fl_target f"
      using v [of CTarget] v0 [of CTarget] that
      by (cases "fl_target f"; cases "fl_target ?g") (simp_all add: fresh_refuses_def)
    moreover have "fl_platform ?g = Some PMacos \<longleftrightarrow> fl_platform f = Some PMacos"
      using plat that by (auto simp: fresh_refuses_def platformSelectorsConflict_def isApplePlatform_def)
    ultimately show ?thesis by (simp add: isAppleDesktopSelector_def)
  qed
  have keys: "freshSessionSelectorKeysForPlatform l ?g = freshSessionSelectorKeysForPlatform l f"
    using desktop by (cases l) simp_all
  have "\<not> fresh_refuses l ?g k" for k
  proof (cases "k = CPlatform")
    case True
    then show ?thesis
      using plat by (auto simp: fresh_refuses_def fresh_platform_self split: option.splits if_splits)
  next
    case False
    from trans [OF v [OF this] v0]
    show ?thesis
      using False keys
      by (cases k; cases "fl_target f"; cases "fl_target ?g")
        (auto simp: fresh_refuses_def hasSelectorValue_def split: if_splits option.splits)
  qed
  with Some show ?thesis by (simp add: fresh_conflicts_none)
qed

section \<open>The policy as a whole\<close>

definition request_conflicts :: "bound_session option \<Rightarrow> platform option \<Rightarrow> 'a command_flags_scheme \<Rightarrow> conflict list" where
  "request_conflicts existingSession lockPlatform f =
     (case existingSession of
        Some s \<Rightarrow> listSessionSelectorConflicts s (Some f)
      | None \<Rightarrow> listFreshSessionConflicts f lockPlatform)"

lemma strip_clean:
  "request_conflicts session lock (applyStripLockPolicy f (request_conflicts session lock f) lock session) = []"
  by (cases session) (simp_all add: request_conflicts_def strip_session_clean strip_fresh_clean)

lemma default_clean:
  assumes "shouldApplyLockPlatformDefault override session f lock" and "request_conflicts session lock f = []"
  shows "request_conflicts session lock (f\<lparr>fl_platform := lock\<rparr>) = []"
proof -
  from assms(1) obtain l where l: "lock = Some l" "session = None" "fl_platform f = None"
    by (auto simp: shouldApplyLockPlatformDefault_def split: if_splits)
  have none: "\<not> fresh_refuses l f k" for k
    using assms(2) l by (simp add: request_conflicts_def fresh_conflicts_none)
  have "\<not> fresh_refuses l (f\<lparr>fl_platform := lock\<rparr>) k" for k
  proof (cases "k = CPlatform")
    case True
    with l show ?thesis by (simp add: fresh_refuses_def fresh_platform_self)
  next
    case False
    have "flag_value (f\<lparr>fl_platform := lock\<rparr>) k = flag_value f k" using False by (cases k) simp_all
    moreover have "freshSessionSelectorKeysForPlatform l (f\<lparr>fl_platform := lock\<rparr>) = freshSessionSelectorKeysForPlatform l f"
      using l by (cases l) (simp_all add: isAppleDesktopSelector_def)
    ultimately show ?thesis
      using none [of k] False by (cases k) (simp_all add: fresh_refuses_def)
  qed
  with l show ?thesis by (simp add: request_conflicts_def fresh_conflicts_none)
qed

lemma apply_lock_eq:
  fixes rest :: 'a and override :: "string \<Rightarrow> bool" and session :: "bound_session option"
  assumes "rq_lockPolicy req = Some policy"
  defines "f \<equiv> (case rq_flags req of Some g \<Rightarrow> g | None \<Rightarrow> no_flags rest)"
  defines "cs \<equiv> (if override (rq_command req) then [] else request_conflicts session (rq_lockPlatform req) f)"
  shows "applyRequestLockPolicy override rest req session =
    (if cs = []
     then Inr (req\<lparr>rq_flags := Some
            (if shouldApplyLockPlatformDefault (override (rq_command req)) session f (rq_lockPlatform req)
             then f\<lparr>fl_platform := rq_lockPlatform req\<rparr> else f)\<rparr>)
     else if policy = LockStrip
     then Inr (req\<lparr>rq_flags := Some (applyStripLockPolicy f cs (rq_lockPlatform req) session)\<rparr>)
     else Inl \<lparr>le_message = buildLockPolicyConflictMessage req cs session,
               le_session = rq_session req,
               le_conflicts = map formatSessionSelectorConflict cs,
               le_hint = buildLockPolicyConflictHint req session\<rparr>)"
  using assms(1) unfolding applyRequestLockPolicy_def f_def cs_def request_conflicts_def Let_def
  by (simp only: option.case length_0_conv)

text \<open>C35. A request that passes a lock agrees with it, unless its command may override lock selectors (apps, devices, doctor and
  capabilities: their selectors are not checked): the flags it continues with conflict neither with the device of the session it runs in
  nor, for a fresh session, with the locked platform, whether the conflicts were stripped, refused or never there.\<close>

theorem locked_request_agrees:
  assumes "rq_lockPolicy req = Some policy" and "\<not> override (rq_command req)"
    and "applyRequestLockPolicy override rest req session = Inr req'"
  shows "case rq_flags req' of None \<Rightarrow> False | Some f \<Rightarrow>
    (case session of
       Some s \<Rightarrow> listSessionSelectorConflicts s (Some f) = []
     | None \<Rightarrow> listFreshSessionConflicts f (rq_lockPlatform req) = [])"
proof -
  obtain f where "rq_flags req' = Some f" and "request_conflicts session (rq_lockPlatform req) f = []"
    using assms(3) unfolding apply_lock_eq [OF assms(1)]
    using assms(2) default_clean [of False session _ "rq_lockPlatform req"]
      strip_clean [of session "rq_lockPlatform req"]
    by (fastforce split: if_splits)
  then show ?thesis by (simp add: request_conflicts_def split: option.splits)
qed

definition sample_request :: "lock_policy \<Rightarrow> unit lock_request" where
  "sample_request policy = \<lparr>rq_command = ''press'', rq_session = ''s'',
     rq_flags = Some ((no_flags ())\<lparr>fl_platform := Some PIos, fl_udid := Some ''x'', fl_serial := Some ''e1''\<rparr>),
     rq_lockPolicy = Some policy, rq_lockPlatform = None\<rparr>"

definition sample_session :: bound_session where
  "sample_session = \<lparr>bs_name = ''s'', bs_device = sample_device PAndroid ''e1'' Emulator True, bs_recording = False\<rparr>"

theorem locked_request_agrees_witness:
  "listSessionSelectorConflicts sample_session
     (Some ((no_flags ())\<lparr>fl_platform := Some PAndroid, fl_serial := Some ''e1''\<rparr>)) = []"
proof -
  let ?f = "(no_flags ())\<lparr>fl_platform := Some PAndroid, fl_serial := Some ''e1''\<rparr>"
  have "rq_lockPolicy (sample_request LockStrip) = Some LockStrip" by (simp add: sample_request_def)
  moreover have "\<not> (\<lambda>_. False) (rq_command (sample_request LockStrip))" by simp
  moreover have "applyRequestLockPolicy (\<lambda>_. False) () (sample_request LockStrip) (Some sample_session) =
      Inr (sample_request LockStrip\<lparr>rq_flags := Some ?f\<rparr>)" by code_simp
  ultimately have "case rq_flags (sample_request LockStrip\<lparr>rq_flags := Some ?f\<rparr>) of None \<Rightarrow> False | Some f \<Rightarrow>
      (case Some sample_session of
         Some s \<Rightarrow> listSessionSelectorConflicts s (Some f) = []
       | None \<Rightarrow> listFreshSessionConflicts f (rq_lockPlatform (sample_request LockStrip)) = [])"
    by (rule locked_request_agrees)
  then show ?thesis by simp
qed

text \<open>The strip policy never refuses a request, applying it again changes nothing more, and it adds no
  selector of its own but a platform: every other selector it leaves is the one of the request.\<close>

lemma strip_total_idempotent:
  assumes "rq_lockPolicy req = Some LockStrip"
  shows "\<exists>f. applyRequestLockPolicy override rest req session = Inr (req\<lparr>rq_flags := Some f\<rparr>) \<and>
    applyRequestLockPolicy override rest (req\<lparr>rq_flags := Some f\<rparr>) session = Inr (req\<lparr>rq_flags := Some f\<rparr>) \<and>
    (\<forall>k. k \<noteq> CPlatform \<longrightarrow> flag_value f k = None \<or>
       (\<exists>g. rq_flags req = Some g \<and> flag_value f k = flag_value g k))"
proof -
  define f where "f = (case rq_flags req of Some g \<Rightarrow> g | None \<Rightarrow> no_flags rest)"
  define lock where "lock = rq_lockPlatform req"
  define over where "over = override (rq_command req)"
  define cs where "cs = (if over then [] else request_conflicts session lock f)"
  define g where "g = (if cs = [] then (if shouldApplyLockPlatformDefault over session f lock
      then f\<lparr>fl_platform := lock\<rparr> else f) else applyStripLockPolicy f cs lock session)"
  have first: "applyRequestLockPolicy override rest req session = Inr (req\<lparr>rq_flags := Some g\<rparr>)"
    unfolding apply_lock_eq [OF assms] f_def [symmetric] lock_def [symmetric] over_def [symmetric] cs_def [symmetric]
    by (simp add: g_def)
  have clean: "over \<or> request_conflicts session lock g = []"
    using default_clean [of over session f lock] strip_clean [of session lock f]
    by (auto simp: g_def cs_def)
  have settled: "\<not> shouldApplyLockPlatformDefault over session g lock"
  proof (cases "cs = []")
    case True
    show ?thesis
    proof (cases "shouldApplyLockPlatformDefault over session f lock")
      case dflt: True
      then have "lock \<noteq> None" by (auto simp: shouldApplyLockPlatformDefault_def split: if_splits)
      moreover have "g = f\<lparr>fl_platform := lock\<rparr>" using True dflt by (simp add: g_def)
      ultimately show ?thesis by (simp add: shouldApplyLockPlatformDefault_def)
    next
      case False
      with True show ?thesis by (simp add: g_def)
    qed
  next
    case False
    then show ?thesis
      by (auto simp: g_def shouldApplyLockPlatformDefault_def applyStripLockPolicy_def Let_def split: option.splits)
  qed
  have again: "rq_lockPolicy (req\<lparr>rq_flags := Some g\<rparr>) = Some LockStrip" using assms by simp
  have second: "applyRequestLockPolicy override rest (req\<lparr>rq_flags := Some g\<rparr>) session = Inr (req\<lparr>rq_flags := Some g\<rparr>)"
    unfolding apply_lock_eq [OF again] using clean settled by (auto simp: over_def lock_def)
  have "flag_value g k = None \<or> flag_value g k = flag_value f k" if "k \<noteq> CPlatform" for k
    using that flag_strip [of f cs k]
    by (cases k) (auto simp: g_def applyStripLockPolicy_def Let_def split: option.splits if_splits)
  moreover have "flag_value (no_flags rest) k = None" for k by (cases k) (simp_all add: no_flags_def)
  ultimately have "flag_value g k = None \<or> (\<exists>h. rq_flags req = Some h \<and> flag_value g k = flag_value h k)"
    if "k \<noteq> CPlatform" for k
    using that unfolding f_def by (cases "rq_flags req") fastforce+
  with first second show ?thesis by blast
qed


lemma strip_total_idempotent_example:
  "\<exists>f. applyRequestLockPolicy (\<lambda>_. False) () (sample_request LockStrip) (Some sample_session) =
      Inr (sample_request LockStrip\<lparr>rq_flags := Some f\<rparr>) \<and> flag_value f CIosSimulatorDeviceSet = None"
proof -
  have "rq_lockPolicy (sample_request LockStrip) = Some LockStrip" by (simp add: sample_request_def)
  from strip_total_idempotent [OF this, of "\<lambda>_. False" "()" "Some sample_session"]
  obtain f where "applyRequestLockPolicy (\<lambda>_. False) () (sample_request LockStrip) (Some sample_session) =
      Inr (sample_request LockStrip\<lparr>rq_flags := Some f\<rparr>)"
    and "flag_value f CIosSimulatorDeviceSet = None \<or> (\<exists>g. rq_flags (sample_request LockStrip) = Some g \<and>
      flag_value f CIosSimulatorDeviceSet = flag_value g CIosSimulatorDeviceSet)"
    by (metis conflict_key.distinct(9))
  then show ?thesis by (auto simp: sample_request_def no_flags_def)
qed

text \<open>A session agrees with the selection that opened it up to two spellings: when a device is
  resolved from a platform, a target and at most one of udid, serial and name, the same selectors given
  again to a session on that device conflict exactly when it is the macOS host selected by its udid, or
  when the name was recognised only after the underscores and runs of spaces were normalized.\<close>

lemma selection_agrees_with_session:
  assumes "resolveDevice collate devices sel ctx = Inr d" and "bs_device s = d"
    and "length (filter truthy [sl_udid sel, sl_serial sel, sl_deviceName sel]) \<le> 1"
  shows "map fst (listSessionSelectorConflicts s
      (Some \<lparr>fl_platform = sl_platform sel, fl_target = sl_target sel, fl_udid = sl_udid sel,
        fl_serial = sl_serial sel, fl_device = sl_deviceName sel, fl_iosSimulatorDeviceSet = None,
        fl_androidDeviceAllowlist = None, \<dots> = rest\<rparr>)) =
    (if truthy (sl_udid sel) \<and> isMacOs d then [CUdid] else []) @
    (if truthy (sl_deviceName sel) \<and>
        js_lower (js_trim (the (sl_deviceName sel))) \<noteq> js_lower (js_trim (dv_name d)) then [CDevice] else [])"
proof -
  let ?f = "\<lparr>fl_platform = sl_platform sel, fl_target = sl_target sel, fl_udid = sl_udid sel,
        fl_serial = sl_serial sel, fl_device = sl_deviceName sel, fl_iosSimulatorDeviceSet = None,
        fl_androidDeviceAllowlist = None, \<dots> = rest\<rparr>"
  have ans: "answers sel ctx d"
    using resolveDevice_finds [where collate = collate and devices = devices and sel = sel and ctx = ctx] assms(1) by simp
  then have sel: "matchesPlatformSelector d (sl_platform sel)"
    "case sl_target sel of None \<Rightarrow> True | Some t \<Rightarrow> device_target_of d = t"
    by (simp_all add: answers_def matchesDeviceSelector_def)
  have plat: "\<not> session_refuses d ?f CPlatform" and tgt: "\<not> session_refuses d ?f CTarget"
    using sel by (auto split: option.splits)
  have udid: "session_refuses d ?f CUdid \<longleftrightarrow> truthy (sl_udid sel) \<and> isMacOs d"
    using ans by (cases "sl_udid sel") (auto simp: answers_def isIosFamily_def)
  have serial: "\<not> session_refuses d ?f CSerial"
    using ans assms(3) by (cases "sl_serial sel") (auto simp: answers_def split: if_splits)
  show ?thesis
    unfolding session_conflicts_eq assms(2) map_map comp_def fst_conv all_keys_def
    using plat tgt udid serial by simp
qed

lemma selection_agrees_with_session_example:
  "map fst (listSessionSelectorConflicts
      \<lparr>bs_name = ''s'', bs_device = (sample_device PApple ''i'' Simulator True)\<lparr>dv_name := ''iPhone 17''\<rparr>, bs_recording = False\<rparr>
      (Some \<lparr>fl_platform = None, fl_target = None, fl_udid = None, fl_serial = None, fl_device = Some ''iphone_17'',
        fl_iosSimulatorDeviceSet = None, fl_androidDeviceAllowlist = None\<rparr>)) = [CDevice]"
proof -
  let ?d = "(sample_device PApple ''i'' Simulator True)\<lparr>dv_name := ''iPhone 17''\<rparr>"
  let ?sel = "any_device\<lparr>sl_deviceName := Some ''iphone_17''\<rparr>"
  have "resolveDevice (\<lambda>a b. 0) [?d] ?sel default_context = Inr ?d" by code_simp
  moreover have "bs_device \<lparr>bs_name = ''s'', bs_device = ?d, bs_recording = False\<rparr> = ?d" by simp
  moreover have "length (filter truthy [sl_udid ?sel, sl_serial ?sel, sl_deviceName ?sel]) \<le> 1" by code_simp
  ultimately have "map fst (listSessionSelectorConflicts \<lparr>bs_name = ''s'', bs_device = ?d, bs_recording = False\<rparr>
      (Some \<lparr>fl_platform = sl_platform ?sel, fl_target = sl_target ?sel, fl_udid = sl_udid ?sel,
        fl_serial = sl_serial ?sel, fl_device = sl_deviceName ?sel, fl_iosSimulatorDeviceSet = None,
        fl_androidDeviceAllowlist = None, \<dots> = ()\<rparr>)) =
    (if truthy (sl_udid ?sel) \<and> isMacOs ?d then [CUdid] else []) @
    (if truthy (sl_deviceName ?sel) \<and>
        js_lower (js_trim (the (sl_deviceName ?sel))) \<noteq> js_lower (js_trim (dv_name ?d)) then [CDevice] else [])"
    by (rule selection_agrees_with_session)
  moreover have "js_lower (js_trim (the (sl_deviceName ?sel))) \<noteq> js_lower (js_trim (dv_name ?d))" by code_simp
  ultimately show ?thesis by (simp add: any_device_def)
qed

end
