(* ===== verification/SnapshotTree.thy ===== *)
theory SnapshotTree
  imports Snapshots Devices
begin

text \<open>
  Reading nodes and walking the tree: \<^verbatim>\<open>src/utils/text-surface.ts\<close>,
  \<^verbatim>\<open>src/snapshot/snapshot-processing.ts\<close> and \<^verbatim>\<open>src/snapshot/snapshot-tree.ts\<close>.

  The index map of the code, built from the list of nodes, is the lookup of the last node with an index.
\<close>

section \<open>Types and texts\<close>

text \<open>\<open>replace(/.../gi, '')\<close> with a lower-case word.\<close>

function remove_word_ci :: "string \<Rightarrow> string \<Rightarrow> string" where
  "remove_word_ci w [] = []"
| "remove_word_ci w (c # s) =
     (if w \<noteq> [] \<and> js_lower (take (length w) (c # s)) = w
      then remove_word_ci w (drop (length w) (c # s))
      else c # remove_word_ci w s)"
  by pat_completeness auto
termination
  by (relation "measure (\<lambda>(w, s). length s)") auto

definition last_segment :: "(char \<Rightarrow> bool) \<Rightarrow> string \<Rightarrow> string" where
  "last_segment sep s = rev (takeWhile (\<lambda>c. \<not> sep c) (rev s))"

definition normalizeType :: "string \<Rightarrow> string" where
  "normalizeType type =
     (let bare = remove_word_ci ''xcuielementtype'' (js_trim type);
          normalized = js_lower (if take 2 bare = ''AX'' then drop 2 bare else bare)
      in last_segment (\<lambda>c. c = CHR ''.'' \<or> c = CHR ''/'') normalized)"

definition or_empty :: "string option \<Rightarrow> string" where
  "or_empty v = (case v of None \<Rightarrow> [] | Some s \<Rightarrow> s)"

definition trimText :: "string option \<Rightarrow> string" where
  "trimText value = (case value of Some s \<Rightarrow> js_trim s | None \<Rightarrow> [])"

definition includes_any :: "string \<Rightarrow> string list \<Rightarrow> bool" where
  "includes_any s ws = list_ex (js_includes s) ws"

definition prefersValueForReadableText :: "string \<Rightarrow> bool" where
  "prefersValueForReadableText type =
     includes_any (normalizeType type)
       [''textfield'', ''securetextfield'', ''searchfield'', ''edittext'', ''textview'', ''textarea'']"

text \<open>\<open>/^[\w.]+:id\/[\w.-]+$/i\<close> and \<open>/^_?NS:\d+$/i\<close>.\<close>

definition is_resource_id :: "string \<Rightarrow> bool" where
  "is_resource_id s =
     (let pkg = takeWhile (\<lambda>c. is_word_char c \<or> c = CHR ''.'') s;
          rest = drop (length pkg) s
      in pkg \<noteq> [] \<and> js_lower (take 4 rest) = '':id/'' \<and> drop 4 rest \<noteq> [] \<and>
         list_all (\<lambda>c. is_word_char c \<or> c = CHR ''.'' \<or> c = CHR ''-'') (drop 4 rest))"

definition is_ns_id :: "string \<Rightarrow> bool" where
  "is_ns_id s =
     (let rest = (if take 1 s = ''_'' then drop 1 s else s)
      in js_lower (take 3 rest) = ''ns:'' \<and> drop 3 rest \<noteq> [] \<and> list_all is_digit_char (drop 3 rest))"

definition isMeaningfulReadableIdentifier :: "string \<Rightarrow> bool" where
  "isMeaningfulReadableIdentifier value =
     (if value = [] then False else \<not> is_resource_id value \<and> \<not> is_ns_id value)"

definition js_or :: "string \<Rightarrow> string \<Rightarrow> string" where
  "js_or a b = (if a \<noteq> [] then a else b)"

definition extractReadableText :: "'a raw_node_scheme \<Rightarrow> string" where
  "extractReadableText node =
     (let label = trimText (nd_label node);
          value = trimText (nd_value node);
          identifier = trimText (nd_identifier node);
          fallbackIdentifier = (if isMeaningfulReadableIdentifier identifier then identifier else [])
      in if prefersValueForReadableText (or_empty (nd_type node))
         then js_or value (js_or label fallbackIdentifier)
         else js_or label (js_or value fallbackIdentifier))"

definition isLargeTextSurface :: "'a raw_node_scheme \<Rightarrow> string option \<Rightarrow> bool" where
  "isLargeTextSurface node displayType =
     (if displayType \<in> {Some ''text-view'', Some ''text-field'', Some ''search''} then True
      else
        let normalized = normalizeType (or_empty (nd_type node));
            rawRole = js_lower (or_empty (nd_role node) @ '' '' @ or_empty (nd_subrole node))
        in includes_any normalized
             [''textview'', ''textarea'', ''textfield'', ''securetextfield'', ''searchfield'', ''edittext''] \<or>
           includes_any rawRole [''text area'', ''text field''])"

definition buildTextPreview :: "string \<Rightarrow> string" where
  "buildTextPreview t =
     (let normalized = js_trim (collapse_spaces t)
      in if length normalized \<le> 48 then normalized else take 45 normalized @ ''...'')"

definition shouldSummarizeTextSurface :: "string \<Rightarrow> bool" where
  "shouldSummarizeTextSurface t =
     (if t = [] then False else length t > 80 \<or> list_ex (\<lambda>c. c = CHR 0x0D \<or> c = CHR 0x0A) t)"

definition describeTextSurface :: "'a raw_node_scheme \<Rightarrow> string option \<Rightarrow> string \<times> bool \<times> bool" where
  "describeTextSurface node displayType =
     (let t = extractReadableText node; isLargeSurface = isLargeTextSurface node displayType
      in (t, isLargeSurface, isLargeSurface \<and> shouldSummarizeTextSurface t))"

section \<open>Labels\<close>

text \<open>The trimmed label, value and identifier, the empty ones left out.\<close>

definition text_candidates :: "'a raw_node_scheme \<Rightarrow> string list" where
  "text_candidates node = filter (\<lambda>v. v \<noteq> []) (map trimText [nd_label node, nd_value node, nd_identifier node])"

definition first_of :: "'a list \<Rightarrow> 'a option" where
  "first_of xs = (case xs of [] \<Rightarrow> None | x # _ \<Rightarrow> Some x)"

definition extractNodeText :: "'a raw_node_scheme \<Rightarrow> string" where
  "extractNodeText node = or_empty (first_of (text_candidates node))"

definition extractNodeReadText :: "'a raw_node_scheme \<Rightarrow> string" where
  "extractNodeReadText node = extractReadableText node"

definition findNodeByLabel :: "'a raw_node_scheme list \<Rightarrow> string \<Rightarrow> 'a raw_node_scheme option" where
  "findNodeByLabel nodes label =
     (let query = js_lower label
      in find (\<lambda>node. js_includes (js_lower (or_empty (nd_label node))) query \<or>
                      js_includes (js_lower (or_empty (nd_value node))) query \<or>
                      js_includes (js_lower (or_empty (nd_identifier node))) query) nodes)"

definition isMeaningfulLabel :: "string \<Rightarrow> bool" where
  "isMeaningfulLabel value =
     (let t = js_trim value
      in if t = [] then False
         else if js_lower t = ''true'' \<or> js_lower t = ''false'' then False
         else if list_all is_digit_char t then False
         else True)"

definition center_y :: "rect \<Rightarrow> rat" where
  "center_y r = ry r + rheight r / 2"

fun nearest_label_loop :: "rat \<Rightarrow> 'a raw_node_scheme list \<Rightarrow> (string \<times> rat) option \<Rightarrow> (string \<times> rat) option" where
  "nearest_label_loop targetY [] best = best"
| "nearest_label_loop targetY (node # nodes) best =
     (case (nd_rect node, first_of (text_candidates node)) of
        (Some r, Some label) \<Rightarrow>
          if isMeaningfulLabel label
          then (let distance = \<bar>center_y r - targetY\<bar>
                in nearest_label_loop targetY nodes
                     (if best = None \<or> distance < snd (the best) then Some (label, distance) else best))
          else nearest_label_loop targetY nodes best
      | _ \<Rightarrow> nearest_label_loop targetY nodes best)"

definition findNearestMeaningfulLabel :: "'a raw_node_scheme \<Rightarrow> 'a raw_node_scheme list \<Rightarrow> string option" where
  "findNearestMeaningfulLabel target nodes =
     (case nd_rect target of
        None \<Rightarrow> None
      | Some r \<Rightarrow> map_option fst (nearest_label_loop (center_y r) nodes None))"

definition resolveRefLabel :: "'a raw_node_scheme \<Rightarrow> 'a raw_node_scheme list \<Rightarrow> string option" where
  "resolveRefLabel node nodes =
     (case first_of (text_candidates node) of
        Some primary \<Rightarrow> if isMeaningfulLabel primary then Some primary else findNearestMeaningfulLabel node nodes
      | None \<Rightarrow> findNearestMeaningfulLabel node nodes)"

definition displayNodeLabel :: "'a raw_node_scheme \<Rightarrow> string" where
  "displayNodeLabel node =
     js_or (trimText (nd_label node)) (js_or (trimText (nd_value node)) (trimText (nd_identifier node)))"

definition isFillableType :: "string \<Rightarrow> platform \<Rightarrow> bool" where
  "isFillableType type p =
     (let normalized = normalizeType type
      in if normalized = [] then True
         else if p = PAndroid then includes_any normalized [''edittext'', ''autocompletetextview'']
         else includes_any normalized [''textfield'', ''securetextfield'', ''searchfield'', ''textview'', ''textarea''] \<or>
              normalized = ''search'')"

section \<open>The tree\<close>

text \<open>Depths of the groups left out; the innermost first.\<close>

fun prune_loop :: "int list \<Rightarrow> raw_node list \<Rightarrow> raw_node list" where
  "prune_loop skippedDepths [] = []"
| "prune_loop skippedDepths (node # nodes) =
     (let depth = (case nd_depth node of None \<Rightarrow> 0 | Some d \<Rightarrow> d);
          skipped = dropWhile (\<lambda>d. depth \<le> d) skippedDepths;
          type = normalizeType (or_empty (nd_type node));
          hasMeaningfulLabel =
            (case first_of (text_candidates node) of Some l \<Rightarrow> isMeaningfulLabel l | None \<Rightarrow> False)
      in if (type = ''group'' \<or> type = ''ioscontentgroup'') \<and> \<not> hasMeaningfulLabel
         then prune_loop (depth # skipped) nodes
         else node\<lparr>nd_depth := Some (max 0 (depth - int (length skipped)))\<rparr> # prune_loop skipped nodes)"

definition pruneGroupNodes :: "raw_node list \<Rightarrow> raw_node list" where
  "pruneGroupNodes nodes = prune_loop [] nodes"

definition node_at_index :: "'a raw_node_scheme list \<Rightarrow> int \<Rightarrow> 'a raw_node_scheme option" where
  "node_at_index nodes i = find (\<lambda>n. nd_index n = i) (rev nodes)"

definition nth_node :: "'a list \<Rightarrow> int \<Rightarrow> 'a option" where
  "nth_node nodes i = (if 0 \<le> i \<and> i < int (length nodes) then Some (nodes ! nat i) else None)"

lemma node_at_index_mem: "node_at_index nodes i = Some n \<Longrightarrow> n \<in> set nodes \<and> nd_index n = i"
  unfolding node_at_index_def find_Some_iff by (metis nth_mem set_rev)

lemma nth_node_mem: "nth_node nodes i = Some n \<Longrightarrow> n \<in> set nodes"
  by (auto simp: nth_node_def split: if_splits)

text \<open>The parent that \<open>findSnapshotAncestor\<close> steps to: by index, or else by position.\<close>

definition parent_step :: "'a raw_node_scheme list \<Rightarrow> int \<Rightarrow> 'a raw_node_scheme option" where
  "parent_step nodes i = (case node_at_index nodes i of Some n \<Rightarrow> Some n | None \<Rightarrow> nth_node nodes i)"

lemma parent_step_mem: "parent_step nodes i = Some n \<Longrightarrow> n \<in> set nodes"
  by (auto simp: parent_step_def dest: node_at_index_mem nth_node_mem split: option.splits)

abbreviation unvisited :: "'a raw_node_scheme list \<Rightarrow> int list \<Rightarrow> nat" where
  "unvisited nodes visited \<equiv> card (nd_index ` set nodes - set visited)"

lemma unvisited_less:
  "n \<in> set nodes \<Longrightarrow> nd_index n \<notin> set visited \<Longrightarrow> unvisited nodes (nd_index n # visited) < unvisited nodes visited"
  by (intro psubset_card_mono) auto

lemma unvisited_le: "unvisited nodes (i # visited) \<le> unvisited nodes visited"
  by (intro card_mono) auto

function ancestor_loop ::
    "'a raw_node_scheme list \<Rightarrow> ('a raw_node_scheme \<Rightarrow> 'b option) \<Rightarrow> int list \<Rightarrow> 'a raw_node_scheme \<Rightarrow> 'b option" where
  "ancestor_loop nodes resolve visited current =
     (case nd_parentIndex current of
        None \<Rightarrow> None
      | Some p \<Rightarrow>
          if nd_index current \<in> set visited then None
          else (case parent_step nodes p of
                  None \<Rightarrow> None
                | Some parent \<Rightarrow>
                    (case resolve parent of
                       Some r \<Rightarrow> Some r
                     | None \<Rightarrow> ancestor_loop nodes resolve (nd_index current # visited) parent)))"
  by pat_completeness auto
termination
proof (relation "measure (\<lambda>(nodes, resolve, visited, current).
    unvisited nodes visited + (if current \<in> set nodes then 0 else 1))", goal_cases)
  case 1
  then show ?case by simp
next
  case (2 nodes resolve visited current p parent)
  then have "parent \<in> set nodes" by (blast dest: parent_step_mem)
  then show ?case
    using 2 unvisited_less [of current nodes visited] unvisited_le [of nodes "nd_index current" visited] by auto
qed

declare ancestor_loop.simps [simp del]

definition findSnapshotAncestor ::
    "'a raw_node_scheme list \<Rightarrow> 'a raw_node_scheme \<Rightarrow> ('a raw_node_scheme \<Rightarrow> 'b option) \<Rightarrow> 'b option" where
  "findSnapshotAncestor nodes node resolve = ancestor_loop nodes resolve [] node"

definition findNearestAncestor ::
    "'a raw_node_scheme list \<Rightarrow> 'a raw_node_scheme \<Rightarrow> ('a raw_node_scheme \<Rightarrow> bool) \<Rightarrow> 'a raw_node_scheme option" where
  "findNearestAncestor nodes node pred =
     findSnapshotAncestor nodes node (\<lambda>parent. if pred parent then Some parent else None)"

definition findNearestHittableAncestor ::
    "'a raw_node_scheme list \<Rightarrow> 'a raw_node_scheme \<Rightarrow> 'a raw_node_scheme option" where
  "findNearestHittableAncestor nodes node =
     (if nd_hittable node = Some True then Some node
      else findNearestAncestor nodes node (\<lambda>parent. nd_hittable parent = Some True))"

text \<open>Normalization: indices become positions, and a parent index that does not name an earlier node is
  replaced by the nearest shallower node before it. \<open>stack\<close> holds depths and positions, the innermost
  first.\<close>

definition original_position :: "raw_node list \<Rightarrow> int \<Rightarrow> nat option" where
  "original_position nodes i = map_option snd (find (\<lambda>(n, _). nd_index n = i) (rev (zip nodes [0..<length nodes])))"

fun normalize_loop :: "raw_node list \<Rightarrow> (int \<times> nat) list \<Rightarrow> nat \<Rightarrow> raw_node list \<Rightarrow> raw_node list" where
  "normalize_loop nodes stack position [] = []"
| "normalize_loop nodes stack position (node # rest) =
     (let depth = max 0 (case nd_depth node of None \<Rightarrow> 0 | Some d \<Rightarrow> d);
          ancestors = dropWhile (\<lambda>(d, _). depth \<le> d) stack;
          explicitParentIndex =
            (case nd_parentIndex node of None \<Rightarrow> None | Some p \<Rightarrow> original_position nodes p);
          parentIndex =
            (case explicitParentIndex of
               Some e \<Rightarrow> if e < position then Some e else map_option snd (first_of ancestors)
             | None \<Rightarrow> map_option snd (first_of ancestors))
      in node\<lparr>nd_index := int position, nd_depth := Some depth, nd_parentIndex := map_option int parentIndex\<rparr> #
         normalize_loop nodes ((depth, position) # ancestors) (Suc position) rest)"

definition normalizeSnapshotTree :: "raw_node list \<Rightarrow> raw_node list" where
  "normalizeSnapshotTree nodes = normalize_loop nodes [] 0 nodes"

section \<open>Normalized trees\<close>

definition depth_of :: "raw_node \<Rightarrow> int" where
  "depth_of node = max 0 (case nd_depth node of None \<Rightarrow> 0 | Some d \<Rightarrow> d)"

text \<open>The last of the first \<open>i\<close> nodes that is shallower than a depth.\<close>

definition nearest_shallower :: "raw_node list \<Rightarrow> nat \<Rightarrow> int \<Rightarrow> nat option" where
  "nearest_shallower nodes i d = find (\<lambda>j. depth_of (nodes ! j) < d) (rev [0..<i])"

definition tree_parent :: "raw_node list \<Rightarrow> nat \<Rightarrow> nat option" where
  "tree_parent nodes i =
     (case Option.bind (nd_parentIndex (nodes ! i)) (original_position nodes) of
        Some e \<Rightarrow> if e < i then Some e else nearest_shallower nodes i (depth_of (nodes ! i))
      | None \<Rightarrow> nearest_shallower nodes i (depth_of (nodes ! i)))"

lemma nearest_shallower_Suc:
  "nearest_shallower nodes (Suc i) d = (if depth_of (nodes ! i) < d then Some i else nearest_shallower nodes i d)"
  by (simp add: nearest_shallower_def)

lemma nearest_shallower_less: "nearest_shallower nodes i d = Some j \<Longrightarrow> j < i"
  unfolding nearest_shallower_def find_Some_iff by (metis atLeastLessThan_iff nth_mem set_rev set_upt)

definition stack_ok :: "raw_node list \<Rightarrow> (int \<times> nat) list \<Rightarrow> nat \<Rightarrow> bool" where
  "stack_ok nodes stack i \<longleftrightarrow>
     (\<forall>d. map_option snd (first_of (dropWhile (\<lambda>(e, _). d \<le> e) stack)) = nearest_shallower nodes i d)"

lemma dropWhile_weaker: "(\<And>x. P x \<Longrightarrow> Q x) \<Longrightarrow> dropWhile Q (dropWhile P xs) = dropWhile Q xs"
  by (induction xs) auto

lemma stack_ok_push:
  assumes "stack_ok nodes stack i"
  shows "stack_ok nodes ((depth_of (nodes ! i), i) # dropWhile (\<lambda>(e, _). depth_of (nodes ! i) \<le> e) stack) (Suc i)"
proof -
  have "dropWhile (\<lambda>(e, _). d \<le> e) (dropWhile (\<lambda>(e, _). depth_of (nodes ! i) \<le> e) stack) =
      dropWhile (\<lambda>(e, _). d \<le> e) stack" if "d \<le> depth_of (nodes ! i)" for d
    using that by (intro dropWhile_weaker) auto
  with assms show ?thesis
    by (simp add: stack_ok_def nearest_shallower_Suc first_of_def)
qed

lemma normalize_loop_eq:
  "stack_ok nodes stack position \<Longrightarrow> rest = drop position nodes \<Longrightarrow> position \<le> length nodes \<Longrightarrow>
   normalize_loop nodes stack position rest =
     map (\<lambda>i. (nodes ! i)\<lparr>nd_index := int i, nd_depth := Some (depth_of (nodes ! i)),
            nd_parentIndex := map_option int (tree_parent nodes i)\<rparr>) [position..<length nodes]"
proof (induction rest arbitrary: stack position)
  case Nil
  then show ?case by simp
next
  case (Cons node rest)
  then have pos: "position < length nodes" by (cases "position < length nodes") simp_all
  have node: "node = nodes ! position" and rest: "rest = drop (Suc position) nodes"
    using Cons_nth_drop_Suc [OF pos] Cons.prems(2) by (metis list.inject)+
  let ?stack = "(depth_of node, position) # dropWhile (\<lambda>(d, _). depth_of node \<le> d) stack"
  have "stack_ok nodes ?stack (Suc position)"
    using stack_ok_push [OF Cons.prems(1)] by (simp add: node)
  note IH = Cons.IH [OF this rest]
  have parent: "map_option snd (first_of (dropWhile (\<lambda>(d, _). depth_of node \<le> d) stack)) =
      nearest_shallower nodes position (depth_of node)"
    using Cons.prems(1) by (simp add: stack_ok_def)
  have "normalize_loop nodes stack position (node # rest) =
      node\<lparr>nd_index := int position, nd_depth := Some (depth_of node),
        nd_parentIndex := map_option int (tree_parent nodes position)\<rparr> #
      normalize_loop nodes ?stack (Suc position) rest"
    unfolding normalize_loop.simps Let_def depth_of_def [symmetric] parent tree_parent_def node [symmetric]
    by (cases "nd_parentIndex node") (simp_all split: option.split)
  with IH pos show ?case by (simp add: node upt_conv_Cons)
qed

text \<open>A normalized snapshot is a tree laid out parents first: every node keeps its place, its index is
  that place, and its parent is the earlier node its parent index named or else the nearest earlier
  node that is shallower, so a parent always stands before its children.\<close>

lemma normalized_tree:
  "length (normalizeSnapshotTree nodes) = length nodes \<and>
   (\<forall>i < length nodes.
      nd_index (normalizeSnapshotTree nodes ! i) = int i \<and>
      nd_label (normalizeSnapshotTree nodes ! i) = nd_label (nodes ! i) \<and>
      nd_parentIndex (normalizeSnapshotTree nodes ! i) = map_option int (tree_parent nodes i) \<and>
      (case tree_parent nodes i of None \<Rightarrow> True | Some p \<Rightarrow> p < i))"
proof -
  have "stack_ok nodes [] 0" by (simp add: stack_ok_def first_of_def nearest_shallower_def)
  from normalize_loop_eq [OF this, of nodes]
  have eq: "normalizeSnapshotTree nodes = map (\<lambda>i. (nodes ! i)\<lparr>nd_index := int i,
      nd_depth := Some (depth_of (nodes ! i)), nd_parentIndex := map_option int (tree_parent nodes i)\<rparr>)
      [0..<length nodes]"
    by (simp add: normalizeSnapshotTree_def)
  have "p < i" if "tree_parent nodes i = Some p" for i p
    using that by (auto simp: tree_parent_def dest: nearest_shallower_less split: option.splits if_splits)
  then show ?thesis unfolding eq by (auto split: option.splits)
qed

lemma normalized_tree_example:
  "nd_parentIndex (normalizeSnapshotTree [blank_node\<lparr>nd_index := 7\<rparr>, blank_node\<lparr>nd_index := 9, nd_depth := Some 1\<rparr>] ! 1) =
     Some 0"
proof -
  let ?ns = "[blank_node\<lparr>nd_index := 7\<rparr>, blank_node\<lparr>nd_index := 9, nd_depth := Some 1\<rparr>]"
  have "nd_parentIndex (normalizeSnapshotTree ?ns ! 1) = map_option int (tree_parent ?ns 1)"
    using normalized_tree [of ?ns] by simp
  moreover have "tree_parent ?ns 1 = Some 0" by code_simp
  ultimately show ?thesis by simp
qed

end
