(* ===== verification/SnapshotLines.thy ===== *)
theory SnapshotLines
  imports SnapshotTree
begin

text \<open>
  The printed form of a snapshot: \<^verbatim>\<open>src/snapshot/snapshot-lines.ts\<close> and the label test of
  \<^verbatim>\<open>src/utils/scroll-indicator.ts\<close>.

  The option \<open>summarizeTextSurfaces\<close> is a boolean argument (absent is false). The stack of visible
  depths is kept top first.
\<close>

section \<open>Roles\<close>

text \<open>\<open>replace\<close> with an anchored literal.\<close>

definition strip_start :: "string \<Rightarrow> string \<Rightarrow> string" where
  "strip_start p s = (if take (length p) s = p then drop (length p) s else s)"

definition starts_with :: "string \<Rightarrow> string \<Rightarrow> bool" where
  "starts_with s p \<longleftrightarrow> take (length p) s = p"

definition role_labels :: "(string \<times> string) list" where
  "role_labels =
     [(''application'', ''application''), (''navigationbar'', ''navigation-bar''), (''tabbar'', ''tab-bar''),
      (''button'', ''button''), (''imagebutton'', ''button''), (''link'', ''link''), (''cell'', ''cell''),
      (''statictext'', ''text''), (''checkedtextview'', ''text''), (''textbox'', ''text-field''),
      (''textfield'', ''text-field''), (''edittext'', ''text-field''), (''textarea'', ''text-view''),
      (''switch'', ''switch''), (''slider'', ''slider''), (''image'', ''image''), (''imageview'', ''image''),
      (''webview'', ''webview''), (''framelayout'', ''group''), (''linearlayout'', ''group''),
      (''relativelayout'', ''group''), (''constraintlayout'', ''group''), (''viewgroup'', ''group''),
      (''view'', ''group''), (''listview'', ''list''), (''recyclerview'', ''list''),
      (''collectionview'', ''collection''), (''searchfield'', ''search''), (''heading'', ''heading''),
      (''activityindicator'', ''activity-indicator''), (''progressindicator'', ''progress-indicator''),
      (''segmentedcontrol'', ''segmented-control''), (''group'', ''group''), (''window'', ''window''),
      (''checkbox'', ''checkbox''), (''radio'', ''radio''), (''menuitem'', ''menu-item''),
      (''toolbar'', ''toolbar''), (''scrollarea'', ''scroll-area''), (''scrollview'', ''scroll-area''),
      (''nestedscrollview'', ''scroll-area''), (''table'', ''table'')]"

definition lookupRoleLabel :: "string \<Rightarrow> string option" where
  "lookupRoleLabel normalized = map_of role_labels normalized"

definition strip_android_packages :: "string \<Rightarrow> string" where
  "strip_android_packages s =
     strip_start ''com.android.'' (strip_start ''com.google.android.'' (strip_start ''androidx.''
       (strip_start ''android.webkit.'' (strip_start ''android.view.'' (strip_start ''android.widget.'' s)))))"

definition formatRole :: "string \<Rightarrow> string" where
  "formatRole type =
     (let bare = js_lower (remove_word_ci ''xcuielementtype'' type);
          isAndroidClass = (js_includes type ''.'' \<and>
            (starts_with type ''android.'' \<or> starts_with type ''androidx.'' \<or> starts_with type ''com.''));
          normalized =
            (if js_includes bare ''.''
             then (let short = strip_android_packages bare
                   in if isAndroidClass \<and> js_includes short ''.'' then last_segment (\<lambda>c. c = CHR ''.'') short
                      else short)
             else bare)
      in if normalized = ''textview'' then (if isAndroidClass then ''text'' else ''text-view'')
         else js_or (js_or (or_empty (lookupRoleLabel normalized)) normalized) ''element'')"

definition isEditableRole :: "string \<Rightarrow> bool" where
  "isEditableRole type \<longleftrightarrow> type = ''text-field'' \<or> type = ''text-view'' \<or> type = ''search''"

section \<open>Labels\<close>

text \<open>\<open>/^(vertical|horizontal)\s+scroll\s+bar(?:,?\s*\d+\s+pages?)?$/\<close> read from left to right: each
  run of spaces or digits is followed by a character outside it.\<close>

definition eat_spaces1 :: "string \<Rightarrow> string option" where
  "eat_spaces1 s = (if s \<noteq> [] \<and> is_js_space (hd s) then Some (dropWhile is_js_space s) else None)"

definition eat_word :: "string \<Rightarrow> string \<Rightarrow> string option" where
  "eat_word w s = (if starts_with s w then Some (drop (length w) s) else None)"

definition is_page_count :: "string \<Rightarrow> bool" where
  "is_page_count s =
     (let rest = dropWhile is_js_space (strip_start '','' s);
          digits = takeWhile is_digit_char rest
      in digits \<noteq> [] \<and>
         (case eat_spaces1 (drop (length digits) rest) of
            None \<Rightarrow> False
          | Some unit \<Rightarrow> unit = ''page'' \<or> unit = ''pages''))"

definition isSystemScrollIndicatorLabel :: "string \<Rightarrow> bool" where
  "isSystemScrollIndicatorLabel label =
     (let normalized = js_lower (js_trim label)
      in if normalized = [] then False
         else
           (case Option.bind (Option.bind (Option.bind (Option.bind
                   (if starts_with normalized ''vertical'' then eat_word ''vertical'' normalized
                    else eat_word ''horizontal'' normalized)
                   eat_spaces1) (eat_word ''scroll'')) eat_spaces1) (eat_word ''bar'') of
              None \<Rightarrow> False
            | Some rest \<Rightarrow> rest = [] \<or> is_page_count rest))"

definition shouldSuppressScrollContainerLabel :: "string \<Rightarrow> string \<Rightarrow> bool" where
  "shouldSuppressScrollContainerLabel type label =
     (if type \<noteq> ''scroll-area'' \<and> type \<noteq> ''list'' \<and> type \<noteq> ''collection'' \<and> type \<noteq> ''table'' then False
      else isSystemScrollIndicatorLabel label)"

definition isGenericResourceId :: "string \<Rightarrow> bool" where
  "isGenericResourceId value = is_resource_id value"

definition displayLabel :: "'a raw_node_scheme \<Rightarrow> string \<Rightarrow> string" where
  "displayLabel node type =
     (let label = trimText (nd_label node);
          value = trimText (nd_value node);
          identifier = trimText (nd_identifier node)
      in if label \<noteq> [] \<and> shouldSuppressScrollContainerLabel type label then []
         else if isEditableRole type \<and> value \<noteq> [] then value
         else if label \<noteq> [] then label
         else if value \<noteq> [] then value
         else if identifier = [] then []
         else if isGenericResourceId identifier \<and>
                 (type = ''group'' \<or> type = ''image'' \<or> type = ''list'' \<or> type = ''collection'') then []
         else identifier)"

definition semanticSurfaceLabel :: "'a raw_node_scheme \<Rightarrow> string \<Rightarrow> string \<Rightarrow> string" where
  "semanticSurfaceLabel node type t =
     (let label = trimText (nd_label node); identifier = trimText (nd_identifier node)
      in if label \<noteq> [] \<and> label \<noteq> t then label
         else if identifier \<noteq> [] \<and> \<not> isGenericResourceId identifier \<and> identifier \<noteq> t then identifier
         else if type = ''text'' \<or> type = ''text-view'' then ''Text view''
         else if type = ''text-field'' then ''Text field''
         else if type = ''search'' then ''Search field''
         else [])"

definition resolveDisplayLabel ::
  "'a raw_node_scheme \<Rightarrow> string \<Rightarrow> bool \<Rightarrow> string \<times> bool \<times> bool \<Rightarrow> string" where
  "resolveDisplayLabel node type summarize textSurface =
     (case textSurface of
        (t, _, shouldSummarize) \<Rightarrow>
          if \<not> summarize then displayLabel node type
          else if \<not> shouldSummarize then displayLabel node type
          else js_or (semanticSurfaceLabel node type t) (displayLabel node type))"

section \<open>Metadata\<close>

definition looksScrollable :: "'a raw_node_scheme \<Rightarrow> string \<Rightarrow> bool" where
  "looksScrollable node type =
     (if type = ''scroll-area'' then True
      else js_includes (js_lower (or_empty (nd_type node))) ''scroll'' \<or>
           js_includes (js_lower (or_empty (nd_role node) @ '' '' @ or_empty (nd_subrole node))) ''scroll'')"

definition escapePreviewText :: "string \<Rightarrow> string" where
  "escapePreviewText value =
     concat (map (\<lambda>c. if c = CHR 0x22 then [CHR 0x5C, CHR 0x22] else [c])
       (concat (map (\<lambda>c. if c = CHR 0x5C then [CHR 0x5C, CHR 0x5C] else [c]) value)))"

text \<open>A \<open>Set\<close> keeps the first of equal entries.\<close>

definition uniqueMetadata :: "string list \<Rightarrow> string list" where
  "uniqueMetadata values = rev (remdups (rev values))"

definition buildLineMetadata ::
  "'a raw_node_scheme \<Rightarrow> string \<Rightarrow> bool \<Rightarrow> string \<times> bool \<times> bool \<Rightarrow> string list" where
  "buildLineMetadata node type summarize textSurface =
     (case textSurface of
        (t, _, shouldSummarize) \<Rightarrow>
          (let metadata = (if nd_enabled node = Some False then [''disabled''] else []) @
                 (case nd_presentationHints node of None \<Rightarrow> [] | Some hints \<Rightarrow> hints)
           in if \<not> summarize then uniqueMetadata metadata
              else
                (let metadata = metadata @
                       (if nd_selected node = Some True then [''selected''] else []) @
                       (if nd_focused node = Some True then [''focused''] else []) @
                       (if isEditableRole type then [''editable''] else []) @
                       (if looksScrollable node type then [''scrollable''] else [])
                 in if \<not> shouldSummarize then uniqueMetadata metadata
                    else uniqueMetadata
                      (metadata @
                       [''preview:'' @ [CHR 0x22] @ escapePreviewText (buildTextPreview t) @ [CHR 0x22],
                        ''truncated'']))))"

section \<open>Lines\<close>

definition js_trim_end :: "string \<Rightarrow> string" where
  "js_trim_end s = rev (js_trim_start (rev s))"

definition formatSnapshotLine ::
  "snapshot_node \<Rightarrow> nat \<Rightarrow> bool \<Rightarrow> string option \<Rightarrow> bool \<Rightarrow> string" where
  "formatSnapshotLine node depth hiddenGroup normalizedType summarize =
     (let type = (case normalizedType of
                    Some t \<Rightarrow> t
                  | None \<Rightarrow> formatRole (case nd_type node of None \<Rightarrow> ''Element'' | Some t \<Rightarrow> t));
          textSurface = describeTextSurface node (Some type);
          label = resolveDisplayLabel node type summarize textSurface;
          indent = concat (replicate depth ''  '');
          ref = (if nd_ref node \<noteq> [] then ''@'' @ nd_ref node else []);
          metadata = buildLineMetadata node type summarize textSurface;
          metadata = (if label = [] \<and> (nd_inheritsLabel node \<or> nd_inheritsIdentifier node)
                      then metadata @ [''same label as parent''] else metadata);
          metadataText = concat (map (\<lambda>entry. '' ['' @ entry @ '']'') metadata);
          textPart = (if label \<noteq> [] then '' '' @ [CHR 0x22] @ label @ [CHR 0x22] else [])
      in if hiddenGroup then js_trim_end (indent @ ref @ '' ['' @ type @ '']'' @ metadataText)
         else js_trim_end (indent @ ref @ '' ['' @ type @ '']'' @ textPart @ metadataText))"

record display_line =
  dn_node :: snapshot_node
  dn_depth :: nat
  dn_type :: string
  dn_text :: string

definition display_raw_depth :: "snapshot_node \<Rightarrow> int" where
  "display_raw_depth node = (case nd_depth node of None \<Rightarrow> 0 | Some d \<Rightarrow> d)"

definition display_type :: "snapshot_node \<Rightarrow> string" where
  "display_type node = formatRole (case nd_type node of None \<Rightarrow> ''Element'' | Some t \<Rightarrow> t)"

definition hidden_group :: "snapshot_node \<Rightarrow> bool" where
  "hidden_group node =
     (let label = js_or (trimText (nd_label node)) (js_or (trimText (nd_value node)) (trimText (nd_identifier node)));
          hasInheritedLabel = (nd_inheritsLabel node \<or> nd_inheritsIdentifier node)
      in display_type node = ''group'' \<and> label = [] \<and> \<not> hasInheritedLabel)"

fun display_loop :: "bool \<Rightarrow> int list \<Rightarrow> snapshot_node list \<Rightarrow> display_line list" where
  "display_loop summarize visibleDepths [] = []"
| "display_loop summarize visibleDepths (node # nodes) =
     (let depth = display_raw_depth node; type = display_type node
      in if hidden_group node then display_loop summarize visibleDepths nodes
         else
           let visibleDepths = dropWhile (\<lambda>d. depth \<le> d) visibleDepths;
               adjustedDepth = length visibleDepths
           in \<lparr>dn_node = node, dn_depth = adjustedDepth, dn_type = type,
               dn_text = formatSnapshotLine node adjustedDepth False (Some type) summarize\<rparr> #
              display_loop summarize (depth # visibleDepths) nodes)"

definition buildSnapshotDisplayLines :: "snapshot_node list \<Rightarrow> bool \<Rightarrow> display_line list" where
  "buildSnapshotDisplayLines nodes summarize = display_loop summarize [] nodes"

section \<open>Nesting of the lines\<close>

text \<open>One more than the indentation of the last earlier line that is shallower; \<open>earlier\<close> is
  listed backwards.\<close>

definition enclosing_depth :: "display_line list \<Rightarrow> int \<Rightarrow> nat" where
  "enclosing_depth earlier d =
     (case find (\<lambda>l. display_raw_depth (dn_node l) < d) earlier of
        None \<Rightarrow> 0
      | Some l \<Rightarrow> Suc (dn_depth l))"

definition depths_ok :: "int list \<Rightarrow> display_line list \<Rightarrow> bool" where
  "depths_ok stack earlier \<longleftrightarrow> (\<forall>d. length (dropWhile (\<lambda>e. d \<le> e) stack) = enclosing_depth earlier d)"

lemma depths_ok_push:
  assumes "depths_ok stack earlier"
    "dn_depth l = length (dropWhile (\<lambda>e. display_raw_depth (dn_node l) \<le> e) stack)"
  shows "depths_ok (display_raw_depth (dn_node l) # dropWhile (\<lambda>e. display_raw_depth (dn_node l) \<le> e) stack)
    (l # earlier)"
  unfolding depths_ok_def
proof
  fix d
  let ?r = "display_raw_depth (dn_node l)"
  show "length (dropWhile (\<lambda>e. d \<le> e) (?r # dropWhile (\<lambda>e. ?r \<le> e) stack)) = enclosing_depth (l # earlier) d"
  proof (cases "?r < d")
    case True
    with assms(2) show ?thesis by (simp add: enclosing_depth_def)
  next
    case False
    then have "dropWhile (\<lambda>e. d \<le> e) (dropWhile (\<lambda>e. ?r \<le> e) stack) = dropWhile (\<lambda>e. d \<le> e) stack"
      by (intro dropWhile_weaker) simp
    with False assms(1) show ?thesis by (simp add: depths_ok_def enclosing_depth_def)
  qed
qed

lemma display_loop_nodes:
  "map dn_node (display_loop summarize stack nodes) = filter (\<lambda>n. \<not> hidden_group n) nodes"
  by (induction summarize stack nodes rule: display_loop.induct) (simp_all add: Let_def)

lemma display_loop_depths:
  "depths_ok stack earlier \<Longrightarrow> display_loop summarize stack nodes = before @ l # after \<Longrightarrow>
     dn_depth l = enclosing_depth (rev before @ earlier) (display_raw_depth (dn_node l))"
proof (induction summarize stack nodes arbitrary: earlier before rule: display_loop.induct)
  case (1 summarize stack)
  then show ?case by simp
next
  case (2 summarize stack node nodes)
  show ?case
  proof (cases "hidden_group node")
    case True
    with 2 show ?thesis by (simp add: Let_def)
  next
    case False
    define visible where "visible = dropWhile (\<lambda>d. display_raw_depth node \<le> d) stack"
    define line where "line = \<lparr>dn_node = node, dn_depth = length visible, dn_type = display_type node,
      dn_text = formatSnapshotLine node (length visible) False (Some (display_type node)) summarize\<rparr>"
    have lines: "line # display_loop summarize (display_raw_depth node # visible) nodes = before @ l # after"
      using False "2.prems"(2) by (simp add: Let_def line_def visible_def)
    have node: "dn_node line = node" "dn_depth line = length visible" by (simp_all add: line_def)
    have stack': "depths_ok (display_raw_depth node # visible) (line # earlier)"
      using depths_ok_push [OF "2.prems"(1), of line] by (simp add: node visible_def)
    show ?thesis
    proof (cases before)
      case Nil
      with lines have "l = line" by simp
      with node "2.prems"(1) Nil show ?thesis by (simp add: visible_def depths_ok_def)
    next
      case (Cons b before')
      with lines have b: "b = line"
          "display_loop summarize (display_raw_depth node # visible) nodes = before' @ l # after" by simp_all
      from "2.IH"(2) [OF refl refl False visible_def refl stack' b(2)] Cons b(1) show ?thesis by simp
    qed
  qed
qed

text \<open>The printed lines of a snapshot are its nodes but the unlabelled groups, in order, and a line is
  indented one step deeper than the last line above it with a smaller depth, or not at all when there
  is none: hidden groups leave no gap in the indentation.\<close>

lemma display_lines_nest:
  "map dn_node (buildSnapshotDisplayLines nodes summarize) = filter (\<lambda>n. \<not> hidden_group n) nodes \<and>
   (\<forall>before l after. buildSnapshotDisplayLines nodes summarize = before @ l # after \<longrightarrow>
      dn_depth l = enclosing_depth (rev before) (display_raw_depth (dn_node l)))"
  unfolding buildSnapshotDisplayLines_def
  using display_loop_nodes display_loop_depths [of "[]" "[]"]
  by (simp add: depths_ok_def enclosing_depth_def)

definition example_group :: snapshot_node where
  "example_group = raw_node.extend (blank_node\<lparr>nd_type := Some ''Cell'', nd_depth := Some 0,
     nd_label := Some ''Menu''\<rparr>) \<lparr>nd_ref = ''e1'', nd_inheritsLabel = False, nd_inheritsIdentifier = False\<rparr>"

definition example_hidden :: snapshot_node where
  "example_hidden = raw_node.extend (blank_node\<lparr>nd_type := Some ''android.view.ViewGroup'', nd_depth := Some 1\<rparr>)
     \<lparr>nd_ref = ''e2'', nd_inheritsLabel = False, nd_inheritsIdentifier = False\<rparr>"

definition example_button :: snapshot_node where
  "example_button = raw_node.extend (blank_node\<lparr>nd_type := Some ''Button'', nd_depth := Some 2,
     nd_label := Some '' Save '', nd_enabled := Some False\<rparr>)
     \<lparr>nd_ref = ''e3'', nd_inheritsLabel = False, nd_inheritsIdentifier = False\<rparr>"

lemma example_hidden_groups:
  "\<not> hidden_group example_group" "hidden_group example_hidden" "\<not> hidden_group example_button"
  by code_simp+

lemma example_depths:
  "display_raw_depth example_group = 0" "display_raw_depth example_hidden = 1" "display_raw_depth example_button = 2"
  by code_simp+

lemma example_line:
  "formatSnapshotLine example_button 1 False None False =
     ''  @e3 [button] '' @ [CHR 0x22] @ ''Save'' @ [CHR 0x22] @ '' [disabled]''"
  by code_simp

lemma display_lines_nest_example:
  "dn_depth (buildSnapshotDisplayLines [example_group, example_hidden, example_button] False ! 1) = 1"
proof -
  let ?lines = "buildSnapshotDisplayLines [example_group, example_hidden, example_button] False"
  obtain a b where lines: "?lines = [a, b]" "dn_node a = example_group" "dn_depth a = 0" "dn_node b = example_button"
    by (simp add: buildSnapshotDisplayLines_def Let_def example_hidden_groups example_depths)
  then have "?lines = [a] @ b # []" by simp
  with display_lines_nest [of "[example_group, example_hidden, example_button]" False]
  have "dn_depth b = enclosing_depth (rev [a]) (display_raw_depth (dn_node b))" by blast
  then show ?thesis by (simp add: lines enclosing_depth_def example_depths)
qed

end
