(* ===== verification/SnapshotDiff.thy ===== *)
theory SnapshotDiff
  imports SnapshotLines
begin

text \<open>
  The difference of two snapshots: \<^verbatim>\<open>src/snapshot/snapshot-diff.ts\<close>, Myers' greedy algorithm on
  the printed lines.

  The map \<open>v\<close> is a partial map from diagonals to integers, copied into the trace as in the code. The
  positions are integers; the lemmas \<open>reach_bounds\<close> and \<open>trace_furthest\<close> show that no negative
  position is ever reached, so the list accesses are those of the code. The edit graph, its paths
  (\<open>reach\<close>) and the furthest points on a diagonal are the reference the loops are proved against.
\<close>

section \<open>Lines\<close>

record comparable_line =
  cl_text :: string
  cl_comparable :: string
  cl_ref :: "string option"

datatype diff_kind = Added | Removed | Unchanged

record diff_line =
  dl_kind :: diff_kind
  dl_text :: string
  dl_ref :: "string option"

definition snapshotNodeToComparableLine :: "snapshot_node \<Rightarrow> int option \<Rightarrow> string" where
  "snapshotNodeToComparableLine node depthOverride =
     (let role = formatRole (case nd_type node of None \<Rightarrow> ''Element'' | Some t \<Rightarrow> t);
          textPart = displayLabel node role;
          enabledPart = (if nd_enabled node = Some False then ''disabled'' else ''enabled'');
          selectedPart = (if nd_selected node = Some True then ''selected'' else ''unselected'');
          hittablePart = (if nd_hittable node = Some True then ''hittable'' else ''not-hittable'');
          depthPart = int_dec (case depthOverride of Some d \<Rightarrow> d
                                 | None \<Rightarrow> (case nd_depth node of None \<Rightarrow> 0 | Some d \<Rightarrow> d))
      in js_join ''|'' [depthPart, role, textPart, enabledPart, selectedPart, hittablePart])"

record diff_options =
  do_flatten :: bool
  do_withRefs :: bool

definition snapshotNodesToLines :: "snapshot_node list \<Rightarrow> diff_options \<Rightarrow> comparable_line list" where
  "snapshotNodesToLines nodes opts =
     (let ref_of = (\<lambda>node. if do_withRefs opts \<and> nd_ref node \<noteq> [] then Some (nd_ref node) else None)
      in if do_flatten opts
         then map (\<lambda>node. \<lparr>cl_text = formatSnapshotLine node 0 False None False,
                 cl_comparable = snapshotNodeToComparableLine node (Some 0),
                 cl_ref = ref_of node\<rparr>) nodes
         else map (\<lambda>line. \<lparr>cl_text = dn_text line,
                 cl_comparable = snapshotNodeToComparableLine (dn_node line) (Some (int (dn_depth line))),
                 cl_ref = ref_of (dn_node line)\<rparr>) (buildSnapshotDisplayLines nodes False))"

definition countSnapshotComparableLines :: "snapshot_node list \<Rightarrow> diff_options \<Rightarrow> nat" where
  "countSnapshotComparableLines nodes opts = length (snapshotNodesToLines nodes opts)"

section \<open>The greedy algorithm\<close>

type_synonym vmap = "int \<rightharpoonup> int"

definition getV :: "vmap \<Rightarrow> int \<Rightarrow> int" where
  "getV v k = (case v k of None \<Rightarrow> 0 | Some x \<Rightarrow> x)"

definition shouldGoDown :: "vmap \<Rightarrow> int \<Rightarrow> int \<Rightarrow> bool" where
  "shouldGoDown v k d \<longleftrightarrow> k = - d \<or> (k \<noteq> d \<and> getV v (k - 1) < getV v (k + 1))"

definition same_line :: "comparable_line list \<Rightarrow> comparable_line list \<Rightarrow> int \<Rightarrow> int \<Rightarrow> bool" where
  "same_line previous current x y \<longleftrightarrow>
     x < int (length previous) \<and> y < int (length current) \<and>
     cl_comparable (previous ! nat x) = cl_comparable (current ! nat y)"

function snake :: "comparable_line list \<Rightarrow> comparable_line list \<Rightarrow> int \<Rightarrow> int \<Rightarrow> int \<times> int" where
  "snake previous current x y =
     (if same_line previous current x y then snake previous current (x + 1) (y + 1) else (x, y))"
  by pat_completeness auto
termination
  by (relation "measure (\<lambda>(previous, _, x, _). nat (int (length previous) - x))") (auto simp: same_line_def)

declare snake.simps [simp del]

definition myers_step :: "comparable_line list \<Rightarrow> comparable_line list \<Rightarrow> vmap \<Rightarrow> int \<Rightarrow> int \<Rightarrow> int \<times> int" where
  "myers_step previous current v d k =
     (let goDown = shouldGoDown v k d;
          x = (if goDown then getV v (k + 1) else getV v (k - 1) + 1)
      in snake previous current x (x - k))"

function myers_row :: "comparable_line list \<Rightarrow> comparable_line list \<Rightarrow> int \<Rightarrow> int \<Rightarrow> vmap \<Rightarrow> vmap option" where
  "myers_row previous current d k v =
     (if k \<le> d
      then (case myers_step previous current v d k of
              (x, y) \<Rightarrow>
                if int (length previous) \<le> x \<and> int (length current) \<le> y then None
                else myers_row previous current d (k + 2) (v(k \<mapsto> x)))
      else Some v)"
  by pat_completeness auto
termination
  by (relation "measure (\<lambda>(_, _, d, k, _). nat (d - k + 1))") auto

declare myers_row.simps [simp del]

text \<open>The array of lines is kept last element first, so a push is a cons and \<open>reverse\<close> returns it as it is.\<close>

definition truthy_ref :: "string option \<Rightarrow> string option" where
  "truthy_ref r = (case r of None \<Rightarrow> None | Some s \<Rightarrow> if s = [] then None else Some s)"

function back_unchanged ::
  "comparable_line list \<Rightarrow> int \<Rightarrow> int \<Rightarrow> int \<Rightarrow> int \<Rightarrow> diff_line list \<Rightarrow> int \<times> int \<times> diff_line list" where
  "back_unchanged current prevX prevY x y lines =
     (if x > prevX \<and> y > prevY
      then back_unchanged current prevX prevY (x - 1) (y - 1)
             (\<lparr>dl_kind = Unchanged, dl_text = cl_text (current ! nat (y - 1)), dl_ref = None\<rparr> # lines)
      else (x, y, lines))"
  by pat_completeness auto
termination
  by (relation "measure (\<lambda>(_, prevX, _, x, _). nat (x - prevX))") auto

declare back_unchanged.simps [simp del]

fun backtrack_loop ::
  "vmap list \<Rightarrow> comparable_line list \<Rightarrow> comparable_line list \<Rightarrow> nat \<Rightarrow> int \<Rightarrow> int \<Rightarrow> diff_line list \<Rightarrow> diff_line list" where
  "backtrack_loop trace previous current d x y lines =
     (let v = trace ! d;
          k = x - y;
          goDown = shouldGoDown v k (int d);
          prevK = (if goDown then k + 1 else k - 1);
          prevX = getV v prevK;
          prevY = prevX - prevK
      in case back_unchanged current prevX prevY x y lines of
           (x, y, lines) \<Rightarrow>
             (case d of
                0 \<Rightarrow> lines
              | Suc d' \<Rightarrow>
                  if x = prevX
                  then (let added = current ! nat prevY
                        in backtrack_loop trace previous current d' x prevY
                             (\<lparr>dl_kind = Added, dl_text = cl_text added, dl_ref = truthy_ref (cl_ref added)\<rparr> # lines))
                  else backtrack_loop trace previous current d' prevX y
                         (\<lparr>dl_kind = Removed, dl_text = cl_text (previous ! nat prevX), dl_ref = None\<rparr> # lines)))"

declare backtrack_loop.simps [simp del]

definition backtrackMyers ::
  "vmap list \<Rightarrow> comparable_line list \<Rightarrow> comparable_line list \<Rightarrow> nat \<Rightarrow> nat \<Rightarrow> diff_line list" where
  "backtrackMyers trace previous current n m =
     backtrack_loop trace previous current (length trace - 1) (int n) (int m) []"

function myers_rounds ::
  "comparable_line list \<Rightarrow> comparable_line list \<Rightarrow> nat \<Rightarrow> vmap \<Rightarrow> vmap list \<Rightarrow> diff_line list" where
  "myers_rounds previous current d v trace =
     (let n = length previous; m = length current
      in if d \<le> n + m
         then (let trace = trace @ [v]
               in case myers_row previous current (int d) (- int d) v of
                    None \<Rightarrow> backtrackMyers trace previous current n m
                  | Some v \<Rightarrow> myers_rounds previous current (Suc d) v trace)
         else [])"
  by pat_completeness auto
termination
  by (relation "measure (\<lambda>(previous, current, d, _, _). Suc (length previous + length current) - d)") auto

declare myers_rounds.simps [simp del]

definition diffComparableLinesMyers :: "comparable_line list \<Rightarrow> comparable_line list \<Rightarrow> diff_line list" where
  "diffComparableLinesMyers previous current = myers_rounds previous current 0 [1 \<mapsto> 0] []"

section \<open>Edit scripts\<close>

definition removed_line :: "comparable_line \<Rightarrow> diff_line" where
  "removed_line p = \<lparr>dl_kind = Removed, dl_text = cl_text p, dl_ref = None\<rparr>"

definition added_line :: "comparable_line \<Rightarrow> diff_line" where
  "added_line c = \<lparr>dl_kind = Added, dl_text = cl_text c, dl_ref = truthy_ref (cl_ref c)\<rparr>"

definition unchanged_line :: "comparable_line \<Rightarrow> diff_line" where
  "unchanged_line c = \<lparr>dl_kind = Unchanged, dl_text = cl_text c, dl_ref = None\<rparr>"

fun edit_script :: "comparable_line list \<Rightarrow> comparable_line list \<Rightarrow> diff_line list \<Rightarrow> bool" where
  "edit_script ps cs [] \<longleftrightarrow> ps = [] \<and> cs = []"
| "edit_script ps cs (l # ls) \<longleftrightarrow>
     (case dl_kind l of
        Removed \<Rightarrow> ps \<noteq> [] \<and> l = removed_line (hd ps) \<and> edit_script (tl ps) cs ls
      | Added \<Rightarrow> cs \<noteq> [] \<and> l = added_line (hd cs) \<and> edit_script ps (tl cs) ls
      | Unchanged \<Rightarrow> ps \<noteq> [] \<and> cs \<noteq> [] \<and> cl_comparable (hd ps) = cl_comparable (hd cs) \<and>
          l = unchanged_line (hd cs) \<and> edit_script (tl ps) (tl cs) ls)"

definition changes :: "diff_line list \<Rightarrow> nat" where
  "changes ls = length (filter (\<lambda>l. dl_kind l \<noteq> Unchanged) ls)"

fun edit_distance :: "comparable_line list \<Rightarrow> comparable_line list \<Rightarrow> nat" where
  "edit_distance [] cs = length cs"
| "edit_distance (p # ps) [] = Suc (length ps)"
| "edit_distance (p # ps) (c # cs) =
     (if cl_comparable p = cl_comparable c
      then min (edit_distance ps cs) (Suc (min (edit_distance ps (c # cs)) (edit_distance (p # ps) cs)))
      else Suc (min (edit_distance ps (c # cs)) (edit_distance (p # ps) cs)))"

lemma changes_simps [simp]:
  "changes [] = 0"
  "changes (removed_line p # ls) = Suc (changes ls)"
  "changes (added_line p # ls) = Suc (changes ls)"
  "changes (unchanged_line p # ls) = changes ls"
  by (simp_all add: changes_def removed_line_def added_line_def unchanged_line_def)

lemma edit_script_line_simps [simp]:
  "edit_script ps cs (removed_line p # ls) \<longleftrightarrow> ps \<noteq> [] \<and> removed_line p = removed_line (hd ps) \<and> edit_script (tl ps) cs ls"
  "edit_script ps cs (added_line c # ls) \<longleftrightarrow> cs \<noteq> [] \<and> added_line c = added_line (hd cs) \<and> edit_script ps (tl cs) ls"
  "edit_script ps cs (unchanged_line c # ls) \<longleftrightarrow> ps \<noteq> [] \<and> cs \<noteq> [] \<and>
     cl_comparable (hd ps) = cl_comparable (hd cs) \<and> unchanged_line c = unchanged_line (hd cs) \<and>
     edit_script (tl ps) (tl cs) ls"
  by (simp_all add: edit_script.simps(2) removed_line_def added_line_def unchanged_line_def)

declare edit_script.simps(2) [simp del]

lemma edit_script_cases [consumes 1, case_names Empty Removed Added Unchanged]:
  assumes "edit_script ps cs ls"
  obtains "ps = []" "cs = []" "ls = []"
  | p ps' ls' where "ps = p # ps'" "ls = removed_line p # ls'" "edit_script ps' cs ls'"
  | c cs' ls' where "cs = c # cs'" "ls = added_line c # ls'" "edit_script ps cs' ls'"
  | p ps' c cs' ls' where "ps = p # ps'" "cs = c # cs'" "ls = unchanged_line c # ls'"
      "cl_comparable p = cl_comparable c" "edit_script ps' cs' ls'"
proof (cases ls)
  case Nil
  with assms show ?thesis by (auto intro: that(1))
next
  case (Cons l ls')
  show ?thesis
  proof (cases "dl_kind l")
    case A: Added
    with assms Cons show ?thesis by (cases cs) (auto simp: edit_script.simps(2) intro: that(3))
  next
    case R: Removed
    with assms Cons show ?thesis by (cases ps) (auto simp: edit_script.simps(2) intro: that(2))
  next
    case U: Unchanged
    with assms Cons show ?thesis by (cases ps; cases cs) (auto simp: edit_script.simps(2) intro: that(4))
  qed
qed

lemma edit_distance_Nil2 [simp]: "edit_distance ps [] = length ps"
  by (cases ps) simp_all

lemma edit_distance_le: "edit_script ps cs ls \<Longrightarrow> edit_distance ps cs \<le> changes ls"
proof (induction ls arbitrary: ps cs)
  case Nil
  then show ?case by simp
next
  case (Cons l ls)
  from Cons.prems show ?case
  proof (cases rule: edit_script_cases)
    case Empty
    then show ?thesis by simp
  next
    case (Removed p ps' ls')
    with Cons.IH [of ps' cs] show ?thesis by (cases cs) auto
  next
    case (Added c cs' ls')
    with Cons.IH [of ps cs'] show ?thesis by (cases ps) auto
  next
    case (Unchanged p ps' c cs' ls')
    with Cons.IH [of ps' cs'] show ?thesis by auto
  qed
qed

lemma edit_script_map_added: "edit_script [] cs (map added_line cs)"
  by (induction cs) simp_all

lemma edit_script_map_removed: "edit_script ps [] (map removed_line ps)"
  by (induction ps) simp_all

lemma changes_map [simp]:
  "changes (map added_line cs) = length cs" "changes (map removed_line ps) = length ps"
  by (induct cs, simp_all) (induct ps, simp_all)

lemma edit_distance_attained: "\<exists>ls. edit_script ps cs ls \<and> changes ls = edit_distance ps cs"
proof (induction ps cs rule: edit_distance.induct)
  case (1 cs)
  show ?case by (rule exI [of _ "map added_line cs"]) (simp add: edit_script_map_added)
next
  case (2 p ps)
  show ?case by (rule exI [of _ "map removed_line (p # ps)"]) (simp only: edit_script_map_removed changes_map, simp)
next
  case (3 p ps c cs)
  obtain r where r: "edit_script ps (c # cs) r" "changes r = edit_distance ps (c # cs)"
    using "3.IH" by blast
  obtain a where a: "edit_script (p # ps) cs a" "changes a = edit_distance (p # ps) cs"
    using "3.IH" by blast
  have scripts: "edit_script (p # ps) (c # cs) (removed_line p # r)" "edit_script (p # ps) (c # cs) (added_line c # a)"
    using r a by simp_all
  show ?case
  proof (cases "cl_comparable p = cl_comparable c")
    case True
    then obtain u where u: "edit_script ps cs u" "changes u = edit_distance ps cs"
      using "3.IH" by blast
    with True have "edit_script (p # ps) (c # cs) (unchanged_line c # u)" by simp
    with scripts have "\<forall>ls \<in> {removed_line p # r, added_line c # a, unchanged_line c # u}. edit_script (p # ps) (c # cs) ls"
      by blast
    moreover have "\<exists>ls \<in> {removed_line p # r, added_line c # a, unchanged_line c # u}. changes ls = edit_distance (p # ps) (c # cs)"
      using True r(2) a(2) u(2) by (simp add: min_def)
    ultimately show ?thesis by blast
  next
    case False
    then have "\<exists>ls \<in> {removed_line p # r, added_line c # a}. changes ls = edit_distance (p # ps) (c # cs)"
      using r(2) a(2) by (simp add: min_def)
    moreover from scripts have "\<forall>ls \<in> {removed_line p # r, added_line c # a}. edit_script (p # ps) (c # cs) ls"
      by blast
    ultimately show ?thesis by blast
  qed
qed

section \<open>Furthest reaching points\<close>


inductive reach :: "comparable_line list \<Rightarrow> comparable_line list \<Rightarrow> nat \<Rightarrow> int \<Rightarrow> int \<Rightarrow> bool" for ps cs where
  start: "reach ps cs 0 0 0"
| diagonal: "reach ps cs d x y \<Longrightarrow> same_line ps cs x y \<Longrightarrow> reach ps cs d (x + 1) (y + 1)"
| right: "reach ps cs d x y \<Longrightarrow> reach ps cs (Suc d) (x + 1) y"
| down: "reach ps cs d x y \<Longrightarrow> reach ps cs (Suc d) x (y + 1)"

definition on_diagonal :: "nat \<Rightarrow> int \<Rightarrow> bool" where
  "on_diagonal d k \<longleftrightarrow> \<bar>k\<bar> \<le> int d \<and> even (int d + k)"

definition furthest :: "comparable_line list \<Rightarrow> comparable_line list \<Rightarrow> nat \<Rightarrow> int \<Rightarrow> int \<Rightarrow> bool" where
  "furthest ps cs d k x \<longleftrightarrow>
     reach ps cs d x (x - k) \<and> (\<forall>x'. reach ps cs d x' (x' - k) \<longrightarrow> x' \<le> x)"

lemma furthestD: "furthest ps cs d k x \<Longrightarrow> reach ps cs d x' y' \<Longrightarrow> x' - y' = k \<Longrightarrow> x' \<le> x"
proof -
  assume f: "furthest ps cs d k x" and r: "reach ps cs d x' y'" and k: "x' - y' = k"
  from k have "y' = x' - k" by simp
  with f r show ?thesis by (simp add: furthest_def)
qed

lemma reach_bounds: "reach ps cs d x y \<Longrightarrow> 0 \<le> x \<and> 0 \<le> y \<and> on_diagonal d (x - y)"
  by (induction rule: reach.induct) (auto simp: on_diagonal_def)

lemma on_diagonal_left: "on_diagonal (Suc d) k \<Longrightarrow> k \<noteq> - int (Suc d) \<Longrightarrow> on_diagonal d (k - 1)"
  unfolding on_diagonal_def abs_le_iff by simp presburger

lemma on_diagonal_up: "on_diagonal (Suc d) k \<Longrightarrow> k \<noteq> int (Suc d) \<Longrightarrow> on_diagonal d (k + 1)"
  unfolding on_diagonal_def abs_le_iff by simp presburger

lemma reach_diagonals:
  assumes "reach ps cs d x y" "x \<le> x'" "\<And>z. x \<le> z \<Longrightarrow> z < x' \<Longrightarrow> same_line ps cs z (z - (x - y))"
  shows "reach ps cs d x' (x' - (x - y))"
  using assms(2,3)
proof (induction x' rule: int_ge_induct)
  case base
  with assms(1) show ?case by simp
next
  case (step z)
  have "reach ps cs d z (z - (x - y))" by (rule step.IH) (simp add: step.prems)
  from reach.diagonal [OF this step.prems] step.hyps show ?case by (simp add: algebra_simps)
qed

text \<open>The last edit of a path, and the matches that follow it.\<close>

lemma reach_last_edit:
  "reach ps cs (Suc d) x y \<Longrightarrow>
     \<exists>x0 \<le> x. (reach ps cs d (x0 - 1) (x0 - (x - y)) \<or> reach ps cs d x0 (x0 - (x - y) - 1)) \<and>
       (\<forall>z. x0 \<le> z \<and> z < x \<longrightarrow> same_line ps cs z (z - (x - y)))"
proof (induction "Suc d" x y rule: reach.induct)
  case (diagonal x y)
  then obtain x0 where x0: "x0 \<le> x"
      "reach ps cs d (x0 - 1) (x0 - (x - y)) \<or> reach ps cs d x0 (x0 - (x - y) - 1)"
      "\<And>z. x0 \<le> z \<Longrightarrow> z < x \<Longrightarrow> same_line ps cs z (z - (x - y))" by blast
  have "same_line ps cs z (z - (x - y))" if "x0 \<le> z" "z < x + 1" for z
    using that x0(3) [of z] diagonal.hyps(3) by (cases "z = x") simp_all
  with x0 show ?case by (intro exI [of _ x0]) auto
next
  case (right x y)
  then show ?case by (intro exI [of _ "x + 1"]) auto
next
  case (down x y)
  then show ?case by (intro exI [of _ x]) auto
qed

lemma snake_spec:
  "snake ps cs x y = (x', y') \<Longrightarrow>
     x \<le> x' \<and> y' = x' - (x - y) \<and> (\<forall>z. x \<le> z \<and> z < x' \<longrightarrow> same_line ps cs z (z - (x - y))) \<and>
     \<not> same_line ps cs x' y'"
proof (induction ps cs x y rule: snake.induct)
  case (1 ps cs x y)
  show ?case
  proof (cases "same_line ps cs x y")
    case True
    with "1.prems" have "snake ps cs (x + 1) (y + 1) = (x', y')" by (simp add: snake.simps [of _ _ x y])
    from "1.IH" [OF True this] have IH: "x + 1 \<le> x'" "y' = x' - (x - y)" "\<not> same_line ps cs x' y'"
      "\<And>z. x + 1 \<le> z \<Longrightarrow> z < x' \<Longrightarrow> same_line ps cs z (z - (x - y))" by auto
    have "same_line ps cs z (z - (x - y))" if "x \<le> z" "z < x'" for z
      using that True IH(4) [of z] by (cases "z = x") auto
    with IH show ?thesis by auto
  next
    case False
    with "1.prems" show ?thesis by (auto simp: snake.simps [of _ _ x y])
  qed
qed


lemma furthest_start: "furthest ps cs 0 0 (fst (snake ps cs 0 0))"
proof -
  have last: "0 \<le> x \<and> y = x \<and> (\<forall>z. 0 \<le> z \<and> z < x \<longrightarrow> same_line ps cs z z)" if "reach ps cs 0 x y" for x y
    using that
  proof (induction "0 :: nat" x y rule: reach.induct)
    case (diagonal x y)
    then show ?case by (metis add_increasing2 less_add_one zless_add1_eq zero_le_one)
  qed auto
  obtain x' y' where sn: "snake ps cs 0 0 = (x', y')" by force
  note spec = snake_spec [OF sn]
  have "reach ps cs 0 x' (x' - (0 - 0))"
    by (rule reach_diagonals [OF reach.start]) (use spec in auto)
  moreover have "x \<le> x'" if "reach ps cs 0 x (x - 0)" for x
    using last [OF that] spec by (metis diff_zero le_cases less_le not_less)
  ultimately show ?thesis by (simp add: furthest_def sn)
qed

lemma furthest_step:
  assumes prev: "\<And>j. on_diagonal d j \<Longrightarrow> \<exists>x. v j = Some x \<and> furthest ps cs d j x"
    and k: "on_diagonal (Suc d) k"
  shows "furthest ps cs (Suc d) k (fst (myers_step ps cs v (int (Suc d)) k))"
proof -
  define x0 where "x0 = (if shouldGoDown v k (int (Suc d)) then getV v (k + 1) else getV v (k - 1) + 1)"
  obtain x y where sn: "snake ps cs x0 (x0 - k) = (x, y)" by force
  note spec = snake_spec [OF sn]
  have step: "fst (myers_step ps cs v (int (Suc d)) k) = x"
    using sn by (simp add: myers_step_def x0_def Let_def)
  have left: "furthest ps cs d (k - 1) (getV v (k - 1))" if "k \<noteq> - int (Suc d)"
  proof -
    from that k have "on_diagonal d (k - 1)" by (intro on_diagonal_left)
    from prev [OF this] show ?thesis by (auto simp: getV_def)
  qed
  have up: "furthest ps cs d (k + 1) (getV v (k + 1))" if "k \<noteq> int (Suc d)"
  proof -
    from that k have "on_diagonal d (k + 1)" by (intro on_diagonal_up)
    from prev [OF this] show ?thesis by (auto simp: getV_def)
  qed
  have from_here: "reach ps cs (Suc d) x0 (x0 - k)"
  proof (cases "shouldGoDown v k (int (Suc d))")
    case True
    then have "k \<noteq> int (Suc d)" by (auto simp: shouldGoDown_def)
    from up [OF this] have "reach ps cs d (getV v (k + 1)) (getV v (k + 1) - (k + 1))" by (simp add: furthest_def)
    from reach.down [OF this] True show ?thesis by (simp add: x0_def)
  next
    case False
    then have "k \<noteq> - int (Suc d)" by (auto simp: shouldGoDown_def)
    from left [OF this] have "reach ps cs d (getV v (k - 1)) (getV v (k - 1) - (k - 1))" by (simp add: furthest_def)
    from reach.right [OF this] False show ?thesis by (simp add: x0_def algebra_simps)
  qed
  have best: "x1 \<le> x0" if "reach ps cs d (x1 - 1) (x1 - k) \<or> reach ps cs d x1 (x1 - k - 1)" for x1
    using that
  proof
    assume r: "reach ps cs d (x1 - 1) (x1 - k)"
    from reach_bounds [OF r] have n: "k \<noteq> - int (Suc d)" by (auto simp: on_diagonal_def)
    from furthestD [OF left [OF n] r] have "x1 - 1 \<le> getV v (k - 1)" by simp
    with n show ?thesis by (auto simp: x0_def shouldGoDown_def)
  next
    assume r: "reach ps cs d x1 (x1 - k - 1)"
    from reach_bounds [OF r] have n: "k \<noteq> int (Suc d)" by (auto simp: on_diagonal_def)
    from furthestD [OF up [OF n] r] have "x1 \<le> getV v (k + 1)" by simp
    with n show ?thesis by (auto simp: x0_def shouldGoDown_def)
  qed
  have "reach ps cs (Suc d) x (x - (x0 - (x0 - k)))"
    by (rule reach_diagonals [OF from_here]) (use spec in auto)
  moreover have "x' \<le> x" if r: "reach ps cs (Suc d) x' (x' - k)" for x'
  proof (rule ccontr)
    assume "\<not> x' \<le> x"
    from reach_last_edit [OF r] obtain x1 where x1: "x1 \<le> x'"
        "reach ps cs d (x1 - 1) (x1 - k) \<or> reach ps cs d x1 (x1 - k - 1)"
        "\<And>z. x1 \<le> z \<Longrightarrow> z < x' \<Longrightarrow> same_line ps cs z (z - k)" by auto
    from best [OF x1(2)] spec have "x1 \<le> x" by simp
    with x1(3) [of x] \<open>\<not> x' \<le> x\<close> have "same_line ps cs x (x - k)" by simp
    moreover have "x - (x0 - (x0 - k)) = x - k" by simp
    ultimately show False using spec by metis
  qed
  ultimately show ?thesis unfolding furthest_def step by simp
qed


section \<open>Rows and traces\<close>

definition at_end :: "comparable_line list \<Rightarrow> comparable_line list \<Rightarrow> int \<times> int \<Rightarrow> bool" where
  "at_end ps cs q \<longleftrightarrow> int (length ps) \<le> fst q \<and> int (length cs) \<le> snd q"

definition row_done :: "comparable_line list \<Rightarrow> comparable_line list \<Rightarrow> nat \<Rightarrow> vmap \<Rightarrow> vmap \<Rightarrow> bool" where
  "row_done ps cs d v v' \<longleftrightarrow>
     (\<forall>j. on_diagonal d j \<longrightarrow> v' j = Some (fst (myers_step ps cs v (int d) j)) \<and>
        \<not> at_end ps cs (myers_step ps cs v (int d) j))"

lemma myers_step_cong:
  "v (k - 1) = v' (k - 1) \<Longrightarrow> v (k + 1) = v' (k + 1) \<Longrightarrow> myers_step ps cs v d k = myers_step ps cs v' d k"
  by (simp add: myers_step_def shouldGoDown_def getV_def)

lemma myers_row_spec:
  assumes "even (int d + k)" "- int d \<le> k"
    "\<And>j. on_diagonal d j \<Longrightarrow> j < k \<Longrightarrow> v j = Some (fst (myers_step ps cs v0 (int d) j)) \<and>
        \<not> at_end ps cs (myers_step ps cs v0 (int d) j)"
    "\<And>j. odd (int d + j) \<Longrightarrow> v j = v0 j"
  shows "case myers_row ps cs (int d) k v of
      None \<Rightarrow> \<exists>j. on_diagonal d j \<and> at_end ps cs (myers_step ps cs v0 (int d) j)
    | Some v' \<Rightarrow> row_done ps cs d v0 v'"
  using assms
proof (induction ps cs "int d" k v rule: myers_row.induct)
  case (1 ps cs k v)
  show ?case
  proof (cases "k \<le> int d")
    case False
    with "1.prems" show ?thesis
      by (auto simp: myers_row.simps [of _ _ _ k] row_done_def on_diagonal_def)
  next
    case True
    obtain x y where st: "myers_step ps cs v (int d) k = (x, y)" by force
    have eq: "myers_step ps cs v (int d) k = myers_step ps cs v0 (int d) k"
      using "1.prems"(1) by (intro myers_step_cong "1.prems"(4)) simp_all
    have k: "on_diagonal d k" using True "1.prems"(1,2) by (simp add: on_diagonal_def)
    show ?thesis
    proof (cases "at_end ps cs (x, y)")
      case at: True
      with True have "myers_row ps cs (int d) k v = None"
        by (simp add: myers_row.simps [of _ _ _ k] st at_end_def)
      with at k st eq show ?thesis by auto
    next
      case at: False
      with True have step: "myers_row ps cs (int d) k v = myers_row ps cs (int d) (k + 2) (v(k \<mapsto> x))"
        by (auto simp: myers_row.simps [of _ _ _ k] st at_end_def)
      show ?thesis unfolding step
      proof (rule "1.hyps" [OF True st [symmetric]])
        show "\<not> (int (length ps) \<le> x \<and> int (length cs) \<le> y)" using at by (simp add: at_end_def)
      next
        fix j
        assume j: "on_diagonal d j" "j < k + 2"
        with "1.prems"(1) have "j \<noteq> k + 1" by (auto simp: on_diagonal_def)
        with j(2) have "j = k \<or> j < k" by linarith
        then show "(v(k \<mapsto> x)) j = Some (fst (myers_step ps cs v0 (int d) j)) \<and>
            \<not> at_end ps cs (myers_step ps cs v0 (int d) j)"
          using "1.prems"(3) j st eq at by auto
      qed (use "1.prems" in auto)
    qed
  qed
qed

definition trace_ok :: "comparable_line list \<Rightarrow> comparable_line list \<Rightarrow> vmap list \<Rightarrow> bool" where
  "trace_ok ps cs T \<longleftrightarrow> T \<noteq> [] \<and> T ! 0 = [1 \<mapsto> 0] \<and>
     (\<forall>i. Suc i < length T \<longrightarrow> row_done ps cs i (T ! i) (T ! Suc i))"

lemma trace_furthest:
  assumes T: "trace_ok ps cs T" and i: "i < length T" and j: "on_diagonal i j"
  shows "furthest ps cs i j (fst (myers_step ps cs (T ! i) (int i) j))"
  using i j
proof (induction i arbitrary: j)
  case 0
  then have "j = 0" by (simp add: on_diagonal_def)
  with T furthest_start show ?case
    by (simp add: trace_ok_def myers_step_def shouldGoDown_def getV_def)
next
  case (Suc i)
  show ?case
  proof (rule furthest_step [OF _ Suc.prems(2)])
    fix k
    assume k: "on_diagonal i k"
    from T Suc.prems(1) k have "(T ! Suc i) k = Some (fst (myers_step ps cs (T ! i) (int i) k))"
      by (simp add: trace_ok_def row_done_def)
    with Suc.IH [OF _ k] Suc.prems(1) show "\<exists>x. (T ! Suc i) k = Some x \<and> furthest ps cs i k x" by simp
  qed
qed

lemma snd_myers_step: "snd (myers_step ps cs v d k) = fst (myers_step ps cs v d k) - k"
proof -
  define x0 where "x0 = (if shouldGoDown v k d then getV v (k + 1) else getV v (k - 1) + 1)"
  obtain x y where sn: "snake ps cs x0 (x0 - k) = (x, y)" by force
  then show ?thesis using snake_spec [OF sn] by (simp add: myers_step_def x0_def Let_def)
qed

lemma trace_not_reached:
  assumes T: "trace_ok ps cs T" and i: "Suc i < length T"
  shows "\<not> reach ps cs i (int (length ps)) (int (length cs))"
proof
  let ?n = "int (length ps)" and ?m = "int (length cs)"
  assume r: "reach ps cs i ?n ?m"
  from reach_bounds [OF r] have j: "on_diagonal i (?n - ?m)" by simp
  from trace_furthest [OF T _ j] i have "furthest ps cs i (?n - ?m) (fst (myers_step ps cs (T ! i) (int i) (?n - ?m)))"
    by simp
  from furthestD [OF this r] have "at_end ps cs (myers_step ps cs (T ! i) (int i) (?n - ?m))"
    by (simp add: at_end_def snd_myers_step)
  with T i j show False by (simp add: trace_ok_def row_done_def)
qed

text \<open>A path that leaves the grid spends the edits that do so for nothing.\<close>

lemma reach_clip:
  "reach ps cs d x y \<Longrightarrow>
     \<exists>e. int e = max 0 (x - int (length ps)) + max 0 (y - int (length cs)) \<and> e \<le> d \<and>
       reach ps cs (d - e) (min x (int (length ps))) (min y (int (length cs)))"
proof (induction rule: reach.induct)
  case start
  then show ?case by (auto intro: reach.start)
next
  case (diagonal d x y)
  from diagonal.hyps(2) have "x < int (length ps)" "y < int (length cs)" by (simp_all add: same_line_def)
  with diagonal show ?case by (auto intro: reach.diagonal)
next
  case (right d x y)
  then obtain e where e: "int e = max 0 (x - int (length ps)) + max 0 (y - int (length cs))" "e \<le> d"
      "reach ps cs (d - e) (min x (int (length ps))) (min y (int (length cs)))" by blast
  show ?case
  proof (cases "x < int (length ps)")
    case True
    with reach.right [OF e(3)] e show ?thesis by (intro exI [of _ e]) (simp add: Suc_diff_le)
  next
    case False
    with e show ?thesis by (intro exI [of _ "Suc e"]) simp
  qed
next
  case (down d x y)
  then obtain e where e: "int e = max 0 (x - int (length ps)) + max 0 (y - int (length cs))" "e \<le> d"
      "reach ps cs (d - e) (min x (int (length ps))) (min y (int (length cs)))" by blast
  show ?case
  proof (cases "y < int (length cs)")
    case True
    with reach.down [OF e(3)] e show ?thesis by (intro exI [of _ e]) (simp add: Suc_diff_le)
  next
    case False
    with e show ?thesis by (intro exI [of _ "Suc e"]) simp
  qed
qed

lemma trace_end:
  assumes T: "trace_ok ps cs T" and d: "length T = Suc d" and j: "on_diagonal d j"
    and e: "at_end ps cs (myers_step ps cs (T ! d) (int d) j)"
  shows "myers_step ps cs (T ! d) (int d) j = (int (length ps), int (length cs)) \<and> j = int (length ps) - int (length cs)"
proof -
  obtain x where x: "myers_step ps cs (T ! d) (int d) j = (x, x - j)"
    using snd_myers_step by (metis prod.collapse)
  from trace_furthest [OF T _ j] d x have r: "reach ps cs d x (x - j)" by (simp add: furthest_def)
  from e x have out: "int (length ps) \<le> x" "int (length cs) \<le> x - j" by (simp_all add: at_end_def)
  from reach_clip [OF r] obtain c where
    "int c = max 0 (x - int (length ps)) + max 0 (x - j - int (length cs))" and cd: "c \<le> d"
      and "reach ps cs (d - c) (min x (int (length ps))) (min (x - j) (int (length cs)))" by blast
  with out have c: "int c = x - int (length ps) + (x - j - int (length cs))"
      "reach ps cs (d - c) (int (length ps)) (int (length cs))" by (simp_all add: min_absorb2)
  from trace_not_reached [OF T, of "d - c"] c(2) d have "c = 0" using cd by (cases c) auto
  with c(1) e x show ?thesis by (simp add: at_end_def)
qed


section \<open>Walking back\<close>

lemma drop_int_cons: "0 \<le> x \<Longrightarrow> x < int (length xs) \<Longrightarrow> drop (nat x) xs = xs ! nat x # drop (nat (x + 1)) xs"
  by (simp add: Cons_nth_drop_Suc nat_add_distrib)

lemma back_unchanged_spec:
  assumes "x' \<le> x" "y' = x' - (x - y)" "\<And>z. x' \<le> z \<Longrightarrow> z < x \<Longrightarrow> same_line ps cs z (z - (x - y))"
    "0 \<le> x'" "0 \<le> y'" "prevX = x' \<and> prevY < y' \<or> prevX < x' \<and> prevY = y'"
    "(x' = prevX \<longrightarrow> prevY < y') \<and> (y' = prevY \<longrightarrow> prevX < x')"
    "edit_script (drop (nat x) ps) (drop (nat y) cs) lines"
    "x \<le> int (length ps)" "y \<le> int (length cs)"
  shows "\<exists>lines'. back_unchanged cs prevX prevY x y lines = (x', y', lines') \<and>
    edit_script (drop (nat x') ps) (drop (nat y') cs) lines' \<and> changes lines' = changes lines"
  using assms
proof (induction cs prevX prevY x y lines rule: back_unchanged.induct)
  case (1 cs prevX prevY x y lines)
  show ?case
  proof (cases "x = x'")
    case True
    with "1.prems" have "\<not> (prevX < x \<and> prevY < y)" by auto
    then have "back_unchanged cs prevX prevY x y lines = (x, y, lines)" by (simp add: back_unchanged.simps)
    with True "1.prems" show ?thesis by simp
  next
    case False
    with "1.prems" have more: "prevX < x \<and> prevY < y" by auto
    let ?l = "\<lparr>dl_kind = Unchanged, dl_text = cl_text (cs ! nat (y - 1)), dl_ref = None\<rparr>"
    have same: "same_line ps cs (x - 1) (y - 1)" using "1.prems"(1) "1.prems"(3) [of "x - 1"] False
      by (simp add: algebra_simps)
    have pos: "0 \<le> x - 1" "0 \<le> y - 1" using "1.prems" False by auto
    have "edit_script (drop (nat (x - 1)) ps) (drop (nat (y - 1)) cs) (?l # lines)"
      using same pos "1.prems"(8) drop_int_cons [of "x - 1" ps] drop_int_cons [of "y - 1" cs]
      by (auto simp: same_line_def unchanged_line_def [symmetric])
    with more show ?thesis
      using "1.IH" [OF more] "1.prems" False pos
      by (simp add: back_unchanged.simps [of _ _ _ x] unchanged_line_def [symmetric])
  qed
qed


lemma edit_script_added:
  "0 \<le> y \<Longrightarrow> y < int (length cs) \<Longrightarrow> edit_script ps (drop (nat (y + 1)) cs) lines \<Longrightarrow>
   edit_script ps (drop (nat y) cs) (added_line (cs ! nat y) # lines)"
  using drop_int_cons [of y cs] by simp

lemma edit_script_removed:
  "0 \<le> x \<Longrightarrow> x < int (length ps) \<Longrightarrow> edit_script (drop (nat (x + 1)) ps) cs lines \<Longrightarrow>
   edit_script (drop (nat x) ps) cs (removed_line (ps ! nat x) # lines)"
  using drop_int_cons [of x ps] by simp

lemma backtrack_spec:
  assumes T: "trace_ok ps cs T"
  shows "d < length T \<Longrightarrow> on_diagonal d (x - y) \<Longrightarrow> myers_step ps cs (T ! d) (int d) (x - y) = (x, y) \<Longrightarrow>
    x \<le> int (length ps) \<Longrightarrow> y \<le> int (length cs) \<Longrightarrow> edit_script (drop (nat x) ps) (drop (nat y) cs) lines \<Longrightarrow>
    edit_script ps cs (backtrack_loop T ps cs d x y lines) \<and>
    changes (backtrack_loop T ps cs d x y lines) = changes lines + d"
proof (induction d arbitrary: x y lines)
  case 0
  then have xy: "x = y" by (simp add: on_diagonal_def)
  have T0: "T ! 0 = [1 \<mapsto> 0]" using T by (simp add: trace_ok_def)
  from 0(3) have sn: "snake ps cs 0 0 = (x, y)" by (simp add: T0 xy myers_step_def shouldGoDown_def getV_def)
  note spec = snake_spec [OF sn]
  have x0: "0 \<le> x" using spec by simp
  have zs: "same_line ps cs z (z - (x - y))" if "0 \<le> z" "z < x" for z
  proof -
    have "same_line ps cs z (z - (0 - 0))" using spec that by blast
    then show ?thesis by (simp add: xy)
  qed
  have "\<exists>lines'. back_unchanged cs 0 (- 1) x y lines = (0, 0, lines') \<and>
      edit_script (drop (nat 0) ps) (drop (nat 0) cs) lines' \<and> changes lines' = changes lines"
    by (rule back_unchanged_spec [OF x0 _ zs]) (use 0(4-6) in \<open>simp_all add: xy\<close>)
  then obtain lines' where "back_unchanged cs 0 (- 1) x y lines = (0, 0, lines')"
      "edit_script ps cs lines'" "changes lines' = changes lines" by auto
  moreover from this have "backtrack_loop T ps cs 0 x y lines = lines'"
    by (subst backtrack_loop.simps) (simp add: T0 shouldGoDown_def getV_def Let_def xy [symmetric])
  ultimately show ?case by simp
next
  case (Suc d)
  define k where "k = x - y"
  define v where "v = T ! Suc d"
  define goDown where "goDown = shouldGoDown v k (int (Suc d))"
  define prevK where "prevK = (if goDown then k + 1 else k - 1)"
  define prevX where "prevX = getV v prevK"
  define x' where "x' = (if goDown then prevX else prevX + 1)"
  define y' where "y' = x' - k"
  define added where "added = \<lparr>dl_kind = Added, dl_text = cl_text (cs ! nat (prevX - prevK)),
    dl_ref = truthy_ref (cl_ref (cs ! nat (prevX - prevK)))\<rparr>"
  define removed where "removed = \<lparr>dl_kind = Removed, dl_text = cl_text (ps ! nat prevX), dl_ref = None\<rparr>"
  have k: "on_diagonal (Suc d) k" using Suc.prems(2) by (simp add: k_def)
  have pk: "on_diagonal d prevK"
    using on_diagonal_left [OF k] on_diagonal_up [OF k] by (auto simp: prevK_def goDown_def shouldGoDown_def)
  have sn: "snake ps cs x' y' = (x, y)"
    using Suc.prems(3) by (auto simp: myers_step_def x'_def y'_def prevX_def prevK_def goDown_def v_def k_def Let_def split: if_splits)
  note spec = snake_spec [OF sn]
  have vk: "v prevK = Some (fst (myers_step ps cs (T ! d) (int d) prevK))"
    using T Suc.prems(1) pk by (simp add: trace_ok_def row_done_def v_def)
  have px: "prevX = fst (myers_step ps cs (T ! d) (int d) prevK)" using vk by (simp add: prevX_def getV_def)
  have st: "myers_step ps cs (T ! d) (int d) prevK = (prevX, prevX - prevK)"
    using px by (metis prod.collapse snd_myers_step)
  have fr: "furthest ps cs d prevK prevX" using trace_furthest [OF T _ pk] Suc.prems(1) px by simp
  then have "reach ps cs d prevX (prevX - prevK)" by (simp add: furthest_def)
  from reach_bounds [OF this] have pos: "0 \<le> prevX" "0 \<le> prevX - prevK" by auto
  have xy': "x' - y' = k" "y' = x' - (x - y)" by (simp_all add: y'_def k_def)
  have from_prev: "if goDown then x' = prevX \<and> prevX - prevK = y' - 1 else prevX = x' - 1 \<and> prevX - prevK = y'"
    by (simp add: x'_def y'_def prevK_def)
  have zs: "same_line ps cs z (z - (x - y))" if "x' \<le> z" "z < x" for z
    using spec that xy' by (simp add: k_def)
  have back_to: "\<exists>lines'. back_unchanged cs prevX (prevX - prevK) x y lines = (x', y', lines') \<and>
      edit_script (drop (nat x') ps) (drop (nat y') cs) lines' \<and> changes lines' = changes lines"
    by (rule back_unchanged_spec) (use spec xy' zs pos from_prev Suc.prems in \<open>auto split: if_splits\<close>)
  then obtain lines' where lines': "back_unchanged cs prevX (prevX - prevK) x y lines = (x', y', lines')"
      "edit_script (drop (nat x') ps) (drop (nat y') cs) lines'" "changes lines' = changes lines" by blast
  have x'n: "x' \<le> int (length ps)" and y'm: "y' \<le> int (length cs)"
    using spec xy' Suc.prems(4,5) by (auto simp: k_def)
  have loop_eq: "backtrack_loop T ps cs (Suc d) x y lines =
      (if x' = prevX then backtrack_loop T ps cs d x' (prevX - prevK) (added # lines')
       else backtrack_loop T ps cs d prevX y' (removed # lines'))"
    by (subst backtrack_loop.simps)
      (simp only: Let_def v_def [symmetric] k_def [symmetric] goDown_def [symmetric]
         prevK_def [symmetric] prevX_def [symmetric] lines'(1) prod.case nat.case added_def removed_def)
  have added: "added = added_line (cs ! nat (prevX - prevK))" by (simp add: added_def added_line_def)
  have removed: "removed = removed_line (ps ! nat prevX)" by (simp add: removed_def removed_line_def)
  show ?case
  proof (cases goDown)
    case True
    with from_prev have eq: "x' = prevX" "y' = prevX - prevK + 1" by auto
    have "edit_script (drop (nat prevX) ps) (drop (nat (prevX - prevK)) cs) (added # lines')"
      unfolding added by (rule edit_script_added) (use pos eq y'm lines' in simp_all)
    from Suc.IH [of prevX "prevX - prevK", OF _ _ _ _ _ this] st pk Suc.prems(1) eq x'n y'm
    show ?thesis unfolding loop_eq by (simp add: lines'(3) added)
  next
    case False
    with from_prev have eq: "x' = prevX + 1" "y' = prevX - prevK" by auto
    have "edit_script (drop (nat prevX) ps) (drop (nat (prevX - prevK)) cs) (removed # lines')"
      unfolding removed by (rule edit_script_removed) (use pos eq x'n lines' in simp_all)
    from Suc.IH [of prevX "prevX - prevK", OF _ _ _ _ _ this] st pk Suc.prems(1) eq x'n y'm
    show ?thesis unfolding loop_eq by (simp add: lines'(3) removed)
  qed
qed

section \<open>The rounds\<close>

lemma reach_right: "reach ps cs n (int n) 0"
  by (induction n) (auto intro: reach.start dest: reach.right simp: add.commute)

lemma reach_corner: "reach ps cs (m + n) (int n) (int m)"
  by (induction m) (auto intro: reach_right dest: reach.down simp: add.commute)

lemma edit_script_reach:
  "edit_script (drop x ps) (drop y cs) ls \<Longrightarrow> x \<le> length ps \<Longrightarrow> y \<le> length cs \<Longrightarrow> reach ps cs d (int x) (int y) \<Longrightarrow>
   reach ps cs (d + changes ls) (int (length ps)) (int (length cs))"
proof (induction ls arbitrary: x y d)
  case Nil
  then show ?case by simp
next
  case (Cons l ls)
  from Cons.prems(1) show ?case
  proof (cases rule: edit_script_cases)
    case Empty
    then show ?thesis by simp
  next
    case (Removed p ps' ls')
    then have "x < length ps" "ps' = drop (Suc x) ps"
      by (metis drop_all not_le list.distinct(1)) (metis Removed(1) drop_Suc list.sel(3) tl_drop)
    with Cons.IH [of "Suc x" y "Suc d"] Removed Cons.prems reach.right [OF Cons.prems(4)] show ?thesis
      by (simp add: add.commute)
  next
    case (Added c cs' ls')
    then have "y < length cs" "cs' = drop (Suc y) cs"
      by (metis drop_all not_le list.distinct(1)) (metis Added(1) drop_Suc list.sel(3) tl_drop)
    with Cons.IH [of x "Suc y" "Suc d"] Added Cons.prems reach.down [OF Cons.prems(4)] show ?thesis
      by (simp add: add.commute)
  next
    case (Unchanged p ps' c cs' ls')
    then have xy: "x < length ps" "ps' = drop (Suc x) ps" "y < length cs" "cs' = drop (Suc y) cs"
      by (metis drop_all not_le list.distinct(1), metis Unchanged(1) drop_Suc list.sel(3) tl_drop,
          metis drop_all not_le list.distinct(1), metis Unchanged(2) drop_Suc list.sel(3) tl_drop)
    have "same_line ps cs (int x) (int y)"
      using Unchanged(1,2,4) xy by (simp add: same_line_def) (metis Cons_nth_drop_Suc list.inject)
    from reach.diagonal [OF Cons.prems(4) this] Cons.IH [of "Suc x" "Suc y" d] Unchanged Cons.prems xy show ?thesis
      by (simp add: add.commute)
  qed
qed


lemma myers_rounds_spec:
  assumes "trace_ok ps cs (T @ [v])" "length T = d"
  shows "edit_script ps cs (myers_rounds ps cs d v T) \<and>
    changes (myers_rounds ps cs d v T) = edit_distance ps cs"
  using assms
proof (induction ps cs d v T rule: myers_rounds.induct)
  case (1 ps cs d v T)
  let ?T = "T @ [v]"
  have Td: "?T ! d = v" "length ?T = Suc d" using "1.prems"(2) by auto
  have d: "d \<le> length ps + length cs"
  proof (rule ccontr)
    assume "\<not> d \<le> length ps + length cs"
    with trace_not_reached [OF "1.prems"(1), of "length cs + length ps"] Td reach_corner show False by simp
  qed
  have row: "case myers_row ps cs (int d) (- int d) v of
      None \<Rightarrow> \<exists>j. on_diagonal d j \<and> at_end ps cs (myers_step ps cs v (int d) j)
    | Some v' \<Rightarrow> row_done ps cs d v v'"
    by (rule myers_row_spec) (auto simp: on_diagonal_def)
  show ?case
  proof (cases "myers_row ps cs (int d) (- int d) v")
    case None
    with row obtain j where j: "on_diagonal d j" "at_end ps cs (myers_step ps cs (?T ! d) (int d) j)"
      using Td by auto
    note te = trace_end [OF "1.prems"(1) Td(2) j]
    note fin = te [THEN conjunct2] te [THEN conjunct1, unfolded te [THEN conjunct2]]
    have "edit_script (drop (nat (int (length ps))) ps) (drop (nat (int (length cs))) cs) []" by simp
    from backtrack_spec [OF "1.prems"(1) _ _ fin(2) _ _ this] j(1) [unfolded fin(1)] Td(2)
    have res: "edit_script ps cs (backtrack_loop ?T ps cs d (int (length ps)) (int (length cs)) [])"
        "changes (backtrack_loop ?T ps cs d (int (length ps)) (int (length cs)) []) = d"
      by simp_all
    have eq: "myers_rounds ps cs d v T = backtrack_loop ?T ps cs d (int (length ps)) (int (length cs)) []"
      using d None "1.prems"(2) by (simp add: myers_rounds.simps [of _ _ d] backtrackMyers_def)
    obtain ls where ls: "edit_script ps cs ls" "changes ls = edit_distance ps cs"
      using edit_distance_attained by blast
    have "\<not> edit_distance ps cs < d"
    proof
      assume "edit_distance ps cs < d"
      with trace_not_reached [OF "1.prems"(1), of "edit_distance ps cs"] Td
        edit_script_reach [of 0 ps 0 cs ls 0] ls show False by (simp add: reach.start)
    qed
    with edit_distance_le [OF res(1)] res eq show ?thesis by simp
  next
    case (Some v')
    have "trace_ok ps cs (?T @ [v'])"
      using "1.prems" row Some by (auto simp: trace_ok_def nth_append less_Suc_eq)
    with "1.IH" [OF refl refl d refl Some] "1.prems"(2) d Some show ?thesis
      by (simp add: myers_rounds.simps [of _ _ d])
  qed
qed

lemma myers_correct:
  "edit_script ps cs (diffComparableLinesMyers ps cs) \<and>
   changes (diffComparableLinesMyers ps cs) = edit_distance ps cs"
  unfolding diffComparableLinesMyers_def
  by (rule myers_rounds_spec) (simp_all add: trace_ok_def)

section \<open>The difference of two snapshots\<close>

record diff_summary =
  ds_additions :: nat
  ds_removals :: nat
  ds_unchanged :: nat

definition count_line :: "diff_line \<Rightarrow> diff_summary \<Rightarrow> diff_summary" where
  "count_line line s =
     (let s = (if dl_kind line = Added then s\<lparr>ds_additions := ds_additions s + 1\<rparr> else s);
          s = (if dl_kind line = Removed then s\<lparr>ds_removals := ds_removals s + 1\<rparr> else s)
      in (if dl_kind line = Unchanged then s\<lparr>ds_unchanged := ds_unchanged s + 1\<rparr> else s))"

definition buildSnapshotDiff ::
  "snapshot_node list \<Rightarrow> snapshot_node list \<Rightarrow> diff_options \<Rightarrow> diff_summary \<times> diff_line list" where
  "buildSnapshotDiff previousNodes currentNodes opts =
     (let previous = snapshotNodesToLines previousNodes opts;
          current = snapshotNodesToLines currentNodes opts;
          lines = diffComparableLinesMyers previous current
      in (fold count_line lines \<lparr>ds_additions = 0, ds_removals = 0, ds_unchanged = 0\<rparr>, lines))"

lemma count_line_simps:
  "count_line (added_line c) s = s\<lparr>ds_additions := Suc (ds_additions s)\<rparr>"
  "count_line (removed_line c) s = s\<lparr>ds_removals := Suc (ds_removals s)\<rparr>"
  "count_line (unchanged_line c) s = s\<lparr>ds_unchanged := Suc (ds_unchanged s)\<rparr>"
  by (simp_all add: count_line_def added_line_def removed_line_def unchanged_line_def)

lemma count_lines:
  "edit_script ps cs ls \<Longrightarrow>
     ds_unchanged (fold count_line ls s) + ds_removals (fold count_line ls s) =
       ds_unchanged s + ds_removals s + length ps \<and>
     ds_unchanged (fold count_line ls s) + ds_additions (fold count_line ls s) =
       ds_unchanged s + ds_additions s + length cs \<and>
     ds_additions (fold count_line ls s) + ds_removals (fold count_line ls s) =
       ds_additions s + ds_removals s + changes ls"
proof (induction ls arbitrary: ps cs s)
  case Nil
  then show ?case by simp
next
  case (Cons l ls)
  from Cons.prems show ?case
  proof (cases rule: edit_script_cases)
    case Empty
    then show ?thesis by simp
  next
    case (Removed p ps' ls')
    with Cons.IH [of ps' cs "count_line l s"] show ?thesis by (simp add: count_line_simps)
  next
    case (Added c cs' ls')
    with Cons.IH [of ps cs' "count_line l s"] show ?thesis by (simp add: count_line_simps)
  next
    case (Unchanged p ps' c cs' ls')
    with Cons.IH [of ps' cs' "count_line l s"] show ?thesis by (simp add: count_line_simps)
  qed
qed

lemma edit_distance_0_iff: "edit_distance ps cs = 0 \<longleftrightarrow> map cl_comparable ps = map cl_comparable cs"
proof (induction ps cs rule: edit_distance.induct)
  case (3 p ps c cs)
  have "min a (Suc b) = 0 \<longleftrightarrow> a = 0" for a b :: nat by (simp add: min_def)
  with 3 show ?case by simp
qed auto

text \<open>C28. Myers' algorithm always returns, and what it returns is a shortest edit script: read from the top,
  the removed and unchanged lines match the previous snapshot line by line, the added and unchanged
  lines are the text of the current one, and the number of changed lines is the edit distance given
  by the recursion over both snapshots. In particular the empty result after the loop is never used
  for two snapshots that differ.\<close>

theorem diff_is_shortest_script:
  "edit_script previous current (diffComparableLinesMyers previous current) \<and>
   changes (diffComparableLinesMyers previous current) = edit_distance previous current"
  by (rule myers_correct)

text \<open>The summary of a snapshot difference adds up: unchanged and removed lines are the lines of the
  previous snapshot, unchanged and added lines those of the current one, and it reports no change
  exactly when both snapshots have the same comparable lines.\<close>

lemma diff_summary_counts:
  assumes "buildSnapshotDiff previousNodes currentNodes opts = (s, lines)"
  shows "ds_unchanged s + ds_removals s = countSnapshotComparableLines previousNodes opts \<and>
      ds_unchanged s + ds_additions s = countSnapshotComparableLines currentNodes opts \<and>
      (ds_additions s + ds_removals s = 0 \<longleftrightarrow>
      map cl_comparable (snapshotNodesToLines previousNodes opts) =
      map cl_comparable (snapshotNodesToLines currentNodes opts))"
proof -
  let ?ps = "snapshotNodesToLines previousNodes opts" and ?cs = "snapshotNodesToLines currentNodes opts"
  have s: "s = fold count_line (diffComparableLinesMyers ?ps ?cs) \<lparr>ds_additions = 0, ds_removals = 0, ds_unchanged = 0\<rparr>"
    using assms unfolding buildSnapshotDiff_def Let_def by (metis Pair_inject)
  have c: "edit_script ?ps ?cs (diffComparableLinesMyers ?ps ?cs)"
      "changes (diffComparableLinesMyers ?ps ?cs) = edit_distance ?ps ?cs"
    using myers_correct by blast+
  note counts = count_lines [OF c(1), of "\<lparr>ds_additions = 0, ds_removals = 0, ds_unchanged = 0\<rparr>", folded s]
  have "ds_additions s + ds_removals s = 0 \<longleftrightarrow> map cl_comparable ?ps = map cl_comparable ?cs"
    using counts c(2) edit_distance_0_iff by auto
  then show ?thesis using counts by (simp add: countSnapshotComparableLines_def)
qed

lemma diff_summary_counts_example:
  "ds_unchanged (fst (buildSnapshotDiff [example_group, example_hidden, example_button] [example_button] \<lparr>do_flatten = False, do_withRefs = True\<rparr>)) +
   ds_removals (fst (buildSnapshotDiff [example_group, example_hidden, example_button] [example_button] \<lparr>do_flatten = False, do_withRefs = True\<rparr>)) = 2"
proof -
  let ?a = "[example_group, example_hidden, example_button]" and ?o = "\<lparr>do_flatten = False, do_withRefs = True\<rparr>"
  have "countSnapshotComparableLines ?a ?o = 2"
    by (simp add: countSnapshotComparableLines_def snapshotNodesToLines_def buildSnapshotDisplayLines_def Let_def
        example_hidden_groups)
  with diff_summary_counts [of ?a "[example_button]" ?o, OF prod.collapse [symmetric]] show ?thesis by simp
qed

lemma example_diff:
  "map (\<lambda>l. (dl_kind l, dl_text l)) (diffComparableLinesMyers
     (map (\<lambda>c. \<lparr>cl_text = [c], cl_comparable = [c], cl_ref = None\<rparr>) ''abc'')
     (map (\<lambda>c. \<lparr>cl_text = [c], cl_comparable = [c], cl_ref = None\<rparr>) ''cab'')) =
   [(Added, ''c''), (Unchanged, ''a''), (Unchanged, ''b''), (Removed, ''c'')]"
  by code_simp

end
