(* ===== verification/KeyedLock.thy ===== *)
theory KeyedLock
  imports Prelude
begin

text \<open>
  Locks by key: \<^verbatim>\<open>src/utils/keyed-lock.ts\<close>.

  A call of \<open>withKeyedLock\<close> that has to wait is a task; its number stands for the promise \<open>current\<close>.
  A task waits for the task that was registered under its key before it (\<open>previous\<close>), runs, settles
  (whether the task returned or threw: the next one ignores the outcome, \<open>catch(() => {})\<close>) and is
  cleaned up by its \<open>finally\<close> callback. The map \<open>locks\<close> holds the last task of a key. The steps between
  which the event loop may run other code are the operations below. \<open>lt_owner\<close> names the request whose
  closure the task runs; the code keeps that in the closure. The frames of the asynchronous context
  (\<open>AsyncLocalStorage\<close>) are the keys of the one table the model is about.
\<close>

section \<open>Machines that come to rest\<close>

text \<open>A machine whose internal steps use up a budget and that always has one until it is at rest.\<close>

locale settling =
  fixes step :: "'s \<Rightarrow> 's \<Rightarrow> bool"
    and good :: "'s \<Rightarrow> bool"
    and rest :: "'s \<Rightarrow> bool"
    and budget :: "'s \<Rightarrow> nat"
  assumes good_step: "good s \<Longrightarrow> step s s' \<Longrightarrow> good s'"
    and budget_step: "good s \<Longrightarrow> step s s' \<Longrightarrow> budget s' < budget s"
    and progress: "good s \<Longrightarrow> \<not> rest s \<Longrightarrow> \<exists>s'. step s s'"
begin

lemma comes_to_rest: "good s \<Longrightarrow> \<exists>s'. step\<^sup>*\<^sup>* s s' \<and> rest s'"
proof (induction "budget s" arbitrary: s rule: less_induct)
  case less
  show ?case
  proof (cases "rest s")
    case True
    then show ?thesis by blast
  next
    case False
    with less.prems progress obtain s1 where s1: "step s s1" by blast
    with less good_step budget_step obtain s' where "step\<^sup>*\<^sup>* s1 s'" "rest s'" by blast
    with s1 show ?thesis by (meson converse_rtranclp_into_rtranclp)
  qed
qed

lemma runs_are_short: "(step ^^ n) s s' \<Longrightarrow> good s \<Longrightarrow> good s' \<and> n + budget s' \<le> budget s"
proof (induction n arbitrary: s')
  case 0
  then show ?case by simp
next
  case (Suc n)
  then obtain s1 where s1: "(step ^^ n) s s1" "step s1 s'" by auto
  with Suc.IH Suc.prems(2) have "good s1" "n + budget s1 \<le> budget s" by blast+
  with budget_step [OF _ s1(2)] good_step [OF _ s1(2)] show ?case by fastforce
qed

text \<open>A run that cannot be continued has come to rest.\<close>

lemma maximal_run_rests: "step\<^sup>*\<^sup>* s s' \<Longrightarrow> good s \<Longrightarrow> (\<And>s''. \<not> step s' s'') \<Longrightarrow> rest s'"
proof -
  assume run: "step\<^sup>*\<^sup>* s s'" and s: "good s" and stuck: "\<And>s''. \<not> step s' s''"
  from run s have "good s'" by (induction rule: rtranclp_induct) (auto intro: good_step)
  with stuck progress show ?thesis by blast
qed

end

section \<open>Tasks and the table\<close>

datatype task_state = Waiting | Running | Settled | Cleaned

record 'k lock_task =
  lt_key :: 'k
  lt_frames :: "'k list"
  lt_previous :: "nat option"
  lt_state :: task_state
  lt_owner :: nat

record 'k lock_table =
  kl_tasks :: "'k lock_task list"
  kl_locks :: "'k \<rightharpoonup> nat"

definition empty_table :: "'k lock_table" where
  "empty_table = \<lparr>kl_tasks = [], kl_locks = (\<lambda>_. None)\<rparr>"

text \<open>The call: \<open>None\<close> when the context already holds the key and the task runs at once.\<close>

definition withKeyedLock :: "'k lock_table \<Rightarrow> 'k list \<Rightarrow> 'k \<Rightarrow> nat \<Rightarrow> nat option \<times> 'k lock_table" where
  "withKeyedLock s activeLocks k owner =
     (if k \<in> set activeLocks then (None, s)
      else
        let current = length (kl_tasks s);
            task = \<lparr>lt_key = k, lt_frames = activeLocks @ [k], lt_previous = kl_locks s k,
                    lt_state = Waiting, lt_owner = owner\<rparr>
        in (Some current, s\<lparr>kl_tasks := kl_tasks s @ [task], kl_locks := (kl_locks s)(k \<mapsto> current)\<rparr>))"

definition task_settled :: "'k lock_table \<Rightarrow> nat \<Rightarrow> bool" where
  "task_settled s t \<longleftrightarrow> lt_state (kl_tasks s ! t) = Settled \<or> lt_state (kl_tasks s ! t) = Cleaned"

definition set_task_state :: "nat \<Rightarrow> task_state \<Rightarrow> 'k lock_table \<Rightarrow> 'k lock_table" where
  "set_task_state t x s = s\<lparr>kl_tasks := (kl_tasks s)[t := (kl_tasks s ! t)\<lparr>lt_state := x\<rparr>]\<rparr>"

text \<open>\<open>previous.catch().then(run)\<close>: the task may start once the one before it has settled.\<close>

definition can_start :: "'k lock_table \<Rightarrow> nat \<Rightarrow> bool" where
  "can_start s t \<longleftrightarrow> lt_state (kl_tasks s ! t) = Waiting \<and>
     (case lt_previous (kl_tasks s ! t) of None \<Rightarrow> True | Some p \<Rightarrow> task_settled s p)"

definition start_task :: "nat \<Rightarrow> 'k lock_table \<Rightarrow> 'k lock_table" where
  "start_task t s = set_task_state t Running s"

definition settle_task :: "nat \<Rightarrow> 'k lock_table \<Rightarrow> 'k lock_table" where
  "settle_task t s = set_task_state t Settled s"

text \<open>The \<open>finally\<close> callback.\<close>

definition cleanup_task :: "nat \<Rightarrow> 'k lock_table \<Rightarrow> 'k lock_table" where
  "cleanup_task t s =
     (let k = lt_key (kl_tasks s ! t); s' = set_task_state t Cleaned s
      in if kl_locks s k = Some t then s'\<lparr>kl_locks := (kl_locks s)(k := None)\<rparr> else s')"

section \<open>First come, first served\<close>

definition earlier_settled :: "'k lock_table \<Rightarrow> nat \<Rightarrow> bool" where
  "earlier_settled s t \<longleftrightarrow>
     (\<forall>u < t. lt_key (kl_tasks s ! u) = lt_key (kl_tasks s ! t) \<longrightarrow> task_settled s u)"

definition previous_ok :: "'k lock_table \<Rightarrow> nat \<Rightarrow> bool" where
  "previous_ok s t \<longleftrightarrow>
     (case lt_previous (kl_tasks s ! t) of
        None \<Rightarrow> earlier_settled s t
      | Some p \<Rightarrow> p < t \<and> lt_key (kl_tasks s ! p) = lt_key (kl_tasks s ! t) \<and>
          (\<forall>u. p < u \<and> u < t \<longrightarrow> lt_key (kl_tasks s ! u) \<noteq> lt_key (kl_tasks s ! t)))"

definition entry_ok :: "'k lock_table \<Rightarrow> 'k \<Rightarrow> bool" where
  "entry_ok s k \<longleftrightarrow>
     (case kl_locks s k of
        None \<Rightarrow> (\<forall>u < length (kl_tasks s). lt_key (kl_tasks s ! u) = k \<longrightarrow> task_settled s u)
      | Some t \<Rightarrow> t < length (kl_tasks s) \<and> lt_key (kl_tasks s ! t) = k \<and>
          (\<forall>u < length (kl_tasks s). t < u \<longrightarrow> lt_key (kl_tasks s ! u) \<noteq> k))"

definition lock_inv :: "'k lock_table \<Rightarrow> bool" where
  "lock_inv s \<longleftrightarrow>
     (\<forall>t < length (kl_tasks s). previous_ok s t) \<and>
     (\<forall>t < length (kl_tasks s). lt_state (kl_tasks s ! t) \<noteq> Waiting \<longrightarrow> earlier_settled s t) \<and>
     (\<forall>k. entry_ok s k)"

lemma lock_invD:
  assumes "lock_inv s"
  shows "t < length (kl_tasks s) \<Longrightarrow> previous_ok s t"
    and "t < length (kl_tasks s) \<Longrightarrow> lt_state (kl_tasks s ! t) \<noteq> Waiting \<Longrightarrow> earlier_settled s t"
    and "entry_ok s k"
  using assms by (simp_all add: lock_inv_def)

lemma lock_inv_empty: "lock_inv empty_table"
  by (simp add: lock_inv_def empty_table_def entry_ok_def)

lemma nth_set_state:
  "kl_tasks (set_task_state t x s) ! u =
     (if u = t \<and> t < length (kl_tasks s) then (kl_tasks s ! u)\<lparr>lt_state := x\<rparr> else kl_tasks s ! u)"
  by (cases "t < length (kl_tasks s)") (simp_all add: set_task_state_def nth_list_update list_update_beyond)

lemma set_state_simps [simp]:
  "length (kl_tasks (set_task_state t x s)) = length (kl_tasks s)"
  "kl_locks (set_task_state t x s) = kl_locks s"
  "lt_key (kl_tasks (set_task_state t x s) ! u) = lt_key (kl_tasks s ! u)"
  "lt_previous (kl_tasks (set_task_state t x s) ! u) = lt_previous (kl_tasks s ! u)"
  "lt_owner (kl_tasks (set_task_state t x s) ! u) = lt_owner (kl_tasks s ! u)"
  "lt_frames (kl_tasks (set_task_state t x s) ! u) = lt_frames (kl_tasks s ! u)"
  by (simp_all add: nth_set_state) (simp_all add: set_task_state_def)

lemma locks_update_simps [simp]:
  "task_settled (s\<lparr>kl_locks := l\<rparr>) u = task_settled s u"
  "earlier_settled (s\<lparr>kl_locks := l\<rparr>) u = earlier_settled s u"
  "previous_ok (s\<lparr>kl_locks := l\<rparr>) u = previous_ok s u"
  by (simp_all add: task_settled_def earlier_settled_def previous_ok_def split: option.splits)

lemma state_set_state:
  "t < length (kl_tasks s) \<Longrightarrow>
     lt_state (kl_tasks (set_task_state t x s) ! u) = (if u = t then x else lt_state (kl_tasks s ! u))"
  by (simp add: nth_set_state)

text \<open>Steps that settle nothing back keep the invariant.\<close>

lemma set_state_inv:
  assumes inv: "lock_inv s" and t: "t < length (kl_tasks s)"
    and mono: "task_settled s t \<Longrightarrow> x = Settled \<or> x = Cleaned"
    and wait: "x \<noteq> Waiting \<Longrightarrow> lt_state (kl_tasks s ! t) = Waiting \<Longrightarrow> earlier_settled s t"
  shows "lock_inv (set_task_state t x s)"
proof -
  let ?s = "set_task_state t x s"
  have settled: "task_settled s u \<Longrightarrow> task_settled ?s u" for u
    using mono t by (auto simp: task_settled_def state_set_state)
  then have earlier: "earlier_settled s u \<Longrightarrow> earlier_settled ?s u" for u
    by (simp add: earlier_settled_def)
  have "previous_ok ?s u" if "u < length (kl_tasks s)" for u
    using lock_invD(1) [OF inv that] earlier by (auto simp: previous_ok_def split: option.splits)
  moreover have "earlier_settled ?s u"
    if "u < length (kl_tasks s)" "lt_state (kl_tasks ?s ! u) \<noteq> Waiting" for u
    using lock_invD(2) [OF inv that(1)] earlier wait that by (auto simp: state_set_state [OF t] split: if_splits)
  moreover have "entry_ok ?s k" for k
    using lock_invD(3) [OF inv, of k] settled by (auto simp: entry_ok_def split: option.splits)
  ultimately show ?thesis by (simp add: lock_inv_def)
qed

lemma can_start_earlier:
  assumes inv: "lock_inv s" and t: "t < length (kl_tasks s)" and c: "can_start s t"
  shows "earlier_settled s t"
proof (cases "lt_previous (kl_tasks s ! t)")
  case None
  with lock_invD(1) [OF inv t] show ?thesis by (simp add: previous_ok_def)
next
  case (Some p)
  with lock_invD(1) [OF inv t] have p: "p < t" "lt_key (kl_tasks s ! p) = lt_key (kl_tasks s ! t)"
      "\<And>u. p < u \<Longrightarrow> u < t \<Longrightarrow> lt_key (kl_tasks s ! u) \<noteq> lt_key (kl_tasks s ! t)"
    by (auto simp: previous_ok_def)
  from c Some have sp: "task_settled s p" by (simp add: can_start_def)
  with lock_invD(2) [OF inv, of p] p t have "earlier_settled s p" by (auto simp: task_settled_def)
  then show ?thesis
    unfolding earlier_settled_def using p sp by (metis linorder_neqE_nat)
qed

lemma start_task_inv: "lock_inv s \<Longrightarrow> t < length (kl_tasks s) \<Longrightarrow> can_start s t \<Longrightarrow> lock_inv (start_task t s)"
  unfolding start_task_def
  by (rule set_state_inv) (auto simp: can_start_earlier can_start_def task_settled_def)

lemma settle_task_inv:
  "lock_inv s \<Longrightarrow> t < length (kl_tasks s) \<Longrightarrow> lt_state (kl_tasks s ! t) = Running \<Longrightarrow> lock_inv (settle_task t s)"
  unfolding settle_task_def by (rule set_state_inv) auto

lemma cleanup_task_inv:
  assumes inv: "lock_inv s" and t: "t < length (kl_tasks s)" and st: "lt_state (kl_tasks s ! t) = Settled"
  shows "lock_inv (cleanup_task t s)"
proof -
  let ?s = "set_task_state t Cleaned s" and ?k = "lt_key (kl_tasks s ! t)"
  have inv': "lock_inv ?s" by (rule set_state_inv [OF inv t]) (auto simp: st)
  show ?thesis
  proof (cases "kl_locks s ?k = Some t")
    case False
    with inv' show ?thesis by (simp add: cleanup_task_def)
  next
    case True
    let ?r = "?s\<lparr>kl_locks := (kl_locks s)(?k := None)\<rparr>"
    have last: "\<And>u. u < length (kl_tasks s) \<Longrightarrow> lt_key (kl_tasks s ! u) = ?k \<Longrightarrow> u \<le> t"
      using lock_invD(3) [OF inv, of ?k] True by (auto simp: entry_ok_def not_le)
    have earlier: "earlier_settled ?s t"
      using lock_invD(2) [OF inv', of t] t by (simp add: state_set_state)
    have self: "task_settled ?s t" using t by (simp add: task_settled_def state_set_state)
    have "task_settled ?s u" if "u < length (kl_tasks s)" "lt_key (kl_tasks s ! u) = ?k" for u
      using last [OF that] earlier self that by (auto simp: earlier_settled_def le_less)
    then have "entry_ok ?r k" for k
      using lock_invD(3) [OF inv', of k] by (auto simp: entry_ok_def split: option.splits)
    with inv' have "lock_inv ?r"
      by (simp add: lock_inv_def)
    with True show ?thesis by (simp add: cleanup_task_def Let_def)
  qed
qed

lemma withKeyedLock_inv:
  assumes inv: "lock_inv s"
  shows "lock_inv (snd (withKeyedLock s frames k owner))"
proof (cases "k \<in> set frames")
  case True
  with inv show ?thesis by (simp add: withKeyedLock_def)
next
  case False
  define n where "n = length (kl_tasks s)"
  define task where "task = \<lparr>lt_key = k, lt_frames = frames @ [k], lt_previous = kl_locks s k,
    lt_state = Waiting, lt_owner = owner\<rparr>"
  define s' where "s' = s\<lparr>kl_tasks := kl_tasks s @ [task], kl_locks := (kl_locks s)(k \<mapsto> n)\<rparr>"
  have old: "kl_tasks s' ! u = kl_tasks s ! u" if "u < n" for u
    using that by (simp add: s'_def n_def nth_append)
  have new: "kl_tasks s' ! n = task" by (simp add: s'_def n_def)
  have len: "length (kl_tasks s') = Suc n" by (simp add: s'_def n_def)
  have settled: "task_settled s' u = task_settled s u" if "u < n" for u
    using that by (simp add: task_settled_def old)
  have earlier: "earlier_settled s' u = earlier_settled s u" if "u < n" for u
    using that by (auto simp: earlier_settled_def old settled)
  have "previous_ok s' u" if u: "u < Suc n" for u
  proof (cases "u = n")
    case False
    with u have "u < n" by simp
    with lock_invD(1) [OF inv, of u] show ?thesis
      by (auto simp: previous_ok_def n_def [symmetric] old earlier split: option.splits)
  next
    case True
    have e: "entry_ok s k" by (rule lock_invD(3) [OF inv])
    show ?thesis
    proof (cases "kl_locks s k")
      case None
      with e have "earlier_settled s' n"
        by (auto simp: earlier_settled_def entry_ok_def n_def [symmetric] old new task_def settled)
      with None show ?thesis by (simp add: True previous_ok_def new task_def)
    next
      case (Some p)
      with e have "p < n" "lt_key (kl_tasks s ! p) = k" "\<forall>u < n. p < u \<longrightarrow> lt_key (kl_tasks s ! u) \<noteq> k"
        by (simp_all add: entry_ok_def n_def [symmetric])
      with Some show ?thesis by (auto simp: True previous_ok_def new task_def old)
    qed
  qed
  moreover have "earlier_settled s' u" if "u < Suc n" "lt_state (kl_tasks s' ! u) \<noteq> Waiting" for u
  proof -
    from that have "u < n" by (cases "u = n") (simp_all add: new task_def)
    with that lock_invD(2) [OF inv, of u] show ?thesis by (simp add: earlier old n_def [symmetric])
  qed
  moreover have "entry_ok s' k'" for k'
  proof (cases "k' = k")
    case True
    then show ?thesis by (simp add: entry_ok_def s'_def n_def task_def)
  next
    case False
    then have "kl_locks s' k' = kl_locks s k'" by (simp add: s'_def)
    with False lock_invD(3) [OF inv, of k'] show ?thesis
      by (auto simp: entry_ok_def len n_def [symmetric] old new task_def settled less_Suc_eq split: option.splits)
  qed
  ultimately have "lock_inv s'" by (simp add: lock_inv_def len)
  moreover have "snd (withKeyedLock s frames k owner) = s'"
    using False by (simp add: withKeyedLock_def Let_def s'_def n_def task_def)
  ultimately show ?thesis by simp
qed

text \<open>Two tasks of one key: at most one of them runs, and the later one has not started while the
  earlier one is unsettled.\<close>

lemma lock_fifo:
  assumes "lock_inv s" "t < u" "u < length (kl_tasks s)" "lt_key (kl_tasks s ! t) = lt_key (kl_tasks s ! u)"
    "lt_state (kl_tasks s ! u) \<noteq> Waiting"
  shows "task_settled s t"
  using lock_invD(2) [OF assms(1,3,5)] assms(2,4) by (simp add: earlier_settled_def)

lemma lock_exclusive:
  assumes "lock_inv s" "t < length (kl_tasks s)" "u < length (kl_tasks s)"
    "lt_key (kl_tasks s ! t) = lt_key (kl_tasks s ! u)"
    "lt_state (kl_tasks s ! t) = Running" "lt_state (kl_tasks s ! u) = Running"
  shows "t = u"
proof (rule linorder_cases [of t u])
  assume "t < u"
  from lock_fifo [OF assms(1) this assms(3,4)] assms(5,6) show ?thesis by (simp add: task_settled_def)
next
  assume "u < t"
  from lock_fifo [OF assms(1) this assms(2) assms(4) [symmetric]] assms(5,6) show ?thesis
    by (simp add: task_settled_def)
qed

text \<open>The oldest unsettled task of a key runs or may start.\<close>

lemma lock_front:
  assumes inv: "lock_inv s" and t: "t < length (kl_tasks s)" "\<not> task_settled s t"
  shows "\<exists>u \<le> t. lt_key (kl_tasks s ! u) = lt_key (kl_tasks s ! t) \<and>
    (lt_state (kl_tasks s ! u) = Running \<or> can_start s u)"
  using t
proof (induction t rule: less_induct)
  case (less t)
  show ?case
  proof (cases "lt_state (kl_tasks s ! t) = Waiting \<and> \<not> can_start s t")
    case False
    with less.prems have "lt_state (kl_tasks s ! t) = Running \<or> can_start s t"
      by (cases "lt_state (kl_tasks s ! t)") (auto simp: task_settled_def)
    then show ?thesis by blast
  next
    case True
    then obtain p where p: "lt_previous (kl_tasks s ! t) = Some p" "\<not> task_settled s p"
      by (auto simp: can_start_def split: option.splits)
    with lock_invD(1) [OF inv less.prems(1)] have pt: "p < t" "lt_key (kl_tasks s ! p) = lt_key (kl_tasks s ! t)"
      by (simp_all add: previous_ok_def)
    with less.IH [OF pt(1) _ p(2)] less.prems(1) obtain u where "u \<le> p"
        "lt_key (kl_tasks s ! u) = lt_key (kl_tasks s ! t)" "lt_state (kl_tasks s ! u) = Running \<or> can_start s u"
      by auto
    with pt(1) show ?thesis by (meson le_trans less_imp_le)
  qed
qed

end
