(* ===== verification/RequestLocks.thy ===== *)
theory RequestLocks
  imports KeyedLock Devices
begin

text \<open>
  The execution locks of requests: \<^verbatim>\<open>src/daemon/request-execution-locks.ts\<close> and the choice of the lock
  keys in \<^verbatim>\<open>src/daemon/request-binding.ts\<close>.

  A world is the shared table of locks and the scopes made by \<open>createRequestExecutionLocks\<close>, whose
  number is the owner of their tasks. A scope takes its keys one inside the other
  (\<open>withRequestExecutionLocks\<close>), runs the body of the request, which may retain further device locks,
  and then unwinds: each \<open>withKeyedLock\<close> settles and is cleaned up from the innermost outwards, after
  that the retained locks are released. The collation behind \<open>localeCompare\<close> is a parameter, the device
  of a session and the outcome of the advisory device resolution are arguments.

  Requests may be nested: the body of a request (a replay, a batch, a find, a test) invokes the router again
  (\<^verbatim>\<open>src/daemon/request-router.ts\<close>, \<open>invoke: handleRequest\<close>). The scope of the inner request is made in the
  asynchronous context of the outer body, so it inherits the frames of that body and re-enters the keys the body holds; a lock the
  outer request retained is not in its frames. An action of a replay on its own session takes no locks at all
  (\<open>runAdmitted\<close>) and is part of the body of the replay. A body waits for the requests it invoked, except that the attempt of a
  test that ran out of time leaves them behind (\<open>abandon\<close>). A lock is retained only while the body runs.
\<close>

section \<open>Lock keys\<close>

definition sessionExecutionLockKey :: "string \<Rightarrow> string" where
  "sessionExecutionLockKey sessionName = ''session:'' @ sessionName"

definition deviceExecutionLockKey :: "string \<Rightarrow> string" where
  "deviceExecutionLockKey deviceId = ''device:'' @ deviceId"

definition lockKeyCategoryOrder :: "string \<Rightarrow> nat" where
  "lockKeyCategoryOrder k = (if take 8 k = ''session:'' then 0 else 1)"

definition orderRequestExecutionLockKeys :: "(string \<Rightarrow> string \<Rightarrow> int) \<Rightarrow> string list \<Rightarrow> string list" where
  "orderRequestExecutionLockKeys collate ks =
     js_sort (\<lambda>left right.
       let categoryOrder = int (lockKeyCategoryOrder left) - int (lockKeyCategoryOrder right)
       in if categoryOrder \<noteq> 0 then categoryOrder else collate left right) ks"

text \<open>\<open>existing\<close> is the device of the stored session, \<open>resolved\<close> that of the advisory resolution; \<open>None\<close>
  also stands for a resolution that is not attempted or throws.\<close>

definition resolveRequestExecutionLockKeys ::
  "(string \<Rightarrow> string \<Rightarrow> int) \<Rightarrow> string \<Rightarrow> string option \<Rightarrow> string option \<Rightarrow> string list" where
  "resolveRequestExecutionLockKeys collate sessionName existing resolved =
     (case existing of
        Some deviceId \<Rightarrow>
          orderRequestExecutionLockKeys collate
            [sessionExecutionLockKey sessionName, deviceExecutionLockKey deviceId]
      | None \<Rightarrow>
          (case resolved of
             Some deviceId \<Rightarrow>
               orderRequestExecutionLockKeys collate
                 (remdups [sessionExecutionLockKey sessionName, deviceExecutionLockKey deviceId])
           | None \<Rightarrow> orderRequestExecutionLockKeys collate [sessionExecutionLockKey sessionName]))"

lemma category_simps [simp]:
  "lockKeyCategoryOrder (sessionExecutionLockKey s) = 0"
  "lockKeyCategoryOrder (deviceExecutionLockKey d) = 1"
  by (simp_all add: lockKeyCategoryOrder_def sessionExecutionLockKey_def deviceExecutionLockKey_def)

lemma category_le: "lockKeyCategoryOrder k \<le> 1"
  by (simp add: lockKeyCategoryOrder_def)

lemma key_nonempty [simp]: "sessionExecutionLockKey s \<noteq> []" "deviceExecutionLockKey d \<noteq> []"
    "sessionExecutionLockKey s \<noteq> deviceExecutionLockKey d"
  by (simp_all add: sessionExecutionLockKey_def deviceExecutionLockKey_def)

text \<open>Whatever the collation says, the session key comes before the device key.\<close>

lemma resolved_keys:
  "resolveRequestExecutionLockKeys collate sessionName existing resolved =
     sessionExecutionLockKey sessionName #
     (case existing of
        Some d \<Rightarrow> [deviceExecutionLockKey d]
      | None \<Rightarrow> (case resolved of Some d \<Rightarrow> [deviceExecutionLockKey d] | None \<Rightarrow> []))"
  by (simp add: resolveRequestExecutionLockKeys_def orderRequestExecutionLockKeys_def js_sort_def
      split: option.split)

section \<open>Scopes\<close>

datatype scope_phase = Idle | Acquiring nat | Body | Retaining nat | Unwinding | Releasing

record lock_scope =
  sc_parent :: "nat option"
  sc_frames :: "string list"
  sc_initial :: "string list"
  sc_rest :: "string list"
  sc_held :: "nat list"
  sc_retained :: "(string \<times> nat) list"
  sc_phase :: scope_phase

record lock_world =
  lw_table :: "string lock_table"
  lw_scopes :: "lock_scope list"

datatype lock_error = Already_running | Not_running

text \<open>The frames of the context in which the body of a scope runs: those of its innermost lock.\<close>

definition active_locks :: "string lock_table \<Rightarrow> lock_scope \<Rightarrow> string list" where
  "active_locks tab q = (case sc_held q of [] \<Rightarrow> sc_frames q | t # _ \<Rightarrow> lt_frames (kl_tasks tab ! t))"

text \<open>\<open>caller\<close> is the request whose body makes the scope, \<open>None\<close> for a request from outside.\<close>

definition createRequestExecutionLocks :: "nat option \<Rightarrow> string list \<Rightarrow> lock_world \<Rightarrow> nat \<times> lock_world" where
  "createRequestExecutionLocks caller initialKeys w =
     (let frames = (case caller of None \<Rightarrow> [] | Some p \<Rightarrow> active_locks (lw_table w) (lw_scopes w ! p))
      in (length (lw_scopes w),
          w\<lparr>lw_scopes := lw_scopes w @ [\<lparr>sc_parent = caller, sc_frames = frames, sc_initial = initialKeys, sc_rest = [], sc_held = [],
            sc_retained = [], sc_phase = Idle\<rparr>]\<rparr>))"

text \<open>\<open>withRequestExecutionLocks\<close> runs without a pause up to the next lock it has to wait for.\<close>

fun withRequestExecutionLocks ::
  "nat \<Rightarrow> string list \<Rightarrow> string list \<Rightarrow> string lock_table \<Rightarrow> string lock_table \<times> string list \<times> scope_phase" where
  "withRequestExecutionLocks r activeLocks [] tab = (tab, [], Body)"
| "withRequestExecutionLocks r activeLocks (k # remainingKeys) tab =
     (if k = [] then (tab, [], Body)
      else case withKeyedLock tab activeLocks k r of
             (None, tab) \<Rightarrow> withRequestExecutionLocks r activeLocks remainingKeys tab
           | (Some t, tab) \<Rightarrow> (tab, remainingKeys, Acquiring t))"

definition set_scope :: "nat \<Rightarrow> lock_scope \<Rightarrow> lock_world \<Rightarrow> lock_world" where
  "set_scope r q w = w\<lparr>lw_scopes := (lw_scopes w)[r := q]\<rparr>"

definition run_scope :: "nat \<Rightarrow> lock_world \<Rightarrow> lock_error + lock_world" where
  "run_scope r w =
     (let q = lw_scopes w ! r
      in if sc_phase q \<noteq> Idle then Inl Already_running
         else case withRequestExecutionLocks r (sc_frames q) (sc_initial q) (lw_table w) of
                (tab, rest, phase) \<Rightarrow>
                  Inr (set_scope r (q\<lparr>sc_rest := rest, sc_phase := phase\<rparr>) (w\<lparr>lw_table := tab\<rparr>)))"

text \<open>\<open>retainDevice\<close>, called by the body. A lock that is already retained has been acquired. A key the body
  holds runs its task at once, which takes no lock.\<close>

definition retainDevice :: "string \<Rightarrow> nat \<Rightarrow> lock_world \<Rightarrow> lock_error + lock_world" where
  "retainDevice deviceId r w =
     (let q = lw_scopes w ! r; k = deviceExecutionLockKey deviceId
      in if sc_phase q = Idle then Inl Not_running
         else if k \<in> set (sc_initial q) then Inr w
         else case map_of (sc_retained q) k of
                Some t \<Rightarrow> Inr w
              | None \<Rightarrow>
                  (case withKeyedLock (lw_table w) (active_locks (lw_table w) q) k r of
                     (None, tab) \<Rightarrow> Inr w
                   | (Some t, tab) \<Rightarrow>
                       Inr (set_scope r (q\<lparr>sc_retained := sc_retained q @ [(k, t)], sc_phase := Retaining t\<rparr>)
                              (w\<lparr>lw_table := tab\<rparr>))))"

text \<open>The steps a scope takes by itself.\<close>

definition start_own :: "nat \<Rightarrow> nat \<Rightarrow> lock_world \<Rightarrow> lock_world" where
  "start_own r t w =
     (let q = lw_scopes w ! r; tab = start_task t (lw_table w)
      in case withRequestExecutionLocks r (lt_frames (kl_tasks tab ! t)) (sc_rest q) tab of
           (tab, rest, phase) \<Rightarrow>
             set_scope r (q\<lparr>sc_held := t # sc_held q, sc_rest := rest, sc_phase := phase\<rparr>) (w\<lparr>lw_table := tab\<rparr>))"

definition start_retained :: "nat \<Rightarrow> nat \<Rightarrow> lock_world \<Rightarrow> lock_world" where
  "start_retained r t w =
     set_scope r ((lw_scopes w ! r)\<lparr>sc_phase := Body\<rparr>) (w\<lparr>lw_table := start_task t (lw_table w)\<rparr>)"

definition set_phase :: "nat \<Rightarrow> scope_phase \<Rightarrow> lock_world \<Rightarrow> lock_world" where
  "set_phase r p w = set_scope r ((lw_scopes w ! r)\<lparr>sc_phase := p\<rparr>) w"

definition unwind_settle :: "nat \<Rightarrow> lock_world \<Rightarrow> lock_world" where
  "unwind_settle t w = w\<lparr>lw_table := settle_task t (lw_table w)\<rparr>"

definition unwind_cleanup :: "nat \<Rightarrow> nat \<Rightarrow> lock_world \<Rightarrow> lock_world" where
  "unwind_cleanup r t w =
     set_scope r ((lw_scopes w ! r)\<lparr>sc_held := tl (sc_held (lw_scopes w ! r))\<rparr>)
       (w\<lparr>lw_table := cleanup_task t (lw_table w)\<rparr>)"

definition release_cleanup :: "nat \<Rightarrow> lock_world \<Rightarrow> lock_world" where
  "release_cleanup t w = w\<lparr>lw_table := cleanup_task t (lw_table w)\<rparr>"

definition end_run :: "nat \<Rightarrow> lock_world \<Rightarrow> lock_world" where
  "end_run r w = set_scope r ((lw_scopes w ! r)\<lparr>sc_retained := [], sc_phase := Idle\<rparr>) w"

definition task_state_of :: "lock_world \<Rightarrow> nat \<Rightarrow> task_state" where
  "task_state_of w t = lt_state (kl_tasks (lw_table w) ! t)"

text \<open>No request that the body of \<open>r\<close> invoked is under way.\<close>

definition awaited :: "lock_world \<Rightarrow> nat \<Rightarrow> bool" where
  "awaited w r \<longleftrightarrow> (\<forall>q \<in> set (lw_scopes w). sc_parent q = Some r \<longrightarrow> sc_phase q = Idle)"

inductive lock_step :: "lock_world \<Rightarrow> lock_world \<Rightarrow> bool" where
  own_lock: "r < length (lw_scopes w) \<Longrightarrow> sc_phase (lw_scopes w ! r) = Acquiring t \<Longrightarrow>
    can_start (lw_table w) t \<Longrightarrow> lock_step w (start_own r t w)"
| retained_lock: "r < length (lw_scopes w) \<Longrightarrow> sc_phase (lw_scopes w ! r) = Retaining t \<Longrightarrow>
    can_start (lw_table w) t \<Longrightarrow> lock_step w (start_retained r t w)"
| body_ends: "r < length (lw_scopes w) \<Longrightarrow> sc_phase (lw_scopes w ! r) = Body \<Longrightarrow>
    awaited w r \<Longrightarrow> lock_step w (set_phase r Unwinding w)"
| settle: "r < length (lw_scopes w) \<Longrightarrow> sc_phase (lw_scopes w ! r) = Unwinding \<Longrightarrow>
    sc_held (lw_scopes w ! r) = t # ts \<Longrightarrow> task_state_of w t = Running \<Longrightarrow> lock_step w (unwind_settle t w)"
| cleanup: "r < length (lw_scopes w) \<Longrightarrow> sc_phase (lw_scopes w ! r) = Unwinding \<Longrightarrow>
    sc_held (lw_scopes w ! r) = t # ts \<Longrightarrow> task_state_of w t = Settled \<Longrightarrow> lock_step w (unwind_cleanup r t w)"
| unwound: "r < length (lw_scopes w) \<Longrightarrow> sc_phase (lw_scopes w ! r) = Unwinding \<Longrightarrow>
    sc_held (lw_scopes w ! r) = [] \<Longrightarrow> lock_step w (set_phase r Releasing w)"
| release: "r < length (lw_scopes w) \<Longrightarrow> sc_phase (lw_scopes w ! r) = Releasing \<Longrightarrow>
    (k, t) \<in> set (sc_retained (lw_scopes w ! r)) \<Longrightarrow> task_state_of w t = Running \<Longrightarrow>
    lock_step w (unwind_settle t w)"
| released: "r < length (lw_scopes w) \<Longrightarrow> sc_phase (lw_scopes w ! r) = Releasing \<Longrightarrow>
    (k, t) \<in> set (sc_retained (lw_scopes w ! r)) \<Longrightarrow> task_state_of w t = Settled \<Longrightarrow>
    lock_step w (release_cleanup t w)"
| ends: "r < length (lw_scopes w) \<Longrightarrow> sc_phase (lw_scopes w ! r) = Releasing \<Longrightarrow>
    (\<forall>(k, t) \<in> set (sc_retained (lw_scopes w ! r)). task_state_of w t = Cleaned) \<Longrightarrow>
    lock_step w (end_run r w)"

definition initial_world :: lock_world where
  "initial_world = \<lparr>lw_table = empty_table, lw_scopes = []\<rparr>"

inductive lock_reachable :: "(string \<Rightarrow> string \<Rightarrow> int) \<Rightarrow> lock_world \<Rightarrow> bool" for collate where
  start: "lock_reachable collate initial_world"
| create: "lock_reachable collate w \<Longrightarrow>
    ks = [] \<or> ks = resolveRequestExecutionLockKeys collate sessionName existing resolved \<Longrightarrow>
    lock_reachable collate (snd (createRequestExecutionLocks None ks w))"
| nest: "lock_reachable collate w \<Longrightarrow> p < length (lw_scopes w) \<Longrightarrow> sc_phase (lw_scopes w ! p) = Body \<Longrightarrow>
    ks = [] \<or> ks = resolveRequestExecutionLockKeys collate sessionName existing resolved \<Longrightarrow>
    lock_reachable collate (snd (createRequestExecutionLocks (Some p) ks w))"
| abandon: "lock_reachable collate w \<Longrightarrow> r < length (lw_scopes w) \<Longrightarrow> sc_phase (lw_scopes w ! r) = Body \<Longrightarrow>
    lock_reachable collate (set_phase r Unwinding w)"
| run: "lock_reachable collate w \<Longrightarrow> r < length (lw_scopes w) \<Longrightarrow> run_scope r w = Inr w' \<Longrightarrow>
    lock_reachable collate w'"
| retain: "lock_reachable collate w \<Longrightarrow> r < length (lw_scopes w) \<Longrightarrow> sc_phase (lw_scopes w ! r) = Body \<Longrightarrow>
    retainDevice deviceId r w = Inr w' \<Longrightarrow> lock_reachable collate w'"
| internal: "lock_reachable collate w \<Longrightarrow> lock_step w w' \<Longrightarrow> lock_reachable collate w'"


section \<open>The invariant\<close>

definition acquiring :: "lock_scope \<Rightarrow> nat list" where
  "acquiring q = (case sc_phase q of Acquiring t \<Rightarrow> [t] | _ \<Rightarrow> [])"

definition own_tasks :: "lock_scope \<Rightarrow> nat list" where
  "own_tasks q = acquiring q @ sc_held q"

definition scope_tasks :: "lock_scope \<Rightarrow> nat list" where
  "scope_tasks q = own_tasks q @ map snd (sc_retained q)"

abbreviation key_of :: "string lock_table \<Rightarrow> nat \<Rightarrow> string" where
  "key_of tab t \<equiv> lt_key (kl_tasks tab ! t)"

abbreviation state_of :: "string lock_table \<Rightarrow> nat \<Rightarrow> task_state" where
  "state_of tab t \<equiv> lt_state (kl_tasks tab ! t)"

abbreviation owner_of :: "string lock_table \<Rightarrow> nat \<Rightarrow> nat" where
  "owner_of tab t \<equiv> lt_owner (kl_tasks tab ! t)"

abbreviation retained_tasks :: "lock_scope \<Rightarrow> nat list" where
  "retained_tasks q \<equiv> map snd (sc_retained q)"

definition states_ok :: "string lock_table \<Rightarrow> lock_scope \<Rightarrow> bool" where
  "states_ok tab q \<longleftrightarrow>
     (let ws = map (state_of tab) (acquiring q);
          hs = map (state_of tab) (sc_held q);
          rs = map (state_of tab) (retained_tasks q)
      in case sc_phase q of
           Idle \<Rightarrow> hs = [] \<and> rs = []
         | Acquiring t \<Rightarrow> set ws \<subseteq> {Waiting} \<and> set hs \<subseteq> {Running} \<and> rs = []
         | Body \<Rightarrow> sc_rest q = [] \<and> set hs \<subseteq> {Running} \<and> set rs \<subseteq> {Running}
         | Retaining t \<Rightarrow> sc_rest q = [] \<and> set hs \<subseteq> {Running} \<and> set (butlast rs) \<subseteq> {Running} \<and>
             rs \<noteq> [] \<and> last (retained_tasks q) = t \<and> last rs = Waiting
         | Unwinding \<Rightarrow> set (tl hs) \<subseteq> {Running} \<and> (hs \<noteq> [] \<longrightarrow> hd hs \<in> {Running, Settled}) \<and> set rs \<subseteq> {Running}
         | Releasing \<Rightarrow> hs = [] \<and> Waiting \<notin> set rs)"

lemma states_ok_cong:
  assumes "\<And>t. t \<in> set (scope_tasks q) \<Longrightarrow> state_of tab' t = state_of tab t"
  shows "states_ok tab' q = states_ok tab q"
proof -
  have e: "map (state_of tab') (acquiring q) = map (state_of tab) (acquiring q)"
    "map (state_of tab') (sc_held q) = map (state_of tab) (sc_held q)"
    "map (state_of tab') (retained_tasks q) = map (state_of tab) (retained_tasks q)"
    using assms by (auto simp: scope_tasks_def own_tasks_def image_iff)
  show ?thesis unfolding states_ok_def e ..
qed

definition acquiring_phase :: "lock_scope \<Rightarrow> bool" where
  "acquiring_phase q \<longleftrightarrow> sc_phase q = Body \<or> (\<exists>t. sc_phase q = Acquiring t \<or> sc_phase q = Retaining t)"

text \<open>The keys a scope has to take itself.\<close>

definition taken_keys :: "lock_scope \<Rightarrow> string list" where
  "taken_keys q = filter (\<lambda>k. k \<notin> set (sc_frames q)) (sc_initial q)"

definition keys_ok :: "string lock_table \<Rightarrow> lock_scope \<Rightarrow> bool" where
  "keys_ok tab q \<longleftrightarrow>
     map (key_of tab) (rev (own_tasks q)) @ filter (\<lambda>k. k \<notin> set (sc_frames q)) (sc_rest q) = taken_keys q \<and>
     set (sc_rest q) \<subseteq> set (sc_initial q) \<and>
     (own_tasks q \<noteq> [] \<longrightarrow> lt_frames (kl_tasks tab ! hd (own_tasks q)) = sc_frames q @ map (key_of tab) (rev (own_tasks q)))"

definition ranked_keys :: "string list \<Rightarrow> bool" where
  "ranked_keys ks \<longleftrightarrow> [] \<notin> set ks \<and> sorted_wrt (\<lambda>k k'. lockKeyCategoryOrder k < lockKeyCategoryOrder k') ks"

definition scope_inv :: "string lock_table \<Rightarrow> nat \<Rightarrow> lock_scope \<Rightarrow> bool" where
  "scope_inv tab r q \<longleftrightarrow>
     distinct (scope_tasks q) \<and>
     (\<forall>t \<in> set (scope_tasks q). t < length (kl_tasks tab) \<and> owner_of tab t = r) \<and>
     (\<forall>t < length (kl_tasks tab). owner_of tab t = r \<longrightarrow> state_of tab t \<noteq> Cleaned \<longrightarrow> t \<in> set (scope_tasks q)) \<and>
     (\<forall>(k, t) \<in> set (sc_retained q). key_of tab t = k) \<and>
     states_ok tab q \<and> (acquiring_phase q \<longrightarrow> keys_ok tab q) \<and> ranked_keys (sc_initial q)"

lemma ranked_taken: "ranked_keys (sc_initial q) \<Longrightarrow> ranked_keys (taken_keys q)"
  by (auto simp: ranked_keys_def taken_keys_def intro: sorted_wrt_filter)

text \<open>What never changes of a scope, and how it comes from its caller.\<close>

definition fixed_part :: "lock_scope \<Rightarrow> nat option \<times> string list \<times> string list" where
  "fixed_part q = (sc_parent q, sc_frames q, sc_initial q)"

definition caller_ok :: "lock_scope list \<Rightarrow> nat \<Rightarrow> bool" where
  "caller_ok qs r \<longleftrightarrow>
     (case sc_parent (qs ! r) of
        None \<Rightarrow> sc_frames (qs ! r) = []
      | Some p \<Rightarrow> p < r \<and> sc_frames (qs ! r) = sc_frames (qs ! p) @ taken_keys (qs ! p))"

lemma caller_ok_cong:
  assumes "\<And>i. i \<le> r \<Longrightarrow> fixed_part (qs' ! i) = fixed_part (qs ! i)"
  shows "caller_ok qs' r = caller_ok qs r"
proof -
  have "sc_parent (qs' ! i) = sc_parent (qs ! i)" "sc_frames (qs' ! i) = sc_frames (qs ! i)"
      "taken_keys (qs' ! i) = taken_keys (qs ! i)" if "i \<le> r" for i
    using assms [OF that] by (simp_all add: fixed_part_def taken_keys_def)
  then show ?thesis by (auto simp: caller_ok_def split: option.splits)
qed

definition world_inv :: "lock_world \<Rightarrow> bool" where
  "world_inv w \<longleftrightarrow>
     lock_inv (lw_table w) \<and>
     (\<forall>t < length (kl_tasks (lw_table w)). owner_of (lw_table w) t < length (lw_scopes w)) \<and>
     (\<forall>r < length (lw_scopes w). scope_inv (lw_table w) r (lw_scopes w ! r)) \<and>
     (\<forall>r < length (lw_scopes w). caller_ok (lw_scopes w) r)"

text \<open>A step of one scope leaves the tasks of the others alone.\<close>

definition table_ext :: "nat \<Rightarrow> string lock_table \<Rightarrow> string lock_table \<Rightarrow> bool" where
  "table_ext r tab tab' \<longleftrightarrow>
     length (kl_tasks tab) \<le> length (kl_tasks tab') \<and>
     (\<forall>t < length (kl_tasks tab). key_of tab' t = key_of tab t \<and> owner_of tab' t = owner_of tab t \<and>
        lt_frames (kl_tasks tab' ! t) = lt_frames (kl_tasks tab ! t) \<and>
        (owner_of tab t \<noteq> r \<longrightarrow> state_of tab' t = state_of tab t)) \<and>
     (\<forall>t. length (kl_tasks tab) \<le> t \<longrightarrow> t < length (kl_tasks tab') \<longrightarrow> owner_of tab' t = r)"

lemma scope_inv_ext:
  assumes e: "table_ext r tab tab'" and i: "scope_inv tab r' q" and r: "r' \<noteq> r"
  shows "scope_inv tab' r' q"
proof -
  have mem: "t < length (kl_tasks tab) \<and> owner_of tab t = r'" if "t \<in> set (scope_tasks q)" for t
    using i that by (simp add: scope_inv_def)
  have same: "t < length (kl_tasks tab') \<and> key_of tab' t = key_of tab t \<and> owner_of tab' t = r' \<and>
      lt_frames (kl_tasks tab' ! t) = lt_frames (kl_tasks tab ! t) \<and> state_of tab' t = state_of tab t"
    if "t \<in> set (scope_tasks q)" for t
    using mem [OF that] e r by (auto simp: table_ext_def)
  have own: "set (own_tasks q) \<subseteq> set (scope_tasks q)" "set (sc_held q) \<subseteq> set (scope_tasks q)"
      "snd ` set (sc_retained q) \<subseteq> set (scope_tasks q)"
      "\<And>t. sc_phase q = Acquiring t \<Longrightarrow> t \<in> set (scope_tasks q)"
    by (auto simp: scope_tasks_def own_tasks_def acquiring_def)
  have c2: "t \<in> set (scope_tasks q)"
    if "t < length (kl_tasks tab')" "owner_of tab' t = r'" "state_of tab' t \<noteq> Cleaned" for t
  proof -
    have t: "t < length (kl_tasks tab)" using e that r by (metis not_le table_ext_def)
    then have "owner_of tab t = r'" "state_of tab t \<noteq> Cleaned" using e that r by (auto simp: table_ext_def)
    with t i show ?thesis by (simp add: scope_inv_def)
  qed
  have c4: "states_ok tab' q"
    using states_ok_cong [of q tab' tab] same i by (simp add: scope_inv_def)
  have c5: "keys_ok tab' q" if "acquiring_phase q"
  proof -
    have k: "keys_ok tab q" using i that by (simp add: scope_inv_def)
    have m: "map (key_of tab') (rev (own_tasks q)) = map (key_of tab) (rev (own_tasks q))"
      using own(1) same by auto
    have "own_tasks q \<noteq> [] \<Longrightarrow> lt_frames (kl_tasks tab' ! hd (own_tasks q)) = lt_frames (kl_tasks tab ! hd (own_tasks q))"
      using own(1) same hd_in_set by blast
    with k show ?thesis unfolding keys_ok_def m by simp
  qed
  have c3: "\<forall>(k, t) \<in> set (sc_retained q). key_of tab' t = k"
  proof (intro ballI, clarify)
    fix k t
    assume kt: "(k, t) \<in> set (sc_retained q)"
    with own(3) have "t \<in> set (scope_tasks q)" by force
    with same have "key_of tab' t = key_of tab t" by blast
    moreover have "key_of tab t = k" using i kt by (auto simp: scope_inv_def)
    ultimately show "key_of tab' t = k" by simp
  qed
  have c1: "distinct (scope_tasks q)" "ranked_keys (sc_initial q)" using i by (simp_all add: scope_inv_def)
  have c6: "\<forall>t \<in> set (scope_tasks q). t < length (kl_tasks tab') \<and> owner_of tab' t = r'" using same by blast
  show ?thesis unfolding scope_inv_def using c1 c2 c3 c4 c5 c6 by blast
qed

lemma world_inv_update:
  assumes w: "world_inv w" and r: "r < length (lw_scopes w)" and l: "lock_inv tab"
    and e: "table_ext r (lw_table w) tab" and q: "scope_inv tab r q" and f: "fixed_part q = fixed_part (lw_scopes w ! r)"
  shows "world_inv (set_scope r q (w\<lparr>lw_table := tab\<rparr>))"
proof -
  have "owner_of tab t < length (lw_scopes w)" if "t < length (kl_tasks tab)" for t
    using w r e that by (cases "t < length (kl_tasks (lw_table w))") (auto simp: world_inv_def table_ext_def)
  moreover have "scope_inv tab i (lw_scopes w ! i)" if "i < length (lw_scopes w)" "i \<noteq> r" for i
    using scope_inv_ext [OF e _ that(2)] w that(1) by (simp add: world_inv_def)
  moreover have "caller_ok ((lw_scopes w)[r := q]) i" if "i < length (lw_scopes w)" for i
  proof -
    have "caller_ok ((lw_scopes w)[r := q]) i = caller_ok (lw_scopes w) i"
      by (rule caller_ok_cong) (use f r in \<open>simp add: nth_list_update\<close>)
    with w that show ?thesis by (simp add: world_inv_def)
  qed
  ultimately show ?thesis using l q r by (auto simp: world_inv_def set_scope_def nth_list_update)
qed

lemma table_ext_refl: "table_ext r tab tab"
  by (simp add: table_ext_def)

lemma table_ext_set_state: "owner_of tab t = r \<Longrightarrow> table_ext r tab (set_task_state t x tab)"
  by (auto simp: table_ext_def nth_set_state)

lemma table_ext_cleanup: "owner_of tab t = r \<Longrightarrow> table_ext r tab (cleanup_task t tab)"
  by (auto simp: table_ext_def cleanup_task_def Let_def nth_set_state)

lemma table_ext_trans: "table_ext r a b \<Longrightarrow> table_ext r b c \<Longrightarrow> table_ext r a c"
proof -
  assume ab: "table_ext r a b" and bc: "table_ext r b c"
  have "owner_of c t = r" if "length (kl_tasks a) \<le> t" "t < length (kl_tasks c)" for t
    using ab bc that by (cases "t < length (kl_tasks b)") (simp_all add: table_ext_def)
  moreover have "key_of c t = key_of a t \<and> owner_of c t = owner_of a t \<and>
      lt_frames (kl_tasks c ! t) = lt_frames (kl_tasks a ! t) \<and> (owner_of a t \<noteq> r \<longrightarrow> state_of c t = state_of a t)"
    if "t < length (kl_tasks a)" for t
  proof -
    have "t < length (kl_tasks b)" using ab that by (simp add: table_ext_def)
    with ab bc that show ?thesis by (simp add: table_ext_def)
  qed
  ultimately show ?thesis using ab bc by (simp add: table_ext_def)
qed

lemma table_ext_withKeyedLock: "table_ext r tab (snd (withKeyedLock tab frames k r))"
  by (auto simp: table_ext_def withKeyedLock_def Let_def nth_append)

lemma state_cleanup:
  "t < length (kl_tasks tab) \<Longrightarrow> state_of (cleanup_task t tab) u = (if u = t then Cleaned else state_of tab u)"
  "key_of (cleanup_task t tab) u = key_of tab u"
  "owner_of (cleanup_task t tab) u = owner_of tab u"
  "lt_frames (kl_tasks (cleanup_task t tab) ! u) = lt_frames (kl_tasks tab ! u)"
  "length (kl_tasks (cleanup_task t tab)) = length (kl_tasks tab)"
  by (simp_all add: cleanup_task_def Let_def state_set_state)


section \<open>Every step keeps the invariant\<close>

text \<open>What \<open>withRequestExecutionLocks\<close> does when the keys still to take are ranked above those held.\<close>

lemma ranked_keysD:
  assumes "ranked_keys (hs @ k # ks)"
  shows "k \<notin> set hs" "k \<noteq> []"
  using assms by (auto simp: ranked_keys_def sorted_wrt_append)

lemma next_lock:
  assumes "[] \<notin> set ks" "ranked_keys (hs @ filter (\<lambda>k. k \<notin> set F) ks)"
  shows "withRequestExecutionLocks r (F @ hs) ks tab =
    (case dropWhile (\<lambda>k. k \<in> set F) ks of [] \<Rightarrow> (tab, [], Body)
     | k # ks' \<Rightarrow> (snd (withKeyedLock tab (F @ hs) k r), ks', Acquiring (length (kl_tasks tab))))"
  using assms
proof (induction ks)
  case (Cons k ks)
  show ?case
  proof (cases "k \<in> set F")
    case True
    with Cons show ?thesis by (auto simp: withKeyedLock_def)
  next
    case False
    with Cons.prems ranked_keysD [of hs k "filter (\<lambda>k. k \<notin> set F) ks"] show ?thesis by (simp add: withKeyedLock_def Let_def)
  qed
qed simp

lemma filter_dropWhile: "filter (\<lambda>k. k \<notin> set F) (dropWhile (\<lambda>k. k \<in> set F) ks) = filter (\<lambda>k. k \<notin> set F) ks"
  by (induction ks) auto

lemma scope_invD:
  assumes "scope_inv tab r q"
  shows "distinct (scope_tasks q)"
    and "t \<in> set (scope_tasks q) \<Longrightarrow> t < length (kl_tasks tab)"
    and "t \<in> set (scope_tasks q) \<Longrightarrow> owner_of tab t = r"
    and "t < length (kl_tasks tab) \<Longrightarrow> owner_of tab t = r \<Longrightarrow> state_of tab t \<noteq> Cleaned \<Longrightarrow> t \<in> set (scope_tasks q)"
    and "(k, t) \<in> set (sc_retained q) \<Longrightarrow> key_of tab t = k"
    and "states_ok tab q" and "acquiring_phase q \<Longrightarrow> keys_ok tab q" and "ranked_keys (sc_initial q)"
  using assms by (auto simp: scope_inv_def)

text \<open>A scope that holds the first of its keys goes on to the next one, or to the body.\<close>

lemma enqueue_inv:
  assumes dist: "distinct (sc_held q)"
    and held: "\<And>t. t \<in> set (sc_held q) \<Longrightarrow> t < length (kl_tasks tab) \<and> owner_of tab t = r \<and> state_of tab t = Running"
    and all: "\<And>t. t < length (kl_tasks tab) \<Longrightarrow> owner_of tab t = r \<Longrightarrow> state_of tab t \<noteq> Cleaned \<Longrightarrow> t \<in> set (sc_held q)"
    and ini: "ranked_keys (sc_initial q)"
    and own: "map (key_of tab) (rev (sc_held q)) = hs" and ret: "sc_retained q = []"
    and fr: "hs @ filter (\<lambda>k. k \<notin> set (sc_frames q)) ks = taken_keys q" and sub: "set ks \<subseteq> set (sc_initial q)"
    and hf: "sc_held q \<noteq> [] \<Longrightarrow> lt_frames (kl_tasks tab ! hd (sc_held q)) = sc_frames q @ hs"
    and res: "withRequestExecutionLocks r (sc_frames q @ hs) ks tab = (tab', rest, phase)"
  shows "scope_inv tab' r (q\<lparr>sc_rest := rest, sc_phase := phase\<rparr>)" and "table_ext r tab tab'"
    and "lock_inv tab \<Longrightarrow> lock_inv tab'"
proof -
  define F where "F = sc_frames q"
  note fr = fr [folded F_def] and hf = hf [folded F_def]
  have ranked: "ranked_keys (hs @ filter (\<lambda>k. k \<notin> set F) ks)" using ranked_taken [OF ini] by (simp add: fr)
  have "[] \<notin> set ks" using ini sub by (auto simp: ranked_keys_def)
  note eq = next_lock [OF this ranked, of r tab, folded F_def, unfolded res [folded F_def]]
  show ext: "table_ext r tab tab'" using eq by (auto simp: table_ext_refl table_ext_withKeyedLock split: list.splits)
  show "lock_inv tab \<Longrightarrow> lock_inv tab'" using eq by (auto simp: withKeyedLock_inv split: list.splits)
  have running: "set (map (state_of tab) (sc_held q)) \<subseteq> {Running}" using held by auto
  show "scope_inv tab' r (q\<lparr>sc_rest := rest, sc_phase := phase\<rparr>)"
  proof (cases "dropWhile (\<lambda>k. k \<in> set F) ks")
    case Nil
    with eq have e: "tab' = tab" "rest = []" "phase = Body" by simp_all
    have none: "filter (\<lambda>k. k \<notin> set F) ks = []" using Nil filter_dropWhile [of F ks] by simp
    define q' where "q' = q\<lparr>sc_rest := [], sc_phase := Body\<rparr>"
    have q': "scope_tasks q' = sc_held q" "own_tasks q' = sc_held q" "sc_retained q' = []" "sc_initial q' = sc_initial q"
        "sc_frames q' = F" "taken_keys q' = taken_keys q"
      by (simp_all add: q'_def scope_tasks_def own_tasks_def acquiring_def ret F_def taken_keys_def)
    have "keys_ok tab q'" unfolding keys_ok_def q' using own fr hf none by (simp add: q'_def)
    moreover have "states_ok tab q'" using running by (simp add: states_ok_def q'_def ret Let_def)
    ultimately have "scope_inv tab r q'"
      using dist held all ini unfolding scope_inv_def q' by simp
    then show ?thesis by (simp add: e q'_def)
  next
    case (Cons k ks')
    define n where "n = length (kl_tasks tab)"
    from Cons eq have e: "tab' = snd (withKeyedLock tab (F @ hs) k r)" "rest = ks'" "phase = Acquiring n"
      by (simp_all add: n_def)
    have kF: "k \<notin> set F" using Cons by (auto simp: dropWhile_eq_Cons_conv)
    have todo: "filter (\<lambda>k. k \<notin> set F) ks = k # filter (\<lambda>k. k \<notin> set F) ks'"
      using filter_dropWhile [of F ks] Cons kF by simp
    have "k \<notin> set hs" using ranked ranked_keysD todo by metis
    moreover have "set ks' \<subseteq> set (sc_initial q)" using sub set_dropWhileD [of _ _ ks] Cons by (metis list.set_intros(2) subset_iff)
    note rest_sub = this
    ultimately have tab': "kl_tasks tab' = kl_tasks tab @ [\<lparr>lt_key = k, lt_frames = F @ hs @ [k],
        lt_previous = kl_locks tab k, lt_state = Waiting, lt_owner = r\<rparr>]"
      using kF by (simp add: e withKeyedLock_def Let_def)
    have old: "kl_tasks tab' ! t = kl_tasks tab ! t" if "t < n" for t
      using that by (simp add: tab' n_def nth_append)
    have new: "kl_tasks tab' ! n = \<lparr>lt_key = k, lt_frames = F @ hs @ [k],
        lt_previous = kl_locks tab k, lt_state = Waiting, lt_owner = r\<rparr>" by (simp add: tab' n_def)
    have lt: "t < n" if "t \<in> set (sc_held q)" for t using held [OF that] by (simp add: n_def)
    have same: "map (key_of tab') (sc_held q) = map (key_of tab) (sc_held q)"
      "map (state_of tab') (sc_held q) = map (state_of tab) (sc_held q)"
      using lt old by auto
    define q' where "q' = q\<lparr>sc_rest := ks', sc_phase := Acquiring n\<rparr>"
    have q': "scope_tasks q' = n # sc_held q" "own_tasks q' = n # sc_held q" "acquiring q' = [n]"
        "sc_retained q' = []" "sc_initial q' = sc_initial q" "sc_frames q' = F" "taken_keys q' = taken_keys q"
      by (simp_all add: q'_def scope_tasks_def own_tasks_def acquiring_def ret F_def taken_keys_def)
    have mem: "t \<in> set (n # sc_held q)"
      if "t < length (kl_tasks tab')" "owner_of tab' t = r" "state_of tab' t \<noteq> Cleaned" for t
    proof (cases "t = n")
      case False
      with that(1) have "t < n" by (simp add: tab' n_def)
      with that all [of t] show ?thesis by (simp add: old n_def)
    qed simp
    have "map (key_of tab') (rev (n # sc_held q)) = rev (map (key_of tab') (sc_held q)) @ [k]"
      by (simp add: new rev_map)
    also have "\<dots> = hs @ [k]" unfolding same(1) using own by (simp add: rev_map)
    finally have "keys_ok tab' q'"
      unfolding keys_ok_def q' using fr todo rest_sub by (simp add: new q'_def)
    moreover have "states_ok tab' q'"
      unfolding states_ok_def Let_def q' using running same(2) new by (simp add: q'_def)
    moreover have "distinct (n # sc_held q)" using dist lt by auto
    moreover have "\<forall>t \<in> set (n # sc_held q). t < length (kl_tasks tab') \<and> owner_of tab' t = r"
      using held by (auto simp: tab' n_def nth_append less_Suc_eq)
    ultimately have "scope_inv tab' r q'"
      using ini mem unfolding scope_inv_def q' by simp
    then show ?thesis by (simp add: e q'_def)
  qed
qed

lemma world_invD:
  assumes "world_inv w" "r < length (lw_scopes w)"
  shows "lock_inv (lw_table w)" "scope_inv (lw_table w) r (lw_scopes w ! r)"
  using assms by (simp_all add: world_inv_def)

lemma run_scope_inv:
  assumes w: "world_inv w" and r: "r < length (lw_scopes w)" and res: "run_scope r w = Inr w'"
  shows "world_inv w'"
proof -
  let ?q = "lw_scopes w ! r" and ?tab = "lw_table w"
  note inv = world_invD [OF w r]
  obtain tab rest phase where st: "withRequestExecutionLocks r (sc_frames ?q @ []) (sc_initial ?q) ?tab = (tab, rest, phase)"
    by (metis prod_cases3)
  have idle: "sc_phase ?q = Idle" and w': "w' = set_scope r (?q\<lparr>sc_rest := rest, sc_phase := phase\<rparr>) (w\<lparr>lw_table := tab\<rparr>)"
    using res st by (auto simp: run_scope_def Let_def split: if_splits)
  have none: "sc_held ?q = []" "sc_retained ?q = []" using scope_invD(6) [OF inv(2)] idle by (simp_all add: states_ok_def)
  have tasks: "scope_tasks ?q = []" using none idle by (simp add: scope_tasks_def own_tasks_def acquiring_def)
  note enq = enqueue_inv [where q = ?q and tab = ?tab and r = r and hs = "[]", OF _ _ _ scope_invD(8) [OF inv(2)] _ _ _ _ _ st]
  have "scope_inv tab r (?q\<lparr>sc_rest := rest, sc_phase := phase\<rparr>)"
    by (rule enq(1)) (use none scope_invD(4) [OF inv(2)] tasks in \<open>auto simp: taken_keys_def\<close>)
  moreover have "table_ext r ?tab tab"
    by (rule enq(2)) (use none scope_invD(4) [OF inv(2)] tasks in \<open>auto simp: taken_keys_def\<close>)
  moreover have "lock_inv tab"
    by (rule enq(3)) (use none scope_invD(4) [OF inv(2)] tasks inv(1) in \<open>auto simp: taken_keys_def\<close>)
  ultimately show ?thesis unfolding w' by (intro world_inv_update [OF w r]) (simp_all add: fixed_part_def)
qed

lemma start_own_inv:
  assumes w: "world_inv w" and r: "r < length (lw_scopes w)"
    and ph: "sc_phase (lw_scopes w ! r) = Acquiring t" and c: "can_start (lw_table w) t"
  shows "world_inv (start_own r t w)"
proof -
  define q where "q = lw_scopes w ! r"
  define tab where "tab = lw_table w"
  define tab1 where "tab1 = start_task t tab"
  define q1 where "q1 = q\<lparr>sc_held := t # sc_held q\<rparr>"
  have inv: "lock_inv tab" "scope_inv tab r q" using world_invD [OF w r] by (simp_all add: q_def tab_def)
  have ph': "sc_phase q = Acquiring t" using ph by (simp add: q_def)
  have st: "states_ok tab q" by (rule scope_invD(6) [OF inv(2)])
  have ret: "sc_retained q = []" using st ph' by (simp add: states_ok_def Let_def)
  have tasks: "scope_tasks q = t # sc_held q" "own_tasks q = t # sc_held q"
    using ph' ret by (simp_all add: scope_tasks_def own_tasks_def acquiring_def)
  have run: "state_of tab h = Running" if "h \<in> set (sc_held q)" for h
    using st ph' that by (auto simp: states_ok_def Let_def)
  have t: "t < length (kl_tasks tab)" "owner_of tab t = r" using scope_invD(2,3) [OF inv(2), of t] by (simp_all add: tasks)
  have keys: "map (key_of tab) (rev (t # sc_held q)) @ filter (\<lambda>k. k \<notin> set (sc_frames q)) (sc_rest q) = taken_keys q"
      "set (sc_rest q) \<subseteq> set (sc_initial q)"
      "lt_frames (kl_tasks tab ! t) = sc_frames q @ map (key_of tab) (rev (t # sc_held q))"
    using scope_invD(7) [OF inv(2)] ph' by (simp_all add: acquiring_phase_def keys_ok_def tasks)
  obtain tab' rest phase where res: "withRequestExecutionLocks r (lt_frames (kl_tasks tab1 ! t)) (sc_rest q) tab1 = (tab', rest, phase)"
    by (metis prod_cases3)
  have fr: "lt_frames (kl_tasks tab1 ! t) = sc_frames q1 @ map (key_of tab) (rev (t # sc_held q))"
    using keys(3) unfolding q1_def by (simp add: tab1_def start_task_def)
  have st1: "state_of tab1 u = (if u = t then Running else state_of tab u)" for u
    using t(1) by (simp add: tab1_def start_task_def state_set_state)
  have s1: "length (kl_tasks tab1) = length (kl_tasks tab)" "owner_of tab1 u = owner_of tab u" "key_of tab1 u = key_of tab u" for u
    by (simp_all add: tab1_def start_task_def)
  have ext1: "table_ext r tab tab1" unfolding tab1_def start_task_def by (rule table_ext_set_state) (rule t)
  have l1: "lock_inv tab1" unfolding tab1_def by (rule start_task_inv) (use inv t c tab_def in auto)
  have d1: "distinct (sc_held q1)" using scope_invD(1) [OF inv(2)] by (simp add: tasks q1_def)
  have d2: "u < length (kl_tasks tab1) \<and> owner_of tab1 u = r \<and> state_of tab1 u = Running" if "u \<in> set (sc_held q1)" for u
    using that scope_invD(2,3) [OF inv(2), of u] run [of u] by (auto simp: q1_def st1 tasks s1)
  have d3: "u \<in> set (sc_held q1)" if "u < length (kl_tasks tab1)" "owner_of tab1 u = r" "state_of tab1 u \<noteq> Cleaned" for u
    using that scope_invD(4) [OF inv(2), of u] by (auto simp: q1_def st1 tasks s1 split: if_splits)
  have d5: "map (key_of tab1) (rev (sc_held q1)) = map (key_of tab) (rev (t # sc_held q))"
    by (simp add: q1_def s1)
  have d7: "map (key_of tab) (rev (t # sc_held q)) @ filter (\<lambda>k. k \<notin> set (sc_frames q1)) (sc_rest q) = taken_keys q1"
      "set (sc_rest q) \<subseteq> set (sc_initial q1)"
    using keys(1,2) by (simp_all add: q1_def taken_keys_def)
  have d8: "lt_frames (kl_tasks tab1 ! hd (sc_held q1)) = sc_frames q1 @ map (key_of tab) (rev (t # sc_held q))"
    using fr by (simp add: q1_def)
  note enq = enqueue_inv [where q = q1 and tab = tab1 and r = r, OF d1 d2 d3 _ d5 _ d7 d8 res [unfolded fr]]
  have e: "scope_inv tab' r (q1\<lparr>sc_rest := rest, sc_phase := phase\<rparr>)" "table_ext r tab1 tab'" "lock_inv tab1 \<Longrightarrow> lock_inv tab'"
    by (rule enq; simp add: q1_def ret scope_invD(8) [OF inv(2)])+
  have w': "start_own r t w = set_scope r (q1\<lparr>sc_rest := rest, sc_phase := phase\<rparr>) (w\<lparr>lw_table := tab'\<rparr>)"
    using res by (simp add: start_own_def q_def tab_def tab1_def q1_def Let_def)
  show ?thesis unfolding w'
    by (rule world_inv_update [OF w r e(3) [OF l1] _ e(1)])
      (use table_ext_trans [OF ext1 e(2)] in \<open>simp_all add: tab_def q1_def q_def fixed_part_def\<close>)
qed


lemma set_scope_same_table: "set_scope r q w = set_scope r q (w\<lparr>lw_table := lw_table w\<rparr>)"
  by simp

lemma not_acquiring:
  assumes "\<And>u. sc_phase q \<noteq> Acquiring u"
  shows "own_tasks q = sc_held q" "scope_tasks q = sc_held q @ retained_tasks q" "acquiring q = []"
  using assms by (cases "sc_phase q"; simp add: scope_tasks_def own_tasks_def acquiring_def)+

lemma subseq_set: "subseq xs ys \<Longrightarrow> set xs \<subseteq> set ys"
  by (auto simp: subseq_conv_nths dest: in_set_nthsD)

lemma subseq_distinct: "subseq xs ys \<Longrightarrow> distinct ys \<Longrightarrow> distinct xs"
  by (auto simp: subseq_conv_nths distinct_nthsI)

text \<open>A step that changes the phase of a scope and the states of some of its tasks, and forgets only
  cleaned-up tasks.\<close>

lemma scope_inv_states:
  assumes inv: "scope_inv tab r q"
    and ph: "\<And>u. sc_phase q \<noteq> Acquiring u" "\<And>u. sc_phase q' \<noteq> Acquiring u"
    and same: "fixed_part q' = fixed_part q" "length (kl_tasks tab') = length (kl_tasks tab)"
      "\<And>u. key_of tab' u = key_of tab u" "\<And>u. owner_of tab' u = owner_of tab u"
      "\<And>u. lt_frames (kl_tasks tab' ! u) = lt_frames (kl_tasks tab ! u)"
    and sub: "subseq (sc_held q') (sc_held q)" "subseq (sc_retained q') (sc_retained q)"
    and gone: "\<And>u. u \<in> set (scope_tasks q) \<Longrightarrow> u \<notin> set (scope_tasks q') \<Longrightarrow> state_of tab' u = Cleaned"
    and clean: "\<And>u. u < length (kl_tasks tab) \<Longrightarrow> state_of tab u = Cleaned \<Longrightarrow> state_of tab' u = Cleaned"
    and st: "states_ok tab' q'"
    and keys: "acquiring_phase q' \<Longrightarrow> acquiring_phase q \<and> sc_held q' = sc_held q \<and> sc_rest q' = sc_rest q"
  shows "scope_inv tab' r q'"
proof -
  have fixed: "sc_initial q' = sc_initial q" "sc_frames q' = sc_frames q" "taken_keys q' = taken_keys q"
    using same(1) by (simp_all add: fixed_part_def taken_keys_def)
  note n = not_acquiring [OF ph(1)] and n' = not_acquiring [OF ph(2)]
  have sub': "subseq (scope_tasks q') (scope_tasks q)"
    unfolding n n' by (intro list_emb_append_mono sub(1) subseq_map sub(2))
  have mem: "u \<in> set (scope_tasks q)" if "u \<in> set (scope_tasks q')" for u
    using subseq_set [OF sub'] that by blast
  have "distinct (scope_tasks q')" using scope_invD(1) [OF inv] subseq_distinct [OF sub'] by blast
  moreover have "\<forall>u \<in> set (scope_tasks q'). u < length (kl_tasks tab') \<and> owner_of tab' u = r"
    using scope_invD(2,3) [OF inv] mem by (simp add: same(2-))
  moreover have "\<forall>u < length (kl_tasks tab'). owner_of tab' u = r \<longrightarrow> state_of tab' u \<noteq> Cleaned \<longrightarrow> u \<in> set (scope_tasks q')"
  proof (intro allI impI, rule ccontr)
    fix u
    assume u: "u < length (kl_tasks tab')" "owner_of tab' u = r" "state_of tab' u \<noteq> Cleaned" "u \<notin> set (scope_tasks q')"
    with clean [of u] have "state_of tab u \<noteq> Cleaned" by (auto simp: same(2-))
    with u scope_invD(4) [OF inv, of u] have "u \<in> set (scope_tasks q)" by (simp add: same(2-))
    with gone u show False by blast
  qed
  moreover have "\<forall>(k, u) \<in> set (sc_retained q'). key_of tab' u = k"
    using scope_invD(5) [OF inv] subseq_set [OF sub(2)] by (auto simp: same(2-))
  moreover have "keys_ok tab' q'" if "acquiring_phase q'"
    using scope_invD(7) [OF inv] keys [OF that] by (simp add: keys_ok_def n n' same(2-) fixed)
  moreover have "ranked_keys (sc_initial q')" using scope_invD(8) [OF inv] by (simp add: fixed)
  ultimately show ?thesis using st unfolding scope_inv_def by blast
qed

lemma set_phase_inv:
  assumes w: "world_inv w" and r: "r < length (lw_scopes w)"
    and ph: "sc_phase (lw_scopes w ! r) = Body \<and> p = Unwinding \<or>
      sc_phase (lw_scopes w ! r) = Unwinding \<and> p = Releasing \<and> sc_held (lw_scopes w ! r) = []"
  shows "world_inv (set_phase r p w)"
proof -
  let ?q = "lw_scopes w ! r" and ?q' = "(lw_scopes w ! r)\<lparr>sc_phase := p\<rparr>" and ?tab = "lw_table w"
  note inv = world_invD [OF w r]
  have na: "sc_phase ?q \<noteq> Acquiring u" "sc_phase ?q' \<noteq> Acquiring u" for u using ph by auto
  have st: "states_ok ?tab ?q'"
    using scope_invD(6) [OF inv(2)] ph by (cases "sc_held ?q") (auto simp: states_ok_def Let_def image_subset_iff)
  have "scope_inv ?tab r ?q'"
    by (rule scope_inv_states [OF inv(2) na, where tab' = ?tab])
      (use st ph in \<open>auto simp: fixed_part_def not_acquiring [OF na(1)] not_acquiring [OF na(2)] acquiring_phase_def\<close>)
  then show ?thesis unfolding set_phase_def
    by (subst set_scope_same_table) (rule world_inv_update [OF w r inv(1) table_ext_refl], simp_all add: fixed_part_def)
qed

lemma end_run_inv:
  assumes w: "world_inv w" and r: "r < length (lw_scopes w)" and ph: "sc_phase (lw_scopes w ! r) = Releasing"
    and done_: "\<forall>(k, t) \<in> set (sc_retained (lw_scopes w ! r)). task_state_of w t = Cleaned"
  shows "world_inv (end_run r w)"
proof -
  let ?q = "lw_scopes w ! r" and ?q' = "(lw_scopes w ! r)\<lparr>sc_retained := [], sc_phase := Idle\<rparr>" and ?tab = "lw_table w"
  note inv = world_invD [OF w r]
  have na: "sc_phase ?q \<noteq> Acquiring u" "sc_phase ?q' \<noteq> Acquiring u" for u using ph by auto
  have held: "sc_held ?q = []" using scope_invD(6) [OF inv(2)] ph by (simp add: states_ok_def Let_def)
  have "scope_inv ?tab r ?q'"
    by (rule scope_inv_states [OF inv(2) na, where tab' = ?tab])
      (use done_ held in \<open>auto simp: fixed_part_def not_acquiring [OF na(1)] not_acquiring [OF na(2)] acquiring_phase_def
        states_ok_def Let_def task_state_of_def\<close>)
  then show ?thesis unfolding end_run_def
    by (subst set_scope_same_table) (rule world_inv_update [OF w r inv(1) table_ext_refl], simp_all add: fixed_part_def)
qed


lemma table_update_scope:
  "r < length (lw_scopes w) \<Longrightarrow> w\<lparr>lw_table := tab\<rparr> = set_scope r (lw_scopes w ! r) (w\<lparr>lw_table := tab\<rparr>)"
  by (simp add: set_scope_def)

text \<open>A task of the scope settles: the innermost held one, or a retained one on release.\<close>

lemma settle_inv:
  assumes w: "world_inv w" and r: "r < length (lw_scopes w)" and run: "task_state_of w t = Running"
    and ph: "sc_phase (lw_scopes w ! r) = Unwinding \<and> (\<exists>ts. sc_held (lw_scopes w ! r) = t # ts) \<or>
      sc_phase (lw_scopes w ! r) = Releasing \<and> t \<in> set (retained_tasks (lw_scopes w ! r))"
  shows "world_inv (unwind_settle t w)"
proof -
  let ?q = "lw_scopes w ! r" and ?tab = "lw_table w"
  let ?tab' = "settle_task t ?tab"
  note inv = world_invD [OF w r]
  have na: "sc_phase ?q \<noteq> Acquiring u" for u using ph by auto
  have mem: "t \<in> set (scope_tasks ?q)" using ph by (auto simp: not_acquiring [OF na])
  note t = scope_invD(2,3) [OF inv(2) mem]
  have st': "state_of ?tab' u = (if u = t then Settled else state_of ?tab u)" for u
    using t(1) by (simp add: settle_task_def state_set_state)
  have len: "length (kl_tasks ?tab') = length (kl_tasks ?tab)" "key_of ?tab' u = key_of ?tab u"
      "owner_of ?tab' u = owner_of ?tab u" "lt_frames (kl_tasks ?tab' ! u) = lt_frames (kl_tasks ?tab ! u)" for u
    by (simp_all add: settle_task_def)
  have dist: "distinct (sc_held ?q @ retained_tasks ?q)"
    using scope_invD(1) [OF inv(2)] by (simp add: not_acquiring [OF na])
  have so: "states_ok ?tab ?q" by (rule scope_invD(6) [OF inv(2)])
  have "states_ok ?tab' ?q"
    using ph
  proof
    assume u: "sc_phase ?q = Unwinding \<and> (\<exists>ts. sc_held ?q = t # ts)"
    then obtain ts where ts: "sc_held ?q = t # ts" by blast
    with dist have "t \<notin> set ts" "\<forall>x \<in> set (sc_retained ?q). snd x \<noteq> t" by (auto simp: image_iff)
    with u ts so show ?thesis
      by (auto simp: states_ok_def Let_def st' image_subset_iff split: if_splits)
  next
    assume "sc_phase ?q = Releasing \<and> t \<in> set (retained_tasks ?q)"
    with so show ?thesis by (auto simp: states_ok_def Let_def st' split: if_splits)
  qed
  then have "scope_inv ?tab' r ?q"
    by (intro scope_inv_states [OF inv(2) na na, where tab' = ?tab'])
      (use run ph in \<open>auto simp: fixed_part_def len st' acquiring_phase_def task_state_of_def\<close>)
  moreover have "lock_inv ?tab'" using settle_task_inv [OF inv(1) t(1)] run by (simp add: task_state_of_def)
  moreover have "table_ext r ?tab ?tab'" unfolding settle_task_def by (rule table_ext_set_state [OF t(2)])
  ultimately show ?thesis
    unfolding unwind_settle_def by (subst table_update_scope [OF r]) (intro world_inv_update [OF w r]; simp add: fixed_part_def)
qed

lemma cleanup_inv:
  assumes w: "world_inv w" and r: "r < length (lw_scopes w)" and run: "task_state_of w t = Settled"
    and ph: "sc_phase (lw_scopes w ! r) = Unwinding" "sc_held (lw_scopes w ! r) = t # ts"
  shows "world_inv (unwind_cleanup r t w)"
proof -
  let ?q = "lw_scopes w ! r" and ?tab = "lw_table w"
  let ?tab' = "cleanup_task t ?tab" and ?q' = "(lw_scopes w ! r)\<lparr>sc_held := tl (sc_held (lw_scopes w ! r))\<rparr>"
  note inv = world_invD [OF w r]
  have na: "sc_phase ?q \<noteq> Acquiring u" "sc_phase ?q' \<noteq> Acquiring u" for u using ph by auto
  have mem: "t \<in> set (scope_tasks ?q)" using ph by (auto simp: fixed_part_def not_acquiring [OF na(1)])
  note t = scope_invD(2,3) [OF inv(2) mem]
  note st' = state_cleanup(1) [OF t(1)]
  have dist: "distinct (sc_held ?q @ retained_tasks ?q)"
    using scope_invD(1) [OF inv(2)] by (simp add: not_acquiring [OF na(1)])
  then have "t \<notin> set ts" "\<forall>x \<in> set (sc_retained ?q). snd x \<noteq> t" using ph by (auto simp: image_iff)
  have tasks: "scope_tasks ((lw_scopes w ! r)\<lparr>sc_held := ts\<rparr>) = ts @ retained_tasks ?q"
    using ph by (simp add: scope_tasks_def own_tasks_def acquiring_def)
  have "states_ok ?tab' ?q'"
    using scope_invD(6) [OF inv(2)] ph \<open>t \<notin> set ts\<close> \<open>\<forall>x \<in> set (sc_retained ?q). snd x \<noteq> t\<close>
    by (cases ts) (auto simp: states_ok_def Let_def st' image_subset_iff split: if_splits)
  then have "scope_inv ?tab' r ?q'"
    by (intro scope_inv_states [OF inv(2) na, where tab' = ?tab'])
      (use run ph in \<open>auto simp: fixed_part_def st' acquiring_phase_def task_state_of_def not_acquiring [OF na(1)] not_acquiring [OF na(2)]
        state_cleanup(2-5) tasks\<close>)
  moreover have "lock_inv ?tab'" using cleanup_task_inv [OF inv(1) t(1)] run by (simp add: task_state_of_def)
  moreover have "table_ext r ?tab ?tab'" by (rule table_ext_cleanup [OF t(2)])
  ultimately show ?thesis
    unfolding unwind_cleanup_def by (intro world_inv_update [OF w r]; simp add: fixed_part_def)
qed

lemma release_cleanup_inv:
  assumes w: "world_inv w" and r: "r < length (lw_scopes w)" and run: "task_state_of w t = Settled"
    and ph: "sc_phase (lw_scopes w ! r) = Releasing" "t \<in> set (retained_tasks (lw_scopes w ! r))"
  shows "world_inv (release_cleanup t w)"
proof -
  let ?q = "lw_scopes w ! r" and ?tab = "lw_table w"
  let ?tab' = "cleanup_task t ?tab"
  note inv = world_invD [OF w r]
  have na: "sc_phase ?q \<noteq> Acquiring u" for u using ph by auto
  have mem: "t \<in> set (scope_tasks ?q)" using ph by (auto simp: fixed_part_def not_acquiring [OF na(1)])
  note t = scope_invD(2,3) [OF inv(2) mem]
  note st' = state_cleanup(1) [OF t(1)]
  have "states_ok ?tab' ?q"
    using scope_invD(6) [OF inv(2)] ph by (auto simp: states_ok_def Let_def st' split: if_splits)
  then have "scope_inv ?tab' r ?q"
    by (intro scope_inv_states [OF inv(2) na na, where tab' = ?tab'])
      (use run ph in \<open>auto simp: fixed_part_def st' acquiring_phase_def task_state_of_def state_cleanup(2-5)\<close>)
  moreover have "lock_inv ?tab'" using cleanup_task_inv [OF inv(1) t(1)] run by (simp add: task_state_of_def)
  moreover have "table_ext r ?tab ?tab'" by (rule table_ext_cleanup [OF t(2)])
  ultimately show ?thesis
    unfolding release_cleanup_def by (subst table_update_scope [OF r]) (intro world_inv_update [OF w r]; simp add: fixed_part_def)
qed

lemma start_retained_inv:
  assumes w: "world_inv w" and r: "r < length (lw_scopes w)"
    and ph: "sc_phase (lw_scopes w ! r) = Retaining t" and c: "can_start (lw_table w) t"
  shows "world_inv (start_retained r t w)"
proof -
  let ?q = "lw_scopes w ! r" and ?tab = "lw_table w"
  let ?tab' = "start_task t ?tab" and ?q' = "(lw_scopes w ! r)\<lparr>sc_phase := Body\<rparr>"
  note inv = world_invD [OF w r]
  have na: "sc_phase ?q \<noteq> Acquiring u" "sc_phase ?q' \<noteq> Acquiring u" for u using ph by auto
  have so: "states_ok ?tab ?q" by (rule scope_invD(6) [OF inv(2)])
  then obtain us where us: "retained_tasks ?q = us @ [t]"
    using ph by (auto simp: states_ok_def Let_def) (metis append_butlast_last_id map_is_Nil_conv)
  have mem: "t \<in> set (scope_tasks ?q)" by (simp add: not_acquiring [OF na(1)] us)
  note t = scope_invD(2,3) [OF inv(2) mem]
  have st': "state_of ?tab' u = (if u = t then Running else state_of ?tab u)" for u
    using t(1) by (simp add: start_task_def state_set_state)
  have len: "length (kl_tasks ?tab') = length (kl_tasks ?tab)" "key_of ?tab' u = key_of ?tab u"
      "owner_of ?tab' u = owner_of ?tab u" "lt_frames (kl_tasks ?tab' ! u) = lt_frames (kl_tasks ?tab ! u)" for u
    by (simp_all add: start_task_def)
  have "states_ok ?tab' ?q'"
    using so ph us by (auto simp: states_ok_def Let_def st' image_subset_iff)
  then have "scope_inv ?tab' r ?q'"
    by (intro scope_inv_states [OF inv(2) na, where tab' = ?tab'])
      (use c ph in \<open>auto simp: fixed_part_def len st' acquiring_phase_def not_acquiring [OF na(1)] not_acquiring [OF na(2)] can_start_def\<close>)
  moreover have "lock_inv ?tab'" by (rule start_task_inv [OF inv(1) t(1) c])
  moreover have "table_ext r ?tab ?tab'" unfolding start_task_def by (rule table_ext_set_state [OF t(2)])
  ultimately show ?thesis
    unfolding start_retained_def by (intro world_inv_update [OF w r]; simp add: fixed_part_def)
qed


lemma body_keys:
  assumes inv: "scope_inv tab r q" and ph: "sc_phase q = Body \<or> (\<exists>t. sc_phase q = Retaining t)"
  shows "map (key_of tab) (rev (sc_held q)) = taken_keys q" "active_locks tab q = sc_frames q @ taken_keys q"
proof -
  have na: "sc_phase q \<noteq> Acquiring u" for u using ph by auto
  have rest: "sc_rest q = []" using scope_invD(6) [OF inv] ph by (auto simp: states_ok_def Let_def)
  have k: "keys_ok tab q" using scope_invD(7) [OF inv] ph by (auto simp: acquiring_phase_def)
  then show e: "map (key_of tab) (rev (sc_held q)) = taken_keys q"
    by (simp add: keys_ok_def not_acquiring [OF na] rest)
  from k e show "active_locks tab q = sc_frames q @ taken_keys q"
    by (cases "sc_held q") (simp_all add: active_locks_def keys_ok_def not_acquiring [OF na])
qed

lemma retain_inv:
  assumes w: "world_inv w" and r: "r < length (lw_scopes w)" and ph: "sc_phase (lw_scopes w ! r) = Body"
    and res: "retainDevice deviceId r w = Inr w'"
  shows "world_inv w'"
proof -
  define q where "q = lw_scopes w ! r"
  define tab where "tab = lw_table w"
  define k where "k = deviceExecutionLockKey deviceId"
  have inv: "lock_inv tab" "scope_inv tab r q" using world_invD [OF w r] by (simp_all add: q_def tab_def)
  have ph': "sc_phase q = Body" using ph by (simp add: q_def)
  note keys = body_keys [OF inv(2) disjI1, OF ph']
  show ?thesis
  proof (cases "k \<in> set (sc_initial q) \<or> map_of (sc_retained q) k \<noteq> None \<or> k \<in> set (sc_frames q)")
    case True
    with res ph w keys(2) show ?thesis
      by (auto simp: retainDevice_def Let_def q_def k_def tab_def withKeyedLock_def split: if_splits option.splits)
  next
    case False
    define fs where "fs = sc_frames q @ taken_keys q"
    have kfs: "k \<notin> set fs" using False by (simp add: fs_def taken_keys_def)
    define n where "n = length (kl_tasks tab)"
    define tab' where "tab' = snd (withKeyedLock tab fs k r)"
    define q' where "q' = q\<lparr>sc_retained := sc_retained q @ [(k, n)], sc_phase := Retaining n\<rparr>"
    have "withKeyedLock tab fs k r = (Some n, tab')"
      using kfs by (simp add: withKeyedLock_def Let_def n_def tab'_def)
    then have w': "w' = set_scope r q' (w\<lparr>lw_table := tab'\<rparr>)"
      using res False ph' by (auto simp: retainDevice_def Let_def q_def [symmetric] tab_def [symmetric] k_def [symmetric] keys(2) fs_def [symmetric] q'_def)
    have tasks': "kl_tasks tab' = kl_tasks tab @ [\<lparr>lt_key = k, lt_frames = fs @ [k],
        lt_previous = kl_locks tab k, lt_state = Waiting, lt_owner = r\<rparr>]"
      using kfs by (simp add: tab'_def withKeyedLock_def Let_def)
    have old: "kl_tasks tab' ! t = kl_tasks tab ! t" if "t < n" for t
      using that by (simp add: tasks' n_def nth_append)
    have new: "kl_tasks tab' ! n = \<lparr>lt_key = k, lt_frames = fs @ [k],
        lt_previous = kl_locks tab k, lt_state = Waiting, lt_owner = r\<rparr>" by (simp add: tasks' n_def)
    have na: "sc_phase q \<noteq> Acquiring u" "sc_phase q' \<noteq> Acquiring u" for u by (simp_all add: ph' q'_def)
    note nq = not_acquiring [OF na(1)] and nq' = not_acquiring [OF na(2)]
    have scope': "scope_tasks q' = scope_tasks q @ [n]" "own_tasks q' = sc_held q" "sc_held q' = sc_held q"
        "fixed_part q' = fixed_part q" "sc_rest q' = sc_rest q" "retained_tasks q' = retained_tasks q @ [n]"
      by (simp_all add: nq nq') (simp_all add: q'_def fixed_part_def)
    have fixed: "sc_initial q' = sc_initial q" "sc_frames q' = sc_frames q" "taken_keys q' = taken_keys q"
      using scope'(4) by (simp_all add: fixed_part_def taken_keys_def)
    have lt: "t < n" if "t \<in> set (scope_tasks q)" for t using scope_invD(2) [OF inv(2) that] by (simp add: n_def)
    have hs: "map (state_of tab') (sc_held q) = map (state_of tab) (sc_held q)"
        "map (state_of tab') (retained_tasks q) = map (state_of tab) (retained_tasks q)"
        "map (key_of tab') (sc_held q) = map (key_of tab) (sc_held q)"
      using lt old by (auto simp: nq)
    have "states_ok tab q" by (rule scope_invD(6) [OF inv(2)])
    then have "states_ok tab' q'"
      unfolding states_ok_def Let_def scope' map_append hs using ph'
      by (simp add: q'_def new butlast_append)
    moreover have "keys_ok tab' q'"
    proof -
      have "sc_rest q = []" using \<open>states_ok tab q\<close> ph' by (simp add: states_ok_def Let_def)
      moreover have "lt_frames (kl_tasks tab' ! hd (sc_held q)) = fs" if "sc_held q \<noteq> []"
        using keys(2) that lt [of "hd (sc_held q)"] old [of "hd (sc_held q)"]
        by (cases "sc_held q") (simp_all add: active_locks_def nq fs_def)
      moreover have "map (key_of tab') (rev (sc_held q)) = taken_keys q"
        using keys(1) hs(3) by (metis rev_map)
      ultimately show ?thesis by (simp only: keys_ok_def scope' fixed fs_def) simp
    qed
    moreover have "t \<in> set (scope_tasks q @ [n])"
      if "t < length (kl_tasks tab')" "owner_of tab' t = r" "state_of tab' t \<noteq> Cleaned" for t
    proof (cases "t = n")
      case False
      with that(1) have "t < n" by (simp add: tasks' n_def)
      with that scope_invD(4) [OF inv(2), of t] show ?thesis by (simp add: old n_def)
    qed simp
    moreover have "\<forall>t \<in> set (scope_tasks q @ [n]). t < length (kl_tasks tab') \<and> owner_of tab' t = r"
      using scope_invD(2,3) [OF inv(2)] by (auto simp: tasks' n_def nth_append less_Suc_eq)
    moreover have "distinct (scope_tasks q @ [n])" using scope_invD(1) [OF inv(2)] lt by auto
    moreover have "\<forall>(k', t) \<in> set (sc_retained q'). key_of tab' t = k'"
    proof (intro ballI, clarify)
      fix k' t
      assume "(k', t) \<in> set (sc_retained q')"
      then consider "k' = k" "t = n" | "(k', t) \<in> set (sc_retained q)" by (auto simp: q'_def)
      then show "key_of tab' t = k'"
      proof cases
        case 2
        then have "t \<in> set (scope_tasks q)" by (force simp: nq)
        with 2 scope_invD(5) [OF inv(2)] lt old show ?thesis by simp
      qed (simp add: new)
    qed
    ultimately have "scope_inv tab' r q'"
      using scope_invD(8) [OF inv(2)] unfolding scope_inv_def scope' fixed by blast
    moreover have "lock_inv tab'" unfolding tab'_def by (rule withKeyedLock_inv [OF inv(1)])
    moreover have "table_ext r tab tab'" unfolding tab'_def by (rule table_ext_withKeyedLock)
    ultimately show ?thesis unfolding w' by (intro world_inv_update [OF w r]) (simp_all add: tab_def scope'(4) q_def [symmetric])
  qed
qed

lemma create_inv:
  assumes w: "world_inv w" and k: "ranked_keys ks"
    and c: "case caller of None \<Rightarrow> True | Some p \<Rightarrow> p < length (lw_scopes w) \<and> sc_phase (lw_scopes w ! p) = Body"
  shows "world_inv (snd (createRequestExecutionLocks caller ks w))"
proof -
  define frames where "frames = (case caller of None \<Rightarrow> [] | Some p \<Rightarrow> active_locks (lw_table w) (lw_scopes w ! p))"
  define q where "q = \<lparr>sc_parent = caller, sc_frames = frames, sc_initial = ks, sc_rest = [], sc_held = [], sc_retained = [], sc_phase = Idle\<rparr>"
  have new: "scope_inv (lw_table w) (length (lw_scopes w)) q"
    using w k by (auto simp: q_def scope_inv_def scope_tasks_def own_tasks_def acquiring_def states_ok_def acquiring_phase_def
        world_inv_def)
  have frames: "frames = (case caller of None \<Rightarrow> [] | Some p \<Rightarrow> sc_frames (lw_scopes w ! p) @ taken_keys (lw_scopes w ! p))"
  proof (cases caller)
    case (Some p)
    with c w have "scope_inv (lw_table w) p (lw_scopes w ! p)" "sc_phase (lw_scopes w ! p) = Body" by (simp_all add: world_inv_def)
    with body_keys(2) Some show ?thesis by (simp add: frames_def)
  qed (simp add: frames_def)
  have "caller_ok (lw_scopes w @ [q]) i" if "i < Suc (length (lw_scopes w))" for i
  proof (cases "i = length (lw_scopes w)")
    case True
    then show ?thesis using c frames by (auto simp: caller_ok_def q_def nth_append split: option.splits)
  next
    case False
    with that have "caller_ok (lw_scopes w @ [q]) i = caller_ok (lw_scopes w) i"
      by (intro caller_ok_cong) (simp add: nth_append)
    with w that False show ?thesis by (simp add: world_inv_def)
  qed
  with w new show ?thesis
    by (auto simp: createRequestExecutionLocks_def world_inv_def nth_append less_Suc_eq Let_def frames_def [symmetric] q_def [symmetric])
qed

lemma ranked_resolved: "ranked_keys (resolveRequestExecutionLockKeys collate sessionName existing resolved)"
  by (simp add: resolved_keys ranked_keys_def key_nonempty [THEN not_sym] split: option.split)

lemma lock_step_inv: "lock_step w w' \<Longrightarrow> world_inv w \<Longrightarrow> world_inv w'"
proof (induction rule: lock_step.induct)
  case (released r w k t)
  then show ?case by (intro release_cleanup_inv [of w r]) force+
next
  case (release r w k t)
  then show ?case by (intro settle_inv [of w r]) force+
qed (auto intro: start_own_inv start_retained_inv set_phase_inv settle_inv cleanup_inv end_run_inv)

lemma lock_reachable_inv: "lock_reachable collate w \<Longrightarrow> world_inv w"
proof (induction rule: lock_reachable.induct)
  case start
  show ?case by (simp add: world_inv_def initial_world_def lock_inv_empty) (simp add: empty_table_def)
next
  case (create w ks sessionName existing resolved)
  then have "ranked_keys ks" using ranked_resolved by (auto simp: ranked_keys_def)
  with create.IH show ?case by (rule create_inv) simp
next
  case (nest w p ks sessionName existing resolved)
  then have "ranked_keys ks" using ranked_resolved by (auto simp: ranked_keys_def)
  with nest.IH show ?case by (rule create_inv) (simp add: nest.hyps)
qed (auto intro: run_scope_inv retain_inv lock_step_inv set_phase_inv)


section \<open>Exclusion\<close>

definition executing :: "lock_scope \<Rightarrow> bool" where
  "executing q \<longleftrightarrow> sc_phase q = Body \<or> (\<exists>t. sc_phase q = Retaining t)"

text \<open>The keys whose lock the scope has: those of its running tasks.\<close>

definition locked_keys :: "lock_world \<Rightarrow> nat \<Rightarrow> string set" where
  "locked_keys w r = {key_of (lw_table w) t |t. t \<in> set (scope_tasks (lw_scopes w ! r)) \<and> task_state_of w t = Running}"

lemma executing_has_keys:
  assumes inv: "world_inv w" and r: "r < length (lw_scopes w)" and x: "executing (lw_scopes w ! r)"
  shows "set (taken_keys (lw_scopes w ! r)) \<subseteq> locked_keys w r"
proof -
  let ?q = "lw_scopes w ! r"
  note i = world_invD [OF inv r]
  have na: "sc_phase ?q \<noteq> Acquiring u" for u using x by (auto simp: executing_def)
  have run: "state_of (lw_table w) h = Running" if "h \<in> set (sc_held ?q)" for h
    using scope_invD(6) [OF i(2)] x that by (auto simp: executing_def states_ok_def Let_def image_subset_iff)
  have "set (taken_keys ?q) = key_of (lw_table w) ` set (sc_held ?q)"
    using body_keys(1) [OF i(2)] x by (metis executing_def list.set_map set_rev)
  with run show ?thesis
    by (auto simp: locked_keys_def task_state_of_def not_acquiring [OF na])
qed

lemma locked_keys_disjoint:
  assumes inv: "world_inv w" and r: "r < length (lw_scopes w)" "r' < length (lw_scopes w)" "r \<noteq> r'"
  shows "locked_keys w r \<inter> locked_keys w r' = {}"
proof (rule ccontr)
  assume "\<not> ?thesis"
  then obtain t u where tu: "t \<in> set (scope_tasks (lw_scopes w ! r))" "u \<in> set (scope_tasks (lw_scopes w ! r'))"
      "task_state_of w t = Running" "task_state_of w u = Running" "key_of (lw_table w) t = key_of (lw_table w) u"
    by (auto simp: locked_keys_def)
  note i = world_invD [OF inv r(1)] and i' = world_invD [OF inv r(2)]
  have "t = u"
    by (rule lock_exclusive [OF i(1)]) (use tu scope_invD(2) [OF i(2)] scope_invD(2) [OF i'(2)] in \<open>auto simp: task_state_of_def\<close>)
  with tu scope_invD(3) [OF i(2)] scope_invD(3) [OF i'(2)] r(3) show False by metis
qed

text \<open>A request and those whose bodies it is nested in, from the inside out.\<close>

function request_chain :: "lock_world \<Rightarrow> nat \<Rightarrow> nat list" where
  "request_chain w r =
     r # (case sc_parent (lw_scopes w ! r) of None \<Rightarrow> [] | Some p \<Rightarrow> if p < r then request_chain w p else [])"
  by pat_completeness auto
termination
  by (relation "measure snd") auto

declare request_chain.simps [simp del]

lemma chain_self: "r \<in> set (request_chain w r)"
  by (subst request_chain.simps) simp

lemma chain_parent: "sc_parent (lw_scopes w ! r) = Some p \<Longrightarrow> p < r \<Longrightarrow> request_chain w r = r # request_chain w p"
  by (subst request_chain.simps) simp

lemma chain_cases:
  obtains (outside) "request_chain w r = [r]"
  | (nested) p where "sc_parent (lw_scopes w ! r) = Some p" "p < r" "request_chain w r = r # request_chain w p"
  using request_chain.simps [of w r] by (fastforce split: option.splits if_splits)

lemma chain_le: "a \<in> set (request_chain w r) \<Longrightarrow> a \<le> r"
proof (induction r rule: less_induct)
  case (less r)
  show ?case
  proof (cases w r rule: chain_cases)
    case outside
    with less.prems show ?thesis by simp
  next
    case (nested p)
    with less.IH [OF nested(2)] less.prems show ?thesis by auto
  qed
qed

lemma callers_less: "a \<in> set (tl (request_chain w r)) \<Longrightarrow> a < r"
  by (cases w r rule: chain_cases) (auto dest: chain_le)

lemma chain_caller: "c \<in> set (request_chain w d) \<Longrightarrow> sc_parent (lw_scopes w ! c) = Some r \<Longrightarrow> r < c \<Longrightarrow> r \<in> set (request_chain w d)"
proof (induction d rule: less_induct)
  case (less d)
  show ?case
  proof (cases "c = d")
    case True
    with less.prems chain_parent chain_self show ?thesis by simp
  next
    case False
    with less show ?thesis by (cases w d rule: chain_cases) auto
  qed
qed

lemma chain_of_caller: "a \<in> set (tl (request_chain w r)) \<Longrightarrow> \<exists>c \<in> set (request_chain w r). sc_parent (lw_scopes w ! c) = Some a"
proof (induction r rule: less_induct)
  case (less r)
  show ?case
  proof (cases w r rule: chain_cases)
    case outside
    with less.prems show ?thesis by simp
  next
    case (nested p)
    with less.prems have "a \<in> set (request_chain w p)" by simp
    then have "a = p \<or> a \<in> set (tl (request_chain w p))" by (cases w p rule: chain_cases) auto
    with less.IH [OF nested(2)] nested show ?thesis by auto
  qed
qed

text \<open>A request whose body runs, inside bodies that run.\<close>

definition attended :: "lock_world \<Rightarrow> nat \<Rightarrow> bool" where
  "attended w r \<longleftrightarrow> (\<forall>a \<in> set (request_chain w r). executing (lw_scopes w ! a))"

lemma named_keys_locked:
  assumes inv: "world_inv w"
  shows "r < length (lw_scopes w) \<Longrightarrow> attended w r \<Longrightarrow>
    k \<in> set (sc_frames (lw_scopes w ! r)) \<union> set (sc_initial (lw_scopes w ! r)) \<Longrightarrow>
    \<exists>a \<in> set (request_chain w r). k \<in> locked_keys w a"
proof (induction r rule: less_induct)
  case (less r)
  have x: "executing (lw_scopes w ! r)" using less.prems(2) chain_self by (simp add: attended_def)
  show ?case
  proof (cases "k \<in> set (sc_frames (lw_scopes w ! r))")
    case False
    with less.prems(3) have "k \<in> set (taken_keys (lw_scopes w ! r))" by (simp add: taken_keys_def)
    with executing_has_keys [OF inv less.prems(1) x] chain_self [of r w] show ?thesis by blast
  next
    case True
    with inv less.prems(1) obtain p where p: "sc_parent (lw_scopes w ! r) = Some p" "p < r"
      "sc_frames (lw_scopes w ! r) = sc_frames (lw_scopes w ! p) @ taken_keys (lw_scopes w ! p)"
      by (auto simp: world_inv_def caller_ok_def split: option.splits)
    note chain = chain_parent [OF p(1,2)]
    have "attended w p" using less.prems(2) by (simp add: attended_def chain)
    moreover have "k \<in> set (sc_frames (lw_scopes w ! p)) \<union> set (sc_initial (lw_scopes w ! p))"
      using True p(3) by (auto simp: taken_keys_def)
    ultimately show ?thesis using less.IH [OF p(2)] p(2) less.prems(1) by (auto simp: chain)
  qed
qed

section \<open>Progress\<close>

definition all_idle :: "lock_world \<Rightarrow> bool" where
  "all_idle w \<longleftrightarrow> (\<forall>q \<in> set (lw_scopes w). sc_phase q = Idle)"

definition waits_for :: "lock_scope \<Rightarrow> nat \<Rightarrow> bool" where
  "waits_for q t \<longleftrightarrow> sc_phase q = Acquiring t \<or> sc_phase q = Retaining t"

text \<open>No nested request was left behind, and a request that waits for a lock has, together with the requests it is nested in,
  only locks of a lower category.\<close>

definition orderly :: "lock_world \<Rightarrow> bool" where
  "orderly w \<longleftrightarrow>
     (\<forall>r < length (lw_scopes w). sc_phase (lw_scopes w ! r) \<noteq> Idle \<longrightarrow>
        (\<forall>a \<in> set (tl (request_chain w r)). executing (lw_scopes w ! a))) \<and>
     (\<forall>r < length (lw_scopes w). \<forall>t. waits_for (lw_scopes w ! r) t \<longrightarrow>
        (\<forall>a \<in> set (request_chain w r). \<forall>h \<in> set (scope_tasks (lw_scopes w ! a)). h \<noteq> t \<longrightarrow>
           lockKeyCategoryOrder (key_of (lw_table w) h) < lockKeyCategoryOrder (key_of (lw_table w) t)))"

lemma orderlyD:
  assumes "orderly w" "r < length (lw_scopes w)"
  shows "sc_phase (lw_scopes w ! r) \<noteq> Idle \<Longrightarrow> a \<in> set (tl (request_chain w r)) \<Longrightarrow> executing (lw_scopes w ! a)"
    and "waits_for (lw_scopes w ! r) t \<Longrightarrow> a \<in> set (request_chain w r) \<Longrightarrow> h \<in> set (scope_tasks (lw_scopes w ! a)) \<Longrightarrow> h \<noteq> t \<Longrightarrow>
      lockKeyCategoryOrder (key_of (lw_table w) h) < lockKeyCategoryOrder (key_of (lw_table w) t)"
  using assms by (auto simp: orderly_def)

definition task_budget :: "task_state \<Rightarrow> nat" where
  "task_budget s = (case s of Waiting \<Rightarrow> 3 | Running \<Rightarrow> 2 | Settled \<Rightarrow> 1 | Cleaned \<Rightarrow> 0)"

definition phase_budget :: "scope_phase \<Rightarrow> nat" where
  "phase_budget p = (case p of Acquiring _ \<Rightarrow> 4 | Body \<Rightarrow> 3 | Retaining _ \<Rightarrow> 3 | Unwinding \<Rightarrow> 2 | Releasing \<Rightarrow> 1 | Idle \<Rightarrow> 0)"

definition scope_budget :: "lock_scope \<Rightarrow> nat" where
  "scope_budget q = phase_budget (sc_phase q) + 3 * length (sc_rest q)"

definition lock_budget :: "lock_world \<Rightarrow> nat" where
  "lock_budget w =
     sum_list (map (\<lambda>t. task_budget (lt_state t)) (kl_tasks (lw_table w))) + sum_list (map scope_budget (lw_scopes w))"

lemma retaining_member:
  assumes "scope_inv tab r q" "sc_phase q = Retaining t"
  shows "t \<in> set (scope_tasks q)"
proof -
  have "retained_tasks q \<noteq> []" "last (retained_tasks q) = t"
    using scope_invD(6) [OF assms(1)] assms(2) by (simp_all add: states_ok_def Let_def)
  then have "t \<in> set (retained_tasks q)" using last_in_set by blast
  then show ?thesis by (simp add: scope_tasks_def)
qed

lemma waiting_task_phase:
  assumes inv: "scope_inv tab r q" and t: "t \<in> set (scope_tasks q)" "state_of tab t = Waiting"
  shows "sc_phase q = Acquiring t \<or> sc_phase q = Retaining t"
proof -
  have so: "states_ok tab q" by (rule scope_invD(6) [OF inv])
  show ?thesis
  proof (cases "sc_phase q")
    case (Acquiring u)
    with so t show ?thesis by (auto simp: states_ok_def Let_def scope_tasks_def own_tasks_def acquiring_def)
  next
    case (Retaining u)
    then have na: "sc_phase q \<noteq> Acquiring v" for v by simp
    define us where "us = butlast (retained_tasks q)"
    from so Retaining have rs: "retained_tasks q \<noteq> []" "last (retained_tasks q) = u"
        "set (butlast (map (state_of tab) (retained_tasks q))) \<subseteq> {Running}"
        "set (map (state_of tab) (sc_held q)) \<subseteq> {Running}"
      by (simp_all add: states_ok_def Let_def)
    have eq: "retained_tasks q = us @ [u]"
      using append_butlast_last_id [OF rs(1)] rs(2) by (simp add: us_def)
    have run: "state_of tab h = Running" if "h \<in> set us \<union> set (sc_held q)" for h
    proof -
      have "set (map (state_of tab) us) \<subseteq> {Running}" using rs(3) by (simp only: us_def map_butlast)
      with rs(4) that show ?thesis by auto
    qed
    from t(1) have "t \<in> set us \<union> set (sc_held q) \<or> t = u" by (auto simp only: not_acquiring [OF na] eq set_append list.set)
    with run [of t] t(2) Retaining show ?thesis by auto
  next
    case Unwinding
    then have na: "sc_phase q \<noteq> Acquiring v" for v by simp
    with so Unwinding t show ?thesis
      by (cases "sc_held q") (auto simp: states_ok_def Let_def not_acquiring [OF na])
  next
    case Releasing
    with so t show ?thesis
      by (simp add: states_ok_def Let_def scope_tasks_def own_tasks_def acquiring_def) force
  qed (use so t in \<open>auto simp: states_ok_def Let_def scope_tasks_def own_tasks_def acquiring_def\<close>)
qed


lemma unblocked_progress:
  assumes inv: "world_inv w" and r: "r < length (lw_scopes w)"
    and ph: "sc_phase (lw_scopes w ! r) \<in> {Body, Unwinding, Releasing}" and aw: "sc_phase (lw_scopes w ! r) = Body \<Longrightarrow> awaited w r"
  shows "\<exists>w'. lock_step w w'"
proof -
  let ?q = "lw_scopes w ! r" and ?tab = "lw_table w"
  have so: "states_ok ?tab ?q" by (rule scope_invD(6) [OF world_invD(2) [OF inv r]])
  from ph consider "sc_phase ?q = Body" | "sc_phase ?q = Unwinding" | "sc_phase ?q = Releasing" by blast
  then show ?thesis
  proof cases
    case 1
    with body_ends r aw show ?thesis by blast
  next
    case 2
    show ?thesis
    proof (cases "sc_held ?q")
      case Nil
      with unwound [OF r 2] show ?thesis by blast
    next
      case (Cons t ts)
      with so 2 have "task_state_of w t = Running \<or> task_state_of w t = Settled"
        by (simp add: states_ok_def Let_def task_state_of_def)
      with settle [OF r 2 Cons] cleanup [OF r 2 Cons] show ?thesis by blast
    qed
  next
    case 3
    show ?thesis
    proof (cases "\<forall>(k, t) \<in> set (sc_retained ?q). task_state_of w t = Cleaned")
      case True
      with ends [OF r 3] show ?thesis by blast
    next
      case False
      then obtain k t where kt: "(k, t) \<in> set (sc_retained ?q)" "task_state_of w t \<noteq> Cleaned" by blast
      have "state_of ?tab t \<noteq> Waiting"
        using so 3 kt(1) by (simp add: states_ok_def Let_def) force
      with kt(2) have "task_state_of w t = Running \<or> task_state_of w t = Settled"
        by (cases "task_state_of w t") (simp_all add: task_state_of_def)
      with release [OF r 3 kt(1)] released [OF r 3 kt(1)] show ?thesis by blast
    qed
  qed
qed

lemma acquiring_rank:
  assumes inv: "scope_inv tab r q" and ph: "sc_phase q = Acquiring t" and h: "h \<in> set (sc_held q)"
  shows "lockKeyCategoryOrder (key_of tab h) < lockKeyCategoryOrder (key_of tab t)"
proof -
  have "keys_ok tab q" using scope_invD(7) [OF inv] ph by (simp add: acquiring_phase_def)
  then have "map (key_of tab) (rev (sc_held q)) @ [key_of tab t] @ filter (\<lambda>k. k \<notin> set (sc_frames q)) (sc_rest q) = taken_keys q"
    by (simp add: keys_ok_def own_tasks_def acquiring_def ph)
  with ranked_taken [OF scope_invD(8) [OF inv]]
  have "ranked_keys (map (key_of tab) (rev (sc_held q)) @ [key_of tab t] @ filter (\<lambda>k. k \<notin> set (sc_frames q)) (sc_rest q))" by simp
  with h show ?thesis by (auto simp: ranked_keys_def sorted_wrt_append)
qed

text \<open>Inside every request under way there is one that waits for no other request.\<close>

lemma innermost:
  assumes inv: "world_inv w"
  shows "r < length (lw_scopes w) \<Longrightarrow> sc_phase (lw_scopes w ! r) \<noteq> Idle \<Longrightarrow>
    \<exists>d < length (lw_scopes w). sc_phase (lw_scopes w ! d) \<noteq> Idle \<and> r \<in> set (request_chain w d) \<and> awaited w d"
proof (induction "length (lw_scopes w) - r" arbitrary: r rule: less_induct)
  case less
  show ?case
  proof (cases "awaited w r")
    case True
    with less.prems chain_self show ?thesis by blast
  next
    case False
    then obtain c where c: "c < length (lw_scopes w)" "sc_parent (lw_scopes w ! c) = Some r" "sc_phase (lw_scopes w ! c) \<noteq> Idle"
      by (auto simp: awaited_def in_set_conv_nth)
    with inv have rc: "r < c" by (auto simp: world_inv_def caller_ok_def split: option.splits)
    then have "length (lw_scopes w) - c < length (lw_scopes w) - r" using c(1) by simp
    from less.hyps [OF this c(1,3)] obtain d where "d < length (lw_scopes w)" "sc_phase (lw_scopes w ! d) \<noteq> Idle" "c \<in> set (request_chain w d)"
      "awaited w d" by blast
    with chain_caller [OF _ c(2) rc] show ?thesis by blast
  qed
qed

lemma waiting_state: "scope_inv tab r q \<Longrightarrow> waits_for q t \<Longrightarrow> t \<in> set (scope_tasks q) \<and> state_of tab t = Waiting"
  using scope_invD(6) [of tab r q] retaining_member [of tab r q t]
  by (auto simp: waits_for_def states_ok_def Let_def acquiring_def last_map scope_tasks_def own_tasks_def)

text \<open>Follow the request that has the key a blocked one waits for to the innermost one in its body: it can go on, or it waits for a key
  of a higher category.\<close>

lemma waiting_progress:
  assumes inv: "world_inv w" and ord: "orderly w"
  shows "r < length (lw_scopes w) \<Longrightarrow> waits_for (lw_scopes w ! r) t \<Longrightarrow> \<exists>w'. lock_step w w'"
proof (induction "1 - lockKeyCategoryOrder (key_of (lw_table w) t)" arbitrary: r t rule: less_induct)
  case less
  let ?q = "lw_scopes w ! r" and ?tab = "lw_table w"
  note i = world_invD [OF inv less.prems(1)]
  have t: "t \<in> set (scope_tasks ?q)" "\<not> task_settled ?tab t"
    using waiting_state [OF i(2) less.prems(2)] by (auto simp: task_settled_def)
  obtain u where u: "u \<le> t" "key_of ?tab u = key_of ?tab t" "state_of ?tab u = Running \<or> can_start ?tab u"
    using lock_front [OF i(1) scope_invD(2) [OF i(2) t(1)] t(2)] by blast
  have un: "u < length (kl_tasks ?tab)" using u(1) scope_invD(2) [OF i(2) t(1)] by simp
  define r' where "r' = owner_of ?tab u"
  have r': "r' < length (lw_scopes w)" using inv un by (simp add: world_inv_def r'_def)
  note i' = world_invD [OF inv r']
  have "state_of ?tab u \<noteq> Cleaned" using u(3) by (auto simp: can_start_def)
  then have mem: "u \<in> set (scope_tasks (lw_scopes w ! r'))"
    using scope_invD(4) [OF i'(2) un] by (simp add: r'_def)
  show ?case
  proof (cases "state_of ?tab u = Running")
    case False
    with u(3) have c: "can_start ?tab u" by simp
    then have "state_of ?tab u = Waiting" by (simp add: can_start_def)
    with waiting_task_phase [OF i'(2) mem] own_lock [OF r' _ c] retained_lock [OF r' _ c] show ?thesis by blast
  next
    case run: True
    have "sc_phase (lw_scopes w ! r') \<noteq> Idle"
      using scope_invD(6) [OF i'(2)] mem by (auto simp: states_ok_def Let_def scope_tasks_def own_tasks_def acquiring_def)
    from innermost [OF inv r' this] obtain d where d: "d < length (lw_scopes w)" "sc_phase (lw_scopes w ! d) \<noteq> Idle"
      "r' \<in> set (request_chain w d)" "awaited w d" by blast
    show ?thesis
    proof (cases "\<exists>t'. waits_for (lw_scopes w ! d) t'")
      case False
      with d(2) have "sc_phase (lw_scopes w ! d) \<in> {Body, Unwinding, Releasing}"
        by (cases "sc_phase (lw_scopes w ! d)") (auto simp: waits_for_def)
      from unblocked_progress [OF inv d(1) this] d(4) show ?thesis by blast
    next
      case True
      then obtain t' where t': "waits_for (lw_scopes w ! d) t'" by blast
      with waiting_state [OF world_invD(2) [OF inv d(1)]] run have "u \<noteq> t'" by auto
      from orderlyD(2) [OF ord d(1) t' d(3) mem this]
      have "1 - lockKeyCategoryOrder (key_of ?tab t') < 1 - lockKeyCategoryOrder (key_of ?tab t)"
        using category_le [of "key_of ?tab t'"] u(2) by simp
      from less.hyps [OF this d(1) t'] show ?thesis .
    qed
  qed
qed

lemma lock_progress:
  assumes inv: "world_inv w" and ord: "orderly w" and busy: "\<not> all_idle w"
  shows "\<exists>w'. lock_step w w'"
proof -
  obtain r where r: "r < length (lw_scopes w)" "sc_phase (lw_scopes w ! r) \<noteq> Idle"
    using busy by (auto simp: all_idle_def in_set_conv_nth)
  from innermost [OF inv r] obtain d where d: "d < length (lw_scopes w)" "sc_phase (lw_scopes w ! d) \<noteq> Idle" "awaited w d" by blast
  then show ?thesis
    using waiting_progress [OF inv ord d(1)] unblocked_progress [OF inv d(1)]
    by (cases "sc_phase (lw_scopes w ! d)") (auto simp: waits_for_def)
qed


section \<open>The budget\<close>

abbreviation tasks_budget :: "string lock_table \<Rightarrow> nat" where
  "tasks_budget tab \<equiv> sum_list (map (\<lambda>t. task_budget (lt_state t)) (kl_tasks tab))"

lemma sum_list_replace:
  fixes f :: "'a \<Rightarrow> nat"
  shows "i < length xs \<Longrightarrow> sum_list (map f (xs[i := x])) + f (xs ! i) = sum_list (map f xs) + f x"
proof (induction xs arbitrary: i)
  case (Cons y ys)
  then show ?case by (cases i) (simp_all add: Cons.IH)
qed simp

lemma tasks_budget_set_state:
  "t < length (kl_tasks tab) \<Longrightarrow>
     tasks_budget (set_task_state t x tab) + task_budget (state_of tab t) = tasks_budget tab + task_budget x"
  using sum_list_replace [of t "kl_tasks tab" "\<lambda>t. task_budget (lt_state t)" "(kl_tasks tab ! t)\<lparr>lt_state := x\<rparr>"]
  by (simp add: set_task_state_def)

lemma tasks_budget_cleanup:
  "t < length (kl_tasks tab) \<Longrightarrow>
     tasks_budget (cleanup_task t tab) + task_budget (state_of tab t) = tasks_budget tab + task_budget Cleaned"
  using tasks_budget_set_state [of t tab Cleaned] by (simp add: cleanup_task_def Let_def)

lemma locks_budget:
  "withRequestExecutionLocks r frames ks tab = (tab', rest, phase) \<Longrightarrow>
     tasks_budget tab' + phase_budget phase + 3 * length rest \<le> tasks_budget tab + 4 + 3 * length ks"
proof (induction r frames ks tab rule: withRequestExecutionLocks.induct)
  case (1 r frames tab)
  then show ?case by (auto simp: phase_budget_def)
next
  case (2 r frames k ks tab)
  show ?case
  proof (cases "k = [] \<or> k \<in> set frames")
    case True
    with 2 show ?thesis
      by (cases "k = []") (force simp: phase_budget_def withKeyedLock_def)+
  next
    case False
    with "2.prems" show ?thesis
      by (auto simp: phase_budget_def task_budget_def withKeyedLock_def Let_def)
  qed
qed

lemma locks_ext:
  "withRequestExecutionLocks r frames ks tab = (tab', rest, phase) \<Longrightarrow>
     table_ext r tab tab' \<and> (phase = Body \<or> (\<exists>t. phase = Acquiring t))"
proof (induction r frames ks tab rule: withRequestExecutionLocks.induct)
  case (1 r frames tab)
  then show ?case by (auto simp: table_ext_refl)
next
  case (2 r frames k ks tab)
  show ?case
  proof (cases "k = [] \<or> k \<in> set frames")
    case True
    with 2 show ?thesis
      by (cases "k = []") (force simp: withKeyedLock_def table_ext_refl)+
  next
    case False
    with "2.prems" table_ext_withKeyedLock [of r tab frames k] show ?thesis
      by (auto simp: withKeyedLock_def Let_def)
  qed
qed

text \<open>The shape of an internal step: one scope and its tasks change, a scope whose body runs neither ends while it has
  invoked requests nor takes further locks, a scope begins to wait only for its next own lock, and the budget falls.\<close>

definition calm_change :: "lock_world \<Rightarrow> nat \<Rightarrow> lock_scope \<Rightarrow> bool" where
  "calm_change w r q \<longleftrightarrow>
     fixed_part q = fixed_part (lw_scopes w ! r) \<and> sc_phase (lw_scopes w ! r) \<noteq> Idle \<and>
     (executing (lw_scopes w ! r) \<longrightarrow>
        (executing q \<or> awaited w r) \<and> set (scope_tasks q) \<subseteq> set (scope_tasks (lw_scopes w ! r)) \<and> (\<forall>t. \<not> waits_for q t)) \<and>
     (\<forall>t'. waits_for q t' \<longrightarrow> sc_phase q = Acquiring t' \<and> (\<exists>t. sc_phase (lw_scopes w ! r) = Acquiring t \<and> t \<in> set (sc_held q)))"

definition step_shape :: "lock_world \<Rightarrow> lock_world \<Rightarrow> bool" where
  "step_shape w w' \<longleftrightarrow>
     (\<exists>r q tab. r < length (lw_scopes w) \<and> w' = set_scope r q (w\<lparr>lw_table := tab\<rparr>) \<and> table_ext r (lw_table w) tab \<and>
        calm_change w r q \<and>
        tasks_budget tab + scope_budget q < tasks_budget (lw_table w) + scope_budget (lw_scopes w ! r))"

lemma step_shapeI:
  "r < length (lw_scopes w) \<Longrightarrow> w' = set_scope r q (w\<lparr>lw_table := tab\<rparr>) \<Longrightarrow> table_ext r (lw_table w) tab \<Longrightarrow>
   calm_change w r q \<Longrightarrow>
   tasks_budget tab + scope_budget q < tasks_budget (lw_table w) + scope_budget (lw_scopes w ! r) \<Longrightarrow>
   step_shape w w'"
  unfolding step_shape_def by blast

lemmas calm_simps = calm_change_def fixed_part_def executing_def waits_for_def scope_tasks_def own_tasks_def acquiring_def

lemma own_task:
  assumes "world_inv w" "r < length (lw_scopes w)" "t \<in> set (scope_tasks (lw_scopes w ! r))"
  shows "t < length (kl_tasks (lw_table w))" "owner_of (lw_table w) t = r"
  using scope_invD(2,3) [OF world_invD(2) [OF assms(1,2)] assms(3)] by simp_all

lemma lock_step_shape: "lock_step w w' \<Longrightarrow> world_inv w \<Longrightarrow> step_shape w w'"
proof (induction rule: lock_step.induct)
  case (own_lock r w t)
  let ?q = "lw_scopes w ! r" and ?tab = "start_task t (lw_table w)"
  obtain tab rest phase where res:
      "withRequestExecutionLocks r (lt_frames (kl_tasks ?tab ! t)) (sc_rest ?q) ?tab = (tab, rest, phase)"
    by (metis prod_cases3)
  have t: "t < length (kl_tasks (lw_table w))" "owner_of (lw_table w) t = r"
    using own_task [OF own_lock.prems own_lock.hyps(1), of t] own_lock.hyps(2)
    by (simp_all add: scope_tasks_def own_tasks_def acquiring_def)
  have less: "tasks_budget ?tab < tasks_budget (lw_table w)"
    using tasks_budget_set_state [OF t(1), of Running] own_lock.hyps(3)
    by (simp add: start_task_def task_budget_def can_start_def)
  have ext: "table_ext r (lw_table w) tab"
    using locks_ext [OF res] table_ext_set_state [OF t(2), of Running] table_ext_trans by (auto simp: start_task_def)
  show ?case
  proof (rule step_shapeI [OF own_lock.hyps(1) _ ext])
    show "start_own r t w = set_scope r (?q\<lparr>sc_held := t # sc_held ?q, sc_rest := rest, sc_phase := phase\<rparr>) (w\<lparr>lw_table := tab\<rparr>)"
      using res by (simp add: start_own_def Let_def)
    show "calm_change w r (?q\<lparr>sc_held := t # sc_held ?q, sc_rest := rest, sc_phase := phase\<rparr>)"
      using locks_ext [OF res] own_lock.hyps(2) by (auto simp: calm_simps)
    have "phase_budget (sc_phase ?q) = 4" using own_lock.hyps(2) by (simp add: phase_budget_def)
    then show "tasks_budget tab + scope_budget (?q\<lparr>sc_held := t # sc_held ?q, sc_rest := rest, sc_phase := phase\<rparr>) <
        tasks_budget (lw_table w) + scope_budget ?q"
      using locks_budget [OF res] less by (simp add: scope_budget_def)
  qed
next
  case (retained_lock r w t)
  let ?q = "lw_scopes w ! r"
  have "t \<in> set (scope_tasks ?q)"
    by (rule retaining_member [OF world_invD(2) [OF retained_lock.prems retained_lock.hyps(1)] retained_lock.hyps(2)])
  note t = own_task [OF retained_lock.prems retained_lock.hyps(1) this]
  show ?case
  proof (rule step_shapeI [OF retained_lock.hyps(1) start_retained_def])
    show "table_ext r (lw_table w) (start_task t (lw_table w))"
      unfolding start_task_def by (rule table_ext_set_state [OF t(2)])
    show "tasks_budget (start_task t (lw_table w)) + scope_budget (?q\<lparr>sc_phase := Body\<rparr>) <
        tasks_budget (lw_table w) + scope_budget ?q"
      using tasks_budget_set_state [OF t(1), of Running] retained_lock.hyps(2,3)
      by (simp add: start_task_def task_budget_def can_start_def scope_budget_def phase_budget_def)
    show "calm_change w r (?q\<lparr>sc_phase := Body\<rparr>)" using retained_lock.hyps(2) by (auto simp: calm_simps)
  qed
next
  case (body_ends r w)
  show ?case
    by (rule step_shapeI [OF body_ends.hyps(1), where q = "(lw_scopes w ! r)\<lparr>sc_phase := Unwinding\<rparr>" and tab = "lw_table w"])
      (use body_ends.hyps in \<open>simp_all add: calm_simps set_phase_def table_ext_refl scope_budget_def phase_budget_def\<close>)
next
  case (settle r w t ts)
  have "t \<in> set (scope_tasks (lw_scopes w ! r))" by (simp add: scope_tasks_def own_tasks_def settle.hyps)
  note t = own_task [OF settle.prems settle.hyps(1) this]
  show ?case
    by (rule step_shapeI [OF settle.hyps(1), where q = "lw_scopes w ! r" and tab = "settle_task t (lw_table w)"])
      (use settle.hyps tasks_budget_set_state [OF t(1), of Settled] table_ext_set_state [OF t(2), of Settled] in
        \<open>simp_all add: calm_simps unwind_settle_def set_scope_def settle_task_def task_budget_def task_state_of_def\<close>)
next
  case (cleanup r w t ts)
  have "t \<in> set (scope_tasks (lw_scopes w ! r))" by (simp add: scope_tasks_def own_tasks_def cleanup.hyps)
  note t = own_task [OF cleanup.prems cleanup.hyps(1) this]
  show ?case
    by (rule step_shapeI [OF cleanup.hyps(1) unwind_cleanup_def table_ext_cleanup [OF t(2)]])
      (use cleanup.hyps tasks_budget_cleanup [OF t(1)] in
        \<open>simp_all add: calm_simps task_budget_def task_state_of_def scope_budget_def\<close>)
next
  case (unwound r w)
  show ?case
    by (rule step_shapeI [OF unwound.hyps(1), where q = "(lw_scopes w ! r)\<lparr>sc_phase := Releasing\<rparr>" and tab = "lw_table w"])
      (use unwound.hyps in \<open>simp_all add: calm_simps set_phase_def table_ext_refl scope_budget_def phase_budget_def\<close>)
next
  case (release r w k t)
  have "t \<in> set (scope_tasks (lw_scopes w ! r))" using release.hyps(3) by (force simp: scope_tasks_def)
  note t = own_task [OF release.prems release.hyps(1) this]
  show ?case
    by (rule step_shapeI [OF release.hyps(1), where q = "lw_scopes w ! r" and tab = "settle_task t (lw_table w)"])
      (use release.hyps tasks_budget_set_state [OF t(1), of Settled] table_ext_set_state [OF t(2), of Settled] in
        \<open>simp_all add: calm_simps unwind_settle_def set_scope_def settle_task_def task_budget_def task_state_of_def\<close>)
next
  case (released r w k t)
  have "t \<in> set (scope_tasks (lw_scopes w ! r))" using released.hyps(3) by (force simp: scope_tasks_def)
  note t = own_task [OF released.prems released.hyps(1) this]
  show ?case
    by (rule step_shapeI [OF released.hyps(1), where q = "lw_scopes w ! r" and tab = "cleanup_task t (lw_table w)"])
      (use released.hyps tasks_budget_cleanup [OF t(1)] table_ext_cleanup [OF t(2)] in
        \<open>simp_all add: calm_simps release_cleanup_def set_scope_def task_budget_def task_state_of_def\<close>)
next
  case (ends r w)
  show ?case
    by (rule step_shapeI [OF ends.hyps(1), where q = "(lw_scopes w ! r)\<lparr>sc_retained := [], sc_phase := Idle\<rparr>" and tab = "lw_table w"])
      (use ends.hyps in \<open>simp_all add: calm_simps end_run_def table_ext_refl scope_budget_def phase_budget_def\<close>)
qed

lemma lock_step_budget:
  assumes st: "lock_step w w'" and inv: "world_inv w"
  shows "lock_budget w' < lock_budget w"
proof -
  obtain r q tab where sh: "r < length (lw_scopes w)" "w' = set_scope r q (w\<lparr>lw_table := tab\<rparr>)"
      "tasks_budget tab + scope_budget q < tasks_budget (lw_table w) + scope_budget (lw_scopes w ! r)"
    using lock_step_shape [OF st inv] unfolding step_shape_def by blast
  from sum_list_replace [OF sh(1), of scope_budget q] sh show ?thesis
    by (simp add: lock_budget_def set_scope_def)
qed

lemma chain_cong:
  assumes "\<And>i. i \<le> r \<Longrightarrow> sc_parent (lw_scopes w' ! i) = sc_parent (lw_scopes w ! i)"
  shows "request_chain w' r = request_chain w r"
  using assms
proof (induction r rule: less_induct)
  case (less r)
  have "request_chain w' p = request_chain w p" if "p < r" for p using less that by simp
  then show ?case using less.prems [of r] by (subst (1 2) request_chain.simps) (auto split: option.splits)
qed

lemma lock_step_orderly:
  assumes st: "lock_step w w'" and inv: "world_inv w" and ord: "orderly w"
  shows "orderly w'"
proof -
  obtain r q tab where r: "r < length (lw_scopes w)" and w': "w' = set_scope r q (w\<lparr>lw_table := tab\<rparr>)"
      and ext: "table_ext r (lw_table w) tab" and calm: "calm_change w r q"
    using lock_step_shape [OF st inv] unfolding step_shape_def by blast
  have same: "sc_parent q = sc_parent (lw_scopes w ! r)" and busy: "sc_phase (lw_scopes w ! r) \<noteq> Idle"
    using calm by (simp_all add: calm_change_def fixed_part_def)
  have scopes: "length (lw_scopes w') = length (lw_scopes w)" "i < length (lw_scopes w) \<Longrightarrow> lw_scopes w' ! i = (if i = r then q else lw_scopes w ! i)"
      "lw_table w' = tab" for i
    using r by (auto simp: w' set_scope_def)
  have chain: "request_chain w' i = request_chain w i" if "i < length (lw_scopes w)" for i
    by (rule chain_cong) (use that scopes(2) same in auto)
  have inv': "world_inv w'" by (rule lock_step_inv [OF st inv])
  have keys: "key_of tab h = key_of (lw_table w) h" if "a < length (lw_scopes w)" "h \<in> set (scope_tasks (lw_scopes w ! a))" for a h
    using own_task [OF inv that] ext by (simp add: table_ext_def)
  have runs: "executing (lw_scopes w' ! a)"
    if i: "i < length (lw_scopes w)" "sc_phase (lw_scopes w' ! i) \<noteq> Idle" and a: "a \<in> set (tl (request_chain w i))" for i a
  proof -
    have "sc_phase (lw_scopes w ! i) \<noteq> Idle" using i busy scopes(2) [OF i(1)] by (auto split: if_splits)
    note x = orderlyD(1) [OF ord i(1) this]
    have al: "a < i" "a < length (lw_scopes w)" using callers_less [OF a] i(1) by simp_all
    show ?thesis
    proof (cases "a = r")
      case False
      with x [OF a] al scopes(2) show ?thesis by simp
    next
      case True
      obtain c where c: "c \<in> set (request_chain w i)" "sc_parent (lw_scopes w ! c) = Some a" using chain_of_caller [OF a] by blast
      have cl: "c < length (lw_scopes w)" using chain_le [OF c(1)] i(1) by simp
      have "sc_phase (lw_scopes w ! c) \<noteq> Idle"
      proof (cases "c = i")
        case True
        with \<open>sc_phase (lw_scopes w ! i) \<noteq> Idle\<close> show ?thesis by simp
      next
        case False
        with c(1) have "c \<in> set (tl (request_chain w i))" by (cases w i rule: chain_cases) auto
        with x [of c] show ?thesis by (auto simp: executing_def)
      qed
      with c cl True have "\<not> awaited w r" by (auto simp: awaited_def)
      with calm x [OF a] True have "executing q" by (simp add: calm_change_def)
      with True scopes(2) [OF r] show ?thesis by simp
    qed
  qed
  have ranks: "lockKeyCategoryOrder (key_of tab h) < lockKeyCategoryOrder (key_of tab t)"
    if i: "i < length (lw_scopes w)" and wt: "waits_for (lw_scopes w' ! i) t" and a: "a \<in> set (request_chain w i)"
      and h: "h \<in> set (scope_tasks (lw_scopes w' ! a))" "h \<noteq> t" for i t a h
  proof -
    have al: "a < length (lw_scopes w)" using chain_le [OF a] i by simp
    show ?thesis
    proof (cases "i = r")
      case False
      then have wi: "waits_for (lw_scopes w ! i) t" using wt scopes(2) [OF i] by simp
      have "h \<in> set (scope_tasks (lw_scopes w ! a))"
      proof (cases "a = r")
        case True
        with a False have "a \<in> set (tl (request_chain w i))" by (cases w i rule: chain_cases) auto
        moreover have "sc_phase (lw_scopes w ! i) \<noteq> Idle" using wi by (auto simp: waits_for_def)
        ultimately have "executing (lw_scopes w ! r)" using orderlyD(1) [OF ord i] True by blast
        with calm h(1) True scopes(2) [OF r] show ?thesis by (auto simp: calm_change_def)
      qed (use h(1) scopes(2) [OF al] in simp)
      with orderlyD(2) [OF ord i wi a _ h(2)] keys [OF al] keys [OF i] waiting_state [OF world_invD(2) [OF inv i] wi]
      show ?thesis by simp
    next
      case True
      with wt scopes(2) [OF r] have "waits_for q t" by simp
      with calm obtain t0 where acq: "sc_phase q = Acquiring t" and t0: "sc_phase (lw_scopes w ! r) = Acquiring t0" "t0 \<in> set (sc_held q)"
        by (auto simp: calm_change_def)
      have qi: "scope_inv tab r q" using world_invD(2) [OF inv', of r] r scopes by simp
      have up: "lockKeyCategoryOrder (key_of tab t0) < lockKeyCategoryOrder (key_of tab t)" by (rule acquiring_rank [OF qi acq t0(2)])
      show ?thesis
      proof (cases "a = r")
        case True
        have "sc_retained q = []" using scope_invD(6) [OF qi] acq by (simp add: states_ok_def Let_def)
        with h True scopes(2) [OF r] acq have "h \<in> set (sc_held q)" by (auto simp: scope_tasks_def own_tasks_def acquiring_def)
        from acquiring_rank [OF qi acq this] show ?thesis .
      next
        case False
        have w0: "waits_for (lw_scopes w ! r) t0" using t0(1) by (simp add: waits_for_def)
        have mem0: "t0 \<in> set (scope_tasks (lw_scopes w ! r))" using waiting_state [OF world_invD(2) [OF inv r] w0] by simp
        have ha: "h \<in> set (scope_tasks (lw_scopes w ! a))" using h(1) False scopes(2) [OF al] by simp
        then have "owner_of (lw_table w) h = a" "owner_of (lw_table w) t0 = r" using own_task [OF inv al] own_task [OF inv r mem0] by simp_all
        with False have "h \<noteq> t0" by auto
        with orderlyD(2) [OF ord r w0 _ ha] a True have "lockKeyCategoryOrder (key_of (lw_table w) h) < lockKeyCategoryOrder (key_of (lw_table w) t0)"
          by simp
        with up keys [OF al ha] keys [OF r mem0] show ?thesis by simp
      qed
    qed
  qed
  show ?thesis unfolding orderly_def using runs ranks by (simp add: scopes(1,3) chain)
qed

interpretation locks: settling lock_step "\<lambda>w. world_inv w \<and> orderly w" all_idle lock_budget
proof unfold_locales
  show "\<And>s s'. world_inv s \<and> orderly s \<Longrightarrow> lock_step s s' \<Longrightarrow> world_inv s' \<and> orderly s'"
    using lock_step_inv lock_step_orderly by blast
  show "\<And>s s'. world_inv s \<and> orderly s \<Longrightarrow> lock_step s s' \<Longrightarrow> lock_budget s' < lock_budget s"
    using lock_step_budget by blast
  show "\<And>s. world_inv s \<and> orderly s \<Longrightarrow> \<not> all_idle s \<Longrightarrow> \<exists>s'. lock_step s s'"
    using lock_progress by blast
qed


section \<open>Properties of every reachable world\<close>

text \<open>C2. Bodies that name a common session or device overlap only inside one request: two requests whose bodies run, each inside
  bodies that run, and that were given a common key are both nested in one request that has its lock (or are that request).
  Requests from outside therefore never overlap on a session or a device.\<close>

theorem executing_requests_exclude:
  assumes "lock_reachable collate w" "r < length (lw_scopes w)" "r' < length (lw_scopes w)" "attended w r" "attended w r'"
    "k \<in> set (sc_initial (lw_scopes w ! r))" "k \<in> set (sc_initial (lw_scopes w ! r'))"
  shows "\<exists>a \<in> set (request_chain w r) \<inter> set (request_chain w r'). k \<in> locked_keys w a"
proof -
  note inv = lock_reachable_inv [OF assms(1)]
  from named_keys_locked [OF inv assms(2,4)] assms(6) obtain a where a: "a \<in> set (request_chain w r)" "k \<in> locked_keys w a" by blast
  from named_keys_locked [OF inv assms(3,5)] assms(7) obtain b where b: "b \<in> set (request_chain w r')" "k \<in> locked_keys w b" by blast
  have "a < length (lw_scopes w)" "b < length (lw_scopes w)" using chain_le [OF a(1)] chain_le [OF b(1)] assms(2,3) by simp_all
  with locked_keys_disjoint [OF inv] a(2) b(2) have "a = b" by blast
  with a b show ?thesis by blast
qed

lemma outside_requests_exclude:
  assumes "lock_reachable collate w" "r < length (lw_scopes w)" "r' < length (lw_scopes w)" "r \<noteq> r'"
    "sc_parent (lw_scopes w ! r) = None" "sc_parent (lw_scopes w ! r') = None"
    "executing (lw_scopes w ! r)" "executing (lw_scopes w ! r')"
  shows "set (sc_initial (lw_scopes w ! r)) \<inter> set (sc_initial (lw_scopes w ! r')) = {}"
proof -
  note inv = lock_reachable_inv [OF assms(1)]
  have "request_chain w r = [r]" "request_chain w r' = [r']" using assms(5,6) by (simp_all add: request_chain.simps)
  with named_keys_locked [OF inv assms(2)] named_keys_locked [OF inv assms(3)] assms(7,8) locked_keys_disjoint [OF inv assms(2-4)]
  show ?thesis by (fastforce simp: attended_def)
qed

text \<open>Locks are granted first come, first served: when a task that waits or waited for a key has
  started, every task registered earlier under that key has settled.\<close>

lemma locks_first_come_first_served:
  assumes "lock_reachable collate w" "t < u" "u < length (kl_tasks (lw_table w))"
    "key_of (lw_table w) t = key_of (lw_table w) u" "task_state_of w u \<noteq> Waiting"
  shows "task_settled (lw_table w) t"
  using lock_fifo assms lock_reachable_inv by (metis task_state_of_def world_inv_def)

text \<open>C29. No request waits for ever: when no nested request was left behind and every request that waits for a lock has, together
  with the requests it is nested in, only locks of a lower category (sessions before devices), then all requests, nested
  ones and those that wait for them included, each body given that it ends once the requests it invoked have ended, come to their
  end; every run is at most as long as the budget, and a run that cannot go on has ended all requests.\<close>

theorem requests_come_to_rest:
  assumes "lock_reachable collate w" "orderly w"
  shows "(\<exists>w'. lock_step\<^sup>*\<^sup>* w w' \<and> all_idle w') \<and>
    (\<forall>n w'. (lock_step ^^ n) w w' \<longrightarrow> n \<le> lock_budget w) \<and>
    (\<forall>w'. lock_step\<^sup>*\<^sup>* w w' \<and> (\<nexists>w''. lock_step w' w'') \<longrightarrow> all_idle w')"
proof -
  have good: "world_inv w \<and> orderly w" using assms lock_reachable_inv by blast
  have "\<exists>w'. lock_step\<^sup>*\<^sup>* w w' \<and> all_idle w'" by (rule locks.comes_to_rest [OF good])
  moreover have "n \<le> lock_budget w" if "(lock_step ^^ n) w w'" for n w'
    using locks.runs_are_short [OF that good] by fastforce
  moreover have "all_idle w'" if "lock_step\<^sup>*\<^sup>* w w'" "\<nexists>w''. lock_step w' w''" for w'
    by (rule locks.maximal_run_rests [OF that(1) good]) (use that(2) in blast)
  ultimately show ?thesis by blast
qed

section \<open>Two requests\<close>

definition demo_created :: lock_world where
  "demo_created =
     snd (createRequestExecutionLocks None [sessionExecutionLockKey ''b'', deviceExecutionLockKey ''2'']
       (snd (createRequestExecutionLocks None [sessionExecutionLockKey ''a'', deviceExecutionLockKey ''1''] initial_world)))"

definition demo_waiting :: lock_world where
  "demo_waiting = projr (run_scope 1 (projr (run_scope 0 demo_created)))"

definition demo_sessions :: lock_world where
  "demo_sessions = start_own 1 1 (start_own 0 0 demo_waiting)"

definition demo_bodies :: lock_world where
  "demo_bodies = start_own 1 3 (start_own 0 2 demo_sessions)"

lemma run_reachable:
  assumes "lock_reachable collate w" "r < length (lw_scopes w) \<and> sc_phase (lw_scopes w ! r) = Idle"
  shows "lock_reachable collate (projr (run_scope r w))"
proof -
  have "run_scope r w = Inr (projr (run_scope r w))"
    using assms(2) by (simp add: run_scope_def Let_def split: prod.split)
  with assms show ?thesis using lock_reachable.run by blast
qed

lemma demo_waiting_reachable: "lock_reachable collate demo_waiting"
proof -
  have "[sessionExecutionLockKey s, deviceExecutionLockKey d] = resolveRequestExecutionLockKeys collate s None (Some d)" for s d
    by (simp add: resolved_keys)
  then have "lock_reachable collate demo_created"
    unfolding demo_created_def by (metis lock_reachable.start lock_reachable.create)
  then show ?thesis
    unfolding demo_waiting_def
  proof (intro run_reachable)
    show "0 < length (lw_scopes demo_created) \<and> sc_phase (lw_scopes demo_created ! 0) = Idle" by code_simp
    show "1 < length (lw_scopes (projr (run_scope 0 demo_created))) \<and>
        sc_phase (lw_scopes (projr (run_scope 0 demo_created)) ! 1) = Idle" by code_simp
  qed
qed

lemma own_lock_reachable:
  "lock_reachable collate w \<Longrightarrow> r < length (lw_scopes w) \<and> sc_phase (lw_scopes w ! r) = Acquiring t \<and> can_start (lw_table w) t \<Longrightarrow>
   lock_reachable collate (start_own r t w)"
  by (meson lock_reachable.internal own_lock)

lemma demo_bodies_reachable: "lock_reachable collate demo_bodies"
  unfolding demo_bodies_def demo_sessions_def
proof (intro own_lock_reachable demo_waiting_reachable)
  show "0 < length (lw_scopes demo_waiting) \<and> sc_phase (lw_scopes demo_waiting ! 0) = Acquiring 0 \<and>
      can_start (lw_table demo_waiting) 0" by code_simp
  show "1 < length (lw_scopes (start_own 0 0 demo_waiting)) \<and> sc_phase (lw_scopes (start_own 0 0 demo_waiting) ! 1) = Acquiring 1 \<and>
      can_start (lw_table (start_own 0 0 demo_waiting)) 1" by code_simp
  show "0 < length (lw_scopes (start_own 1 1 (start_own 0 0 demo_waiting))) \<and>
      sc_phase (lw_scopes (start_own 1 1 (start_own 0 0 demo_waiting)) ! 0) = Acquiring 2 \<and>
      can_start (lw_table (start_own 1 1 (start_own 0 0 demo_waiting))) 2" by code_simp
  show "1 < length (lw_scopes (start_own 0 2 (start_own 1 1 (start_own 0 0 demo_waiting)))) \<and>
      sc_phase (lw_scopes (start_own 0 2 (start_own 1 1 (start_own 0 0 demo_waiting))) ! 1) = Acquiring 3 \<and>
      can_start (lw_table (start_own 0 2 (start_own 1 1 (start_own 0 0 demo_waiting)))) 3" by code_simp
qed

lemma demo_bodies_facts:
  "length (lw_scopes demo_bodies) = 2" "map sc_phase (lw_scopes demo_bodies) = [Body, Body]"
  "map sc_initial (lw_scopes demo_bodies) = [[''session:a'', ''device:1''], [''session:b'', ''device:2'']]"
  by code_simp+

lemma demo_bodies_phase: "sc_phase (lw_scopes demo_bodies ! 0) = Body" "sc_phase (lw_scopes demo_bodies ! 1) = Body"
  by code_simp+

lemma demo_bodies_chain: "request_chain demo_bodies 0 = [0]" "request_chain demo_bodies 1 = [1]"
  by code_simp+

lemma demo_bodies_orderly: "orderly demo_bodies"
  using demo_bodies_facts(1) demo_bodies_phase demo_bodies_chain by (auto simp: orderly_def waits_for_def less_Suc_eq numeral_2_eq_2)

text \<open>A request of session \<open>a\<close> on device \<open>1\<close> whose body invokes a request with the same keys, which re-enters both.\<close>

definition demo_one :: lock_world where
  "demo_one = start_own 0 1 (start_own 0 0 (projr (run_scope 0
     (snd (createRequestExecutionLocks None [sessionExecutionLockKey ''a'', deviceExecutionLockKey ''1''] initial_world)))))"

definition demo_nested :: lock_world where
  "demo_nested = projr (run_scope 1
     (snd (createRequestExecutionLocks (Some 0) [sessionExecutionLockKey ''a'', deviceExecutionLockKey ''1''] demo_one)))"

lemma known_device_keys:
  "[sessionExecutionLockKey s, deviceExecutionLockKey d] = resolveRequestExecutionLockKeys collate s None (Some d)"
  by (simp add: resolved_keys)

lemma session_only_keys: "[sessionExecutionLockKey s] = resolveRequestExecutionLockKeys collate s None None"
  by (simp add: resolved_keys)

lemma outside_reachable:
  "lock_reachable collate w \<Longrightarrow>
     lock_reachable collate (snd (createRequestExecutionLocks None [sessionExecutionLockKey s, deviceExecutionLockKey d] w))"
  "lock_reachable collate w \<Longrightarrow> lock_reachable collate (snd (createRequestExecutionLocks None [sessionExecutionLockKey s] w))"
  using known_device_keys session_only_keys lock_reachable.create by metis+

lemma nested_reachable:
  "lock_reachable collate w \<Longrightarrow> p < length (lw_scopes w) \<and> sc_phase (lw_scopes w ! p) = Body \<Longrightarrow>
     lock_reachable collate (snd (createRequestExecutionLocks (Some p) [sessionExecutionLockKey s, deviceExecutionLockKey d] w))"
  using known_device_keys lock_reachable.nest by metis

lemma demo_one_reachable: "lock_reachable collate demo_one"
  unfolding demo_one_def
  by (intro own_lock_reachable run_reachable outside_reachable lock_reachable.start; code_simp)

lemma demo_nested_reachable: "lock_reachable collate demo_nested"
  unfolding demo_nested_def by (intro run_reachable nested_reachable demo_one_reachable; code_simp)

lemma demo_nested_facts:
  "length (lw_scopes demo_nested) = 2" "map sc_phase (lw_scopes demo_nested) = [Body, Body]"
  "request_chain demo_nested 0 = [0]" "request_chain demo_nested 1 = [1, 0]"
  "map sc_initial (lw_scopes demo_nested) = [[''session:a'', ''device:1''], [''session:a'', ''device:1'']]"
  by code_simp+

lemma demo_nested_phases: "sc_phase (lw_scopes demo_nested ! 0) = Body" "sc_phase (lw_scopes demo_nested ! 1) = Body"
  by code_simp+

lemma demo_nested_orderly: "orderly demo_nested"
  using demo_nested_facts(1,3,4) demo_nested_phases by (auto simp: orderly_def waits_for_def executing_def less_Suc_eq numeral_2_eq_2)

theorem executing_requests_exclude_witness: "''device:1'' \<in> locked_keys demo_nested 0"
proof -
  have "''device:1'' \<in> set (sc_initial (lw_scopes demo_nested ! 0))" "''device:1'' \<in> set (sc_initial (lw_scopes demo_nested ! 1))" by code_simp+
  moreover have "attended demo_nested 0" "attended demo_nested 1"
    using demo_nested_facts(3,4) demo_nested_phases by (simp_all add: attended_def executing_def)
  ultimately have "\<exists>a \<in> set (request_chain demo_nested 0) \<inter> set (request_chain demo_nested 1). ''device:1'' \<in> locked_keys demo_nested a"
    using demo_nested_facts(1) by (intro executing_requests_exclude [OF demo_nested_reachable]) simp_all
  then show ?thesis by (auto simp: demo_nested_facts(3))
qed

theorem requests_come_to_rest_witness: "\<exists>w'. lock_step\<^sup>*\<^sup>* demo_nested w' \<and> all_idle w'"
  using requests_come_to_rest [OF demo_nested_reachable demo_nested_orderly] by blast

text \<open>Two requests of one session.\<close>

definition demo_queue0 :: lock_world where
  "demo_queue0 =
     snd (createRequestExecutionLocks None [sessionExecutionLockKey ''a'']
       (snd (createRequestExecutionLocks None [sessionExecutionLockKey ''a''] initial_world)))"

definition demo_queue1 :: lock_world where
  "demo_queue1 = start_own 0 0 (projr (run_scope 1 (projr (run_scope 0 demo_queue0))))"

definition demo_queue2 :: lock_world where
  "demo_queue2 = unwind_settle 0 (set_phase 0 Unwinding demo_queue1)"

definition demo_queue3 :: lock_world where
  "demo_queue3 = start_own 1 1 demo_queue2"

lemma demo_queue1_reachable: "lock_reachable collate demo_queue1"
proof -
  have "[sessionExecutionLockKey s] = resolveRequestExecutionLockKeys collate s None None" for s
    by (simp add: resolved_keys)
  then have "lock_reachable collate demo_queue0"
    unfolding demo_queue0_def by (metis lock_reachable.start lock_reachable.create)
  then show ?thesis
    unfolding demo_queue1_def
  proof (intro own_lock_reachable run_reachable)
    show "0 < length (lw_scopes demo_queue0) \<and> sc_phase (lw_scopes demo_queue0 ! 0) = Idle" by code_simp
    show "1 < length (lw_scopes (projr (run_scope 0 demo_queue0))) \<and>
        sc_phase (lw_scopes (projr (run_scope 0 demo_queue0)) ! 1) = Idle" by code_simp
    show "0 < length (lw_scopes (projr (run_scope 1 (projr (run_scope 0 demo_queue0))))) \<and>
        sc_phase (lw_scopes (projr (run_scope 1 (projr (run_scope 0 demo_queue0)))) ! 0) = Acquiring 0 \<and>
        can_start (lw_table (projr (run_scope 1 (projr (run_scope 0 demo_queue0))))) 0" by code_simp
  qed
qed

lemma demo_queue3_reachable: "lock_reachable collate demo_queue3"
proof -
  have "0 < length (lw_scopes demo_queue1)" "sc_phase (lw_scopes demo_queue1 ! 0) = Body" by code_simp+
  moreover have "awaited demo_queue1 0" by code_simp
  ultimately have "lock_reachable collate (set_phase 0 Unwinding demo_queue1)"
    using demo_queue1_reachable lock_reachable.internal body_ends by blast
  moreover have "0 < length (lw_scopes (set_phase 0 Unwinding demo_queue1))"
      "sc_phase (lw_scopes (set_phase 0 Unwinding demo_queue1) ! 0) = Unwinding"
      "sc_held (lw_scopes (set_phase 0 Unwinding demo_queue1) ! 0) = 0 # []"
      "task_state_of (set_phase 0 Unwinding demo_queue1) 0 = Running" by code_simp+
  ultimately have "lock_reachable collate demo_queue2"
    unfolding demo_queue2_def using lock_reachable.internal settle by blast
  then show ?thesis
    unfolding demo_queue3_def
  proof (rule own_lock_reachable)
    show "1 < length (lw_scopes demo_queue2) \<and> sc_phase (lw_scopes demo_queue2 ! 1) = Acquiring 1 \<and>
        can_start (lw_table demo_queue2) 1" by code_simp
  qed
qed

lemma locks_first_come_first_served_example: "task_settled (lw_table demo_queue3) 0"
proof (rule locks_first_come_first_served [OF demo_queue3_reachable])
  show "(0::nat) < 1" by simp
  show "1 < length (kl_tasks (lw_table demo_queue3))" by code_simp
  show "key_of (lw_table demo_queue3) 0 = key_of (lw_table demo_queue3) 1" by code_simp
  show "task_state_of demo_queue3 1 \<noteq> Waiting" by code_simp
qed

text \<open>The order among devices is needed: two bodies that hold one device each and ask for the other's
  wait for each other for ever.\<close>

definition demo_deadlock :: lock_world where
  "demo_deadlock = projr (retainDevice ''1'' 1 (projr (retainDevice ''2'' 0 demo_bodies)))"

lemma demo_deadlock_reachable: "lock_reachable collate demo_deadlock"
proof -
  have one: "retainDevice ''2'' 0 demo_bodies = Inr (projr (retainDevice ''2'' 0 demo_bodies))"
    using demo_bodies_phase(1) by (simp add: retainDevice_def Let_def split: prod.split option.split)
  from demo_bodies_facts(1) have len: "0 < length (lw_scopes demo_bodies)" by simp
  have r1: "lock_reachable collate (projr (retainDevice ''2'' 0 demo_bodies))"
    by (rule lock_reachable.retain [OF demo_bodies_reachable len demo_bodies_phase(1) one])
  have ph: "1 < length (lw_scopes (projr (retainDevice ''2'' 0 demo_bodies)))"
      "sc_phase (lw_scopes (projr (retainDevice ''2'' 0 demo_bodies)) ! 1) = Body" by code_simp+
  then have two: "retainDevice ''1'' 1 (projr (retainDevice ''2'' 0 demo_bodies)) = Inr demo_deadlock"
    unfolding demo_deadlock_def
    by (simp add: retainDevice_def [of "''1''"] Let_def split: prod.split option.split)
  show ?thesis by (rule lock_reachable.retain [OF r1 ph two])
qed

lemma retained_devices_can_deadlock:
  "lock_reachable collate demo_deadlock \<and> \<not> all_idle demo_deadlock \<and> (\<forall>w'. \<not> lock_step demo_deadlock w')"
proof -
  have len: "length (lw_scopes demo_deadlock) = 2" by code_simp
  have ph: "sc_phase (lw_scopes demo_deadlock ! 0) = Retaining 4" "sc_phase (lw_scopes demo_deadlock ! 1) = Retaining 5"
    by code_simp+
  have blocked: "\<not> can_start (lw_table demo_deadlock) 4" "\<not> can_start (lw_table demo_deadlock) 5" by code_simp+
  have "\<not> lock_step demo_deadlock w'" for w'
  proof
    assume "lock_step demo_deadlock w'"
    then show False
      by cases (use len ph blocked in \<open>auto simp: less_2_cases_iff\<close>)
  qed
  moreover have "\<not> all_idle demo_deadlock"
    using len ph nth_mem [of 0 "lw_scopes demo_deadlock"] by (force simp: all_idle_def)
  ultimately show ?thesis using demo_deadlock_reachable by blast
qed

text \<open>The order is needed among nested requests as well: a replay that retained the device of its first \<open>open\<close> and then
  invokes a request that takes the lock of that device waits for itself for ever.\<close>

definition demo_self_wait :: lock_world where
  "demo_self_wait = projr (run_scope 1
     (snd (createRequestExecutionLocks (Some 0) [sessionExecutionLockKey ''a'', deviceExecutionLockKey ''1'']
       (start_retained 0 1 (projr (retainDevice ''1'' 0 (start_own 0 0 (projr (run_scope 0
         (snd (createRequestExecutionLocks None [sessionExecutionLockKey ''a''] initial_world)))))))))))"

lemma retain_reachable:
  assumes "lock_reachable collate w" "r < length (lw_scopes w) \<and> sc_phase (lw_scopes w ! r) = Body"
  shows "lock_reachable collate (projr (retainDevice d r w))"
proof -
  have "retainDevice d r w = Inr (projr (retainDevice d r w))"
    using assms(2) by (simp add: retainDevice_def Let_def split: prod.split option.split)
  with assms show ?thesis using lock_reachable.retain by blast
qed

lemma retained_lock_reachable:
  "lock_reachable collate w \<Longrightarrow> r < length (lw_scopes w) \<and> sc_phase (lw_scopes w ! r) = Retaining t \<and> can_start (lw_table w) t \<Longrightarrow>
   lock_reachable collate (start_retained r t w)"
  by (meson lock_reachable.internal retained_lock)

lemma demo_self_wait_reachable: "lock_reachable collate demo_self_wait"
  unfolding demo_self_wait_def
  by (intro run_reachable nested_reachable retained_lock_reachable retain_reachable own_lock_reachable outside_reachable
      lock_reachable.start; code_simp)

lemma nested_request_waits_for_its_caller:
  "lock_reachable collate demo_self_wait \<and> \<not> all_idle demo_self_wait \<and> (\<forall>w'. \<not> lock_step demo_self_wait w')"
proof -
  have len: "length (lw_scopes demo_self_wait) = 2" by code_simp
  have ph: "sc_phase (lw_scopes demo_self_wait ! 0) = Body" "sc_phase (lw_scopes demo_self_wait ! 1) = Acquiring 2" by code_simp+
  have blocked: "\<not> can_start (lw_table demo_self_wait) 2" "\<not> awaited demo_self_wait 0" by code_simp+
  have "\<not> lock_step demo_self_wait w'" for w'
  proof
    assume "lock_step demo_self_wait w'"
    then show False
      by cases (use len ph blocked in \<open>auto simp: less_2_cases_iff\<close>)
  qed
  moreover have "\<not> all_idle demo_self_wait"
    using len ph nth_mem [of 0 "lw_scopes demo_self_wait"] by (force simp: all_idle_def)
  ultimately show ?thesis using demo_self_wait_reachable by blast
qed

text \<open>That the enclosing bodies run is needed for exclusion: the nested request of a body that was left behind still re-enters the
  device its caller has released, beside a request from outside that has its lock now.\<close>

definition demo_left_behind :: lock_world where
  "demo_left_behind = set_phase 0 Unwinding (start_own 1 2 (projr (run_scope 1
     (snd (createRequestExecutionLocks (Some 0) [sessionExecutionLockKey ''b'', deviceExecutionLockKey ''1''] demo_one)))))"

definition demo_released :: lock_world where
  "demo_released = unwind_cleanup 0 0 (unwind_settle 0 (unwind_cleanup 0 1 (unwind_settle 1 demo_left_behind)))"

definition demo_overlap :: lock_world where
  "demo_overlap = start_own 2 4 (start_own 2 3 (projr (run_scope 2
     (snd (createRequestExecutionLocks None [sessionExecutionLockKey ''c'', deviceExecutionLockKey ''1''] demo_released)))))"

lemma settle_reachable:
  "lock_reachable collate w \<Longrightarrow> r < length (lw_scopes w) \<and> sc_phase (lw_scopes w ! r) = Unwinding \<and>
     sc_held (lw_scopes w ! r) = t # tl (sc_held (lw_scopes w ! r)) \<and> task_state_of w t = Running \<Longrightarrow> lock_reachable collate (unwind_settle t w)"
  by (meson lock_reachable.internal settle)

lemma cleanup_reachable:
  "lock_reachable collate w \<Longrightarrow> r < length (lw_scopes w) \<and> sc_phase (lw_scopes w ! r) = Unwinding \<and>
     sc_held (lw_scopes w ! r) = t # tl (sc_held (lw_scopes w ! r)) \<and> task_state_of w t = Settled \<Longrightarrow> lock_reachable collate (unwind_cleanup r t w)"
  by (meson lock_reachable.internal cleanup)

lemma demo_left_behind_reachable: "lock_reachable collate demo_left_behind"
  unfolding demo_left_behind_def
proof (rule lock_reachable.abandon)
  let ?w = "start_own 1 2 (projr (run_scope 1
     (snd (createRequestExecutionLocks (Some 0) [sessionExecutionLockKey ''b'', deviceExecutionLockKey ''1''] demo_one))))"
  show "lock_reachable collate ?w"
    by (intro own_lock_reachable run_reachable nested_reachable demo_one_reachable; code_simp)
  show "0 < length (lw_scopes ?w)" "sc_phase (lw_scopes ?w ! 0) = Body" by code_simp+
qed

lemma demo_released_reachable: "lock_reachable collate demo_released"
  unfolding demo_released_def
  by (intro cleanup_reachable settle_reachable [of _ _ 0] demo_left_behind_reachable; code_simp)

lemma left_behind_request_overlaps:
  "lock_reachable collate demo_overlap \<and>
     executing (lw_scopes demo_overlap ! 1) \<and> ''device:1'' \<in> set (sc_initial (lw_scopes demo_overlap ! 1)) \<and>
     executing (lw_scopes demo_overlap ! 2) \<and> ''device:1'' \<in> locked_keys demo_overlap 2"
proof -
  have r: "lock_reachable collate demo_overlap"
    unfolding demo_overlap_def by (intro own_lock_reachable run_reachable outside_reachable demo_released_reachable; code_simp)
  have ph: "sc_phase (lw_scopes demo_overlap ! 1) = Body" "sc_phase (lw_scopes demo_overlap ! 2) = Body" "2 < length (lw_scopes demo_overlap)"
    "''device:1'' \<in> set (sc_initial (lw_scopes demo_overlap ! 1))" "''device:1'' \<in> set (taken_keys (lw_scopes demo_overlap ! 2))" by code_simp+
  have "executing (lw_scopes demo_overlap ! 1)" "executing (lw_scopes demo_overlap ! 2)" using ph by (simp_all add: executing_def)
  with executing_has_keys [OF lock_reachable_inv [OF r] ph(3)] r ph show ?thesis by blast
qed

end
