(* ===== verification/SelectorSyntax.thy ===== *)
theory SelectorSyntax
  imports Snapshots
begin

text \<open>
  The selector language: \<^verbatim>\<open>src/selectors/parse.ts\<close>.

  A selector expression is a chain of alternatives separated by \<open>||\<close>, each a list of terms separated
  by white space, each term \<open>key=value\<close> or a bare boolean key; values may be quoted. The scanning loops
  keep, besides the rest of the input, the part already read (reversed, in \<open>seen\<close>), which
  \<open>isEscapedQuote\<close> looks back into. An escape for a code unit above 255 is outside the strings of the
  model; decoding it yields no string, and the parse reports \<open>WideEscape\<close>.
\<close>

section \<open>Keys and terms\<close>

datatype selector_key =
    KId | KRole | KText | KLabel | KValue | KAppname | KWindowtitle
  | KVisible | KHidden | KEditable | KSelected | KFocused | KEnabled | KHittable

definition TEXT_KEYS :: "(string \<times> selector_key) list" where
  "TEXT_KEYS = [(''id'', KId), (''role'', KRole), (''text'', KText), (''label'', KLabel),
     (''value'', KValue), (''appname'', KAppname), (''windowtitle'', KWindowtitle)]"

definition BOOLEAN_KEYS :: "(string \<times> selector_key) list" where
  "BOOLEAN_KEYS = [(''visible'', KVisible), (''hidden'', KHidden), (''editable'', KEditable),
     (''selected'', KSelected), (''focused'', KFocused), (''enabled'', KEnabled),
     (''hittable'', KHittable)]"

definition ALL_KEYS :: "(string \<times> selector_key) list" where
  "ALL_KEYS = TEXT_KEYS @ BOOLEAN_KEYS"

datatype selector_value = TextValue string | BoolValue bool

type_synonym selector_term = "selector_key \<times> selector_value"

record selector =
  sel_raw :: string
  sel_terms :: "selector_term list"

record selector_chain =
  ch_raw :: string
  ch_selectors :: "selector list"

datatype selector_error =
    EmptyExpression
  | EmptySegment
  | InvalidSegment string
  | EmptyTerm
  | InvalidTerm string
  | UnknownKey string
  | MissingValue selector_key
  | InvalidBoolean selector_key string
  | InvalidFallback string
  | UnclosedQuote string
  | WideEscape string

section \<open>Quotes and escapes\<close>

abbreviation is_quote :: "char \<Rightarrow> bool" where
  "is_quote c \<equiv> c = CHR ''\"'' \<or> c = CHR 0x27"

abbreviation backslash :: char where "backslash \<equiv> CHR 0x5C"

fun leading_backslashes :: "string \<Rightarrow> nat" where
  "leading_backslashes [] = 0"
| "leading_backslashes (c # s) = (if c = backslash then Suc (leading_backslashes s) else 0)"

text \<open>The quote at an index is escaped when an odd number of backslashes stands before it; \<open>seen\<close> is
  the source before the index, reversed.\<close>

definition isEscapedQuote :: "string \<Rightarrow> bool" where
  "isEscapedQuote seen \<longleftrightarrow> leading_backslashes seen mod 2 = 1"

definition updateQuoteState :: "char option \<Rightarrow> char \<Rightarrow> char option" where
  "updateQuoteState currentQuote ch =
     (case currentQuote of None \<Rightarrow> Some ch | Some q \<Rightarrow> if q = ch then None else Some q)"

definition SIMPLE_ESCAPE_REPLACEMENTS :: "(char \<times> char) list" where
  "SIMPLE_ESCAPE_REPLACEMENTS =
     [(CHR ''\"'', CHR ''\"''), (CHR 0x27, CHR 0x27), (backslash, backslash), (CHR ''/'', CHR ''/''),
      (CHR ''b'', CHR 0x08), (CHR ''f'', CHR 0x0C), (CHR ''n'', CHR 0x0A), (CHR ''r'', CHR 0x0D),
      (CHR ''t'', CHR 0x09)]"

definition decodeSimpleEscape :: "char \<Rightarrow> char option" where
  "decodeSimpleEscape escaped = map_of SIMPLE_ESCAPE_REPLACEMENTS escaped"

definition hex_val :: "char \<Rightarrow> nat" where
  "hex_val c =
     (let n = of_char c :: nat
      in if 48 \<le> n \<and> n \<le> 57 then n - 48 else if 97 \<le> n then n - 87 else n - 55)"

definition parse_hex :: "string \<Rightarrow> nat" where
  "parse_hex s = foldl (\<lambda>a c. 16 * a + hex_val c) 0 s"

function decodeQuotedSelectorValue :: "string \<Rightarrow> string option" where
  "decodeQuotedSelectorValue [] = Some []"
| "decodeQuotedSelectorValue (c # s) =
     (if c \<noteq> backslash then map_option (Cons c) (decodeQuotedSelectorValue s)
      else case s of
          [] \<Rightarrow> Some [c]
        | escaped # s' \<Rightarrow>
            (case decodeSimpleEscape escaped of
               Some replacement \<Rightarrow> map_option (Cons replacement) (decodeQuotedSelectorValue s')
             | None \<Rightarrow>
                 if escaped = CHR ''u'' \<and> length (take 4 s') = 4 \<and> list_all is_hex_char (take 4 s')
                 then (let n = parse_hex (take 4 s')
                       in if n > 255 then None
                          else map_option (Cons (char_of n)) (decodeQuotedSelectorValue (drop 4 s')))
                 else map_option (Cons c) (decodeQuotedSelectorValue s)))"
  by pat_completeness auto
termination
  by (relation "measure length") auto

definition unquote :: "string \<Rightarrow> string option" where
  "unquote value =
     (let trimmed = js_trim value
      in if trimmed \<noteq> [] \<and>
            ((hd trimmed = CHR ''\"'' \<and> last trimmed = CHR ''\"'') \<or>
             (hd trimmed = CHR 0x27 \<and> last trimmed = CHR 0x27))
         then decodeQuotedSelectorValue (butlast (tl trimmed))
         else Some trimmed)"

section \<open>Splitting\<close>

text \<open>The alternatives of a chain. \<open>expression\<close> is the whole input, for the error.\<close>

function split_loop ::
    "string \<Rightarrow> string \<Rightarrow> string \<Rightarrow> string \<Rightarrow> char option \<Rightarrow> string list \<Rightarrow> selector_error + string list"
  where
  "split_loop expression seen [] current quote segments =
     (let finalSegment = js_trim current
      in if finalSegment = [] then Inl (InvalidFallback expression)
         else Inr (segments @ [finalSegment]))"
| "split_loop expression seen (ch # rest) current quote segments =
     (if is_quote ch \<and> \<not> isEscapedQuote seen
      then split_loop expression (ch # seen) rest (current @ [ch]) (updateQuoteState quote ch) segments
      else if quote = None \<and> ch = CHR ''|'' \<and> rest \<noteq> [] \<and> hd rest = CHR ''|''
      then (let segment = js_trim current
            in if segment = [] then Inl (InvalidFallback expression)
               else split_loop expression (CHR ''|'' # ch # seen) (tl rest) [] quote (segments @ [segment]))
      else split_loop expression (ch # seen) rest (current @ [ch]) quote segments)"
  by pat_completeness auto
termination
  by (relation "measure (\<lambda>(_, _, rest, _). length rest)") auto

definition splitByFallback :: "string \<Rightarrow> selector_error + string list" where
  "splitByFallback expression = split_loop expression [] expression [] None []"

definition push_token :: "string \<Rightarrow> string list \<Rightarrow> string list" where
  "push_token current tokens = (if js_trim current \<noteq> [] then tokens @ [js_trim current] else tokens)"

fun token_loop ::
    "string \<Rightarrow> string \<Rightarrow> string \<Rightarrow> string \<Rightarrow> char option \<Rightarrow> string list \<Rightarrow> selector_error + string list"
  where
  "token_loop segment seen [] current quote tokens =
     (if quote \<noteq> None then Inl (UnclosedQuote segment) else Inr (push_token current tokens))"
| "token_loop segment seen (ch # rest) current quote tokens =
     (if is_quote ch \<and> \<not> isEscapedQuote seen
      then token_loop segment (ch # seen) rest (current @ [ch]) (updateQuoteState quote ch) tokens
      else if quote = None \<and> is_js_space ch
      then token_loop segment (ch # seen) rest [] quote (push_token current tokens)
      else token_loop segment (ch # seen) rest (current @ [ch]) quote tokens)"

definition tokenize :: "string \<Rightarrow> selector_error + string list" where
  "tokenize segment = token_loop segment [] segment [] None []"

section \<open>Parsing\<close>

text \<open>\<open>None\<close>: not a boolean.\<close>

definition parseBoolean :: "string \<Rightarrow> selector_error + bool option" where
  "parseBoolean value =
     (case unquote value of
        None \<Rightarrow> Inl (WideEscape value)
      | Some v \<Rightarrow>
          let normalized = js_lower v
          in Inr (if normalized = ''true'' then Some True
                  else if normalized = ''false'' then Some False else None))"

definition parseTerm :: "string \<Rightarrow> selector_error + selector_term" where
  "parseTerm token =
     (let normalized = js_trim token
      in if normalized = [] then Inl EmptyTerm
         else case js_index_of (CHR ''='') normalized of
             None \<Rightarrow>
               (case map_of BOOLEAN_KEYS (js_lower normalized) of
                  None \<Rightarrow> Inl (InvalidTerm token)
                | Some key \<Rightarrow> Inr (key, BoolValue True))
           | Some equalsIdx \<Rightarrow>
               let keyName = js_lower (js_trim (take equalsIdx normalized));
                   valueRaw = js_trim (drop (Suc equalsIdx) normalized)
               in (case map_of ALL_KEYS keyName of
                     None \<Rightarrow> Inl (UnknownKey keyName)
                   | Some key \<Rightarrow>
                       if valueRaw = [] then Inl (MissingValue key)
                       else if map_of BOOLEAN_KEYS keyName \<noteq> None
                       then rbind (parseBoolean valueRaw) (\<lambda>b.
                              case b of None \<Rightarrow> Inl (InvalidBoolean key valueRaw)
                                      | Some v \<Rightarrow> Inr (key, BoolValue v))
                       else (case unquote valueRaw of
                               None \<Rightarrow> Inl (WideEscape valueRaw)
                             | Some v \<Rightarrow> Inr (key, TextValue v))))"

definition parseSelector :: "string \<Rightarrow> selector_error + selector" where
  "parseSelector segment =
     (let raw = js_trim segment
      in if raw = [] then Inl EmptySegment
         else rbind (tokenize raw) (\<lambda>tokens.
           if length tokens = 0 then Inl (InvalidSegment segment)
           else rbind (rmap parseTerm tokens) (\<lambda>terms. Inr \<lparr>sel_raw = raw, sel_terms = terms\<rparr>)))"

definition parseSelectorChain :: "string \<Rightarrow> selector_error + selector_chain" where
  "parseSelectorChain expression =
     (let raw = js_trim expression
      in if raw = [] then Inl EmptyExpression
         else rbind (splitByFallback raw) (\<lambda>segments.
           if length segments = 0 then Inl EmptyExpression
           else rbind (rmap parseSelector segments) (\<lambda>selectors.
             Inr \<lparr>ch_raw = raw, ch_selectors = selectors\<rparr>)))"

definition tryParseSelectorChain :: "string \<Rightarrow> selector_chain option" where
  "tryParseSelectorChain expression =
     (case parseSelectorChain expression of Inl _ \<Rightarrow> None | Inr chain \<Rightarrow> Some chain)"

definition isSelectorToken :: "string \<Rightarrow> bool" where
  "isSelectorToken token =
     (let trimmed = js_trim token
      in if trimmed = [] then False
         else if trimmed = ''||'' then True
         else case js_index_of (CHR ''='') trimmed of
             Some equalsIdx \<Rightarrow> map_of ALL_KEYS (js_lower (js_trim (take equalsIdx trimmed))) \<noteq> None
           | None \<Rightarrow> map_of ALL_KEYS (js_lower trimmed) \<noteq> None)"

text \<open>\<open>None\<close> is the \<open>null\<close> of the code; a wide escape in the value is outside the model.\<close>

definition detectUnknownSelectorKeyToken :: "string \<Rightarrow> selector_error + (string \<times> string) option" where
  "detectUnknownSelectorKeyToken token =
     (let trimmed = js_trim token
      in case js_index_of (CHR ''='') trimmed of
           None \<Rightarrow> Inr None
         | Some equalsIdx \<Rightarrow>
             let key = js_lower (js_trim (take equalsIdx trimmed));
                 valueRaw = js_trim (drop (Suc equalsIdx) trimmed)
             in if key = [] then Inr None
                else if map_of ALL_KEYS key \<noteq> None then Inr None
                else if valueRaw = [] then Inr None
                else (case unquote valueRaw of
                        None \<Rightarrow> Inl (WideEscape valueRaw)
                      | Some v \<Rightarrow>
                          let value = js_trim v
                          in Inr (if value = [] then None else Some (key, value))))"

fun boundaries_loop :: "string list \<Rightarrow> string list \<Rightarrow> nat list" where
  "boundaries_loop taken [] = []"
| "boundaries_loop taken (token # rest) =
     (if \<not> isSelectorToken token then []
      else let taken' = taken @ [token];
               candidate = js_trim (js_join '' '' taken')
        in (if candidate \<noteq> [] \<and> tryParseSelectorChain candidate \<noteq> None then [length taken'] else []) @
           boundaries_loop taken' rest)"

definition splitSelectorFromArgs ::
    "string list \<Rightarrow> bool \<Rightarrow> (string \<times> string list) option" where
  "splitSelectorFromArgs args preferTrailingValue =
     (let boundaries = boundaries_loop [] args
      in if boundaries = [] then None
         else
           let boundary =
                 (if preferTrailingValue
                  then (case find (\<lambda>b. b < length args) (rev boundaries) of
                          Some b \<Rightarrow> b | None \<Rightarrow> last boundaries)
                  else last boundaries);
               selectorExpression = js_trim (js_join '' '' (take boundary args))
           in if selectorExpression = [] then None
              else Some (selectorExpression, drop boundary args))"


section \<open>Formatting\<close>

text \<open>\<open>JSON.stringify\<close> of a string, which the code uses to quote selector values.\<close>

definition hex_digit :: "nat \<Rightarrow> char" where
  "hex_digit d = (if d < 10 then char_of (48 + d) else char_of (87 + d))"

definition json_escape_char :: "char \<Rightarrow> string" where
  "json_escape_char c =
     (if c = CHR ''\"'' then [backslash, CHR ''\"'']
      else if c = backslash then [backslash, backslash]
      else if c = CHR 0x08 then [backslash, CHR ''b'']
      else if c = CHR 0x09 then [backslash, CHR ''t'']
      else if c = CHR 0x0A then [backslash, CHR ''n'']
      else if c = CHR 0x0C then [backslash, CHR ''f'']
      else if c = CHR 0x0D then [backslash, CHR ''r'']
      else let n = of_char c :: nat
        in if n < 32 then [backslash, CHR ''u'', CHR ''0'', CHR ''0'', hex_digit (n div 16), hex_digit (n mod 16)]
           else [c])"

definition json_escape :: "string \<Rightarrow> string" where
  "json_escape v = concat (map json_escape_char v)"

definition json_quote :: "string \<Rightarrow> string" where
  "json_quote v = CHR ''\"'' # json_escape v @ ''\"''"

fun key_name :: "selector_key \<Rightarrow> string" where
  "key_name KId = ''id''" | "key_name KRole = ''role''" | "key_name KText = ''text''"
| "key_name KLabel = ''label''" | "key_name KValue = ''value''" | "key_name KAppname = ''appname''"
| "key_name KWindowtitle = ''windowtitle''" | "key_name KVisible = ''visible''"
| "key_name KHidden = ''hidden''" | "key_name KEditable = ''editable''"
| "key_name KSelected = ''selected''" | "key_name KFocused = ''focused''"
| "key_name KEnabled = ''enabled''" | "key_name KHittable = ''hittable''"

definition is_text_key :: "selector_key \<Rightarrow> bool" where
  "is_text_key k \<longleftrightarrow> map_of TEXT_KEYS (key_name k) = Some k"

fun wf_term :: "selector_term \<Rightarrow> bool" where
  "wf_term (k, TextValue v) = is_text_key k"
| "wf_term (k, BoolValue b) = (\<not> is_text_key k)"

fun format_value :: "selector_value \<Rightarrow> string" where
  "format_value (TextValue v) = json_quote v"
| "format_value (BoolValue b) = (if b then ''true'' else ''false'')"

definition format_term :: "selector_term \<Rightarrow> string" where
  "format_term t = key_name (fst t) @ CHR ''='' # format_value (snd t)"

definition format_selector :: "selector_term list \<Rightarrow> string" where
  "format_selector ts = js_join '' '' (map format_term ts)"

definition format_chain :: "selector_term list list \<Rightarrow> string" where
  "format_chain ss = js_join '' || '' (map format_selector ss)"

section \<open>Decoding inverts quoting\<close>

definition hex_digit_ok :: "nat \<Rightarrow> bool" where
  "hex_digit_ok d \<longleftrightarrow> is_hex_char (hex_digit d) \<and> hex_val (hex_digit d) = d \<and> hex_digit d \<noteq> backslash \<and>
     \<not> is_quote (hex_digit d)"

lemma hex_digit_facts:
  assumes "d < 16"
  shows "is_hex_char (hex_digit d) \<and> hex_val (hex_digit d) = d \<and> hex_digit d \<noteq> backslash \<and>
    \<not> is_quote (hex_digit d)"
proof -
  have "list_all hex_digit_ok [0..<16]" by code_simp
  then have "\<forall>d \<in> set [0..<16]. hex_digit_ok d" by (simp only: list_all_iff)
  moreover have "d \<in> set [0..<16]" using assms by simp
  ultimately have "hex_digit_ok d" by (rule bspec)
  then show ?thesis unfolding hex_digit_ok_def .
qed

lemma decode_plain: "c \<noteq> backslash \<Longrightarrow> decodeQuotedSelectorValue (c # s) = map_option (Cons c) (decodeQuotedSelectorValue s)"
  by simp

lemma decode_simple:
  "decodeSimpleEscape e = Some r \<Longrightarrow>
   decodeQuotedSelectorValue (backslash # e # s) = map_option (Cons r) (decodeQuotedSelectorValue s)"
  by simp

lemma simple_escapes:
  "decodeSimpleEscape (CHR ''\"'') = Some (CHR ''\"'')" "decodeSimpleEscape backslash = Some backslash"
  "decodeSimpleEscape (CHR ''b'') = Some (CHR 0x08)" "decodeSimpleEscape (CHR ''t'') = Some (CHR 0x09)"
  "decodeSimpleEscape (CHR ''n'') = Some (CHR 0x0A)" "decodeSimpleEscape (CHR ''f'') = Some (CHR 0x0C)"
  "decodeSimpleEscape (CHR ''r'') = Some (CHR 0x0D)" "decodeSimpleEscape (CHR ''u'') = None"
  by code_simp+

lemma decode_unicode:
  assumes "h < 16" and "l < 16"
  shows "decodeQuotedSelectorValue (backslash # CHR ''u'' # CHR ''0'' # CHR ''0'' # hex_digit h # hex_digit l # s) =
    map_option (Cons (char_of (16 * h + l))) (decodeQuotedSelectorValue s)"
proof -
  have "is_hex_char (CHR ''0'')" and "hex_val (CHR ''0'') = 0" by code_simp+
  moreover have "16 * h + l \<le> 255" using assms by linarith
  ultimately show ?thesis
    using assms by (simp add: simple_escapes parse_hex_def hex_digit_facts Let_def)
qed

lemma json_escape_char_cases:
  obtains (plain) "json_escape_char c = [c]" and "c \<noteq> backslash" and "c \<noteq> CHR ''\"''"
  | (simple) e where "json_escape_char c = [backslash, e]" and "decodeSimpleEscape e = Some c"
  | (unicode) h l where "json_escape_char c = [backslash, CHR ''u'', CHR ''0'', CHR ''0'', hex_digit h, hex_digit l]"
      and "h < 16" and "l < 16" and "c = char_of (16 * h + l)"
proof -
  let ?n = "of_char c :: nat"
  consider "c = CHR ''\"''" | "c = backslash" | "c = CHR 0x08" | "c = CHR 0x09" | "c = CHR 0x0A"
    | "c = CHR 0x0C" | "c = CHR 0x0D"
    | "c \<noteq> CHR ''\"''" "c \<noteq> backslash" "c \<noteq> CHR 0x08" "c \<noteq> CHR 0x09" "c \<noteq> CHR 0x0A" "c \<noteq> CHR 0x0C" "c \<noteq> CHR 0x0D"
    by blast
  then show ?thesis
  proof cases
    case 8
    then have eq: "json_escape_char c = (if ?n < 32 then [backslash, CHR ''u'', CHR ''0'', CHR ''0'',
        hex_digit (?n div 16), hex_digit (?n mod 16)] else [c])"
      unfolding json_escape_char_def Let_def by (simp only: if_False)
    show ?thesis
    proof (cases "?n < 32")
      case True
      have "c = char_of (16 * (?n div 16) + ?n mod 16)" by simp
      with eq True show ?thesis
        by (intro unicode [of "?n div 16" "?n mod 16"]) simp_all
    next
      case False
      with eq 8 show ?thesis by (intro plain) simp_all
    qed
  qed (simp_all add: json_escape_char_def simple_escapes simple)
qed

lemma decode_escape_char:
  "decodeQuotedSelectorValue (json_escape_char c @ s) = map_option (Cons c) (decodeQuotedSelectorValue s)"
proof (cases c rule: json_escape_char_cases)
  case plain
  then show ?thesis by simp
next
  case (simple e)
  then show ?thesis by simp
next
  case (unicode h l)
  then show ?thesis by (simp only: append.simps decode_unicode)
qed

lemma decode_escape: "decodeQuotedSelectorValue (json_escape v) = Some v"
  by (induction v) (simp_all add: json_escape_def decode_escape_char del: decodeQuotedSelectorValue.simps(2))

lemma unquote_quote: "unquote (json_quote v) = Some v"
proof -
  have "\<not> is_js_space (CHR ''\"'')" by code_simp
  then have "js_trim (json_quote v) = json_quote v"
    by (intro js_trim_trimmed) (simp add: trimmed_def json_quote_def)
  then show ?thesis
    by (simp add: unquote_def json_quote_def decode_escape Let_def butlast_append)
qed


section \<open>Scanning\<close>

text \<open>
  Both loops treat quotes alike. The interface: a loop with an accumulator, which appends an unescaped
  quote and switches the quote state, appends anything inside quotes, and appends an ordinary
  character outside. Every such loop passes over a formatted term in one go.
\<close>

definition ordinary :: "char \<Rightarrow> bool" where
  "ordinary c \<longleftrightarrow> \<not> is_quote c \<and> c \<noteq> backslash \<and> c \<noteq> CHR ''|'' \<and> \<not> is_js_space c"

locale quote_scanner =
  fixes loop :: "'acc \<Rightarrow> string \<Rightarrow> string \<Rightarrow> string \<Rightarrow> char option \<Rightarrow> 'r"
  assumes loop_quote: "is_quote ch \<Longrightarrow> \<not> isEscapedQuote seen \<Longrightarrow>
      loop acc seen (ch # rest) current q = loop acc (ch # seen) rest (current @ [ch]) (updateQuoteState q ch)"
    and loop_inside: "\<not> (is_quote ch \<and> \<not> isEscapedQuote seen) \<Longrightarrow>
      loop acc seen (ch # rest) current (Some k) = loop acc (ch # seen) rest (current @ [ch]) (Some k)"
    and loop_ordinary: "ordinary ch \<Longrightarrow>
      loop acc seen (ch # rest) current None = loop acc (ch # seen) rest (current @ [ch]) None"
begin

lemma scan_ordinary:
  "list_all ordinary s \<Longrightarrow> loop acc seen (s @ rest) current None = loop acc (rev s @ seen) rest (current @ s) None"
  by (induction s arbitrary: seen current) (simp_all add: loop_ordinary)

lemma scan_escape_char:
  assumes even: "\<not> isEscapedQuote seen"
  shows "loop acc seen (json_escape_char c @ rest) current (Some (CHR ''\"'')) =
      loop acc (rev (json_escape_char c) @ seen) rest (current @ json_escape_char c) (Some (CHR ''\"'')) \<and>
    \<not> isEscapedQuote (rev (json_escape_char c) @ seen)"
proof (cases c rule: json_escape_char_cases)
  case plain
  show ?thesis
  proof (cases "is_quote c")
    case True
    with plain have "c = CHR 0x27" by simp
    with plain even show ?thesis
      by (simp add: loop_quote updateQuoteState_def isEscapedQuote_def)
  next
    case False
    with plain show ?thesis
      by (simp add: loop_inside isEscapedQuote_def)
  qed
next
  case (simple e)
  have esc: "isEscapedQuote (backslash # seen)"
    using even by (simp add: isEscapedQuote_def) arith
  have ne: "\<not> isEscapedQuote (e # backslash # seen)"
    using even by (auto simp: isEscapedQuote_def)
  have "loop acc seen (backslash # e # rest) current (Some (CHR ''\"'')) =
      loop acc (backslash # seen) (e # rest) (current @ [backslash]) (Some (CHR ''\"''))"
    by (simp add: loop_inside)
  also have "\<dots> = loop acc (e # backslash # seen) rest (current @ [backslash, e]) (Some (CHR ''\"''))"
    using esc by (simp add: loop_inside)
  finally show ?thesis
    using simple ne by simp
next
  case (unicode h l)
  have no: "\<not> is_quote (CHR ''u'')" "\<not> is_quote (CHR ''0'')" "\<not> is_quote (hex_digit h)" "\<not> is_quote (hex_digit l)"
    using unicode hex_digit_facts by auto
  have "\<not> isEscapedQuote (hex_digit l # s)" for s
    using unicode hex_digit_facts [of l] by (simp add: isEscapedQuote_def)
  with no show ?thesis
    by (simp add: unicode(1) loop_inside del: de_Morgan_disj)
qed

lemma scan_escape:
  assumes "\<not> isEscapedQuote seen"
  shows "loop acc seen (json_escape v @ rest) current (Some (CHR ''\"'')) =
      loop acc (rev (json_escape v) @ seen) rest (current @ json_escape v) (Some (CHR ''\"'')) \<and>
    \<not> isEscapedQuote (rev (json_escape v) @ seen)"
  using assms
proof (induction v arbitrary: seen current)
  case Nil
  then show ?case by (simp add: json_escape_def)
next
  case (Cons c v)
  from scan_escape_char [OF Cons.prems, of acc c "json_escape v @ rest" current]
    Cons.IH [of "rev (json_escape_char c) @ seen" "current @ json_escape_char c"]
  show ?case by (simp add: json_escape_def)
qed

lemma scan_quoted:
  assumes "\<not> isEscapedQuote seen"
  shows "loop acc seen (json_quote v @ rest) current None =
    loop acc (rev (json_quote v) @ seen) rest (current @ json_quote v) None"
proof -
  have even: "\<not> isEscapedQuote (CHR ''\"'' # seen)" by (simp add: isEscapedQuote_def)
  have "loop acc seen (json_quote v @ rest) current None =
      loop acc (CHR ''\"'' # seen) (json_escape v @ ''\"'' @ rest) (current @ ''\"'') (Some (CHR ''\"''))"
    using assms by (simp add: json_quote_def loop_quote updateQuoteState_def)
  also have "\<dots> = loop acc (rev (json_escape v) @ CHR ''\"'' # seen) (''\"'' @ rest)
      (current @ CHR ''\"'' # json_escape v) (Some (CHR ''\"''))"
    using scan_escape [OF even, of acc v "''\"'' @ rest" "current @ ''\"''"] by simp
  also have "\<dots> = loop acc (rev (json_quote v) @ seen) rest (current @ json_quote v) None"
    using scan_escape [OF even, of acc v "''\"'' @ rest" "current @ ''\"''"]
    by (simp add: loop_quote updateQuoteState_def json_quote_def)
  finally show ?thesis .
qed

lemma scan_term:
  assumes "wf_term t"
  shows "loop acc seen (format_term t @ rest) current None =
    loop acc (rev (format_term t) @ seen) rest (current @ format_term t) None"
proof -
  obtain k v where t: "t = (k, v)" by fastforce
  have key: "list_all ordinary (key_name k @ ''='')"
    by (cases k) (simp_all add: ordinary_def is_js_space_def)
  have "loop acc seen (format_term t @ rest) current None =
      loop acc (rev (key_name k @ ''='') @ seen) (format_value v @ rest) (current @ key_name k @ ''='') None"
    using scan_ordinary [OF key, of acc seen "format_value v @ rest" current] by (simp add: t format_term_def)
  also have "\<dots> = loop acc (rev (format_value v) @ rev (key_name k @ ''='') @ seen) rest
      (current @ (key_name k @ ''='') @ format_value v) None"
  proof (cases v)
    case (TextValue x)
    have "\<not> isEscapedQuote (CHR ''='' # rev (key_name k) @ seen)" by (simp add: isEscapedQuote_def)
    from scan_quoted [OF this, of acc x rest "current @ key_name k @ ''=''"] TextValue show ?thesis by simp
  next
    case (BoolValue b)
    have "list_all ordinary (format_value v)"
      using BoolValue by (cases b) (simp_all add: ordinary_def is_js_space_def)
    from scan_ordinary [OF this, of acc "rev (key_name k @ ''='') @ seen" rest "current @ key_name k @ ''=''"]
    show ?thesis by simp
  qed
  finally show ?thesis by (simp add: t format_term_def)
qed

end

interpretation split: quote_scanner
  "\<lambda>acc seen rest current q. split_loop (fst acc) seen rest current q (snd acc)"
  by unfold_locales (auto simp: ordinary_def)

interpretation token: quote_scanner
  "\<lambda>acc seen rest current q. token_loop (fst acc) seen rest current q (snd acc)"
  by unfold_locales (auto simp: ordinary_def)


section \<open>Parsing inverts formatting\<close>

lemma key_ordinary: "list_all ordinary (key_name k)" "key_name k \<noteq> []" "CHR ''='' \<notin> set (key_name k)"
  "js_lower (key_name k) = key_name k" "map_of ALL_KEYS (key_name k) = Some k"
  "map_of BOOLEAN_KEYS (key_name k) = (if is_text_key k then None else Some k)"
  by (cases k; simp add: ordinary_def is_js_space_def js_lower_def js_lower_char_def ALL_KEYS_def
      TEXT_KEYS_def BOOLEAN_KEYS_def is_text_key_def)+

lemma ordinary_not_space: "ordinary c \<Longrightarrow> \<not> is_js_space c"
  by (simp add: ordinary_def)

lemma key_trim: "js_trim (key_name k) = key_name k"
  by (rule js_trim_trimmed, rule trimmed_no_space)
    (use key_ordinary(1) [of k] in \<open>auto simp: list_all_iff ordinary_not_space\<close>)

lemma value_trim: "js_trim (format_value v) = format_value v" "format_value v \<noteq> []"
proof -
  show "js_trim (format_value v) = format_value v"
    by (rule js_trim_trimmed, cases v) (auto simp: json_quote_def trimmed_def is_js_space_def)
  show "format_value v \<noteq> []"
    by (cases v) (auto simp: json_quote_def)
qed

lemma trimmed_append:
  "trimmed s \<Longrightarrow> trimmed u \<Longrightarrow> s \<noteq> [] \<Longrightarrow> u \<noteq> [] \<Longrightarrow> trimmed (s @ t @ u)"
  by (simp add: trimmed_def)

lemma format_term_trimmed: "trimmed (format_term t)" "format_term t \<noteq> []"
proof -
  have "trimmed (key_name (fst t))" and "trimmed (format_value (snd t))"
    by (metis key_trim trimmed_js_trim, metis value_trim(1) trimmed_js_trim)
  then show "trimmed (format_term t)" and "format_term t \<noteq> []"
    using trimmed_append [of "key_name (fst t)" "format_value (snd t)" "''=''"] key_ordinary(2) value_trim(2)
    by (simp_all add: format_term_def)
qed

lemma parse_format_term: "wf_term t \<Longrightarrow> parseTerm (format_term t) = Inr t"
proof -
  assume wf: "wf_term t"
  obtain k v where t: "t = (k, v)" by fastforce
  have trim: "js_trim (format_term t) = format_term t"
    by (rule js_trim_trimmed) (rule format_term_trimmed)
  have idx: "js_index_of (CHR ''='') (format_term t) = Some (length (key_name k))"
    using js_index_of_append [OF key_ordinary(3)] by (simp add: format_term_def t)
  have parts: "take (length (key_name k)) (format_term t) = key_name k"
    "drop (Suc (length (key_name k))) (format_term t) = format_value v"
    by (simp_all add: format_term_def t)
  have eq: "parseTerm (format_term t) =
      (if is_text_key k
       then (case unquote (format_value v) of None \<Rightarrow> Inl (WideEscape (format_value v))
             | Some x \<Rightarrow> Inr (k, TextValue x))
       else rbind (parseBoolean (format_value v)) (\<lambda>b. case b of
              None \<Rightarrow> Inl (InvalidBoolean k (format_value v)) | Some x \<Rightarrow> Inr (k, BoolValue x)))"
    by (simp add: parseTerm_def trim idx parts key_trim value_trim key_ordinary(4-6) format_term_trimmed(2) Let_def)
  show ?thesis
  proof (cases v)
    case (TextValue x)
    then show ?thesis
      using wf unquote_quote [of x] by (simp add: eq) (simp add: t)
  next
    case (BoolValue b)
    have "parseBoolean ''true'' = Inr (Some True)" and "parseBoolean ''false'' = Inr (Some False)"
      by code_simp+
    then have "parseBoolean (format_value (BoolValue b)) = Inr (Some b)"
      by simp
    then show ?thesis
      using BoolValue wf by (simp only: eq) (simp add: t)
  qed
qed


lemma js_join_Cons: "js_join sep (x # y # ys) = x @ sep @ js_join sep (y # ys)"
  by (simp add: js_join_def)

lemma js_join_single [simp]: "js_join sep [x] = x"
  by (simp add: js_join_def)

lemma format_selector_trimmed:
  assumes "ts \<noteq> []" shows "trimmed (format_selector ts) \<and> format_selector ts \<noteq> []"
  using assms
proof (induction ts rule: induct_list012)
  case 1
  then show ?case by simp
next
  case (2 t)
  then show ?case by (simp add: format_selector_def format_term_trimmed)
next
  case (3 t u ts)
  then have "trimmed (format_selector (u # ts))" and "format_selector (u # ts) \<noteq> []" by simp_all
  then show ?case
    using trimmed_append [of "format_term t" "format_selector (u # ts)" "'' ''"] format_term_trimmed [of t]
    by (simp add: format_selector_def js_join_Cons)
qed

lemma token_run:
  "ts \<noteq> [] \<Longrightarrow> list_all wf_term ts \<Longrightarrow>
   token_loop segment seen (format_selector ts) [] None tokens = Inr (tokens @ map format_term ts)"
proof (induction ts arbitrary: seen tokens rule: induct_list012)
  case 1
  then show ?case by simp
next
  case (2 t)
  then show ?case
    using token.scan_term [of t "(segment, tokens)" seen "[]" "[]"]
    by (simp add: format_selector_def push_token_def js_trim_trimmed format_term_trimmed)
next
  case (3 t u ts)
  have "\<not> is_quote (CHR '' '')" and "is_js_space (CHR '' '')" by (simp_all add: is_js_space_def)
  then have "token_loop segment seen (format_selector (t # u # ts)) [] None tokens =
      token_loop segment (CHR '' '' # rev (format_term t) @ seen) (format_selector (u # ts)) [] None
        (tokens @ [format_term t])"
    using 3 token.scan_term [of t "(segment, tokens)" seen "'' '' @ format_selector (u # ts)" "[]"]
    by (simp add: format_selector_def js_join_Cons push_token_def js_trim_trimmed format_term_trimmed)
  with 3 show ?case by simp
qed

lemma split_selector:
  "ts \<noteq> [] \<Longrightarrow> list_all wf_term ts \<Longrightarrow>
   split_loop e seen (format_selector ts @ rest) current None segments =
     split_loop e (rev (format_selector ts) @ seen) rest (current @ format_selector ts) None segments"
proof (induction ts arbitrary: seen current rule: induct_list012)
  case 1
  then show ?case by simp
next
  case (2 t)
  then show ?case
    using split.scan_term [of t "(e, segments)" seen rest current]
    by (simp add: format_selector_def)
next
  case (3 t u ts)
  have "split_loop e seen (format_selector (t # u # ts) @ rest) current None segments =
      split_loop e (rev (format_term t) @ seen) (CHR '' '' # format_selector (u # ts) @ rest)
        (current @ format_term t) None segments"
    using 3 split.scan_term [of t "(e, segments)" seen "'' '' @ format_selector (u # ts) @ rest" current]
    by (simp add: format_selector_def js_join_Cons del: split_loop.simps)
  also have "\<dots> = split_loop e (CHR '' '' # rev (format_term t) @ seen) (format_selector (u # ts) @ rest)
        (current @ format_term t @ '' '') None segments"
    by (subst split_loop.simps) simp
  also have "\<dots> = split_loop e (rev (format_selector (t # u # ts)) @ seen) rest
      (current @ format_selector (t # u # ts)) None segments"
    using 3 by (simp add: format_selector_def js_join_Cons del: split_loop.simps)
  finally show ?case .
qed

lemma js_trim_pad:
  assumes "list_all is_js_space a" and "list_all is_js_space b" and "trimmed s" and "s \<noteq> []"
  shows "js_trim (a @ s @ b) = s"
proof -
  have "dropWhile is_js_space (a @ s @ b) = dropWhile is_js_space (s @ b)"
    using assms(1) by (simp add: dropWhile_append2 list_all_iff)
  also have "\<dots> = s @ b"
    using assms(3,4) by (cases s) (simp_all add: trimmed_def)
  finally have "dropWhile is_js_space (a @ s @ b) = s @ b" .
  moreover have "dropWhile is_js_space (rev b @ rev s) = dropWhile is_js_space (rev s)"
    using assms(2) by (intro dropWhile_append2) (simp add: list_all_iff)
  moreover have "dropWhile is_js_space (rev s) = rev s"
    using assms(3,4) by (simp add: dropWhile_eq_self_iff hd_rev trimmed_def)
  ultimately show ?thesis
    by (simp add: js_trim_def js_trim_start_def)
qed

lemma split_run:
  "ss \<noteq> [] \<Longrightarrow> list_all (\<lambda>ts. ts \<noteq> [] \<and> list_all wf_term ts) ss \<Longrightarrow> list_all is_js_space pad \<Longrightarrow>
   split_loop e seen (format_chain ss) pad None segments = Inr (segments @ map format_selector ss)"
proof (induction ss arbitrary: seen pad segments rule: induct_list012)
  case 1
  then show ?case by simp
next
  case (2 ts)
  then have "js_trim (pad @ format_selector ts) = format_selector ts"
    using js_trim_pad [of pad "[]" "format_selector ts"] format_selector_trimmed [of ts] by simp
  with 2 show ?case
    using split_selector [of ts e seen "[]" pad segments] format_selector_trimmed [of ts]
    by (simp add: format_chain_def)
next
  case (3 ts us ss)
  have sp: "list_all is_js_space '' ''" by (simp add: is_js_space_def)
  have ok: "ts \<noteq> []" "list_all wf_term ts" "trimmed (format_selector ts)" "format_selector ts \<noteq> []"
    using 3 format_selector_trimmed [of ts] by simp_all
  have trim: "js_trim (pad @ format_selector ts @ '' '') = format_selector ts"
    by (rule js_trim_pad [OF 3(5) sp ok(3,4)])
  have "split_loop e seen (format_chain (ts # us # ss)) pad None segments =
      split_loop e (rev (format_selector ts) @ seen) ('' || '' @ format_chain (us # ss)) (pad @ format_selector ts) None segments"
    using split_selector [OF ok(1,2), of e seen "'' || '' @ format_chain (us # ss)" pad segments]
    by (simp add: format_chain_def js_join_Cons del: split_loop.simps)
  also have "\<dots> = split_loop e ('' || '' @ rev (format_selector ts) @ seen) (format_chain (us # ss)) '' '' None
      (segments @ [format_selector ts])"
    using trim ok(4) by (simp add: Let_def)
  also have "\<dots> = Inr (segments @ [format_selector ts] @ map format_selector (us # ss))"
    using 3(2) [of "'' ''"] 3(4) sp by (simp del: split_loop.simps)
  finally show ?case by simp
qed


lemma tokenize_selector:
  "ts \<noteq> [] \<Longrightarrow> list_all wf_term ts \<Longrightarrow> tokenize (format_selector ts) = Inr (map format_term ts)"
  unfolding tokenize_def using token_run [of ts "format_selector ts" "[]" "[]"] by simp

lemma rmap_map_Inr:
  "(\<And>x. x \<in> set xs \<Longrightarrow> f (g x) = Inr (h x)) \<Longrightarrow> rmap f (map g xs) = Inr (map h xs)"
  by (induction xs) simp_all

lemma parse_format_selector:
  assumes "ts \<noteq> []" and "list_all wf_term ts"
  shows "parseSelector (format_selector ts) = Inr \<lparr>sel_raw = format_selector ts, sel_terms = ts\<rparr>"
proof -
  have "rmap parseTerm (map format_term ts) = Inr (map (\<lambda>t. t) ts)"
    using assms(2) by (intro rmap_map_Inr parse_format_term) (simp add: list_all_iff)
  then show ?thesis
    using assms format_selector_trimmed [of ts]
    by (simp add: parseSelector_def js_trim_trimmed tokenize_selector Let_def)
qed

lemma format_chain_trimmed:
  assumes "ss \<noteq> []" and "list_all (\<lambda>ts. ts \<noteq> []) ss"
  shows "trimmed (format_chain ss) \<and> format_chain ss \<noteq> []"
  using assms
proof (induction ss rule: induct_list012)
  case 1
  then show ?case by simp
next
  case (2 ts)
  then show ?case using format_selector_trimmed [of ts] by (simp add: format_chain_def)
next
  case (3 ts us ss)
  then have "trimmed (format_chain (us # ss))" and "format_chain (us # ss) \<noteq> []" by simp_all
  with 3 show ?case
    using trimmed_append [of "format_selector ts" "format_chain (us # ss)" "'' || ''"]
      format_selector_trimmed [of ts]
    by (simp add: format_chain_def js_join_Cons)
qed

lemma chain_roundtrip:
  assumes "ss \<noteq> []" and "list_all (\<lambda>ts. ts \<noteq> [] \<and> list_all wf_term ts) ss"
  shows "parseSelectorChain (format_chain ss) =
    Inr \<lparr>ch_raw = format_chain ss,
         ch_selectors = map (\<lambda>ts. \<lparr>sel_raw = format_selector ts, sel_terms = ts\<rparr>) ss\<rparr>"
proof -
  have ne: "list_all (\<lambda>ts. ts \<noteq> []) ss" using assms(2) by (simp add: list_all_iff)
  have segments: "splitByFallback (format_chain ss) = Inr (map format_selector ss)"
    unfolding splitByFallback_def using split_run [OF assms, of "[]" "format_chain ss" "[]" "[]"] by simp
  have selectors: "rmap parseSelector (map format_selector ss) =
      Inr (map (\<lambda>ts. \<lparr>sel_raw = format_selector ts, sel_terms = ts\<rparr>) ss)"
    using assms(2) by (intro rmap_map_Inr parse_format_selector) (simp_all add: list_all_iff)
  show ?thesis
    using format_chain_trimmed [OF assms(1) ne] segments selectors assms(1)
    by (simp add: parseSelectorChain_def js_trim_trimmed Let_def)
qed

text \<open>C34. Selectors survive printing: an expression written from any list of alternatives, each a list
  of terms with its values quoted by \<open>JSON.stringify\<close> (whatever quotes, backslashes, separators or
  control characters they contain), parses back to exactly those alternatives and terms.\<close>

theorem selector_chain_roundtrip:
  assumes "ss \<noteq> []" and "list_all (\<lambda>ts. ts \<noteq> [] \<and> list_all wf_term ts) ss"
  shows "parseSelectorChain (format_chain ss) =
    Inr \<lparr>ch_raw = format_chain ss,
         ch_selectors = map (\<lambda>ts. \<lparr>sel_raw = format_selector ts, sel_terms = ts\<rparr>) ss\<rparr>"
  using assms by (rule chain_roundtrip)

theorem selector_chain_roundtrip_witness:
  "parseSelectorChain (format_chain [[(KLabel, TextValue ''a \" || b''), (KVisible, BoolValue True)], [(KId, TextValue [])]]) =
     Inr \<lparr>ch_raw = ''label=\"a '' @ [backslash] @ ''\" || b\" visible=true || id=\"\"'',
       ch_selectors =
         [\<lparr>sel_raw = ''label=\"a '' @ [backslash] @ ''\" || b\" visible=true'',
           sel_terms = [(KLabel, TextValue ''a \" || b''), (KVisible, BoolValue True)]\<rparr>,
          \<lparr>sel_raw = ''id=\"\"'', sel_terms = [(KId, TextValue [])]\<rparr>]\<rparr>"
proof -
  let ?ss = "[[(KLabel, TextValue ''a \" || b''), (KVisible, BoolValue True)], [(KId, TextValue [])]]"
  have "format_chain ?ss = ''label=\"a '' @ [backslash] @ ''\" || b\" visible=true || id=\"\"''"
    and "map format_selector ?ss = [''label=\"a '' @ [backslash] @ ''\" || b\" visible=true'', ''id=\"\"'']"
    by code_simp+
  moreover have "list_all (\<lambda>ts. ts \<noteq> [] \<and> list_all wf_term ts) ?ss" by code_simp
  ultimately show ?thesis
    using selector_chain_roundtrip [of ?ss] by simp
qed


section \<open>Selectors on the command line\<close>

lemma boundaries_loop_sound:
  "b \<in> set (boundaries_loop taken args) \<Longrightarrow>
   length taken < b \<and> b \<le> length taken + length args \<and>
   list_all isSelectorToken (take (b - length taken) args) \<and>
   js_trim (js_join '' '' (take b (taken @ args))) \<noteq> [] \<and>
   tryParseSelectorChain (js_trim (js_join '' '' (take b (taken @ args)))) \<noteq> None"
proof (induction taken args rule: boundaries_loop.induct)
  case (1 taken)
  then show ?case by simp
next
  case (2 taken token rest)
  have tok: "isSelectorToken token" using 2(2) by (simp split: if_splits)
  let ?c = "js_trim (js_join '' '' (taken @ [token]))"
  from 2(2) tok consider (here) "b = Suc (length taken)" "?c \<noteq> []" "tryParseSelectorChain ?c \<noteq> None"
    | (later) "b \<in> set (boundaries_loop (taken @ [token]) rest)"
    by (auto simp: Let_def split: if_splits)
  then show ?case
  proof cases
    case here
    with tok show ?thesis by simp
  next
    case later
    from 2(1) [OF _ refl refl later] tok show ?thesis
      by (auto simp: take_Cons' Suc_diff_le)
  qed
qed

lemma boundaries_loop_complete:
  "length taken < b \<Longrightarrow> b \<le> length taken + length args \<Longrightarrow>
   list_all isSelectorToken (take (b - length taken) args) \<Longrightarrow>
   js_trim (js_join '' '' (take b (taken @ args))) \<noteq> [] \<Longrightarrow>
   tryParseSelectorChain (js_trim (js_join '' '' (take b (taken @ args)))) \<noteq> None \<Longrightarrow>
   b \<in> set (boundaries_loop taken args)"
proof (induction taken args rule: boundaries_loop.induct)
  case (1 taken)
  then show ?case by simp
next
  case (2 taken token rest)
  have tok: "isSelectorToken token"
    using 2(2,4) by (cases "b - length taken") simp_all
  show ?case
  proof (cases "b = Suc (length taken)")
    case True
    with 2(5,6) tok show ?thesis by (simp add: Let_def)
  next
    case False
    with 2(2) have lt: "length (taken @ [token]) < b" by simp
    then have "b - length taken = Suc (b - Suc (length taken))" by simp
    then have "list_all isSelectorToken (take (b - length (taken @ [token])) rest)"
      using 2(4) by simp
    then have "b \<in> set (boundaries_loop (taken @ [token]) rest)"
      using 2(1) [OF _ refl refl lt] 2(3,5,6) tok by simp
    with tok show ?thesis by (simp add: Let_def)
  qed
qed

lemma boundaries_loop_sorted: "sorted_wrt (<) (boundaries_loop taken args)"
proof (induction taken args rule: boundaries_loop.induct)
  case (1 taken)
  then show ?case by simp
next
  case (2 taken token rest)
  have "length (taken @ [token]) < b" if "b \<in> set (boundaries_loop (taken @ [token]) rest)" for b
    using boundaries_loop_sound [OF that] by simp
  with 2 show ?case by (auto simp: Let_def sorted_wrt_append)
qed

text \<open>A prefix of the arguments that is a selector: all of it selector tokens, and the joined text parses.\<close>

definition splits_at :: "string list \<Rightarrow> nat \<Rightarrow> bool" where
  "splits_at args n \<longleftrightarrow> 0 < n \<and> n \<le> length args \<and> list_all isSelectorToken (take n args) \<and>
     js_trim (js_join '' '' (take n args)) \<noteq> [] \<and>
     tryParseSelectorChain (js_trim (js_join '' '' (take n args))) \<noteq> None"

lemma boundaries_splits_at: "b \<in> set (boundaries_loop [] args) \<longleftrightarrow> splits_at args b"
  using boundaries_loop_sound [of b "[]" args] boundaries_loop_complete [of "[]" b args]
  by (auto simp: splits_at_def)

lemma sorted_last_max: "sorted_wrt (<) (bs :: nat list) \<Longrightarrow> b \<in> set bs \<Longrightarrow> b \<le> last bs"
  by (induction bs rule: rev_induct) (auto simp: sorted_wrt_append)

definition chosen_boundary :: "nat list \<Rightarrow> nat \<Rightarrow> bool \<Rightarrow> nat" where
  "chosen_boundary boundaries len prefer =
     (if prefer then (case find (\<lambda>b. b < len) (rev boundaries) of Some b \<Rightarrow> b | None \<Rightarrow> last boundaries)
      else last boundaries)"

lemma find_rev_max:
  "sorted_wrt (<) (bs :: nat list) \<Longrightarrow> find (\<lambda>b. b < len) (rev bs) = Some n \<Longrightarrow>
   n \<in> set bs \<and> n < len \<and> (\<forall>m \<in> set bs. m \<le> n \<or> len \<le> m)"
  by (induction bs rule: rev_induct) (auto simp: sorted_wrt_append less_le_not_le split: if_splits)

lemma chosen_boundary_iff:
  assumes "sorted_wrt (<) bs" and "bs \<noteq> []" and "\<forall>b \<in> set bs. b \<le> len"
  shows "chosen_boundary bs len prefer = n \<longleftrightarrow>
    n \<in> set bs \<and> (\<forall>m \<in> set bs. m \<le> n \<or> prefer \<and> m = len) \<and>
    (prefer \<and> n = len \<longrightarrow> (\<forall>m \<in> set bs. m = len))"
proof -
  have last: "last bs \<in> set bs" "\<forall>m \<in> set bs. m \<le> last bs"
    using assms sorted_last_max by auto
  show ?thesis
  proof (cases "prefer \<and> find (\<lambda>b. b < len) (rev bs) \<noteq> None")
    case True
    then obtain k where k: "find (\<lambda>b. b < len) (rev bs) = Some k" by auto
    note max = find_rev_max [OF assms(1) k]
    have chosen: "chosen_boundary bs len prefer = k" using True k by (simp add: chosen_boundary_def)
    show ?thesis
    proof
      assume "chosen_boundary bs len prefer = n"
      then show "n \<in> set bs \<and> (\<forall>m \<in> set bs. m \<le> n \<or> prefer \<and> m = len) \<and>
          (prefer \<and> n = len \<longrightarrow> (\<forall>m \<in> set bs. m = len))"
        using chosen max assms(3) True by (auto simp: le_antisym)
    next
      assume r: "n \<in> set bs \<and> (\<forall>m \<in> set bs. m \<le> n \<or> prefer \<and> m = len) \<and>
          (prefer \<and> n = len \<longrightarrow> (\<forall>m \<in> set bs. m = len))"
      then have "n \<noteq> len" using max True by auto
      with r max assms(3) have "n = k" by (metis le_antisym nat_less_le)
      with chosen show "chosen_boundary bs len prefer = n" by simp
    qed
  next
    case False
    then have chosen: "chosen_boundary bs len prefer = last bs"
      by (auto simp: chosen_boundary_def)
    have none: "prefer \<Longrightarrow> \<forall>m \<in> set bs. m = len"
      using False assms(3) by (auto simp: find_None_iff le_less)
    show ?thesis
    proof
      assume "chosen_boundary bs len prefer = n"
      then have "n = last bs" using chosen by simp
      with last none show "n \<in> set bs \<and> (\<forall>m \<in> set bs. m \<le> n \<or> prefer \<and> m = len) \<and>
          (prefer \<and> n = len \<longrightarrow> (\<forall>m \<in> set bs. m = len))"
        by blast
    next
      assume r: "n \<in> set bs \<and> (\<forall>m \<in> set bs. m \<le> n \<or> prefer \<and> m = len) \<and>
          (prefer \<and> n = len \<longrightarrow> (\<forall>m \<in> set bs. m = len))"
      have "last bs = n"
      proof (cases "prefer")
        case True
        from none [OF True] r last(1) show ?thesis by metis
      next
        case False
        with r last show ?thesis by (metis le_antisym)
      qed
      with chosen show "chosen_boundary bs len prefer = n" by simp
    qed
  qed
qed

lemma splitSelectorFromArgs_chosen:
  "splitSelectorFromArgs args prefer =
     (let bs = boundaries_loop [] args; n = chosen_boundary bs (length args) prefer
      in if bs = [] then None else Some (js_trim (js_join '' '' (take n args)), drop n args))"
proof (cases "boundaries_loop [] args = []")
  case True
  then show ?thesis by (simp add: splitSelectorFromArgs_def)
next
  case False
  let ?n = "chosen_boundary (boundaries_loop [] args) (length args) prefer"
  have "\<forall>b \<in> set (boundaries_loop [] args). b \<le> length args"
    by (simp add: boundaries_splits_at splits_at_def)
  then have "?n \<in> set (boundaries_loop [] args)"
    using chosen_boundary_iff [OF boundaries_loop_sorted False, of "length args" "prefer" ?n] by simp
  then have "js_trim (js_join '' '' (take ?n args)) \<noteq> []"
    by (simp add: boundaries_splits_at splits_at_def)
  with False show ?thesis
    by (simp add: splitSelectorFromArgs_def chosen_boundary_def Let_def)
qed

text \<open>Splitting the arguments of a command takes the longest prefix that is a selector, made of
  selector tokens only and parsing as a whole, and leaves the others as they were; when a trailing
  value is preferred, all the arguments are taken only if no shorter prefix is a selector. There is no
  split exactly when no prefix is a selector.\<close>

lemma splitSelectorFromArgs_longest:
  "splitSelectorFromArgs args prefer = Some (expression, rest) \<longleftrightarrow>
     (\<exists>n. splits_at args n \<and> expression = js_trim (js_join '' '' (take n args)) \<and> rest = drop n args \<and>
        (\<forall>m. splits_at args m \<longrightarrow> m \<le> n \<or> prefer \<and> m = length args) \<and>
        (prefer \<and> n = length args \<longrightarrow> (\<forall>m. splits_at args m \<longrightarrow> m = length args)))"
proof (cases "boundaries_loop [] args = []")
  case True
  then have "\<not> splits_at args n" for n
    using boundaries_splits_at [of n args] by simp
  with True show ?thesis by (simp add: splitSelectorFromArgs_chosen)
next
  case False
  have "\<forall>b \<in> set (boundaries_loop [] args). b \<le> length args"
    by (simp add: boundaries_splits_at splits_at_def)
  note chosen = chosen_boundary_iff [OF boundaries_loop_sorted False this, of "prefer"]
  let ?n = "chosen_boundary (boundaries_loop [] args) (length args) prefer"
  have at: "?n = n \<longleftrightarrow> splits_at args n \<and> (\<forall>m. splits_at args m \<longrightarrow> m \<le> n \<or> prefer \<and> m = length args) \<and>
      (prefer \<and> n = length args \<longrightarrow> (\<forall>m. splits_at args m \<longrightarrow> m = length args))" for n
    using chosen [of n] unfolding Ball_def boundaries_splits_at .
  have "splitSelectorFromArgs args prefer = Some (js_trim (js_join '' '' (take ?n args)), drop ?n args)"
    using False by (simp add: splitSelectorFromArgs_chosen Let_def)
  then have "splitSelectorFromArgs args prefer = Some (expression, rest) \<longleftrightarrow>
      (\<exists>n. ?n = n \<and> expression = js_trim (js_join '' '' (take n args)) \<and> rest = drop n args)"
    by auto
  also have "\<dots> = (\<exists>n. splits_at args n \<and> expression = js_trim (js_join '' '' (take n args)) \<and> rest = drop n args \<and>
        (\<forall>m. splits_at args m \<longrightarrow> m \<le> n \<or> prefer \<and> m = length args) \<and>
        (prefer \<and> n = length args \<longrightarrow> (\<forall>m. splits_at args m \<longrightarrow> m = length args)))"
    unfolding at by blast
  finally show ?thesis .
qed

lemma splitSelectorFromArgs_longest_example:
  "splitSelectorFromArgs [''label=a'', ''visible'', ''text''] True = Some (''label=a visible'', [''text'']) \<and>
   splits_at [''label=a'', ''visible'', ''text''] 2"
proof -
  have "splitSelectorFromArgs [''label=a'', ''visible'', ''text''] True = Some (''label=a visible'', [''text''])"
    by code_simp
  with splitSelectorFromArgs_longest [of "[''label=a'', ''visible'', ''text'']" True "''label=a visible''" "[''text'']"]
  obtain n where "splits_at [''label=a'', ''visible'', ''text''] n" and "[''text''] = drop n [''label=a'', ''visible'', ''text'']"
    and "splitSelectorFromArgs [''label=a'', ''visible'', ''text''] True = Some (''label=a visible'', [''text''])"
    by blast
  moreover from this(2) have "length [''text''] = length (drop n [''label=a'', ''visible'', ''text''])" by (rule arg_cong)
  then have "n = 2" by simp
  ultimately show ?thesis by simp
qed

end
