(* ===== verification/AdTokens.thy ===== *)
theory AdTokens
  imports Snapshots SelectorSyntax
begin

text \<open>
  Tokens of recorded scripts: the tokenizer of \<^verbatim>\<open>packages/ad-script/src/internal/script.ts\<close> and the
  formatting of arguments of \<^verbatim>\<open>packages/ad-script/src/internal/script-utils.ts\<close>, with the parts of
  \<open>JSON.parse\<close> and \<open>Number\<close> they use.

  \<open>Number\<close> of a string is an exact rational: decimal literals whose value is not a double are outside
  the model.
\<close>

section \<open>String literals\<close>

text \<open>\<open>JSON.parse\<close> of a string literal, given the text between the quotes. A code unit above 255 is an
  explicit failure of the model, but not when the literal is refused anyway.\<close>

datatype json_text = JsonText string | JsonInvalid | JsonWide

fun json_cons :: "char \<Rightarrow> json_text \<Rightarrow> json_text" where
  "json_cons c (JsonText s) = JsonText (c # s)"
| "json_cons c JsonInvalid = JsonInvalid"
| "json_cons c JsonWide = JsonWide"

definition json_simple_escape :: "char \<Rightarrow> char option" where
  "json_simple_escape e = (if e = CHR 0x27 then None else decodeSimpleEscape e)"

function json_parse_body :: "string \<Rightarrow> json_text" where
  "json_parse_body [] = JsonText []"
| "json_parse_body (c # s) =
     (if c = backslash
      then (case s of
              [] \<Rightarrow> JsonInvalid
            | e # s' \<Rightarrow>
                (case json_simple_escape e of
                   Some r \<Rightarrow> json_cons r (json_parse_body s')
                 | None \<Rightarrow>
                     if e = CHR ''u'' \<and> length (take 4 s') = 4 \<and> list_all is_hex_char (take 4 s')
                     then (let n = parse_hex (take 4 s'); rest = json_parse_body (drop 4 s')
                           in if n \<le> 255 then json_cons (char_of n) rest
                              else if rest = JsonInvalid then JsonInvalid else JsonWide)
                     else JsonInvalid))
      else if c = CHR ''\"'' \<or> of_char c < (32::nat) then JsonInvalid
      else json_cons c (json_parse_body s))"
  by pat_completeness auto
termination
  by (relation "measure length") auto

section \<open>Tokens\<close>

datatype script_error =
    InvalidScriptLine string
  | InvalidQuotedValue string string
  | WideQuotedValue string

text \<open>The distance to the closing quote.\<close>

fun closing_quote :: "bool \<Rightarrow> string \<Rightarrow> nat option" where
  "closing_quote escaped [] = None"
| "closing_quote escaped (c # s) =
     (if c = CHR ''\"'' \<and> \<not> escaped then Some 0
      else if escaped then map_option Suc (closing_quote False s)
      else map_option Suc (closing_quote (c = backslash) s))"

definition readQuotedReplayToken :: "string \<Rightarrow> string \<Rightarrow> script_error + string \<times> string" where
  "readQuotedReplayToken line body =
     (case closing_quote False body of
        None \<Rightarrow> Inl (InvalidScriptLine line)
      | Some n \<Rightarrow>
          (let literal = CHR ''\"'' # take n body @ ''\"''
           in case json_parse_body (take n body) of
                JsonText v \<Rightarrow> Inr (v, drop (Suc n) body)
              | JsonInvalid \<Rightarrow> Inl (InvalidQuotedValue literal line)
              | JsonWide \<Rightarrow> Inl (WideQuotedValue literal)))"

definition readBareReplayToken :: "string \<Rightarrow> string \<times> string" where
  "readBareReplayToken s = (let v = takeWhile (\<lambda>c. \<not> is_js_space c) s in (v, drop (length v) s))"

definition skipReplayWhitespace :: "string \<Rightarrow> string" where
  "skipReplayWhitespace s = dropWhile is_js_space s"

definition readReplayToken :: "string \<Rightarrow> string \<Rightarrow> script_error + string \<times> string" where
  "readReplayToken line s =
     (if take 1 s = ''\"'' then readQuotedReplayToken line (tl s) else Inr (readBareReplayToken s))"

lemma readReplayToken_shorter:
  assumes "skipReplayWhitespace s = t" "t \<noteq> []" "readReplayToken line t = Inr (v, rest)"
  shows "length rest < length s"
proof -
  from assms(2) obtain c body where t: "t = c # body" by (cases t) auto
  have "length (c # body) \<le> length s"
    using length_dropWhile_le [of is_js_space s] assms(1) by (simp add: skipReplayWhitespace_def t)
  moreover have "\<not> is_js_space c"
    using assms(1) dropWhile_no_hd [of is_js_space s] by (simp add: skipReplayWhitespace_def t)
  moreover have "length rest \<le> length body" if "readQuotedReplayToken line body = Inr (v, rest)"
    using that by (auto simp: readQuotedReplayToken_def Let_def split: option.splits json_text.splits)
  ultimately show ?thesis
    using assms(3)
    by (cases "c = CHR ''\"''") (auto simp: t readReplayToken_def readBareReplayToken_def Let_def)
qed

text \<open>The scan from a cursor is a scan of the rest of the line; the whole line is kept for the errors.\<close>

function tokenize_replay_loop :: "string \<Rightarrow> string \<Rightarrow> script_error + string list" where
  "tokenize_replay_loop line s =
     (let t = skipReplayWhitespace s
      in if t = [] then Inr []
         else (case readReplayToken line t of
                 Inl e \<Rightarrow> Inl e
               | Inr (v, rest) \<Rightarrow>
                   (case tokenize_replay_loop line rest of Inl e \<Rightarrow> Inl e | Inr vs \<Rightarrow> Inr (v # vs))))"
  by pat_completeness auto
termination
  by (relation "measure (\<lambda>(_, s). length s)") (auto intro: readReplayToken_shorter)

declare tokenize_replay_loop.simps [simp del]

definition tokenizeReplayLine :: "string \<Rightarrow> script_error + string list" where
  "tokenizeReplayLine line = tokenize_replay_loop line line"

section \<open>Numbers\<close>

datatype js_num = NaN | Infinite bool | Finite rat

definition digits_val :: "nat \<Rightarrow> string \<Rightarrow> nat" where
  "digits_val base s = foldl (\<lambda>a c. base * a + hex_val c) 0 s"

definition is_based :: "string \<Rightarrow> (char \<Rightarrow> bool) \<Rightarrow> string \<Rightarrow> bool" where
  "is_based mark digit s \<longleftrightarrow> js_lower (take 2 s) = mark \<and> drop 2 s \<noteq> [] \<and> list_all digit (drop 2 s)"

text \<open>An exponent: \<open>None\<close> when the text is not one.\<close>

definition exponent_of :: "string \<Rightarrow> int option" where
  "exponent_of s =
     (if s = [] then Some 0
      else if hd s \<noteq> CHR ''e'' \<and> hd s \<noteq> CHR ''E'' then None
      else let t = tl s;
               u = (if take 1 t = ''+'' \<or> take 1 t = ''-'' then drop 1 t else t)
           in if u = [] \<or> \<not> list_all is_digit_char u then None
              else Some (if take 1 t = ''-'' then - int (digits_val 10 u) else int (digits_val 10 u)))"

definition power_of_ten :: "int \<Rightarrow> rat" where
  "power_of_ten e = (if 0 \<le> e then 10 ^ nat e else 1 / 10 ^ nat (- e))"

definition decimal_of :: "string \<Rightarrow> rat option" where
  "decimal_of s =
     (let whole = takeWhile is_digit_char s;
          r = drop (length whole) s;
          frac = (if take 1 r = ''.'' then takeWhile is_digit_char (drop 1 r) else []);
          r' = (if take 1 r = ''.'' then drop (Suc (length frac)) r else r)
      in if whole = [] \<and> frac = [] then None
         else map_option (\<lambda>e. of_nat (digits_val 10 (whole @ frac)) * power_of_ten (e - int (length frac)))
                (exponent_of r'))"

definition js_Number :: "string \<Rightarrow> js_num" where
  "js_Number s =
     (let t = js_trim s
      in if t = [] then Finite 0
         else if is_based ''0x'' is_hex_char t then Finite (of_nat (digits_val 16 (drop 2 t)))
         else if is_based ''0o'' (\<lambda>c. is_digit_char c \<and> hex_val c < 8) t then Finite (of_nat (digits_val 8 (drop 2 t)))
         else if is_based ''0b'' (\<lambda>c. is_digit_char c \<and> hex_val c < 2) t then Finite (of_nat (digits_val 2 (drop 2 t)))
         else
           let negative = (take 1 t = ''-'');
               u = (if take 1 t = ''+'' \<or> take 1 t = ''-'' then drop 1 t else t)
           in if u = ''Infinity'' then Infinite negative
              else (case decimal_of u of
                      None \<Rightarrow> NaN
                    | Some q \<Rightarrow> Finite (if negative then - q else q)))"

text \<open>The value of an integral literal as an integer, and the truncation of the parser.\<close>

definition isNumericToken :: "string option \<Rightarrow> bool" where
  "isNumericToken token = (case token of None \<Rightarrow> False | Some s \<Rightarrow> if s = [] then False else js_Number s \<noteq> NaN)"

definition parseNonNegativeIntToken :: "string option \<Rightarrow> int option" where
  "parseNonNegativeIntToken token =
     (if \<not> truthy token then None
      else case js_Number (the token) of
             Finite q \<Rightarrow> if q < 0 then None else Some \<lfloor>q\<rfloor>
           | _ \<Rightarrow> None)"

section \<open>Formatting\<close>

definition bare_script_char :: "char \<Rightarrow> bool" where
  "bare_script_char c \<longleftrightarrow> \<not> is_js_space c \<and> c \<noteq> CHR ''\"'' \<and> c \<noteq> backslash"

definition isBareScriptToken :: "string \<Rightarrow> bool" where
  "isBareScriptToken value \<longleftrightarrow> value \<noteq> [] \<and> list_all bare_script_char value"

text \<open>\<open>/^-?\d+(\.\d+)?$/\<close>.\<close>

definition is_numeric_arg :: "string \<Rightarrow> bool" where
  "is_numeric_arg value =
     (let u = (if take 1 value = ''-'' then drop 1 value else value);
          whole = takeWhile is_digit_char u;
          r = drop (length whole) u
      in whole \<noteq> [] \<and>
         (r = [] \<or> (take 1 r = ''.'' \<and> drop 1 r \<noteq> [] \<and> list_all is_digit_char (drop 1 r))))"

definition isStructuralScriptToken :: "string \<Rightarrow> bool" where
  "isStructuralScriptToken value \<longleftrightarrow> (isBareScriptToken value \<and> take 1 value = ''@'') \<or> is_numeric_arg value"

definition formatScriptStringLiteral :: "string \<Rightarrow> string" where
  "formatScriptStringLiteral value = json_quote value"

definition formatScriptToken :: "string \<Rightarrow> (string \<Rightarrow> bool) \<Rightarrow> string" where
  "formatScriptToken value canStayBare = (if canStayBare value then value else formatScriptStringLiteral value)"

definition formatScriptArg :: "string \<Rightarrow> string" where
  "formatScriptArg value = formatScriptToken value isStructuralScriptToken"

definition formatScriptArgQuoteIfNeeded :: "string \<Rightarrow> string" where
  "formatScriptArgQuoteIfNeeded value = formatScriptToken value isBareScriptToken"

section \<open>The tokenizer inverts the formatting\<close>

lemma json_parse_escape_char: "json_parse_body (json_escape_char c @ s) = json_cons c (json_parse_body s)"
proof (cases c rule: json_escape_char_cases)
  case plain
  have "\<not> of_char c < (32::nat)"
  proof
    assume l: "of_char c < (32::nat)"
    have "json_escape_char c \<noteq> [c]"
    proof -
      have "list_all (\<lambda>n. json_escape_char (char_of n) \<noteq> [char_of n]) [0..<32]" by code_simp
      then have "json_escape_char (char_of (of_char c :: nat)) \<noteq> [char_of (of_char c :: nat)]"
        using l by (simp only: list_all_iff set_upt) (metis atLeastLessThan_iff zero_le)
      then show ?thesis by simp
    qed
    with plain show False by simp
  qed
  with plain show ?thesis by simp
next
  case (simple e)
  have "e \<noteq> CHR 0x27"
  proof
    assume e: "e = CHR 0x27"
    with simple(2) have "c = CHR 0x27" by (simp add: decodeSimpleEscape_def SIMPLE_ESCAPE_REPLACEMENTS_def)
    moreover have "json_escape_char (CHR 0x27) = [CHR 0x27]" by code_simp
    ultimately show False using simple(1) by simp
  qed
  with simple show ?thesis by (simp add: json_simple_escape_def)
next
  case (unicode h l)
  have u: "json_simple_escape (CHR ''u'') = None" "is_hex_char (CHR ''0'')" "hex_val (CHR ''0'') = 0" by code_simp+
  from unicode(2,3) have "16 * h + l \<le> 255" by linarith
  with unicode u show ?thesis
    by (simp add: parse_hex_def hex_digit_facts Let_def)
qed

lemma json_parse_escape: "json_parse_body (json_escape v) = JsonText v"
  by (induction v) (simp_all add: json_escape_def json_parse_escape_char del: json_parse_body.simps(2))


lemma closing_quote_escape_char:
  "closing_quote False (json_escape_char c @ s) = map_option (\<lambda>n. length (json_escape_char c) + n) (closing_quote False s)"
proof (cases c rule: json_escape_char_cases)
  case plain
  then show ?thesis by simp
next
  case (simple e)
  then show ?thesis by (simp add: option.map_comp comp_def)
next
  case (unicode h l)
  then show ?thesis
    using hex_digit_facts [of h] hex_digit_facts [of l] by (simp add: option.map_comp comp_def)
qed

lemma closing_quote_escape: "closing_quote False (json_escape v @ ''\"'' @ rest) = Some (length (json_escape v))"
  by (induction v) (simp_all add: json_escape_def closing_quote_escape_char del: closing_quote.simps(2), simp)

text \<open>A text stands for a value when the tokenizer reads the value off it, whatever white space and
  further text follow.\<close>

definition token_text :: "string \<Rightarrow> string \<Rightarrow> bool" where
  "token_text t v \<longleftrightarrow>
     t = json_quote v \<or> (t = v \<and> v \<noteq> [] \<and> hd v \<noteq> CHR ''\"'' \<and> list_all (\<lambda>c. \<not> is_js_space c) v)"

lemma token_text_read:
  assumes "token_text t v" "rest = [] \<or> is_js_space (hd rest)"
  shows "readReplayToken line (t @ rest) = Inr (v, rest)" "skipReplayWhitespace (t @ rest) = t @ rest" "t \<noteq> []"
proof -
  have sp: "\<not> is_js_space (CHR ''\"'')" by code_simp
  from assms(1) consider (quoted) "t = json_quote v"
    | (bare) "t = v" "v \<noteq> []" "hd v \<noteq> CHR ''\"''" "list_all (\<lambda>c. \<not> is_js_space c) v"
    by (auto simp: token_text_def)
  then show "readReplayToken line (t @ rest) = Inr (v, rest)"
  proof cases
    case quoted
    then show ?thesis
      using closing_quote_escape [of v rest]
      by (simp add: readReplayToken_def readQuotedReplayToken_def json_quote_def json_parse_escape)
  next
    case bare
    then obtain c w where v: "v = c # w" by (cases v) auto
    have "takeWhile (\<lambda>c. \<not> is_js_space c) (v @ rest) = v"
      using bare assms(2) by (cases rest) (auto simp: list_all_iff takeWhile_append2)
    then show ?thesis using bare v by (simp add: readReplayToken_def readBareReplayToken_def Let_def)
  qed
  show "skipReplayWhitespace (t @ rest) = t @ rest" "t \<noteq> []"
    using assms(1) sp
    by (auto simp: token_text_def skipReplayWhitespace_def json_quote_def intro!: dropWhile_fst_keep)
      (auto simp: hd_append list_all_iff)
qed

lemma tokenize_texts:
  "list_all2 token_text ts vs \<Longrightarrow> tokenize_replay_loop line (js_join '' '' ts) = Inr vs"
proof (induction ts vs rule: list_all2_induct)
  case Nil
  then show ?case by (simp add: js_join_def tokenize_replay_loop.simps skipReplayWhitespace_def)
next
  case (Cons t ts v vs)
  define rest where "rest = concat (map (\<lambda>z. '' '' @ z) ts)"
  have sp: "is_js_space (CHR '' '')" by code_simp
  have rest: "rest = [] \<or> is_js_space (hd rest)" using sp by (cases ts) (simp_all add: rest_def)
  note rd = token_text_read [OF Cons.hyps(1) rest]
  have "tokenize_replay_loop line rest = Inr vs"
  proof (cases ts)
    case Nil
    with Cons.IH show ?thesis by (simp add: rest_def js_join_def)
  next
    case (Cons t' ts')
    then have "rest = CHR '' '' # js_join '' '' ts" by (simp only: rest_def js_join_def list.simps concat.simps append.simps)
    then have "skipReplayWhitespace rest = skipReplayWhitespace (js_join '' '' ts)"
      using sp by (simp add: skipReplayWhitespace_def)
    then have "tokenize_replay_loop line rest = tokenize_replay_loop line (js_join '' '' ts)"
      by (simp add: tokenize_replay_loop.simps)
    with Cons.IH show ?thesis by simp
  qed
  moreover have "js_join '' '' (t # ts) = t @ rest" by (simp only: js_join_def list.simps rest_def)
  ultimately show ?case
    using rd by (simp add: tokenize_replay_loop.simps [of line "t @ rest"])
qed

lemma digit_bare: "is_digit_char c \<Longrightarrow> bare_script_char c"
proof -
  assume d: "is_digit_char c"
  have "list_all (\<lambda>n. bare_script_char (char_of n)) [48..<58]" by code_simp
  then have "bare_script_char (char_of (of_char c :: nat))"
    using d unfolding list_all_iff set_upt is_digit_char_def Let_def
    by (metis atLeastLessThan_iff le_imp_less_Suc eval_nat_numeral(2) semiring_norm(26,27,28))
  then show ?thesis by simp
qed


lemma bare_token_text:
  assumes "v \<noteq> []" "list_all bare_script_char v"
  shows "token_text v v"
  using assms by (cases v) (auto simp: token_text_def bare_script_char_def list_all_iff)

lemma numeric_arg_bare:
  assumes "is_numeric_arg v"
  shows "v \<noteq> [] \<and> list_all bare_script_char v"
proof -
  define u where "u = (if take 1 v = ''-'' then drop 1 v else v)"
  define whole where "whole = takeWhile is_digit_char u"
  define r where "r = drop (length whole) u"
  have "whole \<noteq> [] \<and> (r = [] \<or> (take 1 r = ''.'' \<and> drop 1 r \<noteq> [] \<and> list_all is_digit_char (drop 1 r)))"
    using assms unfolding is_numeric_arg_def Let_def r_def whole_def u_def .
  note w = conjunct1 [OF this] conjunct2 [OF this]
  have signs: "bare_script_char (CHR ''-'')" "bare_script_char (CHR ''.'')" by code_simp+
  have "list_all bare_script_char whole"
    unfolding whole_def list_all_iff using set_takeWhileD digit_bare by fast
  moreover have "list_all bare_script_char r"
  proof (cases r)
    case (Cons a r')
    with w(2) have "a = CHR ''.''" "list_all is_digit_char r'" by simp_all
    then show ?thesis using signs(2) digit_bare by (simp add: Cons list_all_iff)
  qed simp
  moreover have u: "u = whole @ r"
    unfolding r_def whole_def dropWhile_eq_drop [symmetric] takeWhile_dropWhile_id ..
  ultimately have "list_all bare_script_char u" by simp
  moreover have "v = CHR ''-'' # u \<or> v = u"
  proof (cases "take 1 v = ''-''")
    case True
    then have "u = drop 1 v" unfolding u_def by (rule if_P)
    moreover obtain w where "v = CHR ''-'' # w" using True by (cases v) simp_all
    ultimately show ?thesis by simp
  qed (simp add: u_def)
  moreover have "u \<noteq> []" using u w(1) by simp
  ultimately show ?thesis using signs(1) by (elim disjE) simp_all
qed

lemma formatScriptArg_text: "token_text (formatScriptArg v) v"
proof (cases "isStructuralScriptToken v")
  case True
  then have "v \<noteq> [] \<and> list_all bare_script_char v"
    using numeric_arg_bare by (auto simp: isStructuralScriptToken_def isBareScriptToken_def)
  with True show ?thesis by (simp add: formatScriptArg_def formatScriptToken_def bare_token_text)
next
  case False
  then show ?thesis
    by (simp add: formatScriptArg_def formatScriptToken_def formatScriptStringLiteral_def token_text_def)
qed

lemma formatScriptArgQuoteIfNeeded_text: "token_text (formatScriptArgQuoteIfNeeded v) v"
  by (simp add: formatScriptArgQuoteIfNeeded_def formatScriptToken_def formatScriptStringLiteral_def
      isBareScriptToken_def bare_token_text) (simp add: token_text_def)

text \<open>Whatever the values, the tokenizer reads back what the writers wrote: any sequence of values, each in
  one of the two formats.\<close>

lemma tokens_read_back:
  "list_all2 (\<lambda>t v. t = formatScriptArg v \<or> t = formatScriptArgQuoteIfNeeded v) ts vs \<Longrightarrow>
   tokenizeReplayLine (js_join '' '' ts) = Inr vs"
  unfolding tokenizeReplayLine_def
  by (rule tokenize_texts) (auto intro: formatScriptArg_text formatScriptArgQuoteIfNeeded_text elim!: list_all2_mono)

section \<open>Numbers are read back\<close>

lemma digits_val_append: "digits_val b (s @ t) = digits_val b s * b ^ length t + digits_val b t"
proof -
  define f where "f = (\<lambda>a c. b * a + hex_val c)"
  have f: "foldl f n t = n * b ^ length t + foldl f 0 t" for n t
  proof (induction t arbitrary: n)
    case (Cons c t)
    have "foldl f n (c # t) = (b * n + hex_val c) * b ^ length t + foldl f 0 t"
      by (simp add: Cons.IH [of "f n c"]) (simp add: f_def)
    moreover have "foldl f 0 (c # t) = hex_val c * b ^ length t + foldl f 0 t"
      by (simp add: Cons.IH [of "f 0 c"]) (simp add: f_def)
    ultimately show ?case by (simp add: distrib_left mult_ac)
  qed simp
  show ?thesis unfolding digits_val_def f_def [symmetric] foldl_append using f [of "foldl f 0 s" t] .
qed

lemma digits_val_nat_dec [simp]: "digits_val 10 (nat_dec n) = n"
proof (induction n rule: nat_dec.induct)
  case (1 n)
  have digit: "hex_val (char_of (48 + d)) = d" if "d < 10" for d :: nat
    using that by (simp add: hex_val_def Let_def)
  show ?case
  proof (cases "n < 10")
    case True
    then show ?thesis by (simp add: digits_val_def digit nat_dec.simps [of n])
  next
    case False
    then have "digits_val 10 (nat_dec n) = (n div 10) * 10 + n mod 10"
      using 1 by (simp add: nat_dec.simps [of n] digits_val_append) (simp add: digits_val_def digit)
    then show ?thesis by simp
  qed
qed

lemma nat_dec_chars: "c \<in> set (nat_dec n) \<Longrightarrow> is_digit_char c"
  using nat_dec_digits [of n] by (simp add: list_all_iff)

lemma nat_dec_ne: "nat_dec n \<noteq> []"
  using nat_dec_digits [of n] by simp

lemma js_Number_nat_dec [simp]: "js_Number (nat_dec n) = Finite (of_nat n)"
proof -
  have trim: "js_trim (nat_dec n) = nat_dec n"
    by (intro js_trim_trimmed trimmed_no_space digit_not_space nat_dec_chars)
  have nodigit: "\<not> is_digit_char (CHR ''x'')" "\<not> is_digit_char (CHR ''o'')" "\<not> is_digit_char (CHR ''b'')"
    "\<not> is_digit_char (CHR ''-'')" "\<not> is_digit_char (CHR ''+'')" "\<not> is_digit_char (CHR ''I'')" by code_simp+
  have lower: "js_lower (take 2 (nat_dec n)) = take 2 (nat_dec n)"
  proof -
    have "js_lower_char c = c" if "is_digit_char c" for c
      using that by (simp add: js_lower_char_def is_digit_char_def Let_def)
    then show ?thesis
      unfolding js_lower_def using nat_dec_chars in_set_takeD by (intro map_idI) fast
  qed
  have second: "is_digit_char b" if "take 2 (nat_dec n) = [a, b]" for a b
  proof -
    have "b \<in> set (take 2 (nat_dec n))" by (simp add: that)
    then show ?thesis using in_set_takeD nat_dec_chars by fast
  qed
  have first: "is_digit_char a" if "take 1 (nat_dec n) = [a]" for a
  proof -
    have "a \<in> set (take 1 (nat_dec n))" unfolding that by simp
    then show ?thesis using in_set_takeD nat_dec_chars by fast
  qed
  have marks: "\<not> is_based ''0x'' f (nat_dec n)" "\<not> is_based ''0o'' f (nat_dec n)" "\<not> is_based ''0b'' f (nat_dec n)" for f
    unfolding is_based_def lower using nodigit second by blast+
  have signs: "take 1 (nat_dec n) \<noteq> ''-''" "take 1 (nat_dec n) \<noteq> ''+''"
    using nodigit first by blast+
  have inf: "nat_dec n \<noteq> ''Infinity''"
  proof
    assume "nat_dec n = ''Infinity''"
    then have "take 1 (nat_dec n) = ''I''" by simp
    with first nodigit show False by blast
  qed
  have "takeWhile is_digit_char (nat_dec n) = nat_dec n"
    using nat_dec_chars by (simp add: takeWhile_eq_all_conv)
  note whole = this
  have dec: "decimal_of (nat_dec n) = Some (of_nat n)"
    unfolding decimal_of_def Let_def whole
    by (simp add: exponent_of_def power_of_ten_def nat_dec_ne)
  show ?thesis
    unfolding js_Number_def Let_def trim if_not_P [OF nat_dec_ne] if_not_P [OF marks(1)] if_not_P [OF marks(2)]
      if_not_P [OF marks(3)] by (simp only: signs inf dec if_False HOL.simp_thms option.case)
qed

lemma parse_nat_dec [simp]: "parseNonNegativeIntToken (Some (nat_dec n)) = Some (int n)"
  by (simp add: parseNonNegativeIntToken_def nat_dec_ne)

end
