(* ===== verification/Json.thy ===== *)
theory Json
  imports AdTokens
begin

text \<open>
  The part of \<open>JSON.parse\<close>, \<open>JSON.stringify\<close> and \<open>String\<close> of a number that the annotations of recorded scripts
  use (\<^verbatim>\<open>packages/ad-script/src/internal/target-annotation-serde.ts\<close>): the values, the parser after the
  grammar of RFC 8259 and the writer, with the round trip.

  Numbers are exact rationals. A string with a code unit above 255 is the value \<open>JWide\<close>, whose text the
  model does not keep.
\<close>

section \<open>Values\<close>

datatype json =
    JNull
  | JBool bool
  | JNum rat
  | JStr string
  | JWide
  | JArr "json list"
  | JObj "(string option \<times> json) list"

text \<open>The last of several members with one key counts.\<close>

definition json_get :: "string \<Rightarrow> (string option \<times> json) list \<Rightarrow> json option" where
  "json_get k ms = map_of (rev ms) (Some k)"

section \<open>Parsing\<close>

definition json_space :: "char \<Rightarrow> bool" where
  "json_space c \<longleftrightarrow> c = CHR '' '' \<or> c = CHR 0x09 \<or> c = CHR 0x0A \<or> c = CHR 0x0D"

definition json_skip :: "string \<Rightarrow> string" where
  "json_skip s = dropWhile json_space s"

definition json_string :: "string \<Rightarrow> (json_text \<times> string) option" where
  "json_string body =
     (case closing_quote False body of
        None \<Rightarrow> None
      | Some n \<Rightarrow> (case json_parse_body (take n body) of
                    JsonInvalid \<Rightarrow> None
                  | text \<Rightarrow> Some (text, drop (Suc n) body)))"

fun json_text_value :: "json_text \<Rightarrow> json" where
  "json_text_value (JsonText s) = JStr s"
| "json_text_value t = JWide"

fun json_text_key :: "json_text \<Rightarrow> string option" where
  "json_text_key (JsonText s) = Some s"
| "json_text_key t = None"

text \<open>The optional exponent of a number.\<close>

definition json_exponent :: "string \<Rightarrow> (int \<times> string) option" where
  "json_exponent s =
     (if take 1 s = ''e'' \<or> take 1 s = ''E''
      then (let t = drop 1 s;
                u = (if take 1 t = ''+'' \<or> take 1 t = ''-'' then drop 1 t else t);
                ds = takeWhile is_digit_char u
            in if ds = [] then None
               else Some (if take 1 t = ''-'' then - int (digits_val 10 ds) else int (digits_val 10 ds),
                          drop (length ds) u))
      else Some (0, s))"

definition json_number :: "string \<Rightarrow> (rat \<times> string) option" where
  "json_number s =
     (let negative = (take 1 s = ''-'');
          u = (if negative then drop 1 s else s);
          whole = takeWhile is_digit_char u;
          r = drop (length whole) u;
          dot = (take 1 r = ''.'');
          frac = (if dot then takeWhile is_digit_char (drop 1 r) else []);
          r' = (if dot then drop (Suc (length frac)) r else r)
      in if whole = [] \<or> (hd whole = CHR ''0'' \<and> length whole > 1) \<or> (dot \<and> frac = []) then None
         else (case json_exponent r' of
                 None \<Rightarrow> None
               | Some (e, rest) \<Rightarrow>
                   let q = of_nat (digits_val 10 (whole @ frac)) * power_of_ten (e - int (length frac))
                   in Some (if negative then - q else q, rest)))"

text \<open>The comparisons of lengths hold in every call (\<open>json_parser_shorter\<close>); they let the recursion end by
  construction.\<close>

function json_value :: "string \<Rightarrow> (json \<times> string) option"
  and json_elements :: "string \<Rightarrow> (json list \<times> string) option"
  and json_members :: "string \<Rightarrow> ((string option \<times> json) list \<times> string) option" where
  "json_value s =
     (case json_skip s of
        [] \<Rightarrow> None
      | c # r \<Rightarrow>
          if length r < length s
          then if c = CHR ''\"''
            then map_option (\<lambda>(t, rest). (json_text_value t, rest)) (json_string r)
            else if c = CHR ''[''
            then (if take 1 (json_skip r) = '']'' then Some (JArr [], drop 1 (json_skip r))
                  else map_option (\<lambda>(vs, rest). (JArr vs, rest)) (json_elements r))
            else if c = CHR ''{''
            then (if take 1 (json_skip r) = ''}'' then Some (JObj [], drop 1 (json_skip r))
                  else map_option (\<lambda>(ms, rest). (JObj ms, rest)) (json_members r))
            else if take 4 (c # r) = ''null'' then Some (JNull, drop 3 r)
            else if take 4 (c # r) = ''true'' then Some (JBool True, drop 3 r)
            else if take 5 (c # r) = ''false'' then Some (JBool False, drop 4 r)
            else map_option (\<lambda>(q, rest). (JNum q, rest)) (json_number (c # r))
          else None)"
| "json_elements s =
     (case json_value s of
        None \<Rightarrow> None
      | Some (v, rest) \<Rightarrow>
          (case json_skip rest of
             [] \<Rightarrow> None
           | c # r \<Rightarrow>
               if c = CHR '']'' then Some ([v], r)
               else if c = CHR '','' \<and> length r < length s
               then map_option (\<lambda>(vs, rest'). (v # vs, rest')) (json_elements r)
               else None))"
| "json_members s =
     (case json_skip s of
        [] \<Rightarrow> None
      | q # body \<Rightarrow>
          if q = CHR ''\"''
          then (case json_string body of
                  None \<Rightarrow> None
                | Some (k, rest) \<Rightarrow>
                    (case json_skip rest of
                       [] \<Rightarrow> None
                     | colon # r \<Rightarrow>
                         if colon = CHR '':'' \<and> length r < length s
                         then (case json_value r of
                                 None \<Rightarrow> None
                               | Some (v, rest') \<Rightarrow>
                                   (case json_skip rest' of
                                      [] \<Rightarrow> None
                                    | c # r' \<Rightarrow>
                                        if c = CHR ''}'' then Some ([(json_text_key k, v)], r')
                                        else if c = CHR '','' \<and> length r' < length s
                                        then map_option (\<lambda>(ms, rest''). ((json_text_key k, v) # ms, rest''))
                                               (json_members r')
                                        else None))
                         else None))
          else None)"
  by pat_completeness auto
termination
  by (relation "measure (\<lambda>x. case x of Inl s \<Rightarrow> 2 * length s | Inr (Inl s) \<Rightarrow> Suc (2 * length s) | Inr (Inr s) \<Rightarrow> Suc (2 * length s))")
    auto

declare json_value.simps [simp del] json_elements.simps [simp del] json_members.simps [simp del]

definition JSON_parse :: "string \<Rightarrow> json option" where
  "JSON_parse s = (case json_value s of Some (v, rest) \<Rightarrow> if json_skip rest = [] then Some v else None | None \<Rightarrow> None)"

section \<open>Writing\<close>

text \<open>\<open>String\<close> of a number whose decimal expansion is written out in full.\<close>

fun fraction_text :: "nat \<Rightarrow> rat \<Rightarrow> string" where
  "fraction_text 0 f = []"
| "fraction_text (Suc k) f =
     (if f = 0 then []
      else char_of (48 + nat \<lfloor>10 * f\<rfloor>) # fraction_text k (10 * f - of_int \<lfloor>10 * f\<rfloor>))"

definition number_text :: "rat \<Rightarrow> string" where
  "number_text q =
     (let a = \<bar>q\<bar>; n = \<lfloor>a\<rfloor>; f = a - of_int n
      in (if q < 0 then ''-'' else []) @ nat_dec (nat n) @ (if f = 0 then [] else CHR ''.'' # fraction_text 20 f))"

definition plain_number :: "rat \<Rightarrow> bool" where
  "plain_number q \<longleftrightarrow> (q = 0 \<or> 1 / 10 ^ 6 \<le> \<bar>q\<bar>) \<and> \<bar>q\<bar> < 10 ^ 21 \<and> q * 10 ^ 20 = of_int \<lfloor>q * 10 ^ 20\<rfloor>"

fun json_stringify :: "json \<Rightarrow> string" where
  "json_stringify JNull = ''null''"
| "json_stringify (JBool b) = (if b then ''true'' else ''false'')"
| "json_stringify (JNum q) = number_text q"
| "json_stringify (JStr s) = json_quote s"
| "json_stringify JWide = ''null''"
| "json_stringify (JArr vs) = CHR ''['' # js_join '','' (map json_stringify vs) @ '']''"
| "json_stringify (JObj ms) =
     CHR ''{'' # js_join '','' (map (\<lambda>(k, v). json_quote (case k of Some t \<Rightarrow> t | None \<Rightarrow> []) @ '':'' @ json_stringify v) ms) @ ''}''"

section \<open>Numbers are read back\<close>

lemma digits_val_Cons: "digits_val b (c # t) = hex_val c * b ^ length t + digits_val b t"
  using digits_val_append [of b "[c]" t] by (simp add: digits_val_def)

lemma fraction_text:
  assumes "0 \<le> f" "f < 1" "f * 10 ^ k \<in> \<int>"
  shows "list_all is_digit_char (fraction_text k f) \<and> (f \<noteq> 0 \<longrightarrow> fraction_text k f \<noteq> []) \<and>
    of_nat (digits_val 10 (fraction_text k f)) = f * 10 ^ length (fraction_text k f)"
  using assms
proof (induction k arbitrary: f)
  case 0
  then obtain i where "f = of_int i" by (auto elim: Ints_cases)
  with 0 have "f = 0" by auto
  then show ?case by (simp add: digits_val_def)
next
  case (Suc k)
  define d where "d = \<lfloor>10 * f\<rfloor>"
  have d: "0 \<le> d" "d \<le> 9"
    using Suc.prems unfolding d_def by (simp, linarith)
  have f': "0 \<le> 10 * f - of_int d" "10 * f - of_int d < 1" by (simp_all add: d_def) linarith+
  have "(10 * f - of_int d) * 10 ^ k = f * 10 ^ Suc k - of_int (d * 10 ^ k)" by (simp add: algebra_simps)
  then have int: "(10 * f - of_int d) * 10 ^ k \<in> \<int>" using Suc.prems(3) by (simp only: Ints_diff Ints_of_int)
  show ?case
  proof (cases "f = 0")
    case True
    then show ?thesis by (simp add: digits_val_def)
  next
    case False
    let ?t = "fraction_text k (10 * f - of_int d)"
    have digit: "is_digit_char (char_of (48 + nat d))" "hex_val (char_of (48 + nat d)) = nat d"
      using d digit_char [of "nat d"] by (simp_all add: hex_val_def Let_def)
    have "of_nat (digits_val 10 (char_of (48 + nat d) # ?t)) = of_nat (nat d) * 10 ^ length ?t + of_nat (digits_val 10 ?t)"
      by (simp add: digits_val_Cons digit)
    also have "\<dots> = of_int d * 10 ^ length ?t + (10 * f - of_int d) * 10 ^ length ?t"
      using Suc.IH [OF f' int] d by simp
    also have "\<dots> = f * 10 ^ Suc (length ?t)" by (simp add: algebra_simps)
    finally have "of_nat (digits_val 10 (char_of (48 + nat d) # ?t)) = f * 10 ^ Suc (length ?t)" .
    moreover have "fraction_text (Suc k) f = char_of (48 + nat d) # ?t" using False by (simp add: d_def)
    ultimately show ?thesis using digit(1) Suc.IH [OF f' int] by simp
  qed
qed

lemma fraction_text_digits: "0 \<le> f \<Longrightarrow> f < 1 \<Longrightarrow> list_all is_digit_char (fraction_text k f)"
proof (induction k arbitrary: f)
  case (Suc k)
  define d where "d = \<lfloor>10 * f\<rfloor>"
  have "0 \<le> d" "d \<le> 9" using Suc.prems unfolding d_def by (simp, linarith)
  then have "is_digit_char (char_of (48 + nat d))" using digit_char [of "nat d"] by simp
  moreover have "0 \<le> 10 * f - of_int d" "10 * f - of_int d < 1" by (simp_all add: d_def) linarith+
  ultimately show ?case using Suc.IH by (simp add: d_def)
qed simp

text \<open>What may follow a number, an element or a member.\<close>

definition number_end :: "string \<Rightarrow> bool" where
  "number_end rest \<longleftrightarrow> rest = [] \<or> hd rest \<in> {CHR '','', CHR '']'', CHR ''}''}"

lemma number_end_facts:
  assumes "number_end rest"
  shows "takeWhile is_digit_char rest = []" "take 1 rest \<noteq> ''.''" "json_exponent rest = Some (0, rest)"
proof -
  have d: "\<not> is_digit_char (CHR '','')" "\<not> is_digit_char (CHR '']'')" "\<not> is_digit_char (CHR ''}'')" by code_simp+
  show "takeWhile is_digit_char rest = []" "take 1 rest \<noteq> ''.''" "json_exponent rest = Some (0, rest)"
    using assms d by (cases rest; auto simp: number_end_def json_exponent_def)+
qed

lemma takeWhile_digits:
  "list_all is_digit_char ds \<Longrightarrow> takeWhile is_digit_char (ds @ s) = ds @ takeWhile is_digit_char s"
  by (simp add: list_all_iff takeWhile_append2)

lemma nat_dec_leading: "hd (nat_dec n) = CHR ''0'' \<Longrightarrow> length (nat_dec n) = 1"
proof (induction n rule: nat_dec.induct)
  case (1 n)
  show ?case
  proof (cases "n < 10")
    case True
    then show ?thesis by (simp add: nat_dec.simps [of n])
  next
    case False
    have ne: "nat_dec (n div 10) \<noteq> []" by (rule nat_dec_ne)
    then have "hd (nat_dec (n div 10)) = CHR ''0''" using 1(2) False by (simp add: nat_dec.simps [of n])
    with 1(1) False have "length (nat_dec (n div 10)) = 1" by simp
    with \<open>hd (nat_dec (n div 10)) = CHR ''0''\<close> have "nat_dec (n div 10) = ''0''"
      by (cases "nat_dec (n div 10)") auto
    moreover have "dec_val ''0'' = 0" by code_simp
    ultimately have "int (n div 10) = 0" using dec_val_nat_dec [of "n div 10"] by simp
    with False show ?thesis by simp
  qed
qed

lemma json_number_text:
  assumes "plain_number q" "number_end rest"
  shows "json_number (number_text q @ rest) = Some (q, rest)"
proof -
  define a where "a = \<bar>q\<bar>"
  define n where "n = nat \<lfloor>a\<rfloor>"
  define f where "f = a - of_int \<lfloor>a\<rfloor>"
  define fs where "fs = fraction_text 20 f"
  define tail where "tail = (if f = 0 then [] else CHR ''.'' # fs)"
  have written: "number_text q = (if q < 0 then ''-'' else []) @ nat_dec n @ tail"
    unfolding number_text_def Let_def a_def n_def f_def tail_def fs_def ..
  have n: "(of_nat n :: rat) = of_int \<lfloor>a\<rfloor>" by (simp add: n_def a_def)
  have "q * 10 ^ 20 \<in> \<int>" using assms(1) unfolding plain_number_def by (metis Ints_of_int)
  then have "a * 10 ^ 20 \<in> \<int>" unfolding a_def by (cases "q < 0") auto
  then have "a * 10 ^ 20 - of_int (\<lfloor>a\<rfloor> * 10 ^ 20) \<in> \<int>" by (simp only: Ints_diff Ints_of_int)
  moreover have "a * 10 ^ 20 - of_int (\<lfloor>a\<rfloor> * 10 ^ 20) = f * 10 ^ 20"
    unfolding f_def left_diff_distrib of_int_mult of_int_power of_int_numeral ..
  ultimately have "f * 10 ^ 20 \<in> \<int>" by (simp only:)
  moreover have f: "0 \<le> f" "f < 1" unfolding f_def by (simp, linarith)
  ultimately have "list_all is_digit_char fs \<and> (f \<noteq> 0 \<longrightarrow> fs \<noteq> []) \<and> of_nat (digits_val 10 fs) = f * 10 ^ length fs"
    unfolding fs_def by (intro fraction_text)
  then have fs: "list_all is_digit_char fs" "f \<noteq> 0 \<Longrightarrow> fs \<noteq> []" "of_nat (digits_val 10 fs) = f * 10 ^ length fs"
    by blast+
  note e = number_end_facts [OF assms(2)]
  define u where "u = nat_dec n @ tail @ rest"
  have dash: "take 1 u \<noteq> ''-''"
  proof -
    have "is_digit_char (hd (nat_dec n))" using nat_dec_chars nat_dec_ne hd_in_set by blast
    moreover have "\<not> is_digit_char (CHR ''-'')" by code_simp
    ultimately have "hd (nat_dec n) \<noteq> CHR ''-''" by metis
    then show ?thesis using nat_dec_ne [of n] by (cases "nat_dec n") (simp_all add: u_def)
  qed
  have dot: "\<not> is_digit_char (CHR ''.'')" by code_simp
  have tail: "takeWhile is_digit_char (tail @ rest) = []"
    using dot e(1) by (simp add: tail_def)
  have whole: "takeWhile is_digit_char u = nat_dec n"
    using nat_dec_digits [of n] by (simp add: u_def takeWhile_digits tail)
  have r: "drop (length (nat_dec n)) u = tail @ rest" by (simp add: u_def)
  have lead: "\<not> (hd (nat_dec n) = CHR ''0'' \<and> length (nat_dec n) > 1)" using nat_dec_leading [of n] by auto
  have main: "(let dot = (take 1 (tail @ rest) = ''.'');
          frac = (if dot then takeWhile is_digit_char (drop 1 (tail @ rest)) else []);
          r' = (if dot then drop (Suc (length frac)) (tail @ rest) else tail @ rest)
      in if dot \<and> frac = [] then None
         else (case json_exponent r' of
                 None \<Rightarrow> None
               | Some (e, rest) \<Rightarrow>
                   let v = of_nat (digits_val 10 (nat_dec n @ frac)) * power_of_ten (e - int (length frac))
                   in Some (if q < 0 then - v else v, rest))) = Some (q, rest)"
  proof (cases "f = 0")
    case True
    then have "(of_nat n :: rat) = a" using n unfolding f_def by (metis eq_iff_diff_eq_0)
    then have "(of_nat n :: rat) = \<bar>q\<bar>" by (simp add: a_def)
    then have "(if q < 0 then - of_nat n else of_nat n :: rat) = q" by auto
    then show ?thesis using e True by (simp add: tail_def Let_def power_of_ten_def split: if_splits)
  next
    case False
    have frac: "takeWhile is_digit_char (fs @ rest) = fs" using fs(1) e(1) by (simp add: takeWhile_digits)
    have "(of_nat (digits_val 10 (nat_dec n @ fs)) :: rat) = (of_nat n + f) * 10 ^ length fs"
      by (simp add: digits_val_append fs(3) algebra_simps)
    then have "of_nat (digits_val 10 (nat_dec n @ fs)) * power_of_ten (- int (length fs)) = of_nat n + f"
      using fs(2) [OF False] by (simp add: power_of_ten_def)
    also have "\<dots> = \<bar>q\<bar>" by (simp add: n f_def a_def)
    finally have v: "of_nat (digits_val 10 (nat_dec n @ fs)) * power_of_ten (- int (length fs)) = \<bar>q\<bar>" .
    show ?thesis using False frac e fs(2) v by (simp add: tail_def Let_def)
  qed
  have "json_number (number_text q @ rest) = json_number ((if q < 0 then ''-'' else []) @ u)"
    by (simp add: written u_def)
  also have "\<dots> = Some (q, rest)"
  proof -
    have sign: "(take 1 ((if q < 0 then ''-'' else []) @ u) = ''-'') = (q < 0)"
      "(if q < 0 then drop 1 ((if q < 0 then ''-'' else []) @ u) else (if q < 0 then ''-'' else []) @ u) = u"
      using dash by simp_all
    show ?thesis
      using main lead nat_dec_ne [of n]
      unfolding json_number_def Let_def sign whole r by (simp only: HOL.simp_thms if_False)
  qed
  finally show ?thesis .
qed

section \<open>The parser consumes its input\<close>

lemma length_json_skip: "length (json_skip s) \<le> length s"
  by (simp add: json_skip_def length_dropWhile_le)

lemma json_skip_Cons: "json_skip s = c # r \<Longrightarrow> length r < length s"
  using length_json_skip [of s] by simp

lemma json_string_shorter: "json_string body = Some (t, rest) \<Longrightarrow> length rest \<le> length body"
  by (auto simp: json_string_def split: option.splits json_text.splits)

lemma json_exponent_shorter: "json_exponent s = Some (e, rest) \<Longrightarrow> length rest \<le> length s"
  by (auto simp: json_exponent_def Let_def split: if_splits)

lemma json_number_shorter:
  assumes "json_number s = Some (q, rest)"
  shows "length rest < length s"
proof -
  define u where "u = (if take 1 s = ''-'' then drop 1 s else s)"
  define whole where "whole = takeWhile is_digit_char u"
  define r where "r = drop (length whole) u"
  define frac where "frac = (if take 1 r = ''.'' then takeWhile is_digit_char (drop 1 r) else [])"
  define r' where "r' = (if take 1 r = ''.'' then drop (Suc (length frac)) r else r)"
  from assms have "whole \<noteq> [] \<and> (\<exists>e. json_exponent r' = Some (e, rest))"
    unfolding json_number_def Let_def r'_def frac_def r_def whole_def u_def
    by (auto split: if_splits option.splits)
  then obtain e where w: "whole \<noteq> []" and e: "json_exponent r' = Some (e, rest)" by blast
  have "u \<noteq> []" using w by (auto simp: whole_def)
  then have "length r < length u" using w by (simp add: r_def)
  moreover have "length u \<le> length s" by (simp add: u_def)
  moreover have "length r' \<le> length r" by (simp add: r'_def)
  ultimately show ?thesis using json_exponent_shorter [OF e] by linarith
qed

text \<open>The comparisons in the recursive calls always hold.\<close>

lemma json_parser_shorter:
  "json_value s = Some (v, rest) \<Longrightarrow> length rest < length s"
  "json_elements s = Some (vs, rest) \<Longrightarrow> length rest < length s"
  "json_members s = Some (ms, rest) \<Longrightarrow> length rest < length s"
proof (induction s and s and s arbitrary: v rest and vs rest and ms rest
    rule: json_value_json_elements_json_members.induct)
  case (1 s)
  from 1(3) obtain c r where s: "json_skip s = c # r" by (auto simp: json_value.simps [of s] split: list.splits)
  have l: "length r < length s" by (rule json_skip_Cons [OF s])
  note parsed = 1(3) [unfolded json_value.simps [of s] s list.case if_P [OF l]]
  show ?case
  proof (cases "c = CHR ''\"'' \<or> c = CHR ''['' \<or> c = CHR ''{''")
    case True
    then consider (quoted) "c = CHR ''\"''" | (arr) "c = CHR ''[''" | (obj) "c = CHR ''{''" by blast
    then show ?thesis
    proof cases
      case quoted
      with parsed l show ?thesis by (auto dest: json_string_shorter)
    next
      case arr
      then show ?thesis
        using parsed l 1(1) [OF s l] length_json_skip [of r] by (fastforce split: if_splits)
    next
      case obj
      then show ?thesis
        using parsed l 1(2) [OF s l] length_json_skip [of r] by (fastforce split: if_splits)
    qed
  next
    case False
    with parsed l show ?thesis
      by (auto split: if_splits dest: json_number_shorter)
  qed
next
  case (2 s)
  from 2(3) obtain v rest1 c r where v: "json_value s = Some (v, rest1)" and c: "json_skip rest1 = c # r"
    by (auto simp: json_elements.simps [of s] split: option.splits list.splits)
  have l: "length r < length s" using json_skip_Cons [OF c] 2(1) [OF v] by simp
  note parsed = 2(3) [unfolded json_elements.simps [of s] v c list.case option.case prod.case]
  show ?case using parsed l 2(2) [OF v refl c] by (fastforce split: if_splits)
next
  case (3 s)
  from 3(3) obtain body k rest1 r where b: "json_skip s = CHR ''\"'' # body"
    and k: "json_string body = Some (k, rest1)" and r: "json_skip rest1 = CHR '':'' # r"
    by (auto simp: json_members.simps [of s] split: option.splits list.splits if_splits)
  have l: "length r < length s" using json_skip_Cons [OF r] json_string_shorter [OF k] json_skip_Cons [OF b] by simp
  from 3(3) obtain v rest2 c r' where v: "json_value r = Some (v, rest2)" and c: "json_skip rest2 = c # r'"
    by (auto simp: json_members.simps [of s] b k r split: option.splits list.splits if_splits)
  have l': "length r' < length s" using json_skip_Cons [OF c] 3(1) [OF b refl k refl r] v l by force
  show ?case
    using 3(3) l l' 3(2) [OF b refl k refl r _ v refl c]
    by (fastforce simp: json_members.simps [of s] b k r v c split: if_splits)
qed

section \<open>Values are read back\<close>

fun json_plain :: "json \<Rightarrow> bool" where
  "json_plain (JNum q) = plain_number q"
| "json_plain JWide = False"
| "json_plain (JArr vs) = list_all json_plain vs"
| "json_plain (JObj ms) = list_all (\<lambda>(k, v). k \<noteq> None \<and> json_plain v) ms"
| "json_plain v = True"

lemma js_join_one [simp]: "js_join sep [x] = x"
  by (simp add: js_join_def)

lemma js_join_more: "js_join sep (x # y # ys) = x @ sep @ js_join sep (y # ys)"
  by (simp add: js_join_def)

lemma json_skip_nonspace [simp]: "\<not> json_space c \<Longrightarrow> json_skip (c # s) = c # s"
  by (simp add: json_skip_def)

lemma json_nonspace [simp]:
  "\<not> json_space (CHR ''\"'')" "\<not> json_space (CHR ''['')" "\<not> json_space (CHR '']'')" "\<not> json_space (CHR ''{'')"
  "\<not> json_space (CHR ''}'')" "\<not> json_space (CHR '','')" "\<not> json_space (CHR '':'')" "\<not> json_space (CHR ''n'')"
  "\<not> json_space (CHR ''t'')" "\<not> json_space (CHR ''f'')" "\<not> json_space (CHR ''-'')"
  by code_simp+

lemma digit_not_json_space: "is_digit_char c \<Longrightarrow> \<not> json_space c"
  by (auto simp: json_space_def is_digit_char_def Let_def)

lemma json_string_quote [simp]: "json_string (json_escape v @ CHR ''\"'' # rest) = Some (JsonText v, rest)"
  using closing_quote_escape [of v rest] by (simp add: json_string_def json_parse_escape)

definition reads_back :: "json \<Rightarrow> bool" where
  "reads_back v \<longleftrightarrow> (\<forall>rest. number_end rest \<longrightarrow> json_value (json_stringify v @ rest) = Some (v, rest))"

lemma reads_back_elements:
  assumes "vs \<noteq> []" "\<And>v. v \<in> set vs \<Longrightarrow> reads_back v"
  shows "json_elements (js_join '','' (map json_stringify vs) @ CHR '']'' # rest) = Some (vs, rest)"
  using assms
proof (induction vs rule: list_nonempty_induct)
  case (single v)
  then have "json_value (json_stringify v @ CHR '']'' # rest) = Some (v, CHR '']'' # rest)"
    by (simp add: reads_back_def number_end_def)
  then show ?case by (simp add: json_elements.simps)
next
  case (cons v vs)
  then obtain w ws where vs: "vs = w # ws" by (cases vs) auto
  let ?r = "js_join '','' (map json_stringify vs) @ CHR '']'' # rest"
  have "json_value (json_stringify v @ CHR '','' # ?r) = Some (v, CHR '','' # ?r)"
    using cons.prems by (simp add: reads_back_def number_end_def)
  moreover have "js_join '','' (map json_stringify (v # vs)) @ CHR '']'' # rest = json_stringify v @ CHR '','' # ?r"
    by (simp add: vs js_join_more)
  ultimately show ?case using cons by (simp add: json_elements.simps [of "json_stringify v @ CHR '','' # ?r"])
qed

definition member_text :: "string option \<times> json \<Rightarrow> string" where
  "member_text = (\<lambda>(k, v). json_quote (case k of Some t \<Rightarrow> t | None \<Rightarrow> []) @ '':'' @ json_stringify v)"

lemma json_stringify_JObj: "json_stringify (JObj ms) = CHR ''{'' # js_join '','' (map member_text ms) @ ''}''"
  by (simp add: member_text_def)

lemma reads_back_member:
  assumes "reads_back v" "number_end rest"
  shows "json_members (member_text (Some k, v) @ rest) =
    (case json_skip rest of
       [] \<Rightarrow> None
     | c # r' \<Rightarrow>
         if c = CHR ''}'' then Some ([(Some k, v)], r')
         else if c = CHR '','' \<and> length r' < length (member_text (Some k, v) @ rest)
         then map_option (\<lambda>(ms, rest''). ((Some k, v) # ms, rest'')) (json_members r')
         else None)"
proof -
  have "member_text (Some k, v) @ rest = CHR ''\"'' # json_escape k @ CHR ''\"'' # CHR '':'' # json_stringify v @ rest"
    by (simp add: member_text_def json_quote_def)
  then show ?thesis
    using assms by (subst json_members.simps) (simp add: reads_back_def split: list.split)
qed

lemma reads_back_members:
  assumes "ms \<noteq> []" "\<And>k v. (k, v) \<in> set ms \<Longrightarrow> k \<noteq> None \<and> reads_back v"
  shows "json_members (js_join '','' (map member_text ms) @ CHR ''}'' # rest) = Some (ms, rest)"
  using assms
proof (induction ms rule: list_nonempty_induct)
  case (single m)
  then obtain k v where m: "m = (Some k, v)" "reads_back v" by (cases m) auto
  then show ?case by (simp add: reads_back_member number_end_def)
next
  case (cons m ms)
  then obtain w ws where ms: "ms = w # ws" by (cases ms) auto
  from cons.prems obtain k v where m: "m = (Some k, v)" "reads_back v" by (cases m) auto
  let ?r = "js_join '','' (map member_text ms) @ CHR ''}'' # rest"
  have "js_join '','' (map member_text (m # ms)) @ CHR ''}'' # rest = member_text m @ CHR '','' # ?r"
    by (simp add: ms js_join_more)
  moreover have "json_members ?r = Some (ms, rest)" using cons.prems by (intro cons.IH) auto
  ultimately show ?case using m by (simp add: reads_back_member number_end_def)
qed

lemma number_text_head: "\<exists>c r. number_text q = c # r \<and> (is_digit_char c \<or> c = CHR ''-'')"
proof -
  obtain c r where "nat_dec (nat \<lfloor>\<bar>q\<bar>\<rfloor>) = c # r" using nat_dec_ne by (meson neq_Nil_conv)
  moreover from this have "is_digit_char c" using nat_dec_chars by (metis list.set_intros(1))
  ultimately show ?thesis by (simp add: number_text_def Let_def)
qed

lemma json_stringify_head: "\<exists>c r. json_stringify v = c # r \<and> \<not> json_space c \<and> c \<noteq> CHR '']''"
proof (cases v)
  case (JNum q)
  have "\<not> is_digit_char (CHR '']'')" by code_simp
  then show ?thesis using number_text_head [of q] digit_not_json_space JNum by fastforce
qed (auto simp: json_quote_def)

lemma json_value_stringify: "json_plain v \<Longrightarrow> reads_back v"
proof (induction v)
  case (JNum q)
  obtain c r where t: "number_text q = c # r" and c: "is_digit_char c \<or> c = CHR ''-''" using number_text_head by blast
  have "\<not> is_digit_char (CHR ''\"'')" "\<not> is_digit_char (CHR ''['')" "\<not> is_digit_char (CHR ''{'')"
    "\<not> is_digit_char (CHR ''n'')" "\<not> is_digit_char (CHR ''t'')" "\<not> is_digit_char (CHR ''f'')" by code_simp+
  with c have c': "c \<noteq> CHR ''\"''" "c \<noteq> CHR ''[''" "c \<noteq> CHR ''{''" "c \<noteq> CHR ''n''" "c \<noteq> CHR ''t''" "c \<noteq> CHR ''f''"
    by auto
  have sp: "\<not> json_space c" using c digit_not_json_space by auto
  show ?case
    unfolding reads_back_def
  proof (intro allI impI)
    fix rest assume "number_end rest"
    then have "json_number (c # r @ rest) = Some (q, rest)"
      using json_number_text [of q rest] JNum by (simp add: t)
    then show "json_value (json_stringify (JNum q) @ rest) = Some (JNum q, rest)"
      using c' sp by (simp add: t json_value.simps)
  qed
next
  case (JArr vs)
  then have vs: "vs \<noteq> [] \<Longrightarrow> json_elements (js_join '','' (map json_stringify vs) @ CHR '']'' # rest) = Some (vs, rest)" for rest
    by (intro reads_back_elements) (auto simp: list_all_iff)
  show ?case
  proof (cases "vs = []")
    case True
    then show ?thesis by (simp add: reads_back_def json_value.simps js_join_def)
  next
    case False
    then obtain w ws where w: "vs = w # ws" by (cases vs) auto
    obtain c r where "json_stringify w = c # r" "\<not> json_space c" "c \<noteq> CHR '']''" using json_stringify_head by blast
    then have "take 1 (json_skip (js_join '','' (map json_stringify vs) @ CHR '']'' # rest)) \<noteq> '']''" for rest
      by (simp add: w js_join_def)
    then show ?thesis using vs [OF False] by (simp add: reads_back_def json_value.simps)
  qed
next
  case (JObj ms)
  then have ms: "ms \<noteq> [] \<Longrightarrow> json_members (js_join '','' (map member_text ms) @ CHR ''}'' # rest) = Some (ms, rest)" for rest
    by (intro reads_back_members) (fastforce simp: list_all_iff)+
  show ?case
  proof (cases "ms = []")
    case True
    then show ?thesis by (simp add: reads_back_def json_value.simps js_join_def)
  next
    case False
    then obtain w ws where w: "ms = w # ws" by (cases ms) auto
    have "take 1 (json_skip (js_join '','' (map member_text ms) @ CHR ''}'' # rest)) \<noteq> ''}''" for rest
      by (simp add: w js_join_def member_text_def json_quote_def split: prod.split)
    then show ?thesis
      using ms [OF False] unfolding reads_back_def json_stringify_JObj by (simp add: json_value.simps)
  qed
qed (simp_all add: reads_back_def json_value.simps json_quote_def)

lemma JSON_parse_stringify: "json_plain v \<Longrightarrow> JSON_parse (json_stringify v) = Some v"
proof -
  assume "json_plain v"
  then have "json_value (json_stringify v @ []) = Some (v, [])"
    using json_value_stringify unfolding reads_back_def by (simp add: number_end_def del: append_Nil2)
  then show ?thesis by (simp add: JSON_parse_def json_skip_def)
qed

end
