(* ===== verification/TextFields.thy ===== *)
theory TextFields
  imports Prelude
begin

text \<open>
  Normalization and byte caps of the texts that identify a node (\<^verbatim>\<open>packages/ad-script/src/internal/target-annotation-serde.ts\<close>),
  shared by the annotations of scripts and the identities of nodes. On Latin-1 texts the normal form NFC is the
  identity, a code unit has one or two UTF-8 bytes and no unit is half of a surrogate pair.
\<close>

definition TARGET_ANNOTATION_MAX_FIELD_BYTES :: nat where
  "TARGET_ANNOTATION_MAX_FIELD_BYTES = 256"

definition nfc :: "string \<Rightarrow> string" where
  "nfc v = v"

declare nfc_def [simp]

definition normalizeIdentifierField :: "string option \<Rightarrow> string option" where
  "normalizeIdentifierField v =
     (case v of None \<Rightarrow> None
      | Some t \<Rightarrow> let normalized = nfc t in if length normalized > 0 then Some normalized else None)"

definition normalizeRoleField :: "string \<Rightarrow> string" where
  "normalizeRoleField v = nfc v"

definition normalizeLabelField :: "string option \<Rightarrow> string option" where
  "normalizeLabelField v =
     (case v of None \<Rightarrow> None
      | Some t \<Rightarrow> let collapsed = collapse_spaces (js_trim (nfc t)) in if length collapsed > 0 then Some collapsed else None)"

definition utf8ByteLength :: "string \<Rightarrow> nat" where
  "utf8ByteLength s = sum_list (map (\<lambda>c. if (of_char c :: nat) < 128 then 1 else 2) s)"

text \<open>The loop of \<open>truncateToUtf8Bytes\<close> over the end of the part that is kept; no code unit is a surrogate.\<close>

fun truncate_loop :: "string \<Rightarrow> nat \<Rightarrow> nat \<Rightarrow> nat" where
  "truncate_loop s maxBytes 0 = 0"
| "truncate_loop s maxBytes (Suc n) =
     (if utf8ByteLength (take (Suc n) s) > maxBytes then truncate_loop s maxBytes n else Suc n)"

definition truncateToUtf8Bytes :: "string \<Rightarrow> nat \<Rightarrow> string" where
  "truncateToUtf8Bytes s maxBytes =
     (if utf8ByteLength s \<le> maxBytes then s else take (truncate_loop s maxBytes (length s)) s)"

section \<open>Collapsed white space\<close>

lemma collapse_spaces_hd:
  "s \<noteq> [] \<Longrightarrow> collapse_spaces s \<noteq> [] \<and> (\<not> is_js_space (hd s) \<longrightarrow> hd (collapse_spaces s) = hd s)"
  by (cases s) auto

lemma collapse_spaces_last:
  "s \<noteq> [] \<Longrightarrow> is_js_space (last (collapse_spaces s)) = is_js_space (last s)"
proof (induction s rule: collapse_spaces.induct)
  case (2 c s)
  have sp: "is_js_space (CHR '' '')" by code_simp
  show ?case
  proof (cases "is_js_space c")
    case False
    then show ?thesis using 2(2) collapse_spaces_hd [of s] by (cases "s = []") auto
  next
    case True
    show ?thesis
    proof (cases "dropWhile is_js_space s = []")
      case True
      then have "list_all is_js_space s" by (simp add: list_all_iff)
      then have "is_js_space (last (c # s))" using \<open>is_js_space c\<close> by (simp add: list_all_iff)
      moreover have "collapse_spaces (c # s) = '' ''"
        using \<open>is_js_space c\<close> unfolding collapse_spaces.simps True by simp
      ultimately show ?thesis using sp by simp
    next
      case False
      then have "s \<noteq> []" by auto
      then have "last (c # s) = last (dropWhile is_js_space s)"
        using False by (metis dropWhile_append3 last_ConsR last_appendR takeWhile_dropWhile_id)
      moreover have "collapse_spaces (dropWhile is_js_space s) \<noteq> []" using False collapse_spaces_hd by blast
      ultimately show ?thesis using 2(1) True False by simp
    qed
  qed
qed simp

lemma collapse_spaces_idem [simp]: "collapse_spaces (collapse_spaces s) = collapse_spaces s"
proof (induction s rule: collapse_spaces.induct)
  case (2 c s)
  have sp: "is_js_space (CHR '' '')" by code_simp
  let ?t = "dropWhile is_js_space s"
  have "dropWhile is_js_space (collapse_spaces ?t) = collapse_spaces ?t"
  proof (cases "?t = []")
    case False
    then have "\<not> is_js_space (hd (collapse_spaces ?t))" "collapse_spaces ?t \<noteq> []"
      using collapse_spaces_hd [OF False] hd_dropWhile [OF False] by auto
    then show ?thesis by (cases "collapse_spaces ?t") auto
  next
    case True
    show ?thesis unfolding True by simp
  qed
  then show ?case using 2 sp by simp
qed simp

lemma trimmed_collapse: "trimmed s \<Longrightarrow> trimmed (collapse_spaces s)"
  using collapse_spaces_hd [of s] collapse_spaces_last [of s] by (cases "s = []") (auto simp: trimmed_def)

lemma label_normalized: "normalizeLabelField (normalizeLabelField v) = normalizeLabelField v"
  by (auto simp: normalizeLabelField_def nfc_def Let_def js_trim_trimmed trimmed_collapse trimmed_js_trim split: option.split)

lemma identifier_normalized: "normalizeIdentifierField (normalizeIdentifierField v) = normalizeIdentifierField v"
  by (auto simp: normalizeIdentifierField_def nfc_def Let_def split: option.split)

section \<open>Truncation\<close>

lemma truncate_loop_fits: "utf8ByteLength (take (truncate_loop s m n) s) \<le> m"
  by (induction n) (simp_all add: utf8ByteLength_def)

lemma truncate_fits: "utf8ByteLength (truncateToUtf8Bytes s m) \<le> m"
  by (simp add: truncateToUtf8Bytes_def truncate_loop_fits)

lemma truncate_short: "utf8ByteLength s \<le> m \<Longrightarrow> truncateToUtf8Bytes s m = s"
  by (simp add: truncateToUtf8Bytes_def)

end
