(* ===== verification/TargetAnnotation.thy ===== *)
theory TargetAnnotation
  imports Json TextFields
begin

text \<open>
  Target annotations of recorded scripts (\<^verbatim>\<open>packages/ad-script/src/internal/target-annotation-serde.ts\<close>, with the
  shape of \<^verbatim>\<open>packages/contracts/src/target-annotation.ts\<close>): the comment line that names the element an action
  was recorded on, its writer and its parser, which are inverse to each other on the annotations
  the parser accepts.

  Texts are Latin-1, on which the normal form NFC is the identity and the UTF-8 length of a code unit is one
  or two bytes.
\<close>

section \<open>The shape\<close>

record ancestry_entry =
  ae_role :: string
  ae_label :: "string option"

record scroll_region =
  rg_role :: string
  rg_id :: "string option"
  rg_label :: "string option"

record target_rect =
  tr_x :: rat
  tr_y :: rat
  tr_width :: rat
  tr_height :: rat

datatype verification = Verified | Unverifiable

record target_annotation =
  ta_id :: "string option"
  ta_role :: string
  ta_label :: "string option"
  ta_ancestry :: "ancestry_entry list"
  ta_sibling :: int
  ta_viewportOrder :: int
  ta_scrollRegion :: "scroll_region option"
  ta_rect :: "target_rect option"
  ta_verification :: verification

datatype annotation_error =
    PayloadTooLarge
  | NotJson
  | NotAnObject string
  | FieldRequired string
  | FieldNotText string
  | FieldTooLong string
  | AncestryNotArray
  | AncestryTooLong
  | NotNonNegativeInt string
  | NotFiniteNumber string
  | BadVerification
  | WideText string

section \<open>Caps\<close>

definition TARGET_ANNOTATION_MAX_PAYLOAD_BYTES :: nat where
  "TARGET_ANNOTATION_MAX_PAYLOAD_BYTES = 4096"

definition TARGET_ANNOTATION_MAX_ANCESTRY :: nat where
  "TARGET_ANNOTATION_MAX_ANCESTRY = 8"

section \<open>Writing\<close>

definition text_member :: "string \<Rightarrow> string option \<Rightarrow> (string option \<times> json) list" where
  "text_member k v = (case v of None \<Rightarrow> [] | Some t \<Rightarrow> [(Some k, JStr t)])"

definition buildAncestryEntryObject :: "ancestry_entry \<Rightarrow> json" where
  "buildAncestryEntryObject entry =
     JObj ((Some ''role'', JStr (ae_role entry)) # text_member ''label'' (ae_label entry))"

definition buildScrollRegionObject :: "scroll_region \<Rightarrow> json" where
  "buildScrollRegionObject region =
     JObj ((Some ''role'', JStr (rg_role region)) # text_member ''id'' (rg_id region) @ text_member ''label'' (rg_label region))"

definition buildRectObject :: "target_rect \<Rightarrow> json" where
  "buildRectObject rect =
     JObj [(Some ''x'', JNum (tr_x rect)), (Some ''y'', JNum (tr_y rect)),
           (Some ''width'', JNum (tr_width rect)), (Some ''height'', JNum (tr_height rect))]"

fun verification_text :: "verification \<Rightarrow> string" where
  "verification_text Verified = ''verified''"
| "verification_text Unverifiable = ''unverifiable''"

definition buildCanonicalTargetAnnotationObject :: "target_annotation \<Rightarrow> json" where
  "buildCanonicalTargetAnnotationObject evidence =
     JObj (text_member ''id'' (ta_id evidence) @
           [(Some ''role'', JStr (ta_role evidence))] @
           text_member ''label'' (ta_label evidence) @
           [(Some ''ancestry'', JArr (map buildAncestryEntryObject (ta_ancestry evidence))),
            (Some ''sibling'', JNum (of_int (ta_sibling evidence))),
            (Some ''viewportOrder'', JNum (of_int (ta_viewportOrder evidence)))] @
           (case ta_scrollRegion evidence of None \<Rightarrow> [] | Some r \<Rightarrow> [(Some ''scrollRegion'', buildScrollRegionObject r)]) @
           (case ta_rect evidence of None \<Rightarrow> [] | Some r \<Rightarrow> [(Some ''rect'', buildRectObject r)]) @
           [(Some ''verification'', JStr (verification_text (ta_verification evidence)))])"

definition serializeTargetAnnotationV1 :: "target_annotation \<Rightarrow> string" where
  "serializeTargetAnnotationV1 evidence = json_stringify (buildCanonicalTargetAnnotationObject evidence)"

definition TARGET_ANNOTATION_TAG :: string where
  "TARGET_ANNOTATION_TAG = ''agent-device:target-v1''"

definition formatTargetAnnotationCommentLine :: "target_annotation \<Rightarrow> string" where
  "formatTargetAnnotationCommentLine evidence =
     ''# '' @ TARGET_ANNOTATION_TAG @ '' '' @ serializeTargetAnnotationV1 evidence"

section \<open>Parsing\<close>

definition boundField :: "string \<Rightarrow> string \<Rightarrow> annotation_error + string" where
  "boundField v field = (if utf8ByteLength v > TARGET_ANNOTATION_MAX_FIELD_BYTES then Inl (FieldTooLong field) else Inr v)"

definition text_of :: "json \<Rightarrow> string \<Rightarrow> annotation_error + string" where
  "text_of v field = (case v of JStr t \<Rightarrow> Inr t | JWide \<Rightarrow> Inl (WideText field) | _ \<Rightarrow> Inl (FieldNotText field))"

definition parseRequiredRoleField :: "json option \<Rightarrow> string \<Rightarrow> annotation_error + string" where
  "parseRequiredRoleField v field =
     (case v of
        None \<Rightarrow> Inl (FieldRequired field)
      | Some j \<Rightarrow> rbind (text_of j field) (\<lambda>t. boundField (normalizeRoleField t) field))"

definition bound_option :: "string option \<Rightarrow> string \<Rightarrow> annotation_error + string option" where
  "bound_option v field =
     (case v of None \<Rightarrow> Inr None | Some t \<Rightarrow> rbind (boundField t field) (\<lambda>b. Inr (Some b)))"

definition parseOptionalIdentifierField :: "json option \<Rightarrow> string \<Rightarrow> annotation_error + string option" where
  "parseOptionalIdentifierField v field =
     (case v of
        None \<Rightarrow> Inr None
      | Some j \<Rightarrow> rbind (text_of j field) (\<lambda>t. bound_option (normalizeIdentifierField (Some t)) field))"

definition parseOptionalLabelField :: "json option \<Rightarrow> string \<Rightarrow> annotation_error + string option" where
  "parseOptionalLabelField v field =
     (case v of
        None \<Rightarrow> Inr None
      | Some j \<Rightarrow> rbind (text_of j field) (\<lambda>t. bound_option (normalizeLabelField (Some t)) field))"

definition object_of :: "json \<Rightarrow> string \<Rightarrow> annotation_error + (string option \<times> json) list" where
  "object_of v field = (case v of JObj ms \<Rightarrow> Inr ms | _ \<Rightarrow> Inl (NotAnObject field))"

definition ancestry_field :: "nat \<Rightarrow> string" where
  "ancestry_field i = ''ancestry['' @ nat_dec i @ '']''"

definition parseAncestryEntry :: "json \<Rightarrow> nat \<Rightarrow> annotation_error + ancestry_entry" where
  "parseAncestryEntry entry index =
     rbind (object_of entry (ancestry_field index)) (\<lambda>ms.
     rbind (parseRequiredRoleField (json_get ''role'' ms) (ancestry_field index @ ''.role'')) (\<lambda>role.
     rbind (parseOptionalLabelField (json_get ''label'' ms) (ancestry_field index @ ''.label'')) (\<lambda>label.
     Inr \<lparr>ae_role = role, ae_label = label\<rparr>)))"

fun parse_ancestry_entries :: "nat \<Rightarrow> json list \<Rightarrow> annotation_error + ancestry_entry list" where
  "parse_ancestry_entries i [] = Inr []"
| "parse_ancestry_entries i (v # vs) =
     rbind (parseAncestryEntry v i) (\<lambda>e. rbind (parse_ancestry_entries (Suc i) vs) (\<lambda>es. Inr (e # es)))"

definition parseAncestryField :: "json option \<Rightarrow> annotation_error + ancestry_entry list" where
  "parseAncestryField v =
     (case v of
        None \<Rightarrow> Inr []
      | Some (JArr vs) \<Rightarrow>
          if length vs > TARGET_ANNOTATION_MAX_ANCESTRY then Inl AncestryTooLong else parse_ancestry_entries 0 vs
      | Some _ \<Rightarrow> Inl AncestryNotArray)"

definition max_safe_integer :: int where
  "max_safe_integer = 9007199254740991"

definition parseNonNegativeIntField :: "json option \<Rightarrow> string \<Rightarrow> int \<Rightarrow> annotation_error + int" where
  "parseNonNegativeIntField v field fallback =
     (case v of
        None \<Rightarrow> Inr fallback
      | Some (JNum q) \<Rightarrow>
          if of_int \<lfloor>q\<rfloor> \<noteq> q \<or> \<bar>q\<bar> > of_int max_safe_integer \<or> q < 0 then Inl (NotNonNegativeInt field)
          else Inr \<lfloor>q\<rfloor>
      | Some _ \<Rightarrow> Inl (NotNonNegativeInt field))"

definition parseScrollRegionField :: "json option \<Rightarrow> annotation_error + scroll_region option" where
  "parseScrollRegionField v =
     (case v of
        None \<Rightarrow> Inr None
      | Some j \<Rightarrow>
          rbind (object_of j ''scrollRegion'') (\<lambda>ms.
          rbind (parseRequiredRoleField (json_get ''role'' ms) ''scrollRegion.role'') (\<lambda>role.
          rbind (parseOptionalIdentifierField (json_get ''id'' ms) ''id'') (\<lambda>rid.
          rbind (parseOptionalLabelField (json_get ''label'' ms) ''scrollRegion.label'') (\<lambda>label.
          Inr (Some \<lparr>rg_role = role, rg_id = rid, rg_label = label\<rparr>))))))"

definition parseFiniteNumberField :: "json option \<Rightarrow> string \<Rightarrow> annotation_error + rat" where
  "parseFiniteNumberField v field = (case v of Some (JNum q) \<Rightarrow> Inr q | _ \<Rightarrow> Inl (NotFiniteNumber field))"

definition parseRectField :: "json option \<Rightarrow> annotation_error + target_rect option" where
  "parseRectField v =
     (case v of
        None \<Rightarrow> Inr None
      | Some j \<Rightarrow>
          rbind (object_of j ''rect'') (\<lambda>ms.
          rbind (parseFiniteNumberField (json_get ''x'' ms) ''rect.x'') (\<lambda>x.
          rbind (parseFiniteNumberField (json_get ''y'' ms) ''rect.y'') (\<lambda>y.
          rbind (parseFiniteNumberField (json_get ''width'' ms) ''rect.width'') (\<lambda>width.
          rbind (parseFiniteNumberField (json_get ''height'' ms) ''rect.height'') (\<lambda>height.
          Inr (Some \<lparr>tr_x = x, tr_y = y, tr_width = width, tr_height = height\<rparr>)))))))"

definition parseVerificationField :: "json option \<Rightarrow> annotation_error + verification" where
  "parseVerificationField v =
     (if v = Some (JStr ''verified'') then Inr Verified
      else if v = Some (JStr ''unverifiable'') then Inr Unverifiable
      else Inl BadVerification)"

definition parseTargetAnnotationV1Payload :: "string \<Rightarrow> annotation_error + target_annotation" where
  "parseTargetAnnotationV1Payload jsonText =
     (if utf8ByteLength jsonText > TARGET_ANNOTATION_MAX_PAYLOAD_BYTES then Inl PayloadTooLarge
      else (case JSON_parse jsonText of
              None \<Rightarrow> Inl NotJson
            | Some parsed \<Rightarrow>
                rbind (object_of parsed ''annotation'') (\<lambda>raw.
                rbind (parseRequiredRoleField (json_get ''role'' raw) ''role'') (\<lambda>role.
                rbind (parseOptionalIdentifierField (json_get ''id'' raw) ''id'') (\<lambda>aid.
                rbind (parseOptionalLabelField (json_get ''label'' raw) ''label'') (\<lambda>label.
                rbind (parseAncestryField (json_get ''ancestry'' raw)) (\<lambda>ancestry.
                rbind (parseNonNegativeIntField (json_get ''sibling'' raw) ''sibling'' 0) (\<lambda>sibling.
                rbind (parseNonNegativeIntField (json_get ''viewportOrder'' raw) ''viewportOrder'' 0) (\<lambda>viewportOrder.
                rbind (parseScrollRegionField (json_get ''scrollRegion'' raw)) (\<lambda>scrollRegion.
                rbind (parseRectField (json_get ''rect'' raw)) (\<lambda>rect.
                rbind (parseVerificationField (json_get ''verification'' raw)) (\<lambda>verification.
                Inr \<lparr>ta_id = aid, ta_role = role, ta_label = label, ta_ancestry = ancestry, ta_sibling = sibling,
                     ta_viewportOrder = viewportOrder, ta_scrollRegion = scrollRegion, ta_rect = rect,
                     ta_verification = verification\<rparr>)))))))))) ))"

datatype annotation_line = NoAnnotation | FutureVersion | AnnotationV1 target_annotation

text \<open>The regular expression \<open>^#\s*agent-device:target-v(\d+)(?:\s+(\S.*))?$\<close>: the digits of the version and the payload.\<close>

definition match_annotation_line :: "string \<Rightarrow> (string \<times> string) option" where
  "match_annotation_line line =
     (let t = dropWhile is_js_space (drop 1 line);
          mark = ''agent-device:target-v'';
          s = drop (length mark) t;
          digits = takeWhile is_digit_char s;
          r = drop (length digits) s;
          payload = dropWhile is_js_space r
      in if take 1 line \<noteq> ''#'' \<or> take (length mark) t \<noteq> mark \<or> digits = [] then None
         else if r = [] then Some (digits, [])
         else if is_js_space (hd r) \<and> payload \<noteq> [] \<and> list_all (\<lambda>c. c \<noteq> CHR 0x0A \<and> c \<noteq> CHR 0x0D) (tl payload)
         then Some (digits, payload) else None)"

definition parseTargetAnnotationCommentLine :: "string \<Rightarrow> annotation_error + annotation_line" where
  "parseTargetAnnotationCommentLine rawLine =
     (let trimmed = js_trim rawLine
      in if take 1 trimmed \<noteq> ''#'' then Inr NoAnnotation
         else (case match_annotation_line trimmed of
                 None \<Rightarrow> Inr NoAnnotation
               | Some (digits, payload) \<Rightarrow>
                   if dec_val digits \<noteq> 1 then Inr FutureVersion
                   else rbind (parseTargetAnnotationV1Payload (js_trim payload)) (\<lambda>e. Inr (AnnotationV1 e))))"

section \<open>Well-formed annotations\<close>

definition field_fits :: "string \<Rightarrow> bool" where
  "field_fits t \<longleftrightarrow> utf8ByteLength t \<le> TARGET_ANNOTATION_MAX_FIELD_BYTES"

definition identifier_ok :: "string option \<Rightarrow> bool" where
  "identifier_ok v \<longleftrightarrow> normalizeIdentifierField v = v \<and> (\<forall>t. v = Some t \<longrightarrow> field_fits t)"

definition label_ok :: "string option \<Rightarrow> bool" where
  "label_ok v \<longleftrightarrow> normalizeLabelField v = v \<and> (\<forall>t. v = Some t \<longrightarrow> field_fits t)"

definition ancestry_ok :: "ancestry_entry list \<Rightarrow> bool" where
  "ancestry_ok es \<longleftrightarrow> length es \<le> TARGET_ANNOTATION_MAX_ANCESTRY \<and>
     list_all (\<lambda>e. field_fits (ae_role e) \<and> label_ok (ae_label e)) es"

definition annotation_ok :: "target_annotation \<Rightarrow> bool" where
  "annotation_ok a \<longleftrightarrow>
     identifier_ok (ta_id a) \<and> field_fits (ta_role a) \<and> label_ok (ta_label a) \<and> ancestry_ok (ta_ancestry a) \<and>
     0 \<le> ta_sibling a \<and> ta_sibling a \<le> max_safe_integer \<and>
     0 \<le> ta_viewportOrder a \<and> ta_viewportOrder a \<le> max_safe_integer \<and>
     (\<forall>r. ta_scrollRegion a = Some r \<longrightarrow> field_fits (rg_role r) \<and> identifier_ok (rg_id r) \<and> label_ok (rg_label r))"

section \<open>Accepted annotations are well formed\<close>

lemma boundField_Inr: "boundField v f = Inr b \<longleftrightarrow> b = v \<and> field_fits v"
  by (auto simp: boundField_def field_fits_def)

lemma bound_option_Inr: "bound_option v f = Inr b \<longleftrightarrow> b = v \<and> (\<forall>t. v = Some t \<longrightarrow> field_fits t)"
  by (auto simp: bound_option_def rbind_Inr_iff boundField_Inr split: option.splits)

lemma role_accepted: "parseRequiredRoleField v f = Inr r \<Longrightarrow> field_fits r"
  by (auto simp: parseRequiredRoleField_def rbind_Inr_iff boundField_Inr split: option.splits)

lemma identifier_accepted: "parseOptionalIdentifierField v f = Inr r \<Longrightarrow> identifier_ok r"
  using identifier_normalized
  by (auto simp: parseOptionalIdentifierField_def rbind_Inr_iff bound_option_Inr identifier_ok_def
      split: option.splits) (simp_all add: normalizeIdentifierField_def)

lemma label_accepted: "parseOptionalLabelField v f = Inr r \<Longrightarrow> label_ok r"
  using label_normalized
  by (auto simp: parseOptionalLabelField_def rbind_Inr_iff bound_option_Inr label_ok_def
      split: option.splits) (simp_all add: normalizeLabelField_def)

lemma ancestry_entries_accepted:
  "parse_ancestry_entries i vs = Inr es \<Longrightarrow>
   length es = length vs \<and> list_all (\<lambda>e. field_fits (ae_role e) \<and> label_ok (ae_label e)) es"
  by (induction vs arbitrary: i es)
    (auto simp: rbind_Inr_iff parseAncestryEntry_def dest!: role_accepted label_accepted)

lemma ancestry_accepted: "parseAncestryField v = Inr es \<Longrightarrow> ancestry_ok es"
  by (auto simp: parseAncestryField_def ancestry_ok_def dest: ancestry_entries_accepted
      split: option.splits json.splits if_splits)

lemma int_accepted:
  assumes "parseNonNegativeIntField v f d = Inr n" "0 \<le> d" "d \<le> max_safe_integer"
  shows "0 \<le> n \<and> n \<le> max_safe_integer"
  using assms by (auto simp: parseNonNegativeIntField_def floor_le_iff split: option.splits json.splits if_splits)

lemma region_accepted:
  "parseScrollRegionField v = Inr (Some r) \<Longrightarrow> field_fits (rg_role r) \<and> identifier_ok (rg_id r) \<and> label_ok (rg_label r)"
  by (auto simp: parseScrollRegionField_def rbind_Inr_iff dest!: role_accepted identifier_accepted label_accepted
      split: option.splits)

lemma payload_accepted: "parseTargetAnnotationV1Payload s = Inr a \<Longrightarrow> annotation_ok a"
  by (auto simp: parseTargetAnnotationV1Payload_def rbind_Inr_iff annotation_ok_def
      dest!: role_accepted identifier_accepted label_accepted ancestry_accepted int_accepted region_accepted
      split: option.splits if_splits) (simp_all add: max_safe_integer_def)

section \<open>Written annotations are read back\<close>

lemma json_get_simps [simp]:
  "json_get k [] = None"
  "json_get k ((l, v) # ms) = (case json_get k ms of Some w \<Rightarrow> Some w | None \<Rightarrow> if l = Some k then Some v else None)"
  "json_get k (xs @ ys) = (case json_get k ys of Some w \<Rightarrow> Some w | None \<Rightarrow> json_get k xs)"
  "json_get k (text_member m t) = (if k = m then map_option JStr t else None)"
  by (auto simp: json_get_def text_member_def map_add_def split: option.split)

lemma role_read [simp]: "field_fits t \<Longrightarrow> parseRequiredRoleField (Some (JStr t)) f = Inr t"
  by (simp add: parseRequiredRoleField_def text_of_def normalizeRoleField_def nfc_def boundField_Inr)

lemma bound_option_read: "(\<And>t. v = Some t \<Longrightarrow> field_fits t) \<Longrightarrow> bound_option v f = Inr v"
  by (simp add: bound_option_Inr)

lemma identifier_read [simp]: "identifier_ok v \<Longrightarrow> parseOptionalIdentifierField (map_option JStr v) f = Inr v"
  by (cases v) (auto simp: parseOptionalIdentifierField_def text_of_def identifier_ok_def intro: bound_option_read)

lemma label_read [simp]: "label_ok v \<Longrightarrow> parseOptionalLabelField (map_option JStr v) f = Inr v"
  by (cases v) (auto simp: parseOptionalLabelField_def text_of_def label_ok_def intro: bound_option_read)

lemma absent_read [simp]: "parseOptionalIdentifierField None f = Inr None" "parseOptionalLabelField None f = Inr None"
  by (simp_all add: parseOptionalIdentifierField_def parseOptionalLabelField_def)

lemma int_read [simp]:
  "0 \<le> n \<Longrightarrow> n \<le> max_safe_integer \<Longrightarrow> parseNonNegativeIntField (Some (JNum (of_int n))) f d = Inr n"
  by (simp add: parseNonNegativeIntField_def flip: of_int_abs)

lemma verification_read [simp]: "parseVerificationField (Some (JStr (verification_text v))) = Inr v"
  by (cases v) (simp_all add: parseVerificationField_def)

lemma ancestry_entries_read:
  "list_all (\<lambda>e. field_fits (ae_role e) \<and> label_ok (ae_label e)) es \<Longrightarrow>
   parse_ancestry_entries i (map buildAncestryEntryObject es) = Inr es"
  by (induction es arbitrary: i) (simp_all add: parseAncestryEntry_def buildAncestryEntryObject_def object_of_def option.case_eq_if)

lemma ancestry_read [simp]:
  "ancestry_ok es \<Longrightarrow> parseAncestryField (Some (JArr (map buildAncestryEntryObject es))) = Inr es"
  by (simp add: parseAncestryField_def ancestry_ok_def ancestry_entries_read)

lemma region_read:
  assumes "\<And>r. v = Some r \<Longrightarrow> field_fits (rg_role r) \<and> identifier_ok (rg_id r) \<and> label_ok (rg_label r)"
  shows "parseScrollRegionField (map_option buildScrollRegionObject v) = Inr v"
proof (cases v)
  case (Some r)
  have "json_get ''role'' ms = Some (JStr (rg_role r)) \<and> json_get ''id'' ms = map_option JStr (rg_id r) \<and>
      json_get ''label'' ms = map_option JStr (rg_label r)"
    if "ms = (Some ''role'', JStr (rg_role r)) # text_member ''id'' (rg_id r) @ text_member ''label'' (rg_label r)" for ms
    unfolding that by (simp split: option.split)
  then show ?thesis
    using assms [OF Some] by (simp add: Some parseScrollRegionField_def buildScrollRegionObject_def object_of_def)
qed (simp add: parseScrollRegionField_def)

lemma rect_read: "parseRectField (map_option buildRectObject v) = Inr v"
  by (cases v) (simp_all add: parseRectField_def buildRectObject_def object_of_def parseFiniteNumberField_def)

definition canonical_members :: "target_annotation \<Rightarrow> (string option \<times> json) list" where
  "canonical_members evidence =
     text_member ''id'' (ta_id evidence) @
           [(Some ''role'', JStr (ta_role evidence))] @
           text_member ''label'' (ta_label evidence) @
           [(Some ''ancestry'', JArr (map buildAncestryEntryObject (ta_ancestry evidence))),
            (Some ''sibling'', JNum (of_int (ta_sibling evidence))),
            (Some ''viewportOrder'', JNum (of_int (ta_viewportOrder evidence)))] @
           (case ta_scrollRegion evidence of None \<Rightarrow> [] | Some r \<Rightarrow> [(Some ''scrollRegion'', buildScrollRegionObject r)]) @
           (case ta_rect evidence of None \<Rightarrow> [] | Some r \<Rightarrow> [(Some ''rect'', buildRectObject r)]) @
           [(Some ''verification'', JStr (verification_text (ta_verification evidence)))]"

lemma canonical_lookups:
  "json_get ''role'' (canonical_members a) = Some (JStr (ta_role a))"
  "json_get ''id'' (canonical_members a) = map_option JStr (ta_id a)"
  "json_get ''label'' (canonical_members a) = map_option JStr (ta_label a)"
  "json_get ''ancestry'' (canonical_members a) = Some (JArr (map buildAncestryEntryObject (ta_ancestry a)))"
  "json_get ''sibling'' (canonical_members a) = Some (JNum (of_int (ta_sibling a)))"
  "json_get ''viewportOrder'' (canonical_members a) = Some (JNum (of_int (ta_viewportOrder a)))"
  "json_get ''scrollRegion'' (canonical_members a) = map_option buildScrollRegionObject (ta_scrollRegion a)"
  "json_get ''rect'' (canonical_members a) = map_option buildRectObject (ta_rect a)"
  "json_get ''verification'' (canonical_members a) = Some (JStr (verification_text (ta_verification a)))"
  unfolding canonical_members_def by (auto split: option.split)

lemma plain_int: "\<bar>n\<bar> \<le> max_safe_integer \<Longrightarrow> plain_number (of_int n)"
proof -
  assume n: "\<bar>n\<bar> \<le> max_safe_integer"
  then have "\<bar>n\<bar> < 10 ^ 21" by (simp add: max_safe_integer_def)
  then have "(of_int \<bar>n\<bar> :: rat) < of_int (10 ^ 21)" by (simp only: of_int_less_iff)
  then have lt: "\<bar>of_int n :: rat\<bar> < 10 ^ 21" by simp
  have ge: "(of_int n :: rat) = 0 \<or> 1 / 10 ^ 6 \<le> \<bar>of_int n :: rat\<bar>"
  proof (cases "n = 0")
    case False
    then have "1 \<le> \<bar>n\<bar>" by simp
    then have "(of_int 1 :: rat) \<le> of_int \<bar>n\<bar>" by (simp only: of_int_le_iff)
    then show ?thesis by simp
  qed simp
  have "(of_int n :: rat) * 10 ^ 20 = of_int (n * 10 ^ 20)" by simp
  then have "(of_int n :: rat) * 10 ^ 20 = of_int \<lfloor>(of_int n :: rat) * 10 ^ 20\<rfloor>" by (simp only: floor_of_int)
  with lt ge show ?thesis unfolding plain_number_def by blast
qed

definition rect_plain :: "target_annotation \<Rightarrow> bool" where
  "rect_plain a \<longleftrightarrow> (\<forall>r. ta_rect a = Some r \<longrightarrow>
     plain_number (tr_x r) \<and> plain_number (tr_y r) \<and> plain_number (tr_width r) \<and> plain_number (tr_height r))"

lemma text_member_plain: "list_all (\<lambda>(k, v). k \<noteq> None \<and> json_plain v) (text_member k v)"
  by (simp add: text_member_def split: option.split)

lemma canonical_plain:
  assumes "annotation_ok a" "rect_plain a"
  shows "json_plain (JObj (canonical_members a))"
proof -
  note tm = text_member_plain [simplified]
  have "json_plain (buildAncestryEntryObject e)" "json_plain (buildScrollRegionObject r)" for e r
    using tm by (simp_all add: buildAncestryEntryObject_def buildScrollRegionObject_def)
  moreover from this have "list_all json_plain (map buildAncestryEntryObject es)" for es by (simp add: list_all_iff)
  moreover have "plain_number (of_int (ta_sibling a))" "plain_number (of_int (ta_viewportOrder a))"
    using assms(1) by (auto simp: annotation_ok_def intro!: plain_int)
  moreover have "json_plain (buildRectObject r)" if "ta_rect a = Some r" for r
    using assms(2) that by (simp add: rect_plain_def buildRectObject_def)
  ultimately show ?thesis
    using tm by (simp add: canonical_members_def split: option.split)
qed

lemma payload_read:
  assumes "annotation_ok a" "rect_plain a" "utf8ByteLength (serializeTargetAnnotationV1 a) \<le> TARGET_ANNOTATION_MAX_PAYLOAD_BYTES"
  shows "parseTargetAnnotationV1Payload (serializeTargetAnnotationV1 a) = Inr a"
proof -
  have obj: "buildCanonicalTargetAnnotationObject a = JObj (canonical_members a)"
    unfolding buildCanonicalTargetAnnotationObject_def canonical_members_def ..
  have "JSON_parse (serializeTargetAnnotationV1 a) = Some (JObj (canonical_members a))"
    unfolding serializeTargetAnnotationV1_def obj by (rule JSON_parse_stringify [OF canonical_plain [OF assms(1,2)]])
  moreover have "parseScrollRegionField (map_option buildScrollRegionObject (ta_scrollRegion a)) = Inr (ta_scrollRegion a)"
    using assms(1) by (intro region_read) (simp add: annotation_ok_def)
  ultimately show ?thesis
    using assms(1,3)
    by (simp add: parseTargetAnnotationV1Payload_def object_of_def canonical_lookups annotation_ok_def rect_read)
qed

subsection \<open>The line\<close>

definition printable :: "string \<Rightarrow> bool" where
  "printable s \<longleftrightarrow> list_all (\<lambda>c. (32::nat) \<le> of_char c) s"

lemma printable_simps [simp]:
  "printable []" "printable (c # s) \<longleftrightarrow> (32::nat) \<le> of_char c \<and> printable s"
  "printable (s @ t) \<longleftrightarrow> printable s \<and> printable t"
  by (simp_all add: printable_def)

lemma json_escape_printable [simp]: "printable (json_escape v)"
proof -
  have "printable (json_escape_char c)" for c
  proof (cases c rule: json_escape_char_cases)
    case plain
    then show ?thesis using json_parse_escape_char [of c "[]"] by (auto split: if_splits)
  next
    case (simple e)
    then have "e \<in> set (map fst SIMPLE_ESCAPE_REPLACEMENTS)"
      unfolding decodeSimpleEscape_def by (metis map_of_eq_None_iff option.distinct(1) set_map)
    moreover have "printable (map fst SIMPLE_ESCAPE_REPLACEMENTS)" by code_simp
    ultimately show ?thesis using simple(1) by (auto simp: printable_def list_all_iff)
  next
    case (unicode h l)
    have "(32::nat) \<le> of_char (hex_digit d)" if "d < 16" for d
      using hex_digit_facts [OF that] by (auto simp: is_hex_char_def Let_def)
    with unicode show ?thesis by simp
  qed
  then show ?thesis by (induction v) (simp_all add: json_escape_def)
qed

lemma number_text_printable [simp]: "printable (number_text q)"
proof -
  have digits: "printable s" if "list_all is_digit_char s" for s
    using that unfolding printable_def is_digit_char_def Let_def by (auto simp: list_all_iff)
  have "printable (nat_dec n)" for n using nat_dec_digits digits by blast
  moreover have "printable (fraction_text k (\<bar>q\<bar> - of_int \<lfloor>\<bar>q\<bar>\<rfloor>))" for k
    by (intro digits fraction_text_digits) linarith+
  ultimately show ?thesis by (simp add: number_text_def Let_def)
qed

lemma printable_concat: "(\<And>s. s \<in> set ss \<Longrightarrow> printable s) \<Longrightarrow> printable (concat ss)"
  by (induction ss) simp_all

lemma js_join_printable: "printable sep \<Longrightarrow> list_all printable ss \<Longrightarrow> printable (js_join sep ss)"
proof (cases ss)
  case (Cons t ts)
  assume "printable sep" "list_all printable ss"
  then have "printable (concat (map (\<lambda>z. sep @ z) ts))"
    by (intro printable_concat) (auto simp: Cons list_all_iff)
  with \<open>list_all printable ss\<close> show ?thesis by (simp add: Cons js_join_def)
qed (simp add: js_join_def)

lemma json_stringify_printable [simp]: "printable (json_stringify v)"
proof (induction v)
  case (JArr vs)
  then have "list_all printable (map json_stringify vs)" by (simp add: list_all_iff)
  then show ?case by (simp add: js_join_printable)
next
  case (JObj ms)
  have "printable (member_text m)" if "m \<in> set ms" for m
    using JObj.IH [OF that] by (cases m) (simp add: member_text_def json_quote_def)
  then have "list_all printable (map member_text ms)" by (simp add: list_all_iff)
  then show ?case unfolding json_stringify_JObj by (simp add: js_join_printable)
qed (simp_all add: json_quote_def)

lemma printable_no_break: "printable s \<Longrightarrow> list_all (\<lambda>c. c \<noteq> CHR 0x0A \<and> c \<noteq> CHR 0x0D) s"
  by (induction s) auto

lemma serialized_shape: "\<exists>body. serializeTargetAnnotationV1 a = CHR ''{'' # body @ ''}'' \<and> printable body"
proof -
  have "serializeTargetAnnotationV1 a = CHR ''{'' # js_join '','' (map member_text (canonical_members a)) @ ''}''"
    unfolding serializeTargetAnnotationV1_def buildCanonicalTargetAnnotationObject_def canonical_members_def
    by (rule json_stringify_JObj)
  moreover have "printable (serializeTargetAnnotationV1 a)" by (simp add: serializeTargetAnnotationV1_def)
  ultimately show ?thesis by auto
qed

lemma comment_line_match:
  assumes "s = CHR ''{'' # body @ ''}''" "printable body"
  shows "match_annotation_line (''# agent-device:target-v1 '' @ s) = Some (''1'', s)"
    "trimmed (''# agent-device:target-v1 '' @ s)" "trimmed s"
proof -
  have sp: "is_js_space (CHR '' '')" "\<not> is_js_space (CHR ''{'')" "\<not> is_js_space (CHR ''a'')" "\<not> is_js_space (CHR ''#'')"
    "\<not> is_js_space (CHR ''}'')" "is_digit_char (CHR ''1'')" "\<not> is_digit_char (CHR '' '')" by code_simp+
  have t: "dropWhile is_js_space (drop 1 (''# agent-device:target-v1 '' @ s)) = ''agent-device:target-v1 '' @ s"
    using sp by simp
  have len: "length ''agent-device:target-v'' = 21" by simp
  have d: "drop 21 (''agent-device:target-v1 '' @ s) = CHR ''1'' # CHR '' '' # s"
    "take 21 (''agent-device:target-v1 '' @ s) = ''agent-device:target-v''"
    "takeWhile is_digit_char (CHR ''1'' # CHR '' '' # s) = ''1''"
    "drop (length ''1'') (CHR ''1'' # CHR '' '' # s) = CHR '' '' # s"
    "dropWhile is_js_space (CHR '' '' # s) = s"
    using sp by (simp_all add: assms(1))
  have "list_all (\<lambda>c. c \<noteq> CHR 0x0A \<and> c \<noteq> CHR 0x0D) (body @ ''}'')"
    by (rule printable_no_break) (simp add: assms(2))
  then show "match_annotation_line (''# agent-device:target-v1 '' @ s) = Some (''1'', s)"
    unfolding match_annotation_line_def Let_def t len d using sp(1) by (simp add: assms(1))
  show "trimmed (''# agent-device:target-v1 '' @ s)" "trimmed s"
    using sp by (simp_all add: trimmed_def assms(1))
qed

lemma annotation_read:
  assumes "annotation_ok a" "rect_plain a"
    and "utf8ByteLength (serializeTargetAnnotationV1 a) \<le> TARGET_ANNOTATION_MAX_PAYLOAD_BYTES"
  shows "parseTargetAnnotationCommentLine (formatTargetAnnotationCommentLine a) = Inr (AnnotationV1 a)"
proof -
  let ?s = "serializeTargetAnnotationV1 a"
  obtain body where body: "?s = CHR ''{'' # body @ ''}''" "printable body" using serialized_shape by blast
  note m = comment_line_match [OF body]
  have line: "formatTargetAnnotationCommentLine a = ''# agent-device:target-v1 '' @ ?s"
    by (simp add: formatTargetAnnotationCommentLine_def TARGET_ANNOTATION_TAG_def)
  have v: "dec_val ''1'' = 1" by code_simp
  show ?thesis
    unfolding parseTargetAnnotationCommentLine_def Let_def line js_trim_trimmed [OF m(2)] m(1)
    by (simp add: v js_trim_trimmed [OF m(3)] payload_read [OF assms])
qed

definition example_annotation :: target_annotation where
  "example_annotation =
     \<lparr>ta_id = Some ''ok'', ta_role = ''button'', ta_label = Some ''a b'', ta_ancestry = [\<lparr>ae_role = ''w'', ae_label = None\<rparr>],
      ta_sibling = 2, ta_viewportOrder = 0, ta_scrollRegion = None,
      ta_rect = Some \<lparr>tr_x = 1 / 2, tr_y = 3, tr_width = 40, tr_height = 25 / 4\<rparr>, ta_verification = Verified\<rparr>"

lemma example_annotation_ok:
  "annotation_ok example_annotation" "rect_plain example_annotation"
  "utf8ByteLength (serializeTargetAnnotationV1 example_annotation) \<le> TARGET_ANNOTATION_MAX_PAYLOAD_BYTES"
proof -
  show "annotation_ok example_annotation"
    unfolding example_annotation_def
    by (simp add: annotation_ok_def identifier_ok_def label_ok_def ancestry_ok_def max_safe_integer_def
        normalizeIdentifierField_def normalizeLabelField_def nfc_def field_fits_def utf8ByteLength_def
        TARGET_ANNOTATION_MAX_FIELD_BYTES_def TARGET_ANNOTATION_MAX_ANCESTRY_def js_string_defs)
  show "rect_plain example_annotation"
    unfolding example_annotation_def by (simp add: rect_plain_def plain_number_def)
  show "utf8ByteLength (serializeTargetAnnotationV1 example_annotation) \<le> TARGET_ANNOTATION_MAX_PAYLOAD_BYTES"
    by code_simp
qed

text \<open>C32. The parser reads back every annotation the writer writes: the comment line of a well-formed annotation
  within the payload cap parses to that annotation.\<close>

theorem annotation_roundtrip:
  assumes "annotation_ok a" "rect_plain a"
    and "utf8ByteLength (serializeTargetAnnotationV1 a) \<le> TARGET_ANNOTATION_MAX_PAYLOAD_BYTES"
  shows "parseTargetAnnotationCommentLine (formatTargetAnnotationCommentLine a) = Inr (AnnotationV1 a)"
  by (rule annotation_read [OF assms])

theorem annotation_roundtrip_witness:
  "parseTargetAnnotationCommentLine (formatTargetAnnotationCommentLine example_annotation) =
     Inr (AnnotationV1 example_annotation)"
  by (rule annotation_roundtrip [OF example_annotation_ok])

text \<open>C39. Whatever annotation the parser accepts is well formed: its texts are normalized and within the byte cap, its
  ancestry has at most eight entries and its ordinals are safe non-negative integers.\<close>

theorem accepted_annotation_well_formed:
  "parseTargetAnnotationCommentLine line = Inr (AnnotationV1 a) \<Longrightarrow> annotation_ok a"
  by (auto simp: parseTargetAnnotationCommentLine_def Let_def rbind_Inr_iff dest: payload_accepted
      split: if_splits option.splits)


theorem accepted_annotation_well_formed_witness: "annotation_ok example_annotation"
  by (rule accepted_annotation_well_formed [OF annotation_read [OF example_annotation_ok]])

end
