(* ===== verification/AdActions.thy ===== *)
theory AdActions
  imports TargetAnnotation
begin

text \<open>
  Action lines of recorded scripts: the writers and parsers of \<^verbatim>\<open>packages/ad-script/src/internal/script-utils.ts\<close>,
  \<^verbatim>\<open>open-script.ts\<close>, \<^verbatim>\<open>script-formatting.ts\<close> and the line parser of \<^verbatim>\<open>script.ts\<close> there, the screenshot flags of
  \<^verbatim>\<open>packages/contracts/src/screenshot.ts\<close>, the recording quality of \<^verbatim>\<open>recording-export-quality.ts\<close> and the special lines
  of \<^verbatim>\<open>src/daemon/session-script-writer.ts\<close>.

  A writer is the list of the parts it appends. A boolean flag stands for \<open>true\<close>; \<open>false\<close> and absent flags are
  treated alike by all the code. Numeric flags are integers. Of the result of an action the model keeps the label
  of its reference, which is all that script lines carry.
\<close>

section \<open>Actions\<close>

datatype script_quality = QualityNumber int | QualityText string

record runtime_hints =
  rh_platform :: "string option"
  rh_metroHost :: "string option"
  rh_metroPort :: "int option"
  rh_bundleUrl :: "string option"
  rh_launchUrl :: "string option"

record action_flags =
  sf_count :: "int option"
  sf_intervalMs :: "int option"
  sf_holdMs :: "int option"
  sf_jitterPx :: "int option"
  sf_pauseMs :: "int option"
  sf_pointerCount :: "int option"
  sf_delayMs :: "int option"
  sf_doubleTap :: bool
  sf_clickButton :: "string option"
  sf_pattern :: "string option"
  sf_snapshotInteractiveOnly :: bool
  sf_snapshotRaw :: bool
  sf_snapshotForceFull :: bool
  sf_snapshotDepth :: "int option"
  sf_snapshotScope :: "string option"
  sf_hideTouches :: bool
  sf_fps :: "int option"
  sf_quality :: "script_quality option"
  sf_screenshotMaxSize :: "int option"
  sf_screenshotPixelDensity :: "int option"
  sf_screenshotFullscreen :: bool
  sf_screenshotNoStabilize :: bool
  sf_screenshotNormalizeStatusBar :: bool
  sf_relaunch :: bool
  sf_noRecord :: bool
  sf_hints :: runtime_hints

record session_action =
  sa_ts :: int
  sa_command :: string
  sa_positionals :: "string list"
  sa_runtime :: "runtime_hints option"
  sa_flags :: action_flags
  sa_refLabel :: "string option"
  sa_targetEvidence :: "target_annotation option"

definition no_hints :: runtime_hints where
  "no_hints = \<lparr>rh_platform = None, rh_metroHost = None, rh_metroPort = None, rh_bundleUrl = None, rh_launchUrl = None\<rparr>"

definition no_flags :: action_flags where
  "no_flags =
     \<lparr>sf_count = None, sf_intervalMs = None, sf_holdMs = None, sf_jitterPx = None, sf_pauseMs = None,
      sf_pointerCount = None, sf_delayMs = None, sf_doubleTap = False, sf_clickButton = None, sf_pattern = None,
      sf_snapshotInteractiveOnly = False, sf_snapshotRaw = False, sf_snapshotForceFull = False, sf_snapshotDepth = None,
      sf_snapshotScope = None, sf_hideTouches = False, sf_fps = None, sf_quality = None, sf_screenshotMaxSize = None,
      sf_screenshotPixelDensity = None, sf_screenshotFullscreen = False, sf_screenshotNoStabilize = False,
      sf_screenshotNormalizeStatusBar = False, sf_relaunch = False, sf_noRecord = False, sf_hints = no_hints\<rparr>"

definition stripRecordedRefGeneration :: "string \<Rightarrow> string" where
  "stripRecordedRefGeneration token =
     (if take 1 token \<noteq> ''@'' then token
      else (case splitRefGenerationSuffix token of Some split \<Rightarrow> sr_base split | None \<Rightarrow> token))"

definition isClickLikeCommand :: "string \<Rightarrow> bool" where
  "isClickLikeCommand command \<longleftrightarrow> command = ''click'' \<or> command = ''press''"

definition isTypingCommand :: "string \<Rightarrow> bool" where
  "isTypingCommand command \<longleftrightarrow> command = ''type'' \<or> command = ''fill''"

section \<open>Writing\<close>

definition number_flag :: "string \<Rightarrow> int option \<Rightarrow> string list" where
  "number_flag name v = (case v of Some n \<Rightarrow> [name, int_dec n] | None \<Rightarrow> [])"

definition text_flag :: "string \<Rightarrow> string option \<Rightarrow> string list" where
  "text_flag name v = (case v of Some t \<Rightarrow> if length t > 0 then [name, formatScriptArgQuoteIfNeeded t] else [] | None \<Rightarrow> [])"

definition appendScriptSeriesFlags :: "string \<Rightarrow> action_flags \<Rightarrow> string list" where
  "appendScriptSeriesFlags command f =
     (if isClickLikeCommand command
      then number_flag ''--count'' (sf_count f) @ number_flag ''--interval-ms'' (sf_intervalMs f) @
           number_flag ''--hold-ms'' (sf_holdMs f) @ number_flag ''--jitter-px'' (sf_jitterPx f) @
           (if sf_doubleTap f then [''--double-tap''] else []) @
           (if truthy (sf_clickButton f) \<and> sf_clickButton f \<noteq> Some ''primary'' then [''--button'', the (sf_clickButton f)] else [])
      else if command = ''swipe''
      then number_flag ''--count'' (sf_count f) @ number_flag ''--pause-ms'' (sf_pauseMs f) @
           (if sf_pattern f = Some ''one-way'' \<or> sf_pattern f = Some ''ping-pong'' then [''--pattern'', the (sf_pattern f)] else [])
      else if command = ''gesture'' then number_flag ''--pointer-count'' (sf_pointerCount f)
      else if isTypingCommand command then number_flag ''--delay-ms'' (sf_delayMs f)
      else [])"

definition appendRuntimeHintFlags :: "runtime_hints option \<Rightarrow> string list" where
  "appendRuntimeHintFlags hints =
     (case hints of
        None \<Rightarrow> []
      | Some h \<Rightarrow>
          (if rh_platform h = Some ''ios'' \<or> rh_platform h = Some ''android'' then [''--platform'', the (rh_platform h)] else []) @
          text_flag ''--metro-host'' (rh_metroHost h) @
          number_flag ''--metro-port'' (rh_metroPort h) @
          text_flag ''--bundle-url'' (rh_bundleUrl h) @
          text_flag ''--launch-url'' (rh_launchUrl h))"

fun quality_text :: "script_quality \<Rightarrow> string" where
  "quality_text (QualityNumber n) = int_dec n"
| "quality_text (QualityText t) = t"

definition appendRecordActionScriptArgs :: "session_action \<Rightarrow> string list" where
  "appendRecordActionScriptArgs a =
     (case sa_positionals a of
        [] \<Rightarrow> []
      | subcommand # rest \<Rightarrow>
          (if subcommand \<noteq> [] then [formatScriptArgQuoteIfNeeded subcommand] else []) @ map formatScriptArg rest) @
     number_flag ''--fps'' (sf_fps (sa_flags a)) @
     number_flag ''--max-size'' (sf_screenshotMaxSize (sa_flags a)) @
     (case sf_quality (sa_flags a) of Some q \<Rightarrow> [''--quality'', quality_text q] | None \<Rightarrow> []) @
     (if sf_hideTouches (sa_flags a) then [''--hide-touches''] else [])"

definition appendSnapshotActionScriptArgs :: "session_action \<Rightarrow> string list" where
  "appendSnapshotActionScriptArgs a =
     (if sf_snapshotInteractiveOnly (sa_flags a) then [''-i''] else []) @
     number_flag ''-d'' (sf_snapshotDepth (sa_flags a)) @
     (if truthy (sf_snapshotScope (sa_flags a)) then [''-s'', formatScriptArg (the (sf_snapshotScope (sa_flags a)))] else []) @
     (if sf_snapshotRaw (sa_flags a) then [''--raw''] else [])"

definition appendScreenshotScriptFlags :: "action_flags \<Rightarrow> string list" where
  "appendScreenshotScriptFlags f =
     number_flag ''--pixel-density'' (sf_screenshotPixelDensity f) @
     (if sf_screenshotFullscreen f then [''--fullscreen''] else []) @
     number_flag ''--max-size'' (sf_screenshotMaxSize f) @
     (if sf_screenshotNoStabilize f then [''--no-stabilize''] else []) @
     (if sf_screenshotNormalizeStatusBar f then [''--normalize-status-bar''] else [])"

definition appendScreenshotActionScriptArgs :: "session_action \<Rightarrow> string list" where
  "appendScreenshotActionScriptArgs a = map formatScriptArg (sa_positionals a) @ appendScreenshotScriptFlags (sa_flags a)"

definition appendRuntimeActionScriptArgs :: "session_action \<Rightarrow> bool \<Rightarrow> string list" where
  "appendRuntimeActionScriptArgs a includeAllPositionals =
     map formatScriptArgQuoteIfNeeded (if includeAllPositionals then sa_positionals a else take 1 (sa_positionals a)) @
     appendRuntimeHintFlags (Some (sf_hints (sa_flags a)))"

definition appendGenericActionScriptArgs :: "session_action \<Rightarrow> string list" where
  "appendGenericActionScriptArgs a =
     map (\<lambda>p. formatScriptArg (if sa_command a = ''wait'' then stripRecordedRefGeneration p else p)) (sa_positionals a) @
     appendScriptSeriesFlags (sa_command a) (sa_flags a)"

definition appendOpenActionScriptArgs :: "session_action \<Rightarrow> string list" where
  "appendOpenActionScriptArgs a =
     map formatScriptArg (sa_positionals a) @
     (if sf_relaunch (sa_flags a) then [''--relaunch''] else []) @
     appendRuntimeHintFlags (sa_runtime a)"

definition formatPortableActionLine :: "session_action \<Rightarrow> bool \<Rightarrow> string" where
  "formatPortableActionLine a runtimeIncludeAllPositionals =
     js_join '' '' (sa_command a #
       (if sa_command a = ''snapshot'' then appendSnapshotActionScriptArgs a
        else if sa_command a = ''open'' then appendOpenActionScriptArgs a
        else if sa_command a = ''runtime'' then appendRuntimeActionScriptArgs a runtimeIncludeAllPositionals
        else if sa_command a = ''record'' then appendRecordActionScriptArgs a
        else if sa_command a = ''screenshot'' then appendScreenshotActionScriptArgs a
        else appendGenericActionScriptArgs a))"

text \<open>The lines the session writer formats itself.\<close>

definition appendRefLabel :: "session_action \<Rightarrow> string list" where
  "appendRefLabel a =
     (case sa_refLabel a of Some t \<Rightarrow> if length (js_trim t) > 0 then [formatScriptArg t] else [] | None \<Rightarrow> [])"

definition formatClickLikeActionLine :: "session_action \<Rightarrow> string option" where
  "formatClickLikeActionLine a =
     (case sa_positionals a of
        [] \<Rightarrow> None
      | first # rest \<Rightarrow>
          if first = [] then None
          else if take 1 first = ''@''
          then Some (js_join '' '' (sa_command a # [formatScriptArg (stripRecordedRefGeneration first)] @ appendRefLabel a @
                 appendScriptSeriesFlags (sa_command a) (sa_flags a)))
          else if rest = []
          then Some (js_join '' '' (sa_command a # [formatScriptArg first] @ appendScriptSeriesFlags (sa_command a) (sa_flags a)))
          else None)"

definition formatFillActionLine :: "session_action \<Rightarrow> string option" where
  "formatFillActionLine a =
     (case sa_positionals a of
        [] \<Rightarrow> None
      | ref # rest \<Rightarrow>
          if take 1 ref \<noteq> ''@'' then None
          else Some (js_join '' '' (sa_command a # [formatScriptArg (stripRecordedRefGeneration ref)] @ appendRefLabel a @
                 (if rest \<noteq> [] then [formatScriptArg (js_join '' '' rest)] else []) @
                 appendScriptSeriesFlags (sa_command a) (sa_flags a))))"

definition formatGetActionLine :: "session_action \<Rightarrow> string option" where
  "formatGetActionLine a =
     (case sa_positionals a of
        sub # ref # _ \<Rightarrow>
          if sub = [] \<or> ref = [] then None
          else Some (js_join '' '' (sa_command a # [formatScriptArg sub, formatScriptArg (stripRecordedRefGeneration ref)] @
                 (if take 1 ref = ''@'' then appendRefLabel a else [])))
      | _ \<Rightarrow> None)"

definition formatSpecialActionLine :: "session_action \<Rightarrow> string option" where
  "formatSpecialActionLine a =
     (if isClickLikeCommand (sa_command a) then formatClickLikeActionLine a
      else if sa_command a = ''fill'' then formatFillActionLine a
      else if sa_command a = ''get'' then formatGetActionLine a
      else None)"

definition formatActionLine :: "session_action \<Rightarrow> string" where
  "formatActionLine a =
     (case formatSpecialActionLine a of
        Some line \<Rightarrow> if line \<noteq> [] then line else formatPortableActionLine a False
      | None \<Rightarrow> formatPortableActionLine a False)"

section \<open>Parsing\<close>

datatype action_error = TokenError script_error | PositiveIntegerRequired string

datatype numeric_key = CountKey | IntervalMsKey | HoldMsKey | JitterPxKey | PauseMsKey | PointerCountKey | DelayMsKey

definition CLICK_LIKE_NUMERIC_FLAG_MAP :: "(string \<times> numeric_key) list" where
  "CLICK_LIKE_NUMERIC_FLAG_MAP =
     [(''--count'', CountKey), (''--interval-ms'', IntervalMsKey), (''--hold-ms'', HoldMsKey), (''--jitter-px'', JitterPxKey)]"

definition SWIPE_NUMERIC_FLAG_MAP :: "(string \<times> numeric_key) list" where
  "SWIPE_NUMERIC_FLAG_MAP = [(''--count'', CountKey), (''--pause-ms'', PauseMsKey)]"

definition GESTURE_NUMERIC_FLAG_MAP :: "(string \<times> numeric_key) list" where
  "GESTURE_NUMERIC_FLAG_MAP = [(''--pointer-count'', PointerCountKey)]"

definition TYPING_NUMERIC_FLAG_MAP :: "(string \<times> numeric_key) list" where
  "TYPING_NUMERIC_FLAG_MAP = [(''--delay-ms'', DelayMsKey)]"

definition numeric_flag_map :: "string \<Rightarrow> (string \<times> numeric_key) list" where
  "numeric_flag_map command =
     (if isClickLikeCommand command then CLICK_LIKE_NUMERIC_FLAG_MAP
      else if command = ''swipe'' then SWIPE_NUMERIC_FLAG_MAP
      else if command = ''gesture'' then GESTURE_NUMERIC_FLAG_MAP
      else if isTypingCommand command then TYPING_NUMERIC_FLAG_MAP
      else [])"

fun set_numeric_flag :: "numeric_key \<Rightarrow> int \<Rightarrow> action_flags \<Rightarrow> action_flags" where
  "set_numeric_flag CountKey n f = f\<lparr>sf_count := Some n\<rparr>"
| "set_numeric_flag IntervalMsKey n f = f\<lparr>sf_intervalMs := Some n\<rparr>"
| "set_numeric_flag HoldMsKey n f = f\<lparr>sf_holdMs := Some n\<rparr>"
| "set_numeric_flag JitterPxKey n f = f\<lparr>sf_jitterPx := Some n\<rparr>"
| "set_numeric_flag PauseMsKey n f = f\<lparr>sf_pauseMs := Some n\<rparr>"
| "set_numeric_flag PointerCountKey n f = f\<lparr>sf_pointerCount := Some n\<rparr>"
| "set_numeric_flag DelayMsKey n f = f\<lparr>sf_delayMs := Some n\<rparr>"

text \<open>One turn of a loop over arguments: the flags after it, the positional it keeps and whether it also takes the next
  argument. The loops run over what is left of the arguments.\<close>

record flag_turn =
  ft_flags :: action_flags
  ft_positional :: "string option"
  ft_takes_next :: bool

definition series_turn :: "string \<Rightarrow> string \<Rightarrow> string option \<Rightarrow> action_flags \<Rightarrow> flag_turn" where
  "series_turn command token nextArg f =
     (if isClickLikeCommand command \<and> token = ''--double-tap''
      then \<lparr>ft_flags = f\<lparr>sf_doubleTap := True\<rparr>, ft_positional = None, ft_takes_next = False\<rparr>
      else if isClickLikeCommand command \<and> token = ''--button'' \<and> nextArg \<noteq> None
      then \<lparr>ft_flags = (if nextArg = Some ''primary'' \<or> nextArg = Some ''secondary'' \<or> nextArg = Some ''middle''
                        then f\<lparr>sf_clickButton := nextArg\<rparr> else f),
            ft_positional = None, ft_takes_next = True\<rparr>
      else
        (case (map_of (numeric_flag_map command) token, parseNonNegativeIntToken nextArg) of
           (Some key, Some n) \<Rightarrow> \<lparr>ft_flags = set_numeric_flag key n f, ft_positional = None, ft_takes_next = True\<rparr>
         | _ \<Rightarrow>
             if command = ''swipe'' \<and> token = ''--pattern'' \<and> nextArg \<noteq> None
             then \<lparr>ft_flags = (if nextArg = Some ''one-way'' \<or> nextArg = Some ''ping-pong'' then f\<lparr>sf_pattern := nextArg\<rparr> else f),
                   ft_positional = None, ft_takes_next = True\<rparr>
             else \<lparr>ft_flags = f, ft_positional = Some token, ft_takes_next = False\<rparr>))"

definition next_arg :: "string list \<Rightarrow> string option" where
  "next_arg rest = (case rest of [] \<Rightarrow> None | n # _ \<Rightarrow> Some n)"

function flag_loop ::
    "(string \<Rightarrow> string option \<Rightarrow> action_flags \<Rightarrow> flag_turn) \<Rightarrow> string list \<Rightarrow> action_flags \<Rightarrow> string list \<times> action_flags" where
  "flag_loop turn [] f = ([], f)"
| "flag_loop turn (token # rest) f =
     (let t = turn token (next_arg rest) f;
          (ps, f') = flag_loop turn (if ft_takes_next t then drop 1 rest else rest) (ft_flags t)
      in ((case ft_positional t of Some p \<Rightarrow> p # ps | None \<Rightarrow> ps), f'))"
  by pat_completeness auto
termination
  by (relation "measure (\<lambda>(_, args, _). length args)") auto

definition parseReplaySeriesFlags :: "string \<Rightarrow> string list \<Rightarrow> string list \<times> action_flags" where
  "parseReplaySeriesFlags command args = flag_loop (series_turn command) args no_flags"

definition runtime_turn :: "string \<Rightarrow> string option \<Rightarrow> action_flags \<Rightarrow> flag_turn" where
  "runtime_turn token nextArg f =
     (let taken = (\<lambda>h. \<lparr>ft_flags = f\<lparr>sf_hints := h\<rparr>, ft_positional = None, ft_takes_next = True\<rparr>);
          h = sf_hints f
      in if token = ''--platform'' \<and> nextArg \<noteq> None
         then taken (if nextArg = Some ''ios'' \<or> nextArg = Some ''android'' then h\<lparr>rh_platform := nextArg\<rparr> else h)
         else if token = ''--metro-host'' \<and> nextArg \<noteq> None then taken (h\<lparr>rh_metroHost := nextArg\<rparr>)
         else if token = ''--metro-port'' \<and> nextArg \<noteq> None
         then taken (case parseNonNegativeIntToken nextArg of Some n \<Rightarrow> h\<lparr>rh_metroPort := Some n\<rparr> | None \<Rightarrow> h)
         else if token = ''--bundle-url'' \<and> nextArg \<noteq> None then taken (h\<lparr>rh_bundleUrl := nextArg\<rparr>)
         else if token = ''--launch-url'' \<and> nextArg \<noteq> None then taken (h\<lparr>rh_launchUrl := nextArg\<rparr>)
         else \<lparr>ft_flags = f, ft_positional = Some token, ft_takes_next = False\<rparr>)"

definition parseReplayRuntimeFlags :: "string list \<Rightarrow> string list \<times> runtime_hints" where
  "parseReplayRuntimeFlags args = (let (ps, f) = flag_loop runtime_turn args no_flags in (ps, sf_hints f))"

definition hasReplayOpenRuntimeHints :: "runtime_hints \<Rightarrow> bool" where
  "hasReplayOpenRuntimeHints h \<longleftrightarrow>
     truthy (rh_platform h) \<or> truthy (rh_metroHost h) \<or> rh_metroPort h \<noteq> None \<or> truthy (rh_bundleUrl h) \<or> truthy (rh_launchUrl h)"

definition parseReplayOpenFlags :: "string list \<Rightarrow> string list \<times> action_flags \<times> runtime_hints option" where
  "parseReplayOpenFlags args =
     (let argsWithoutRelaunch = filter (\<lambda>token. token \<noteq> ''--relaunch'') args;
          f = (if ''--relaunch'' \<in> set args then no_flags\<lparr>sf_relaunch := True\<rparr> else no_flags);
          (ps, h) = parseReplayRuntimeFlags argsWithoutRelaunch
      in (ps, f, if hasReplayOpenRuntimeHints h then Some h else None))"

definition snapshot_turn :: "string \<Rightarrow> string option \<Rightarrow> action_flags \<Rightarrow> flag_turn" where
  "snapshot_turn token nextArg f =
     (let one = (\<lambda>f'. \<lparr>ft_flags = f', ft_positional = None, ft_takes_next = False\<rparr>);
          two = (\<lambda>f'. \<lparr>ft_flags = f', ft_positional = None, ft_takes_next = True\<rparr>)
      in if token = ''-i'' then one (f\<lparr>sf_snapshotInteractiveOnly := True\<rparr>)
         else if token = ''-c'' then one f
         else if token = ''--raw'' then one (f\<lparr>sf_snapshotRaw := True\<rparr>)
         else if token = ''--force-full'' then one (f\<lparr>sf_snapshotForceFull := True\<rparr>)
         else (case nextArg of
                 None \<Rightarrow> one f
               | Some v \<Rightarrow>
                   if token = ''-d'' \<or> token = ''--depth''
                   then two (case js_Number v of Finite q \<Rightarrow> if 0 \<le> q then f\<lparr>sf_snapshotDepth := Some \<lfloor>q\<rfloor>\<rparr> else f | _ \<Rightarrow> f)
                   else if token = ''-s'' \<or> token = ''--scope'' then two (f\<lparr>sf_snapshotScope := Some v\<rparr>)
                   else if token = ''--backend'' then two f
                   else one f))"

definition is_all_digits :: "string \<Rightarrow> bool" where
  "is_all_digits s \<longleftrightarrow> s \<noteq> [] \<and> list_all is_digit_char s"

definition toLegacyRecordingQuality :: "string \<Rightarrow> int option" where
  "toLegacyRecordingQuality v =
     (if is_all_digits v
      then (case js_Number v of
              Finite q \<Rightarrow> if of_int \<lfloor>q\<rfloor> = q \<and> 5 \<le> q \<and> q \<le> 10 then Some \<lfloor>q\<rfloor> else None
            | _ \<Rightarrow> None)
      else None)"

definition recordingQualityInputToExportQuality :: "string \<Rightarrow> string option" where
  "recordingQualityInputToExportQuality v =
     (if v = ''medium'' \<or> v = ''high'' then Some v
      else (case toLegacyRecordingQuality v of Some n \<Rightarrow> Some (if n \<le> 7 then ''medium'' else ''high'') | None \<Rightarrow> None))"

definition record_turn :: "string \<Rightarrow> string option \<Rightarrow> action_flags \<Rightarrow> flag_turn" where
  "record_turn token nextArg f =
     (let two = (\<lambda>f'. \<lparr>ft_flags = f', ft_positional = None, ft_takes_next = True\<rparr>);
          keep = \<lparr>ft_flags = f, ft_positional = Some token, ft_takes_next = False\<rparr>
      in if token = ''--hide-touches''
         then \<lparr>ft_flags = f\<lparr>sf_hideTouches := True\<rparr>, ft_positional = None, ft_takes_next = False\<rparr>
         else (case nextArg of
                 None \<Rightarrow> keep
               | Some v \<Rightarrow>
                   if token = ''--fps'' then two (case js_Number v of Finite q \<Rightarrow> f\<lparr>sf_fps := Some \<lfloor>q\<rfloor>\<rparr> | _ \<Rightarrow> f)
                   else if token = ''--quality''
                   then two (case recordingQualityInputToExportQuality v of Some e \<Rightarrow> f\<lparr>sf_quality := Some (QualityText e)\<rparr> | None \<Rightarrow> f)
                   else if token = ''--max-size''
                   then two (case js_Number v of Finite q \<Rightarrow> f\<lparr>sf_screenshotMaxSize := Some \<lfloor>q\<rfloor>\<rparr> | _ \<Rightarrow> f)
                   else keep))"

definition readScreenshotBooleanScriptFlag :: "string \<Rightarrow> action_flags \<Rightarrow> action_flags option" where
  "readScreenshotBooleanScriptFlag token f =
     (if token = ''--fullscreen'' \<or> token = ''--full'' \<or> token = ''-f'' then Some (f\<lparr>sf_screenshotFullscreen := True\<rparr>)
      else if token = ''--no-stabilize'' then Some (f\<lparr>sf_screenshotNoStabilize := True\<rparr>)
      else if token = ''--normalize-status-bar'' then Some (f\<lparr>sf_screenshotNormalizeStatusBar := True\<rparr>)
      else None)"

definition positive_integer :: "string option \<Rightarrow> int option" where
  "positive_integer v =
     (case v of None \<Rightarrow> None
      | Some s \<Rightarrow> (case js_Number s of Finite q \<Rightarrow> if of_int \<lfloor>q\<rfloor> = q \<and> 1 \<le> q then Some \<lfloor>q\<rfloor> else None | _ \<Rightarrow> None))"

definition readScreenshotIntScriptFlag :: "string \<Rightarrow> string option \<Rightarrow> action_flags \<Rightarrow> action_error + action_flags option" where
  "readScreenshotIntScriptFlag token nextArg f =
     (if token = ''--pixel-density''
      then (case positive_integer nextArg of
              Some n \<Rightarrow> Inr (Some (f\<lparr>sf_screenshotPixelDensity := Some n\<rparr>))
            | None \<Rightarrow> Inl (PositiveIntegerRequired ''screenshot --pixel-density''))
      else if token = ''--max-size''
      then (case positive_integer nextArg of
              Some n \<Rightarrow> Inr (Some (f\<lparr>sf_screenshotMaxSize := Some n\<rparr>))
            | None \<Rightarrow> Inl (PositiveIntegerRequired ''screenshot --max-size''))
      else Inr None)"

definition readScreenshotScriptFlag :: "string \<Rightarrow> string option \<Rightarrow> action_flags \<Rightarrow> action_error + flag_turn" where
  "readScreenshotScriptFlag token nextArg f =
     (case readScreenshotBooleanScriptFlag token f of
        Some f' \<Rightarrow> Inr \<lparr>ft_flags = f', ft_positional = None, ft_takes_next = False\<rparr>
      | None \<Rightarrow>
          rbind (readScreenshotIntScriptFlag token nextArg f) (\<lambda>r. case r of
            Some f' \<Rightarrow> Inr \<lparr>ft_flags = f', ft_positional = None, ft_takes_next = True\<rparr>
          | None \<Rightarrow> Inr \<lparr>ft_flags = f, ft_positional = Some token, ft_takes_next = False\<rparr>))"

function screenshot_loop :: "string list \<Rightarrow> action_flags \<Rightarrow> action_error + string list \<times> action_flags" where
  "screenshot_loop [] f = Inr ([], f)"
| "screenshot_loop (token # rest) f =
     (case readScreenshotScriptFlag token (next_arg rest) f of
        Inl e \<Rightarrow> Inl e
      | Inr t \<Rightarrow>
          (case screenshot_loop (if ft_takes_next t then drop 1 rest else rest) (ft_flags t) of
             Inl e \<Rightarrow> Inl e
           | Inr (ps, f') \<Rightarrow> Inr ((case ft_positional t of Some p \<Rightarrow> p # ps | None \<Rightarrow> ps), f')))"
  by pat_completeness auto
termination
  by (relation "measure (\<lambda>(args, _). length args)") auto

text \<open>The branches of the line parser, each from the action it starts with.\<close>

definition parse_click_like :: "session_action \<Rightarrow> string list \<Rightarrow> session_action" where
  "parse_click_like action args =
     (let (ps, f) = parseReplaySeriesFlags (sa_command action) args;
          a = action\<lparr>sa_flags := f\<rparr>
      in case ps of
           [] \<Rightarrow> a
         | target # rest \<Rightarrow>
             if take 1 target = ''@''
             then a\<lparr>sa_positionals := [stripRecordedRefGeneration target],
                    sa_refLabel := (if truthy (next_arg rest) then next_arg rest else None)\<rparr>
             else if isNumericToken (Some target) \<and> isNumericToken (next_arg rest) \<and> length ps \<ge> 2
             then a\<lparr>sa_positionals := [target, hd rest]\<rparr>
             else a\<lparr>sa_positionals := [js_join '' '' ps]\<rparr>)"

definition parse_fill :: "session_action \<Rightarrow> string list \<Rightarrow> session_action" where
  "parse_fill action args =
     (let (ps, f) = parseReplaySeriesFlags (sa_command action) args;
          a = action\<lparr>sa_flags := f\<rparr>
      in case ps of
           target # text # rest \<Rightarrow>
             if isNumericToken (Some target) \<and> isNumericToken (Some text)
             then a\<lparr>sa_positionals := [target, text, js_join '' '' rest]\<rparr>
             else if take 1 target = ''@''
             then (if rest \<noteq> []
                   then a\<lparr>sa_positionals := [stripRecordedRefGeneration target, js_join '' '' rest], sa_refLabel := Some text\<rparr>
                   else a\<lparr>sa_positionals := [stripRecordedRefGeneration target, text]\<rparr>)
             else a\<lparr>sa_positionals := [target, js_join '' '' (text # rest)]\<rparr>
         | _ \<Rightarrow> a\<lparr>sa_positionals := ps\<rparr>)"

definition parse_get :: "session_action \<Rightarrow> string list \<Rightarrow> session_action" where
  "parse_get action args =
     (case args of
        sub # target # rest \<Rightarrow>
          if take 1 target = ''@''
          then action\<lparr>sa_positionals := [sub, stripRecordedRefGeneration target],
                      sa_refLabel := (if truthy (next_arg rest) then next_arg rest else None)\<rparr>
          else action\<lparr>sa_positionals := [sub, js_join '' '' (target # rest)]\<rparr>
      | _ \<Rightarrow> action\<lparr>sa_positionals := args\<rparr>)"

definition parse_command :: "int \<Rightarrow> string \<Rightarrow> string list \<Rightarrow> action_error + session_action" where
  "parse_command now command args =
     (let action = \<lparr>sa_ts = now, sa_command = command, sa_positionals = [], sa_runtime = None, sa_flags = no_flags,
                    sa_refLabel = None, sa_targetEvidence = None\<rparr>
      in if command = ''snapshot'' then Inr (action\<lparr>sa_flags := snd (flag_loop snapshot_turn args no_flags)\<rparr>)
         else if command = ''open''
         then (let (ps, f, runtime) = parseReplayOpenFlags args
               in Inr (action\<lparr>sa_positionals := ps, sa_flags := f, sa_runtime := runtime\<rparr>))
         else if command = ''runtime''
         then (let (ps, h) = parseReplayRuntimeFlags args
               in Inr (action\<lparr>sa_positionals := ps, sa_flags := no_flags\<lparr>sf_hints := h\<rparr>\<rparr>))
         else if isClickLikeCommand command then Inr (parse_click_like action args)
         else if command = ''fill'' then Inr (parse_fill action args)
         else if command = ''get'' then Inr (parse_get action args)
         else if command = ''swipe'' \<or> command = ''type'' \<or> command = ''gesture''
         then (let (ps, f) = parseReplaySeriesFlags command args in Inr (action\<lparr>sa_positionals := ps, sa_flags := f\<rparr>))
         else if command = ''record''
         then (let (ps, f) = flag_loop record_turn args no_flags in Inr (action\<lparr>sa_positionals := ps, sa_flags := f\<rparr>))
         else if command = ''screenshot''
         then rbind (screenshot_loop args no_flags) (\<lambda>(ps, f). Inr (action\<lparr>sa_positionals := ps, sa_flags := f\<rparr>))
         else Inr (action\<lparr>sa_positionals :=
                (if command = ''wait'' \<or> command = ''longpress'' then map stripRecordedRefGeneration args else args)\<rparr>))"

definition parseReplayScriptLine :: "int \<Rightarrow> string \<Rightarrow> action_error + session_action option" where
  "parseReplayScriptLine now line =
     (let trimmed = js_trim line
      in if trimmed = [] \<or> take 1 trimmed = ''#'' then Inr None
         else (case tokenizeReplayLine trimmed of
                 Inl e \<Rightarrow> Inl (TokenError e)
               | Inr [] \<Rightarrow> Inr None
               | Inr (command # args) \<Rightarrow>
                   if command = ''context'' then Inr None
                   else rbind (parse_command now command args) (\<lambda>a. Inr (Some a))))"

end
