(* ===== verification/AdLines.thy ===== *)
theory AdLines
  imports AdActions
begin

text \<open>
  Action lines of recorded scripts are read back: what the parser makes of a line that the writers of
  \<^verbatim>\<open>src/daemon/session-script-writer.ts\<close> and \<^verbatim>\<open>packages/ad-script\<close> formatted. First the loops over arguments, flag by flag,
  then one lemma per command, then the theorem on all of them.
\<close>

section \<open>Numbers of flags\<close>

lemma decimal_of_nat_dec: "decimal_of (nat_dec n) = Some (of_nat n)"
proof -
  have whole: "takeWhile is_digit_char (nat_dec n) = nat_dec n"
    using nat_dec_chars by (simp add: takeWhile_eq_all_conv)
  show ?thesis
    unfolding decimal_of_def Let_def whole by (simp add: exponent_of_def power_of_ten_def nat_dec_ne)
qed

lemma js_Number_int_dec: "js_Number (int_dec i) = Finite (of_int i)"
proof (cases "i < 0")
  case True
  let ?n = "nat (- i)"
  have last: "last (CHR ''-'' # nat_dec ?n) = last (nat_dec ?n)" by (simp add: nat_dec_ne)
  have "\<not> is_js_space (last (nat_dec ?n))" using nat_dec_ne nat_dec_chars digit_not_space last_in_set by blast
  then have trim: "js_trim (CHR ''-'' # nat_dec ?n) = CHR ''-'' # nat_dec ?n"
    unfolding last [symmetric] by (intro js_trim_trimmed) (auto simp: trimmed_def is_js_space_def Let_def)
  have "js_lower_char (CHR ''-'') = CHR ''-''" by code_simp
  then have marks: "\<not> is_based ''0x'' f (CHR ''-'' # nat_dec ?n)" "\<not> is_based ''0o'' f (CHR ''-'' # nat_dec ?n)"
    "\<not> is_based ''0b'' f (CHR ''-'' # nat_dec ?n)" for f
    by (simp_all add: is_based_def js_lower_def)
  have inf: "nat_dec ?n \<noteq> ''Infinity''"
  proof
    assume "nat_dec ?n = ''Infinity''"
    then have "is_digit_char (CHR ''I'')" using nat_dec_chars [of "CHR ''I''" ?n] by simp
    moreover have "\<not> is_digit_char (CHR ''I'')" by code_simp
    ultimately show False by blast
  qed
  have dec: "int_dec i = CHR ''-'' # nat_dec ?n" using True by (simp add: int_dec_def)
  show ?thesis
    unfolding dec js_Number_def Let_def trim if_not_P [OF marks(1)] if_not_P [OF marks(2)] if_not_P [OF marks(3)]
    using inf True by (simp add: decimal_of_nat_dec of_nat_nat)
next
  case False
  then show ?thesis by (simp add: int_dec_def of_nat_nat)
qed

lemma parse_int_dec [simp]: "0 \<le> i \<Longrightarrow> parseNonNegativeIntToken (Some (int_dec i)) = Some i"
  by (simp add: int_dec_def)

lemma int_dec_ne: "int_dec i \<noteq> []"
  by (simp add: int_dec_def nat_dec_ne)

lemma int_dec_token: "token_text (int_dec i) (int_dec i)"
proof (rule bare_token_text [OF int_dec_ne])
  have "bare_script_char (CHR ''-'')" by code_simp
  then show "list_all bare_script_char (int_dec i)"
    using nat_dec_chars digit_bare by (simp add: int_dec_def list_all_iff)
qed

section \<open>Lines of tokens\<close>

definition bare_word :: "string \<Rightarrow> bool" where
  "bare_word w \<longleftrightarrow> w \<noteq> [] \<and> list_all bare_script_char w"

lemma bare_word_token: "bare_word w \<Longrightarrow> token_text w w"
  unfolding bare_word_def by (blast intro: bare_token_text)

lemma token_text_ends: "token_text t v \<Longrightarrow> t \<noteq> [] \<and> \<not> is_js_space (hd t) \<and> \<not> is_js_space (last t)"
proof -
  have "\<not> is_js_space (CHR ''\"'')" by code_simp
  then show "token_text t v \<Longrightarrow> t \<noteq> [] \<and> \<not> is_js_space (hd t) \<and> \<not> is_js_space (last t)"
    by (auto simp: token_text_def json_quote_def list_all_iff)
qed

lemma join_ends:
  assumes "list_all2 token_text ts vs" "ts \<noteq> []"
  shows "js_join '' '' ts \<noteq> [] \<and> hd (js_join '' '' ts) = hd (hd ts) \<and> \<not> is_js_space (last (js_join '' '' ts))"
  using assms
proof (induction ts vs rule: list_all2_induct)
  case (Cons t ts v vs)
  show ?case
  proof (cases ts)
    case Nil
    then show ?thesis using token_text_ends [OF Cons.hyps(1)] by simp
  next
    case (Cons u us)
    then have "js_join '' '' (t # ts) = t @ '' '' @ js_join '' '' ts" by (simp add: js_join_more)
    then show ?thesis using token_text_ends [OF Cons.hyps(1)] Cons.IH Cons by simp
  qed
qed simp

definition line_command :: "string \<Rightarrow> bool" where
  "line_command command \<longleftrightarrow> bare_word command \<and> hd command \<noteq> CHR ''#'' \<and> command \<noteq> ''context''"

lemma parse_joined_line:
  assumes "line_command command" "list_all2 token_text parts args"
  shows "parseReplayScriptLine now (js_join '' '' (command # parts)) =
    rbind (parse_command now command args) (\<lambda>a. Inr (Some a))"
proof -
  let ?line = "js_join '' '' (command # parts)"
  have ts: "list_all2 token_text (command # parts) (command # args)"
    using assms bare_word_token by (simp add: line_command_def)
  note ends = join_ends [OF ts]
  have c: "command \<noteq> []" "hd command \<noteq> CHR ''#''" "\<not> is_js_space (hd command)"
    using assms(1) by (auto simp: line_command_def bare_word_def bare_script_char_def list_all_iff)
  have "js_trim ?line = ?line" using ends c by (intro js_trim_trimmed) (simp add: trimmed_def)
  moreover have "take 1 ?line \<noteq> ''#''" using ends c by (cases ?line) auto
  moreover have "tokenizeReplayLine ?line = Inr (command # args)"
    unfolding tokenizeReplayLine_def by (rule tokenize_texts [OF ts])
  ultimately show ?thesis
    using ends assms(1) unfolding parseReplayScriptLine_def Let_def line_command_def by simp
qed

section \<open>Loops over written flags\<close>

definition keep_turn :: "string \<Rightarrow> action_flags \<Rightarrow> flag_turn" where
  "keep_turn p f = \<lparr>ft_flags = f, ft_positional = Some p, ft_takes_next = False\<rparr>"

definition one_turn :: "action_flags \<Rightarrow> flag_turn" where
  "one_turn f = \<lparr>ft_flags = f, ft_positional = None, ft_takes_next = False\<rparr>"

definition two_turn :: "action_flags \<Rightarrow> flag_turn" where
  "two_turn f = \<lparr>ft_flags = f, ft_positional = None, ft_takes_next = True\<rparr>"

lemma flag_loop_keep:
  "(\<And>p nx. p \<in> set ps \<Longrightarrow> turn p nx f = keep_turn p f) \<Longrightarrow>
   flag_loop turn (ps @ rest) f = (ps @ fst (flag_loop turn rest f), snd (flag_loop turn rest f))"
  by (induction ps) (simp_all add: keep_turn_def split: prod.split)

lemma flag_loop_one: "turn t (next_arg rest) f = one_turn f' \<Longrightarrow> flag_loop turn (t # rest) f = flag_loop turn rest f'"
  by (simp add: one_turn_def split: prod.split)

lemma flag_loop_two: "turn t (Some v) f = two_turn f' \<Longrightarrow> flag_loop turn (t # v # rest) f = flag_loop turn rest f'"
  by (simp add: two_turn_def next_arg_def split: prod.split)

lemma flag_loop_number:
  assumes "\<And>n. v = Some n \<Longrightarrow> turn name (Some (int_dec n)) f = two_turn (upd (Some n) f)" "upd None f = f"
  shows "flag_loop turn (number_flag name v @ rest) f = flag_loop turn rest (upd v f)"
  using assms by (cases v) (simp_all add: number_flag_def flag_loop_two del: flag_loop.simps(2))

lemma flag_loop_switch:
  assumes "\<And>nx. turn name nx f = one_turn (upd True f)" "upd False f = f"
  shows "flag_loop turn ((if b then [name] else []) @ rest) f = flag_loop turn rest (upd b f)"
  using assms by (simp add: flag_loop_one del: flag_loop.simps(2))

section \<open>Series flags are read back\<close>

definition series_flag_names :: "string list" where
  "series_flag_names =
     [''--double-tap'', ''--button'', ''--pattern'', ''--count'', ''--interval-ms'', ''--hold-ms'', ''--jitter-px'', ''--pause-ms'',
      ''--pointer-count'', ''--delay-ms'']"

definition natural :: "int option \<Rightarrow> bool" where
  "natural v \<longleftrightarrow> (\<forall>n. v = Some n \<longrightarrow> 0 \<le> n)"

definition series_ok :: "action_flags \<Rightarrow> bool" where
  "series_ok f \<longleftrightarrow>
     natural (sf_count f) \<and> natural (sf_intervalMs f) \<and> natural (sf_holdMs f) \<and> natural (sf_jitterPx f) \<and>
     natural (sf_pauseMs f) \<and> natural (sf_pointerCount f) \<and> natural (sf_delayMs f) \<and>
     sf_clickButton f \<in> {None, Some ''primary'', Some ''secondary'', Some ''middle''}"

text \<open>The series flags a line of the command carries.\<close>

definition written_series :: "string \<Rightarrow> action_flags \<Rightarrow> action_flags" where
  "written_series command f =
     (if isClickLikeCommand command
      then no_flags\<lparr>sf_count := sf_count f, sf_intervalMs := sf_intervalMs f, sf_holdMs := sf_holdMs f, sf_jitterPx := sf_jitterPx f,
             sf_doubleTap := sf_doubleTap f,
             sf_clickButton := (if sf_clickButton f = Some ''primary'' then None else sf_clickButton f)\<rparr>
      else if command = ''swipe''
      then no_flags\<lparr>sf_count := sf_count f, sf_pauseMs := sf_pauseMs f,
             sf_pattern := (if sf_pattern f = Some ''one-way'' \<or> sf_pattern f = Some ''ping-pong'' then sf_pattern f else None)\<rparr>
      else if command = ''gesture'' then no_flags\<lparr>sf_pointerCount := sf_pointerCount f\<rparr>
      else if isTypingCommand command then no_flags\<lparr>sf_delayMs := sf_delayMs f\<rparr>
      else no_flags)"

lemma series_keep: "p \<notin> set series_flag_names \<Longrightarrow> series_turn command p nx f = keep_turn p f"
  by (simp add: series_turn_def keep_turn_def series_flag_names_def numeric_flag_map_def CLICK_LIKE_NUMERIC_FLAG_MAP_def
      SWIPE_NUMERIC_FLAG_MAP_def GESTURE_NUMERIC_FLAG_MAP_def TYPING_NUMERIC_FLAG_MAP_def)

lemma series_number:
  assumes "map_of (numeric_flag_map command) name = Some key" "name \<noteq> ''--double-tap''" "name \<noteq> ''--button''" "natural v" "v = Some n"
  shows "series_turn command name (Some (int_dec n)) f = two_turn (set_numeric_flag key n f)"
  using assms by (simp add: series_turn_def two_turn_def natural_def)

lemmas numeric_maps = numeric_flag_map_def CLICK_LIKE_NUMERIC_FLAG_MAP_def SWIPE_NUMERIC_FLAG_MAP_def
  GESTURE_NUMERIC_FLAG_MAP_def TYPING_NUMERIC_FLAG_MAP_def

lemma series_flag_number:
  assumes "map_of (numeric_flag_map command) name = Some key" "name \<noteq> ''--double-tap''" "name \<noteq> ''--button''" "natural v"
    and "\<And>n. set_numeric_flag key n f = upd (Some n) f" "upd None f = f"
  shows "flag_loop (series_turn command) (number_flag name v @ rest) f = flag_loop (series_turn command) rest (upd v f)"
  using assms by (intro flag_loop_number) (simp_all add: series_number)

lemma click_series_read:
  assumes "isClickLikeCommand command" "series_ok f"
  shows "flag_loop (series_turn command) (appendScriptSeriesFlags command f) no_flags = ([], written_series command f)"
proof -
  let ?t = "series_turn command"
  let ?r5 = "if truthy (sf_clickButton f) \<and> sf_clickButton f \<noteq> Some ''primary'' then [''--button'', the (sf_clickButton f)] else []"
  let ?r4 = "(if sf_doubleTap f then [''--double-tap''] else []) @ ?r5"
  let ?r3 = "number_flag ''--jitter-px'' (sf_jitterPx f) @ ?r4"
  let ?r2 = "number_flag ''--hold-ms'' (sf_holdMs f) @ ?r3"
  let ?r1 = "number_flag ''--interval-ms'' (sf_intervalMs f) @ ?r2"
  let ?f1 = "no_flags\<lparr>sf_count := sf_count f\<rparr>"
  let ?f2 = "?f1\<lparr>sf_intervalMs := sf_intervalMs f\<rparr>"
  let ?f3 = "?f2\<lparr>sf_holdMs := sf_holdMs f\<rparr>"
  let ?f4 = "?f3\<lparr>sf_jitterPx := sf_jitterPx f\<rparr>"
  let ?f5 = "?f4\<lparr>sf_doubleTap := sf_doubleTap f\<rparr>"
  note n = assms(2) [unfolded series_ok_def]
  have "flag_loop ?t (appendScriptSeriesFlags command f) no_flags =
      flag_loop ?t (number_flag ''--count'' (sf_count f) @ ?r1) no_flags"
    using assms(1) by (simp add: appendScriptSeriesFlags_def)
  also have "\<dots> = flag_loop ?t ?r1 ?f1"
    using assms(1) n by (intro series_flag_number [where upd = "\<lambda>v f. f\<lparr>sf_count := v\<rparr>" and key = CountKey])
      (simp_all add: numeric_maps no_flags_def)
  also have "\<dots> = flag_loop ?t ?r2 ?f2"
    using assms(1) n by (intro series_flag_number [where upd = "\<lambda>v f. f\<lparr>sf_intervalMs := v\<rparr>" and key = IntervalMsKey])
      (simp_all add: numeric_maps no_flags_def)
  also have "\<dots> = flag_loop ?t ?r3 ?f3"
    using assms(1) n by (intro series_flag_number [where upd = "\<lambda>v f. f\<lparr>sf_holdMs := v\<rparr>" and key = HoldMsKey])
      (simp_all add: numeric_maps no_flags_def)
  also have "\<dots> = flag_loop ?t ?r4 ?f4"
    using assms(1) n by (intro series_flag_number [where upd = "\<lambda>v f. f\<lparr>sf_jitterPx := v\<rparr>" and key = JitterPxKey])
      (simp_all add: numeric_maps no_flags_def)
  also have "\<dots> = flag_loop ?t ?r5 ?f5"
    using assms(1) by (intro flag_loop_switch [where upd = "\<lambda>v f. f\<lparr>sf_doubleTap := v\<rparr>"])
      (simp_all add: series_turn_def one_turn_def no_flags_def)
  also have "\<dots> = ([], written_series command f)"
    using assms(1) n by (auto simp: series_turn_def next_arg_def written_series_def no_flags_def)
  finally show ?thesis .
qed

lemma series_read:
  assumes "series_ok f"
  shows "flag_loop (series_turn command) (appendScriptSeriesFlags command f) no_flags = ([], written_series command f)"
proof (cases "isClickLikeCommand command")
  case True
  then show ?thesis by (rule click_series_read [OF _ assms])
next
  case False
  note n = assms [unfolded series_ok_def]
  let ?t = "series_turn command"
  have one: "flag_loop ?t (number_flag name v) no_flags = ([], upd v no_flags)"
    if "map_of (numeric_flag_map command) name = Some key" "name \<noteq> ''--double-tap''" "name \<noteq> ''--button''" "natural v"
      "\<And>n. set_numeric_flag key n no_flags = upd (Some n) no_flags" "upd None no_flags = no_flags" for name v key upd
    using series_flag_number [of command name key v no_flags upd "[]"] that by simp
  consider (swipe) "command = ''swipe''" | (gesture) "command = ''gesture''" | (typing) "isTypingCommand command"
    | (other) "command \<noteq> ''swipe''" "command \<noteq> ''gesture''" "\<not> isTypingCommand command" by blast
  then show ?thesis
  proof cases
    case swipe
    let ?r2 = "if sf_pattern f = Some ''one-way'' \<or> sf_pattern f = Some ''ping-pong'' then [''--pattern'', the (sf_pattern f)] else []"
    let ?f1 = "no_flags\<lparr>sf_count := sf_count f\<rparr>"
    have "flag_loop ?t (appendScriptSeriesFlags command f) no_flags =
        flag_loop ?t (number_flag ''--count'' (sf_count f) @ number_flag ''--pause-ms'' (sf_pauseMs f) @ ?r2) no_flags"
      using swipe by (simp add: appendScriptSeriesFlags_def isClickLikeCommand_def)
    also have "\<dots> = flag_loop ?t (number_flag ''--pause-ms'' (sf_pauseMs f) @ ?r2) ?f1"
      using n swipe by (intro series_flag_number [where upd = "\<lambda>v f. f\<lparr>sf_count := v\<rparr>" and key = CountKey])
        (simp_all add: numeric_maps no_flags_def isClickLikeCommand_def)
    also have "\<dots> = flag_loop ?t ?r2 (?f1\<lparr>sf_pauseMs := sf_pauseMs f\<rparr>)"
      using n swipe by (intro series_flag_number [where upd = "\<lambda>v f. f\<lparr>sf_pauseMs := v\<rparr>" and key = PauseMsKey])
        (simp_all add: numeric_maps no_flags_def isClickLikeCommand_def)
    also have "\<dots> = ([], written_series command f)"
      using swipe by (auto simp: series_turn_def next_arg_def written_series_def no_flags_def isClickLikeCommand_def numeric_maps)
    finally show ?thesis .
  next
    case gesture
    then show ?thesis
      using n one [of "''--pointer-count''" PointerCountKey "sf_pointerCount f" "\<lambda>v f. f\<lparr>sf_pointerCount := v\<rparr>"]
      by (simp add: appendScriptSeriesFlags_def written_series_def numeric_maps isClickLikeCommand_def no_flags_def)
  next
    case typing
    then show ?thesis
      using n one [of "''--delay-ms''" DelayMsKey "sf_delayMs f" "\<lambda>v f. f\<lparr>sf_delayMs := v\<rparr>"]
      by (auto simp: appendScriptSeriesFlags_def written_series_def numeric_maps isClickLikeCommand_def isTypingCommand_def no_flags_def)
  next
    case other
    with False show ?thesis by (simp add: appendScriptSeriesFlags_def written_series_def)
  qed
qed

lemma parse_series_written:
  assumes "series_ok f" "\<And>p. p \<in> set ps \<Longrightarrow> p \<notin> set series_flag_names"
  shows "parseReplaySeriesFlags command (ps @ appendScriptSeriesFlags command f) = (ps, written_series command f)"
  unfolding parseReplaySeriesFlags_def
  using flag_loop_keep [of ps "series_turn command" no_flags] assms by (simp add: series_keep series_read)

section \<open>Runtime hints are read back\<close>

definition text_arg :: "string \<Rightarrow> string option \<Rightarrow> string list" where
  "text_arg name v = (if truthy v then [name, the v] else [])"

definition hint_args :: "runtime_hints \<Rightarrow> string list" where
  "hint_args h =
     (if rh_platform h = Some ''ios'' \<or> rh_platform h = Some ''android'' then [''--platform'', the (rh_platform h)] else []) @
     text_arg ''--metro-host'' (rh_metroHost h) @
     number_flag ''--metro-port'' (rh_metroPort h) @
     text_arg ''--bundle-url'' (rh_bundleUrl h) @
     text_arg ''--launch-url'' (rh_launchUrl h)"

text \<open>The hints a line carries.\<close>

definition written_text :: "string option \<Rightarrow> string option" where
  "written_text v = (if truthy v then v else None)"

definition written_hints :: "runtime_hints \<Rightarrow> runtime_hints" where
  "written_hints h =
     \<lparr>rh_platform = (if rh_platform h = Some ''ios'' \<or> rh_platform h = Some ''android'' then rh_platform h else None),
      rh_metroHost = written_text (rh_metroHost h), rh_metroPort = rh_metroPort h,
      rh_bundleUrl = written_text (rh_bundleUrl h), rh_launchUrl = written_text (rh_launchUrl h)\<rparr>"

definition runtime_flag_names :: "string list" where
  "runtime_flag_names = [''--platform'', ''--metro-host'', ''--metro-port'', ''--bundle-url'', ''--launch-url'']"

lemma runtime_keep: "p \<notin> set runtime_flag_names \<Longrightarrow> runtime_turn p nx f = keep_turn p f"
  by (simp add: runtime_turn_def keep_turn_def runtime_flag_names_def Let_def)

lemma flag_loop_text:
  assumes "\<And>t. v = Some t \<Longrightarrow> turn name (Some t) f = two_turn (upd (Some t) f)" "upd None f = f"
  shows "flag_loop turn (text_arg name v @ rest) f = flag_loop turn rest (upd (written_text v) f)"
  using assms by (cases v) (simp_all add: text_arg_def written_text_def flag_loop_two del: flag_loop.simps(2))

lemma hints_read:
  assumes "natural (rh_metroPort h)"
  shows "flag_loop runtime_turn (hint_args h) no_flags = ([], no_flags\<lparr>sf_hints := written_hints h\<rparr>)"
proof -
  let ?p = "rh_platform h = Some ''ios'' \<or> rh_platform h = Some ''android''"
  let ?r4 = "text_arg ''--launch-url'' (rh_launchUrl h)"
  let ?r3 = "text_arg ''--bundle-url'' (rh_bundleUrl h) @ ?r4"
  let ?r2 = "number_flag ''--metro-port'' (rh_metroPort h) @ ?r3"
  let ?r1 = "text_arg ''--metro-host'' (rh_metroHost h) @ ?r2"
  let ?h1 = "no_hints\<lparr>rh_platform := if ?p then rh_platform h else None\<rparr>"
  let ?h2 = "?h1\<lparr>rh_metroHost := written_text (rh_metroHost h)\<rparr>"
  let ?h3 = "?h2\<lparr>rh_metroPort := rh_metroPort h\<rparr>"
  let ?h4 = "?h3\<lparr>rh_bundleUrl := written_text (rh_bundleUrl h)\<rparr>"
  let ?h5 = "?h4\<lparr>rh_launchUrl := written_text (rh_launchUrl h)\<rparr>"
  have "flag_loop runtime_turn (hint_args h) no_flags = flag_loop runtime_turn ?r1 (no_flags\<lparr>sf_hints := ?h1\<rparr>)"
  proof (cases ?p)
    case True
    then obtain q where q: "rh_platform h = Some q" "q = ''ios'' \<or> q = ''android''" by blast
    then have args: "hint_args h = ''--platform'' # q # ?r1" by (auto simp: hint_args_def)
    have turn: "runtime_turn ''--platform'' (Some q) no_flags = two_turn (no_flags\<lparr>sf_hints := ?h1\<rparr>)"
      using q by (auto simp: runtime_turn_def two_turn_def no_flags_def)
    show ?thesis unfolding args by (rule flag_loop_two [where turn = runtime_turn, OF turn])
  next
    case False
    then have h1: "?h1 = no_hints" by (simp add: no_hints_def)
    have "no_flags\<lparr>sf_hints := no_hints\<rparr> = no_flags" by (simp add: no_flags_def)
    moreover have "hint_args h = ?r1" unfolding hint_args_def if_not_P [OF False] append_Nil ..
    ultimately show ?thesis unfolding h1 by (simp only:)
  qed
  also have "\<dots> = flag_loop runtime_turn ?r2 (no_flags\<lparr>sf_hints := ?h2\<rparr>)"
    using flag_loop_text [of "rh_metroHost h" runtime_turn "''--metro-host''" "no_flags\<lparr>sf_hints := ?h1\<rparr>"
        "\<lambda>v f. f\<lparr>sf_hints := (sf_hints f)\<lparr>rh_metroHost := v\<rparr>\<rparr>" ?r2]
    by (simp add: runtime_turn_def two_turn_def no_hints_def)
  also have "\<dots> = flag_loop runtime_turn ?r3 (no_flags\<lparr>sf_hints := ?h3\<rparr>)"
    using flag_loop_number [of "rh_metroPort h" runtime_turn "''--metro-port''" "no_flags\<lparr>sf_hints := ?h2\<rparr>"
        "\<lambda>v f. f\<lparr>sf_hints := (sf_hints f)\<lparr>rh_metroPort := v\<rparr>\<rparr>" ?r3] assms
    by (simp add: runtime_turn_def two_turn_def no_hints_def natural_def)
  also have "\<dots> = flag_loop runtime_turn ?r4 (no_flags\<lparr>sf_hints := ?h4\<rparr>)"
    using flag_loop_text [of "rh_bundleUrl h" runtime_turn "''--bundle-url''" "no_flags\<lparr>sf_hints := ?h3\<rparr>"
        "\<lambda>v f. f\<lparr>sf_hints := (sf_hints f)\<lparr>rh_bundleUrl := v\<rparr>\<rparr>" ?r4]
    by (simp add: runtime_turn_def two_turn_def no_hints_def)
  also have "\<dots> = flag_loop runtime_turn [] (no_flags\<lparr>sf_hints := ?h5\<rparr>)"
    using flag_loop_text [of "rh_launchUrl h" runtime_turn "''--launch-url''" "no_flags\<lparr>sf_hints := ?h4\<rparr>"
        "\<lambda>v f. f\<lparr>sf_hints := (sf_hints f)\<lparr>rh_launchUrl := v\<rparr>\<rparr>" "[]"]
    by (simp add: runtime_turn_def two_turn_def no_hints_def)
  also have "?h5 = written_hints h" by (simp add: written_hints_def no_hints_def)
  finally show ?thesis by simp
qed

lemma parse_hints_written:
  assumes "natural (rh_metroPort h)" "\<And>p. p \<in> set ps \<Longrightarrow> p \<notin> set runtime_flag_names"
  shows "parseReplayRuntimeFlags (ps @ hint_args h) = (ps, written_hints h)"
  unfolding parseReplayRuntimeFlags_def
  using flag_loop_keep [of ps runtime_turn no_flags] assms by (simp add: runtime_keep hints_read)

definition self_texts :: "string list \<Rightarrow> bool" where
  "self_texts ts \<longleftrightarrow> (\<forall>t \<in> set ts. token_text t t)"

lemma self_texts_simps [simp]:
  "self_texts []" "self_texts (t # ts) \<longleftrightarrow> token_text t t \<and> self_texts ts"
  "self_texts (ts @ us) \<longleftrightarrow> self_texts ts \<and> self_texts us"
  by (auto simp: self_texts_def)

lemma self_texts_rel: "self_texts ts \<Longrightarrow> list_all2 token_text ts ts"
  by (simp add: self_texts_def list_all2_same)

lemma flag_word: "list_all bare_script_char w \<Longrightarrow> w \<noteq> [] \<Longrightarrow> token_text w w"
  by (rule bare_token_text)

lemma flag_words [simp]:
  "token_text ''--count'' ''--count''" "token_text ''--interval-ms'' ''--interval-ms''" "token_text ''--hold-ms'' ''--hold-ms''"
  "token_text ''--jitter-px'' ''--jitter-px''" "token_text ''--double-tap'' ''--double-tap''" "token_text ''--button'' ''--button''"
  "token_text ''--pause-ms'' ''--pause-ms''" "token_text ''--pattern'' ''--pattern''" "token_text ''one-way'' ''one-way''"
  "token_text ''ping-pong'' ''ping-pong''" "token_text ''--pointer-count'' ''--pointer-count''" "token_text ''--delay-ms'' ''--delay-ms''"
  "token_text ''--platform'' ''--platform''" "token_text ''ios'' ''ios''" "token_text ''android'' ''android''"
  "token_text ''--metro-host'' ''--metro-host''" "token_text ''--metro-port'' ''--metro-port''" "token_text ''--bundle-url'' ''--bundle-url''"
  "token_text ''--launch-url'' ''--launch-url''" "token_text ''--fps'' ''--fps''" "token_text ''--max-size'' ''--max-size''"
  "token_text ''--quality'' ''--quality''" "token_text ''--hide-touches'' ''--hide-touches''" "token_text ''-i'' ''-i''"
  "token_text ''-d'' ''-d''" "token_text ''-s'' ''-s''" "token_text ''--raw'' ''--raw''" "token_text ''--pixel-density'' ''--pixel-density''"
  "token_text ''--fullscreen'' ''--fullscreen''" "token_text ''--no-stabilize'' ''--no-stabilize''"
  "token_text ''--normalize-status-bar'' ''--normalize-status-bar''" "token_text ''--relaunch'' ''--relaunch''"
  "token_text ''secondary'' ''secondary''" "token_text ''middle'' ''middle''"
  by (rule flag_word; code_simp)+

lemma number_flag_texts: "token_text name name \<Longrightarrow> self_texts (number_flag name v)"
  by (simp add: number_flag_def int_dec_token split: option.split)

lemma series_texts: "series_ok f \<Longrightarrow> self_texts (appendScriptSeriesFlags command f)"
  by (auto simp: appendScriptSeriesFlags_def series_ok_def number_flag_texts)

lemma text_flag_texts: "token_text name name \<Longrightarrow> list_all2 token_text (text_flag name v) (text_arg name v)"
  by (simp add: text_flag_def text_arg_def formatScriptArgQuoteIfNeeded_text split: option.split)

lemma hint_texts: "list_all2 token_text (appendRuntimeHintFlags (Some h)) (hint_args h)"
  unfolding appendRuntimeHintFlags_def hint_args_def option.case
  by (intro list_all2_appendI text_flag_texts self_texts_rel number_flag_texts) auto

section \<open>Snapshots, recordings and screenshots\<close>

definition snapshot_args :: "action_flags \<Rightarrow> string list" where
  "snapshot_args f =
     (if sf_snapshotInteractiveOnly f then [''-i''] else []) @
     number_flag ''-d'' (sf_snapshotDepth f) @
     text_arg ''-s'' (sf_snapshotScope f) @
     (if sf_snapshotRaw f then [''--raw''] else [])"

definition written_snapshot :: "action_flags \<Rightarrow> action_flags" where
  "written_snapshot f =
     no_flags\<lparr>sf_snapshotInteractiveOnly := sf_snapshotInteractiveOnly f, sf_snapshotDepth := sf_snapshotDepth f,
       sf_snapshotScope := written_text (sf_snapshotScope f), sf_snapshotRaw := sf_snapshotRaw f\<rparr>"

lemma snapshot_read:
  assumes "natural (sf_snapshotDepth f)"
  shows "flag_loop snapshot_turn (snapshot_args f) no_flags = ([], written_snapshot f)"
proof -
  let ?r3 = "if sf_snapshotRaw f then [''--raw''] else []"
  let ?r2 = "text_arg ''-s'' (sf_snapshotScope f) @ ?r3"
  let ?r1 = "number_flag ''-d'' (sf_snapshotDepth f) @ ?r2"
  let ?f1 = "no_flags\<lparr>sf_snapshotInteractiveOnly := sf_snapshotInteractiveOnly f\<rparr>"
  let ?f2 = "?f1\<lparr>sf_snapshotDepth := sf_snapshotDepth f\<rparr>"
  let ?f3 = "?f2\<lparr>sf_snapshotScope := written_text (sf_snapshotScope f)\<rparr>"
  have "flag_loop snapshot_turn (snapshot_args f) no_flags = flag_loop snapshot_turn ?r1 ?f1"
    unfolding snapshot_args_def
    by (intro flag_loop_switch [where upd = "\<lambda>v f. f\<lparr>sf_snapshotInteractiveOnly := v\<rparr>"])
      (simp_all add: snapshot_turn_def one_turn_def no_flags_def)
  also have "\<dots> = flag_loop snapshot_turn ?r2 ?f2"
    using assms by (intro flag_loop_number [where upd = "\<lambda>v f. f\<lparr>sf_snapshotDepth := v\<rparr>"])
      (simp_all add: snapshot_turn_def two_turn_def no_flags_def js_Number_int_dec natural_def)
  also have "\<dots> = flag_loop snapshot_turn ?r3 ?f3"
    by (intro flag_loop_text [where upd = "\<lambda>v f. f\<lparr>sf_snapshotScope := v\<rparr>"])
      (simp_all add: snapshot_turn_def two_turn_def no_flags_def)
  also have "\<dots> = ([], written_snapshot f)"
    by (simp add: snapshot_turn_def written_snapshot_def no_flags_def)
  finally show ?thesis .
qed

definition record_flag_names :: "string list" where
  "record_flag_names = [''--hide-touches'', ''--fps'', ''--quality'', ''--max-size'']"

definition record_args :: "action_flags \<Rightarrow> string list" where
  "record_args f =
     number_flag ''--fps'' (sf_fps f) @
     number_flag ''--max-size'' (sf_screenshotMaxSize f) @
     (case sf_quality f of Some q \<Rightarrow> [''--quality'', quality_text q] | None \<Rightarrow> []) @
     (if sf_hideTouches f then [''--hide-touches''] else [])"

definition written_quality :: "script_quality option \<Rightarrow> script_quality option" where
  "written_quality v =
     (case v of Some q \<Rightarrow> map_option QualityText (recordingQualityInputToExportQuality (quality_text q)) | None \<Rightarrow> None)"

definition written_record :: "action_flags \<Rightarrow> action_flags" where
  "written_record f =
     no_flags\<lparr>sf_fps := sf_fps f, sf_screenshotMaxSize := sf_screenshotMaxSize f, sf_quality := written_quality (sf_quality f),
       sf_hideTouches := sf_hideTouches f\<rparr>"

lemma record_keep: "p \<notin> set record_flag_names \<Longrightarrow> record_turn p nx f = keep_turn p f"
  by (simp add: record_turn_def keep_turn_def record_flag_names_def Let_def split: option.split)

lemma record_read: "flag_loop record_turn (record_args f) no_flags = ([], written_record f)"
proof -
  let ?r3 = "if sf_hideTouches f then [''--hide-touches''] else []"
  let ?r2 = "(case sf_quality f of Some q \<Rightarrow> [''--quality'', quality_text q] | None \<Rightarrow> []) @ ?r3"
  let ?r1 = "number_flag ''--max-size'' (sf_screenshotMaxSize f) @ ?r2"
  let ?f1 = "no_flags\<lparr>sf_fps := sf_fps f\<rparr>"
  let ?f2 = "?f1\<lparr>sf_screenshotMaxSize := sf_screenshotMaxSize f\<rparr>"
  let ?f3 = "?f2\<lparr>sf_quality := written_quality (sf_quality f)\<rparr>"
  have "flag_loop record_turn (record_args f) no_flags = flag_loop record_turn ?r1 ?f1"
    unfolding record_args_def
    by (intro flag_loop_number [where upd = "\<lambda>v f. f\<lparr>sf_fps := v\<rparr>"])
      (simp_all add: record_turn_def two_turn_def no_flags_def js_Number_int_dec)
  also have "\<dots> = flag_loop record_turn ?r2 ?f2"
    by (intro flag_loop_number [where upd = "\<lambda>v f. f\<lparr>sf_screenshotMaxSize := v\<rparr>"])
      (simp_all add: record_turn_def two_turn_def no_flags_def js_Number_int_dec)
  also have "\<dots> = flag_loop record_turn ?r3 ?f3"
  proof (cases "sf_quality f")
    case (Some q)
    have turn: "record_turn ''--quality'' (Some (quality_text q)) ?f2 = two_turn ?f3"
      by (simp add: record_turn_def two_turn_def written_quality_def Some no_flags_def split: option.split)
    show ?thesis unfolding Some option.case append.simps
      using flag_loop_two [where turn = record_turn, OF turn] by (simp only: Some)
  qed (simp add: written_quality_def no_flags_def)
  also have "\<dots> = ([], written_record f)"
    by (simp add: record_turn_def written_record_def no_flags_def)
  finally show ?thesis .
qed

lemma screenshot_loop_keep:
  "(\<And>p nx. p \<in> set ps \<Longrightarrow> readScreenshotScriptFlag p nx f = Inr (keep_turn p f)) \<Longrightarrow>
   screenshot_loop (ps @ rest) f =
     (case screenshot_loop rest f of Inl e \<Rightarrow> Inl e | Inr (qs, f') \<Rightarrow> Inr (ps @ qs, f'))"
  by (induction ps) (auto simp: keep_turn_def split: sum.split)

definition screenshot_flag_names :: "string list" where
  "screenshot_flag_names =
     [''--fullscreen'', ''--full'', ''-f'', ''--no-stabilize'', ''--normalize-status-bar'', ''--pixel-density'', ''--max-size'']"

lemma screenshot_keep: "p \<notin> set screenshot_flag_names \<Longrightarrow> readScreenshotScriptFlag p nx f = Inr (keep_turn p f)"
  by (simp add: readScreenshotScriptFlag_def readScreenshotBooleanScriptFlag_def readScreenshotIntScriptFlag_def
      screenshot_flag_names_def keep_turn_def)

definition written_screenshot :: "action_flags \<Rightarrow> action_flags" where
  "written_screenshot f =
     no_flags\<lparr>sf_screenshotPixelDensity := sf_screenshotPixelDensity f, sf_screenshotFullscreen := sf_screenshotFullscreen f,
       sf_screenshotMaxSize := sf_screenshotMaxSize f, sf_screenshotNoStabilize := sf_screenshotNoStabilize f,
       sf_screenshotNormalizeStatusBar := sf_screenshotNormalizeStatusBar f\<rparr>"

definition positive :: "int option \<Rightarrow> bool" where
  "positive v \<longleftrightarrow> (\<forall>n. v = Some n \<longrightarrow> 1 \<le> n)"

lemma positive_int_dec [simp]: "1 \<le> n \<Longrightarrow> positive_integer (Some (int_dec n)) = Some n"
  by (simp add: positive_integer_def js_Number_int_dec)

lemma screenshot_density:
  assumes "positive v" "f\<lparr>sf_screenshotPixelDensity := None\<rparr> = f"
  shows "screenshot_loop (number_flag ''--pixel-density'' v @ rest) f = screenshot_loop rest (f\<lparr>sf_screenshotPixelDensity := v\<rparr>)"
proof (cases v)
  case None
  show ?thesis unfolding None number_flag_def option.case append_Nil assms(2) ..
next
  case (Some n)
  then have "positive_integer (Some (int_dec n)) = Some n" using assms(1) by (simp add: positive_def)
  then show ?thesis
    unfolding Some number_flag_def
    by (simp add: readScreenshotScriptFlag_def readScreenshotBooleanScriptFlag_def readScreenshotIntScriptFlag_def
        next_arg_def split: sum.split)
qed

lemma screenshot_size:
  assumes "positive v" "f\<lparr>sf_screenshotMaxSize := None\<rparr> = f"
  shows "screenshot_loop (number_flag ''--max-size'' v @ rest) f = screenshot_loop rest (f\<lparr>sf_screenshotMaxSize := v\<rparr>)"
proof (cases v)
  case None
  show ?thesis unfolding None number_flag_def option.case append_Nil assms(2) ..
next
  case (Some n)
  then have "positive_integer (Some (int_dec n)) = Some n" using assms(1) by (simp add: positive_def)
  then show ?thesis
    unfolding Some number_flag_def
    by (simp add: readScreenshotScriptFlag_def readScreenshotBooleanScriptFlag_def readScreenshotIntScriptFlag_def
        next_arg_def split: sum.split)
qed

lemma screenshot_switch:
  assumes "readScreenshotBooleanScriptFlag name f = Some (upd True f)" "upd False f = f"
  shows "screenshot_loop ((if b then [name] else []) @ rest) f = screenshot_loop rest (upd b f)"
  using assms by (simp add: readScreenshotScriptFlag_def split: sum.split)

lemma screenshot_read:
  assumes "positive (sf_screenshotPixelDensity f)" "positive (sf_screenshotMaxSize f)"
  shows "screenshot_loop (appendScreenshotScriptFlags f) no_flags = Inr ([], written_screenshot f)"
proof -
  let ?r4 = "if sf_screenshotNormalizeStatusBar f then [''--normalize-status-bar''] else []"
  let ?r3 = "(if sf_screenshotNoStabilize f then [''--no-stabilize''] else []) @ ?r4"
  let ?r2 = "number_flag ''--max-size'' (sf_screenshotMaxSize f) @ ?r3"
  let ?r1 = "(if sf_screenshotFullscreen f then [''--fullscreen''] else []) @ ?r2"
  let ?f1 = "no_flags\<lparr>sf_screenshotPixelDensity := sf_screenshotPixelDensity f\<rparr>"
  let ?f2 = "?f1\<lparr>sf_screenshotFullscreen := sf_screenshotFullscreen f\<rparr>"
  let ?f3 = "?f2\<lparr>sf_screenshotMaxSize := sf_screenshotMaxSize f\<rparr>"
  let ?f4 = "?f3\<lparr>sf_screenshotNoStabilize := sf_screenshotNoStabilize f\<rparr>"
  have "screenshot_loop (appendScreenshotScriptFlags f) no_flags = screenshot_loop ?r1 ?f1"
    unfolding appendScreenshotScriptFlags_def
    using assms by (intro screenshot_density) (simp_all add: no_flags_def)
  also have "\<dots> = screenshot_loop ?r2 ?f2"
    by (intro screenshot_switch [where upd = "\<lambda>v f. f\<lparr>sf_screenshotFullscreen := v\<rparr>"])
      (simp_all add: readScreenshotBooleanScriptFlag_def no_flags_def)
  also have "\<dots> = screenshot_loop ?r3 ?f3"
    using assms by (intro screenshot_size) (simp_all add: no_flags_def)
  also have "\<dots> = screenshot_loop ?r4 ?f4"
    by (intro screenshot_switch [where upd = "\<lambda>v f. f\<lparr>sf_screenshotNoStabilize := v\<rparr>"])
      (simp_all add: readScreenshotBooleanScriptFlag_def no_flags_def)
  also have "\<dots> = Inr ([], written_screenshot f)"
    by (simp add: readScreenshotScriptFlag_def readScreenshotBooleanScriptFlag_def written_screenshot_def no_flags_def)
  finally show ?thesis .
qed

section \<open>Actions that a script can carry\<close>

definition avoids :: "string list \<Rightarrow> string list \<Rightarrow> bool" where
  "avoids names ps \<longleftrightarrow> (\<forall>p \<in> set ps. p \<notin> set names)"

definition is_ref :: "string \<Rightarrow> bool" where
  "is_ref p \<longleftrightarrow> take 1 p = ''@''"

definition unpinned :: "string \<Rightarrow> bool" where
  "unpinned p \<longleftrightarrow> stripRecordedRefGeneration p = p"

definition numeric :: "string \<Rightarrow> bool" where
  "numeric p \<longleftrightarrow> isNumericToken (Some p)"

text \<open>The positionals of an action are in the form the parser leaves them in, none of them reads like a flag of the
  command, and its numeric flags are in range.\<close>

definition click_target :: "string list \<Rightarrow> bool" where
  "click_target ps \<longleftrightarrow>
     (\<exists>t. ps = [t] \<and> t \<noteq> [] \<and> unpinned t) \<or> (\<exists>x y. ps = [x, y] \<and> \<not> is_ref x \<and> x \<noteq> [] \<and> numeric x \<and> numeric y)"

definition fill_target :: "string list \<Rightarrow> bool" where
  "fill_target ps \<longleftrightarrow>
     (\<exists>r t. ps = [r, t] \<and> unpinned r \<and> (is_ref r \<or> \<not> (numeric r \<and> numeric t))) \<or>
     (\<exists>x y t. ps = [x, y, t] \<and> numeric x \<and> numeric y)"

definition get_target :: "string list \<Rightarrow> bool" where
  "get_target ps \<longleftrightarrow> (\<exists>s r. ps = [s, r] \<and> s \<noteq> [] \<and> r \<noteq> [] \<and> unpinned r)"

definition open_hints_ok :: "runtime_hints option \<Rightarrow> bool" where
  "open_hints_ok v \<longleftrightarrow> (\<forall>h. v = Some h \<longrightarrow> natural (rh_metroPort h) \<and> ''--relaunch'' \<notin> set (hint_args h))"

definition replayable :: "session_action \<Rightarrow> bool" where
  "replayable a \<longleftrightarrow>
     (let c = sa_command a; ps = sa_positionals a; f = sa_flags a
      in line_command c \<and>
         (if c = ''snapshot'' then natural (sf_snapshotDepth f)
          else if c = ''open'' then avoids (''--relaunch'' # runtime_flag_names) ps \<and> open_hints_ok (sa_runtime a)
          else if c = ''runtime'' then length ps \<le> 1 \<and> avoids runtime_flag_names ps \<and> natural (rh_metroPort (sf_hints f))
          else if isClickLikeCommand c
          then click_target ps \<and> avoids series_flag_names (ps @ (case sa_refLabel a of Some l \<Rightarrow> [l] | None \<Rightarrow> [])) \<and> series_ok f
          else if c = ''fill''
          then fill_target ps \<and> avoids series_flag_names (ps @ (case sa_refLabel a of Some l \<Rightarrow> [l] | None \<Rightarrow> [])) \<and> series_ok f
          else if c = ''get'' then get_target ps
          else if c = ''swipe'' \<or> c = ''type'' \<or> c = ''gesture'' then avoids series_flag_names ps \<and> series_ok f
          else if c = ''record''
          then avoids record_flag_names ps \<and> (ps \<noteq> [] \<longrightarrow> hd ps \<noteq> []) \<and>
               (\<forall>q. sf_quality f = Some q \<longrightarrow> bare_word (quality_text q))
          else if c = ''screenshot''
          then avoids screenshot_flag_names ps \<and> positive (sf_screenshotPixelDensity f) \<and> positive (sf_screenshotMaxSize f)
          else if c = ''wait'' \<or> c = ''longpress'' then \<forall>p \<in> set ps. unpinned p
          else True))"

text \<open>What is left of an action in its line: the positionals, the flags of its command and the label of its reference.\<close>

definition written_flags :: "session_action \<Rightarrow> action_flags" where
  "written_flags a =
     (let c = sa_command a; f = sa_flags a
      in if c = ''snapshot'' then written_snapshot f
         else if c = ''open'' then no_flags\<lparr>sf_relaunch := sf_relaunch f\<rparr>
         else if c = ''runtime'' then no_flags\<lparr>sf_hints := written_hints (sf_hints f)\<rparr>
         else if c = ''record'' then written_record f
         else if c = ''screenshot'' then written_screenshot f
         else written_series c f)"

definition nth_arg :: "nat \<Rightarrow> string list \<Rightarrow> string option" where
  "nth_arg i ps = (if i < length ps then Some (ps ! i) else None)"

definition written_label :: "session_action \<Rightarrow> string option" where
  "written_label a =
     (let c = sa_command a; ps = sa_positionals a;
          target = (if c = ''get'' then nth_arg 1 ps else nth_arg 0 ps)
      in if (isClickLikeCommand c \<or> c = ''fill'' \<or> c = ''get'') \<and> (\<exists>t. target = Some t \<and> is_ref t) \<and>
            (\<exists>l. sa_refLabel a = Some l \<and> js_trim l \<noteq> [])
         then sa_refLabel a else None)"

definition replayed :: "int \<Rightarrow> session_action \<Rightarrow> session_action" where
  "replayed now a =
     \<lparr>sa_ts = now, sa_command = sa_command a,
      sa_positionals = (if sa_command a = ''snapshot'' then [] else sa_positionals a),
      sa_runtime = (if sa_command a = ''open''
        then (case sa_runtime a of
                Some h \<Rightarrow> if hasReplayOpenRuntimeHints (written_hints h) then Some (written_hints h) else None
              | None \<Rightarrow> None)
        else None),
      sa_flags = written_flags a, sa_refLabel = written_label a, sa_targetEvidence = None\<rparr>"

section \<open>Lines are read back, command by command\<close>

lemma args_texts: "list_all2 token_text (map formatScriptArg ps) ps"
  by (induction ps) (simp_all add: formatScriptArg_text)

lemma quoted_args_texts: "list_all2 token_text (map formatScriptArgQuoteIfNeeded ps) ps"
  by (induction ps) (simp_all add: formatScriptArgQuoteIfNeeded_text)

definition line_reads :: "int \<Rightarrow> session_action \<Rightarrow> bool" where
  "line_reads now a \<longleftrightarrow>
     line_command (sa_command a) \<and>
     (\<exists>parts args. formatActionLine a = js_join '' '' (sa_command a # parts) \<and> list_all2 token_text parts args \<and>
        parse_command now (sa_command a) args = Inr (replayed now a))"

lemma line_read:
  assumes "line_command (sa_command a)" "formatActionLine a = js_join '' '' (sa_command a # parts)"
    "list_all2 token_text parts args" "parse_command now (sa_command a) args = Inr (replayed now a)"
  shows "line_reads now a"
  using assms unfolding line_reads_def by blast

lemma js_join_nonempty: "x \<noteq> [] \<Longrightarrow> js_join sep (x # xs) \<noteq> []"
  by (simp add: js_join_def)

lemma at_not_numeric: "is_ref r \<Longrightarrow> \<not> numeric r"
proof -
  assume "is_ref r"
  then obtain s where r: "r = CHR ''@'' # s" by (cases r) (auto simp: is_ref_def)
  have at: "\<not> is_js_space (CHR ''@'')" "js_lower_char (CHR ''@'') = CHR ''@''" "\<not> is_digit_char (CHR ''@'')" by code_simp+
  obtain t where t: "js_trim r = CHR ''@'' # t"
  proof (cases "dropWhile is_js_space (rev s) = []")
    case True
    then have "list_all is_js_space s" by (simp add: list_all_iff)
    then have "js_trim r = [CHR ''@'']"
      using at True unfolding r js_trim_def js_trim_start_def by (simp add: dropWhile_append list_all_iff)
    then show ?thesis using that by blast
  next
    case False
    then have "js_trim r = CHR ''@'' # rev (dropWhile is_js_space (rev s))"
      using at unfolding r js_trim_def js_trim_start_def by (auto simp: dropWhile_append)
    then show ?thesis using that by blast
  qed
  have marks: "\<not> is_based ''0x'' f (CHR ''@'' # t)" "\<not> is_based ''0o'' f (CHR ''@'' # t)" "\<not> is_based ''0b'' f (CHR ''@'' # t)" for f
    using at by (simp_all add: is_based_def js_lower_def)
  have "js_Number r = NaN"
    unfolding js_Number_def Let_def t if_not_P [OF marks(1)] if_not_P [OF marks(2)] if_not_P [OF marks(3)]
    using at by (simp add: decimal_of_def)
  then show ?thesis by (simp add: numeric_def isNumericToken_def)
qed

lemma snapshot_line:
  assumes "replayable a" "sa_command a = ''snapshot''"
  shows "line_reads now a"
proof (rule line_read)
  have n: "natural (sf_snapshotDepth (sa_flags a))" using assms by (simp add: replayable_def Let_def)
  show "line_command (sa_command a)" using assms by (simp add: replayable_def Let_def)
  show "formatActionLine a = js_join '' '' (sa_command a # appendSnapshotActionScriptArgs a)"
    using assms(2) by (simp add: formatActionLine_def formatSpecialActionLine_def isClickLikeCommand_def formatPortableActionLine_def)
  have "list_all2 token_text (if truthy v then [''-s'', formatScriptArg (the v)] else []) (text_arg ''-s'' v)" for v
    by (simp add: text_arg_def formatScriptArg_text)
  then show "list_all2 token_text (appendSnapshotActionScriptArgs a) (snapshot_args (sa_flags a))"
    unfolding appendSnapshotActionScriptArgs_def snapshot_args_def
    by (intro list_all2_appendI self_texts_rel number_flag_texts) auto
  show "parse_command now (sa_command a) (snapshot_args (sa_flags a)) = Inr (replayed now a)"
    using assms(2) by (simp add: parse_command_def Let_def snapshot_read [OF n] replayed_def written_flags_def written_label_def
        isClickLikeCommand_def)
qed

lemma open_line:
  assumes "replayable a" "sa_command a = ''open''"
  shows "line_reads now a"
proof (rule line_read)
  let ?ps = "sa_positionals a" and ?f = "sa_flags a"
  let ?hs = "case sa_runtime a of Some h \<Rightarrow> hint_args h | None \<Rightarrow> []"
  let ?relaunch = "if sf_relaunch ?f then [''--relaunch''] else []"
  have ok: "avoids (''--relaunch'' # runtime_flag_names) ?ps" "open_hints_ok (sa_runtime a)" "line_command (sa_command a)"
    using assms by (simp_all add: replayable_def Let_def)
  show "line_command (sa_command a)" by (rule ok)
  show "formatActionLine a = js_join '' '' (sa_command a # appendOpenActionScriptArgs a)"
    using assms(2) by (simp add: formatActionLine_def formatSpecialActionLine_def isClickLikeCommand_def formatPortableActionLine_def)
  have "list_all2 token_text (appendRuntimeHintFlags (sa_runtime a)) ?hs"
    using hint_texts by (cases "sa_runtime a") (simp_all add: appendRuntimeHintFlags_def)
  then show "list_all2 token_text (appendOpenActionScriptArgs a) (?ps @ ?relaunch @ ?hs)"
    unfolding appendOpenActionScriptArgs_def by (intro list_all2_appendI args_texts) auto
  have nr: "''--relaunch'' \<notin> set ?ps" "''--relaunch'' \<notin> set ?hs"
    using ok by (auto simp: avoids_def open_hints_ok_def split: option.splits)
  have id: "filter (\<lambda>token. token \<noteq> ''--relaunch'') xs = xs" if "''--relaunch'' \<notin> set xs" for xs
    using that by (auto simp: filter_id_conv)
  have "filter (\<lambda>token. token \<noteq> ''--relaunch'') ?relaunch = []" by simp
  then have f: "filter (\<lambda>token. token \<noteq> ''--relaunch'') (?ps @ ?relaunch @ ?hs) = ?ps @ ?hs"
    unfolding filter_append id [OF nr(1)] id [OF nr(2)] by (simp only: append_Nil)
  have p: "parseReplayRuntimeFlags (?ps @ ?hs) = (?ps, case sa_runtime a of Some h \<Rightarrow> written_hints h | None \<Rightarrow> no_hints)"
  proof (cases "sa_runtime a")
    case None
    then show ?thesis
      using flag_loop_keep [of ?ps runtime_turn no_flags "[]"] ok(1)
      by (simp add: parseReplayRuntimeFlags_def runtime_keep avoids_def) (simp add: no_flags_def)
  next
    case (Some h)
    then show ?thesis using ok parse_hints_written [of h ?ps] by (simp add: open_hints_ok_def avoids_def)
  qed
  have "parseReplayOpenFlags (?ps @ ?relaunch @ ?hs) =
      (?ps, no_flags\<lparr>sf_relaunch := sf_relaunch ?f\<rparr>, sa_runtime (replayed now a))"
    unfolding parseReplayOpenFlags_def f p Let_def prod.case
    using nr assms(2) by (auto simp: replayed_def hasReplayOpenRuntimeHints_def no_hints_def no_flags_def split: option.split)
  then show "parse_command now (sa_command a) (?ps @ ?relaunch @ ?hs) = Inr (replayed now a)"
    using assms(2) by (simp add: parse_command_def Let_def replayed_def written_flags_def written_label_def isClickLikeCommand_def)
qed

lemma runtime_line:
  assumes "replayable a" "sa_command a = ''runtime''"
  shows "line_reads now a"
proof (rule line_read)
  let ?ps = "sa_positionals a" and ?h = "sf_hints (sa_flags a)"
  have ok: "length ?ps \<le> 1" "avoids runtime_flag_names ?ps" "natural (rh_metroPort ?h)" "line_command (sa_command a)"
    using assms by (simp_all add: replayable_def Let_def)
  show "line_command (sa_command a)" by (rule ok)
  show "formatActionLine a = js_join '' '' (sa_command a # appendRuntimeActionScriptArgs a False)"
    using assms(2) by (simp add: formatActionLine_def formatSpecialActionLine_def isClickLikeCommand_def formatPortableActionLine_def)
  show "list_all2 token_text (appendRuntimeActionScriptArgs a False) (?ps @ hint_args ?h)"
    using ok(1) unfolding appendRuntimeActionScriptArgs_def
    by (intro list_all2_appendI hint_texts) (simp add: quoted_args_texts)
  show "parse_command now (sa_command a) (?ps @ hint_args ?h) = Inr (replayed now a)"
    using assms(2) ok parse_hints_written [of ?h ?ps]
    by (simp add: parse_command_def Let_def replayed_def written_flags_def written_label_def isClickLikeCommand_def avoids_def)
qed

lemma record_line:
  assumes "replayable a" "sa_command a = ''record''"
  shows "line_reads now a"
proof (rule line_read)
  let ?ps = "sa_positionals a" and ?f = "sa_flags a"
  have ok: "avoids record_flag_names ?ps" "?ps \<noteq> [] \<longrightarrow> hd ?ps \<noteq> []" "line_command (sa_command a)"
    "\<And>q. sf_quality ?f = Some q \<Longrightarrow> bare_word (quality_text q)"
    using assms by (simp_all add: replayable_def Let_def isClickLikeCommand_def)
  show "line_command (sa_command a)" by (rule ok)
  show "formatActionLine a = js_join '' '' (sa_command a # appendRecordActionScriptArgs a)"
    using assms(2) by (simp add: formatActionLine_def formatSpecialActionLine_def isClickLikeCommand_def formatPortableActionLine_def)
  have "list_all2 token_text
      (case ?ps of [] \<Rightarrow> [] | s # rest \<Rightarrow> (if s \<noteq> [] then [formatScriptArgQuoteIfNeeded s] else []) @ map formatScriptArg rest) ?ps"
    using ok(2) by (cases ?ps) (simp_all add: args_texts formatScriptArgQuoteIfNeeded_text)
  moreover have "self_texts (case sf_quality ?f of Some q \<Rightarrow> [''--quality'', quality_text q] | None \<Rightarrow> [])"
    using ok(4) by (simp add: bare_word_token split: option.split)
  ultimately show "list_all2 token_text (appendRecordActionScriptArgs a) (?ps @ record_args ?f)"
    unfolding appendRecordActionScriptArgs_def record_args_def
    by (intro list_all2_appendI self_texts_rel number_flag_texts) auto
  show "parse_command now (sa_command a) (?ps @ record_args ?f) = Inr (replayed now a)"
    using assms(2) ok(1) flag_loop_keep [of ?ps record_turn no_flags "record_args ?f"]
    by (simp add: parse_command_def Let_def replayed_def written_flags_def written_label_def isClickLikeCommand_def avoids_def
        record_keep record_read)
qed

lemma screenshot_texts: "self_texts (appendScreenshotScriptFlags f)"
  by (simp add: appendScreenshotScriptFlags_def number_flag_texts)

lemma screenshot_line:
  assumes "replayable a" "sa_command a = ''screenshot''"
  shows "line_reads now a"
proof (rule line_read)
  let ?ps = "sa_positionals a" and ?f = "sa_flags a"
  have ok: "avoids screenshot_flag_names ?ps" "positive (sf_screenshotPixelDensity ?f)" "positive (sf_screenshotMaxSize ?f)"
    "line_command (sa_command a)"
    using assms by (simp_all add: replayable_def Let_def isClickLikeCommand_def)
  show "line_command (sa_command a)" by (rule ok)
  show "formatActionLine a = js_join '' '' (sa_command a # appendScreenshotActionScriptArgs a)"
    using assms(2) by (simp add: formatActionLine_def formatSpecialActionLine_def isClickLikeCommand_def formatPortableActionLine_def)
  show "list_all2 token_text (appendScreenshotActionScriptArgs a) (?ps @ appendScreenshotScriptFlags ?f)"
    unfolding appendScreenshotActionScriptArgs_def
    by (intro list_all2_appendI args_texts self_texts_rel screenshot_texts)
  show "parse_command now (sa_command a) (?ps @ appendScreenshotScriptFlags ?f) = Inr (replayed now a)"
    using assms(2) ok screenshot_loop_keep [of ?ps no_flags "appendScreenshotScriptFlags ?f"]
    by (simp add: parse_command_def Let_def replayed_def written_flags_def written_label_def isClickLikeCommand_def avoids_def
        screenshot_keep screenshot_read)
qed

lemma written_series_parse:
  assumes "series_ok f" "avoids series_flag_names ps"
  shows "parseReplaySeriesFlags command (ps @ appendScriptSeriesFlags command f) = (ps, written_series command f)"
  using assms by (intro parse_series_written) (auto simp: avoids_def)

definition label_args :: "session_action \<Rightarrow> string list" where
  "label_args a = (case sa_refLabel a of Some l \<Rightarrow> if js_trim l = [] then [] else [l] | None \<Rightarrow> [])"

lemma label_args_texts: "list_all2 token_text (appendRefLabel a) (label_args a)"
  by (cases "sa_refLabel a") (simp_all add: appendRefLabel_def label_args_def formatScriptArg_text)

lemma label_args_avoid:
  "avoids names (ps @ (case sa_refLabel a of Some l \<Rightarrow> [l] | None \<Rightarrow> [])) \<Longrightarrow> avoids names (ps @ label_args a)"
  by (auto simp: avoids_def label_args_def split: option.splits)

lemma label_args_cases:
  obtains (label) l where "label_args a = [l]" "sa_refLabel a = Some l" "js_trim l \<noteq> []" "l \<noteq> []"
    | (none) "label_args a = []" "\<nexists>l. sa_refLabel a = Some l \<and> js_trim l \<noteq> []"
proof (cases "\<exists>l. sa_refLabel a = Some l \<and> js_trim l \<noteq> []")
  case True
  then obtain l where l: "sa_refLabel a = Some l" "js_trim l \<noteq> []" by blast
  moreover from this have "l \<noteq> []" by auto
  ultimately show ?thesis using label by (simp add: label_args_def)
next
  case False
  then show ?thesis using none by (auto simp: label_args_def split: option.split)
qed

lemma click_line:
  assumes "replayable a" "isClickLikeCommand (sa_command a)"
  shows "line_reads now a"
proof -
  let ?c = "sa_command a" and ?ps = "sa_positionals a" and ?f = "sa_flags a"
  have c: "?c \<noteq> ''snapshot''" "?c \<noteq> ''open''" "?c \<noteq> ''runtime''" "?c \<noteq> ''fill''" "?c \<noteq> ''get''" "?c \<noteq> ''record''" "?c \<noteq> ''screenshot''" "?c \<noteq> ''wait''"
    using assms(2) by (auto simp: isClickLikeCommand_def)
  have ok: "click_target ?ps" "avoids series_flag_names (?ps @ (case sa_refLabel a of Some l \<Rightarrow> [l] | None \<Rightarrow> []))" "series_ok ?f"
    "line_command ?c"
    using assms c by (simp_all add: replayable_def Let_def)
  note series = written_series_parse [OF ok(3), of _ ?c]
  have av: "avoids series_flag_names (?ps @ label_args a)" "avoids series_flag_names ?ps"
    using label_args_avoid [OF ok(2)] by (auto simp: avoids_def)
  have flags: "written_flags a = written_series ?c ?f" using c by (simp add: written_flags_def Let_def)
  have cmd: "parse_command now ?c args = Inr (parse_click_like \<lparr>sa_ts = now, sa_command = ?c, sa_positionals = [], sa_runtime = None,
      sa_flags = no_flags, sa_refLabel = None, sa_targetEvidence = None\<rparr> args)" for args
    using assms(2) c by (simp add: parse_command_def Let_def)
  from ok(1) consider (ref) t where "?ps = [t]" "is_ref t" "unpinned t"
    | (selector) t where "?ps = [t]" "t \<noteq> []" "\<not> is_ref t"
    | (point) x y where "?ps = [x, y]" "\<not> is_ref x" "x \<noteq> []" "numeric x" "numeric y"
    unfolding click_target_def by blast
  then show ?thesis
  proof cases
    case ref
    then have t: "t \<noteq> []" "take 1 t = ''@''" "stripRecordedRefGeneration t = t" by (auto simp: is_ref_def unpinned_def)
    show ?thesis
    proof (rule line_read [OF ok(4)])
      show "formatActionLine a = js_join '' '' (?c # [formatScriptArg t] @ appendRefLabel a @ appendScriptSeriesFlags ?c ?f)"
        using assms(2) ref t ok(4) by (simp add: formatActionLine_def formatSpecialActionLine_def formatClickLikeActionLine_def
            js_join_nonempty line_command_def bare_word_def)
      show "list_all2 token_text ([formatScriptArg t] @ appendRefLabel a @ appendScriptSeriesFlags ?c ?f)
          ((?ps @ label_args a) @ appendScriptSeriesFlags ?c ?f)"
        unfolding append_assoc using ref
        by (intro list_all2_appendI label_args_texts self_texts_rel series_texts ok(3)) (simp add: formatScriptArg_text)
      show "parse_command now ?c ((?ps @ label_args a) @ appendScriptSeriesFlags ?c ?f) = Inr (replayed now a)"
      proof (cases a rule: label_args_cases)
        case (label l)
        then show ?thesis
          unfolding cmd parse_click_like_def Let_def using series [OF av(1)] ref t assms(2) c
          by (simp add: next_arg_def replayed_def flags written_label_def nth_arg_def)
      next
        case none
        then show ?thesis
          unfolding cmd parse_click_like_def Let_def using series [OF av(1)] ref t assms(2) c
          by (auto simp: next_arg_def replayed_def flags written_label_def nth_arg_def)
      qed
    qed
  next
    case selector
    then have t: "take 1 t \<noteq> ''@''" by (simp add: is_ref_def)
    show ?thesis
    proof (rule line_read [OF ok(4)])
      show "formatActionLine a = js_join '' '' (?c # [formatScriptArg t] @ appendScriptSeriesFlags ?c ?f)"
        using assms(2) selector t ok(4) by (simp add: formatActionLine_def formatSpecialActionLine_def formatClickLikeActionLine_def
            js_join_nonempty line_command_def bare_word_def)
      show "list_all2 token_text ([formatScriptArg t] @ appendScriptSeriesFlags ?c ?f) (?ps @ appendScriptSeriesFlags ?c ?f)"
        using selector by (intro list_all2_appendI self_texts_rel series_texts ok(3)) (simp add: formatScriptArg_text)
      show "parse_command now ?c (?ps @ appendScriptSeriesFlags ?c ?f) = Inr (replayed now a)"
        unfolding cmd parse_click_like_def Let_def using series [OF av(2)] selector t c
        by (simp add: next_arg_def replayed_def flags written_label_def nth_arg_def)
    qed
  next
    case point
    then have t: "take 1 x \<noteq> ''@''" by (simp add: is_ref_def)
    show ?thesis
    proof (rule line_read [OF ok(4)])
      show "formatActionLine a = js_join '' '' (?c # appendGenericActionScriptArgs a)"
        using assms(2) point t c
        by (simp add: formatActionLine_def formatSpecialActionLine_def formatClickLikeActionLine_def formatPortableActionLine_def)
      show "list_all2 token_text (appendGenericActionScriptArgs a) (?ps @ appendScriptSeriesFlags ?c ?f)"
        unfolding appendGenericActionScriptArgs_def using c
        by (intro list_all2_appendI self_texts_rel series_texts ok(3)) (simp add: args_texts)
      show "parse_command now ?c (?ps @ appendScriptSeriesFlags ?c ?f) = Inr (replayed now a)"
        unfolding cmd parse_click_like_def Let_def using series [OF av(2)] point t c
        by (simp add: next_arg_def replayed_def flags written_label_def nth_arg_def numeric_def)
    qed
  qed
qed

lemma fill_line:
  assumes "replayable a" "sa_command a = ''fill''"
  shows "line_reads now a"
proof -
  let ?ps = "sa_positionals a" and ?f = "sa_flags a"
  have ok: "fill_target ?ps" "avoids series_flag_names (?ps @ (case sa_refLabel a of Some l \<Rightarrow> [l] | None \<Rightarrow> []))" "series_ok ?f"
    "line_command ''fill''"
    using assms by (simp_all add: replayable_def Let_def isClickLikeCommand_def)
  have lc: "line_command (sa_command a)" using ok(4) by (simp add: assms(2))
  note series = written_series_parse [OF ok(3), of _ "''fill''"]
  have av: "avoids series_flag_names ?ps" using ok(2) by (auto simp: avoids_def)
  have flags: "written_flags a = written_series ''fill'' ?f" using assms(2) by (simp add: written_flags_def Let_def)
  have cmd: "parse_command now (sa_command a) args = Inr (parse_fill \<lparr>sa_ts = now, sa_command = ''fill'', sa_positionals = [], sa_runtime = None,
      sa_flags = no_flags, sa_refLabel = None, sa_targetEvidence = None\<rparr> args)" for args
    using assms(2) by (simp add: parse_command_def Let_def isClickLikeCommand_def)
  have plain: ?thesis if "take 1 (hd ?ps) \<noteq> ''@''" "?ps \<noteq> []"
    "parse_fill \<lparr>sa_ts = now, sa_command = ''fill'', sa_positionals = [], sa_runtime = None,
      sa_flags = no_flags, sa_refLabel = None, sa_targetEvidence = None\<rparr> (?ps @ appendScriptSeriesFlags ''fill'' ?f) = replayed now a"
  proof (rule line_read [OF lc])
    show "formatActionLine a = js_join '' '' (sa_command a # appendGenericActionScriptArgs a)"
      using assms(2) that(1,2)
      by (cases ?ps) (simp_all add: formatActionLine_def formatSpecialActionLine_def formatFillActionLine_def formatPortableActionLine_def
          isClickLikeCommand_def)
    show "list_all2 token_text (appendGenericActionScriptArgs a) (?ps @ appendScriptSeriesFlags ''fill'' ?f)"
      unfolding appendGenericActionScriptArgs_def assms(2)
      by (intro list_all2_appendI self_texts_rel series_texts ok(3)) (simp add: args_texts)
    show "parse_command now (sa_command a) (?ps @ appendScriptSeriesFlags ''fill'' ?f) = Inr (replayed now a)"
      unfolding cmd that(3) ..
  qed
  from ok(1) consider (ref) r t where "?ps = [r, t]" "is_ref r" "unpinned r"
    | (selector) r t where "?ps = [r, t]" "\<not> is_ref r" "\<not> (numeric r \<and> numeric t)"
    | (point) x y t where "?ps = [x, y, t]" "numeric x" "numeric y"
    unfolding fill_target_def by blast
  then show ?thesis
  proof cases
    case ref
    then have t: "take 1 r = ''@''" "stripRecordedRefGeneration r = r" by (simp_all add: is_ref_def unpinned_def)
    have nn: "\<not> isNumericToken (Some r)" using at_not_numeric [OF ref(2)] by (simp add: numeric_def)
    let ?args = "[r] @ label_args a @ [t] @ appendScriptSeriesFlags ''fill'' ?f"
    have av3: "avoids series_flag_names ([r] @ label_args a @ [t])"
      using label_args_avoid [OF ok(2)] ref by (auto simp: avoids_def)
    show ?thesis
    proof (rule line_read [OF lc])
      show "formatActionLine a = js_join '' '' (sa_command a # [formatScriptArg r] @ appendRefLabel a @ [formatScriptArg t] @
          appendScriptSeriesFlags ''fill'' ?f)"
        using assms(2) ref t by (simp add: formatActionLine_def formatSpecialActionLine_def formatFillActionLine_def
            isClickLikeCommand_def js_join_nonempty)
      show "list_all2 token_text ([formatScriptArg r] @ appendRefLabel a @ [formatScriptArg t] @ appendScriptSeriesFlags ''fill'' ?f) ?args"
        by (intro list_all2_appendI label_args_texts self_texts_rel series_texts ok(3)) (simp_all add: formatScriptArg_text)
      have p: "parseReplaySeriesFlags ''fill'' ?args = ([r] @ label_args a @ [t], written_series ''fill'' ?f)"
        using series [OF av3] by simp
      show "parse_command now (sa_command a) ?args = Inr (replayed now a)"
      proof (cases a rule: label_args_cases)
        case (label l)
        then show ?thesis
          unfolding cmd parse_fill_def Let_def using p ref t nn assms(2)
          by (simp add: replayed_def flags written_label_def nth_arg_def isClickLikeCommand_def)
      next
        case none
        then show ?thesis
          unfolding cmd parse_fill_def Let_def using p ref t nn assms(2)
          by (auto simp: replayed_def flags written_label_def nth_arg_def isClickLikeCommand_def)
      qed
    qed
  next
    case selector
    then have t: "take 1 r \<noteq> ''@''" by (simp add: is_ref_def)
    show ?thesis
      using selector t series [OF av] assms(2)
      by (intro plain) (auto simp: parse_fill_def replayed_def flags written_label_def nth_arg_def isClickLikeCommand_def numeric_def)
  next
    case point
    then have r: "\<not> is_ref x" using at_not_numeric by blast
    then have t: "take 1 x \<noteq> ''@''" by (simp add: is_ref_def)
    show ?thesis
      using point t r series [OF av] assms(2)
      by (intro plain) (simp_all add: parse_fill_def replayed_def flags written_label_def nth_arg_def isClickLikeCommand_def numeric_def)
  qed
qed

lemma get_line:
  assumes "replayable a" "sa_command a = ''get''"
  shows "line_reads now a"
proof -
  let ?ps = "sa_positionals a"
  have ok: "get_target ?ps" "line_command ''get''"
    using assms by (simp_all add: replayable_def Let_def isClickLikeCommand_def)
  have lc: "line_command (sa_command a)" using ok(2) by (simp add: assms(2))
  from ok(1) obtain s r where ps: "?ps = [s, r]" "s \<noteq> []" "r \<noteq> []" "unpinned r" by (auto simp: get_target_def)
  have flags: "written_flags a = no_flags"
    using assms(2) by (simp add: written_flags_def written_series_def isClickLikeCommand_def isTypingCommand_def)
  have strip: "stripRecordedRefGeneration r = r" using ps(4) by (simp add: unpinned_def)
  let ?label = "if take 1 r = ''@'' then label_args a else []"
  show ?thesis
  proof (rule line_read [OF lc])
    show "formatActionLine a = js_join '' '' (sa_command a # [formatScriptArg s, formatScriptArg r] @
        (if take 1 r = ''@'' then appendRefLabel a else []))"
      using assms(2) ps strip by (simp add: formatActionLine_def formatSpecialActionLine_def formatGetActionLine_def
          isClickLikeCommand_def js_join_nonempty)
    show "list_all2 token_text ([formatScriptArg s, formatScriptArg r] @ (if take 1 r = ''@'' then appendRefLabel a else []))
        ([s, r] @ ?label)"
      by (intro list_all2_appendI) (simp_all add: formatScriptArg_text label_args_texts)
    show "parse_command now (sa_command a) ([s, r] @ ?label) = Inr (replayed now a)"
    proof (cases a rule: label_args_cases)
      case (label l)
      then show ?thesis
        using assms(2) ps strip
        by (simp add: parse_command_def Let_def parse_get_def replayed_def flags written_label_def nth_arg_def
            isClickLikeCommand_def next_arg_def is_ref_def)
    next
      case none
      then show ?thesis
        using assms(2) ps strip
        by (auto simp: parse_command_def Let_def parse_get_def replayed_def flags written_label_def nth_arg_def
            isClickLikeCommand_def next_arg_def is_ref_def)
    qed
  qed
qed

lemma series_line:
  assumes "replayable a" "sa_command a = c" "c = ''swipe'' \<or> c = ''type'' \<or> c = ''gesture''"
  shows "line_reads now a"
proof -
  let ?ps = "sa_positionals a" and ?f = "sa_flags a"
  have c: "c \<noteq> ''snapshot''" "c \<noteq> ''open''" "c \<noteq> ''runtime''" "c \<noteq> ''fill''" "c \<noteq> ''get''" "c \<noteq> ''record''" "c \<noteq> ''screenshot''"
    "c \<noteq> ''wait''" "\<not> isClickLikeCommand c"
    using assms(3) by (auto simp: isClickLikeCommand_def)
  have ok: "avoids series_flag_names ?ps" "series_ok ?f" "line_command (sa_command a)"
    using assms c by (simp_all add: replayable_def Let_def)
  show ?thesis
  proof (rule line_read [OF ok(3)])
    show "formatActionLine a = js_join '' '' (sa_command a # appendGenericActionScriptArgs a)"
      using assms(2) c by (simp add: formatActionLine_def formatSpecialActionLine_def formatPortableActionLine_def)
    show "list_all2 token_text (appendGenericActionScriptArgs a) (?ps @ appendScriptSeriesFlags c ?f)"
      unfolding appendGenericActionScriptArgs_def assms(2) using c
      by (intro list_all2_appendI self_texts_rel series_texts ok(2)) (simp add: args_texts)
    show "parse_command now (sa_command a) (?ps @ appendScriptSeriesFlags c ?f) = Inr (replayed now a)"
      using assms(2,3) c written_series_parse [OF ok(2,1), of c]
      by (simp add: parse_command_def Let_def replayed_def written_flags_def written_label_def)
  qed
qed

lemma other_line:
  assumes "replayable a" "sa_command a = c" "c \<notin> {''snapshot'', ''open'', ''runtime'', ''fill'', ''get'', ''swipe'', ''type'', ''gesture'',
    ''record'', ''screenshot''}" "\<not> isClickLikeCommand c"
  shows "line_reads now a"
proof -
  let ?ps = "sa_positionals a"
  have c: "c \<noteq> ''snapshot''" "c \<noteq> ''open''" "c \<noteq> ''runtime''" "c \<noteq> ''fill''" "c \<noteq> ''get''" "c \<noteq> ''record''" "c \<noteq> ''screenshot''"
    "c \<noteq> ''swipe''" "c \<noteq> ''gesture''" "c \<noteq> ''type''" using assms(3) by auto
  have lc: "line_command (sa_command a)" using assms(1) by (simp add: replayable_def Let_def)
  have un: "stripRecordedRefGeneration p = p" if "c = ''wait'' \<or> c = ''longpress''" "p \<in> set ?ps" for p
  proof -
    have "\<forall>p \<in> set ?ps. unpinned p"
      using assms(1) that(1) unfolding replayable_def Let_def assms(2) by (auto simp: isClickLikeCommand_def)
    with that(2) show ?thesis by (simp add: unpinned_def)
  qed
  have strips: "map stripRecordedRefGeneration ?ps = ?ps" if "c = ''wait'' \<or> c = ''longpress''"
    using un [OF that] by (simp add: map_idI)
  have no_series: "appendScriptSeriesFlags c f = []" "written_series c f = no_flags" for f
    using c assms(4) by (simp_all add: appendScriptSeriesFlags_def written_series_def isTypingCommand_def)
  show ?thesis
  proof (rule line_read [OF lc])
    show "formatActionLine a = js_join '' '' (sa_command a # appendGenericActionScriptArgs a)"
      using assms(2,4) c by (simp add: formatActionLine_def formatSpecialActionLine_def formatPortableActionLine_def)
    have "map (\<lambda>p. formatScriptArg (if c = ''wait'' then stripRecordedRefGeneration p else p)) ?ps = map formatScriptArg ?ps"
      using un by simp
    note texts = this
    show "list_all2 token_text (appendGenericActionScriptArgs a) ?ps"
      unfolding appendGenericActionScriptArgs_def assms(2) texts no_series append_Nil2 by (rule args_texts)
    show "parse_command now (sa_command a) ?ps = Inr (replayed now a)"
      using assms(2,4) c strips
      by (auto simp: parse_command_def Let_def replayed_def written_flags_def written_label_def no_series)
  qed
qed

lemma replayable_line_reads:
  assumes "replayable a"
  shows "line_reads now a"
proof -
  let ?c = "sa_command a"
  consider "?c = ''snapshot''" | "?c = ''open''" | "?c = ''runtime''" | "isClickLikeCommand ?c" | "?c = ''fill''" | "?c = ''get''"
    | "?c = ''swipe'' \<or> ?c = ''type'' \<or> ?c = ''gesture''" | "?c = ''record''" | "?c = ''screenshot''"
    | "?c \<notin> {''snapshot'', ''open'', ''runtime'', ''fill'', ''get'', ''swipe'', ''type'', ''gesture'', ''record'', ''screenshot''}"
      "\<not> isClickLikeCommand ?c"
    by blast
  then show ?thesis
    by cases (rule snapshot_line open_line runtime_line click_line fill_line get_line series_line [OF _ refl] record_line screenshot_line
        other_line [OF _ refl], (rule assms | assumption)+)+
qed

lemma line_reads_parse: "line_reads now a \<Longrightarrow> parseReplayScriptLine now (formatActionLine a) = Inr (Some (replayed now a))"
  unfolding line_reads_def by (auto simp: parse_joined_line)

definition unbroken :: "string \<Rightarrow> bool" where
  "unbroken s \<longleftrightarrow> list_all (\<lambda>c. c \<noteq> CHR 0x0A \<and> c \<noteq> CHR 0x0D) s"

lemma unbroken_simps [simp]:
  "unbroken []" "unbroken (c # s) \<longleftrightarrow> c \<noteq> CHR 0x0A \<and> c \<noteq> CHR 0x0D \<and> unbroken s"
  "unbroken (s @ t) \<longleftrightarrow> unbroken s \<and> unbroken t"
  by (simp_all add: unbroken_def)

lemma printable_unbroken: "printable s \<Longrightarrow> unbroken s"
  unfolding unbroken_def by (rule printable_no_break)

lemma token_text_unbroken: "token_text t v \<Longrightarrow> unbroken t"
proof -
  have "is_js_space (CHR 0x0A)" "is_js_space (CHR 0x0D)" by code_simp+
  then show "token_text t v \<Longrightarrow> unbroken t"
    by (auto simp: token_text_def unbroken_def list_all_iff json_quote_def dest: printable_unbroken [OF json_escape_printable, unfolded unbroken_def list_all_iff, rule_format])
qed

lemma unbroken_join: "list_all2 token_text ts vs \<Longrightarrow> unbroken (js_join '' '' ts)"
proof (induction ts vs rule: list_all2_induct)
  case (Cons t ts v vs)
  then show ?case
    using token_text_unbroken [OF Cons.hyps(1)] by (cases ts) (simp_all add: js_join_more)
qed (simp add: js_join_def)

text \<open>A line that is read is not empty, not a comment, has no line break and its first word is its command.\<close>

lemma line_reads_shape:
  assumes "line_reads now a"
  shows "unbroken (formatActionLine a)" "formatActionLine a \<noteq> []" "trimmed (formatActionLine a)"
    "hd (formatActionLine a) = hd (sa_command a)"
    "\<exists>rest. formatActionLine a = sa_command a @ rest \<and> (rest = [] \<or> hd rest = CHR '' '')"
proof -
  obtain parts args where line: "formatActionLine a = js_join '' '' (sa_command a # parts)" and ts: "list_all2 token_text parts args"
    and c: "line_command (sa_command a)"
    using assms unfolding line_reads_def by blast
  have all: "list_all2 token_text (sa_command a # parts) (sa_command a # args)"
    using c ts bare_word_token by (simp add: line_command_def)
  note ends = join_ends [OF all]
  have cmd: "sa_command a \<noteq> []" "\<not> is_js_space (hd (sa_command a))"
    using c by (auto simp: line_command_def bare_word_def bare_script_char_def list_all_iff)
  show "unbroken (formatActionLine a)" unfolding line by (rule unbroken_join [OF all])
  show "formatActionLine a \<noteq> []" "trimmed (formatActionLine a)" "hd (formatActionLine a) = hd (sa_command a)"
    using ends cmd by (simp_all add: line trimmed_def)
  show "\<exists>rest. formatActionLine a = sa_command a @ rest \<and> (rest = [] \<or> hd rest = CHR '' '')"
    unfolding line by (cases parts) (simp_all add: js_join_def)
qed

definition example_fill :: session_action where
  "example_fill =
     \<lparr>sa_ts = 0, sa_command = ''fill'', sa_positionals = [''@e3'', ''a b''], sa_runtime = None,
      sa_flags = no_flags\<lparr>sf_delayMs := Some 40\<rparr>, sa_refLabel = Some ''Name'', sa_targetEvidence = None\<rparr>"

lemma example_fill_replayable: "replayable example_fill"
proof -
  have "fill_target [''@e3'', ''a b'']"
    unfolding fill_target_def
    by (intro disjI1 exI conjI) (rule refl, simp_all only: unpinned_def is_ref_def, code_simp+)
  moreover have "line_command ''fill''" by code_simp
  ultimately show ?thesis
    by (simp add: replayable_def Let_def example_fill_def isClickLikeCommand_def avoids_def series_flag_names_def
        series_ok_def natural_def no_flags_def)
qed

lemma example_fill_text: "formatActionLine example_fill = ''fill @e3 \"Name\" \"a b\" --delay-ms 40''"
  by code_simp



end
