(* ===== verification/AdScript.thy ===== *)
theory AdScript
  imports AdLines
begin

text \<open>
  Whole scripts: the parser of \<^verbatim>\<open>packages/ad-script/src/internal/script.ts\<close> (actions with their target annotations, and the
  metadata of the header), the arity of gestures of \<^verbatim>\<open>packages/contracts/src/gesture-normalization.ts\<close> it checks, and the
  formatting of a session by \<^verbatim>\<open>src/daemon/session-script-writer.ts\<close>.

  The clock is an argument, read once per line.
\<close>

section \<open>Arity of gestures\<close>

datatype retired_slot = TimedSwipe | TimedGesture | RotationVelocity

text \<open>The highest number of arguments, the usage and the retired last argument of a gesture.\<close>

record gesture_syntax =
  gs_max :: nat
  gs_usage :: string
  gs_retired :: "retired_slot option"

definition PUBLIC_GESTURE_SYNTAX :: "string \<Rightarrow> gesture_syntax option" where
  "PUBLIC_GESTURE_SYNTAX key =
     (if key = ''swipe''
      then Some \<lparr>gs_max = 4, gs_usage = ''swipe accepts 4 arguments: x1 y1 x2 y2'', gs_retired = Some TimedSwipe\<rparr>
      else if key = ''gesture pan''
      then Some \<lparr>gs_max = 5, gs_usage = ''gesture pan accepts at most 5 arguments: x y dx dy [durationMs]'', gs_retired = None\<rparr>
      else if key = ''gesture fling''
      then Some \<lparr>gs_max = 4, gs_usage = ''gesture fling accepts at most 4 arguments: direction x y [distance]'',
                 gs_retired = Some TimedGesture\<rparr>
      else if key = ''gesture swipe''
      then Some \<lparr>gs_max = 1, gs_usage = ''gesture swipe accepts 1 argument: preset'', gs_retired = Some TimedGesture\<rparr>
      else if key = ''gesture pinch''
      then Some \<lparr>gs_max = 3, gs_usage = ''gesture pinch accepts at most 3 arguments: scale [x] [y]'', gs_retired = None\<rparr>
      else if key = ''gesture rotate''
      then Some \<lparr>gs_max = 3, gs_usage = ''gesture rotate accepts at most 3 arguments: degrees [x] [y]'',
                 gs_retired = Some RotationVelocity\<rparr>
      else if key = ''gesture transform''
      then Some \<lparr>gs_max = 7, gs_usage = ''gesture transform accepts at most 7 arguments: x y dx dy scale degrees [durationMs]'',
                 gs_retired = None\<rparr>
      else None)"

definition coordinateDelta :: "string option \<Rightarrow> string option \<Rightarrow> rat option" where
  "coordinateDelta f t =
     (case (f, t) of
        (Some a, Some b) \<Rightarrow> (case (js_Number b, js_Number a) of (Finite q, Finite p) \<Rightarrow> Some (q - p) | _ \<Rightarrow> None)
      | _ \<Rightarrow> None)"

definition arg_text :: "string option \<Rightarrow> string" where
  "arg_text v = (case v of Some t \<Rightarrow> t | None \<Rightarrow> ''undefined'')"

definition migrateRetiredSwipeDuration :: "string list \<Rightarrow> string \<Rightarrow> string" where
  "migrateRetiredSwipeDuration args canonical =
     (let or_default = ''for the same timed drag, or \"'' @ canonical @ ''\" for a default-duration swipe.''
      in case (coordinateDelta (nth_arg 0 args) (nth_arg 2 args), coordinateDelta (nth_arg 1 args) (nth_arg 3 args)) of
           (Some dx, Some dy) \<Rightarrow>
             ''use \"gesture pan '' @ arg_text (nth_arg 0 args) @ '' '' @ arg_text (nth_arg 1 args) @ '' '' @ number_text dx @ '' '' @
             number_text dy @ '' '' @ arg_text (nth_arg 4 args) @ ''\" '' @ or_default
         | _ \<Rightarrow> ''use \"gesture pan x1 y1 dx dy durationMs\" '' @ or_default)"

definition migrate_retired :: "retired_slot \<Rightarrow> string list \<Rightarrow> string \<Rightarrow> string" where
  "migrate_retired slot args canonical =
     (case slot of
        TimedSwipe \<Rightarrow> migrateRetiredSwipeDuration args canonical
      | TimedGesture \<Rightarrow> ''use \"'' @ canonical @ ''\", or gesture pan for timed movement.''
      | RotationVelocity \<Rightarrow> ''use \"'' @ canonical @ ''\"; rotation pacing derives from degrees.'')"

fun retired_positional :: "retired_slot \<Rightarrow> string" where
  "retired_positional RotationVelocity = ''velocity''"
| "retired_positional slot = ''durationMs''"

definition isRetiredSlotArgument :: "string option \<Rightarrow> bool" where
  "isRetiredSlotArgument v =
     (case v of
        None \<Rightarrow> False
      | Some t \<Rightarrow> if length (js_trim t) = 0 then False else take 2 t = ''${'' \<or> (case js_Number t of Finite q \<Rightarrow> True | _ \<Rightarrow> False))"

record gesture_arity_error =
  ga_usage :: string
  ga_migration :: "string option"

definition describeGestureArityError :: "string \<Rightarrow> string list \<Rightarrow> gesture_arity_error option" where
  "describeGestureArityError key args =
     (case PUBLIC_GESTURE_SYNTAX key of
        None \<Rightarrow> None
      | Some syn \<Rightarrow>
          if length args \<le> gs_max syn then None
          else (case gs_retired syn of
                  Some slot \<Rightarrow>
                    if length args \<noteq> gs_max syn + 1 \<or> \<not> isRetiredSlotArgument (nth_arg (gs_max syn) args)
                    then Some \<lparr>ga_usage = gs_usage syn, ga_migration = None\<rparr>
                    else Some \<lparr>ga_usage = gs_usage syn,
                               ga_migration = Some (''The trailing '' @ retired_positional slot @ '' positional was removed: '' @
                                 migrate_retired slot args (key @ '' '' @ js_join '' '' (take (gs_max syn) args)))\<rparr>
                | None \<Rightarrow> Some \<lparr>ga_usage = gs_usage syn, ga_migration = None\<rparr>))"

definition formatGestureArityError :: "gesture_arity_error \<Rightarrow> string option \<Rightarrow> string" where
  "formatGestureArityError e source =
     (let usage = (if truthy source then ga_usage e @ '' ('' @ the source @ '')'' else ga_usage e)
      in if truthy (ga_migration e) then usage @ ''. '' @ the (ga_migration e) else usage @ ''.'')"

definition readReplayGestureArityError :: "string \<Rightarrow> string list \<Rightarrow> gesture_arity_error option" where
  "readReplayGestureArityError command positionals =
     (if command = ''swipe'' then describeGestureArityError ''swipe'' positionals
      else if command \<noteq> ''gesture'' then None
      else describeGestureArityError (''gesture '' @ arg_text (nth_arg 0 positionals)) (drop 1 positionals))"

definition describeReplayGestureArityError :: "string \<Rightarrow> string list \<Rightarrow> string \<Rightarrow> string option" where
  "describeReplayGestureArityError command positionals source =
     map_option (\<lambda>e. formatGestureArityError e (Some source)) (readReplayGestureArityError command positionals)"

section \<open>Parsing a script\<close>

datatype script_failure =
    LineError action_error
  | AnnotationRejected annotation_error
  | UnboundAnnotation nat nat string
  | UnboundAtEnd nat
  | EnvAfterAction nat
  | GestureArity string

fun split_newlines :: "string \<Rightarrow> string list" where
  "split_newlines [] = [[]]"
| "split_newlines (c # s) =
     (if c = CHR 0x0A then [] # split_newlines s
      else (case split_newlines s of [] \<Rightarrow> [[c]] | part # parts \<Rightarrow> (c # part) # parts))"

definition drop_return :: "string \<Rightarrow> string" where
  "drop_return part = (if part \<noteq> [] \<and> last part = CHR 0x0D then butlast part else part)"

text \<open>\<open>split(/\r?\n/)\<close>: a return before a line break belongs to the break.\<close>

definition script_lines :: "string \<Rightarrow> string list" where
  "script_lines script =
     (let parts = split_newlines script in map drop_return (butlast parts) @ [last parts])"

definition isReplayEnvLine :: "string \<Rightarrow> bool" where
  "isReplayEnvLine trimmed_line \<longleftrightarrow>
     trimmed_line = ''env'' \<or> take 4 trimmed_line = ''env '' \<or> take 4 trimmed_line = ''env'' @ [CHR 0x09]"

record pending_annotation =
  pa_evidence :: target_annotation
  pa_line :: nat

definition reject_unbound :: "pending_annotation \<Rightarrow> nat \<Rightarrow> string \<Rightarrow> script_failure + 'a" where
  "reject_unbound p index why = Inl (UnboundAnnotation (pa_line p) (index + 1) why)"

text \<open>The loop over the lines from an index; the actions come with the numbers of their lines.\<close>

fun script_loop ::
    "(nat \<Rightarrow> int) \<Rightarrow> nat \<Rightarrow> bool \<Rightarrow> pending_annotation option \<Rightarrow> string list \<Rightarrow> script_failure + (session_action \<times> nat) list" where
  "script_loop clock index sawAction pending [] =
     (case pending of Some p \<Rightarrow> Inl (UnboundAtEnd (pa_line p)) | None \<Rightarrow> Inr [])"
| "script_loop clock index sawAction pending (rawLine # rest) =
     (let line = js_trim rawLine
      in if length line = 0
         then (case pending of
                 Some p \<Rightarrow> reject_unbound p index ''is blank''
               | None \<Rightarrow> script_loop clock (Suc index) sawAction pending rest)
         else if take 1 line = ''#''
         then (case parseTargetAnnotationCommentLine line of
                 Inl e \<Rightarrow> Inl (AnnotationRejected e)
               | Inr (AnnotationV1 evidence) \<Rightarrow>
                   (case pending of
                      Some p \<Rightarrow> reject_unbound p index ''is another target-v1 annotation''
                    | None \<Rightarrow> script_loop clock (Suc index) sawAction (Some \<lparr>pa_evidence = evidence, pa_line = index + 1\<rparr>) rest)
               | Inr _ \<Rightarrow>
                   (case pending of
                      Some p \<Rightarrow> reject_unbound p index ''is a comment''
                    | None \<Rightarrow> script_loop clock (Suc index) sawAction pending rest))
         else if isReplayEnvLine line
         then (case pending of
                 Some p \<Rightarrow> reject_unbound p index ''is an env directive''
               | None \<Rightarrow>
                   if sawAction then Inl (EnvAfterAction (index + 1))
                   else script_loop clock (Suc index) sawAction pending rest)
         else (case parseReplayScriptLine (clock index) rawLine of
                 Inl e \<Rightarrow> Inl (LineError e)
               | Inr None \<Rightarrow>
                   (case pending of
                      Some p \<Rightarrow> reject_unbound p index ''did not parse as an action''
                    | None \<Rightarrow> script_loop clock (Suc index) sawAction pending rest)
               | Inr (Some parsed) \<Rightarrow>
                   (case describeReplayGestureArityError (sa_command parsed) (sa_positionals parsed) (''line '' @ nat_dec (index + 1)) of
                      Some e \<Rightarrow> Inl (GestureArity e)
                    | None \<Rightarrow>
                        let action = (case pending of
                              Some p \<Rightarrow> parsed\<lparr>sa_targetEvidence := Some (pa_evidence p)\<rparr>
                            | None \<Rightarrow> parsed)
                        in rbind (script_loop clock (Suc index) True None rest) (\<lambda>actions. Inr ((action, index + 1) # actions)))))"

definition parseReplayScriptDetailed :: "(nat \<Rightarrow> int) \<Rightarrow> string \<Rightarrow> script_failure + (session_action \<times> nat) list" where
  "parseReplayScriptDetailed clock script = script_loop clock 0 False None (script_lines script)"

section \<open>Metadata\<close>

datatype metadata_error =
    InvalidEnvDirective nat
  | InvalidEnvKey string nat
  | ReservedEnvKey string nat
  | InvalidQuotedEnv nat
  | WideEnv nat
  | DuplicateEnv string nat
  | DuplicateMetadata string
  | ConflictingMetadata string string string

record script_metadata =
  sm_platform :: "string option"
  sm_target :: "string option"
  sm_timeoutMs :: "int option"
  sm_retries :: "int option"
  sm_env :: "(string \<times> string) list"

definition REPLAY_METADATA_PLATFORMS :: "string list" where
  "REPLAY_METADATA_PLATFORMS = [''apple'', ''android'', ''vega'', ''linux'', ''ios'', ''macos'']"

definition REPLAY_METADATA_TARGETS :: "string list" where
  "REPLAY_METADATA_TARGETS = [''mobile'', ''tv'', ''desktop'']"

definition is_upper_char :: "char \<Rightarrow> bool" where
  "is_upper_char c = (let n = of_char c :: nat in 65 \<le> n \<and> n \<le> 90)"

text \<open>\<open>/^[A-Z_][A-Z0-9_]*$/\<close>.\<close>

definition REPLAY_VAR_KEY_RE :: "string \<Rightarrow> bool" where
  "REPLAY_VAR_KEY_RE key \<longleftrightarrow>
     (case key of
        [] \<Rightarrow> False
      | c # s \<Rightarrow> (is_upper_char c \<or> c = CHR ''_'') \<and> list_all (\<lambda>d. is_upper_char d \<or> is_digit_char d \<or> d = CHR ''_'') s)"

definition decodeReplayEnvValue :: "string \<Rightarrow> nat \<Rightarrow> metadata_error + string" where
  "decodeReplayEnvValue raw lineNumber =
     (if length raw = 0 then Inr []
      else if take 1 raw = ''\"''
      then (case JSON_parse raw of
              Some (JStr t) \<Rightarrow> Inr t
            | Some JWide \<Rightarrow> Inl (WideEnv lineNumber)
            | _ \<Rightarrow> Inl (InvalidQuotedEnv lineNumber))
      else Inr raw)"

definition parseReplayEnvLine :: "string \<Rightarrow> nat \<Rightarrow> metadata_error + string \<times> string" where
  "parseReplayEnvLine trimmed_line lineNumber =
     (let body = dropWhile is_js_space (drop 3 trimmed_line)
      in case js_index_of (CHR ''='') body of
           None \<Rightarrow> Inl (InvalidEnvDirective lineNumber)
         | Some eqIndex \<Rightarrow>
             if eqIndex = 0 then Inl (InvalidEnvDirective lineNumber)
             else (let key = take eqIndex body
                   in if \<not> REPLAY_VAR_KEY_RE key then Inl (InvalidEnvKey key lineNumber)
                      else if take 3 key = ''AD_'' then Inl (ReservedEnvKey key lineNumber)
                      else rbind (decodeReplayEnvValue (drop (Suc eqIndex) body) lineNumber) (\<lambda>v. Inr (key, v))))"

definition ingestEnvLine :: "script_metadata \<Rightarrow> string \<Rightarrow> nat \<Rightarrow> metadata_error + script_metadata" where
  "ingestEnvLine m trimmed_line lineNumber =
     rbind (parseReplayEnvLine trimmed_line lineNumber) (\<lambda>(key, v).
       if key \<in> fst ` set (sm_env m) then Inl (DuplicateEnv key lineNumber)
       else Inr (m\<lparr>sm_env := sm_env m @ [(key, v)]\<rparr>))"

text \<open>\<open>assignReplayMetadataValue\<close>, for a field with its previous value.\<close>

definition assign_metadata ::
    "string \<Rightarrow> ('v \<Rightarrow> string) \<Rightarrow> 'v option \<Rightarrow> 'v \<Rightarrow> script_metadata \<Rightarrow> metadata_error + script_metadata" where
  "assign_metadata key show_value previous v assigned =
     (case previous of
        None \<Rightarrow> Inr assigned
      | Some p \<Rightarrow> Inl (if show_value p = show_value v then DuplicateMetadata key
                       else ConflictingMetadata key (show_value p) (show_value v)))"

text \<open>\<open>(?:^|\s)name=(chars+)\<close>: the first match in a line, with the run of characters after the equals sign.\<close>

fun find_attribute :: "string \<Rightarrow> (char \<Rightarrow> bool) \<Rightarrow> bool \<Rightarrow> string \<Rightarrow> string option" where
  "find_attribute mark chars boundary [] = None"
| "find_attribute mark chars boundary (c # s) =
     (let v = takeWhile chars (drop (length mark) (c # s))
      in if boundary \<and> take (length mark) (c # s) = mark \<and> v \<noteq> [] then Some v
         else find_attribute mark chars (is_js_space c) s)"

definition context_line :: "script_metadata \<Rightarrow> string \<Rightarrow> metadata_error + script_metadata" where
  "context_line m line =
     rbind (case find_attribute ''platform='' (\<lambda>c. \<not> is_js_space c) True line of
              Some v \<Rightarrow> if v \<in> set REPLAY_METADATA_PLATFORMS
                then assign_metadata ''platform'' id (sm_platform m) v (m\<lparr>sm_platform := Some v\<rparr>) else Inr m
            | None \<Rightarrow> Inr m) (\<lambda>m1.
     rbind (case find_attribute ''target='' (\<lambda>c. \<not> is_js_space c) True line of
              Some v \<Rightarrow> if v \<in> set REPLAY_METADATA_TARGETS
                then assign_metadata ''target'' id (sm_target m1) v (m1\<lparr>sm_target := Some v\<rparr>) else Inr m1
            | None \<Rightarrow> Inr m1) (\<lambda>m2.
     rbind (case find_attribute ''timeout='' is_digit_char True line of
              Some v \<Rightarrow> if dec_val v \<ge> 1
                then assign_metadata ''timeoutMs'' int_dec (sm_timeoutMs m2) (dec_val v) (m2\<lparr>sm_timeoutMs := Some (dec_val v)\<rparr>) else Inr m2
            | None \<Rightarrow> Inr m2) (\<lambda>m3.
     (case find_attribute ''retries='' is_digit_char True line of
        Some v \<Rightarrow> assign_metadata ''retries'' int_dec (sm_retries m3) (dec_val v) (m3\<lparr>sm_retries := Some (dec_val v)\<rparr>)
      | None \<Rightarrow> Inr m3))))"

fun metadata_loop :: "nat \<Rightarrow> script_metadata \<Rightarrow> string list \<Rightarrow> metadata_error + script_metadata" where
  "metadata_loop index m [] = Inr m"
| "metadata_loop index m (rawLine # rest) =
     (let line = js_trim rawLine
      in if length line = 0 \<or> take 1 line = ''#'' then metadata_loop (Suc index) m rest
         else if isReplayEnvLine line
         then rbind (ingestEnvLine m line (index + 1)) (\<lambda>m'. metadata_loop (Suc index) m' rest)
         else if take 8 line \<noteq> ''context '' then Inr m
         else rbind (context_line m line) (\<lambda>m'. metadata_loop (Suc index) m' rest))"

definition no_metadata :: script_metadata where
  "no_metadata = \<lparr>sm_platform = None, sm_target = None, sm_timeoutMs = None, sm_retries = None, sm_env = []\<rparr>"

definition readReplayScriptMetadata :: "string \<Rightarrow> metadata_error + script_metadata" where
  "readReplayScriptMetadata script = metadata_loop 0 no_metadata (script_lines script)"

section \<open>Formatting a session\<close>

definition HEAL_COMPLETE_SENTINEL :: string where
  "HEAL_COMPLETE_SENTINEL = ''# agent-device:heal-complete''"

definition formatTargetAnnotationLines :: "session_action \<Rightarrow> string list" where
  "formatTargetAnnotationLines a =
     (case sa_targetEvidence a of Some e \<Rightarrow> [formatTargetAnnotationCommentLine e] | None \<Rightarrow> [])"

text \<open>The device of the session: its public platform, its name and its kind.\<close>

record script_device =
  sd_platform :: string
  sd_name :: string
  sd_kind :: "string option"

definition context_text :: "script_device \<Rightarrow> string" where
  "context_text d =
     ''context platform='' @ sd_platform d @ '' device='' @ formatScriptStringLiteral (sd_name d) @
     (if truthy (sd_kind d) then '' kind='' @ the (sd_kind d) else []) @ '' theme=unknown''"

definition formatScript :: "script_device \<Rightarrow> session_action list \<Rightarrow> bool \<Rightarrow> string" where
  "formatScript d actions appendCompleteSentinel =
     js_join [CHR 0x0A]
       ([context_text d] @
        concat (map (\<lambda>a. if sf_noRecord (sa_flags a) then [] else formatTargetAnnotationLines a @ [formatActionLine a]) actions) @
        (if appendCompleteSentinel then [HEAL_COMPLETE_SENTINEL] else [])) @ [CHR 0x0A]"

section \<open>Splitting joined lines\<close>

lemma split_newlines_append:
  "list_all (\<lambda>c. c \<noteq> CHR 0x0A) l \<Longrightarrow> split_newlines (l @ CHR 0x0A # s) = l # split_newlines s"
  by (induction l) simp_all

lemma unbroken_drop_return: "unbroken l \<Longrightarrow> drop_return l = l"
  by (cases l rule: rev_cases) (auto simp: drop_return_def)

lemma split_joined:
  "ls \<noteq> [] \<Longrightarrow> \<forall>l \<in> set ls. unbroken l \<Longrightarrow> split_newlines (js_join [CHR 0x0A] ls @ [CHR 0x0A]) = ls @ [[]]"
proof (induction ls rule: list_nonempty_induct)
  case (single l)
  then have "list_all (\<lambda>c. c \<noteq> CHR 0x0A) l" by (auto simp: unbroken_def list_all_iff)
  then show ?case using split_newlines_append [of l "[]"] by simp
next
  case (cons l ls)
  then obtain m ms where ls: "ls = m # ms" by (cases ls) auto
  have "list_all (\<lambda>c. c \<noteq> CHR 0x0A) l" using cons.prems by (auto simp: unbroken_def list_all_iff)
  then show ?case
    using cons split_newlines_append [of l "js_join [CHR 0x0A] ls @ [CHR 0x0A]"] by (simp add: ls js_join_more)
qed

lemma script_lines_joined:
  assumes "ls \<noteq> []" "\<forall>l \<in> set ls. unbroken l"
  shows "script_lines (js_join [CHR 0x0A] ls @ [CHR 0x0A]) = ls @ [[]]"
proof -
  have "map drop_return ls = ls" using assms(2) by (intro map_idI) (simp add: unbroken_drop_return)
  moreover have "drop_return [] = []" by (simp add: drop_return_def)
  ultimately show ?thesis unfolding script_lines_def split_joined [OF assms] Let_def by (simp add: butlast_append)
qed

section \<open>The context line\<close>

text \<open>No double quote at the start or after white space.\<close>

fun quote_free :: "bool \<Rightarrow> string \<Rightarrow> bool" where
  "quote_free boundary [] = True"
| "quote_free boundary (c # s) \<longleftrightarrow> \<not> (boundary \<and> c = CHR ''\"'') \<and> quote_free (is_js_space c) s"

lemma quote_free_dropWhile: "quote_free True s \<Longrightarrow> quote_free True (dropWhile is_js_space s)"
  by (induction s) auto

lemma quote_free_rest: "quote_free b s \<Longrightarrow> quote_free True (dropWhile (\<lambda>c. \<not> is_js_space c) s)"
proof (induction s arbitrary: b)
  case (Cons c s)
  have "\<not> is_js_space (CHR ''\"'')" by code_simp
  with Cons show ?case by auto
qed simp

lemma tokenize_quote_free: "quote_free True s \<Longrightarrow> \<exists>vs. tokenize_replay_loop line s = Inr vs"
proof (induction s rule: measure_induct_rule [where f = length])
  case (less s)
  let ?t = "skipReplayWhitespace s"
  show ?case
  proof (cases ?t)
    case Nil
    then show ?thesis by (simp add: tokenize_replay_loop.simps [of line s])
  next
    case (Cons c r)
    have qf: "quote_free True ?t" using less.prems quote_free_dropWhile by (simp add: skipReplayWhitespace_def)
    then have c: "c \<noteq> CHR ''\"''" by (simp add: Cons)
    let ?v = "takeWhile (\<lambda>c. \<not> is_js_space c) ?t"
    have "drop (length ?v) ?t = dropWhile (\<lambda>c. \<not> is_js_space c) ?t" by (simp add: dropWhile_eq_drop)
    then have read: "readReplayToken line ?t = Inr (?v, dropWhile (\<lambda>c. \<not> is_js_space c) ?t)"
      using c by (simp add: readReplayToken_def readBareReplayToken_def Cons)
    have "length (dropWhile (\<lambda>c. \<not> is_js_space c) ?t) < length s"
      using readReplayToken_shorter [OF refl _ read] by (simp add: Cons)
    then obtain vs where "tokenize_replay_loop line (dropWhile (\<lambda>c. \<not> is_js_space c) ?t) = Inr vs"
      using less.IH quote_free_rest [OF qf] by blast
    then show ?thesis using read by (simp add: tokenize_replay_loop.simps [of line s] Cons)
  qed
qed

lemma quote_free_boundary: "quote_free True s \<Longrightarrow> quote_free b s"
  by (cases s) auto

lemma quote_free_append:
  "quote_free b (s @ t) \<longleftrightarrow> quote_free b s \<and> quote_free (if s = [] then b else is_js_space (last s)) t"
  by (induction s arbitrary: b) auto

lemma quote_free_join: "(\<And>b. quote_free b s) \<Longrightarrow> (\<And>b. quote_free b t) \<Longrightarrow> quote_free b (s @ t)"
  by (simp add: quote_free_append)

lemma quote_free_closed: "quote_free b s \<Longrightarrow> s \<noteq> [] \<Longrightarrow> \<not> is_js_space (last s) \<Longrightarrow> quote_free b (s @ ''\"'')"
  by (simp add: quote_free_append)

lemma quote_free_word: "list_all bare_script_char w \<Longrightarrow> quote_free b w"
  by (induction w arbitrary: b) (auto simp: bare_script_char_def)

text \<open>In an escaped text every double quote follows a backslash.\<close>

lemma quote_free_escape_char: "quote_free b (json_escape_char c) \<and> (is_js_space (last (json_escape_char c)) \<longrightarrow> is_js_space c)
    \<and> json_escape_char c \<noteq> []"
proof (cases c rule: json_escape_char_cases)
  case plain
  then show ?thesis by simp
next
  case (simple e)
  have bs: "\<not> is_js_space backslash" by code_simp
  from simple have "e \<in> set (map fst SIMPLE_ESCAPE_REPLACEMENTS)"
    unfolding decodeSimpleEscape_def by (metis map_of_eq_None_iff option.distinct(1) set_map)
  moreover have "list_all (\<lambda>e. \<not> is_js_space e) (map fst SIMPLE_ESCAPE_REPLACEMENTS)" by code_simp
  ultimately have "\<not> is_js_space e" by (auto simp: list_all_iff)
  with bs show ?thesis unfolding simple(1) by simp
next
  case (unicode h l)
  have sp: "\<not> is_js_space backslash" "\<not> is_js_space (CHR ''u'')" "\<not> is_js_space (CHR ''0'')" by code_simp+
  have hex: "\<not> is_js_space (hex_digit d) \<and> hex_digit d \<noteq> CHR ''\"''" if "d < 16" for d
    using hex_digit_facts [OF that] by (auto simp: is_hex_char_def is_js_space_def Let_def)
  from hex [OF unicode(2)] hex [OF unicode(3)] sp show ?thesis unfolding unicode(1) by simp
qed

lemma quote_free_escape:
  "quote_free b (json_escape v) \<and> (v \<noteq> [] \<longrightarrow> json_escape v \<noteq> [] \<and> (is_js_space (last (json_escape v)) \<longrightarrow> is_js_space (last v)))"
proof (induction v arbitrary: b)
  case (Cons c v)
  have "json_escape (c # v) = json_escape_char c @ json_escape v" by (simp add: json_escape_def)
  then show ?case
    using Cons quote_free_escape_char [of _ c] by (cases "v = []") (auto simp: quote_free_append json_escape_def)
qed (simp add: json_escape_def)

definition device_ok :: "script_device \<Rightarrow> bool" where
  "device_ok d \<longleftrightarrow>
     bare_word (sd_platform d) \<and> (truthy (sd_kind d) \<longrightarrow> bare_word (the (sd_kind d))) \<and>
     (sd_name d \<noteq> [] \<longrightarrow> \<not> is_js_space (last (sd_name d)))"

lemma tokenize_first:
  assumes "skipReplayWhitespace s = s" "s \<noteq> []" "readReplayToken line s = Inr (v, rest)" "tokenize_replay_loop line rest = Inr vs"
  shows "tokenize_replay_loop line s = Inr (v # vs)"
  unfolding tokenize_replay_loop.simps [of line s] using assms by simp

lemma context_line_ignored:
  assumes "device_ok d"
  shows "parseReplayScriptLine now (context_text d) = Inr None" "unbroken (context_text d)" "trimmed (context_text d)"
    "take 7 (context_text d) = ''context''"
proof -
  let ?kind = "if truthy (sd_kind d) then '' kind='' @ the (sd_kind d) else []"
  let ?q = "CHR ''\"'' # json_escape (sd_name d) @ ''\"'' @ ?kind @ '' theme=unknown''"
  let ?tail = "'' platform='' @ sd_platform d @ '' device='' @ ?q"
  have line: "context_text d = ''context'' @ ?tail"
    by (simp add: context_text_def formatScriptStringLiteral_def json_quote_def)
  have sp: "is_js_space (CHR '' '')" "\<not> is_js_space (CHR ''='')" "\<not> is_js_space (CHR ''\"'')" "\<not> is_js_space (CHR ''c'')"
    "\<not> is_js_space (CHR ''n'')" "\<not> is_js_space (CHR ''o'')" "\<not> is_js_space (CHR ''t'')" "\<not> is_js_space (CHR ''e'')"
    "\<not> is_js_space (CHR ''x'')" by code_simp+
  have kind: "quote_free b ?kind" for b
  proof (cases "truthy (sd_kind d)")
    case True
    then obtain k where k: "sd_kind d = Some k" "k \<noteq> []" by (cases "sd_kind d") auto
    then have "quote_free c k" for c using assms by (simp add: device_ok_def bare_word_def quote_free_word)
    moreover have "quote_free True '' kind=''" by code_simp
    then have "quote_free b '' kind=''" by (rule quote_free_boundary)
    ultimately show ?thesis using k True by (simp add: quote_free_append)
  qed simp
  have "quote_free True '' platform=''" "quote_free True '' device=\"''" "quote_free True '' theme=unknown''"
    by code_simp+
  note lits = this [THEN quote_free_boundary]
  let ?device = "'' device=\"'' @ json_escape (sd_name d)"
  have "\<not> is_js_space (last ?device)"
  proof (cases "sd_name d = []")
    case True
    then show ?thesis using sp by (simp add: json_escape_def)
  next
    case False
    then show ?thesis using quote_free_escape [of False "sd_name d"] assms by (simp add: device_ok_def)
  qed
  moreover have "quote_free b ?device" for b
    using quote_free_join [OF lits(2), of "json_escape (sd_name d)" b] quote_free_escape by blast
  ultimately have device: "quote_free b (?device @ ''\"'')" for b by (intro quote_free_closed) simp_all
  have platform: "quote_free b (sd_platform d)" for b using assms by (simp add: device_ok_def bare_word_def quote_free_word)
  have "?tail = '' platform='' @ sd_platform d @ (?device @ ''\"'') @ ?kind @ '' theme=unknown''" by simp
  moreover have "quote_free True \<dots>"
    by (intro quote_free_join lits device platform kind)
  ultimately have qf: "quote_free True ?tail" by (simp only:)
  show "take 7 (context_text d) = ''context''" by (simp add: line)
  show trim: "trimmed (context_text d)" by (simp add: trimmed_def line sp)
  obtain vs where vs: "tokenize_replay_loop (context_text d) ?tail = Inr vs" using tokenize_quote_free [OF qf] by blast
  have "bare_word ''context''" by code_simp
  note word = bare_word_token [OF this]
  have "?tail = [] \<or> is_js_space (hd ?tail)" using sp(1) by simp
  from token_text_read(1) [OF word this, of "context_text d"] token_text_read(2) [OF word this]
  have read: "readReplayToken (context_text d) (context_text d) = Inr (''context'', ?tail)"
    and skip: "skipReplayWhitespace (context_text d) = context_text d"
    by (simp_all only: line)
  have "context_text d \<noteq> []" unfolding line by simp
  then have tok: "tokenizeReplayLine (context_text d) = Inr (''context'' # vs)"
    unfolding tokenizeReplayLine_def by (rule tokenize_first [OF skip _ read vs])
  have "context_text d \<noteq> []" "hd (context_text d) \<noteq> CHR ''#''" unfolding line by simp_all
  with tok show "parseReplayScriptLine now (context_text d) = Inr None"
    unfolding parseReplayScriptLine_def Let_def js_trim_trimmed [OF trim] by (cases "context_text d") simp_all
  have word: "unbroken w" if "bare_word w" for w
    using token_text_unbroken [OF bare_word_token [OF that]] .
  have "unbroken (the (sd_kind d))" if "truthy (sd_kind d)"
    using assms word that by (cases "sd_kind d") (auto simp: device_ok_def)
  then show "unbroken (context_text d)"
    using assms printable_unbroken [OF json_escape_printable] word by (auto simp: line device_ok_def)
qed

section \<open>The lines of an action\<close>

text \<open>A recorded action that a script can carry: its line is read back, its annotation too, and its gesture has the
  arguments the replay asks for.\<close>

definition evidence_ok :: "target_annotation option \<Rightarrow> bool" where
  "evidence_ok v \<longleftrightarrow> (\<forall>e. v = Some e \<longrightarrow> annotation_ok e \<and> rect_plain e \<and>
     utf8ByteLength (serializeTargetAnnotationV1 e) \<le> TARGET_ANNOTATION_MAX_PAYLOAD_BYTES)"

definition script_action_ok :: "session_action \<Rightarrow> bool" where
  "script_action_ok a \<longleftrightarrow>
     replayable a \<and> sa_command a \<noteq> ''env'' \<and> evidence_ok (sa_targetEvidence a) \<and>
     readReplayGestureArityError (sa_command a) (sa_positionals (replayed 0 a)) = None"

definition action_lines :: "session_action \<Rightarrow> string list" where
  "action_lines a = (if sf_noRecord (sa_flags a) then [] else formatTargetAnnotationLines a @ [formatActionLine a])"

fun recorded_from :: "(nat \<Rightarrow> int) \<Rightarrow> nat \<Rightarrow> session_action list \<Rightarrow> (session_action \<times> nat) list" where
  "recorded_from clock i [] = []"
| "recorded_from clock i (a # as) =
     (if sf_noRecord (sa_flags a) then recorded_from clock i as
      else (let k = i + length (formatTargetAnnotationLines a)
            in ((replayed (clock k) a)\<lparr>sa_targetEvidence := sa_targetEvidence a\<rparr>, Suc k) # recorded_from clock (Suc k) as))"

lemma env_line_word:
  assumes "isReplayEnvLine line"
  shows "takeWhile (\<lambda>c. \<not> is_js_space c) line = ''env''"
proof -
  have sp: "is_js_space (CHR '' '')" "is_js_space (CHR 0x09)" "\<not> is_js_space (CHR ''e'')" "\<not> is_js_space (CHR ''n'')"
    "\<not> is_js_space (CHR ''v'')" by code_simp+
  have split: "take 4 line = w \<Longrightarrow> line = w @ drop 4 line" for w using append_take_drop_id [of 4 line] by simp
  consider "line = ''env''" | "line = ''env '' @ drop 4 line" | "line = (''env'' @ [CHR 0x09]) @ drop 4 line"
    using assms split unfolding isReplayEnvLine_def by blast
  then show ?thesis
  proof cases
    case 2
    show ?thesis by (subst 2) (simp add: sp)
  next
    case 3
    show ?thesis by (subst 3) (simp add: sp)
  qed (simp add: sp)
qed

lemma action_line_not_env:
  assumes "line_reads now a" "sa_command a \<noteq> ''env''"
  shows "\<not> isReplayEnvLine (formatActionLine a)"
proof
  assume env: "isReplayEnvLine (formatActionLine a)"
  obtain rest where line: "formatActionLine a = sa_command a @ rest" and rest: "rest = [] \<or> hd rest = CHR '' ''"
    using line_reads_shape(5) [OF assms(1)] by blast
  have "list_all (\<lambda>c. \<not> is_js_space c) (sa_command a)"
    using assms(1) by (auto simp: line_reads_def line_command_def bare_word_def bare_script_char_def list_all_iff)
  moreover have "is_js_space (CHR '' '')" by code_simp
  ultimately have "takeWhile (\<lambda>c. \<not> is_js_space c) (formatActionLine a) = sa_command a"
    using rest unfolding line by (cases rest) (auto simp: list_all_iff takeWhile_append)
  with env_line_word [OF env] assms(2) show False by simp
qed

lemma action_line_step:
  assumes "script_action_ok a"
  shows "script_loop clock i saw pending (formatActionLine a # rest) =
    rbind (script_loop clock (Suc i) True None rest) (\<lambda>actions. Inr
      ((case pending of
          Some p \<Rightarrow> (replayed (clock i) a)\<lparr>sa_targetEvidence := Some (pa_evidence p)\<rparr>
        | None \<Rightarrow> replayed (clock i) a, Suc i) # actions))"
proof -
  have reads: "line_reads now a" for now using assms replayable_line_reads by (simp add: script_action_ok_def)
  note shape = line_reads_shape [OF reads [of 0]]
  have env: "\<not> isReplayEnvLine (formatActionLine a)"
    by (rule action_line_not_env [OF reads [of 0]]) (use assms in \<open>simp add: script_action_ok_def\<close>)
  have "hd (formatActionLine a) \<noteq> CHR ''#''" using reads [of 0] shape(4) by (simp add: line_reads_def line_command_def)
  then have hash: "take 1 (formatActionLine a) \<noteq> ''#''" using shape(2) by (cases "formatActionLine a") simp_all
  have "sa_positionals (replayed (clock i) a) = sa_positionals (replayed 0 a)" by (simp add: replayed_def)
  then have arity: "describeReplayGestureArityError (sa_command a) (sa_positionals (replayed (clock i) a)) src = None" for src
    using assms by (simp add: describeReplayGestureArityError_def script_action_ok_def)
  have command: "sa_command (replayed (clock i) a) = sa_command a" by (simp add: replayed_def)
  show ?thesis
    unfolding script_loop.simps js_trim_trimmed [OF shape(3)] Let_def if_not_P [OF hash] if_not_P [OF env]
      line_reads_parse [OF reads]
    using shape(2) by (simp add: command arity)
qed

lemma annotation_step:
  assumes "evidence_ok (Some e)"
  shows "script_loop clock i saw None (formatTargetAnnotationCommentLine e # rest) =
    script_loop clock (Suc i) saw (Some \<lparr>pa_evidence = e, pa_line = Suc i\<rparr>) rest"
proof -
  let ?l = "formatTargetAnnotationCommentLine e"
  have read: "parseTargetAnnotationCommentLine ?l = Inr (AnnotationV1 e)"
    using assms annotation_read by (simp add: evidence_ok_def)
  have line: "?l = ''# agent-device:target-v1 '' @ serializeTargetAnnotationV1 e"
    by (simp add: formatTargetAnnotationCommentLine_def TARGET_ANNOTATION_TAG_def)
  obtain body where body: "serializeTargetAnnotationV1 e = CHR ''{'' # body @ ''}''" "printable body" using serialized_shape by blast
  have trim: "js_trim ?l = ?l"
    unfolding line by (rule js_trim_trimmed [OF comment_line_match(2) [OF body]])
  have "?l \<noteq> []" "take 1 ?l = ''#''" unfolding line by simp_all
  then show ?thesis unfolding script_loop.simps trim Let_def by (simp add: read)
qed

lemma action_lines_step:
  assumes "script_action_ok a"
  shows "script_loop clock i saw None (action_lines a @ rest) =
    (if sf_noRecord (sa_flags a) then script_loop clock i saw None rest
     else (let k = i + length (formatTargetAnnotationLines a)
           in rbind (script_loop clock (Suc k) True None rest) (\<lambda>actions. Inr
                (((replayed (clock k) a)\<lparr>sa_targetEvidence := sa_targetEvidence a\<rparr>, Suc k) # actions))))"
proof (cases "sa_targetEvidence a")
  case None
  then have "(replayed now a)\<lparr>sa_targetEvidence := sa_targetEvidence a\<rparr> = replayed now a" for now by (simp add: replayed_def)
  with None action_line_step [OF assms, of clock i saw None rest] show ?thesis
    by (simp add: action_lines_def formatTargetAnnotationLines_def del: script_loop.simps)
next
  case (Some e)
  then have "evidence_ok (Some e)" using assms by (simp add: script_action_ok_def)
  from annotation_step [OF this, of clock i saw "formatActionLine a # rest"]
    action_line_step [OF assms, of clock "Suc i" saw "Some \<lparr>pa_evidence = e, pa_line = Suc i\<rparr>" rest] Some
  show ?thesis by (simp add: action_lines_def formatTargetAnnotationLines_def del: script_loop.simps)
qed

lemma actions_read:
  assumes "\<forall>a \<in> set as. script_action_ok a"
    and "\<And>i saw. script_loop clock i saw None rest = Inr []"
  shows "script_loop clock i saw None (concat (map action_lines as) @ rest) = Inr (recorded_from clock i as)"
  using assms(1)
proof (induction as arbitrary: i saw)
  case Nil
  show ?case using assms(2) by simp
next
  case (Cons a as)
  have ok: "script_action_ok a" using Cons.prems by simp
  have ih: "script_loop clock i saw None (concat (map action_lines as) @ rest) = Inr (recorded_from clock i as)" for i saw
    using Cons by simp
  show ?case
    unfolding list.map concat.simps append_assoc action_lines_step [OF ok] ih by (simp add: Let_def)
qed

section \<open>A recorded script is read back\<close>

lemma annotation_line_unbroken: "unbroken (formatTargetAnnotationCommentLine e)"
proof -
  obtain body where "serializeTargetAnnotationV1 e = CHR ''{'' # body @ ''}''" "printable body" using serialized_shape by blast
  then show ?thesis
    by (simp add: formatTargetAnnotationCommentLine_def TARGET_ANNOTATION_TAG_def printable_unbroken)
qed

lemma action_lines_unbroken:
  assumes "script_action_ok a" "l \<in> set (action_lines a)"
  shows "unbroken l"
proof -
  have "line_reads 0 a" using assms(1) replayable_line_reads by (simp add: script_action_ok_def)
  from line_reads_shape(1) [OF this] assms(2) show ?thesis
    by (auto simp: action_lines_def formatTargetAnnotationLines_def annotation_line_unbroken split: if_splits option.splits)
qed

lemma sentinel_line:
  "unbroken HEAL_COMPLETE_SENTINEL" "js_trim HEAL_COMPLETE_SENTINEL = HEAL_COMPLETE_SENTINEL"
  "take 1 HEAL_COMPLETE_SENTINEL = ''#''" "HEAL_COMPLETE_SENTINEL \<noteq> []"
  "parseTargetAnnotationCommentLine HEAL_COMPLETE_SENTINEL = Inr NoAnnotation"
  by (simp add: HEAL_COMPLETE_SENTINEL_def) (code_simp, simp_all add: HEAL_COMPLETE_SENTINEL_def, code_simp)

lemma sentinel_step:
  "script_loop clock i saw None (HEAL_COMPLETE_SENTINEL # rest) = script_loop clock (Suc i) saw None rest"
  unfolding script_loop.simps sentinel_line(2) Let_def using sentinel_line(3,4) by (simp add: sentinel_line(5))

lemma context_step:
  assumes "device_ok d"
  shows "script_loop clock i saw None (context_text d # rest) = script_loop clock (Suc i) saw None rest"
proof -
  note c = context_line_ignored [OF assms]
  have ne: "context_text d \<noteq> []" using c(4) by auto
  then have "hd (context_text d) = CHR ''c''" using c(4) by (cases "context_text d") auto
  with ne have hash: "take 1 (context_text d) \<noteq> ''#''" by (cases "context_text d") simp_all
  have env: "\<not> isReplayEnvLine (context_text d)"
    using \<open>hd (context_text d) = CHR ''c''\<close> ne by (cases "context_text d") (simp_all add: isReplayEnvLine_def)
  show ?thesis
    unfolding script_loop.simps js_trim_trimmed [OF c(3)] Let_def if_not_P [OF hash] if_not_P [OF env] c(1)
    using ne by simp
qed

lemma recorded_script_lines:
  assumes "device_ok d" "\<forall>a \<in> set as. script_action_ok a"
  shows "script_lines (formatScript d as sentinel) =
    context_text d # concat (map action_lines as) @ (if sentinel then [HEAL_COMPLETE_SENTINEL] else []) @ [[]]"
proof -
  let ?ls = "context_text d # concat (map action_lines as) @ (if sentinel then [HEAL_COMPLETE_SENTINEL] else [])"
  have script: "formatScript d as sentinel = js_join [CHR 0x0A] ?ls @ [CHR 0x0A]"
    by (simp add: formatScript_def action_lines_def [abs_def])
  have "\<forall>l \<in> set ?ls. unbroken l"
    using context_line_ignored(2) [OF assms(1)] assms(2) action_lines_unbroken sentinel_line(1) by auto
  then show ?thesis unfolding script by (subst script_lines_joined) simp_all
qed

lemma recorded_script_reads:
  assumes "device_ok d" "\<forall>a \<in> set as. script_action_ok a"
  shows "parseReplayScriptDetailed clock (formatScript d as sentinel) = Inr (recorded_from clock 1 as)"
proof -
  have "script_loop clock i saw None ((if sentinel then [HEAL_COMPLETE_SENTINEL] else []) @ [[]]) = Inr []" for i saw
    by (cases sentinel) (simp_all add: sentinel_step del: script_loop.simps(2), simp_all)
  from actions_read [OF assms(2) this]
  show ?thesis
    unfolding parseReplayScriptDetailed_def recorded_script_lines [OF assms] context_step [OF assms(1)] by simp
qed

section \<open>Annotations bind\<close>

definition is_annotation :: "string \<Rightarrow> target_annotation \<Rightarrow> bool" where
  "is_annotation line e \<longleftrightarrow> parseTargetAnnotationCommentLine (js_trim line) = Inr (AnnotationV1 e)"

lemma annotation_comment: "is_annotation line e \<Longrightarrow> js_trim line \<noteq> [] \<and> take 1 (js_trim line) = ''#''"
  by (auto simp: is_annotation_def parseTargetAnnotationCommentLine_def Let_def split: if_splits)

definition bound_at :: "(session_action \<times> nat) list \<Rightarrow> nat \<Rightarrow> target_annotation \<Rightarrow> bool" where
  "bound_at actions n e \<longleftrightarrow> (\<exists>a. (a, n) \<in> set actions \<and> sa_targetEvidence a = Some e)"

lemma bound_at_Cons: "bound_at actions n e \<Longrightarrow> bound_at (x # actions) n e"
  by (auto simp: bound_at_def)

lemma pending_binds:
  assumes "script_loop clock i saw (Some p) ls = Inr actions"
  shows "\<exists>l ls' a actions'. ls = l # ls' \<and> (\<forall>e. \<not> is_annotation l e) \<and> actions = (a, Suc i) # actions' \<and>
    sa_targetEvidence a = Some (pa_evidence p) \<and> script_loop clock (Suc i) True None ls' = Inr actions'"
proof (cases ls)
  case Nil
  then show ?thesis using assms by simp
next
  case (Cons l ls')
  have "\<not> (js_trim l \<noteq> [] \<and> take 1 (js_trim l) = ''#'')"
    using assms unfolding Cons script_loop.simps Let_def
    by (auto simp: reject_unbound_def split: if_splits sum.splits annotation_line.splits)
  with annotation_comment have plain: "\<not> is_annotation l e" for e by blast
  from assms show ?thesis
    unfolding Cons script_loop.simps Let_def
    by (auto simp: plain reject_unbound_def rbind_Inr_iff split: if_splits sum.splits annotation_line.splits option.splits)
qed

lemma script_loop_annotation:
  assumes "is_annotation l e"
  shows "script_loop clock i saw None (l # ls) = script_loop clock (Suc i) saw (Some \<lparr>pa_evidence = e, pa_line = Suc i\<rparr>) ls"
  using annotation_comment [OF assms] assms unfolding script_loop.simps Let_def is_annotation_def by simp

lemma script_loop_other:
  assumes "script_loop clock i saw None (l # ls) = Inr actions" "\<And>e. \<not> is_annotation l e"
  shows "\<exists>saw' actions'. script_loop clock (Suc i) saw' None ls = Inr actions' \<and> set actions' \<subseteq> set actions"
  using assms unfolding script_loop.simps Let_def is_annotation_def
  by (fastforce simp: rbind_Inr_iff split: if_splits sum.splits annotation_line.splits option.splits)

lemma annotations_bound:
  "script_loop clock i saw pending ls = Inr actions \<Longrightarrow> j < length ls \<Longrightarrow> is_annotation (ls ! j) e \<Longrightarrow>
   bound_at actions (i + j + 2) e"
proof (induction ls arbitrary: i saw pending actions j)
  case (Cons l ls)
  show ?case
  proof (cases pending)
    case (Some p)
    from pending_binds [OF Cons.prems(1) [unfolded Some]] obtain a actions' where
      p: "\<forall>e. \<not> is_annotation l e" "actions = (a, Suc i) # actions'" "script_loop clock (Suc i) True None ls = Inr actions'"
      by auto
    obtain j' where j: "j = Suc j'" using Cons.prems(3) p(1) by (cases j) auto
    have "bound_at actions' (Suc i + j' + 2) e" using Cons.IH [OF p(3)] Cons.prems(2,3) by (simp add: j)
    then show ?thesis using bound_at_Cons by (simp add: p(2) j)
  next
    case None
    note run = Cons.prems(1) [unfolded None]
    show ?thesis
    proof (cases "\<exists>e0. is_annotation l e0")
      case True
      then obtain e0 where e0: "is_annotation l e0" ..
      note run = run [unfolded script_loop_annotation [OF e0]]
      show ?thesis
      proof (cases j)
        case 0
        have "e = e0" using Cons.prems(3) e0 by (simp add: 0 is_annotation_def)
        then show ?thesis using pending_binds [OF run] by (auto simp: 0 bound_at_def)
      next
        case (Suc j')
        have "bound_at actions (Suc i + j' + 2) e" using Cons.IH [OF run] Cons.prems(2,3) by (simp add: Suc)
        then show ?thesis by (simp add: Suc)
      qed
    next
      case False
      then obtain j' where j: "j = Suc j'" using Cons.prems(3) by (cases j) auto
      from script_loop_other [OF run] False obtain saw' actions' where
        r: "script_loop clock (Suc i) saw' None ls = Inr actions'" "set actions' \<subseteq> set actions" by blast
      have "bound_at actions' (Suc i + j' + 2) e" using Cons.IH [OF r(1)] Cons.prems(2,3) by (simp add: j)
      then show ?thesis using r(2) by (auto simp: j bound_at_def)
    qed
  qed
qed simp

section \<open>Properties\<close>

definition example_device :: script_device where
  "example_device = \<lparr>sd_platform = ''ios'', sd_name = ''My \"Phone\"'', sd_kind = Some ''simulator''\<rparr>"

definition example_annotated :: session_action where
  "example_annotated = example_fill\<lparr>sa_targetEvidence := Some example_annotation\<rparr>"

lemma replayable_evidence: "replayable (a\<lparr>sa_targetEvidence := e\<rparr>) = replayable a"
  unfolding replayable_def by simp

lemma example_script_ok: "device_ok example_device" "\<forall>a \<in> set [example_annotated, example_fill]. script_action_ok a"
proof -
  show "device_ok example_device" by code_simp
  have "replayable example_annotated"
    using example_fill_replayable by (simp add: replayable_evidence example_annotated_def)
  moreover have "evidence_ok (Some example_annotation)" using example_annotation_ok by (simp add: evidence_ok_def)
  moreover have "readReplayGestureArityError ''fill'' ps = None" for ps by (simp add: readReplayGestureArityError_def)
  ultimately show "\<forall>a \<in> set [example_annotated, example_fill]. script_action_ok a"
    using example_fill_replayable
    by (simp add: script_action_ok_def example_annotated_def example_fill_def evidence_ok_def)
qed

text \<open>C3. A recorded script is read back when it can be: on a device whose platform and kind are plain words and whose name does not end with
  white space (\<open>device_ok\<close>; else the parser refuses the context line, see \<open>spaced_device_script_refused\<close>), and when every
  recorded action is one a line can carry (\<open>replayable\<close>), is not named \<^verbatim>\<open>env\<close>, has the arguments the replay asks of a
  gesture and evidence in normal form within the size limit (\<open>script_action_ok\<close>), the parser of scripts accepts the text written for
  the session and gives the recorded actions in their order, each as its line carries it, bound to its own annotation and to the number
  of its line.\<close>

theorem recorded_script_roundtrip:
  assumes "device_ok d" "\<forall>a \<in> set actions. script_action_ok a"
  shows "parseReplayScriptDetailed clock (formatScript d actions sentinel) = Inr (recorded_from clock 1 actions)"
  by (rule recorded_script_reads [OF assms])

theorem recorded_script_roundtrip_witness:
  "parseReplayScriptDetailed (\<lambda>i. 7) (formatScript example_device [example_annotated, example_fill] True) =
     Inr (recorded_from (\<lambda>i. 7) 1 [example_annotated, example_fill])"
  by (rule recorded_script_roundtrip [OF example_script_ok])

text \<open>C22. An accepted script drops no annotation: the action of the very next line carries it.\<close>

theorem annotation_binds_next_action:
  assumes "parseReplayScriptDetailed clock script = Inr actions" "n < length (script_lines script)"
    and "is_annotation (script_lines script ! n) e"
  shows "bound_at actions (n + 2) e"
  using annotations_bound [of clock 0 False None "script_lines script" actions n e] assms
  by (simp add: parseReplayScriptDetailed_def)

theorem annotation_binds_next_action_witness:
  "bound_at (recorded_from (\<lambda>i. 7) 1 [example_annotated, example_fill]) 3 example_annotation"
proof -
  let ?as = "[example_annotated, example_fill]"
  have "\<not> sf_noRecord (sa_flags example_annotated)" "sa_targetEvidence example_annotated = Some example_annotation"
    by (simp_all add: example_annotated_def example_fill_def no_flags_def)
  then have line: "script_lines (formatScript example_device ?as True) ! 1 = formatTargetAnnotationCommentLine example_annotation"
    unfolding recorded_script_lines [OF example_script_ok]
    by (simp add: action_lines_def formatTargetAnnotationLines_def)
  have "parseTargetAnnotationCommentLine (js_trim l) = parseTargetAnnotationCommentLine l" for l
    by (simp add: parseTargetAnnotationCommentLine_def)
  then have "is_annotation (script_lines (formatScript example_device ?as True) ! 1) example_annotation"
    unfolding line is_annotation_def using annotation_read [OF example_annotation_ok] by simp
  moreover have "1 < length (script_lines (formatScript example_device ?as True))"
    unfolding recorded_script_lines [OF example_script_ok] by simp
  ultimately have "bound_at (recorded_from (\<lambda>i. 7) 1 ?as) (1 + 2) example_annotation"
    by (intro annotation_binds_next_action [OF recorded_script_reads [OF example_script_ok]])
  moreover have "1 + 2 = (3::nat)" by simp
  ultimately show ?thesis by (simp only:)
qed

section \<open>Devices whose names break the script\<close>

text \<open>The name of the device is written as a JSON literal glued to \<open>device=\<close>, where the tokenizer does not look for a
  closing quote. A name that ends with white space leaves its closing quote at the start of a token.\<close>

definition spaced_device :: script_device where
  "spaced_device = \<lparr>sd_platform = ''ios'', sd_name = ''Pad '', sd_kind = None\<rparr>"

lemma spaced_device_line:
  "parseReplayScriptLine now (context_text spaced_device) = Inl (TokenError (InvalidScriptLine (context_text spaced_device)))"
  by code_simp

text \<open>A session on a device whose name ends with white space records a script that cannot be replayed: whatever the
  recorded actions, the parser refuses the context line the writer wrote.\<close>

lemma spaced_device_script_refused:
  "parseReplayScriptDetailed clock (formatScript spaced_device actions sentinel) =
     Inl (LineError (TokenError (InvalidScriptLine (context_text spaced_device))))"
proof -
  let ?rest = "concat (map (\<lambda>a. if sf_noRecord (sa_flags a) then [] else formatTargetAnnotationLines a @ [formatActionLine a]) actions) @
    (if sentinel then [HEAL_COMPLETE_SENTINEL] else [])"
  have facts: "list_all (\<lambda>c. c \<noteq> CHR 0x0A) (context_text spaced_device)" "drop_return (context_text spaced_device) = context_text spaced_device"
    "js_trim (context_text spaced_device) = context_text spaced_device" "context_text spaced_device \<noteq> []"
    "take 1 (context_text spaced_device) \<noteq> ''#''" "\<not> isReplayEnvLine (context_text spaced_device)"
    by code_simp+
  obtain s where "formatScript spaced_device actions sentinel = context_text spaced_device @ CHR 0x0A # s"
    by (cases ?rest) (simp_all add: formatScript_def js_join_more)
  then have "split_newlines (formatScript spaced_device actions sentinel) = context_text spaced_device # split_newlines s"
    by (simp only: split_newlines_append [OF facts(1)])
  moreover have "split_newlines s \<noteq> []" by (cases s) (auto split: list.split)
  ultimately obtain ls where ls: "script_lines (formatScript spaced_device actions sentinel) = context_text spaced_device # ls"
    by (auto simp: script_lines_def Let_def facts(2))
  show ?thesis
    unfolding parseReplayScriptDetailed_def ls script_loop.simps facts(3) Let_def if_not_P [OF facts(5)] if_not_P [OF facts(6)]
      spaced_device_line
    using facts(4) by simp
qed

end
