(* ===== verification/Visibility.thy ===== *)
theory Visibility
  imports SnapshotTree
begin

text \<open>
  Geometry and visibility: \<^verbatim>\<open>packages/kernel/src/rect.ts\<close>, \<^verbatim>\<open>src/utils/rect-visibility.ts\<close>,
  \<^verbatim>\<open>src/utils/scrollable.ts\<close>, \<^verbatim>\<open>src/utils/scroll-indicator.ts\<close> and
  \<^verbatim>\<open>src/snapshot/mobile-snapshot-semantics.ts\<close>.

  Every rational is finite, so the checks of finiteness hold of every rectangle of the model. A map from
  container indices to sets of directions is an association list.
\<close>

section \<open>Rectangles\<close>

definition isPositiveFiniteRect :: "rect option \<Rightarrow> bool" where
  "isPositiveFiniteRect r = (case r of None \<Rightarrow> False | Some q \<Rightarrow> rwidth q > 0 \<and> rheight q > 0)"

definition rectContains :: "rect \<Rightarrow> rect \<Rightarrow> bool" where
  "rectContains container nested \<longleftrightarrow>
     rx nested \<ge> rx container \<and> ry nested \<ge> ry container \<and>
     rx nested + rwidth nested \<le> rx container + rwidth container \<and>
     ry nested + rheight nested \<le> ry container + rheight container"

definition rectArea :: "rect \<Rightarrow> rat" where
  "rectArea r = rwidth r * rheight r"

text \<open>\<open>Math.round\<close> rounds halves up.\<close>

definition js_round :: "rat \<Rightarrow> rat" where
  "js_round q = of_int \<lfloor>q + 1 / 2\<rfloor>"

definition centerOfRect :: "rect \<Rightarrow> point" where
  "centerOfRect r = \<lparr>px = js_round (rx r + rwidth r / 2), py = js_round (ry r + rheight r / 2)\<rparr>"

definition containsPoint :: "rect \<Rightarrow> rat \<Rightarrow> rat \<Rightarrow> bool" where
  "containsPoint r x y \<longleftrightarrow> x \<ge> rx r \<and> x \<le> rx r + rwidth r \<and> y \<ge> ry r \<and> y \<le> ry r + rheight r"

fun pick_largest_loop :: "rect option \<Rightarrow> rat \<Rightarrow> rect list \<Rightarrow> rect option" where
  "pick_largest_loop best bestArea [] = best"
| "pick_largest_loop best bestArea (r # rs) =
     (let area = rwidth r * rheight r
      in if area > bestArea then pick_largest_loop (Some r) area rs else pick_largest_loop best bestArea rs)"

definition pickLargestRect :: "rect list \<Rightarrow> rect option" where
  "pickLargestRect rects = pick_largest_loop None (- 1) rects"

definition rangesOverlapInclusive :: "rat \<Rightarrow> rat \<Rightarrow> rat \<Rightarrow> rat \<Rightarrow> bool" where
  "rangesOverlapInclusive leftStart leftEnd rightStart rightEnd \<longleftrightarrow>
     max leftStart rightStart \<le> min leftEnd rightEnd"

definition isRectVisibleInViewport :: "rect \<Rightarrow> rect \<Rightarrow> bool" where
  "isRectVisibleInViewport t v \<longleftrightarrow>
     rangesOverlapInclusive (rx t) (rx t + rwidth t) (rx v) (rx v + rwidth v) \<and>
     rangesOverlapInclusive (ry t) (ry t + rheight t) (ry v) (ry v + rheight v)"

definition first_some :: "'a option \<Rightarrow> 'a option \<Rightarrow> 'a option" where
  "first_some a b = (case a of Some x \<Rightarrow> Some x | None \<Rightarrow> b)"

definition resolveViewportRect :: "'a raw_node_scheme list \<Rightarrow> rect \<Rightarrow> rect option" where
  "resolveViewportRect nodes targetRect =
     (let targetCenter = centerOfRect targetRect;
          rectNodes = filter (\<lambda>n. nd_rect n \<noteq> None) nodes;
          viewportNodes = filter (\<lambda>n. includes_any (js_lower (or_empty (nd_type n))) [''application'', ''window'']) rectNodes;
          containing = (\<lambda>ns. pickLargestRect
            (filter (\<lambda>r. containsPoint r (px targetCenter) (py targetCenter)) (map (\<lambda>n. the (nd_rect n)) ns)))
      in first_some (containing viewportNodes)
           (first_some (pickLargestRect (map (\<lambda>n. the (nd_rect n)) viewportNodes)) (containing rectNodes)))"

section \<open>Scrolling containers\<close>

definition isScrollableType :: "string option \<Rightarrow> bool" where
  "isScrollableType type =
     (let value = js_lower (or_empty type)
      in includes_any value [''scroll'', ''recyclerview'', ''listview'', ''gridview'', ''collectionview''] \<or>
         value = ''table'')"

definition isScrollableNodeLike :: "'a raw_node_scheme \<Rightarrow> bool" where
  "isScrollableNodeLike node =
     (if isScrollableType (nd_type node) then True
      else js_includes (js_lower (or_empty (nd_role node) @ '' '' @ or_empty (nd_subrole node))) ''scroll'')"

function scrollable_loop ::
    "'a raw_node_scheme list \<Rightarrow> ('a raw_node_scheme \<Rightarrow> bool) \<Rightarrow> int list \<Rightarrow> int option \<Rightarrow> 'a raw_node_scheme option" where
  "scrollable_loop nodes pred visited i =
     (case Option.bind i (node_at_index nodes) of
        None \<Rightarrow> None
      | Some current \<Rightarrow>
          if nd_index current \<in> set visited then None
          else if pred current \<and> isScrollableNodeLike current then Some current
          else scrollable_loop nodes pred (nd_index current # visited) (nd_parentIndex current))"
  by pat_completeness auto
termination
proof (relation "measure (\<lambda>(nodes, pred, visited, i). unvisited nodes visited)", goal_cases)
  case 1
  then show ?case by simp
next
  case (2 nodes pred visited i current)
  then have "current \<in> set nodes" by (cases i) (auto dest: node_at_index_mem)
  with 2 unvisited_less [of current nodes visited] show ?case by simp
qed

declare scrollable_loop.simps [simp del]

definition findNearestScrollableAncestorMatching ::
    "'a raw_node_scheme \<Rightarrow> 'a raw_node_scheme list \<Rightarrow> ('a raw_node_scheme \<Rightarrow> bool) \<Rightarrow> 'a raw_node_scheme option" where
  "findNearestScrollableAncestorMatching node nodes pred = scrollable_loop nodes pred [] (nd_parentIndex node)"

definition findNearestScrollableAncestorRect :: "'a raw_node_scheme \<Rightarrow> 'a raw_node_scheme list \<Rightarrow> rect option" where
  "findNearestScrollableAncestorRect node nodes =
     Option.bind (findNearestScrollableAncestorMatching node nodes (\<lambda>c. nd_rect c \<noteq> None)) nd_rect"

section \<open>Visibility\<close>

definition resolveEffectiveViewportRect :: "'a raw_node_scheme \<Rightarrow> 'a raw_node_scheme list \<Rightarrow> rect option" where
  "resolveEffectiveViewportRect node nodes =
     (case findNearestScrollableAncestorRect node nodes of
        Some r \<Rightarrow> Some r
      | None \<Rightarrow>
          resolveViewportRect nodes
            (case nd_rect node of Some r \<Rightarrow> r | None \<Rightarrow> \<lparr>rx = 0, ry = 0, rwidth = 0, rheight = 0\<rparr>))"

definition isNodeVisibleInEffectiveViewport :: "'a raw_node_scheme \<Rightarrow> 'a raw_node_scheme list \<Rightarrow> bool" where
  "isNodeVisibleInEffectiveViewport node nodes =
     (case nd_rect node of
        None \<Rightarrow> True
      | Some r \<Rightarrow>
          (case resolveEffectiveViewportRect node nodes of
             None \<Rightarrow> True
           | Some viewport \<Rightarrow> isRectVisibleInViewport r viewport))"

definition isTapPointInsideViewport :: "rect \<Rightarrow> rect option \<Rightarrow> bool" where
  "isTapPointInsideViewport r viewport =
     (case viewport of
        None \<Rightarrow> True
      | Some v \<Rightarrow>
          if rwidth v \<le> 0 \<or> rheight v \<le> 0 then True
          else containsPoint v (rx r + rwidth r / 2) (ry r + rheight r / 2))"

definition isNodeVisibleOnScreen :: "'a raw_node_scheme \<Rightarrow> 'a raw_node_scheme list \<Rightarrow> bool" where
  "isNodeVisibleOnScreen node nodes =
     (case nd_rect node of
        None \<Rightarrow> True
      | Some r \<Rightarrow>
          if \<not> isNodeVisibleInEffectiveViewport node nodes then False
          else isTapPointInsideViewport r (resolveViewportRect nodes r))"

section \<open>Scrolling a target into view\<close>

datatype scroll_direction = ScrollUp | ScrollDown | ScrollLeft | ScrollRight

fun dominant_loop :: "(scroll_direction \<times> rat) option \<Rightarrow> (scroll_direction \<times> rat) list \<Rightarrow> (scroll_direction \<times> rat) option" where
  "dominant_loop best [] = best"
| "dominant_loop best (candidate # rest) =
     dominant_loop
       (if snd candidate > 0 \<and> (best = None \<or> snd candidate > snd (the best)) then Some candidate else best) rest"

definition overshoots :: "rect \<Rightarrow> rect \<Rightarrow> (scroll_direction \<times> rat) list" where
  "overshoots r v =
     (let centerX = rx r + rwidth r / 2; centerY = ry r + rheight r / 2
      in [(ScrollDown, centerY - (ry v + rheight v)), (ScrollUp, ry v - centerY),
          (ScrollRight, centerX - (rx v + rwidth v)), (ScrollLeft, rx v - centerX)])"

definition directionOfCenterOutsideViewport :: "rect \<Rightarrow> rect \<Rightarrow> scroll_direction option" where
  "directionOfCenterOutsideViewport r v = map_option fst (dominant_loop None (overshoots r v))"

definition classifyOffscreenScrollDirection ::
    "'a raw_node_scheme \<Rightarrow> 'a raw_node_scheme list \<Rightarrow> scroll_direction option" where
  "classifyOffscreenScrollDirection node nodes =
     (case nd_rect node of
        None \<Rightarrow> None
      | Some r \<Rightarrow>
          first_some
            (case resolveEffectiveViewportRect node nodes of
               Some v \<Rightarrow> if \<not> isRectVisibleInViewport r v then directionOfCenterOutsideViewport r v else None
             | None \<Rightarrow> None)
            (case resolveViewportRect nodes r of
               Some v \<Rightarrow> if \<not> isTapPointInsideViewport r (Some v) then directionOfCenterOutsideViewport r v else None
             | None \<Rightarrow> None))"

section \<open>The mobile presentation\<close>

datatype direction = Above | Below

type_synonym direction_map = "(int, direction set) amap"

record mobile_presentation =
  mp_nodes :: "snapshot_node list"
  mp_hiddenCount :: nat
  mp_summaryLines :: "string list"

definition classifyVerticalDirection :: "rect \<Rightarrow> rect \<Rightarrow> direction option" where
  "classifyVerticalDirection target viewport =
     (if ry target + rheight target \<le> ry viewport then Some Above
      else if ry target \<ge> ry viewport + rheight viewport then Some Below
      else None)"

text \<open>\<open>/^(\d{1,3})%$/\<close> on the trimmed value, clamped to 0 and 100.\<close>

definition parsePercentValue :: "string option \<Rightarrow> int option" where
  "parsePercentValue value =
     (case value of
        None \<Rightarrow> None
      | Some v \<Rightarrow>
          if v = [] then None
          else
            let t = js_trim v; digits = takeWhile is_digit_char t
            in if 1 \<le> length digits \<and> length digits \<le> 3 \<and> drop (length digits) t = ''%''
               then Some (max 0 (min 100 (dec_val digits)))
               else None)"

definition inferVerticalScrollIndicatorDirections :: "string option \<Rightarrow> string option \<Rightarrow> (bool \<times> bool) option" where
  "inferVerticalScrollIndicatorDirections label value =
     (let normalizedLabel = js_lower (trimText label)
      in if \<not> js_includes normalizedLabel ''vertical scroll bar'' then None
         else (case parsePercentValue value of
                 None \<Rightarrow> None
               | Some scrollPercent \<Rightarrow>
                   if scrollPercent \<le> 1 then Some (False, True)
                   else if scrollPercent \<ge> 99 then Some (True, False)
                   else Some (True, True)))"

definition inferDirectionsFromScrollIndicator :: "'a raw_node_scheme \<Rightarrow> direction set option" where
  "inferDirectionsFromScrollIndicator node =
     (case inferVerticalScrollIndicatorDirections (nd_label node) (nd_value node) of
        None \<Rightarrow> None
      | Some (hiddenAbove, hiddenBelow) \<Rightarrow>
          let ds = (if hiddenAbove then {Above} else {}) \<union> (if hiddenBelow then {Below} else {})
          in if ds \<noteq> {} then Some ds else None)"

definition isDiscoverableOffscreenNode :: "'a raw_node_scheme \<Rightarrow> bool" where
  "isDiscoverableOffscreenNode node =
     (if nd_hittable node = Some True then True
      else includes_any (js_lower (or_empty (nd_type node)))
             [''button'', ''link'', ''textfield'', ''edittext'', ''searchfield'', ''checkbox'', ''radio'',
              ''switch'', ''menuitem''] \<or>
           displayNodeLabel node \<noteq> [])"

fun unique_labels_loop :: "string list \<Rightarrow> 'a raw_node_scheme list \<Rightarrow> string list" where
  "unique_labels_loop labels [] = labels"
| "unique_labels_loop labels (node # nodes) =
     (let label = displayNodeLabel node
      in if label = [] \<or> label \<in> set labels then unique_labels_loop labels nodes
         else unique_labels_loop (labels @ [label]) nodes)"

definition uniqueLabels :: "'a raw_node_scheme list \<Rightarrow> string list" where
  "uniqueLabels nodes = unique_labels_loop [] nodes"

text \<open>The indices that \<open>markNodeAndAncestorsVisible\<close> adds for a node.\<close>

function visible_chain :: "'a raw_node_scheme list \<Rightarrow> int list \<Rightarrow> 'a raw_node_scheme \<Rightarrow> int list" where
  "visible_chain nodes visited current =
     (if nd_index current \<in> set visited then []
      else nd_index current #
        (case Option.bind (nd_parentIndex current) (node_at_index nodes) of
           None \<Rightarrow> []
         | Some parent \<Rightarrow> visible_chain nodes (nd_index current # visited) parent))"
  by pat_completeness auto
termination
proof (relation "measure (\<lambda>(nodes, visited, current).
    unvisited nodes visited + (if current \<in> set nodes then 0 else 1))", goal_cases)
  case 1
  then show ?case by simp
next
  case (2 nodes visited current parent)
  then have "parent \<in> set nodes" by (cases "nd_parentIndex current") (auto dest: node_at_index_mem)
  then show ?case
    using 2 unvisited_less [of current nodes visited] unvisited_le [of nodes "nd_index current" visited] by auto
qed

declare visible_chain.simps [simp del]

definition markNodeAndAncestorsVisible :: "'a raw_node_scheme list \<Rightarrow> 'a raw_node_scheme \<Rightarrow> int set \<Rightarrow> int set" where
  "markNodeAndAncestorsVisible nodes node visible = visible \<union> set (visible_chain nodes [] node)"

definition findNearestVisibleScrollableAncestor ::
    "'a raw_node_scheme \<Rightarrow> int set \<Rightarrow> 'a raw_node_scheme list \<Rightarrow> 'a raw_node_scheme option" where
  "findNearestVisibleScrollableAncestor node visible nodes =
     findNearestScrollableAncestorMatching node nodes (\<lambda>c. nd_index c \<in> visible)"

definition directions_at :: "direction_map \<Rightarrow> int \<Rightarrow> direction set" where
  "directions_at m i = (case map_of m i of None \<Rightarrow> {} | Some ds \<Rightarrow> ds)"

text \<open>The geometry pass: the directions and the nodes they cover.\<close>

definition container_hint_step ::
    "snapshot_node list \<Rightarrow> int set \<Rightarrow> snapshot_node \<Rightarrow> direction_map \<times> int set \<Rightarrow> direction_map \<times> int set" where
  "container_hint_step nodes visible node acc =
     (case nd_rect node of
        None \<Rightarrow> acc
      | Some r \<Rightarrow>
          (case findNearestVisibleScrollableAncestor node visible nodes of
             None \<Rightarrow> acc
           | Some container \<Rightarrow>
               (case nd_rect container of
                  None \<Rightarrow> acc
                | Some cr \<Rightarrow>
                    (case classifyVerticalDirection r cr of
                       None \<Rightarrow> acc
                     | Some d \<Rightarrow>
                         (AList.update (nd_index container) (insert d (directions_at (fst acc) (nd_index container))) (fst acc),
                          insert (nd_index node) (snd acc))))))"

definition merge_indicator_step ::
    "snapshot_node list \<Rightarrow> int set \<Rightarrow> direction_map \<Rightarrow> snapshot_node \<Rightarrow> direction_map \<Rightarrow> direction_map" where
  "merge_indicator_step nodes visible geometry node m =
     (case inferDirectionsFromScrollIndicator node of
        None \<Rightarrow> m
      | Some inferred \<Rightarrow>
          (case findNearestVisibleScrollableAncestor node visible nodes of
             None \<Rightarrow> m
           | Some container \<Rightarrow>
               let i = nd_index container;
                   geometryDirections = directions_at geometry i;
                   added = (if geometryDirections \<noteq> {} then inferred \<inter> geometryDirections else inferred)
               in AList.update i (directions_at m i \<union> added) m))"

definition deriveContainerHints ::
    "snapshot_node list \<Rightarrow> snapshot_node list \<Rightarrow> int set \<Rightarrow> direction_map \<times> int set" where
  "deriveContainerHints allNodes offscreenNodes visible =
     (let (geometry, covered) = fold (container_hint_step allNodes visible) offscreenNodes ([], {})
      in (fold (merge_indicator_step allNodes visible geometry) allNodes geometry, covered))"

definition analyzeMobileSnapshotVisibility ::
    "snapshot_node list \<Rightarrow> int set \<times> snapshot_node list \<times> direction_map \<times> int set" where
  "analyzeMobileSnapshotVisibility nodes =
     (let (visible, offscreen) =
            fold (\<lambda>node (v, off).
                    if isNodeVisibleInEffectiveViewport node nodes
                    then (markNodeAndAncestorsVisible nodes node v, off)
                    else (v, off @ [node])) nodes ({}, []);
          (directions, covered) = deriveContainerHints nodes offscreen visible
      in (visible, offscreen, directions, covered))"

definition applyDerivedHiddenContentHints :: "direction_map \<Rightarrow> snapshot_node \<Rightarrow> snapshot_node" where
  "applyDerivedHiddenContentHints m node =
     (let ds = directions_at m (nd_index node)
      in if ds = {} then node
         else node\<lparr>nd_hiddenContentAbove :=
                     (if nd_hiddenContentAbove node = Some True \<or> Above \<in> ds then Some True else None),
                   nd_hiddenContentBelow :=
                     (if nd_hiddenContentBelow node = Some True \<or> Below \<in> ds then Some True else None)\<rparr>)"

definition classifyNodeDirection :: "'a raw_node_scheme \<Rightarrow> 'a raw_node_scheme list \<Rightarrow> direction option" where
  "classifyNodeDirection node nodes =
     (case nd_rect node of
        None \<Rightarrow> None
      | Some r \<Rightarrow> Option.bind (resolveEffectiveViewportRect node nodes) (classifyVerticalDirection r))"

fun direction_name :: "direction \<Rightarrow> string" where
  "direction_name Above = ''above''" | "direction_name Below = ''below''"

definition summary_line :: "direction \<Rightarrow> 'a raw_node_scheme list \<Rightarrow> string list" where
  "summary_line d members =
     (if members = [] then []
      else
        let labels = map (\<lambda>l. ''\"'' @ l @ ''\"'') (take 3 (uniqueLabels members));
            noun = (if length members = 1 then ''interactive item'' else ''interactive items'');
            suffix = (if length labels > 0 then '': '' @ js_join '', '' labels else [])
        in [''[off-screen '' @ direction_name d @ ''] '' @ nat_dec (length members) @ '' '' @ noun @ suffix])"

definition buildOffscreenSummaryLines :: "'a raw_node_scheme list \<Rightarrow> 'a raw_node_scheme list \<Rightarrow> string list" where
  "buildOffscreenSummaryLines nodes snapshotNodes =
     concat (map (\<lambda>d. summary_line d (filter (\<lambda>n. classifyNodeDirection n snapshotNodes = Some d) nodes)) [Above, Below])"

definition buildMobileSnapshotPresentation :: "snapshot_node list \<Rightarrow> mobile_presentation" where
  "buildMobileSnapshotPresentation nodes =
     (if length nodes = 0 then \<lparr>mp_nodes = nodes, mp_hiddenCount = 0, mp_summaryLines = []\<rparr>
      else
        let (visible, offscreen, directions, covered) = analyzeMobileSnapshotVisibility nodes;
            presented = (if visible = {} then nodes else filter (\<lambda>n. nd_index n \<in> visible) nodes)
        in \<lparr>mp_nodes = map (applyDerivedHiddenContentHints directions) presented,
            mp_hiddenCount = (if visible = {} then 0 else length nodes - length presented),
            mp_summaryLines = buildOffscreenSummaryLines
              (filter (\<lambda>n. nd_index n \<notin> covered \<and> isDiscoverableOffscreenNode n) offscreen) nodes\<rparr>)"

definition toHiddenContentHints :: "direction_map \<Rightarrow> (int \<times> bool \<times> bool) list" where
  "toHiddenContentHints m =
     map (\<lambda>(i, ds). (i, Above \<in> ds, Below \<in> ds)) (filter (\<lambda>(i, ds). Above \<in> ds \<or> Below \<in> ds) m)"

definition deriveMobileSnapshotHiddenContentHints :: "snapshot_node list \<Rightarrow> (int \<times> bool \<times> bool) list" where
  "deriveMobileSnapshotHiddenContentHints nodes =
     (if length nodes = 0 then []
      else let (visible, offscreen, directions, covered) = analyzeMobileSnapshotVisibility nodes
           in toHiddenContentHints directions)"

section \<open>Directions and visibility agree\<close>

lemma dominant_loop_spec:
  "(dominant_loop best cs = None \<longleftrightarrow> best = None \<and> (\<forall>c \<in> set cs. snd c \<le> 0)) \<and>
   (\<forall>c. dominant_loop best cs = Some c \<longrightarrow>
      (best = Some c \<or> c \<in> set cs \<and> 0 < snd c) \<and> (\<forall>b. best = Some b \<longrightarrow> snd b \<le> snd c) \<and>
      (\<forall>e \<in> set cs. 0 < snd e \<longrightarrow> snd e \<le> snd c))"
proof (induction cs arbitrary: best)
  case Nil
  then show ?case by simp
next
  case (Cons x cs)
  show ?case
  proof (cases "snd x > 0 \<and> (best = None \<or> snd x > snd (the best))")
    case True
    then have "dominant_loop best (x # cs) = dominant_loop (Some x) cs" by simp
    with Cons.IH [of "Some x"] True show ?thesis by fastforce
  next
    case False
    then have "dominant_loop best (x # cs) = dominant_loop best cs" by (simp only: dominant_loop.simps if_False)
    moreover have "best \<noteq> None" if "0 < snd x" using False that by auto
    moreover have "snd x \<le> snd (the best)" if "0 < snd x" using False that by auto
    ultimately show ?thesis using Cons.IH [of best] False by (auto; fastforce)
  qed
qed

lemma direction_None: "directionOfCenterOutsideViewport r v = None \<longleftrightarrow>
    containsPoint v (rx r + rwidth r / 2) (ry r + rheight r / 2)"
proof -
  have "directionOfCenterOutsideViewport r v = None \<longleftrightarrow> (\<forall>c \<in> set (overshoots r v). snd c \<le> 0)"
    using dominant_loop_spec [of None "overshoots r v"]
    by (simp add: directionOfCenterOutsideViewport_def)
  then show ?thesis by (auto simp: overshoots_def containsPoint_def Let_def)
qed

lemma overlap_center:
  fixes s w a b :: rat
  assumes "0 \<le> w" and "0 \<le> b" and "a \<le> s + w / 2" and "s + w / 2 \<le> a + b"
  shows "rangesOverlapInclusive s (s + w) a (a + b)"
  using assms by (auto simp: rangesOverlapInclusive_def)

lemma center_visible:
  assumes "0 \<le> rwidth r" and "0 \<le> rheight r" and "containsPoint v (rx r + rwidth r / 2) (ry r + rheight r / 2)"
  shows "isRectVisibleInViewport r v"
  using assms overlap_center [of "rwidth r" "rwidth v" "rx v" "rx r"] overlap_center [of "rheight r" "rheight v" "ry v" "ry r"]
  by (simp add: containsPoint_def isRectVisibleInViewport_def)

definition nonnegative_rect :: "'a raw_node_scheme \<Rightarrow> bool" where
  "nonnegative_rect node = (case nd_rect node of None \<Rightarrow> True | Some r \<Rightarrow> 0 \<le> rwidth r \<and> 0 \<le> rheight r)"

text \<open>Rejecting a target as off screen and pointing to it agree: a node whose rectangle has no
  negative side is visible on screen exactly when the scroll classification finds no direction, so every
  rejected target comes with a scroll and no visible one does.\<close>

lemma offscreen_direction_iff:
  assumes "nonnegative_rect node"
  shows "isNodeVisibleOnScreen node nodes \<longleftrightarrow> classifyOffscreenScrollDirection node nodes = None"
proof (cases "nd_rect node")
  case None
  then show ?thesis by (simp add: isNodeVisibleOnScreen_def classifyOffscreenScrollDirection_def)
next
  case (Some r)
  with assms have nn: "0 \<le> rwidth r" "0 \<le> rheight r" by (simp_all add: nonnegative_rect_def)
  let ?eff = "resolveEffectiveViewportRect node nodes"
  let ?root = "resolveViewportRect nodes r"
  have first: "(case ?eff of Some v \<Rightarrow> if \<not> isRectVisibleInViewport r v then directionOfCenterOutsideViewport r v else None
      | None \<Rightarrow> None) = None \<longleftrightarrow> isNodeVisibleInEffectiveViewport node nodes"
    using Some direction_None [of r] center_visible [OF nn]
    by (auto simp: isNodeVisibleInEffectiveViewport_def split: option.splits)
  have second: "(case ?root of Some v \<Rightarrow> if \<not> isTapPointInsideViewport r (Some v) then directionOfCenterOutsideViewport r v else None
      | None \<Rightarrow> None) = None \<longleftrightarrow> isTapPointInsideViewport r ?root"
    using direction_None [of r]
    by (auto simp: isTapPointInsideViewport_def split: option.splits if_splits)
  have "isNodeVisibleOnScreen node nodes \<longleftrightarrow>
      isNodeVisibleInEffectiveViewport node nodes \<and> isTapPointInsideViewport r ?root"
    using Some by (simp add: isNodeVisibleOnScreen_def)
  also have "\<dots> \<longleftrightarrow> classifyOffscreenScrollDirection node nodes = None"
    unfolding first [symmetric] second [symmetric] classifyOffscreenScrollDirection_def Some option.case
    by (simp add: first_some_def split: option.split)
  finally show ?thesis .
qed

definition sample_rect :: "rat \<Rightarrow> rat \<Rightarrow> rat \<Rightarrow> rat \<Rightarrow> rect" where
  "sample_rect x y w h = \<lparr>rx = x, ry = y, rwidth = w, rheight = h\<rparr>"

lemma offscreen_direction_iff_example:
  "\<not> isNodeVisibleOnScreen (blank_node\<lparr>nd_rect := Some (sample_rect 0 900 100 50)\<rparr>)
     [blank_node\<lparr>nd_type := Some ''Window'', nd_rect := Some (sample_rect 0 0 400 800)\<rparr>]"
proof -
  let ?n = "blank_node\<lparr>nd_rect := Some (sample_rect 0 900 100 50)\<rparr>"
  let ?ns = "[blank_node\<lparr>nd_type := Some ''Window'', nd_rect := Some (sample_rect 0 0 400 800)\<rparr>]"
  have "nonnegative_rect ?n" by (simp add: nonnegative_rect_def sample_rect_def)
  moreover have "classifyOffscreenScrollDirection ?n ?ns = Some ScrollDown" by code_simp
  ultimately show ?thesis using offscreen_direction_iff [of ?n ?ns] by simp
qed

section \<open>What the presentation keeps\<close>

lemma index_unique:
  "distinct (map nd_index nodes) \<Longrightarrow> m \<in> set nodes \<Longrightarrow> n \<in> set nodes \<Longrightarrow> nd_index m = nd_index n \<Longrightarrow> m = n"
  unfolding distinct_map by (meson inj_onD)

lemma visible_chain_head: "nd_index c \<notin> set visited \<Longrightarrow> nd_index c \<in> set (visible_chain nodes visited c)"
  by (subst visible_chain.simps) simp

lemma visible_chain_closed:
  "distinct (map nd_index nodes) \<Longrightarrow> c \<in> set nodes \<Longrightarrow> nd_index n \<in> set (visible_chain nodes visited c) \<Longrightarrow>
    n \<in> set nodes \<Longrightarrow> Option.bind (nd_parentIndex n) (node_at_index nodes) = Some q \<Longrightarrow>
    nd_index q \<in> set (visible_chain nodes visited c) \<union> set visited"
proof (induction nodes visited c rule: visible_chain.induct)
  case (1 nodes visited c)
  let ?visited = "nd_index c # visited"
  have new: "nd_index c \<notin> set visited"
    using 1(4) by (subst (asm) visible_chain.simps) (simp split: if_splits)
  show ?case
  proof (cases "Option.bind (nd_parentIndex c) (node_at_index nodes)")
    case None
    then have "visible_chain nodes visited c = [nd_index c]"
      using new by (subst visible_chain.simps) simp
    with 1(2-6) None index_unique [OF 1(2) 1(5) 1(3)] show ?thesis by simp
  next
    case (Some parent)
    then have chain: "visible_chain nodes visited c = nd_index c # visible_chain nodes ?visited parent"
      using new by (subst visible_chain.simps) simp
    have parent: "parent \<in> set nodes" using Some by (cases "nd_parentIndex c") (auto dest: node_at_index_mem)
    show ?thesis
    proof (cases "nd_index n = nd_index c")
      case True
      then have "n = c" by (rule index_unique [OF 1(2) 1(5) 1(3)])
      with Some 1(6) have "q = parent" by simp
      then show ?thesis
        unfolding chain using visible_chain_head [of parent ?visited nodes] by auto
    next
      case False
      with 1(4) have "nd_index n \<in> set (visible_chain nodes ?visited parent)" by (simp add: chain)
      from 1(1) [OF new Some 1(2) parent this 1(5) 1(6)] show ?thesis unfolding chain by auto
    qed
  qed
qed

definition visible_indexes :: "'a raw_node_scheme list \<Rightarrow> int set" where
  "visible_indexes nodes =
     (\<Union>n \<in> {n \<in> set nodes. isNodeVisibleInEffectiveViewport n nodes}. set (visible_chain nodes [] n))"

lemma analyze_fold:
  "fst (fold (\<lambda>node (v, off).
        if isNodeVisibleInEffectiveViewport node nodes
        then (markNodeAndAncestorsVisible nodes node v, off)
        else (v, off @ [node])) ns (v0, off0)) =
   v0 \<union> (\<Union>n \<in> {n \<in> set ns. isNodeVisibleInEffectiveViewport n nodes}. set (visible_chain nodes [] n))"
proof (induction ns arbitrary: v0 off0)
  case Nil
  then show ?case by simp
next
  case (Cons n ns)
  show ?case
    by (cases "isNodeVisibleInEffectiveViewport n nodes")
      (simp_all add: Cons.IH markNodeAndAncestorsVisible_def, auto)
qed

lemma analyze_visible: "fst (analyzeMobileSnapshotVisibility nodes) = visible_indexes nodes"
proof -
  obtain v off where f: "fold (\<lambda>node (v, off).
        if isNodeVisibleInEffectiveViewport node nodes
        then (markNodeAndAncestorsVisible nodes node v, off)
        else (v, off @ [node])) nodes ({}, []) = (v, off)"
    by (rule prod.exhaust)
  obtain m c where d: "deriveContainerHints nodes off v = (m, c)" by (rule prod.exhaust)
  have "v = visible_indexes nodes"
    using analyze_fold [of nodes nodes "{}" "[]"] unfolding f visible_indexes_def by simp
  then show ?thesis
    unfolding analyzeMobileSnapshotVisibility_def f d by (simp add: d)
qed

lemma hints_index: "nd_index (applyDerivedHiddenContentHints m n) = nd_index n"
  by (simp add: applyDerivedHiddenContentHints_def Let_def)

lemma presentation_eq:
  fixes nodes :: "snapshot_node list"
  defines "p \<equiv> buildMobileSnapshotPresentation nodes"
  shows "map nd_index (mp_nodes p) =
      (if visible_indexes nodes = {} then map nd_index nodes
       else filter (\<lambda>i. i \<in> visible_indexes nodes) (map nd_index nodes))"
    and "length (mp_nodes p) + mp_hiddenCount p = length nodes"
proof -
  obtain v off m c where a: "analyzeMobileSnapshotVisibility nodes = (v, off, m, c)" by (metis prod_cases4)
  have v: "v = visible_indexes nodes" using a analyze_visible [of nodes] by simp
  have p: "p = \<lparr>mp_nodes = map (applyDerivedHiddenContentHints m) (if v = {} then nodes else filter (\<lambda>n. nd_index n \<in> v) nodes),
      mp_hiddenCount = (if v = {} then 0 else length nodes - length (filter (\<lambda>n. nd_index n \<in> v) nodes)),
      mp_summaryLines = buildOffscreenSummaryLines
        (filter (\<lambda>n. nd_index n \<notin> c \<and> isDiscoverableOffscreenNode n) off) nodes\<rparr>" if "nodes \<noteq> []"
    using that unfolding p_def buildMobileSnapshotPresentation_def a by (simp add: Let_def)
  have empty: "p = \<lparr>mp_nodes = [], mp_hiddenCount = 0, mp_summaryLines = []\<rparr>" if "nodes = []"
    using that unfolding p_def buildMobileSnapshotPresentation_def by simp
  show "map nd_index (mp_nodes p) = (if visible_indexes nodes = {} then map nd_index nodes
       else filter (\<lambda>i. i \<in> visible_indexes nodes) (map nd_index nodes))"
    unfolding v [symmetric] using p empty
    by (cases "nodes = []") (simp_all add: hints_index comp_def filter_map)
  show "length (mp_nodes p) + mp_hiddenCount p = length nodes"
    using p empty length_filter_le [of "\<lambda>n. nd_index n \<in> v" nodes]
    by (cases "nodes = []") simp_all
qed

text \<open>The mobile presentation hides only what it counts and never a visible part of the tree: with
  unique indices, the presented and the hidden nodes add up to the snapshot, every node visible in its
  viewport is presented, and so is the parent of every presented node.\<close>

lemma presentation_keeps_visible:
  assumes "distinct (map nd_index nodes)"
  shows "length (mp_nodes (buildMobileSnapshotPresentation nodes)) +
      mp_hiddenCount (buildMobileSnapshotPresentation nodes) = length nodes \<and>
    (\<forall>n \<in> set nodes. isNodeVisibleInEffectiveViewport n nodes \<longrightarrow>
       nd_index n \<in> set (map nd_index (mp_nodes (buildMobileSnapshotPresentation nodes)))) \<and>
    (\<forall>n \<in> set nodes. nd_index n \<in> set (map nd_index (mp_nodes (buildMobileSnapshotPresentation nodes))) \<longrightarrow>
       (case Option.bind (nd_parentIndex n) (node_at_index nodes) of
          None \<Rightarrow> True
        | Some q \<Rightarrow> nd_index q \<in> set (map nd_index (mp_nodes (buildMobileSnapshotPresentation nodes)))))"
    (is "?count \<and> (\<forall>n \<in> set nodes. ?vis n \<longrightarrow> nd_index n \<in> ?shown) \<and> (\<forall>n \<in> set nodes. nd_index n \<in> ?shown \<longrightarrow> ?parent n)")
proof (intro conjI ballI impI)
  show ?count by (rule presentation_eq(2))
  have shown: "?shown = (if visible_indexes nodes = {} then nd_index ` set nodes
      else {i \<in> nd_index ` set nodes. i \<in> visible_indexes nodes})"
    unfolding presentation_eq(1) by simp
  {
    fix n assume n: "n \<in> set nodes" and vis: "?vis n"
    have "nd_index n \<in> set (visible_chain nodes [] n)" by (rule visible_chain_head) simp
    with n vis have "nd_index n \<in> visible_indexes nodes" by (auto simp: visible_indexes_def)
    with n show "nd_index n \<in> ?shown" unfolding shown by auto
  next
    fix n assume n: "n \<in> set nodes" and "nd_index n \<in> ?shown"
    show "?parent n"
    proof (cases "Option.bind (nd_parentIndex n) (node_at_index nodes)")
      case None
      then show ?thesis by simp
    next
      case (Some q)
      then have q: "q \<in> set nodes" by (cases "nd_parentIndex n") (auto dest: node_at_index_mem)
      show ?thesis
      proof (cases "visible_indexes nodes = {}")
        case True
        with Some q show ?thesis unfolding shown by simp
      next
        case False
        with \<open>nd_index n \<in> ?shown\<close> have "nd_index n \<in> visible_indexes nodes" unfolding shown by simp
        then obtain c where c: "c \<in> set nodes" "isNodeVisibleInEffectiveViewport c nodes"
          and chain: "nd_index n \<in> set (visible_chain nodes [] c)"
          by (auto simp: visible_indexes_def)
        have "nd_index q \<in> set (visible_chain nodes [] c)"
          using visible_chain_closed [OF assms c(1) chain n Some] by simp
        with c q have "nd_index q \<in> visible_indexes nodes" by (auto simp: visible_indexes_def)
        with Some q False show ?thesis unfolding shown by simp
      qed
    qed
  }
qed

definition sample_tree :: "snapshot_node list" where
  "sample_tree = attachRefs
     [blank_node\<lparr>nd_type := Some ''Window'', nd_rect := Some (sample_rect 0 0 400 800)\<rparr>,
      blank_node\<lparr>nd_index := 1, nd_parentIndex := Some 0, nd_type := Some ''ScrollView'', nd_rect := Some (sample_rect 0 0 400 800)\<rparr>,
      blank_node\<lparr>nd_index := 2, nd_parentIndex := Some 1, nd_label := Some ''In'', nd_rect := Some (sample_rect 0 10 400 50)\<rparr>,
      blank_node\<lparr>nd_index := 3, nd_parentIndex := Some 1, nd_label := Some ''Out'', nd_rect := Some (sample_rect 0 900 400 50)\<rparr>]"

lemma presentation_keeps_visible_example:
  "2 \<in> set (map nd_index (mp_nodes (buildMobileSnapshotPresentation sample_tree))) \<and>
   length (mp_nodes (buildMobileSnapshotPresentation sample_tree)) = 3"
proof -
  have "distinct (map nd_index sample_tree)" by code_simp
  from presentation_keeps_visible [OF this]
  have "length (mp_nodes (buildMobileSnapshotPresentation sample_tree)) +
      mp_hiddenCount (buildMobileSnapshotPresentation sample_tree) = length sample_tree"
    and "\<forall>n \<in> set sample_tree. isNodeVisibleInEffectiveViewport n sample_tree \<longrightarrow>
       nd_index n \<in> set (map nd_index (mp_nodes (buildMobileSnapshotPresentation sample_tree)))"
    by blast+
  moreover have "isNodeVisibleInEffectiveViewport (sample_tree ! 2) sample_tree" "nd_index (sample_tree ! 2) = 2"
    "length sample_tree = 4" "mp_hiddenCount (buildMobileSnapshotPresentation sample_tree) = 1"
    by code_simp+
  moreover have "sample_tree ! 2 \<in> set sample_tree" using \<open>length sample_tree = 4\<close> by (intro nth_mem) simp
  ultimately show ?thesis by fastforce
qed

end
