(* ===== verification/SelectorMatch.thy ===== *)
theory SelectorMatch
  imports SelectorSyntax Visibility TextFields "HOL-Library.Option_ord" "HOL-Library.Product_Lexorder"
begin

text \<open>
  Matching, finding, building and resolving selectors: \<^verbatim>\<open>src/selectors/node.ts\<close>, \<^verbatim>\<open>match.ts\<close>,
  \<^verbatim>\<open>find.ts\<close>, \<^verbatim>\<open>build.ts\<close>, \<^verbatim>\<open>resolve.ts\<close>, \<^verbatim>\<open>predicates.ts\<close>, \<^verbatim>\<open>arguments.ts\<close>, and the node identity
  of \<^verbatim>\<open>src/replay/target-identity-node.ts\<close>.

  Nodes are objects that the resolution compares by reference, so a candidate is a node with its
  position in the list. A Latin-1 string is its own NFC form, and takes one byte of UTF-8 for a code
  unit below 128 and two above.
\<close>

section \<open>Matching\<close>

definition isNodeVisible :: "'a raw_node_scheme \<Rightarrow> bool" where
  "isNodeVisible node =
     (if nd_hittable node = Some True then True
      else (case nd_rect node of None \<Rightarrow> False | Some r \<Rightarrow> rwidth r > 0 \<and> rheight r > 0))"

definition isNodeEditable :: "'a raw_node_scheme \<Rightarrow> platform \<Rightarrow> bool" where
  "isNodeEditable node p \<longleftrightarrow> isFillableType (or_empty (nd_type node)) p \<and> nd_enabled node \<noteq> Some False"

definition normalizeText :: "string \<Rightarrow> string" where
  "normalizeText value = collapse_spaces (js_lower (js_trim value))"

definition textEquals :: "string option \<Rightarrow> string \<Rightarrow> bool" where
  "textEquals value query \<longleftrightarrow> normalizeText (or_empty value) = normalizeText query"

text \<open>\<open>String\<close> and \<open>Boolean\<close> of a term's value.\<close>

fun js_String :: "selector_value \<Rightarrow> string" where
  "js_String (TextValue s) = s"
| "js_String (BoolValue b) = (if b then ''true'' else ''false'')"

fun js_Boolean :: "selector_value \<Rightarrow> bool" where
  "js_Boolean (TextValue s) = (s \<noteq> [])"
| "js_Boolean (BoolValue b) = b"

definition matchesTerm :: "'a raw_node_scheme \<Rightarrow> selector_term \<Rightarrow> platform \<Rightarrow> bool" where
  "matchesTerm node term p =
     (let v = snd term
      in case fst term of
           KId \<Rightarrow> textEquals (nd_identifier node) (js_String v)
         | KRole \<Rightarrow> textEquals (Some (normalizeType (or_empty (nd_type node)))) (js_String v)
         | KLabel \<Rightarrow> textEquals (nd_label node) (js_String v)
         | KValue \<Rightarrow> textEquals (nd_value node) (js_String v)
         | KText \<Rightarrow> textEquals (Some (extractNodeText node)) (js_String v)
         | KAppname \<Rightarrow> textEquals (nd_appName node) (js_String v)
         | KWindowtitle \<Rightarrow> textEquals (nd_windowTitle node) (js_String v)
         | KVisible \<Rightarrow> isNodeVisible node = js_Boolean v
         | KHidden \<Rightarrow> (\<not> isNodeVisible node) = js_Boolean v
         | KEditable \<Rightarrow> isNodeEditable node p = js_Boolean v
         | KSelected \<Rightarrow> (nd_selected node = Some True) = js_Boolean v
         | KFocused \<Rightarrow> (nd_focused node = Some True) = js_Boolean v
         | KEnabled \<Rightarrow> (nd_enabled node \<noteq> Some False) = js_Boolean v
         | KHittable \<Rightarrow> (nd_hittable node = Some True) = js_Boolean v)"

definition matchesSelector :: "'a raw_node_scheme \<Rightarrow> selector \<Rightarrow> platform \<Rightarrow> bool" where
  "matchesSelector node sel p = list_all (\<lambda>term. matchesTerm node term p) (sel_terms sel)"

section \<open>Finding\<close>

datatype find_locator = LocAny | LocText | LocLabel | LocValue | LocRole | LocId

definition normalizeRole :: "string \<Rightarrow> string" where
  "normalizeRole value =
     (let normalized = js_trim value
      in if normalized = [] then []
         else js_lower (remove_word_ci ''xcuielementtype'' (last_segment (\<lambda>c. c = CHR ''.'') normalized)))"

definition match_score :: "string \<Rightarrow> string \<Rightarrow> nat" where
  "match_score normalized query =
     (if normalized = [] then 0
      else if normalized = query then 2
      else if js_includes normalized query then 1
      else 0)"

definition matchText :: "string option \<Rightarrow> string \<Rightarrow> nat" where
  "matchText value query = match_score (normalizeText (or_empty value)) query"

definition matchRole :: "string option \<Rightarrow> string \<Rightarrow> nat" where
  "matchRole value query = match_score (normalizeRole (or_empty value)) query"

fun matchNode :: "'a raw_node_scheme \<Rightarrow> find_locator \<Rightarrow> string \<Rightarrow> nat" where
  "matchNode node LocRole query = matchRole (nd_type node) query"
| "matchNode node LocLabel query = matchText (nd_label node) query"
| "matchNode node LocValue query = matchText (nd_value node) query"
| "matchNode node LocId query = matchText (nd_identifier node) query"
| "matchNode node LocText query =
     max (matchText (nd_label node) query) (max (matchText (nd_value node) query) (matchText (nd_identifier node) query))"
| "matchNode node LocAny query =
     max (matchText (nd_label node) query) (max (matchText (nd_value node) query) (matchText (nd_identifier node) query))"

fun best_matches_loop ::
    "bool \<Rightarrow> find_locator \<Rightarrow> string \<Rightarrow> nat \<Rightarrow> 'a raw_node_scheme list \<Rightarrow> 'a raw_node_scheme list \<Rightarrow>
     'a raw_node_scheme list \<times> nat" where
  "best_matches_loop requireRect locator query bestScore matches [] = (matches, bestScore)"
| "best_matches_loop requireRect locator query bestScore matches (node # nodes) =
     (if requireRect \<and> nd_rect node = None
      then best_matches_loop requireRect locator query bestScore matches nodes
      else
        let score = matchNode node locator query
        in if score = 0 then best_matches_loop requireRect locator query bestScore matches nodes
           else if score > bestScore then best_matches_loop requireRect locator query score [node] nodes
           else if score = bestScore then best_matches_loop requireRect locator query bestScore (matches @ [node]) nodes
           else best_matches_loop requireRect locator query bestScore matches nodes)"

definition findBestMatchesByLocator ::
    "'a raw_node_scheme list \<Rightarrow> find_locator \<Rightarrow> string \<Rightarrow> bool \<Rightarrow> 'a raw_node_scheme list \<times> nat" where
  "findBestMatchesByLocator nodes locator query requireRect =
     (let normalizedQuery = normalizeText query
      in if normalizedQuery = [] then ([], 0)
         else best_matches_loop requireRect locator normalizedQuery 0 [] nodes)"

text \<open>The arguments of \<open>find\<close>. \<open>parseNumber\<close> is \<open>Number\<close> of a string where it is finite.\<close>

datatype find_action = FindClick | FindFocus | FindFill string | FindType string | FindGetText | FindGetAttrs
  | FindExists | FindWait "rat option"

fun isReadOnlyFindAction :: "find_action \<Rightarrow> bool" where
  "isReadOnlyFindAction FindExists = True"
| "isReadOnlyFindAction (FindWait t) = True"
| "isReadOnlyFindAction FindGetText = True"
| "isReadOnlyFindAction FindGetAttrs = True"
| "isReadOnlyFindAction _ = False"

datatype argument_error =
    FindGetUnsupported | UnsupportedFindAction string
  | FindRequiresLocator | FindRequiresValue | FindFirstAndLast

definition FIND_LOCATOR_TOKENS :: "(string \<times> find_locator) list" where
  "FIND_LOCATOR_TOKENS = [(''text'', LocText), (''label'', LocLabel), (''value'', LocValue), (''role'', LocRole), (''id'', LocId)]"

definition arg_at :: "string list \<Rightarrow> nat \<Rightarrow> string option" where
  "arg_at args i = (if i < length args then Some (args ! i) else None)"

definition parseTimeout :: "(string \<Rightarrow> rat option) \<Rightarrow> string option \<Rightarrow> rat option" where
  "parseTimeout parseNumber value = (if \<not> truthy value then None else Option.bind value parseNumber)"

definition parseFindArgs ::
    "(string \<Rightarrow> rat option) \<Rightarrow> string list \<Rightarrow> argument_error + (find_locator \<times> string \<times> find_action)" where
  "parseFindArgs parseNumber args =
     (let located = Option.bind (arg_at args 0) (map_of FIND_LOCATOR_TOKENS);
          locator = (case located of Some l \<Rightarrow> l | None \<Rightarrow> LocAny);
          queryIndex = (case located of Some l \<Rightarrow> 1 | None \<Rightarrow> 0);
          query = or_empty (arg_at args queryIndex);
          actionTokens = drop (queryIndex + 1) args
      in if length actionTokens = 0 then Inr (locator, query, FindClick)
         else
           let action = js_lower (hd actionTokens)
           in if action = ''get''
              then (let sub = map_option js_lower (arg_at actionTokens 1)
                    in if sub = Some ''text'' then Inr (locator, query, FindGetText)
                       else if sub = Some ''attrs'' then Inr (locator, query, FindGetAttrs)
                       else Inl FindGetUnsupported)
              else if action = ''wait''
              then Inr (locator, query, FindWait (parseTimeout parseNumber (arg_at actionTokens 1)))
              else if action = ''exists'' then Inr (locator, query, FindExists)
              else if action = ''click'' then Inr (locator, query, FindClick)
              else if action = ''focus'' then Inr (locator, query, FindFocus)
              else if action = ''fill'' then Inr (locator, query, FindFill (js_join '' '' (drop 1 actionTokens)))
              else if action = ''type'' then Inr (locator, query, FindType (js_join '' '' (drop 1 actionTokens)))
              else Inl (UnsupportedFindAction (hd actionTokens)))"

definition checkFindArgs ::
    "(string \<Rightarrow> rat option) \<Rightarrow> string list \<Rightarrow> bool \<Rightarrow> bool \<Rightarrow> argument_error + (find_locator \<times> string \<times> find_action)" where
  "checkFindArgs parseNumber args findFirst findLast =
     (if length args = 0 then Inl FindRequiresLocator
      else rbind (parseFindArgs parseNumber args) (\<lambda>parsed.
        if fst (snd parsed) = [] then Inl FindRequiresValue
        else if findFirst \<and> findLast then Inl FindFirstAndLast
        else Inr parsed))"

definition parseFindSelectorExpression :: "find_locator \<Rightarrow> string \<Rightarrow> selector_chain option" where
  "parseFindSelectorExpression locator query =
     (if locator \<noteq> LocAny then None
      else if \<not> js_includes query ''='' \<and> \<not> js_includes query ''||'' then None
      else tryParseSelectorChain query)"

section \<open>Identity of a node\<close>

record local_identity =
  li_id :: "string option"
  li_role :: string
  li_label :: "string option"

definition readNodeLocalIdentity :: "'a raw_node_scheme \<Rightarrow> local_identity" where
  "readNodeLocalIdentity node =
     \<lparr>li_id = map_option (\<lambda>i. truncateToUtf8Bytes i TARGET_ANNOTATION_MAX_FIELD_BYTES)
        (normalizeIdentifierField (nd_identifier node)),
      li_role = truncateToUtf8Bytes (normalizeType (or_empty (nd_type node))) TARGET_ANNOTATION_MAX_FIELD_BYTES,
      li_label = map_option (\<lambda>l. truncateToUtf8Bytes l TARGET_ANNOTATION_MAX_FIELD_BYTES)
        (normalizeLabelField (nd_label node))\<rparr>"

definition localIdentitiesEqual :: "local_identity \<Rightarrow> local_identity \<Rightarrow> bool" where
  "localIdentitiesEqual a b \<longleftrightarrow> li_id a = li_id b \<and> li_role a = li_role b \<and> li_label a = li_label b"

definition idMatchCountInTree :: "'a raw_node_scheme list \<Rightarrow> string \<Rightarrow> nat" where
  "idMatchCountInTree nodes i = length (filter (\<lambda>n. li_id (readNodeLocalIdentity n) = Some i) nodes)"

definition demoteNonUniqueLocalIdentity :: "local_identity \<Rightarrow> 'a raw_node_scheme list \<Rightarrow> local_identity" where
  "demoteNonUniqueLocalIdentity identity nodes =
     (case li_id identity of
        None \<Rightarrow> identity
      | Some i \<Rightarrow> if idMatchCountInTree nodes i \<le> 1 then identity else identity\<lparr>li_id := None\<rparr>)"

fun sibling_loop :: "'a raw_node_scheme \<Rightarrow> nat \<Rightarrow> 'a raw_node_scheme list \<Rightarrow> nat" where
  "sibling_loop node ordinal [] = 0"
| "sibling_loop node ordinal (candidate # rest) =
     (if nd_parentIndex candidate \<noteq> nd_parentIndex node then sibling_loop node ordinal rest
      else if nd_index candidate = nd_index node then ordinal
      else sibling_loop node (Suc ordinal) rest)"

definition siblingOrdinal :: "'a raw_node_scheme list \<Rightarrow> 'a raw_node_scheme \<Rightarrow> nat" where
  "siblingOrdinal nodes node = sibling_loop node 0 nodes"

definition readNodeStructuralDenotation :: "'a raw_node_scheme \<Rightarrow> 'a raw_node_scheme list \<Rightarrow> int \<times> nat" where
  "readNodeStructuralDenotation node nodes = (nd_index node, siblingOrdinal nodes node)"

definition structuralDenotationsEqual :: "int \<times> nat \<Rightarrow> int \<times> nat \<Rightarrow> bool" where
  "structuralDenotationsEqual a b \<longleftrightarrow> fst a = fst b \<and> snd a = snd b"

section \<open>Building\<close>

definition normalizeSelectorText :: "string option \<Rightarrow> string option" where
  "normalizeSelectorText value =
     (if \<not> truthy value then None
      else let t = js_trim (the value) in if t = [] then None else Some t)"

definition selectableId :: "'a raw_node_scheme \<Rightarrow> 'a raw_node_scheme list option \<Rightarrow> string option" where
  "selectableId node nodes =
     (let i = normalizeSelectorText (nd_identifier node)
      in case (i, nodes) of
           (None, _) \<Rightarrow> None
         | (_, None) \<Rightarrow> i
         | (_, Some ns) \<Rightarrow>
             (case li_id (readNodeLocalIdentity node) of
                None \<Rightarrow> i
              | Some canonicalId \<Rightarrow> if idMatchCountInTree ns canonicalId > 1 then None else i))"

fun unique_loop :: "string list \<Rightarrow> string list \<Rightarrow> string list" where
  "unique_loop seen [] = []"
| "unique_loop seen (x # xs) = (if x \<in> set seen then unique_loop seen xs else x # unique_loop (x # seen) xs)"

definition uniqueStrings :: "string list \<Rightarrow> string list" where
  "uniqueStrings values = unique_loop [] values"

datatype build_action = BuildClick | BuildFill | BuildGet

text \<open>\<open>key="value"\<close>, with \<open>JSON.stringify\<close>, and the suffix for a fill.\<close>

definition clause :: "string \<Rightarrow> string \<Rightarrow> string" where
  "clause key value = key @ ''='' @ json_quote value"

definition editable_suffix :: "bool \<Rightarrow> string" where
  "editable_suffix requireEditable = (if requireEditable then '' editable=true'' else [])"

definition buildSelectorChainForNode ::
    "'a raw_node_scheme \<Rightarrow> platform \<Rightarrow> build_action option \<Rightarrow> 'a raw_node_scheme list option \<Rightarrow> string list" where
  "buildSelectorChainForNode node p action nodes =
     (let role = normalizeType (or_empty (nd_type node));
          i = selectableId node nodes;
          label = normalizeSelectorText (nd_label node);
          value = normalizeSelectorText (nd_value node);
          t = normalizeSelectorText (Some (extractNodeText node));
          requireEditable = (action = Some BuildFill);
          sfx = editable_suffix requireEditable;
          chain0 =
            (case i of Some v \<Rightarrow> [clause ''id'' v] | None \<Rightarrow> []) @
            (case label of
               Some v \<Rightarrow> (if role \<noteq> [] then [clause ''role'' role @ '' '' @ clause ''label'' v @ sfx] else [])
             | None \<Rightarrow> []) @
            (case label of Some v \<Rightarrow> [clause ''label'' v @ sfx] | None \<Rightarrow> []) @
            (case value of Some v \<Rightarrow> [clause ''value'' v @ sfx] | None \<Rightarrow> []) @
            (case t of
               Some v \<Rightarrow> (if t \<noteq> label \<and> t \<noteq> value then [clause ''text'' v @ sfx] else [])
             | None \<Rightarrow> []);
          chain = chain0 @
            (if role \<noteq> [] \<and> requireEditable \<and> \<not> list_ex (\<lambda>entry. js_includes entry ''editable=true'') chain0
             then [clause ''role'' role @ '' editable=true''] else []);
          deduped = uniqueStrings chain;
          deduped' = (if length deduped = 0 \<and> role \<noteq> [] then deduped @ [clause ''role'' role @ sfx] else deduped)
      in if length deduped' = 0 \<and> isNodeVisible node then deduped' @ [''visible=true''] else deduped')"

section \<open>Resolving\<close>

datatype tiebreak = TieVisible | TieDeepest | TieSmallestArea

type_synonym 'a candidate = "nat \<times> 'a raw_node_scheme"

text \<open>An area, with \<open>None\<close> for the infinite one.\<close>

definition areaOfNode :: "'a raw_node_scheme \<Rightarrow> rat option" where
  "areaOfNode node = map_option (\<lambda>r. rwidth r * rheight r) (nd_rect node)"

definition smaller_area :: "rat option \<Rightarrow> rat option \<Rightarrow> bool" where
  "smaller_area a b = (case (a, b) of (None, _) \<Rightarrow> False | (Some x, None) \<Rightarrow> True | (Some x, Some y) \<Rightarrow> x < y)"

definition node_depth :: "'a raw_node_scheme \<Rightarrow> int" where
  "node_depth node = (case nd_depth node of None \<Rightarrow> 0 | Some d \<Rightarrow> d)"

definition compareDisambiguationCandidates ::
    "'a raw_node_scheme \<Rightarrow> 'a raw_node_scheme \<Rightarrow> int \<times> tiebreak option" where
  "compareDisambiguationCandidates a b =
     (if node_depth a \<noteq> node_depth b then (if node_depth a > node_depth b then 1 else - 1, Some TieDeepest)
      else if areaOfNode a \<noteq> areaOfNode b
      then (if smaller_area (areaOfNode a) (areaOfNode b) then 1 else - 1, Some TieSmallestArea)
      else (0, None))"

definition compareCandidatesWithVisibility ::
    "('a raw_node_scheme \<Rightarrow> bool) \<Rightarrow> 'a raw_node_scheme \<Rightarrow> 'a raw_node_scheme \<Rightarrow> int \<times> tiebreak option" where
  "compareCandidatesWithVisibility isVisible a b =
     (if isVisible a \<noteq> isVisible b then (if isVisible a then 1 else - 1, Some TieVisible)
      else compareDisambiguationCandidates a b)"

record 'a disambiguation_state =
  da_best :: "'a candidate option"
  da_bestVisible :: bool
  da_tie :: bool

definition accumulateDisambiguationCandidate ::
    "('a raw_node_scheme \<Rightarrow> bool) \<Rightarrow> 'a candidate \<Rightarrow> 'a disambiguation_state \<Rightarrow> 'a disambiguation_state" where
  "accumulateDisambiguationCandidate isVisible node st =
     (case da_best st of
        None \<Rightarrow> st\<lparr>da_best := Some node\<rparr>
      | Some best \<Rightarrow>
          let bestVisible = (da_bestVisible st \<or> isVisible (snd best));
              st' = st\<lparr>da_bestVisible := bestVisible\<rparr>;
              nodeVisible = isVisible (snd node)
          in if nodeVisible \<noteq> bestVisible
             then (if nodeVisible then st'\<lparr>da_best := Some node, da_bestVisible := True, da_tie := False\<rparr> else st')
             else
               let comparison = fst (compareDisambiguationCandidates (snd node) (snd best))
               in if comparison > 0 then st'\<lparr>da_best := Some node, da_tie := False\<rparr>
                  else if comparison = 0 then st'\<lparr>da_tie := True\<rparr>
                  else st')"

definition runner_up_step ::
    "('a raw_node_scheme \<Rightarrow> bool) \<Rightarrow> 'a candidate \<Rightarrow> 'a candidate \<Rightarrow> 'a candidate option \<Rightarrow> 'a candidate option" where
  "runner_up_step isVisible winner candidate runnerUp =
     (if fst candidate = fst winner then runnerUp
      else case runnerUp of
          None \<Rightarrow> Some candidate
        | Some r \<Rightarrow>
            if fst (compareCandidatesWithVisibility isVisible (snd candidate) (snd r)) > 0 then Some candidate
            else runnerUp)"

definition findDecidingTiebreak ::
    "('a raw_node_scheme \<Rightarrow> bool) \<Rightarrow> 'a candidate list \<Rightarrow> 'a candidate option \<Rightarrow> tiebreak option" where
  "findDecidingTiebreak isVisible candidates winner =
     (case winner of
        None \<Rightarrow> None
      | Some w \<Rightarrow>
          (case fold (runner_up_step isVisible w) candidates None of
             None \<Rightarrow> None
           | Some r \<Rightarrow> snd (compareCandidatesWithVisibility isVisible (snd w) (snd r))))"

record 'a match_summary =
  ms_count :: nat
  ms_firstNode :: "'a candidate option"
  ms_disambiguated :: "'a candidate option"
  ms_tiebreak :: "tiebreak option"
  ms_candidates :: "'a candidate list"

definition selector_candidates ::
    "'a raw_node_scheme list \<Rightarrow> selector \<Rightarrow> platform \<Rightarrow> bool \<Rightarrow> 'a candidate list" where
  "selector_candidates nodes sel p requireRect =
     filter (\<lambda>(i, n). (requireRect \<longrightarrow> nd_rect n \<noteq> None) \<and> matchesSelector n sel p) (List.enumerate 0 nodes)"

definition analyzeSelectorMatches ::
    "'a raw_node_scheme list \<Rightarrow> selector \<Rightarrow> platform \<Rightarrow> bool \<Rightarrow> 'a match_summary" where
  "analyzeSelectorMatches nodes sel p requireRect =
     (let isVisible = (\<lambda>n. isNodeVisibleOnScreen n nodes);
          candidates = selector_candidates nodes sel p requireRect;
          st = fold (accumulateDisambiguationCandidate isVisible) candidates
                 \<lparr>da_best = None, da_bestVisible = False, da_tie = False\<rparr>
      in \<lparr>ms_count = length candidates, ms_firstNode = first_of candidates,
          ms_disambiguated = (if da_tie st then None else da_best st),
          ms_tiebreak = (if da_tie st then None else findDecidingTiebreak isVisible candidates (da_best st)),
          ms_candidates = candidates\<rparr>)"

record 'a selector_resolution =
  sr_node :: "'a candidate"
  sr_selector :: selector
  sr_selectorIndex :: nat
  sr_matches :: nat
  sr_diagnostics :: "(string \<times> nat) list"
  sr_disambiguation :: "(nat \<times> tiebreak \<times> 'a candidate list) option"

fun resolve_loop ::
    "'a raw_node_scheme list \<Rightarrow> platform \<Rightarrow> bool \<Rightarrow> bool \<Rightarrow> bool \<Rightarrow> (string \<times> nat) list \<Rightarrow> nat \<Rightarrow> selector list \<Rightarrow>
     'a selector_resolution option" where
  "resolve_loop nodes p requireRect requireUnique disambiguate diagnostics i [] = None"
| "resolve_loop nodes p requireRect requireUnique disambiguate diagnostics i (sel # rest) =
     (let summary = analyzeSelectorMatches nodes sel p requireRect;
          diagnostics' = diagnostics @ [(sel_raw sel, ms_count summary)];
          continue = resolve_loop nodes p requireRect requireUnique disambiguate diagnostics' (Suc i) rest
      in case ms_firstNode summary of
           None \<Rightarrow> continue
         | Some first \<Rightarrow>
             if ms_count summary = 0 then continue
             else if requireUnique \<and> ms_count summary \<noteq> 1
             then (case (ms_disambiguated summary, ms_tiebreak summary) of
                     (Some node, Some tb) \<Rightarrow>
                       if \<not> disambiguate then continue
                       else Some \<lparr>sr_node = node, sr_selector = sel, sr_selectorIndex = i, sr_matches = ms_count summary,
                              sr_diagnostics = diagnostics',
                              sr_disambiguation = Some (ms_count summary, tb,
                                filter (\<lambda>c. fst c \<noteq> fst node) (ms_candidates summary))\<rparr>
                   | _ \<Rightarrow> continue)
             else Some \<lparr>sr_node = first, sr_selector = sel, sr_selectorIndex = i, sr_matches = ms_count summary,
                    sr_diagnostics = diagnostics', sr_disambiguation = None\<rparr>)"

definition resolveSelectorChain ::
    "'a raw_node_scheme list \<Rightarrow> selector_chain \<Rightarrow> platform \<Rightarrow> bool option \<Rightarrow> bool option \<Rightarrow> bool \<Rightarrow>
     'a selector_resolution option" where
  "resolveSelectorChain nodes chain p requireRect requireUnique disambiguateAmbiguous =
     resolve_loop nodes p (requireRect = Some True) (requireUnique \<noteq> Some False) disambiguateAmbiguous [] 0
       (ch_selectors chain)"

fun list_matches_loop ::
    "'a raw_node_scheme list \<Rightarrow> platform \<Rightarrow> bool \<Rightarrow> nat \<Rightarrow> selector list \<Rightarrow>
     (selector \<times> nat \<times> 'a raw_node_scheme list) option" where
  "list_matches_loop nodes p requireRect i [] = None"
| "list_matches_loop nodes p requireRect i (sel # rest) =
     (let matched = filter (\<lambda>n. if requireRect \<and> nd_rect n = None then False else matchesSelector n sel p) nodes
      in if length matched > 0 then Some (sel, i, matched)
         else list_matches_loop nodes p requireRect (Suc i) rest)"

definition listSelectorChainMatches ::
    "'a raw_node_scheme list \<Rightarrow> selector_chain \<Rightarrow> platform \<Rightarrow> bool option \<Rightarrow>
     (selector \<times> nat \<times> 'a raw_node_scheme list) option" where
  "listSelectorChainMatches nodes chain p requireRect =
     list_matches_loop nodes p (requireRect = Some True) 0 (ch_selectors chain)"

definition countSelectorMatchesOnly :: "'a raw_node_scheme list \<Rightarrow> selector \<Rightarrow> platform \<Rightarrow> bool \<Rightarrow> nat" where
  "countSelectorMatchesOnly nodes sel p requireRect =
     length (filter (\<lambda>n. (requireRect \<longrightarrow> nd_rect n \<noteq> None) \<and> matchesSelector n sel p) nodes)"

fun find_match_loop ::
    "'a raw_node_scheme list \<Rightarrow> platform \<Rightarrow> bool \<Rightarrow> (string \<times> nat) list \<Rightarrow> nat \<Rightarrow> selector list \<Rightarrow>
     (nat \<times> selector \<times> nat \<times> (string \<times> nat) list) option" where
  "find_match_loop nodes p requireRect diagnostics i [] = None"
| "find_match_loop nodes p requireRect diagnostics i (sel # rest) =
     (let matches = countSelectorMatchesOnly nodes sel p requireRect;
          diagnostics' = diagnostics @ [(sel_raw sel, matches)]
      in if matches > 0 then Some (i, sel, matches, diagnostics')
         else find_match_loop nodes p requireRect diagnostics' (Suc i) rest)"

definition findSelectorChainMatch ::
    "'a raw_node_scheme list \<Rightarrow> selector_chain \<Rightarrow> platform \<Rightarrow> bool option \<Rightarrow>
     (nat \<times> selector \<times> nat \<times> (string \<times> nat) list) option" where
  "findSelectorChainMatch nodes chain p requireRect =
     find_match_loop nodes p (requireRect = Some True) [] 0 (ch_selectors chain)"

definition formatSelectorFailure :: "selector_chain \<Rightarrow> (string \<times> nat) list \<Rightarrow> bool option \<Rightarrow> string" where
  "formatSelectorFailure chain diagnostics unique =
     (if length diagnostics = 0 then ''Selector did not match: '' @ ch_raw chain
      else
        let summary = js_join '', '' (map (\<lambda>(sel, n). sel @ '' -> '' @ nat_dec n) diagnostics)
        in if unique \<noteq> Some False then ''Selector did not resolve uniquely ('' @ summary @ '')''
           else ''Selector did not match ('' @ summary @ '')'')"

section \<open>Predicates\<close>

datatype is_predicate = IsVisible | IsHidden | IsExists | IsEditable | IsSelected | IsFocused | IsText

definition IS_PREDICATES :: "(string \<times> is_predicate) list" where
  "IS_PREDICATES = [(''visible'', IsVisible), (''hidden'', IsHidden), (''exists'', IsExists), (''editable'', IsEditable),
     (''selected'', IsSelected), (''focused'', IsFocused), (''text'', IsText)]"

definition isSupportedPredicate :: "string \<Rightarrow> bool" where
  "isSupportedPredicate input \<longleftrightarrow> map_of IS_PREDICATES input \<noteq> None"

datatype argument_refusal =
    PredicateRequired | SelectorExpressionRequired | IsTextValueRequired | TrailingValues is_predicate
  | GetFormatUnsupported | ElementTargetRequired | WaitTextRequired

definition checkIsPredicate :: "string \<Rightarrow> argument_refusal + is_predicate" where
  "checkIsPredicate raw =
     (case map_of IS_PREDICATES (js_lower raw) of None \<Rightarrow> Inl PredicateRequired | Some p \<Rightarrow> Inr p)"

fun rotate_loop :: "string list \<Rightarrow> nat \<Rightarrow> string list \<Rightarrow> string list" where
  "rotate_loop positionals i [] = positionals"
| "rotate_loop positionals i (token # rest) =
     (let candidate = js_lower token
      in if isSupportedPredicate candidate \<and>
            tryParseSelectorChain (js_join '' '' (take i positionals)) \<noteq> None
         then candidate # take i positionals @ drop (Suc i) positionals
         else rotate_loop positionals (Suc i) rest)"

definition normalizeIsPositionals :: "string list \<Rightarrow> string list" where
  "normalizeIsPositionals positionals =
     (if isSupportedPredicate (js_lower (or_empty (arg_at positionals 0))) then positionals
      else rotate_loop positionals 1 (drop 1 positionals))"

definition isUsefulVisibilityAnchor :: "'a raw_node_scheme \<Rightarrow> platform \<Rightarrow> bool" where
  "isUsefulVisibilityAnchor node p =
     (if p = PAndroid \<and> nd_visibleToUser node = Some False then False
      else
        let type = normalizeType (or_empty (nd_type node))
        in if includes_any type [''application'', ''window'', ''scrollview'', ''tableview'', ''collectionview''] \<or>
              type = ''table'' \<or> type = ''list'' \<or> type = ''listview''
           then False
           else if p = PAndroid then nd_hittable node = Some True \<and> isPositiveFiniteRect (nd_rect node)
           else nd_hittable node = Some True \<or> isPositiveFiniteRect (nd_rect node))"

definition resolveVisibilityAnchor ::
    "'a raw_node_scheme \<Rightarrow> 'a raw_node_scheme list \<Rightarrow> platform \<Rightarrow> 'a raw_node_scheme option" where
  "resolveVisibilityAnchor node nodes p =
     findSnapshotAncestor nodes node (\<lambda>parent. if isUsefulVisibilityAnchor parent p then Some parent else None)"

definition isAssertionVisible :: "'a raw_node_scheme \<Rightarrow> 'a raw_node_scheme list \<Rightarrow> platform \<Rightarrow> bool" where
  "isAssertionVisible node nodes p =
     (if p = PAndroid \<and> nd_visibleToUser node = Some False then False
      else if isPositiveFiniteRect (nd_rect node) then isNodeVisibleInEffectiveViewport node nodes
      else if nd_rect node \<noteq> None then False
      else if p \<noteq> PAndroid \<and> nd_hittable node = Some True then True
      else (case resolveVisibilityAnchor node nodes p of
              None \<Rightarrow> False
            | Some anchor \<Rightarrow>
                if \<not> isPositiveFiniteRect (nd_rect anchor)
                then p \<noteq> PAndroid \<and> nd_hittable anchor = Some True
                else isNodeVisibleInEffectiveViewport anchor nodes))"

record predicate_result =
  pr_pass :: bool
  pr_actualText :: string
  pr_visible :: bool
  pr_editable :: bool
  pr_selected :: bool
  pr_focused :: bool

text \<open>\<open>exists\<close> is settled by the resolution and does not reach this function.\<close>

definition evaluateIsPredicate ::
    "is_predicate \<Rightarrow> 'a raw_node_scheme \<Rightarrow> 'a raw_node_scheme list \<Rightarrow> string option \<Rightarrow> platform \<Rightarrow> predicate_result" where
  "evaluateIsPredicate predicate node nodes expectedText p =
     (let actualText = extractNodeText node;
          editable = isNodeEditable node p;
          selected = (nd_selected node = Some True);
          focused = (nd_focused node = Some True);
          visible = (if predicate = IsText then isNodeVisible node else isAssertionVisible node nodes p)
      in \<lparr>pr_pass =
            (case predicate of
               IsVisible \<Rightarrow> visible
             | IsHidden \<Rightarrow> \<not> visible
             | IsEditable \<Rightarrow> editable
             | IsSelected \<Rightarrow> selected
             | IsFocused \<Rightarrow> focused
             | IsText \<Rightarrow> actualText = or_empty expectedText
             | IsExists \<Rightarrow> False),
          pr_actualText = actualText, pr_visible = visible, pr_editable = editable,
          pr_selected = selected, pr_focused = focused\<rparr>)"

section \<open>Arguments\<close>

definition splitIsSelectorArgs :: "string list \<Rightarrow> string \<times> (string \<times> string list) option" where
  "splitIsSelectorArgs positionals =
     (let normalized = normalizeIsPositionals positionals;
          predicate = or_empty (arg_at normalized 0)
      in (predicate, splitSelectorFromArgs (drop 1 normalized) (predicate = ''text'')))"

definition checkIsArgs :: "string list \<Rightarrow> argument_refusal + (is_predicate \<times> string \<times> string)" where
  "checkIsArgs positionals =
     (let (rawPredicate, split) = splitIsSelectorArgs positionals
      in rbind (checkIsPredicate rawPredicate) (\<lambda>predicate.
           case split of
             None \<Rightarrow> Inl SelectorExpressionRequired
           | Some (selectorExpression, rest) \<Rightarrow>
               let expectedText = js_trim (js_join '' '' rest)
               in if predicate = IsText \<and> expectedText = [] then Inl IsTextValueRequired
                  else if predicate \<noteq> IsText \<and> length rest > 0 then Inl (TrailingValues predicate)
                  else Inr (predicate, selectorExpression, expectedText)))"

datatype get_format = GetText | GetAttrs

definition checkGetFormat :: "string option \<Rightarrow> argument_refusal + get_format" where
  "checkGetFormat value =
     (if value = Some ''text'' then Inr GetText
      else if value = Some ''attrs'' then Inr GetAttrs
      else Inl GetFormatUnsupported)"

datatype element_target = RefTarget string "string option" | SelectorTarget string

definition checkElementTargetArgs :: "string list \<Rightarrow> argument_refusal + element_target" where
  "checkElementTargetArgs positionals =
     (case arg_at positionals 0 of
        Some first \<Rightarrow>
          if take 1 first = ''@''
          then (let label = js_trim (js_join '' '' (drop 1 positionals))
                in Inr (RefTarget first (if label \<noteq> [] then Some label else None)))
          else
            let sel = js_trim (js_join '' '' positionals)
            in if sel = [] then Inl ElementTargetRequired else Inr (SelectorTarget sel)
      | None \<Rightarrow> Inl ElementTargetRequired)"

definition checkWaitText :: "string option \<Rightarrow> argument_refusal + string" where
  "checkWaitText t = (if \<not> truthy t then Inl WaitTextRequired else Inr (the t))"

section \<open>A built selector finds its node\<close>

lemma normalizeText_trim [simp]: "normalizeText (js_trim s) = normalizeText s"
  by (simp add: normalizeText_def)

lemma textEquals_refl: "textEquals (Some s) s"
  by (simp add: textEquals_def or_empty_def)

lemma normalizeSelectorText_Some:
  "normalizeSelectorText v = Some t \<Longrightarrow> \<exists>s. v = Some s \<and> t = js_trim s \<and> t \<noteq> []"
  by (cases v) (auto simp: normalizeSelectorText_def Let_def split: if_splits)

lemma textEquals_normalized: "normalizeSelectorText v = Some t \<Longrightarrow> textEquals v t"
  using normalizeSelectorText_Some [of v t] by (auto simp: textEquals_def or_empty_def)

lemma uniqueStrings_subset: "set (uniqueStrings xs) \<subseteq> set xs"
proof -
  have "set (unique_loop seen xs) \<subseteq> set xs" for seen
    by (induction xs arbitrary: seen) (auto split: if_splits)
  then show ?thesis by (simp add: uniqueStrings_def)
qed

lemma unique_loop_nonempty: "xs \<noteq> [] \<Longrightarrow> hd (uniqueStrings xs) = hd xs \<and> uniqueStrings xs \<noteq> []"
  by (cases xs) (simp_all add: uniqueStrings_def)

text \<open>An entry of the chain, as the terms it was written from.\<close>

definition built_from :: "'a raw_node_scheme \<Rightarrow> platform \<Rightarrow> string \<Rightarrow> bool" where
  "built_from node p entry \<longleftrightarrow>
     (\<exists>ts. ts \<noteq> [] \<and> list_all wf_term ts \<and> entry = format_selector ts \<and> list_all (\<lambda>t. matchesTerm node t p) ts)"

lemma format_clause:
  "format_selector [(KId, TextValue v)] = clause ''id'' v"
  "format_selector [(KRole, TextValue v)] = clause ''role'' v"
  "format_selector [(KLabel, TextValue v)] = clause ''label'' v"
  "format_selector [(KValue, TextValue v)] = clause ''value'' v"
  "format_selector [(KText, TextValue v)] = clause ''text'' v"
  "format_selector [(KVisible, BoolValue True)] = ''visible=true''"
  by (simp_all add: format_selector_def format_term_def clause_def)

lemma format_selector_snoc:
  "ts \<noteq> [] \<Longrightarrow> format_selector (ts @ [t]) = format_selector ts @ '' '' @ format_term t"
  by (induction ts rule: induct_list012) (simp_all add: format_selector_def js_join_def)

lemma built_single:
  assumes "wf_term t" and "matchesTerm node t p"
  shows "built_from node p (format_selector [t])"
  unfolding built_from_def using assms by (intro exI [of _ "[t]"]) simp

lemma built_suffix:
  assumes "built_from node p entry" and "requireEditable \<Longrightarrow> isNodeEditable node p"
  shows "built_from node p (entry @ editable_suffix requireEditable)"
proof (cases requireEditable)
  case True
  from assms(1) obtain ts where ts: "ts \<noteq> []" "list_all wf_term ts" "entry = format_selector ts"
    "list_all (\<lambda>t. matchesTerm node t p) ts" unfolding built_from_def by blast
  have wf: "wf_term (KEditable, BoolValue True)" by (simp add: is_text_key_def TEXT_KEYS_def)
  have "matchesTerm node (KEditable, BoolValue True) p"
    using assms(2) True by (simp add: matchesTerm_def)
  moreover have "format_selector (ts @ [(KEditable, BoolValue True)]) = entry @ editable_suffix requireEditable"
    using True ts(1,3) by (simp add: format_selector_snoc format_term_def editable_suffix_def)
  ultimately show ?thesis
    unfolding built_from_def using ts wf by (intro exI [of _ "ts @ [(KEditable, BoolValue True)]"]) simp
next
  case False
  with assms(1) show ?thesis by (simp add: editable_suffix_def)
qed

lemma text_keys_wf:
  "wf_term (KId, TextValue v)" "wf_term (KRole, TextValue v)" "wf_term (KLabel, TextValue v)"
  "wf_term (KValue, TextValue v)" "wf_term (KText, TextValue v)" "wf_term (KVisible, BoolValue True)"
  by (simp_all add: is_text_key_def TEXT_KEYS_def)

lemma built_clauses:
  assumes "requireEditable \<Longrightarrow> isNodeEditable node p"
  defines "sfx \<equiv> editable_suffix requireEditable"
  shows "normalizeSelectorText (nd_identifier node) = Some v \<Longrightarrow> built_from node p (clause ''id'' v)"
    and "normalizeSelectorText (nd_label node) = Some v \<Longrightarrow> built_from node p (clause ''label'' v @ sfx)"
    and "normalizeSelectorText (nd_value node) = Some v \<Longrightarrow> built_from node p (clause ''value'' v @ sfx)"
    and "normalizeSelectorText (Some (extractNodeText node)) = Some v \<Longrightarrow> built_from node p (clause ''text'' v @ sfx)"
    and "built_from node p (clause ''role'' (normalizeType (or_empty (nd_type node))) @ sfx)"
    and "normalizeSelectorText (nd_label node) = Some v \<Longrightarrow>
      built_from node p (clause ''role'' (normalizeType (or_empty (nd_type node))) @ '' '' @ clause ''label'' v @ sfx)"
    and "isNodeVisible node \<Longrightarrow> built_from node p ''visible=true''"
proof -
  let ?role = "normalizeType (or_empty (nd_type node))"
  note single = built_single [where node = node and p = p]
  show "built_from node p (clause ''id'' v)" if "normalizeSelectorText (nd_identifier node) = Some v"
    using that single [OF text_keys_wf(1) [of v]]
    by (simp add: format_clause matchesTerm_def textEquals_normalized)
  show "built_from node p (clause ''label'' v @ sfx)" if "normalizeSelectorText (nd_label node) = Some v"
    unfolding sfx_def using that single [OF text_keys_wf(3) [of v]] assms(1)
    by (intro built_suffix) (simp_all add: format_clause matchesTerm_def textEquals_normalized)
  show "built_from node p (clause ''value'' v @ sfx)" if "normalizeSelectorText (nd_value node) = Some v"
    unfolding sfx_def using that single [OF text_keys_wf(4) [of v]] assms(1)
    by (intro built_suffix) (simp_all add: format_clause matchesTerm_def textEquals_normalized)
  show "built_from node p (clause ''text'' v @ sfx)" if "normalizeSelectorText (Some (extractNodeText node)) = Some v"
    unfolding sfx_def using that single [OF text_keys_wf(5) [of v]] assms(1)
    by (intro built_suffix) (simp_all add: format_clause matchesTerm_def textEquals_normalized)
  show "built_from node p (clause ''role'' ?role @ sfx)"
    unfolding sfx_def using single [OF text_keys_wf(2) [of ?role]] assms(1)
    by (intro built_suffix) (simp_all add: format_clause matchesTerm_def textEquals_refl)
  show "built_from node p (clause ''role'' ?role @ '' '' @ clause ''label'' v @ sfx)"
    if "normalizeSelectorText (nd_label node) = Some v"
  proof -
    have "format_selector [(KRole, TextValue ?role), (KLabel, TextValue v)] = clause ''role'' ?role @ '' '' @ clause ''label'' v"
      by (simp add: format_selector_def js_join_def format_term_def clause_def)
    then have "built_from node p (clause ''role'' ?role @ '' '' @ clause ''label'' v)"
      unfolding built_from_def using that text_keys_wf(2) [of ?role] text_keys_wf(3) [of v]
      by (intro exI [of _ "[(KRole, TextValue ?role), (KLabel, TextValue v)]"])
        (simp add: matchesTerm_def textEquals_normalized textEquals_refl)
    from built_suffix [OF this, of requireEditable] assms(1) show ?thesis by (simp add: sfx_def)
  qed
  show "built_from node p ''visible=true''" if "isNodeVisible node"
    using that single [OF text_keys_wf(6)] by (simp add: format_clause matchesTerm_def)
qed

lemma selectableId_Some: "selectableId node nodes = Some v \<Longrightarrow> normalizeSelectorText (nd_identifier node) = Some v"
  by (auto simp: selectableId_def Let_def split: option.splits if_splits)

lemma build_chain_built:
  assumes "action = Some BuildFill \<Longrightarrow> isNodeEditable node p"
    and "entry \<in> set (buildSelectorChainForNode node p action nodes)"
  shows "built_from node p entry"
proof -
  define role where "role = normalizeType (or_empty (nd_type node))"
  define fill where "fill = (action = Some BuildFill)"
  define sfx where "sfx = editable_suffix fill"
  note clauses = built_clauses [where node = node and p = p and requireEditable = fill, folded role_def sfx_def]
  have fill: "fill \<Longrightarrow> isNodeEditable node p" using assms(1) by (simp add: fill_def)
  have sfx: "fill \<Longrightarrow> sfx = '' editable=true''" by (simp add: sfx_def editable_suffix_def)
  define chain0 where "chain0 =
      (case selectableId node nodes of Some v \<Rightarrow> [clause ''id'' v] | None \<Rightarrow> []) @
      (case normalizeSelectorText (nd_label node) of
         Some v \<Rightarrow> (if role \<noteq> [] then [clause ''role'' role @ '' '' @ clause ''label'' v @ sfx] else [])
       | None \<Rightarrow> []) @
      (case normalizeSelectorText (nd_label node) of Some v \<Rightarrow> [clause ''label'' v @ sfx] | None \<Rightarrow> []) @
      (case normalizeSelectorText (nd_value node) of Some v \<Rightarrow> [clause ''value'' v @ sfx] | None \<Rightarrow> []) @
      (case normalizeSelectorText (Some (extractNodeText node)) of
         Some v \<Rightarrow> (if normalizeSelectorText (Some (extractNodeText node)) \<noteq> normalizeSelectorText (nd_label node) \<and>
             normalizeSelectorText (Some (extractNodeText node)) \<noteq> normalizeSelectorText (nd_value node)
           then [clause ''text'' v @ sfx] else [])
       | None \<Rightarrow> [])"
  have chain0: "built_from node p e" if "e \<in> set chain0" for e
    using that clauses [OF fill] selectableId_Some [of node nodes]
    unfolding chain0_def
    by (cases "selectableId node nodes"; cases "normalizeSelectorText (nd_label node)";
        cases "normalizeSelectorText (nd_value node)"; cases "normalizeSelectorText (Some (extractNodeText node))")
      (auto split: if_splits)
  define chain where "chain = chain0 @
      (if role \<noteq> [] \<and> fill \<and> \<not> list_ex (\<lambda>entry. js_includes entry ''editable=true'') chain0
       then [clause ''role'' role @ '' editable=true''] else [])"
  have chain: "built_from node p e" if "e \<in> set chain" for e
    using that chain0 [of e] clauses(5) [OF fill] sfx unfolding chain_def by (auto split: if_splits)
  have "set (buildSelectorChainForNode node p action nodes) \<subseteq>
      set (uniqueStrings chain) \<union> {clause ''role'' role @ sfx} \<union> (if isNodeVisible node then {''visible=true''} else {})"
    unfolding buildSelectorChainForNode_def Let_def role_def [symmetric] fill_def [symmetric] sfx_def [symmetric]
      chain0_def [symmetric] chain_def [symmetric]
    by (auto split: if_splits)
  then show ?thesis
    using assms(2) uniqueStrings_subset [of chain] chain clauses(5) [OF fill] clauses(7) [OF fill]
    by (auto split: if_splits)
qed

text \<open>C36. A recorded selector finds its node: every selector built for a node parses, to itself, and its
  one alternative matches that node, whatever texts the node carries; for a fill, which asks for an
  editable node, when the node is editable.\<close>

theorem built_selectors_match:
  assumes "action = Some BuildFill \<Longrightarrow> isNodeEditable node p"
    and "entry \<in> set (buildSelectorChainForNode node p action nodes)"
  shows "case parseSelectorChain entry of
     Inl e \<Rightarrow> False
   | Inr chain \<Rightarrow> ch_raw chain = entry \<and> length (ch_selectors chain) = 1 \<and>
       matchesSelector node (hd (ch_selectors chain)) p"
proof -
  obtain ts where ts: "ts \<noteq> []" "list_all wf_term ts" "entry = format_selector ts"
    "list_all (\<lambda>t. matchesTerm node t p) ts"
    using build_chain_built [OF assms] unfolding built_from_def by blast
  have "format_chain [ts] = entry" by (simp add: format_chain_def ts(3))
  then have "parseSelectorChain entry = Inr \<lparr>ch_raw = entry,
      ch_selectors = [\<lparr>sel_raw = format_selector ts, sel_terms = ts\<rparr>]\<rparr>"
    using chain_roundtrip [of "[ts]"] ts(1,2) by simp
  with ts(4) show ?thesis by (simp add: matchesSelector_def)
qed

definition quoted_node :: raw_node where
  "quoted_node = blank_node\<lparr>nd_type := Some ''XCUIElementTypeButton'', nd_label := Some '' say \"hi\" || go '',
     nd_identifier := Some ''ok''\<rparr>"

theorem built_selectors_match_witness:
  "case parseSelectorChain (buildSelectorChainForNode quoted_node PIos (Some BuildClick) None ! 1) of
     Inl e \<Rightarrow> False
   | Inr chain \<Rightarrow> matchesSelector quoted_node (hd (ch_selectors chain)) PIos"
proof -
  have "length (buildSelectorChainForNode quoted_node PIos (Some BuildClick) None) = 3" by code_simp
  then have "buildSelectorChainForNode quoted_node PIos (Some BuildClick) None ! 1 \<in>
      set (buildSelectorChainForNode quoted_node PIos (Some BuildClick) None)"
    by (intro nth_mem) simp
  from built_selectors_match [OF _ this] show ?thesis by (simp split: sum.splits)
qed

text \<open>An identifier demoted for being shared comes back as text: for a node without label and value
  whose identifier other nodes carry too, the chain built for a click still starts with that identifier,
  as a \<open>text\<close> selector, which every such node of the tree matches.\<close>

lemma demoted_id_returns_as_text:
  fixes node :: "'a raw_node_scheme"
  assumes "normalizeSelectorText (nd_identifier node) = Some i" and "trimText (nd_label node) = []"
    and "trimText (nd_value node) = []" and "selectableId node (Some nodes) = None"
  shows "hd (buildSelectorChainForNode node p (Some BuildClick) (Some nodes)) = clause ''text'' i \<and>
    (\<forall>n \<in> set nodes. nd_identifier n = nd_identifier node \<and> trimText (nd_label n) = [] \<and> trimText (nd_value n) = [] \<longrightarrow>
       matchesTerm n (KText, TextValue i) p)"
proof -
  obtain s where s: "nd_identifier node = Some s" and i: "i = js_trim s" "i \<noteq> []"
    using normalizeSelectorText_Some [OF assms(1)] by blast
  have none: "normalizeSelectorText (nd_label node) = None" "normalizeSelectorText (nd_value node) = None"
    using assms(2,3) by (auto simp: normalizeSelectorText_def trimText_def Let_def split: option.splits)
  have node_text: "extractNodeText n = i"
    if "nd_identifier n = Some s" "trimText (nd_label n) = []" "trimText (nd_value n) = []" for n :: "'a raw_node_scheme"
    using that i by (simp add: extractNodeText_def text_candidates_def trimText_def first_of_def or_empty_def)
  have "normalizeSelectorText (Some (extractNodeText node)) = Some i"
    using node_text [OF s assms(2,3)] i by (simp add: normalizeSelectorText_def Let_def)
  then have "hd (buildSelectorChainForNode node p (Some BuildClick) (Some nodes)) = clause ''text'' i"
    unfolding buildSelectorChainForNode_def Let_def assms(4) none
    using unique_loop_nonempty [of "[clause ''text'' i]"] by (simp add: editable_suffix_def)
  moreover have "matchesTerm n (KText, TextValue i) p"
    if "nd_identifier n = nd_identifier node" "trimText (nd_label n) = []" "trimText (nd_value n) = []"
    for n :: "'a raw_node_scheme"
    using node_text [of n] that s by (simp add: matchesTerm_def textEquals_refl)
  ultimately show ?thesis by blast
qed

definition shared_rows :: "raw_node list" where
  "shared_rows = [blank_node\<lparr>nd_identifier := Some ''row''\<rparr>, blank_node\<lparr>nd_index := 1, nd_identifier := Some ''row''\<rparr>]"

lemma demoted_id_returns_as_text_example:
  "hd (buildSelectorChainForNode (hd shared_rows) PAndroid (Some BuildClick) (Some shared_rows)) = ''text=\"row\"'' \<and>
   matchesTerm (shared_rows ! 1) (KText, TextValue ''row'') PAndroid"
proof -
  have "normalizeSelectorText (nd_identifier (hd shared_rows)) = Some ''row''" "trimText (nd_label (hd shared_rows)) = []"
    "trimText (nd_value (hd shared_rows)) = []" "selectableId (hd shared_rows) (Some shared_rows) = None"
    by code_simp+
  note demoted = demoted_id_returns_as_text [OF this, of PAndroid]
  moreover have "clause ''text'' ''row'' = ''text=\"row\"''" by code_simp
  moreover have "shared_rows ! 1 \<in> set shared_rows" by (intro nth_mem) (simp add: shared_rows_def)
  moreover have "nd_identifier (shared_rows ! 1) = nd_identifier (hd shared_rows)" "trimText (nd_label (shared_rows ! 1)) = []"
    "trimText (nd_value (shared_rows ! 1)) = []" by code_simp+
  ultimately show ?thesis by simp
qed

section \<open>The best text matches\<close>

definition rect_ok :: "bool \<Rightarrow> 'a raw_node_scheme \<Rightarrow> bool" where
  "rect_ok requireRect n \<longleftrightarrow> (requireRect \<longrightarrow> nd_rect n \<noteq> None)"

lemma best_matches_loop_spec:
  "best_matches_loop rr loc q b ms ns = (ms', b') \<Longrightarrow>
   b \<le> b' \<and> (\<forall>n \<in> set ns. rect_ok rr n \<longrightarrow> matchNode n loc q \<le> b') \<and>
   ms' = (if b' = b then ms else []) @ filter (\<lambda>n. rect_ok rr n \<and> 0 < matchNode n loc q \<and> matchNode n loc q = b') ns \<and>
   (b < b' \<longrightarrow> (\<exists>n \<in> set ns. rect_ok rr n \<and> matchNode n loc q = b'))"
proof (induction rr loc q b ms ns rule: best_matches_loop.induct)
  case (1 rr loc q b ms)
  then show ?case by simp
next
  case (2 rr loc q b ms n ns)
  consider (rect) "\<not> rect_ok rr n" | (zero) "rect_ok rr n" "matchNode n loc q = 0"
    | (better) "rect_ok rr n" "matchNode n loc q \<noteq> 0" "b < matchNode n loc q"
    | (equal) "rect_ok rr n" "matchNode n loc q \<noteq> 0" "matchNode n loc q = b"
    | (worse) "rect_ok rr n" "matchNode n loc q \<noteq> 0" "matchNode n loc q < b"
    by linarith
  then show ?case
  proof cases
    case rect
    then have "rr \<and> nd_rect n = None" by (simp add: rect_ok_def)
    with 2(1) 2(6) rect show ?thesis by simp
  next
    case zero
    then have "\<not> (rr \<and> nd_rect n = None)" by (auto simp: rect_ok_def)
    with 2(2) [OF this refl] 2(6) zero show ?thesis by simp
  next
    case better
    then have r: "\<not> (rr \<and> nd_rect n = None)" by (auto simp: rect_ok_def)
    then have run: "best_matches_loop rr loc q (matchNode n loc q) [n] ns = (ms', b')"
      using 2(6) better by (simp only: best_matches_loop.simps if_False Let_def if_True)
    from 2(3) [OF r refl better(2) better(3) run] better show ?thesis by auto
  next
    case equal
    then have r: "\<not> (rr \<and> nd_rect n = None)" by (auto simp: rect_ok_def)
    have "\<not> b < matchNode n loc q" using equal by simp
    moreover from r this have run: "best_matches_loop rr loc q b (ms @ [n]) ns = (ms', b')"
      using 2(6) equal by (simp only: best_matches_loop.simps if_False Let_def if_True refl)
    ultimately have "b \<le> b' \<and> (\<forall>n \<in> set ns. rect_ok rr n \<longrightarrow> matchNode n loc q \<le> b') \<and>
      ms' = (if b' = b then ms @ [n] else []) @ filter (\<lambda>n. rect_ok rr n \<and> 0 < matchNode n loc q \<and> matchNode n loc q = b') ns \<and>
      (b < b' \<longrightarrow> (\<exists>n \<in> set ns. rect_ok rr n \<and> matchNode n loc q = b'))"
      using 2(4) [OF r refl equal(2) _ equal(3)] by blast
    with equal show ?thesis by auto
  next
    case worse
    then have r: "\<not> (rr \<and> nd_rect n = None)" by (auto simp: rect_ok_def)
    have lt: "\<not> b < matchNode n loc q" "matchNode n loc q \<noteq> b" using worse by simp_all
    with r have run: "best_matches_loop rr loc q b ms ns = (ms', b')"
      using 2(6) worse(2) by (simp only: best_matches_loop.simps if_False Let_def if_True)
    from 2(5) [OF r refl worse(2) lt run] worse show ?thesis by auto
  qed
qed

text \<open>A find returns all its best matches and nothing else: the score it reports is the best score of
  a node (with a rectangle, when one is required), the matches are exactly the nodes with that score in
  document order, and an empty query or a score of zero matches nothing.\<close>

lemma find_best_matches:
  "case findBestMatchesByLocator nodes locator query requireRect of (matches, score) \<Rightarrow>
     matches = filter (\<lambda>n. rect_ok requireRect n \<and> 0 < score \<and>
       matchNode n locator (normalizeText query) = score) nodes \<and>
     (normalizeText query \<noteq> [] \<longrightarrow>
       (\<forall>n \<in> set nodes. rect_ok requireRect n \<longrightarrow> matchNode n locator (normalizeText query) \<le> score)) \<and>
     (score = 0 \<longleftrightarrow> matches = [])"
proof (cases "normalizeText query = []")
  case True
  then show ?thesis by (simp add: findBestMatchesByLocator_def)
next
  case False
  obtain ms b where run: "best_matches_loop requireRect locator (normalizeText query) 0 [] nodes = (ms, b)"
    by (rule prod.exhaust)
  note spec = best_matches_loop_spec [OF run]
  have "findBestMatchesByLocator nodes locator query requireRect = (ms, b)"
    using False run by (simp add: findBestMatchesByLocator_def)
  moreover have "ms = filter (\<lambda>n. rect_ok requireRect n \<and> 0 < b \<and> matchNode n locator (normalizeText query) = b) nodes"
    using spec by (auto intro: filter_cong)
  ultimately show ?thesis using spec False by (auto simp: filter_empty_conv)
qed

lemma find_best_matches_example:
  "case findBestMatchesByLocator shared_rows LocId ''ROW'' False of (matches, score) \<Rightarrow> matches \<noteq> []"
proof -
  let ?n = "hd shared_rows"
  have n: "matchNode ?n LocId (normalizeText ''ROW'') = 2" "normalizeText ''ROW'' \<noteq> []" "rect_ok False ?n"
    by code_simp+
  have mem: "?n \<in> set shared_rows" by (simp add: shared_rows_def)
  obtain ms b where run: "findBestMatchesByLocator shared_rows LocId ''ROW'' False = (ms, b)" by (rule prod.exhaust)
  note best = find_best_matches [where nodes = shared_rows and locator = LocId and query = "''ROW''" and requireRect = False,
      unfolded run prod.case]
  from best n mem have "2 \<le> b" by metis
  with best have "ms \<noteq> []" by (metis not_numeral_le_zero)
  then show ?thesis by (simp only: run prod.case) simp
qed

section \<open>Disambiguation\<close>

text \<open>The ranking of candidates as a linear order.\<close>

definition candidate_key :: "('a raw_node_scheme \<Rightarrow> bool) \<Rightarrow> 'a raw_node_scheme \<Rightarrow> bool \<times> int \<times> rat option" where
  "candidate_key vis n = (vis n, node_depth n, map_option uminus (areaOfNode n))"

lemma smaller_area_iff: "smaller_area a b \<longleftrightarrow> map_option uminus b < map_option uminus a"
  by (cases a; cases b) (simp_all add: smaller_area_def)

lemma option_uminus_inject: "map_option uminus a = map_option uminus b \<longleftrightarrow> a = (b :: rat option)"
  by (cases a; cases b) simp_all

lemma compare_key:
  "fst (compareCandidatesWithVisibility vis a b) =
     (if candidate_key vis a = candidate_key vis b then 0
      else if candidate_key vis b < candidate_key vis a then 1 else - 1)"
  by (auto simp: compareCandidatesWithVisibility_def compareDisambiguationCandidates_def candidate_key_def
      smaller_area_iff option_uminus_inject)

lemma compare_criterion:
  "snd (compareCandidatesWithVisibility vis a b) = None \<longleftrightarrow> candidate_key vis a = candidate_key vis b"
  by (auto simp: compareCandidatesWithVisibility_def compareDisambiguationCandidates_def candidate_key_def
      option_uminus_inject)

definition disambiguation_inv ::
    "('a raw_node_scheme \<Rightarrow> bool) \<Rightarrow> 'a candidate list \<Rightarrow> 'a disambiguation_state \<Rightarrow> bool" where
  "disambiguation_inv vis L st \<longleftrightarrow>
     (case da_best st of
        None \<Rightarrow> L = [] \<and> \<not> da_bestVisible st \<and> \<not> da_tie st
      | Some w \<Rightarrow> w \<in> set L \<and> (\<forall>c \<in> set L. candidate_key vis (snd c) \<le> candidate_key vis (snd w)) \<and>
          (da_tie st \<longleftrightarrow> (\<exists>c \<in> set L. c \<noteq> w \<and> candidate_key vis (snd c) = candidate_key vis (snd w))) \<and>
          (da_bestVisible st \<longrightarrow> vis (snd w)))"

lemma disambiguation_step:
  assumes "disambiguation_inv vis L st" and "n \<notin> set L"
  shows "disambiguation_inv vis (L @ [n]) (accumulateDisambiguationCandidate vis n st)"
proof (cases "da_best st")
  case None
  with assms show ?thesis
    by (simp add: disambiguation_inv_def accumulateDisambiguationCandidate_def)
next
  case (Some w)
  let ?k = "\<lambda>c :: 'a candidate. candidate_key vis (snd c)"
  from assms(1) Some have inv: "w \<in> set L" "\<forall>c \<in> set L. ?k c \<le> ?k w"
    "da_tie st \<longleftrightarrow> (\<exists>c \<in> set L. c \<noteq> w \<and> ?k c = ?k w)" "da_bestVisible st \<longrightarrow> vis (snd w)"
    by (simp_all add: disambiguation_inv_def)
  have vis: "(da_bestVisible st \<or> vis (snd w)) = vis (snd w)" using inv(4) by blast
  have cmp: "fst (compareDisambiguationCandidates (snd n) (snd w)) =
      (if ?k n = ?k w then 0 else if ?k w < ?k n then 1 else - 1)" if "vis (snd n) = vis (snd w)"
    using compare_key [of vis "snd n" "snd w"] that by (simp add: compareCandidatesWithVisibility_def)
  have acc: "accumulateDisambiguationCandidate vis n st =
      (if ?k w < ?k n then st\<lparr>da_bestVisible := vis (snd n), da_best := Some n, da_tie := False\<rparr>
       else if ?k n = ?k w then st\<lparr>da_bestVisible := vis (snd w), da_tie := True\<rparr>
       else st\<lparr>da_bestVisible := vis (snd w)\<rparr>)"
  proof (cases "vis (snd n) = vis (snd w)")
    case True
    then show ?thesis
      using cmp [OF True] Some
      unfolding accumulateDisambiguationCandidate_def option.case Let_def Some vis by simp
  next
    case False
    then have "?k w < ?k n \<longleftrightarrow> vis (snd n)" "?k n \<noteq> ?k w"
      by (auto simp: candidate_key_def)
    with False Some show ?thesis
      unfolding accumulateDisambiguationCandidate_def option.case Let_def Some vis by simp
  qed
  consider (win) "?k w < ?k n" | (tie) "?k n = ?k w" | (lose) "?k n < ?k w" by fastforce
  then show ?thesis
  proof cases
    case win
    then have "?k c < ?k n" if "c \<in> set L" for c using inv(2) that by (meson le_less_trans)
    then have below: "?k c \<le> ?k n" and "?k c \<noteq> ?k n" if "c \<in> set L" for c
      using that by (simp_all add: less_imp_le less_imp_neq)
    with win show ?thesis by (auto simp: acc disambiguation_inv_def)
  next
    case tie
    with inv assms(2) Some show ?thesis by (auto simp: acc disambiguation_inv_def)
  next
    case lose
    then have "?k n \<noteq> ?k w" "\<not> ?k w < ?k n" "?k n \<le> ?k w" by auto
    with inv Some show ?thesis by (auto simp: acc disambiguation_inv_def)
  qed
qed

lemma disambiguation_run:
  "disambiguation_inv vis L st \<Longrightarrow> distinct (L @ M) \<Longrightarrow>
   disambiguation_inv vis (L @ M) (fold (accumulateDisambiguationCandidate vis) M st)"
proof (induction M arbitrary: L st)
  case Nil
  then show ?case by simp
next
  case (Cons n M)
  then have "disambiguation_inv vis (L @ [n]) (accumulateDisambiguationCandidate vis n st)"
    by (intro disambiguation_step) simp_all
  from Cons.IH [OF this] Cons.prems(2) show ?case by simp
qed

definition outranks :: "'a raw_node_scheme list \<Rightarrow> 'a candidate \<Rightarrow> 'a candidate \<Rightarrow> bool" where
  "outranks nodes a b \<longleftrightarrow>
     fst (compareCandidatesWithVisibility (\<lambda>n. isNodeVisibleOnScreen n nodes) (snd a) (snd b)) > 0"

lemma outranks_key:
  "outranks nodes a b \<longleftrightarrow> candidate_key (\<lambda>n. isNodeVisibleOnScreen n nodes) (snd b) <
     candidate_key (\<lambda>n. isNodeVisibleOnScreen n nodes) (snd a)"
  by (simp add: outranks_def compare_key)

lemma distinct_candidates: "distinct (selector_candidates nodes sel p rr)"
  and candidates_inject: "c \<in> set (selector_candidates nodes sel p rr) \<Longrightarrow>
    d \<in> set (selector_candidates nodes sel p rr) \<Longrightarrow> fst c = fst d \<Longrightarrow> c = d"
proof -
  have "distinct (List.enumerate 0 nodes)" by (rule distinct_enumerate)
  then show "distinct (selector_candidates nodes sel p rr)"
    unfolding selector_candidates_def by (rule distinct_filter)
  have "c = (fst c, nodes ! fst c)" if "c \<in> set (selector_candidates nodes sel p rr)" for c
    using that unfolding selector_candidates_def by (simp add: in_set_enumerate_eq prod_eq_iff)
  then show "c = d" if "c \<in> set (selector_candidates nodes sel p rr)" "d \<in> set (selector_candidates nodes sel p rr)" "fst c = fst d"
    using that by metis
qed

text \<open>The best candidate of a list is the one that outranks every other.\<close>

lemma analyze_disambiguated:
  "ms_disambiguated (analyzeSelectorMatches nodes sel p rr) = Some w \<longleftrightarrow>
     w \<in> set (selector_candidates nodes sel p rr) \<and>
     (\<forall>c \<in> set (selector_candidates nodes sel p rr). c \<noteq> w \<longrightarrow> outranks nodes w c)"
proof -
  let ?vis = "\<lambda>n. isNodeVisibleOnScreen n nodes"
  let ?cs = "selector_candidates nodes sel p rr"
  let ?st = "fold (accumulateDisambiguationCandidate ?vis) ?cs
      \<lparr>da_best = None, da_bestVisible = False, da_tie = False\<rparr>"
  have inv: "disambiguation_inv ?vis ?cs ?st"
    using disambiguation_run [of ?vis "[]" "\<lparr>da_best = None, da_bestVisible = False, da_tie = False\<rparr>" ?cs]
      distinct_candidates [of nodes sel p rr]
    by (simp add: disambiguation_inv_def)
  have eq: "ms_disambiguated (analyzeSelectorMatches nodes sel p rr) = (if da_tie ?st then None else da_best ?st)"
    by (simp add: analyzeSelectorMatches_def Let_def)
  show ?thesis
  proof (cases "da_best ?st")
    case None
    then have "?cs = []" using inv by (simp add: disambiguation_inv_def)
    with None show ?thesis unfolding eq by simp
  next
    case (Some v)
    let ?k = "\<lambda>c. candidate_key ?vis (snd c)"
    from inv Some have v: "v \<in> set ?cs" "\<forall>c \<in> set ?cs. ?k c \<le> ?k v"
      "da_tie ?st \<longleftrightarrow> (\<exists>c \<in> set ?cs. c \<noteq> v \<and> ?k c = ?k v)"
      by (simp_all add: disambiguation_inv_def)
    show ?thesis
    proof
      assume "ms_disambiguated (analyzeSelectorMatches nodes sel p rr) = Some w"
      then have "w = v" "\<not> da_tie ?st" unfolding eq using Some by (simp_all split: if_splits)
      with v show "w \<in> set ?cs \<and> (\<forall>c \<in> set ?cs. c \<noteq> w \<longrightarrow> outranks nodes w c)"
        by (auto simp: outranks_key le_less)
    next
      assume w: "w \<in> set ?cs \<and> (\<forall>c \<in> set ?cs. c \<noteq> w \<longrightarrow> outranks nodes w c)"
      have "w = v"
      proof (rule ccontr)
        assume "w \<noteq> v"
        with w v(1) have "?k v < ?k w" by (auto simp: outranks_key)
        with v(2) w show False by (meson leD)
      qed
      moreover from this w v(3) have "\<not> da_tie ?st" by (auto simp: outranks_key)
      ultimately show "ms_disambiguated (analyzeSelectorMatches nodes sel p rr) = Some w"
        unfolding eq using Some by simp
    qed
  qed
qed

lemma runner_up_run:
  "fold (runner_up_step vis w) cs r = Some c \<Longrightarrow> r = Some c \<or> (c \<in> set cs \<and> fst c \<noteq> fst w)"
proof (induction cs arbitrary: r)
  case Nil
  then show ?case by simp
next
  case (Cons d cs)
  from Cons.IH [of "runner_up_step vis w d r"] Cons.prems
  have "runner_up_step vis w d r = Some c \<or> (c \<in> set cs \<and> fst c \<noteq> fst w)" by simp
  then show ?case
    by (auto simp: runner_up_step_def split: if_splits option.splits)
qed

lemma runner_up_exists:
  "r \<noteq> None \<or> (\<exists>c \<in> set cs. fst c \<noteq> fst w) \<Longrightarrow> fold (runner_up_step vis w) cs r \<noteq> None"
proof (induction cs arbitrary: r)
  case Nil
  then show ?case by simp
next
  case (Cons d cs)
  have "runner_up_step vis w d r \<noteq> None \<or> (\<exists>c \<in> set cs. fst c \<noteq> fst w)"
    using Cons.prems by (auto simp: runner_up_step_def split: option.splits)
  from Cons.IH [OF this] show ?case by simp
qed

lemma analyze_tiebreak:
  assumes w: "ms_disambiguated (analyzeSelectorMatches nodes sel p rr) = Some w"
    and "length (selector_candidates nodes sel p rr) \<noteq> 1"
  shows "ms_tiebreak (analyzeSelectorMatches nodes sel p rr) \<noteq> None"
proof -
  let ?vis = "\<lambda>n. isNodeVisibleOnScreen n nodes"
  let ?cs = "selector_candidates nodes sel p rr"
  from w have best: "w \<in> set ?cs" "\<forall>c \<in> set ?cs. c \<noteq> w \<longrightarrow> outranks nodes w c"
    by (simp_all add: analyze_disambiguated)
  have "\<exists>c \<in> set ?cs. c \<noteq> w"
  proof (rule ccontr)
    assume "\<not> (\<exists>c \<in> set ?cs. c \<noteq> w)"
    with best(1) have one: "set ?cs = {w}" by blast
    have "length ?cs = card (set ?cs)" by (rule distinct_card [OF distinct_candidates, symmetric])
    then have "length ?cs = 1" unfolding one by simp
    with assms(2) show False ..
  qed
  then have "\<exists>c \<in> set ?cs. fst c \<noteq> fst w" using candidates_inject best(1) by blast
  then obtain r where r: "fold (runner_up_step ?vis w) ?cs None = Some r"
    using runner_up_exists [of None ?cs w ?vis] by auto
  with runner_up_run [of ?vis w ?cs None r] have "r \<in> set ?cs" "fst r \<noteq> fst w" by auto
  then have "outranks nodes w r" using best(2) by (metis (full_types))
  then have "snd (compareCandidatesWithVisibility ?vis (snd w) (snd r)) \<noteq> None"
    by (auto simp: compare_criterion outranks_key)
  moreover have "ms_tiebreak (analyzeSelectorMatches nodes sel p rr) = findDecidingTiebreak ?vis ?cs (Some w)"
    using w unfolding analyzeSelectorMatches_def Let_def by (simp only: match_summary.simps split: if_splits) simp_all
  ultimately show ?thesis by (simp add: findDecidingTiebreak_def r)
qed

lemma analyze_simps:
  "ms_count (analyzeSelectorMatches nodes sel p rr) = length (selector_candidates nodes sel p rr)"
  "ms_firstNode (analyzeSelectorMatches nodes sel p rr) = first_of (selector_candidates nodes sel p rr)"
  "ms_candidates (analyzeSelectorMatches nodes sel p rr) = selector_candidates nodes sel p rr"
  by (simp_all add: analyzeSelectorMatches_def Let_def)

text \<open>An alternative settles the resolution: it matches, and when the match must be unique it has one
  candidate or, where disambiguation is allowed, one that outranks the others. The node it settles on.\<close>

definition settles :: "'a raw_node_scheme list \<Rightarrow> platform \<Rightarrow> bool \<Rightarrow> bool \<Rightarrow> bool \<Rightarrow> selector \<Rightarrow> 'a candidate \<Rightarrow> bool" where
  "settles nodes p rr unique disambiguate sel w \<longleftrightarrow>
     (let cs = selector_candidates nodes sel p rr
      in w \<in> set cs \<and>
         (if \<not> unique then w = hd cs
          else cs = [w] \<or> disambiguate \<and> list_all (\<lambda>c. c \<noteq> w \<longrightarrow> outranks nodes w c) cs))"

lemma settles_unique:
  assumes "settles nodes p rr unique disambiguate sel w" and "settles nodes p rr unique disambiguate sel v"
  shows "v = w"
proof (rule ccontr)
  assume "v \<noteq> w"
  with assms have "outranks nodes w v" "outranks nodes v w"
    by (auto simp: settles_def Let_def list_all_iff split: if_splits)
  then show False by (auto simp: outranks_key)
qed

declare resolve_loop.simps(2) [simp del]

lemma resolve_head:
  "(\<exists>w. settles nodes p rr unique disambiguate sel w \<and>
      (\<exists>r. resolve_loop nodes p rr unique disambiguate diags i (sel # rest) = Some r \<and>
         sr_node r = w \<and> sr_selector r = sel \<and> sr_selectorIndex r = i \<and>
         sr_matches r = length (selector_candidates nodes sel p rr))) \<or>
    (\<forall>w. \<not> settles nodes p rr unique disambiguate sel w) \<and>
    (\<exists>diags'. resolve_loop nodes p rr unique disambiguate diags i (sel # rest) =
       resolve_loop nodes p rr unique disambiguate diags' (Suc i) rest)"
proof -
  let ?cs = "selector_candidates nodes sel p rr"
  let ?diags = "diags @ [(sel_raw sel, length ?cs)]"
  let ?next = "resolve_loop nodes p rr unique disambiguate ?diags (Suc i) rest"
  let ?dis = "ms_disambiguated (analyzeSelectorMatches nodes sel p rr)"
  let ?tie = "ms_tiebreak (analyzeSelectorMatches nodes sel p rr)"
  have loop: "resolve_loop nodes p rr unique disambiguate diags i (sel # rest) =
     (case first_of ?cs of
        None \<Rightarrow> ?next
      | Some first \<Rightarrow>
          if length ?cs = 0 then ?next
          else if unique \<and> length ?cs \<noteq> 1
          then (case (?dis, ?tie) of
                  (Some node, Some tb) \<Rightarrow>
                    if \<not> disambiguate then ?next
                    else Some \<lparr>sr_node = node, sr_selector = sel, sr_selectorIndex = i, sr_matches = length ?cs,
                           sr_diagnostics = ?diags,
                           sr_disambiguation = Some (length ?cs, tb, filter (\<lambda>c. fst c \<noteq> fst node) ?cs)\<rparr>
                | _ \<Rightarrow> ?next)
          else Some \<lparr>sr_node = first, sr_selector = sel, sr_selectorIndex = i, sr_matches = length ?cs,
                 sr_diagnostics = ?diags, sr_disambiguation = None\<rparr>)"
    by (simp only: resolve_loop.simps(2) Let_def analyze_simps)
  consider (empty) "?cs = []" | (first) c cs where "?cs = c # cs" "\<not> (unique \<and> length ?cs \<noteq> 1)"
    | (many) c d cs where "?cs = c # d # cs" "unique"
    by (cases ?cs rule: remdups_adj.cases) auto
  then show ?thesis
  proof cases
    case empty
    then have "\<not> settles nodes p rr unique disambiguate sel w" for w by (simp add: settles_def)
    with loop empty show ?thesis by (auto simp: first_of_def)
  next
    case (first c cs)
    then have "settles nodes p rr unique disambiguate sel c"
      by (auto simp: settles_def Let_def)
    moreover from loop first have "resolve_loop nodes p rr unique disambiguate diags i (sel # rest) =
        Some \<lparr>sr_node = c, sr_selector = sel, sr_selectorIndex = i, sr_matches = length ?cs,
          sr_diagnostics = ?diags, sr_disambiguation = None\<rparr>"
      by (auto simp: first_of_def)
    ultimately show ?thesis by (intro disjI1 exI [of _ c] conjI) simp_all
  next
    case (many c d cs)
    show ?thesis
    proof (cases "disambiguate \<and> ?dis \<noteq> None")
      case True
      then obtain w where w: "?dis = Some w" by auto
      from analyze_tiebreak [OF w] many obtain tb where tb: "?tie = Some tb" by auto
      have "settles nodes p rr unique disambiguate sel w"
        using w True many by (simp add: settles_def Let_def analyze_disambiguated list_all_iff)
      moreover have "first_of ?cs = Some c" "length ?cs \<noteq> 0" "length ?cs \<noteq> 1"
        using many by (simp_all add: first_of_def)
      moreover from this have "resolve_loop nodes p rr unique disambiguate diags i (sel # rest) =
          Some \<lparr>sr_node = w, sr_selector = sel, sr_selectorIndex = i, sr_matches = length ?cs, sr_diagnostics = ?diags,
            sr_disambiguation = Some (length ?cs, tb, filter (\<lambda>c. fst c \<noteq> fst w) ?cs)\<rparr>"
        using many(2) True unfolding loop w tb by (simp only: option.case prod.case if_False if_True not_True_eq_False simp_thms)
      ultimately show ?thesis by (intro disjI1 exI [of _ w] conjI) simp_all
    next
      case False
      have "\<not> settles nodes p rr unique disambiguate sel w" for w
      proof
        assume "settles nodes p rr unique disambiguate sel w"
        then have "w \<in> set ?cs" "?cs = [w] \<or> disambiguate \<and> (\<forall>c \<in> set ?cs. c \<noteq> w \<longrightarrow> outranks nodes w c)"
          using many(2) unfolding settles_def Let_def list_all_iff by simp_all
        moreover have "?cs \<noteq> [w]" using many(1) by simp
        ultimately have "disambiguate" "?dis = Some w" unfolding analyze_disambiguated by blast+
        with False show False by simp
      qed
      moreover have "resolve_loop nodes p rr unique disambiguate diags i (sel # rest) = ?next"
      proof -
        have facts: "first_of ?cs = Some c" "length ?cs \<noteq> 0" "unique \<and> length ?cs \<noteq> 1"
          using many by (simp_all add: first_of_def)
        show ?thesis
          using False facts unfolding loop
          by (cases ?dis; cases ?tie) (simp_all only: option.case prod.case if_False if_True simp_thms option.distinct)
      qed
      ultimately show ?thesis by blast
    qed
  qed
qed

lemma resolve_loop_spec:
  "case resolve_loop nodes p rr unique disambiguate diags i sels of
     None \<Rightarrow> \<forall>sel \<in> set sels. \<forall>w. \<not> settles nodes p rr unique disambiguate sel w
   | Some r \<Rightarrow> \<exists>k < length sels. sr_selectorIndex r = i + k \<and> sr_selector r = sels ! k \<and>
       settles nodes p rr unique disambiguate (sels ! k) (sr_node r) \<and>
       sr_matches r = length (selector_candidates nodes (sels ! k) p rr) \<and>
       (\<forall>j < k. \<forall>w. \<not> settles nodes p rr unique disambiguate (sels ! j) w)"
proof (induction sels arbitrary: diags i)
  case Nil
  then show ?case by simp
next
  case (Cons sel sels)
  from resolve_head [where nodes = nodes and p = p and rr = rr and unique = unique and disambiguate = disambiguate
      and sel = sel and diags = diags and i = i and rest = sels]
  consider (found) r where "settles nodes p rr unique disambiguate sel (sr_node r)"
      "resolve_loop nodes p rr unique disambiguate diags i (sel # sels) = Some r"
      "sr_selector r = sel" "sr_selectorIndex r = i" "sr_matches r = length (selector_candidates nodes sel p rr)"
    | (skip) diags' where "\<forall>w. \<not> settles nodes p rr unique disambiguate sel w"
      "resolve_loop nodes p rr unique disambiguate diags i (sel # sels) =
        resolve_loop nodes p rr unique disambiguate diags' (Suc i) sels"
    by blast
  then show ?case
  proof cases
    case (found r)
    then show ?thesis by (auto intro: exI [of _ 0])
  next
    case (skip diags')
    show ?thesis
    proof (cases "resolve_loop nodes p rr unique disambiguate diags' (Suc i) sels")
      case None
      with skip Cons.IH [where diags = diags' and i = "Suc i"] show ?thesis by simp
    next
      case (Some r)
      with Cons.IH [where diags = diags' and i = "Suc i"] obtain k where k: "k < length sels" "sr_selectorIndex r = Suc i + k"
        "sr_selector r = sels ! k" "settles nodes p rr unique disambiguate (sels ! k) (sr_node r)"
        "sr_matches r = length (selector_candidates nodes (sels ! k) p rr)"
        "\<forall>j < k. \<forall>w. \<not> settles nodes p rr unique disambiguate (sels ! j) w"
        by auto
      have "\<forall>w. \<not> settles nodes p rr unique disambiguate ((sel # sels) ! j) w" if "j < Suc k" for j
        using that k(6) skip(1) by (cases j) simp_all
      with k skip(2) Some show ?thesis by (auto intro!: exI [of _ "Suc k"])
    qed
  qed
qed

text \<open>C27. Resolving a chain takes the first alternative that settles it and nothing else. Where a unique match is required (the default), an
  alternative settles with a node that matches it alone or, where disambiguation is allowed, outranks every other match (visible before
  hidden, deeper before shallower, smaller before larger); where \<open>requireUnique\<close> is false, as in find and reads, its first match
  settles, however many others there are. No earlier alternative would have settled, the number of matches reported is exact, and the
  chain fails only if none settles.\<close>

theorem resolve_selector_chain:
  "case resolveSelectorChain nodes chain p requireRect requireUnique disambiguate of
     None \<Rightarrow> \<forall>sel \<in> set (ch_selectors chain). \<forall>w.
       \<not> settles nodes p (requireRect = Some True) (requireUnique \<noteq> Some False) disambiguate sel w
   | Some r \<Rightarrow> \<exists>k < length (ch_selectors chain).
       sr_selectorIndex r = k \<and> sr_selector r = ch_selectors chain ! k \<and>
       settles nodes p (requireRect = Some True) (requireUnique \<noteq> Some False) disambiguate
         (ch_selectors chain ! k) (sr_node r) \<and>
       sr_matches r = length (selector_candidates nodes (ch_selectors chain ! k) p (requireRect = Some True)) \<and>
       (\<forall>j < k. \<forall>w. \<not> settles nodes p (requireRect = Some True) (requireUnique \<noteq> Some False) disambiguate
         (ch_selectors chain ! j) w)"
  using resolve_loop_spec [where nodes = nodes and p = p and rr = "requireRect = Some True"
      and unique = "requireUnique \<noteq> Some False" and disambiguate = disambiguate and diags = "[]" and i = 0
      and sels = "ch_selectors chain"]
  unfolding resolveSelectorChain_def add_0 .

definition row_chain :: selector_chain where
  "row_chain = \<lparr>ch_raw = ''id=row || id=row visible'', ch_selectors =
     [\<lparr>sel_raw = ''id=row'', sel_terms = [(KId, TextValue ''row'')]\<rparr>]\<rparr>"

theorem resolve_selector_chain_witness:
  "\<not> settles shared_rows PAndroid False True False (hd (ch_selectors row_chain)) (0, hd shared_rows) \<and>
   settles shared_rows PAndroid False False False (hd (ch_selectors row_chain)) (0, hd shared_rows)"
proof -
  have none: "resolveSelectorChain shared_rows row_chain PAndroid None None False = None" by code_simp
  have mem: "hd (ch_selectors row_chain) \<in> set (ch_selectors row_chain)" by (simp add: row_chain_def)
  from resolve_selector_chain [where nodes = shared_rows and chain = row_chain and p = PAndroid and requireRect = None
      and requireUnique = None and disambiguate = False] mem
  have "\<not> settles shared_rows PAndroid False True False (hd (ch_selectors row_chain)) (0, hd shared_rows)"
    unfolding none by simp
  moreover have "settles shared_rows PAndroid False False False (hd (ch_selectors row_chain)) (0, hd shared_rows)"
    by code_simp
  ultimately show ?thesis by simp
qed

end
