(* ===== verification/TargetBinding.thy ===== *)
theory TargetBinding
  imports SelectorMatch TargetAnnotation Devices
begin

text \<open>
  Target binding of recorded actions: the evidence the recorder computes for the element an action
  touched (\<^verbatim>\<open>src/daemon/session-target-evidence.ts\<close>), the identity and ancestry it shares with the replay
  (\<^verbatim>\<open>src/replay/target-identity.ts\<close>, \<^verbatim>\<open>src/replay/target-evidence-tree.ts\<close>), and the classification of the
  element the replay resolves (\<^verbatim>\<open>src/daemon/handlers/session-replay-target-classification.ts\<close>).

  The map from indexes to nodes is the list of the nodes itself with its lookup \<open>node_at_index\<close>.
\<close>

section \<open>Local identity and ancestry\<close>

definition annotationLocalIdentity :: "target_annotation \<Rightarrow> local_identity" where
  "annotationLocalIdentity recorded = \<lparr>li_id = ta_id recorded, li_role = ta_role recorded, li_label = ta_label recorded\<rparr>"

definition matchesLocalIdentity :: "local_identity \<Rightarrow> local_identity \<Rightarrow> bool" where
  "matchesLocalIdentity candidate recorded =
     (if li_id recorded \<noteq> None then li_id candidate = li_id recorded
      else li_role candidate = li_role recorded \<and> li_label candidate = li_label recorded)"

fun ancestry_prefix_loop :: "ancestry_entry list \<Rightarrow> ancestry_entry list \<Rightarrow> bool" where
  "ancestry_prefix_loop observed [] = True"
| "ancestry_prefix_loop [] (entry # recorded) = False"
| "ancestry_prefix_loop (candidate # observed) (entry # recorded) =
     (if ae_role candidate \<noteq> ae_role entry then False
      else if ae_label entry \<noteq> None \<and> ae_label candidate \<noteq> ae_label entry then False
      else ancestry_prefix_loop observed recorded)"

definition matchesAncestryPrefix :: "ancestry_entry list \<Rightarrow> ancestry_entry list \<Rightarrow> bool" where
  "matchesAncestryPrefix observed recorded =
     (if length observed < length recorded then False else ancestry_prefix_loop observed recorded)"

definition ancestry_entry_of :: "'a raw_node_scheme \<Rightarrow> ancestry_entry" where
  "ancestry_entry_of parent =
     (let identity = readNodeLocalIdentity parent in \<lparr>ae_role = li_role identity, ae_label = li_label identity\<rparr>)"

text \<open>The walk to the root, for as many entries as the limit has left.\<close>

fun ancestry_loop :: "'a raw_node_scheme list \<Rightarrow> nat \<Rightarrow> int list \<Rightarrow> 'a raw_node_scheme \<Rightarrow> ancestry_entry list \<times> bool" where
  "ancestry_loop nodes 0 visited current = ([], False)"
| "ancestry_loop nodes (Suc left) visited current =
     (case nd_parentIndex current of
        None \<Rightarrow> ([], False)
      | Some i \<Rightarrow>
          (case node_at_index nodes i of
             None \<Rightarrow> ([], True)
           | Some parent \<Rightarrow>
               if nd_index parent \<in> set visited then ([], True)
               else (let (chain, broken) = ancestry_loop nodes left (nd_index parent # visited) parent
                     in (ancestry_entry_of parent # chain, broken))))"

definition buildAncestryChain :: "'a raw_node_scheme \<Rightarrow> 'a raw_node_scheme list \<Rightarrow> nat \<Rightarrow> ancestry_entry list \<times> bool" where
  "buildAncestryChain node nodes limit = ancestry_loop nodes limit [nd_index node] node"

definition carries_identity ::
    "'a raw_node_scheme list \<Rightarrow> local_identity \<Rightarrow> ancestry_entry list \<Rightarrow> 'a raw_node_scheme \<Rightarrow> bool" where
  "carries_identity nodes identity ancestry candidate =
     (if \<not> matchesLocalIdentity (readNodeLocalIdentity candidate) identity then False
      else (let (chain, broken) = buildAncestryChain candidate nodes (max (length ancestry) 1)
            in \<not> broken \<and> matchesAncestryPrefix chain ancestry))"

definition filterIdentitySet ::
    "'a raw_node_scheme list \<Rightarrow> 'a raw_node_scheme list \<Rightarrow> local_identity \<Rightarrow> ancestry_entry list \<Rightarrow> 'a raw_node_scheme list" where
  "filterIdentitySet candidates nodes identity ancestry = filter (carries_identity nodes identity ancestry) candidates"

section \<open>Classification\<close>

record binding_input =
  bi_winnerRef :: string
  bi_matchedRefs :: "string list"
  bi_identitySetRefs :: "string list"
  bi_siblingMatchRefs :: "string list"
  bi_regionMemberRefs :: "string list option"
  bi_viewportCandidateRef :: "string option"

datatype binding_reason = SelectorMiss | IdentitySetEmpty | UniqueButWrong | SignalIsolatedWrong | NoSignalIsolation

datatype target_binding = BindingVerified nat | BindingUnverifiable nat binding_reason

definition classifyTargetBindingMatch :: "binding_input \<Rightarrow> target_binding" where
  "classifyTargetBindingMatch i =
     (if length (bi_matchedRefs i) = 0 then BindingUnverifiable 2 SelectorMiss
      else if length (bi_identitySetRefs i) = 0 then BindingUnverifiable 3 IdentitySetEmpty
      else if length (bi_identitySetRefs i) = 1
      then (if bi_identitySetRefs i ! 0 = bi_winnerRef i then BindingVerified 4 else BindingUnverifiable 5 UniqueButWrong)
      else if length (bi_siblingMatchRefs i) = 1
      then (if bi_siblingMatchRefs i ! 0 = bi_winnerRef i then BindingVerified 6 else BindingUnverifiable 6 SignalIsolatedWrong)
      else (case (bi_regionMemberRefs i, bi_viewportCandidateRef i) of
              (Some members, Some candidate) \<Rightarrow>
                if length members > 0
                then (if candidate = bi_winnerRef i then BindingVerified 6 else BindingUnverifiable 6 SignalIsolatedWrong)
                else BindingUnverifiable 6 NoSignalIsolation
            | _ \<Rightarrow> BindingUnverifiable 6 NoSignalIsolation))"

section \<open>Scroll regions and the order in the viewport\<close>

definition isScrollableSnapshotType :: "string option \<Rightarrow> bool" where
  "isScrollableSnapshotType type =
     (let normalized = normalizeType (or_empty type)
      in normalized = ''collectionview'' \<or> normalized = ''table'' \<or> normalized = ''scrollview'' \<or> normalized = ''scrollarea'')"

function collect_ancestors :: "'a raw_node_scheme list \<Rightarrow> int list \<Rightarrow> int option \<Rightarrow> 'a raw_node_scheme list" where
  "collect_ancestors nodes visited i =
     (case Option.bind i (node_at_index nodes) of
        None \<Rightarrow> []
      | Some current \<Rightarrow>
          if nd_index current \<in> set visited then []
          else current # collect_ancestors nodes (nd_index current # visited) (nd_parentIndex current))"
  by pat_completeness auto
termination
proof (relation "measure (\<lambda>(nodes, visited, i). unvisited nodes visited)", goal_cases)
  case 1
  then show ?case by simp
next
  case (2 nodes visited i current)
  then have "current \<in> set nodes" by (cases i) (auto dest: node_at_index_mem)
  with 2 unvisited_less [of current nodes visited] show ?case by simp
qed

declare collect_ancestors.simps [simp del]

definition collectAncestors :: "'a raw_node_scheme \<Rightarrow> 'a raw_node_scheme list \<Rightarrow> 'a raw_node_scheme list" where
  "collectAncestors node nodes = collect_ancestors nodes [] (nd_parentIndex node)"

definition find_nearest_ancestor :: "'a raw_node_scheme \<Rightarrow> 'a raw_node_scheme list \<Rightarrow> ('a raw_node_scheme \<Rightarrow> bool) \<Rightarrow> 'a raw_node_scheme option" where
  "find_nearest_ancestor node nodes pred = find pred (collectAncestors node nodes)"

definition findNearestScrollableContainer :: "'a raw_node_scheme \<Rightarrow> 'a raw_node_scheme list \<Rightarrow> bool \<Rightarrow> 'a raw_node_scheme option" where
  "findNearestScrollableContainer node nodes includeSelf =
     (if includeSelf \<and> isScrollableSnapshotType (nd_type node) then Some node
      else find_nearest_ancestor node nodes (\<lambda>ancestor. isScrollableSnapshotType (nd_type ancestor)))"

definition computeScrollRegionKey :: "'a raw_node_scheme \<Rightarrow> 'a raw_node_scheme list \<Rightarrow> scroll_region option" where
  "computeScrollRegionKey node nodes =
     (case findNearestScrollableContainer node nodes False of
        None \<Rightarrow> None
      | Some container \<Rightarrow>
          let identity = readNodeLocalIdentity container
          in Some (if li_id identity \<noteq> None then \<lparr>rg_role = li_role identity, rg_id = li_id identity, rg_label = None\<rparr>
                   else if li_label identity \<noteq> None then \<lparr>rg_role = li_role identity, rg_id = None, rg_label = li_label identity\<rparr>
                   else \<lparr>rg_role = li_role identity, rg_id = None, rg_label = None\<rparr>))"

definition region_identity :: "scroll_region \<Rightarrow> local_identity" where
  "region_identity r = \<lparr>li_id = rg_id r, li_role = rg_role r, li_label = rg_label r\<rparr>"

fun scrollRegionKeysEqual :: "scroll_region option \<Rightarrow> scroll_region option \<Rightarrow> bool" where
  "scrollRegionKeysEqual None None = True"
| "scrollRegionKeysEqual (Some a) (Some b) = matchesLocalIdentity (region_identity a) (region_identity b)"
| "scrollRegionKeysEqual _ _ = False"

definition normalizeRect :: "rect option \<Rightarrow> rect option" where
  "normalizeRect r =
     (case r of None \<Rightarrow> None | Some q \<Rightarrow> if rwidth q < 0 \<or> rheight q < 0 then None else Some q)"

definition resolveRectCenter :: "rect option \<Rightarrow> point option" where
  "resolveRectCenter r = map_option centerOfRect (normalizeRect r)"

definition compare_viewport :: "('n \<times> nat \<times> point option) \<Rightarrow> ('n \<times> nat \<times> point option) \<Rightarrow> int" where
  "compare_viewport a b =
     (case (a, b) of
        ((_, i, None), (_, j, None)) \<Rightarrow> int i - int j
      | ((_, i, None), (_, j, Some q)) \<Rightarrow> 1
      | ((_, i, Some p), (_, j, None)) \<Rightarrow> -1
      | ((_, i, Some p), (_, j, Some q)) \<Rightarrow>
          if py p \<noteq> py q then (if py p < py q then -1 else 1)
          else if px p \<noteq> px q then (if px p < px q then -1 else 1)
          else int i - int j)"

definition orderByViewportPosition :: "'a raw_node_scheme list \<Rightarrow> 'a raw_node_scheme list" where
  "orderByViewportPosition members =
     map fst (js_sort compare_viewport (map (\<lambda>(i, node). (node, i, resolveRectCenter (nd_rect node))) (List.enumerate 0 members)))"

section \<open>Evidence at record time\<close>

datatype evidence_mode = ActionEvidence | LandmarkEvidence

record disambiguation_domain =
  dd_identitySet :: "snapshot_node list"
  dd_siblingMatches :: "snapshot_node list"
  dd_regionMembers :: "snapshot_node list option"
  dd_orderedRegion :: "snapshot_node list"
  dd_viewportOrder :: nat

definition find_index :: "('n \<Rightarrow> bool) \<Rightarrow> 'n list \<Rightarrow> int" where
  "find_index pred xs = (let i = length (takeWhile (\<lambda>x. \<not> pred x) xs) in if i < length xs then int i else - 1)"

definition computeDisambiguationDomain ::
    "snapshot_node list \<Rightarrow> snapshot_node \<Rightarrow> local_identity \<Rightarrow> ancestry_entry list \<Rightarrow> nat \<Rightarrow> scroll_region option \<Rightarrow>
     disambiguation_domain" where
  "computeDisambiguationDomain nodes node identity ancestry sibling scrollRegion =
     (let identitySet = filterIdentitySet nodes nodes identity ancestry;
          siblingMatches = filter (\<lambda>candidate. siblingOrdinal nodes candidate = sibling) identitySet;
          regionMembers =
            (if length identitySet > 0
             then Some (filter (\<lambda>candidate. scrollRegionKeysEqual (computeScrollRegionKey candidate nodes) scrollRegion) identitySet)
             else None);
          orderedRegion = (case regionMembers of Some members \<Rightarrow> orderByViewportPosition members | None \<Rightarrow> [])
      in \<lparr>dd_identitySet = identitySet, dd_siblingMatches = siblingMatches, dd_regionMembers = regionMembers,
          dd_orderedRegion = orderedRegion,
          dd_viewportOrder = nat (max (find_index (\<lambda>candidate. nd_index candidate = nd_index node) orderedRegion) 0)\<rparr>)"

definition nth_ref :: "snapshot_node list \<Rightarrow> int \<Rightarrow> string option" where
  "nth_ref nodes i = map_option nd_ref (nth_node nodes i)"

fun outcome_of :: "target_binding \<Rightarrow> verification" where
  "outcome_of (BindingVerified path) = Verified"
| "outcome_of (BindingUnverifiable path reason) = Unverifiable"

definition runRecordTimeSelfCheck :: "snapshot_node \<Rightarrow> disambiguation_domain \<Rightarrow> verification" where
  "runRecordTimeSelfCheck node domain =
     (let identitySetRefs = map nd_ref (dd_identitySet domain)
      in outcome_of (classifyTargetBindingMatch
           \<lparr>bi_winnerRef = nd_ref node, bi_matchedRefs = identitySetRefs, bi_identitySetRefs = identitySetRefs,
            bi_siblingMatchRefs = map nd_ref (dd_siblingMatches domain),
            bi_regionMemberRefs = map_option (map nd_ref) (dd_regionMembers domain),
            bi_viewportCandidateRef = nth_ref (dd_orderedRegion domain) (int (dd_viewportOrder domain))\<rparr>))"

definition resolveRecordTimeVerification ::
    "snapshot_node \<Rightarrow> disambiguation_domain \<Rightarrow> evidence_mode \<Rightarrow> bool \<Rightarrow> verification" where
  "resolveRecordTimeVerification node domain mode brokenWalk =
     (if brokenWalk then Unverifiable
      else if mode = LandmarkEvidence then Verified
      else runRecordTimeSelfCheck node domain)"

definition fitsPayloadCeiling :: "target_annotation \<Rightarrow> bool" where
  "fitsPayloadCeiling candidate \<longleftrightarrow>
     utf8ByteLength (serializeTargetAnnotationV1 (candidate\<lparr>ta_verification := Unverifiable\<rparr>)) \<le> TARGET_ANNOTATION_MAX_PAYLOAD_BYTES"

definition finalizeOversizedCandidate :: "target_annotation \<Rightarrow> target_annotation" where
  "finalizeOversizedCandidate candidate =
     (let c = candidate\<lparr>ta_verification := Unverifiable\<rparr>
      in if utf8ByteLength (serializeTargetAnnotationV1 c) > TARGET_ANNOTATION_MAX_PAYLOAD_BYTES then c\<lparr>ta_rect := None\<rparr> else c)"

definition boundedRect :: "'a raw_node_scheme \<Rightarrow> target_rect option" where
  "boundedRect node =
     map_option (\<lambda>r. \<lparr>tr_x = rx r, tr_y = ry r, tr_width = rwidth r, tr_height = rheight r\<rparr>) (nd_rect node)"

definition build_candidate ::
    "snapshot_node list \<Rightarrow> snapshot_node \<Rightarrow> local_identity \<Rightarrow> ancestry_entry list \<Rightarrow> nat \<Rightarrow> target_annotation \<times> disambiguation_domain" where
  "build_candidate nodes node identity fullAncestry ancestryLength =
     (let ancestry = take ancestryLength fullAncestry;
          sibling = siblingOrdinal nodes node;
          scrollRegion = computeScrollRegionKey node nodes;
          domain = computeDisambiguationDomain nodes node identity ancestry sibling scrollRegion
      in (\<lparr>ta_id = li_id identity, ta_role = li_role identity, ta_label = li_label identity, ta_ancestry = ancestry,
           ta_sibling = int sibling, ta_viewportOrder = int (dd_viewportOrder domain), ta_scrollRegion = scrollRegion,
           ta_rect = boundedRect node, ta_verification = Verified\<rparr>, domain))"

text \<open>The loop over the lengths of the ancestry, from the whole ancestry down to the floor.\<close>

fun evidence_loop ::
    "snapshot_node list \<Rightarrow> snapshot_node \<Rightarrow> local_identity \<Rightarrow> ancestry_entry list \<Rightarrow> evidence_mode \<Rightarrow> bool \<Rightarrow> nat \<Rightarrow> nat \<Rightarrow>
     target_annotation option" where
  "evidence_loop nodes node identity fullAncestry mode broken lowest ancestryLength =
     (if ancestryLength < lowest then None
      else (let (candidate, domain) = build_candidate nodes node identity fullAncestry ancestryLength
            in if fitsPayloadCeiling candidate
               then Some (candidate\<lparr>ta_verification := resolveRecordTimeVerification node domain mode broken\<rparr>)
               else if ancestryLength = lowest then Some (finalizeOversizedCandidate candidate)
               else (case ancestryLength of
                       0 \<Rightarrow> None
                     | Suc shorter \<Rightarrow> evidence_loop nodes node identity fullAncestry mode broken lowest shorter)))"

declare evidence_loop.simps [simp del]

definition computeTargetEvidence :: "snapshot_node \<Rightarrow> snapshot_node list \<Rightarrow> evidence_mode \<Rightarrow> target_annotation option" where
  "computeTargetEvidence node nodes mode =
     (let identity = demoteNonUniqueLocalIdentity (readNodeLocalIdentity node) nodes
      in if mode = LandmarkEvidence \<and> li_id identity = None \<and> li_label identity = None then None
         else (let (fullAncestry, broken) = buildAncestryChain node nodes TARGET_ANNOTATION_MAX_ANCESTRY
               in evidence_loop nodes node identity fullAncestry mode broken
                    (if length fullAncestry > 0 then 1 else 0) (length fullAncestry)))"

section \<open>Classification at replay time\<close>

record target_matches =
  tm_matchedNodes :: "snapshot_node list"
  tm_winnerRef :: string

definition usable_target :: "bool \<Rightarrow> snapshot_node option \<Rightarrow> bool" where
  "usable_target requireRect n = (case n of None \<Rightarrow> False | Some node \<Rightarrow> \<not> requireRect \<or> nd_rect node \<noteq> None)"

definition resolveRefTargetMatches :: "snapshot_node list \<Rightarrow> string \<Rightarrow> string option \<Rightarrow> bool \<Rightarrow> target_matches" where
  "resolveRefTargetMatches nodes token refLabel requireRect =
     (let byRef = (case normalizeRef token of Some r \<Rightarrow> if r \<noteq> [] then findNodeByRef nodes r else None | None \<Rightarrow> None);
          byLabel = (if truthy refLabel then findNodeByLabel nodes (the refLabel) else None)
      in if usable_target requireRect byRef then \<lparr>tm_matchedNodes = [the byRef], tm_winnerRef = nd_ref (the byRef)\<rparr>
         else if usable_target requireRect byLabel then \<lparr>tm_matchedNodes = [the byLabel], tm_winnerRef = nd_ref (the byLabel)\<rparr>
         else \<lparr>tm_matchedNodes = [], tm_winnerRef = []\<rparr>)"

definition resolveSelectorTargetMatches ::
    "snapshot_node list \<Rightarrow> string \<Rightarrow> platform \<Rightarrow> bool \<Rightarrow> bool \<Rightarrow> target_matches" where
  "resolveSelectorTargetMatches nodes token p requireRect allowDisambiguation =
     (case tryParseSelectorChain token of
        None \<Rightarrow> \<lparr>tm_matchedNodes = [], tm_winnerRef = []\<rparr>
      | Some chain \<Rightarrow>
          (case resolveSelectorChain nodes chain p (Some requireRect) (Some True) allowDisambiguation of
             None \<Rightarrow>
               \<lparr>tm_matchedNodes = (case listSelectorChainMatches nodes chain p (Some requireRect) of
                   Some (sel, i, matched) \<Rightarrow> matched | None \<Rightarrow> []),
                tm_winnerRef = []\<rparr>
           | Some resolved \<Rightarrow>
               \<lparr>tm_matchedNodes =
                  filter (\<lambda>node. if requireRect \<and> nd_rect node = None then False else matchesSelector node (sr_selector resolved) p) nodes,
                tm_winnerRef = nd_ref (snd (sr_node resolved))\<rparr>))"

definition resolveTargetMatches ::
    "string \<Rightarrow> snapshot_node list \<Rightarrow> platform \<Rightarrow> string option \<Rightarrow> bool \<Rightarrow> bool \<Rightarrow> target_matches" where
  "resolveTargetMatches token nodes p refLabel requireRect allowDisambiguation =
     (if take 1 token = ''@'' then resolveRefTargetMatches nodes token refLabel requireRect
      else resolveSelectorTargetMatches nodes token p requireRect allowDisambiguation)"

datatype divergence_kind = DivSelectorMiss | DivIdentityMismatch | DivIdentityUnverifiable

record target_divergence =
  td_kind :: divergence_kind
  td_matchCount :: "nat option"
  td_observedNode :: "snapshot_node option"
  td_candidateNodes :: "snapshot_node list"
  td_mismatches :: "string list"
  td_causeCode :: string
  td_causeMessage :: string

datatype replay_classification = TargetVerified snapshot_node nat | TargetDivergent target_divergence

definition or_none_text :: "string option \<Rightarrow> string" where
  "or_none_text v = (case v of Some t \<Rightarrow> t | None \<Rightarrow> ''(none)'')"

definition identityFieldMismatches :: "target_annotation \<Rightarrow> local_identity \<Rightarrow> string list" where
  "identityFieldMismatches recorded observed =
     (if ta_id recorded \<noteq> li_id observed
      then [''id: recorded='' @ or_none_text (ta_id recorded) @ '' observed='' @ or_none_text (li_id observed)] else []) @
     (if ta_role recorded \<noteq> li_role observed
      then [''role: recorded='' @ ta_role recorded @ '' observed='' @ li_role observed] else []) @
     (if ta_label recorded \<noteq> li_label observed
      then [''label: recorded='' @ or_none_text (ta_label recorded) @ '' observed='' @ or_none_text (li_label observed)] else [])"

definition describeAncestryEntry :: "ancestry_entry option \<Rightarrow> string" where
  "describeAncestryEntry entry =
     (case entry of
        Some e \<Rightarrow> ae_role e @ (if truthy (ae_label e) then ''/'' @ the (ae_label e) else [])
      | None \<Rightarrow> ''(missing)'')"

definition ancestryEntryMismatches :: "ancestry_entry \<Rightarrow> ancestry_entry option \<Rightarrow> bool" where
  "ancestryEntryMismatches expected actual =
     (case actual of
        None \<Rightarrow> True
      | Some a \<Rightarrow> if ae_role a \<noteq> ae_role expected then True
          else ae_label expected \<noteq> None \<and> ae_label a \<noteq> ae_label expected)"

fun first_ancestry_loop :: "nat \<Rightarrow> ancestry_entry list \<Rightarrow> ancestry_entry list \<Rightarrow> string list" where
  "first_ancestry_loop index [] observed = []"
| "first_ancestry_loop index (expected # recorded) observed =
     (let actual = (if index < length observed then Some (observed ! index) else None)
      in if \<not> ancestryEntryMismatches expected actual then first_ancestry_loop (Suc index) recorded observed
         else [''ancestry['' @ nat_dec index @ '']: recorded='' @ describeAncestryEntry (Some expected) @ '' observed='' @
               describeAncestryEntry actual])"

definition firstAncestryMismatch :: "ancestry_entry list \<Rightarrow> ancestry_entry list \<Rightarrow> string list" where
  "firstAncestryMismatch recordedAncestry observedAncestry = first_ancestry_loop 0 recordedAncestry observedAncestry"

definition computeIdentityMismatches :: "target_annotation \<Rightarrow> snapshot_node \<Rightarrow> snapshot_node list \<Rightarrow> string list" where
  "computeIdentityMismatches recorded observedNode nodes =
     (let observed = readNodeLocalIdentity observedNode;
          observedAncestry = fst (buildAncestryChain observedNode nodes (max (length (ta_ancestry recorded)) 1))
      in take 5 (identityFieldMismatches recorded observed @ firstAncestryMismatch (ta_ancestry recorded) observedAncestry))"

definition mapVerificationFailure ::
    "binding_reason \<Rightarrow> nat \<Rightarrow> snapshot_node option \<Rightarrow> snapshot_node list \<Rightarrow> snapshot_node list \<Rightarrow> target_annotation \<Rightarrow> target_divergence" where
  "mapVerificationFailure reason matchCount winnerNode identitySet nodes recorded =
     (let mismatch = (\<lambda>message. \<lparr>td_kind = DivIdentityMismatch, td_matchCount = Some matchCount, td_observedNode = winnerNode,
            td_candidateNodes = [],
            td_mismatches = (case winnerNode of Some w \<Rightarrow> computeIdentityMismatches recorded w nodes | None \<Rightarrow> []),
            td_causeCode = ''IDENTITY_MISMATCH'', td_causeMessage = message\<rparr>)
      in case reason of
           SelectorMiss \<Rightarrow>
             \<lparr>td_kind = DivSelectorMiss, td_matchCount = Some 0, td_observedNode = None, td_candidateNodes = [], td_mismatches = [],
              td_causeCode = ''SELECTOR_MISS'', td_causeMessage = ''The recorded target no longer matches any current element.''\<rparr>
         | IdentitySetEmpty \<Rightarrow>
             mismatch ''The recorded selector/ref still matches, but nothing in the current tree carries the recorded identity.''
         | UniqueButWrong \<Rightarrow>
             mismatch ''Exactly one current element carries the recorded identity, but the resolved target is a different element.''
         | SignalIsolatedWrong \<Rightarrow>
             mismatch ''A disambiguation signal (sibling or viewport position) isolated a different element than the resolved target.''
         | NoSignalIsolation \<Rightarrow>
             \<lparr>td_kind = DivIdentityUnverifiable, td_matchCount = Some matchCount, td_observedNode = winnerNode,
              td_candidateNodes = take 5 identitySet, td_mismatches = [], td_causeCode = ''IDENTITY_UNVERIFIABLE'',
              td_causeMessage = nat_dec (length identitySet) @
                '' current elements carry the recorded identity and neither disambiguation signal isolated one.''\<rparr>)"

definition classify_matches :: "target_annotation \<Rightarrow> snapshot_node list \<Rightarrow> target_matches \<Rightarrow> replay_classification" where
  "classify_matches recorded nodes matching =
     (let identity = annotationLocalIdentity recorded;
          identitySet = filterIdentitySet (tm_matchedNodes matching) nodes identity (ta_ancestry recorded);
          siblingMatches = filter (\<lambda>candidate. int (siblingOrdinal nodes candidate) = ta_sibling recorded) identitySet;
          regionMembers = filter (\<lambda>candidate. scrollRegionKeysEqual (computeScrollRegionKey candidate nodes) (ta_scrollRegion recorded))
            identitySet;
          orderedRegion = orderByViewportPosition regionMembers;
          classification = classifyTargetBindingMatch
            \<lparr>bi_winnerRef = tm_winnerRef matching, bi_matchedRefs = map nd_ref (tm_matchedNodes matching),
             bi_identitySetRefs = map nd_ref identitySet, bi_siblingMatchRefs = map nd_ref siblingMatches,
             bi_regionMemberRefs = Some (map nd_ref regionMembers),
             bi_viewportCandidateRef = nth_ref orderedRegion (ta_viewportOrder recorded)\<rparr>;
          winnerNode = find (\<lambda>node. nd_ref node = tm_winnerRef matching) (tm_matchedNodes matching);
          matchCount = length (tm_matchedNodes matching)
      in case classification of
           BindingVerified path \<Rightarrow>
             (case winnerNode of
                Some w \<Rightarrow> TargetVerified w matchCount
              | None \<Rightarrow> TargetDivergent
                  \<lparr>td_kind = DivIdentityUnverifiable, td_matchCount = Some matchCount, td_observedNode = None,
                   td_candidateNodes = take 5 identitySet, td_mismatches = [], td_causeCode = ''IDENTITY_UNVERIFIABLE'',
                   td_causeMessage = ''Verification isolated a member that is not part of the matched-node domain (capture anomaly).''\<rparr>)
         | BindingUnverifiable path reason \<Rightarrow>
             TargetDivergent (mapVerificationFailure reason matchCount winnerNode identitySet nodes recorded))"

definition classifyReplayTarget ::
    "target_annotation \<Rightarrow> string \<Rightarrow> snapshot_node list \<Rightarrow> platform \<Rightarrow> string option \<Rightarrow> bool \<Rightarrow> bool \<Rightarrow> replay_classification" where
  "classifyReplayTarget recorded token nodes p refLabel requireRect allowDisambiguation =
     classify_matches recorded nodes (resolveTargetMatches token nodes p refLabel requireRect allowDisambiguation)"

section \<open>Identity, ancestry and order\<close>

lemma carries_identity_iff:
  "carries_identity nodes identity ancestry c \<longleftrightarrow>
     matchesLocalIdentity (readNodeLocalIdentity c) identity \<and>
     \<not> snd (buildAncestryChain c nodes (max (length ancestry) 1)) \<and>
     matchesAncestryPrefix (fst (buildAncestryChain c nodes (max (length ancestry) 1))) ancestry"
  by (simp add: carries_identity_def split: prod.split)

lemma ancestry_loop_Suc:
  "ancestry_loop nodes (Suc left) visited c =
     (case Option.bind (nd_parentIndex c) (node_at_index nodes) of
        None \<Rightarrow> ([], nd_parentIndex c \<noteq> None)
      | Some parent \<Rightarrow>
          if nd_index parent \<in> set visited then ([], True)
          else (ancestry_entry_of parent # fst (ancestry_loop nodes left (nd_index parent # visited) parent),
                snd (ancestry_loop nodes left (nd_index parent # visited) parent)))"
  by (simp split: option.split prod.split)

lemma ancestry_loop_shorter:
  assumes "\<not> snd (ancestry_loop nodes n visited c)" "k \<le> n"
  shows "\<not> snd (ancestry_loop nodes k visited c)" "fst (ancestry_loop nodes k visited c) = take k (fst (ancestry_loop nodes n visited c))"
proof -
  have "\<not> snd (ancestry_loop nodes k visited c) \<and> fst (ancestry_loop nodes k visited c) = take k (fst (ancestry_loop nodes n visited c))"
    using assms
  proof (induction n arbitrary: k visited c)
    case (Suc n)
    show ?case
    proof (cases k)
      case (Suc m)
      with Suc.prems Suc.IH [of _ _ m] show ?thesis
        by (auto simp: ancestry_loop_Suc simp del: ancestry_loop.simps(2) split: option.splits if_splits)
    qed simp
  qed simp
  then show "\<not> snd (ancestry_loop nodes k visited c)" "fst (ancestry_loop nodes k visited c) = take k (fst (ancestry_loop nodes n visited c))"
    by simp_all
qed

lemma ancestry_prefix_self: "ancestry_prefix_loop xs xs"
  by (induction xs) simp_all

lemma demoted_matches_self: "matchesLocalIdentity (readNodeLocalIdentity w) (demoteNonUniqueLocalIdentity (readNodeLocalIdentity w) nodes)"
  by (simp add: matchesLocalIdentity_def demoteNonUniqueLocalIdentity_def split: option.split)

lemma carries_own_identity:
  assumes "\<not> snd (buildAncestryChain w nodes limit)" "1 \<le> limit" "k \<le> length (fst (buildAncestryChain w nodes limit))"
    "length (fst (buildAncestryChain w nodes limit)) \<le> limit"
  shows "carries_identity nodes (demoteNonUniqueLocalIdentity (readNodeLocalIdentity w) nodes) (take k (fst (buildAncestryChain w nodes limit))) w"
proof -
  let ?full = "fst (buildAncestryChain w nodes limit)"
  have m: "max k 1 \<le> limit" using assms by linarith
  note short = ancestry_loop_shorter [OF assms(1) [unfolded buildAncestryChain_def] m]
  have len: "length (take k ?full) = k" using assms(3) by simp
  have walk: "\<not> snd (buildAncestryChain w nodes (max k 1))" "fst (buildAncestryChain w nodes (max k 1)) = take (max k 1) ?full"
    using short by (simp_all add: buildAncestryChain_def)
  have "matchesAncestryPrefix (take (max k 1) ?full) (take k ?full)"
  proof (cases "k = 0")
    case False
    then have "max k 1 = k" by simp
    then show ?thesis by (simp add: matchesAncestryPrefix_def ancestry_prefix_self)
  qed (simp add: matchesAncestryPrefix_def)
  with walk demoted_matches_self show ?thesis unfolding carries_identity_iff len by simp
qed

lemma ancestry_loop_length: "length (fst (ancestry_loop nodes n visited c)) \<le> n"
  by (induction n arbitrary: visited c) (auto simp: ancestry_loop_Suc simp del: ancestry_loop.simps(2) split: option.split)

lemma set_orderByViewportPosition: "set (orderByViewportPosition members) = set members"
proof -
  have "fst ` (\<lambda>(i, node). (node, i, resolveRectCenter (nd_rect node))) ` set (List.enumerate 0 members) = snd ` set (List.enumerate 0 members)"
    by (force simp: image_iff)
  also have "\<dots> = set members" by (metis map_snd_enumerate set_map)
  finally show ?thesis by (simp add: orderByViewportPosition_def)
qed

lemma region_keys_refl: "scrollRegionKeysEqual r r"
  by (cases r) (simp_all add: matchesLocalIdentity_def)

lemma find_index_nth:
  assumes "w \<in> set xs" "pred w" "\<And>x. x \<in> set xs \<Longrightarrow> pred x \<Longrightarrow> x = w"
  shows "nth_node xs (int (nat (max (find_index pred xs) 0))) = Some w"
proof -
  let ?i = "length (takeWhile (\<lambda>x. \<not> pred x) xs)"
  have i: "?i < length xs" using assms(1,2) length_takeWhile_le [of "\<lambda>x. \<not> pred x" xs]
    by (metis (no_types, lifting) le_neq_implies_less length_takeWhile_le set_takeWhileD takeWhile_eq_all_conv takeWhile_eq_take take_all_iff order_refl)
  then have "pred (xs ! ?i)" using nth_length_takeWhile by blast
  with i assms(3) have "xs ! ?i = w" by simp
  with i show ?thesis by (simp add: find_index_def nth_node_def)
qed

section \<open>The self-check at record time\<close>

definition evidence_identity :: "snapshot_node \<Rightarrow> snapshot_node list \<Rightarrow> local_identity" where
  "evidence_identity w nodes = demoteNonUniqueLocalIdentity (readNodeLocalIdentity w) nodes"

abbreviation recorded_walk :: "snapshot_node \<Rightarrow> snapshot_node list \<Rightarrow> ancestry_entry list \<times> bool" where
  "recorded_walk w nodes \<equiv> buildAncestryChain w nodes TARGET_ANNOTATION_MAX_ANCESTRY"

abbreviation lowest_length :: "snapshot_node \<Rightarrow> snapshot_node list \<Rightarrow> nat" where
  "lowest_length w nodes \<equiv> (if length (fst (recorded_walk w nodes)) > 0 then 1 else 0)"

lemma single_member: "x \<in> set xs \<Longrightarrow> length xs = 1 \<Longrightarrow> xs = [x]"
  by (cases xs) auto

lemma self_check_verified:
  assumes "w \<in> set (dd_identitySet d)" "w \<in> set (dd_siblingMatches d)"
    "dd_regionMembers d = Some members" "members \<noteq> []"
    "nth_ref (dd_orderedRegion d) (int (dd_viewportOrder d)) = Some (nd_ref w)"
  shows "runRecordTimeSelfCheck w d = Verified"
proof -
  have ne: "dd_identitySet d \<noteq> []" using assms(1) by auto
  consider "length (dd_identitySet d) = 1" | "length (dd_identitySet d) \<noteq> 1" "length (dd_siblingMatches d) = 1"
    | "length (dd_identitySet d) \<noteq> 1" "length (dd_siblingMatches d) \<noteq> 1" by blast
  then show ?thesis
  proof cases
    case 1
    then have "dd_identitySet d = [w]" using assms(1) single_member by metis
    then show ?thesis by (simp add: runRecordTimeSelfCheck_def classifyTargetBindingMatch_def)
  next
    case 2
    then have "dd_siblingMatches d = [w]" using assms(2) single_member by metis
    with 2 ne show ?thesis by (simp add: runRecordTimeSelfCheck_def classifyTargetBindingMatch_def)
  next
    case 3
    with ne assms(3-5) show ?thesis by (simp add: runRecordTimeSelfCheck_def classifyTargetBindingMatch_def)
  qed
qed

lemma own_domain_verified:
  assumes "distinct (map nd_index nodes)" "w \<in> set nodes" "carries_identity nodes identity ancestry w"
  shows "runRecordTimeSelfCheck w (computeDisambiguationDomain nodes w identity ancestry (siblingOrdinal nodes w)
    (computeScrollRegionKey w nodes)) = Verified"
proof -
  let ?S = "filterIdentitySet nodes nodes identity ancestry"
  let ?R = "filter (\<lambda>c. scrollRegionKeysEqual (computeScrollRegionKey c nodes) (computeScrollRegionKey w nodes)) ?S"
  have S: "w \<in> set ?S" using assms(2,3) by (simp add: filterIdentitySet_def)
  then have R: "w \<in> set ?R" by (simp add: region_keys_refl)
  have "x = w" if "x \<in> set (orderByViewportPosition ?R)" "nd_index x = nd_index w" for x
    using that assms(1,2) by (auto simp: set_orderByViewportPosition filterIdentitySet_def distinct_map inj_on_def)
  then have "nth_node (orderByViewportPosition ?R)
      (int (nat (max (find_index (\<lambda>c. nd_index c = nd_index w) (orderByViewportPosition ?R)) 0))) = Some w"
    using R by (intro find_index_nth) (auto simp: set_orderByViewportPosition)
  then have view: "nth_ref (orderByViewportPosition ?R)
      (int (nat (max (find_index (\<lambda>c. nd_index c = nd_index w) (orderByViewportPosition ?R)) 0))) = Some (nd_ref w)"
    by (simp add: nth_ref_def)
  have ne: "length ?S > 0" using S by (cases ?S) auto
  show ?thesis
  proof (rule self_check_verified [where members = ?R])
    show "?R \<noteq> []" using R by (cases ?R) auto
  qed (use S ne view in \<open>simp_all add: computeDisambiguationDomain_def Let_def\<close>)
qed

section \<open>The evidence loop\<close>

lemma evidence_loop_Some:
  assumes "evidence_loop nodes w identity full mode broken lowest n = Some e"
  shows "\<exists>k. lowest \<le> k \<and> k \<le> n \<and>
    ((fitsPayloadCeiling (fst (build_candidate nodes w identity full k)) \<and>
      e = (fst (build_candidate nodes w identity full k))
            \<lparr>ta_verification := resolveRecordTimeVerification w (snd (build_candidate nodes w identity full k)) mode broken\<rparr>) \<or>
     (k = lowest \<and> \<not> fitsPayloadCeiling (fst (build_candidate nodes w identity full k)) \<and>
      e = finalizeOversizedCandidate (fst (build_candidate nodes w identity full k))))"
  using assms
proof (induction n)
  case 0
  then show ?case
    by (subst (asm) evidence_loop.simps) (auto simp: Let_def split: if_splits prod.splits)
next
  case (Suc n)
  let ?b = "build_candidate nodes w identity full (Suc n)"
  note step = Suc.prems [unfolded evidence_loop.simps [of _ _ _ _ _ _ _ "Suc n"]]
  show ?case
  proof (cases "fitsPayloadCeiling (fst ?b) \<or> Suc n = lowest")
    case True
    with step have "lowest \<le> Suc n" by (auto split: if_splits)
    moreover from True step have "(fitsPayloadCeiling (fst ?b) \<and>
        e = (fst ?b)\<lparr>ta_verification := resolveRecordTimeVerification w (snd ?b) mode broken\<rparr>) \<or>
      (Suc n = lowest \<and> \<not> fitsPayloadCeiling (fst ?b) \<and> e = finalizeOversizedCandidate (fst ?b))"
      by (cases ?b) (auto split: if_splits)
    ultimately show ?thesis by blast
  next
    case False
    with step have "evidence_loop nodes w identity full mode broken lowest n = Some e"
      by (cases ?b) (auto split: if_splits)
    with Suc.IH show ?thesis by (meson le_SucI)
  qed
qed

lemma evidence_loop_fits:
  assumes "lowest \<le> n" "fitsPayloadCeiling (fst (build_candidate nodes w identity full lowest))"
  shows "\<exists>k e. lowest \<le> k \<and> k \<le> n \<and> evidence_loop nodes w identity full mode broken lowest n = Some e \<and>
    e = (fst (build_candidate nodes w identity full k))
          \<lparr>ta_verification := resolveRecordTimeVerification w (snd (build_candidate nodes w identity full k)) mode broken\<rparr>"
  using assms(1)
proof (induction n)
  case 0
  then show ?case
    using assms(2) by (subst evidence_loop.simps) (auto split: prod.split)
next
  case (Suc n)
  let ?b = "build_candidate nodes w identity full (Suc n)"
  show ?case
  proof (cases "fitsPayloadCeiling (fst ?b)")
    case True
    then show ?thesis
      using Suc.prems by (subst evidence_loop.simps) (cases ?b, auto)
  next
    case False
    with assms(2) Suc.prems have less: "lowest \<le> n" "Suc n \<noteq> lowest" by (auto simp: le_Suc_eq)
    with False have "evidence_loop nodes w identity full mode broken lowest (Suc n) =
        evidence_loop nodes w identity full mode broken lowest n"
      by (subst evidence_loop.simps) (cases ?b, auto)
    with Suc.IH [OF less(1)] show ?thesis by (metis le_SucI)
  qed
qed

definition evidence_candidate :: "snapshot_node \<Rightarrow> snapshot_node list \<Rightarrow> nat \<Rightarrow> target_annotation" where
  "evidence_candidate w nodes k = fst (build_candidate nodes w (evidence_identity w nodes) (fst (recorded_walk w nodes)) k)"

definition evidence_domain :: "snapshot_node \<Rightarrow> snapshot_node list \<Rightarrow> nat \<Rightarrow> disambiguation_domain" where
  "evidence_domain w nodes k =
     computeDisambiguationDomain nodes w (evidence_identity w nodes) (take k (fst (recorded_walk w nodes)))
       (siblingOrdinal nodes w) (computeScrollRegionKey w nodes)"

lemma build_candidate_evidence:
  "build_candidate nodes w (evidence_identity w nodes) (fst (recorded_walk w nodes)) k =
     (evidence_candidate w nodes k, evidence_domain w nodes k)"
  by (simp add: evidence_candidate_def evidence_domain_def build_candidate_def Let_def)

lemma evidence_candidate_fields:
  "annotationLocalIdentity (evidence_candidate w nodes k) = evidence_identity w nodes"
  "ta_ancestry (evidence_candidate w nodes k) = take k (fst (recorded_walk w nodes))"
  "ta_sibling (evidence_candidate w nodes k) = int (siblingOrdinal nodes w)"
  "ta_viewportOrder (evidence_candidate w nodes k) = int (dd_viewportOrder (evidence_domain w nodes k))"
  "ta_scrollRegion (evidence_candidate w nodes k) = computeScrollRegionKey w nodes"
  "ta_rect (evidence_candidate w nodes k) = boundedRect w"
  by (simp_all add: evidence_candidate_def evidence_domain_def build_candidate_def Let_def annotationLocalIdentity_def)

lemma evidence_unfold:
  "computeTargetEvidence w nodes mode =
     (if mode = LandmarkEvidence \<and> li_id (evidence_identity w nodes) = None \<and> li_label (evidence_identity w nodes) = None then None
      else evidence_loop nodes w (evidence_identity w nodes) (fst (recorded_walk w nodes)) mode (snd (recorded_walk w nodes))
             (lowest_length w nodes) (length (fst (recorded_walk w nodes))))"
  by (simp add: computeTargetEvidence_def evidence_identity_def Let_def split: prod.split)

lemma evidence_Some:
  assumes "computeTargetEvidence w nodes mode = Some e"
  shows "\<exists>k. lowest_length w nodes \<le> k \<and> k \<le> length (fst (recorded_walk w nodes)) \<and>
    (e = (evidence_candidate w nodes k)
          \<lparr>ta_verification := resolveRecordTimeVerification w (evidence_domain w nodes k) mode (snd (recorded_walk w nodes))\<rparr> \<and>
     fitsPayloadCeiling (evidence_candidate w nodes k) \<or>
     e = finalizeOversizedCandidate (evidence_candidate w nodes k))"
proof -
  have "evidence_loop nodes w (evidence_identity w nodes) (fst (recorded_walk w nodes)) mode (snd (recorded_walk w nodes))
      (lowest_length w nodes) (length (fst (recorded_walk w nodes))) = Some e"
    using assms unfolding evidence_unfold by (rule contrapos_pp) (simp split: if_split)
  from evidence_loop_Some [OF this, unfolded build_candidate_evidence fst_conv snd_conv] show ?thesis by blast
qed

lemma own_evidence_verified:
  assumes "distinct (map nd_index nodes)" "w \<in> set nodes" "\<not> snd (recorded_walk w nodes)" "k \<le> length (fst (recorded_walk w nodes))"
  shows "runRecordTimeSelfCheck w (evidence_domain w nodes k) = Verified"
proof -
  have "length (fst (recorded_walk w nodes)) \<le> TARGET_ANNOTATION_MAX_ANCESTRY"
    using ancestry_loop_length by (simp add: buildAncestryChain_def)
  then have "carries_identity nodes (evidence_identity w nodes) (take k (fst (recorded_walk w nodes))) w"
    using carries_own_identity [OF assms(3) _ assms(4)]
    by (simp add: evidence_identity_def TARGET_ANNOTATION_MAX_ANCESTRY_def)
  with own_domain_verified [OF assms(1,2)] show ?thesis by (simp add: evidence_domain_def)
qed

lemma finalize_unverifiable: "ta_verification (finalizeOversizedCandidate c) = Unverifiable"
  by (simp add: finalizeOversizedCandidate_def Let_def)

section \<open>Replay on the recorded tree\<close>

lemma filterIdentitySet_within:
  assumes "\<And>n. n \<in> set nodes \<Longrightarrow> matchesLocalIdentity (readNodeLocalIdentity n) identity \<Longrightarrow> p n"
  shows "filterIdentitySet (filter p nodes) nodes identity ancestry = filterIdentitySet nodes nodes identity ancestry"
  unfolding filterIdentitySet_def filter_filter
  by (rule filter_cong [OF refl]) (auto simp: carries_identity_iff assms)

lemma verified_winner_member:
  assumes "classifyTargetBindingMatch i = BindingVerified path" "set (bi_siblingMatchRefs i) \<subseteq> set (bi_identitySetRefs i)"
    "\<And>r. bi_viewportCandidateRef i = Some r \<Longrightarrow> r \<in> set (bi_identitySetRefs i)"
  shows "bi_winnerRef i \<in> set (bi_identitySetRefs i)"
proof -
  have one: "length xs = Suc 0 \<Longrightarrow> xs ! 0 = x \<Longrightarrow> set xs = {x}" for xs and x :: string by (cases xs) auto
  from assms show ?thesis
    unfolding classifyTargetBindingMatch_def by (auto dest!: one split: if_splits option.splits)
qed

lemma nth_ref_member: "nth_ref ns i = Some r \<Longrightarrow> r \<in> nd_ref ` set ns"
  by (auto simp: nth_ref_def nth_node_def split: if_splits)

lemma ref_found:
  assumes "distinct (map nd_ref nodes)" "w \<in> set nodes" "p w"
  shows "find (\<lambda>n. nd_ref n = nd_ref w) (filter p nodes) = Some w"
  using assms by (induction nodes) (auto simp: find_None_iff image_iff)

lemma replay_input_verified:
  assumes "outcome_of (classifyTargetBindingMatch \<lparr>bi_winnerRef = w, bi_matchedRefs = S, bi_identitySetRefs = S,
      bi_siblingMatchRefs = sib, bi_regionMemberRefs = Some reg, bi_viewportCandidateRef = cand\<rparr>) = Verified" "M \<noteq> []"
  shows "\<exists>path. classifyTargetBindingMatch \<lparr>bi_winnerRef = w, bi_matchedRefs = M, bi_identitySetRefs = S,
      bi_siblingMatchRefs = sib, bi_regionMemberRefs = Some reg, bi_viewportCandidateRef = cand\<rparr> = BindingVerified path"
  using assms by (auto simp: classifyTargetBindingMatch_def split: if_splits option.splits)

lemma verified_same_tree:
  assumes tree: "distinct (map nd_ref nodes)" "w \<in> set nodes"
    and ev: "computeTargetEvidence w nodes ActionEvidence = Some e" "ta_verification e = Verified"
    and p: "\<And>n. n \<in> set nodes \<Longrightarrow> matchesLocalIdentity (readNodeLocalIdentity n) (annotationLocalIdentity e) \<Longrightarrow> p n"
  shows "classify_matches e nodes \<lparr>tm_matchedNodes = filter p nodes, tm_winnerRef = nd_ref w\<rparr> =
    TargetVerified w (length (filter p nodes))"
proof -
  obtain k where e: "e = (evidence_candidate w nodes k)
      \<lparr>ta_verification := resolveRecordTimeVerification w (evidence_domain w nodes k) ActionEvidence (snd (recorded_walk w nodes))\<rparr>"
    using evidence_Some [OF ev(1)] ev(2) finalize_unverifiable by force
  have check: "runRecordTimeSelfCheck w (evidence_domain w nodes k) = Verified"
    using ev(2) unfolding e by (simp add: resolveRecordTimeVerification_def split: if_splits)
  define S where "S = filterIdentitySet nodes nodes (evidence_identity w nodes) (take k (fst (recorded_walk w nodes)))"
  define sib where "sib = filter (\<lambda>c. siblingOrdinal nodes c = siblingOrdinal nodes w) S"
  define reg where "reg = filter (\<lambda>c. scrollRegionKeysEqual (computeScrollRegionKey c nodes) (computeScrollRegionKey w nodes)) S"
  define view where "view = int (dd_viewportOrder (evidence_domain w nodes k))"
  have fields: "annotationLocalIdentity e = evidence_identity w nodes" "ta_ancestry e = take k (fst (recorded_walk w nodes))"
    "ta_sibling e = int (siblingOrdinal nodes w)" "ta_viewportOrder e = view" "ta_scrollRegion e = computeScrollRegionKey w nodes"
    using evidence_candidate_fields [of w nodes k] by (simp_all add: e annotationLocalIdentity_def view_def)
  have same: "filterIdentitySet (filter p nodes) nodes (annotationLocalIdentity e) (ta_ancestry e) = S"
    unfolding S_def using p filterIdentitySet_within [of nodes "annotationLocalIdentity e" p] by (simp add: fields)
  have dom: "dd_identitySet (evidence_domain w nodes k) = S" "dd_siblingMatches (evidence_domain w nodes k) = sib"
    "dd_regionMembers (evidence_domain w nodes k) = (if S = [] then None else Some reg)"
    "S \<noteq> [] \<Longrightarrow> dd_orderedRegion (evidence_domain w nodes k) = orderByViewportPosition reg"
    by (simp_all add: evidence_domain_def computeDisambiguationDomain_def Let_def S_def sib_def reg_def)
  have "S \<noteq> []"
  proof
    assume "S = []"
    with check show False by (simp add: runRecordTimeSelfCheck_def dom(1) classifyTargetBindingMatch_def)
  qed
  let ?cand = "nth_ref (orderByViewportPosition reg) view"
  have sub: "set S \<subseteq> set (filter p nodes)" using same unfolding filterIdentitySet_def by (metis filter_is_subset)
  with \<open>S \<noteq> []\<close> have ne: "map nd_ref (filter p nodes) \<noteq> []" by (metis Nil_is_map_conv set_empty subset_empty)
  have "outcome_of (classifyTargetBindingMatch \<lparr>bi_winnerRef = nd_ref w, bi_matchedRefs = map nd_ref S, bi_identitySetRefs = map nd_ref S,
      bi_siblingMatchRefs = map nd_ref sib, bi_regionMemberRefs = Some (map nd_ref reg), bi_viewportCandidateRef = ?cand\<rparr>) = Verified"
    using check \<open>S \<noteq> []\<close> unfolding runRecordTimeSelfCheck_def dom(1-3) dom(4) [OF \<open>S \<noteq> []\<close>] view_def Let_def by simp
  from replay_input_verified [OF this ne] obtain path where path: "classifyTargetBindingMatch
      \<lparr>bi_winnerRef = nd_ref w, bi_matchedRefs = map nd_ref (filter p nodes), bi_identitySetRefs = map nd_ref S,
       bi_siblingMatchRefs = map nd_ref sib, bi_regionMemberRefs = Some (map nd_ref reg), bi_viewportCandidateRef = ?cand\<rparr> =
    BindingVerified path" ..
  have "nd_ref w \<in> nd_ref ` set S"
    using verified_winner_member [OF path] nth_ref_member
    by (force simp: sib_def reg_def set_orderByViewportPosition)
  then have "p w" using sub tree by (auto simp: distinct_map inj_on_def)
  note found = ref_found [where p = p, OF tree this]
  show ?thesis
    unfolding classify_matches_def Let_def target_matches.select_convs same
    unfolding fields of_nat_eq_iff
    unfolding sib_def [symmetric] reg_def [symmetric] path target_binding.case found by simp
qed

section \<open>What a verified target is\<close>

text \<open>The members of the identity set \<open>I\<close> are told apart: the set has one, one is at the recorded place among its siblings,
  or one is at the recorded place of its scroll region.\<close>

definition isolated_by ::
    "target_annotation \<Rightarrow> snapshot_node list \<Rightarrow> snapshot_node list \<Rightarrow> snapshot_node \<Rightarrow> bool" where
  "isolated_by e nodes I w \<longleftrightarrow>
     I = [w] \<or>
     filter (\<lambda>c. int (siblingOrdinal nodes c) = ta_sibling e) I = [w] \<or>
     nth_node (orderByViewportPosition
       (filter (\<lambda>c. scrollRegionKeysEqual (computeScrollRegionKey c nodes) (ta_scrollRegion e)) I)) (ta_viewportOrder e) = Some w"

lemma verified_input:
  assumes "classifyTargetBindingMatch i = BindingVerified path"
  shows "bi_identitySetRefs i = [bi_winnerRef i] \<or> bi_siblingMatchRefs i = [bi_winnerRef i] \<or>
    bi_viewportCandidateRef i = Some (bi_winnerRef i)"
proof -
  have one: "length xs = Suc 0 \<Longrightarrow> xs ! 0 = x \<Longrightarrow> xs = [x]" for xs and x :: string by (cases xs) auto
  from assms show ?thesis
    unfolding classifyTargetBindingMatch_def by (auto dest!: one split: if_splits option.splits)
qed

lemma list_matches_within: "list_matches_loop nodes p rr i sels = Some (sel, j, matched) \<Longrightarrow> set matched \<subseteq> set nodes"
  by (induction sels arbitrary: i) (auto simp: Let_def split: if_splits)

lemma matches_within: "set (tm_matchedNodes (resolveTargetMatches token nodes p refLabel requireRect disambiguate)) \<subseteq> set nodes"
proof -
  have "findNodeByRef nodes r = Some n \<Longrightarrow> n \<in> set nodes" for r n
    by (auto simp: findNodeByRef_def find_Some_iff split: option.splits)
  moreover have "findNodeByLabel nodes l = Some n \<Longrightarrow> n \<in> set nodes" for l n
    by (auto simp: findNodeByLabel_def find_Some_iff Let_def split: option.splits)
  ultimately have "set (tm_matchedNodes (resolveRefTargetMatches nodes token refLabel requireRect)) \<subseteq> set nodes"
    by (auto simp: resolveRefTargetMatches_def usable_target_def Let_def split: option.splits if_splits)
  moreover have "set (tm_matchedNodes (resolveSelectorTargetMatches nodes token p requireRect disambiguate)) \<subseteq> set nodes"
    unfolding resolveSelectorTargetMatches_def listSelectorChainMatches_def
    by (auto dest!: list_matches_within [OF sym] split: option.splits if_splits)
  ultimately show ?thesis by (simp add: resolveTargetMatches_def)
qed

lemma same_ref: "distinct (map nd_ref nodes) \<Longrightarrow> x \<in> set nodes \<Longrightarrow> w \<in> set nodes \<Longrightarrow> nd_ref x = nd_ref w \<Longrightarrow> x = w"
  by (auto simp: distinct_map inj_on_def)

lemma verified_matches:
  assumes "distinct (map nd_ref nodes)" "set (tm_matchedNodes m) \<subseteq> set nodes" "classify_matches e nodes m = TargetVerified w n"
  shows "w \<in> set nodes \<and> nd_ref w = tm_winnerRef m \<and>
    carries_identity nodes (annotationLocalIdentity e) (ta_ancestry e) w \<and>
    isolated_by e nodes (filterIdentitySet (tm_matchedNodes m) nodes (annotationLocalIdentity e) (ta_ancestry e)) w"
proof -
  define I where "I = filterIdentitySet (tm_matchedNodes m) nodes (annotationLocalIdentity e) (ta_ancestry e)"
  define sib where "sib = filter (\<lambda>c. int (siblingOrdinal nodes c) = ta_sibling e) I"
  define reg where "reg = filter (\<lambda>c. scrollRegionKeysEqual (computeScrollRegionKey c nodes) (ta_scrollRegion e)) I"
  let ?in = "\<lparr>bi_winnerRef = tm_winnerRef m, bi_matchedRefs = map nd_ref (tm_matchedNodes m), bi_identitySetRefs = map nd_ref I,
    bi_siblingMatchRefs = map nd_ref sib, bi_regionMemberRefs = Some (map nd_ref reg),
    bi_viewportCandidateRef = nth_ref (orderByViewportPosition reg) (ta_viewportOrder e)\<rparr>"
  have "\<exists>path. classifyTargetBindingMatch ?in = BindingVerified path \<and>
      find (\<lambda>node. nd_ref node = tm_winnerRef m) (tm_matchedNodes m) = Some w"
    using assms(3) unfolding classify_matches_def Let_def I_def [symmetric]
    unfolding sib_def [symmetric] reg_def [symmetric] by (auto split: target_binding.splits option.splits)
  then obtain path where path: "classifyTargetBindingMatch ?in = BindingVerified path"
    and w: "w \<in> set (tm_matchedNodes m)" "nd_ref w = tm_winnerRef m"
    by (auto simp: find_Some_iff)
  have wn: "w \<in> set nodes" using w assms(2) by blast
  have I: "set I \<subseteq> set nodes" using assms(2) by (auto simp: I_def filterIdentitySet_def)
  have one: "map nd_ref xs = [nd_ref w] \<Longrightarrow> set xs \<subseteq> set nodes \<Longrightarrow> xs = [w]" for xs
    using same_ref [OF assms(1) _ wn] by (cases xs) auto
  have reg: "set (orderByViewportPosition reg) \<subseteq> set I" by (auto simp: set_orderByViewportPosition reg_def)
  have isolated: "isolated_by e nodes I w"
    using verified_input [OF path]
  proof (elim disjE)
    assume "bi_identitySetRefs ?in = [bi_winnerRef ?in]"
    then show ?thesis using one [of I] I by (simp add: isolated_by_def w(2))
  next
    assume "bi_siblingMatchRefs ?in = [bi_winnerRef ?in]"
    then have "sib = [w]" using one [of sib] I by (auto simp: sib_def w(2))
    then show ?thesis by (simp add: isolated_by_def sib_def)
  next
    assume "bi_viewportCandidateRef ?in = Some (bi_winnerRef ?in)"
    then obtain x where x: "nth_node (orderByViewportPosition reg) (ta_viewportOrder e) = Some x" "nd_ref x = nd_ref w"
      by (auto simp: nth_ref_def w(2))
    then have "x \<in> set (orderByViewportPosition reg)" by (auto simp: nth_node_def split: if_splits)
    then have "x = w" using same_ref [OF assms(1) _ wn x(2)] reg I by blast
    then show ?thesis using x by (simp add: isolated_by_def reg_def)
  qed
  have "w \<in> set I"
    using isolated unfolding isolated_by_def reg_def [symmetric] sib_def [symmetric]
  proof (elim disjE)
    assume "sib = [w]"
    then have "w \<in> set sib" by simp
    then show ?thesis by (simp add: sib_def)
  next
    assume "nth_node (orderByViewportPosition reg) (ta_viewportOrder e) = Some w"
    then have "w \<in> set (orderByViewportPosition reg)" by (auto simp: nth_node_def split: if_splits)
    with reg show ?thesis by blast
  qed simp
  then have "carries_identity nodes (annotationLocalIdentity e) (ta_ancestry e) w" by (simp add: I_def filterIdentitySet_def)
  with wn w(2) isolated show ?thesis by (simp add: I_def)
qed

section \<open>Properties\<close>

definition tree_button :: "int \<Rightarrow> string \<Rightarrow> string \<Rightarrow> rat \<Rightarrow> rat \<Rightarrow> int option \<Rightarrow> snapshot_node" where
  "tree_button i ref label y side parent =
     \<lparr>nd_index = i, nd_type = Some ''Button'', nd_role = None, nd_subrole = None, nd_label = Some label, nd_value = None,
      nd_identifier = None, nd_rect = Some \<lparr>rx = 0, ry = y, rwidth = side, rheight = side\<rparr>, nd_enabled = None, nd_selected = None,
      nd_focused = None, nd_visibleToUser = None, nd_hittable = None, nd_depth = None, nd_parentIndex = parent, nd_pid = None,
      nd_bundleId = None, nd_appName = None, nd_windowTitle = None, nd_surface = None, nd_hiddenContentAbove = None,
      nd_hiddenContentBelow = None, nd_interactionBlocked = None, nd_presentationHints = None, nd_ref = ref,
      nd_inheritsLabel = False, nd_inheritsIdentifier = False\<rparr>"

text \<open>Two equal buttons under one parent, told apart by their place among the siblings.\<close>

definition twin_tree :: "snapshot_node list" where
  "twin_tree = [tree_button 0 ''e1'' ''Row'' 0 40 None, tree_button 1 ''e2'' ''Add'' 0 10 (Some 0), tree_button 2 ''e3'' ''Add'' 20 5 (Some 0)]"

definition twin :: snapshot_node where
  "twin = tree_button 2 ''e3'' ''Add'' 20 5 (Some 0)"

lemma twin_facts:
  "distinct (map nd_index twin_tree)" "distinct (map nd_ref twin_tree)" "twin \<in> set twin_tree"
  "\<not> snd (recorded_walk twin twin_tree)" "fitsPayloadCeiling (evidence_candidate twin twin_tree (lowest_length twin twin_tree))"
  by code_simp+

text \<open>C25. Evidence recorded for an action on a well-formed tree is never refused by the recorder itself: when the indexes are
  distinct, the walk to the root is unbroken and the shortest form fits the payload cap, the annotation is emitted as verified.\<close>

theorem recorded_evidence_verified:
  assumes "distinct (map nd_index nodes)" "w \<in> set nodes" "\<not> snd (recorded_walk w nodes)"
    and "fitsPayloadCeiling (evidence_candidate w nodes (lowest_length w nodes))"
  shows "\<exists>e. computeTargetEvidence w nodes ActionEvidence = Some e \<and> ta_verification e = Verified"
proof -
  let ?n = "length (fst (recorded_walk w nodes))"
  have low: "lowest_length w nodes \<le> ?n" by (cases "fst (recorded_walk w nodes)") simp_all
  from evidence_loop_fits [OF low, of nodes w "evidence_identity w nodes" "fst (recorded_walk w nodes)" ActionEvidence
      "snd (recorded_walk w nodes)", unfolded build_candidate_evidence fst_conv snd_conv, OF assms(4)]
  obtain k where k: "k \<le> ?n" "computeTargetEvidence w nodes ActionEvidence = Some ((evidence_candidate w nodes k)
      \<lparr>ta_verification := resolveRecordTimeVerification w (evidence_domain w nodes k) ActionEvidence (snd (recorded_walk w nodes))\<rparr>)"
    unfolding evidence_unfold by auto
  have "resolveRecordTimeVerification w (evidence_domain w nodes k) ActionEvidence (snd (recorded_walk w nodes)) = Verified"
    using own_evidence_verified [OF assms(1-3) k(1)] assms(3) by (simp add: resolveRecordTimeVerification_def)
  with k(2) show ?thesis by simp
qed

theorem recorded_evidence_verified_witness:
  "\<exists>e. computeTargetEvidence twin twin_tree ActionEvidence = Some e \<and> ta_verification e = Verified"
  by (rule recorded_evidence_verified [OF twin_facts(1,3-5)])

definition twin_evidence :: target_annotation where
  "twin_evidence = \<lparr>ta_id = None, ta_role = ''button'', ta_label = Some ''Add'', ta_ancestry = [\<lparr>ae_role = ''button'', ae_label = Some ''Row''\<rparr>],
     ta_sibling = 1, ta_viewportOrder = 1, ta_scrollRegion = None, ta_rect = Some \<lparr>tr_x = 0, tr_y = 20, tr_width = 5, tr_height = 5\<rparr>,
     ta_verification = Verified\<rparr>"

lemma twin_evidence_computed: "computeTargetEvidence twin twin_tree ActionEvidence = Some twin_evidence"
  by code_simp

lemma twin_resolution:
  "resolveTargetMatches ''label=Add'' twin_tree PIos None True True =
     \<lparr>tm_matchedNodes = filter (\<lambda>n. nd_label n = Some ''Add'') twin_tree, tm_winnerRef = nd_ref twin\<rparr>"
  by code_simp

text \<open>C24. Record and replay agree: an annotation the recorder emitted as verified for a node verifies that very node when the
  replay resolves it on the same tree, provided the selector matches every node that carries the recorded identity.\<close>

theorem verified_evidence_replays:
  assumes "distinct (map nd_ref nodes)" "w \<in> set nodes"
    and "computeTargetEvidence w nodes ActionEvidence = Some e" "ta_verification e = Verified"
    and "resolveTargetMatches token nodes pf refLabel requireRect disambiguate =
      \<lparr>tm_matchedNodes = filter p nodes, tm_winnerRef = nd_ref w\<rparr>"
    and "\<forall>n \<in> set nodes. matchesLocalIdentity (readNodeLocalIdentity n) (annotationLocalIdentity e) \<longrightarrow> p n"
  shows "classifyReplayTarget e token nodes pf refLabel requireRect disambiguate = TargetVerified w (length (filter p nodes))"
  unfolding classifyReplayTarget_def assms(5) using assms(6) by (intro verified_same_tree [OF assms(1-4)]) blast

theorem verified_evidence_replays_witness:
  "classifyReplayTarget twin_evidence ''label=Add'' twin_tree PIos None True True = TargetVerified twin 2"
proof -
  have "\<forall>n \<in> set twin_tree. matchesLocalIdentity (readNodeLocalIdentity n) (annotationLocalIdentity twin_evidence) \<longrightarrow>
      nd_label n = Some ''Add''" by code_simp
  moreover have "ta_verification twin_evidence = Verified" by (simp add: twin_evidence_def)
  ultimately have "classifyReplayTarget twin_evidence ''label=Add'' twin_tree PIos None True True =
      TargetVerified twin (length (filter (\<lambda>n. nd_label n = Some ''Add'') twin_tree))"
    by (intro verified_evidence_replays [OF twin_facts(2,3) twin_evidence_computed _ twin_resolution])
  moreover have "length (filter (\<lambda>n. nd_label n = Some ''Add'') twin_tree) = 2" by code_simp
  ultimately show ?thesis by simp
qed

lemma twin_classified: "classifyReplayTarget twin_evidence ''label=Add'' twin_tree PIos None True True = TargetVerified twin 2"
  by code_simp

text \<open>C23. Replay verifies no other element: a verified target is a node of the tree that carries the recorded identity below the
  recorded ancestors, and it is the only such match, the only one at the recorded place among its siblings, or the one at
  the recorded place of its scroll region.\<close>

theorem verified_target_is_isolated:
  assumes "distinct (map nd_ref nodes)"
    and "classifyReplayTarget e token nodes pf refLabel requireRect disambiguate = TargetVerified w n"
  shows "w \<in> set nodes \<and>
    nd_ref w = tm_winnerRef (resolveTargetMatches token nodes pf refLabel requireRect disambiguate) \<and>
    carries_identity nodes (annotationLocalIdentity e) (ta_ancestry e) w \<and>
    isolated_by e nodes
      (filterIdentitySet (tm_matchedNodes (resolveTargetMatches token nodes pf refLabel requireRect disambiguate)) nodes
        (annotationLocalIdentity e) (ta_ancestry e)) w"
  using verified_matches [OF assms(1) matches_within] assms(2) unfolding classifyReplayTarget_def by blast

theorem verified_target_is_isolated_witness:
  "carries_identity twin_tree (annotationLocalIdentity twin_evidence) (ta_ancestry twin_evidence) twin"
  using verified_target_is_isolated [OF twin_facts(2) twin_classified] by blast

end
