(* ===== verification/TargetEvidence.thy ===== *)
theory TargetEvidence
  imports TargetBinding
begin

text \<open>
  The annotations the recorder emits, as the parser of scripts reads them: the invariant between the
  writer (\<^verbatim>\<open>src/daemon/session-target-evidence.ts\<close>) and the parser
  (\<^verbatim>\<open>packages/ad-script/src/internal/target-annotation-serde.ts\<close>), and where it fails.
\<close>

section \<open>Recorded annotations can be read\<close>

text \<open>A node whose label survives the cap of 256 bytes: what is left of it is still normalized.\<close>

definition label_stable :: "'a raw_node_scheme \<Rightarrow> bool" where
  "label_stable n \<longleftrightarrow> normalizeLabelField (li_label (readNodeLocalIdentity n)) = li_label (readNodeLocalIdentity n)"

lemma truncate_nonempty: "s \<noteq> [] \<Longrightarrow> truncateToUtf8Bytes s TARGET_ANNOTATION_MAX_FIELD_BYTES \<noteq> []"
proof -
  assume s: "s \<noteq> []"
  have "truncate_loop s 256 n \<noteq> 0" if "0 < n" for n
    using that
  proof (induction n)
    case (Suc n)
    show ?case
    proof (cases n)
      case 0
      have "utf8ByteLength (take 1 s) \<le> 2" using s by (cases s) (simp_all add: utf8ByteLength_def)
      then show ?thesis by (simp add: 0)
    qed (use Suc.IH in simp)
  qed simp
  with s show ?thesis by (simp add: truncateToUtf8Bytes_def TARGET_ANNOTATION_MAX_FIELD_BYTES_def)
qed

lemma identity_fields_ok:
  "identifier_ok (li_id (readNodeLocalIdentity n))" "field_fits (li_role (readNodeLocalIdentity n))"
  "label_stable n \<Longrightarrow> label_ok (li_label (readNodeLocalIdentity n))"
proof -
  have fits: "field_fits (truncateToUtf8Bytes s TARGET_ANNOTATION_MAX_FIELD_BYTES)" for s by (simp add: field_fits_def truncate_fits)
  have id: "li_id (readNodeLocalIdentity n) =
      map_option (\<lambda>i. truncateToUtf8Bytes i TARGET_ANNOTATION_MAX_FIELD_BYTES) (normalizeIdentifierField (nd_identifier n))"
    and role: "li_role (readNodeLocalIdentity n) = truncateToUtf8Bytes (normalizeType (or_empty (nd_type n))) TARGET_ANNOTATION_MAX_FIELD_BYTES"
    and label: "li_label (readNodeLocalIdentity n) =
      map_option (\<lambda>l. truncateToUtf8Bytes l TARGET_ANNOTATION_MAX_FIELD_BYTES) (normalizeLabelField (nd_label n))"
    by (simp_all add: readNodeLocalIdentity_def)
  have "i \<noteq> []" if "normalizeIdentifierField (nd_identifier n) = Some i" for i
    using that by (auto simp: normalizeIdentifierField_def split: option.splits if_splits)
  then show "identifier_ok (li_id (readNodeLocalIdentity n))"
    unfolding id by (cases "normalizeIdentifierField (nd_identifier n)")
      (simp_all add: identifier_ok_def fits normalizeIdentifierField_def truncate_nonempty)
  show "field_fits (li_role (readNodeLocalIdentity n))" unfolding role by (rule fits)
  have "field_fits t" if "li_label (readNodeLocalIdentity n) = Some t" for t
    using that fits unfolding label by auto
  then show "label_stable n \<Longrightarrow> label_ok (li_label (readNodeLocalIdentity n))" by (simp add: label_ok_def label_stable_def)
qed

lemma ancestry_loop_ok:
  assumes "\<forall>n \<in> set nodes. label_stable n"
  shows "list_all (\<lambda>e. field_fits (ae_role e) \<and> label_ok (ae_label e)) (fst (ancestry_loop nodes k visited c))"
proof (induction k arbitrary: visited c)
  case (Suc k)
  have "field_fits (ae_role (ancestry_entry_of parent)) \<and> label_ok (ae_label (ancestry_entry_of parent))"
    if "Option.bind (nd_parentIndex c) (node_at_index nodes) = Some parent" for parent
  proof -
    have "parent \<in> set nodes" using that by (cases "nd_parentIndex c") (auto dest: node_at_index_mem)
    then show ?thesis using assms identity_fields_ok [of parent] by (simp add: ancestry_entry_of_def Let_def)
  qed
  with Suc show ?case
    by (auto simp: ancestry_loop_Suc simp del: ancestry_loop.simps(2) split: option.split)
qed simp

lemma collect_ancestors_within: "set (collect_ancestors nodes visited i) \<subseteq> set nodes"
proof (induction nodes visited i rule: collect_ancestors.induct)
  case (1 nodes visited i)
  have "current \<in> set nodes" if "Option.bind i (node_at_index nodes) = Some current" for current
    using that by (cases i) (auto dest: node_at_index_mem)
  show ?case
  proof (cases "Option.bind i (node_at_index nodes)")
    case None
    then show ?thesis by (simp add: collect_ancestors.simps [of nodes visited i])
  next
    case (Some current)
    with 1 [OF Some] show ?thesis
      using \<open>Option.bind i (node_at_index nodes) = Some current \<Longrightarrow> current \<in> set nodes\<close>
      by (auto simp: collect_ancestors.simps [of nodes visited i])
  qed
qed

lemma region_key_ok:
  assumes "\<forall>n \<in> set nodes. label_stable n" "computeScrollRegionKey w nodes = Some r"
  shows "field_fits (rg_role r) \<and> identifier_ok (rg_id r) \<and> label_ok (rg_label r)"
proof -
  have none: "identifier_ok None" "label_ok None" by (simp_all add: identifier_ok_def label_ok_def normalizeIdentifierField_def normalizeLabelField_def)
  obtain c where "findNearestScrollableContainer w nodes False = Some c"
    and r: "r = (let identity = readNodeLocalIdentity c
          in if li_id identity \<noteq> None then \<lparr>rg_role = li_role identity, rg_id = li_id identity, rg_label = None\<rparr>
                   else if li_label identity \<noteq> None then \<lparr>rg_role = li_role identity, rg_id = None, rg_label = li_label identity\<rparr>
                   else \<lparr>rg_role = li_role identity, rg_id = None, rg_label = None\<rparr>)"
    using assms(2) by (auto simp: computeScrollRegionKey_def Let_def split: option.splits)
  then have "c \<in> set nodes"
    using collect_ancestors_within [of nodes "[]" "nd_parentIndex w"]
    unfolding findNearestScrollableContainer_def find_nearest_ancestor_def collectAncestors_def
    by (auto simp: find_Some_iff dest: nth_mem)
  with assms(1) identity_fields_ok [of c] none show ?thesis unfolding r Let_def by simp
qed

lemma sibling_loop_bound: "sibling_loop node k ns \<le> k + length ns"
proof (induction ns arbitrary: k)
  case (Cons n ns)
  from Cons.IH [of k] Cons.IH [of "Suc k"] show ?case by auto
qed simp

lemma siblingOrdinal_bound: "siblingOrdinal nodes node \<le> length nodes"
  using sibling_loop_bound [of node 0 nodes] by (simp add: siblingOrdinal_def)

lemma viewport_order_bound: "dd_viewportOrder (evidence_domain w nodes k) \<le> length nodes"
proof -
  have "length (orderByViewportPosition xs) = length xs" for xs :: "snapshot_node list" by (simp add: orderByViewportPosition_def)
  moreover have "nat (max (find_index p xs) 0) \<le> length xs" for p and xs :: "snapshot_node list" by (simp add: find_index_def Let_def)
  ultimately have order: "nat (max (find_index p (orderByViewportPosition xs)) 0) \<le> length xs" for p and xs :: "snapshot_node list"
    by metis
  have "length (filter q (filterIdentitySet nodes nodes i a)) \<le> length nodes" for q i a
    unfolding filterIdentitySet_def by (meson le_trans length_filter_le)
  with order have some: "nat (max (find_index p (orderByViewportPosition (filter q (filterIdentitySet nodes nodes i a)))) 0) \<le> length nodes" for p q i a
    by (meson le_trans)
  have "nat (max (find_index p []) 0) \<le> length nodes" for p :: "snapshot_node \<Rightarrow> bool" by (simp add: find_index_def)
  with some show ?thesis
    unfolding evidence_domain_def computeDisambiguationDomain_def Let_def by simp
qed

section \<open>The size of an annotation\<close>

lemma js_join_last: "js_join sep (xs @ [y]) = (if xs = [] then y else js_join sep xs @ sep @ y)"
proof (induction xs)
  case (Cons x xs)
  show ?case
  proof (cases xs)
    case (Cons z zs)
    then show ?thesis using Cons.IH by (simp add: js_join_more)
  qed (simp add: js_join_more)
qed simp

lemma utf8_append: "utf8ByteLength (s @ t) = utf8ByteLength s + utf8ByteLength t"
  by (simp add: utf8ByteLength_def)

lemma serialized_verification:
  "\<exists>head. \<forall>v. serializeTargetAnnotationV1 (e\<lparr>ta_verification := v\<rparr>) =
     head @ member_text (Some ''verification'', JStr (verification_text v)) @ ''}''"
proof -
  let ?ms = "butlast (canonical_members e)"
  have "canonical_members (e\<lparr>ta_verification := v\<rparr>) = ?ms @ [(Some ''verification'', JStr (verification_text v))]" for v
    by (simp add: canonical_members_def butlast_append)
  moreover have "serializeTargetAnnotationV1 a = CHR ''{'' # js_join '','' (map member_text (canonical_members a)) @ ''}''" for a
    unfolding serializeTargetAnnotationV1_def buildCanonicalTargetAnnotationObject_def canonical_members_def
    by (rule json_stringify_JObj)
  ultimately have "serializeTargetAnnotationV1 (e\<lparr>ta_verification := v\<rparr>) =
      CHR ''{'' # js_join '','' (map member_text ?ms @ [member_text (Some ''verification'', JStr (verification_text v))]) @ ''}''" for v
    by simp
  then show ?thesis
    by (intro exI [of _ "CHR ''{'' # (if map member_text ?ms = [] then [] else js_join '','' (map member_text ?ms) @ '','')"])
      (auto simp: js_join_last)
qed

text \<open>The recorder measures an annotation with its longest verification; the one it emits is no longer.\<close>

lemma emitted_fits:
  assumes "fitsPayloadCeiling e"
  shows "utf8ByteLength (serializeTargetAnnotationV1 (e\<lparr>ta_verification := v\<rparr>)) \<le> TARGET_ANNOTATION_MAX_PAYLOAD_BYTES"
proof -
  obtain head where head: "\<And>v. serializeTargetAnnotationV1 (e\<lparr>ta_verification := v\<rparr>) =
     head @ member_text (Some ''verification'', JStr (verification_text v)) @ ''}''"
    using serialized_verification by blast
  have "utf8ByteLength (member_text (Some ''verification'', JStr (verification_text Verified))) \<le>
      utf8ByteLength (member_text (Some ''verification'', JStr (verification_text Unverifiable)))" by code_simp
  then show ?thesis
    using assms unfolding fitsPayloadCeiling_def head utf8_append by (cases v) simp_all
qed

lemma evidence_candidate_identity:
  "ta_id (evidence_candidate w nodes k) = li_id (evidence_identity w nodes)"
  "ta_role (evidence_candidate w nodes k) = li_role (evidence_identity w nodes)"
  "ta_label (evidence_candidate w nodes k) = li_label (evidence_identity w nodes)"
  using evidence_candidate_fields(1) [of w nodes k, symmetric] by (simp_all add: annotationLocalIdentity_def)

lemma evidence_candidate_ok:
  assumes "\<forall>n \<in> set nodes. label_stable n" "label_stable w" "length nodes \<le> 2 ^ 53 - 1"
  shows "annotation_ok (evidence_candidate w nodes k)"
proof -
  let ?e = "evidence_candidate w nodes k"
  have none: "identifier_ok None" by (simp add: identifier_ok_def normalizeIdentifierField_def)
  have "identifier_ok (ta_id ?e)" "field_fits (ta_role ?e)" "label_ok (ta_label ?e)"
    using identity_fields_ok [of w] assms(2) none
    by (auto simp: evidence_candidate_identity evidence_identity_def demoteNonUniqueLocalIdentity_def split: option.split)
  moreover have "ancestry_ok (ta_ancestry ?e)"
    using ancestry_loop_ok [OF assms(1)] ancestry_loop_length [of nodes TARGET_ANNOTATION_MAX_ANCESTRY "[nd_index w]" w]
    by (auto simp: ancestry_ok_def evidence_candidate_fields buildAncestryChain_def list_all_iff dest!: in_set_takeD)
  moreover have "of_nat n \<le> max_safe_integer" if "n \<le> length nodes" for n
    using that assms(3) by (simp add: max_safe_integer_def)
  ultimately show ?thesis
    using siblingOrdinal_bound [of nodes w] viewport_order_bound [of w nodes k] region_key_ok [OF assms(1)]
    by (simp add: annotation_ok_def evidence_candidate_fields)
qed

definition plain_rect :: "'a raw_node_scheme \<Rightarrow> bool" where
  "plain_rect n \<longleftrightarrow> (case nd_rect n of None \<Rightarrow> True
     | Some r \<Rightarrow> plain_number (rx r) \<and> plain_number (ry r) \<and> plain_number (rwidth r) \<and> plain_number (rheight r))"

section \<open>Properties\<close>

text \<open>C26. Whatever evidence the recorder emits as verified, the parser of scripts reads back exactly: the comment line of the
  annotation parses to the annotation, as long as the capped labels of the tree are still normalized.\<close>

theorem recorded_evidence_readable:
  assumes "\<forall>n \<in> set nodes. label_stable n" "w \<in> set nodes" "plain_rect w" "length nodes \<le> 2 ^ 53 - 1"
    and "computeTargetEvidence w nodes mode = Some e" "ta_verification e = Verified"
  shows "parseTargetAnnotationCommentLine (formatTargetAnnotationCommentLine e) = Inr (AnnotationV1 e)"
proof -
  obtain k v where e: "e = (evidence_candidate w nodes k)\<lparr>ta_verification := v\<rparr>" and fits: "fitsPayloadCeiling (evidence_candidate w nodes k)"
    using evidence_Some [OF assms(5)] assms(6) finalize_unverifiable by force
  have "annotation_ok (c\<lparr>ta_verification := v\<rparr>) = annotation_ok c" for c by (simp add: annotation_ok_def)
  then have "annotation_ok e" using evidence_candidate_ok [OF assms(1) _ assms(4)] assms(1,2) by (simp add: e)
  moreover have "rect_plain e"
    using assms(3) by (auto simp: e rect_plain_def plain_rect_def evidence_candidate_fields boundedRect_def split: option.splits)
  ultimately show ?thesis unfolding e using emitted_fits [OF fits] annotation_read by blast
qed

theorem recorded_evidence_readable_witness:
  "parseTargetAnnotationCommentLine (formatTargetAnnotationCommentLine twin_evidence) = Inr (AnnotationV1 twin_evidence)"
proof -
  have "\<forall>n \<in> set twin_tree. label_stable n" by code_simp
  moreover have "length twin_tree \<le> 2 ^ 53 - 1" "ta_verification twin_evidence = Verified"
    by (simp_all add: twin_tree_def twin_evidence_def)
  moreover have "plain_rect twin" by (simp add: plain_rect_def twin_def tree_button_def plain_number_def)
  ultimately show ?thesis
    by (intro recorded_evidence_readable [OF _ twin_facts(3) _ _ twin_evidence_computed])
qed

section \<open>Labels cut at white space\<close>

text \<open>A label of 257 bytes whose 256th is a space: the recorder keeps the space at the end of the capped label, and the parser of
  annotations normalizes it away.\<close>

definition cut_label_node :: raw_node where
  "cut_label_node = blank_node\<lparr>nd_label := Some (replicate 255 (CHR ''a'') @ '' b'')\<rparr>"

lemma cut_label: "li_label (readNodeLocalIdentity cut_label_node) = Some (replicate 255 (CHR ''a'') @ '' '')"
  by code_simp

lemma cut_label_never_matches:
  assumes "parseTargetAnnotationCommentLine line = Inr (AnnotationV1 a)" "ta_id a = None"
  shows "\<not> matchesLocalIdentity (readNodeLocalIdentity cut_label_node) (annotationLocalIdentity a)"
proof
  assume "matchesLocalIdentity (readNodeLocalIdentity cut_label_node) (annotationLocalIdentity a)"
  then have l: "ta_label a = Some (replicate 255 (CHR ''a'') @ '' '')"
    using assms(2) cut_label by (simp add: matchesLocalIdentity_def annotationLocalIdentity_def)
  have "annotation_ok a"
    using assms(1) by (auto simp: parseTargetAnnotationCommentLine_def Let_def rbind_Inr_iff dest: payload_accepted
        split: if_splits option.splits)
  then have "normalizeLabelField (ta_label a) = ta_label a" by (simp add: annotation_ok_def label_ok_def)
  moreover have "normalizeLabelField (Some (replicate 255 (CHR ''a'') @ '' '')) \<noteq> Some (replicate 255 (CHR ''a'') @ '' '')"
    by code_simp
  ultimately show False by (simp add: l)
qed

section \<open>Control characters\<close>

text \<open>The caps count the bytes of a field, the payload counts its JSON escapes: an identifier and two labels of 256 control
  characters each are three capped fields, and an annotation the parser refuses.\<close>

definition control_text :: string where
  "control_text = replicate 256 (CHR 0x01)"

definition control_tree :: "snapshot_node list" where
  "control_tree = [tree_button 0 ''e1'' control_text 0 40 None, (tree_button 1 ''e2'' control_text 0 10 (Some 0))\<lparr>nd_identifier := Some control_text\<rparr>]"

lemma control_text_bytes:
  "utf8ByteLength control_text = 256" "normalizeLabelField (Some control_text) = Some control_text"
  by code_simp+

lemma utf8_replicate_escape: "utf8ByteLength (json_escape (replicate n c)) = n * utf8ByteLength (json_escape_char c)"
  by (induction n) (simp_all add: json_escape_def utf8_append utf8ByteLength_def)

lemma control_quote_bytes: "utf8ByteLength (json_quote control_text) = 1538"
proof -
  have "utf8ByteLength (json_escape_char (CHR 0x01)) = 6" "utf8ByteLength ''\"'' = 1" by code_simp+
  moreover have "json_quote control_text = ''\"'' @ json_escape control_text @ ''\"''" by (simp add: json_quote_def)
  ultimately show ?thesis by (simp only: utf8_append control_text_def utf8_replicate_escape)
qed

lemma control_annotation_bytes:
  assumes "ta_id a = Some control_text" "ta_label a = Some control_text" "ta_ancestry a = [\<lparr>ae_role = r, ae_label = Some control_text\<rparr>]"
  shows "utf8ByteLength (serializeTargetAnnotationV1 a) > TARGET_ANNOTATION_MAX_PAYLOAD_BYTES"
proof -
  have more: "js_join sep (x # xs) = x @ (if xs = [] then [] else sep @ js_join sep xs)" for sep x and xs :: "string list"
    by (cases xs) (simp_all add: js_join_more)
  define b where "b c = utf8ByteLength [c]" for c
  have cons: "utf8ByteLength (c # s) = b c + utf8ByteLength s" for c s by (simp add: b_def utf8ByteLength_def)
  have "utf8ByteLength (serializeTargetAnnotationV1 a) \<ge> 3 * utf8ByteLength (json_quote control_text)"
    unfolding serializeTargetAnnotationV1_def buildCanonicalTargetAnnotationObject_def json_stringify_JObj
    by (simp add: assms text_member_def more member_text_def buildAncestryEntryObject_def utf8_append cons)
  then show ?thesis by (simp add: control_quote_bytes TARGET_ANNOTATION_MAX_PAYLOAD_BYTES_def)
qed

lemma control_fields:
  "nd_label n = Some control_text \<Longrightarrow> li_label (readNodeLocalIdentity n) = Some control_text"
  "nd_identifier n = Some control_text \<Longrightarrow> li_id (readNodeLocalIdentity n) = Some control_text"
  "nd_identifier n = None \<Longrightarrow> li_id (readNodeLocalIdentity n) = None"
  "nd_type n = Some ''Button'' \<Longrightarrow> li_role (readNodeLocalIdentity n) = ''button''"
proof -
  have "truncateToUtf8Bytes control_text TARGET_ANNOTATION_MAX_FIELD_BYTES = control_text"
    using control_text_bytes(1) by (intro truncate_short) (simp add: TARGET_ANNOTATION_MAX_FIELD_BYTES_def)
  moreover have "normalizeIdentifierField (Some control_text) = Some control_text"
    by (simp add: normalizeIdentifierField_def control_text_def)
  moreover have "truncateToUtf8Bytes (normalizeType (or_empty (Some ''Button''))) TARGET_ANNOTATION_MAX_FIELD_BYTES = ''button''"
    by code_simp
  moreover have "normalizeIdentifierField None = None" by (simp add: normalizeIdentifierField_def)
  ultimately show
    "nd_label n = Some control_text \<Longrightarrow> li_label (readNodeLocalIdentity n) = Some control_text"
    "nd_identifier n = Some control_text \<Longrightarrow> li_id (readNodeLocalIdentity n) = Some control_text"
    "nd_identifier n = None \<Longrightarrow> li_id (readNodeLocalIdentity n) = None"
    "nd_type n = Some ''Button'' \<Longrightarrow> li_role (readNodeLocalIdentity n) = ''button''"
    by (simp_all add: readNodeLocalIdentity_def control_text_bytes(2))
qed

lemma tree_button_fields:
  "nd_index (tree_button i r l y s p) = i" "nd_type (tree_button i r l y s p) = Some ''Button''" "nd_label (tree_button i r l y s p) = Some l"
  "nd_parentIndex (tree_button i r l y s p) = p" "nd_identifier (tree_button i r l y s p) = None"
  by (simp_all add: tree_button_def)

lemma control_walk:
  "recorded_walk (control_tree ! 1) control_tree = ([\<lparr>ae_role = ''button'', ae_label = Some control_text\<rparr>], False)"
proof -
  show ?thesis
    unfolding TARGET_ANNOTATION_MAX_ANCESTRY_def buildAncestryChain_def
    by (simp add: numeral_eq_Suc control_tree_def tree_button_fields node_at_index_def ancestry_entry_of_def control_fields)
qed

lemma control_identity:
  "li_id (evidence_identity (control_tree ! 1) control_tree) = Some control_text"
  "li_label (evidence_identity (control_tree ! 1) control_tree) = Some control_text"
  by (simp_all add: evidence_identity_def demoteNonUniqueLocalIdentity_def idMatchCountInTree_def control_tree_def tree_button_fields
      control_fields)

lemma control_evidence:
  assumes "computeTargetEvidence (control_tree ! 1) control_tree mode = Some e"
  shows "parseTargetAnnotationCommentLine (formatTargetAnnotationCommentLine e) = Inl PayloadTooLarge"
proof -
  let ?w = "control_tree ! 1"
  have walk: "recorded_walk ?w control_tree = ([\<lparr>ae_role = ''button'', ae_label = Some control_text\<rparr>], False)"
    "li_id (evidence_identity ?w control_tree) = Some control_text" "li_label (evidence_identity ?w control_tree) = Some control_text"
    by (fact control_walk control_identity)+
  let ?c = "evidence_candidate ?w control_tree 1"
  from evidence_Some [OF assms] obtain k where k: "lowest_length ?w control_tree \<le> k" "k \<le> length (fst (recorded_walk ?w control_tree))"
    and e_k: "(\<exists>v. e = (evidence_candidate ?w control_tree k)\<lparr>ta_verification := v\<rparr>) \<or>
      e = finalizeOversizedCandidate (evidence_candidate ?w control_tree k)"
    by blast
  have "k = 1" using k unfolding walk by simp
  with e_k obtain v where e: "e = ?c\<lparr>ta_verification := v\<rparr> \<or> e = finalizeOversizedCandidate ?c" by blast
  have "ta_id ?c = Some control_text" "ta_label ?c = Some control_text"
    "ta_ancestry ?c = [\<lparr>ae_role = ''button'', ae_label = Some control_text\<rparr>]"
    unfolding evidence_candidate_identity evidence_candidate_fields(2) walk by simp_all
  then have fields: "ta_id e = Some control_text" "ta_label e = Some control_text"
    "ta_ancestry e = [\<lparr>ae_role = ''button'', ae_label = Some control_text\<rparr>]"
    using e by (auto simp: finalizeOversizedCandidate_def Let_def)
  obtain body where body: "serializeTargetAnnotationV1 e = CHR ''{'' # body @ ''}''" "printable body" using serialized_shape by blast
  note m = comment_line_match [OF body]
  have line: "formatTargetAnnotationCommentLine e = ''# agent-device:target-v1 '' @ serializeTargetAnnotationV1 e"
    by (simp add: formatTargetAnnotationCommentLine_def TARGET_ANNOTATION_TAG_def)
  have v: "dec_val ''1'' = 1" by code_simp
  show ?thesis
    unfolding parseTargetAnnotationCommentLine_def Let_def line js_trim_trimmed [OF m(2)] m(1)
    using control_annotation_bytes [OF fields] by (simp add: v js_trim_trimmed [OF m(3)] parseTargetAnnotationV1Payload_def)
qed

end
