(* ===== verification/Xml.thy ===== *)
theory Xml
  imports AdTokens
begin

text \<open>
  The XML reader (\<^verbatim>\<open>packages/xml/src/internal/parser.ts\<close>) and its character references (\<^verbatim>\<open>entities.ts\<close>).

  The position in the document is the rest of the document; errors that name an offset carry the rest at that offset.
  The nodes under construction are kept as a stack of open elements, innermost first; a node joins its parent when it is
  closed, which the code observes only at the end, when the stack is empty. A reference to a code point above 255 is an explicit
  failure of the reader, since texts are Latin-1. The byte order mark is not a character of such texts.
\<close>

section \<open>Character references\<close>

datatype reference = RefChar char | RefWide | RefKeep

definition NAMED_REFERENCES :: "(string \<times> char) list" where
  "NAMED_REFERENCES =
     [(''amp'', CHR ''&''), (''lt'', CHR ''<''), (''gt'', CHR ''>''), (''quot'', CHR ''\"''), (''apos'', CHR 0x27)]"

definition decodeNumericXmlCharacterReference :: "int \<Rightarrow> reference" where
  "decodeNumericXmlCharacterReference codePoint =
     (if codePoint < 0 \<or> codePoint > 0x10FFFF then RefKeep
      else if codePoint > 255 then RefWide
      else RefChar (char_of (nat codePoint)))"

text \<open>The numeric body of a reference and what follows its semicolon.\<close>

definition numeric_reference :: "string \<Rightarrow> (reference \<times> string) option" where
  "numeric_reference s =
     (case s of
        c # t \<Rightarrow>
          if c = CHR ''x'' \<or> c = CHR ''X''
          then (let ds = takeWhile is_hex_char t
                in if ds \<noteq> [] \<and> take 1 (drop (length ds) t) = '';''
                   then Some (decodeNumericXmlCharacterReference (int (digits_val 16 ds)), drop (Suc (length ds)) t) else None)
          else (let ds = takeWhile is_digit_char s
                in if ds \<noteq> [] \<and> take 1 (drop (length ds) s) = '';''
                   then Some (decodeNumericXmlCharacterReference (int (digits_val 10 ds)), drop (Suc (length ds)) s) else None)
      | [] \<Rightarrow> None)"

text \<open>The reference that starts right after an ampersand, with the rest of the text.\<close>

definition match_reference :: "string \<Rightarrow> (reference \<times> string) option" where
  "match_reference s =
     (if take 1 s = ''#'' then numeric_reference (drop 1 s)
      else (case find (\<lambda>(name, c). take (Suc (length name)) s = name @ '';'') NAMED_REFERENCES of
              Some (name, c) \<Rightarrow> Some (RefChar c, drop (Suc (length name)) s)
            | None \<Rightarrow> None))"

lemma numeric_reference_length: "numeric_reference s = Some (r, t) \<Longrightarrow> length t \<le> length s"
  by (cases s) (auto simp: numeric_reference_def Let_def split: if_splits)

lemma match_reference_shorter: "match_reference s = Some (r, t) \<Longrightarrow> length t < Suc (length s)"
  using numeric_reference_length [of "drop 1 s" r t]
  by (auto simp: match_reference_def split: if_splits option.splits)

definition keep_reference :: "string \<Rightarrow> string \<Rightarrow> string" where
  "keep_reference s t = take (length s - length t) s"

function decodeXmlCharacterReferences :: "string \<Rightarrow> string option" where
  "decodeXmlCharacterReferences [] = Some []"
| "decodeXmlCharacterReferences (c # s) =
     (if c = CHR ''&''
      then (case match_reference s of
              None \<Rightarrow> map_option (Cons c) (decodeXmlCharacterReferences s)
            | Some (RefChar d, t) \<Rightarrow> map_option (Cons d) (decodeXmlCharacterReferences t)
            | Some (RefWide, t) \<Rightarrow> None
            | Some (RefKeep, t) \<Rightarrow> map_option (\<lambda>u. c # keep_reference s t @ u) (decodeXmlCharacterReferences t))
      else map_option (Cons c) (decodeXmlCharacterReferences s))"
  by pat_completeness auto
termination
  by (relation "measure length") (auto dest: match_reference_shorter)

definition replaceAll :: "char \<Rightarrow> string \<Rightarrow> string \<Rightarrow> string" where
  "replaceAll c t s = concat (map (\<lambda>d. if d = c then t else [d]) s)"

definition escapeXmlTextAndAttribute :: "string \<Rightarrow> string" where
  "escapeXmlTextAndAttribute v =
     replaceAll (CHR 0x27) ''&apos;'' (replaceAll (CHR ''\"'') ''&quot;'' (replaceAll (CHR ''>'') ''&gt;''
       (replaceAll (CHR ''<'') ''&lt;'' (replaceAll (CHR ''&'') ''&amp;'' v))))"

section \<open>Nodes and errors\<close>

datatype xml_node = XmlNode (xn_name: string) (xn_attributes: "(string \<times> string) list") (xn_text: "string option") (xn_children: "xml_node list")

datatype xml_error =
    DocumentTooLong nat
  | UnclosedTag string
  | MissingTagName string
  | OpeningTagNotClosed
  | InvalidAttribute string
  | UnsafeAttribute string
  | MissingAttributeValue string
  | UnquotedAttribute string
  | AttributeNotClosed string
  | NestingTooDeep
  | ClosingTagNotClosed string
  | UnexpectedClosingTag string
  | WrongClosingTag string string
  | CdataNotClosed
  | CommentNotClosed
  | InstructionNotClosed
  | DeclarationNotClosed
  | WideReference

definition MAX_XML_NESTING_DEPTH :: nat where
  "MAX_XML_NESTING_DEPTH = 256"

definition MAX_XML_DOCUMENT_CHARS :: nat where
  "MAX_XML_DOCUMENT_CHARS = 128 * 1024 * 1024"

definition isXmlNameChar :: "char \<Rightarrow> bool" where
  "isXmlNameChar c \<longleftrightarrow> is_letter_char c \<or> is_digit_char c \<or> c \<in> {CHR ''_'', CHR ''.'', CHR '':'', CHR ''-''}"

definition isXmlWhitespace :: "char \<Rightarrow> bool" where
  "isXmlWhitespace c \<longleftrightarrow> c \<in> {CHR '' '', CHR 0x09, CHR 0x0A, CHR 0x0D}"

definition UNSAFE_XML_ATTRIBUTE_NAMES :: "string list" where
  "UNSAFE_XML_ATTRIBUTE_NAMES = [''__defineGetter__'', ''__defineSetter__'', ''__proto__'', ''constructor'', ''prototype'']"

section \<open>The reader\<close>

record xml_reader =
  xr_rest :: string
  xr_roots :: "xml_node list"
  xr_stack :: "xml_node list"

definition skipWhitespace :: "string \<Rightarrow> string" where
  "skipWhitespace = dropWhile isXmlWhitespace"

definition readName :: "string \<Rightarrow> string \<times> string" where
  "readName s = (takeWhile isXmlNameChar s, dropWhile isXmlNameChar s)"

text \<open>\<open>indexOf\<close>: the text before the first occurrence of a token, and the text after it.\<close>

fun split_at_token :: "string \<Rightarrow> string \<Rightarrow> (string \<times> string) option" where
  "split_at_token token [] = (if token = [] then Some ([], []) else None)"
| "split_at_token token (c # s) =
     (if take (length token) (c # s) = token then Some ([], drop (length token) (c # s))
      else map_option (\<lambda>(before, after). (c # before, after)) (split_at_token token s))"

definition add_child :: "xml_node \<Rightarrow> xml_node \<Rightarrow> xml_node" where
  "add_child parent node = XmlNode (xn_name parent) (xn_attributes parent) (xn_text parent) (xn_children parent @ [node])"

definition addNode :: "xml_node \<Rightarrow> xml_reader \<Rightarrow> xml_reader" where
  "addNode node r =
     (case xr_stack r of
        parent # outer \<Rightarrow> r\<lparr>xr_stack := add_child parent node # outer\<rparr>
      | [] \<Rightarrow> r\<lparr>xr_roots := xr_roots r @ [node]\<rparr>)"

definition appendText :: "string \<Rightarrow> bool \<Rightarrow> xml_reader \<Rightarrow> xml_error + xml_reader" where
  "appendText t decodeEntities r =
     (let trimmed_text = js_trim t
      in if trimmed_text = [] then Inr r
         else (case xr_stack r of
                 [] \<Rightarrow> Inr r
               | node # outer \<Rightarrow>
                   (case (if decodeEntities then decodeXmlCharacterReferences trimmed_text else Some trimmed_text) of
                      None \<Rightarrow> Inl WideReference
                    | Some u \<Rightarrow>
                        let old = (case xn_text node of Some v \<Rightarrow> v | None \<Rightarrow> [])
                        in Inr (r\<lparr>xr_stack := XmlNode (xn_name node) (xn_attributes node) (Some (old @ u)) (xn_children node) # outer\<rparr>))))"

definition readText :: "xml_reader \<Rightarrow> xml_error + xml_reader" where
  "readText r =
     rbind (appendText (takeWhile (\<lambda>c. c \<noteq> CHR ''<'') (xr_rest r)) True r) (\<lambda>r'.
       Inr (r'\<lparr>xr_rest := dropWhile (\<lambda>c. c \<noteq> CHR ''<'') (xr_rest r)\<rparr>))"

definition readCdata :: "xml_reader \<Rightarrow> xml_error + xml_reader" where
  "readCdata r =
     (case split_at_token '']]>'' (drop 9 (xr_rest r)) of
        None \<Rightarrow> Inl CdataNotClosed
      | Some (inside, after) \<Rightarrow> rbind (appendText inside False r) (\<lambda>r'. Inr (r'\<lparr>xr_rest := after\<rparr>)))"

definition skipUntil :: "string \<Rightarrow> xml_error \<Rightarrow> xml_reader \<Rightarrow> xml_error + xml_reader" where
  "skipUntil token failure r =
     (case split_at_token token (drop (length token) (xr_rest r)) of
        None \<Rightarrow> Inl failure
      | Some (inside, after) \<Rightarrow> Inr (r\<lparr>xr_rest := after\<rparr>))"

text \<open>The scan of a declaration: the open quote and the depth of the brackets.\<close>

fun declaration_end :: "char option \<Rightarrow> nat \<Rightarrow> string \<Rightarrow> string option" where
  "declaration_end quote depth [] = None"
| "declaration_end (Some q) depth (c # s) = declaration_end (if c = q then None else Some q) depth s"
| "declaration_end None depth (c # s) =
     (if c = CHR ''\"'' \<or> c = CHR 0x27 then declaration_end (Some c) depth s
      else (let depth' = (if c = CHR ''['' then depth + 1 else if c = CHR '']'' \<and> depth > 0 then depth - 1 else depth)
            in if c = CHR ''>'' \<and> depth' = 0 then Some s else declaration_end None depth' s))"

definition skipDeclaration :: "xml_reader \<Rightarrow> xml_error + xml_reader" where
  "skipDeclaration r =
     (case declaration_end None 0 (drop 2 (xr_rest r)) of
        None \<Rightarrow> Inl DeclarationNotClosed
      | Some after \<Rightarrow> Inr (r\<lparr>xr_rest := after\<rparr>))"

definition readAttributeValue :: "string \<Rightarrow> string \<Rightarrow> xml_error + string \<times> string" where
  "readAttributeValue attributeName s =
     (case s of
        [] \<Rightarrow> Inl (UnquotedAttribute attributeName)
      | quote # t \<Rightarrow>
          if quote \<noteq> CHR ''\"'' \<and> quote \<noteq> CHR 0x27 then Inl (UnquotedAttribute attributeName)
          else (case split_at_token [quote] t of
                  None \<Rightarrow> Inl (AttributeNotClosed attributeName)
                | Some (raw, after) \<Rightarrow>
                    (case decodeXmlCharacterReferences (js_trim raw) of
                       None \<Rightarrow> Inl WideReference
                     | Some v \<Rightarrow> Inr (v, after))))"

definition readAttribute :: "string \<Rightarrow> xml_error + string \<times> string \<times> string" where
  "readAttribute s =
     (let (name, t) = readName s
      in if name = [] then Inl (InvalidAttribute s)
         else if name \<in> set UNSAFE_XML_ATTRIBUTE_NAMES then Inl (UnsafeAttribute name)
         else (let u = skipWhitespace t
               in if take 1 u \<noteq> ''='' then Inl (MissingAttributeValue name)
                  else rbind (readAttributeValue name (skipWhitespace (drop 1 u))) (\<lambda>(v, after). Inr (name, v, after))))"

text \<open>Attributes are an object: a repeated name keeps its place and takes the new value.\<close>

fun set_attribute :: "string \<Rightarrow> string \<Rightarrow> (string \<times> string) list \<Rightarrow> (string \<times> string) list" where
  "set_attribute k v [] = [(k, v)]"
| "set_attribute k v ((k', v') # rest) = (if k' = k then (k, v) # rest else (k', v') # set_attribute k v rest)"

lemma split_at_token_length: "split_at_token token s = Some (a, b) \<Longrightarrow> length a + length token + length b = length s"
proof (induction s arbitrary: a b)
  case (Cons c s)
  show ?case
  proof (cases "take (length token) (c # s) = token")
    case True
    then have "length token \<le> Suc (length s)" by (metis length_Cons length_take min.cobounded1)
    with True Cons.prems show ?thesis by auto
  next
    case False
    with Cons.prems Cons.IH show ?thesis by (auto split: option.splits)
  qed
qed (auto split: if_splits)

lemma readAttribute_shorter: "readAttribute s = Inr (name, v, after) \<Longrightarrow> length after < length s"
proof -
  assume r: "readAttribute s = Inr (name, v, after)"
  have ws: "length (skipWhitespace u) \<le> length u" for u by (simp add: skipWhitespace_def length_dropWhile_le)
  have val: "readAttributeValue n u = Inr (w, t) \<Longrightarrow> length t \<le> length u" for n u w t
    by (auto simp: readAttributeValue_def split: list.splits if_splits option.splits dest!: split_at_token_length)
  let ?t = "dropWhile isXmlNameChar s"
  from r have "takeWhile isXmlNameChar s \<noteq> []"
    and u: "take 1 (skipWhitespace ?t) = ''=''"
    and av: "readAttributeValue name (skipWhitespace (drop 1 (skipWhitespace ?t))) = Inr (v, after)"
    by (auto simp: readAttribute_def readName_def Let_def rbind_Inr_iff split: if_splits)
  have "length after \<le> length (drop 1 (skipWhitespace ?t))" using val [OF av] ws le_trans by blast
  also have "\<dots> < length (skipWhitespace ?t)" using u by (cases "skipWhitespace ?t") auto
  also have "\<dots> \<le> length s" using ws length_dropWhile_le le_trans by blast
  finally show ?thesis .
qed

function readOpeningTagBody :: "(string \<times> string) list \<Rightarrow> string \<Rightarrow> xml_error + (string \<times> string) list \<times> bool \<times> string" where
  "readOpeningTagBody attributes s =
     (let t = skipWhitespace s
      in if t = [] then Inl OpeningTagNotClosed
         else if take 1 t = ''>'' then Inr (attributes, False, drop 1 t)
         else if take 2 t = ''/>'' then Inr (attributes, True, drop 2 t)
         else (case readAttribute t of
                 Inl e \<Rightarrow> Inl e
               | Inr (name, v, after) \<Rightarrow> readOpeningTagBody (set_attribute name v attributes) after))"
  by pat_completeness auto
termination
proof (relation "measure (\<lambda>(attributes, s). length s)", goal_cases)
  case (2 attributes s t p name q v after)
  then have "length after < length (skipWhitespace s)" using readAttribute_shorter [of t name v after] by auto
  also have "\<dots> \<le> length s" by (simp add: skipWhitespace_def length_dropWhile_le)
  finally show ?case by simp
qed simp

declare readOpeningTagBody.simps [simp del]

definition pushOpenNode :: "xml_node \<Rightarrow> xml_reader \<Rightarrow> xml_error + xml_reader" where
  "pushOpenNode node r =
     (if length (xr_stack r) \<ge> MAX_XML_NESTING_DEPTH then Inl NestingTooDeep else Inr (r\<lparr>xr_stack := node # xr_stack r\<rparr>))"

definition readOpeningTag :: "xml_reader \<Rightarrow> xml_error + xml_reader" where
  "readOpeningTag r =
     (let s = skipWhitespace (drop 1 (xr_rest r)); (name, t) = readName s
      in if name = [] then Inl (MissingTagName s)
         else rbind (readOpeningTagBody [] t) (\<lambda>(attributes, selfClosing, after).
                let node = XmlNode name attributes None []; r' = r\<lparr>xr_rest := after\<rparr>
                in if selfClosing then Inr (addNode node r') else pushOpenNode node r'))"

definition readClosingTag :: "xml_reader \<Rightarrow> xml_error + xml_reader" where
  "readClosingTag r =
     (let (name, t) = readName (skipWhitespace (drop 2 (xr_rest r))); u = skipWhitespace t
      in if take 1 u \<noteq> ''>'' then Inl (ClosingTagNotClosed name)
         else (case xr_stack r of
                 [] \<Rightarrow> Inl (UnexpectedClosingTag name)
               | node # outer \<Rightarrow>
                   if xn_name node \<noteq> name then Inl (WrongClosingTag (xn_name node) name)
                   else Inr (addNode node (r\<lparr>xr_rest := drop 1 u, xr_stack := outer\<rparr>))))"

definition readNextToken :: "xml_reader \<Rightarrow> xml_error + xml_reader" where
  "readNextToken r =
     (if take 1 (xr_rest r) \<noteq> ''<'' then readText r
      else if take 4 (xr_rest r) = ''<!--'' then skipUntil ''-->'' CommentNotClosed r
      else if take 2 (xr_rest r) = ''<?'' then skipUntil ''?>'' InstructionNotClosed r
      else if take 9 (xr_rest r) = ''<![CDATA['' then readCdata r
      else if take 2 (xr_rest r) = ''<!'' then skipDeclaration r
      else if take 2 (xr_rest r) = ''</'' then readClosingTag r
      else readOpeningTag r)"

section \<open>Progress\<close>

lemma addNode_rest [simp]: "xr_rest (addNode node r) = xr_rest r"
  by (simp add: addNode_def split: list.split)

lemma skipWhitespace_length: "length (skipWhitespace s) \<le> length s"
  by (simp add: skipWhitespace_def length_dropWhile_le)

lemma readOpeningTagBody_shorter: "readOpeningTagBody attributes s = Inr (as, closing, after) \<Longrightarrow> length after < length s"
proof (induction attributes s rule: readOpeningTagBody.induct)
  case (1 attributes s)
  let ?t = "skipWhitespace s"
  note step = 1(2) [unfolded readOpeningTagBody.simps [of attributes s] Let_def]
  have "length after < length ?t"
  proof (cases "take 1 ?t = ''>'' \<or> take 2 ?t = ''/>''")
    case True
    with step show ?thesis by (auto split: if_splits)
  next
    case False
    with step have ne: "?t \<noteq> []" by auto
    from False step ne obtain name v u where u: "readAttribute ?t = Inr (name, v, u)" "readOpeningTagBody (set_attribute name v attributes) u = Inr (as, closing, after)"
      by (auto split: sum.splits)
    have "length after < length u" using 1(1) [OF refl ne _ _ u(1) refl refl u(2)] False by simp
    with readAttribute_shorter [OF u(1)] show ?thesis by simp
  qed
  with skipWhitespace_length [of s] show ?case by linarith
qed

lemma appendText_rest: "appendText t d r = Inr r' \<Longrightarrow> xr_rest r' = xr_rest r"
  by (auto simp: appendText_def Let_def split: if_splits list.splits option.splits)

lemma declaration_end_shorter: "declaration_end q d s = Some t \<Longrightarrow> length t < length s"
  by (induction q d s rule: declaration_end.induct) (auto simp: Let_def split: if_splits)

lemma readNextToken_shorter:
  assumes "readNextToken r = Inr r'" "xr_rest r \<noteq> []"
  shows "length (xr_rest r') < length (xr_rest r)"
proof -
  obtain c s where s: "xr_rest r = c # s" using assms(2) by (cases "xr_rest r") auto
  have plain: "length (xr_rest r') < length (xr_rest r)" if "take 1 (xr_rest r) \<noteq> ''<''" "readText r = Inr r'"
    using that length_dropWhile_le [of "\<lambda>c. c \<noteq> CHR ''<''" s] by (auto simp: readText_def s rbind_Inr_iff)
  have until: "length (xr_rest r') < length (xr_rest r)" if "skipUntil token e r = Inr r'" "0 < length token" for token e
  proof -
    from that obtain a b where ab: "split_at_token token (drop (length token) (xr_rest r)) = Some (a, b)" "r' = r\<lparr>xr_rest := b\<rparr>"
      by (auto simp: skipUntil_def split: option.splits)
    have "length b < length (xr_rest r)"
      using split_at_token_length [OF ab(1)] that(2) unfolding length_drop by linarith
    then show ?thesis by (simp add: ab(2))
  qed
  have cdata: "length (xr_rest r') < length (xr_rest r)" if "readCdata r = Inr r'"
    using that by (auto simp: readCdata_def rbind_Inr_iff split: option.splits dest!: split_at_token_length)
  have decl: "length (xr_rest r') < length (xr_rest r)" if "skipDeclaration r = Inr r'"
    using that by (auto simp: skipDeclaration_def split: option.splits dest!: declaration_end_shorter)
  have closing: "length (xr_rest r') < length (xr_rest r)" if "readClosingTag r = Inr r'"
  proof -
    let ?u = "skipWhitespace (dropWhile isXmlNameChar (skipWhitespace (drop 2 (xr_rest r))))"
    from that have "take 1 ?u = ''>''" "xr_rest r' = drop 1 ?u"
      by (auto simp: readClosingTag_def readName_def Let_def split: if_splits list.splits)
    then have "length (xr_rest r') < length ?u" by (cases ?u) auto
    also have "\<dots> \<le> length (xr_rest r)"
      using skipWhitespace_length [of "dropWhile isXmlNameChar (skipWhitespace (drop 2 (xr_rest r)))"]
        length_dropWhile_le [of isXmlNameChar "skipWhitespace (drop 2 (xr_rest r))"] skipWhitespace_length [of "drop 2 (xr_rest r)"]
      by simp
    finally show ?thesis .
  qed
  have open_tag: "length (xr_rest r') < length (xr_rest r)" if "readOpeningTag r = Inr r'"
  proof -
    let ?t = "dropWhile isXmlNameChar (skipWhitespace (drop 1 (xr_rest r)))"
    from that obtain p where p: "readOpeningTagBody [] ?t = Inr p" "xr_rest r' = snd (snd p)"
      unfolding readOpeningTag_def readName_def Let_def prod.case
      by (cases "readOpeningTagBody [] ?t") (auto simp: pushOpenNode_def split: if_splits)
    then obtain as cl after where b: "readOpeningTagBody [] ?t = Inr (as, cl, after)" "xr_rest r' = after" by (cases p) auto
    have "length ?t \<le> length s"
      using length_dropWhile_le [of isXmlNameChar "skipWhitespace s"] skipWhitespace_length [of s] by (simp add: s)
    with readOpeningTagBody_shorter [OF b(1)] b(2) show ?thesis by (simp add: s)
  qed
  from assms(1) show ?thesis
    unfolding readNextToken_def using plain until cdata decl closing open_tag by (auto split: if_splits)
qed

section \<open>The whole document\<close>

function read_tokens :: "xml_reader \<Rightarrow> xml_error + xml_reader" where
  "read_tokens r =
     (if xr_rest r = [] then Inr r
      else (case readNextToken r of Inl e \<Rightarrow> Inl e | Inr r' \<Rightarrow> read_tokens r'))"
  by pat_completeness auto
termination
  by (relation "measure (\<lambda>r. length (xr_rest r))") (auto intro: readNextToken_shorter)

declare read_tokens.simps [simp del]

definition parseXmlDocumentSync :: "nat option \<Rightarrow> string \<Rightarrow> xml_error + xml_node list" where
  "parseXmlDocumentSync maxDocumentChars xml =
     (let limit = (case maxDocumentChars of Some n \<Rightarrow> n | None \<Rightarrow> MAX_XML_DOCUMENT_CHARS)
      in if length xml > limit then Inl (DocumentTooLong limit)
         else rbind (read_tokens \<lparr>xr_rest = xml, xr_roots = [], xr_stack = []\<rparr>) (\<lambda>r.
                case xr_stack r of node # outer \<Rightarrow> Inl (UnclosedTag (xn_name node)) | [] \<Rightarrow> Inr (xr_roots r)))"

section \<open>What the reader keeps\<close>

fun xml_height :: "xml_node \<Rightarrow> nat" where
  "xml_height (XmlNode name as t children) = Suc (foldr (\<lambda>n h. max (xml_height n) h) children 0)"

definition tag_ok :: "string \<Rightarrow> (string \<times> string) list \<Rightarrow> bool" where
  "tag_ok name as \<longleftrightarrow>
     name \<noteq> [] \<and> list_all isXmlNameChar name \<and> distinct (map fst as) \<and>
     list_all (\<lambda>(k, v). k \<noteq> [] \<and> list_all isXmlNameChar k \<and> k \<notin> set UNSAFE_XML_ATTRIBUTE_NAMES) as"

fun xml_ok :: "xml_node \<Rightarrow> bool" where
  "xml_ok (XmlNode name as t children) \<longleftrightarrow> tag_ok name as \<and> list_all xml_ok children"

lemma heights_bound: "foldr (\<lambda>n h. max (xml_height n) h) ns 0 \<le> k \<longleftrightarrow> (\<forall>n \<in> set ns. xml_height n \<le> k)"
  by (induction ns) auto

text \<open>The open elements, innermost first: below an element with \<open>d\<close> elements around it there is room for \<open>256 - d\<close> more levels.\<close>

fun stack_fits :: "xml_node list \<Rightarrow> bool" where
  "stack_fits [] = True"
| "stack_fits (node # outer) \<longleftrightarrow>
     length outer < MAX_XML_NESTING_DEPTH \<and> xml_ok node \<and> xml_height node + length outer \<le> Suc MAX_XML_NESTING_DEPTH \<and> stack_fits outer"

definition reader_inv :: "xml_reader \<Rightarrow> bool" where
  "reader_inv r \<longleftrightarrow>
     stack_fits (xr_stack r) \<and> (\<forall>n \<in> set (xr_roots r). xml_ok n \<and> xml_height n \<le> Suc MAX_XML_NESTING_DEPTH)"

lemma xml_height_add: "xml_height (add_child p n) = max (xml_height p) (Suc (xml_height n))"
proof (cases p)
  case (XmlNode name as t children)
  have "foldr (\<lambda>n h. max (xml_height n) h) (children @ [n]) 0 = max (foldr (\<lambda>n h. max (xml_height n) h) children 0) (xml_height n)"
    by (induction children) auto
  then show ?thesis by (simp add: XmlNode add_child_def)
qed

lemma xml_ok_add: "xml_ok (add_child p n) \<longleftrightarrow> xml_ok p \<and> xml_ok n"
  by (cases p) (auto simp: add_child_def)

lemma addNode_inv:
  assumes "reader_inv r" "xml_ok n" "xml_height n + length (xr_stack r) \<le> Suc MAX_XML_NESTING_DEPTH"
  shows "reader_inv (addNode n r)"
  using assms by (auto simp: reader_inv_def addNode_def xml_height_add xml_ok_add split: list.split)

lemma reader_inv_rest [simp]: "reader_inv (r\<lparr>xr_rest := s\<rparr>) = reader_inv r"
  by (simp add: reader_inv_def)

lemma appendText_inv: "reader_inv r \<Longrightarrow> appendText t d r = Inr r' \<Longrightarrow> reader_inv r'"
proof -
  have same: "xml_height (XmlNode (xn_name n) (xn_attributes n) v (xn_children n)) = xml_height n"
    "xml_ok (XmlNode (xn_name n) (xn_attributes n) v (xn_children n)) = xml_ok n" for n v
    by (cases n; simp)+
  show "reader_inv r \<Longrightarrow> appendText t d r = Inr r' \<Longrightarrow> reader_inv r'"
    by (auto simp: appendText_def Let_def reader_inv_def same simp del: xml_height.simps xml_ok.simps split: if_splits list.splits option.splits)
qed

lemma set_attribute_keys:
  "map fst (set_attribute k v as) = (if k \<in> set (map fst as) then map fst as else map fst as @ [k])"
  by (induction as) (auto simp del: set_map)

lemma set_attribute_ok:
  assumes "tag_ok name as" "k \<noteq> []" "list_all isXmlNameChar k" "k \<notin> set UNSAFE_XML_ATTRIBUTE_NAMES"
  shows "tag_ok name (set_attribute k v as)"
proof -
  have "distinct (map fst (set_attribute k v as))" if "distinct (map fst as)"
    using that by (simp add: set_attribute_keys)
  moreover have "k' = k \<or> k' \<in> fst ` set as" if "(k', v') \<in> set (set_attribute k v as)" for k' v'
  proof -
    have "k' \<in> set (map fst (set_attribute k v as))" using that by force
    then show ?thesis unfolding set_attribute_keys by (auto split: if_splits)
  qed
  ultimately show ?thesis using assms by (fastforce simp: tag_ok_def list_all_iff)
qed

lemma readAttribute_ok:
  assumes "readAttribute s = Inr (name, v, after)"
  shows "name \<noteq> [] \<and> list_all isXmlNameChar name \<and> name \<notin> set UNSAFE_XML_ATTRIBUTE_NAMES"
  using assms by (auto simp: readAttribute_def readName_def Let_def rbind_Inr_iff list_all_iff split: if_splits dest: set_takeWhileD)

lemma readOpeningTagBody_ok:
  "readOpeningTagBody as s = Inr (bs, closing, after) \<Longrightarrow> tag_ok name as \<Longrightarrow> tag_ok name bs"
proof (induction as s rule: readOpeningTagBody.induct)
  case (1 as s)
  let ?t = "skipWhitespace s"
  note step = 1(2) [unfolded readOpeningTagBody.simps [of as s] Let_def]
  show ?case
  proof (cases "take 1 ?t = ''>'' \<or> take 2 ?t = ''/>''")
    case True
    with step 1(3) show ?thesis by (auto split: if_splits)
  next
    case False
    with step have ne: "?t \<noteq> []" by auto
    from False step ne obtain k v u where u: "readAttribute ?t = Inr (k, v, u)" "readOpeningTagBody (set_attribute k v as) u = Inr (bs, closing, after)"
      by (auto split: sum.splits)
    show ?thesis
      using 1(1) [OF refl ne _ _ u(1) refl refl u(2)] False set_attribute_ok [OF 1(3)] readAttribute_ok [OF u(1)] by simp
  qed
qed

lemma readNextToken_inv:
  assumes "reader_inv r" "readNextToken r = Inr r'"
  shows "reader_inv r'"
proof -
  have plain: "readText r = Inr r' \<Longrightarrow> reader_inv r'" "readCdata r = Inr r' \<Longrightarrow> reader_inv r'"
    using appendText_inv [OF assms(1)] by (auto simp: readText_def readCdata_def rbind_Inr_iff split: option.splits)
  have skip: "skipUntil token e r = Inr r' \<Longrightarrow> reader_inv r'" "skipDeclaration r = Inr r' \<Longrightarrow> reader_inv r'" for token e
    using assms(1) by (auto simp: skipUntil_def skipDeclaration_def split: option.splits)
  have closing: "reader_inv r'" if "readClosingTag r = Inr r'"
  proof -
    from that obtain node outer u where st: "xr_stack r = node # outer" and r': "r' = addNode node (r\<lparr>xr_rest := u, xr_stack := outer\<rparr>)"
      by (auto simp: readClosingTag_def readName_def Let_def split: if_splits list.splits)
    show ?thesis unfolding r' using assms(1) by (intro addNode_inv) (auto simp: reader_inv_def st)
  qed
  have open_tag: "reader_inv r'" if "readOpeningTag r = Inr r'"
  proof -
    let ?s = "skipWhitespace (drop 1 (xr_rest r))"
    let ?name = "takeWhile isXmlNameChar ?s"
    from that have name: "?name \<noteq> []" by (auto simp: readOpeningTag_def readName_def Let_def split: if_splits)
    from that name obtain as cl after where b: "readOpeningTagBody [] (dropWhile isXmlNameChar ?s) = Inr (as, cl, after)"
      and r': "(let node = XmlNode ?name as None []; q = r\<lparr>xr_rest := after\<rparr>
                in if cl then Inr (addNode node q) else pushOpenNode node q) = Inr r'"
      by (auto simp: readOpeningTag_def readName_def Let_def rbind_Inr_iff split: if_splits)
    have "tag_ok ?name []" using name by (auto simp: tag_ok_def list_all_iff dest: set_takeWhileD)
    then have node: "xml_ok (XmlNode ?name as None [])" using readOpeningTagBody_ok [OF b] by simp
    have "length (xr_stack r) \<le> MAX_XML_NESTING_DEPTH"
      using assms(1) by (cases "xr_stack r") (auto simp: reader_inv_def)
    then have "reader_inv (addNode (XmlNode ?name as None []) (r\<lparr>xr_rest := after\<rparr>))"
      using assms(1) node by (intro addNode_inv) simp_all
    moreover have "pushOpenNode (XmlNode ?name as None []) (r\<lparr>xr_rest := after\<rparr>) = Inr r' \<Longrightarrow> reader_inv r'"
      using assms(1) node by (auto simp: pushOpenNode_def reader_inv_def split: if_splits)
    ultimately show ?thesis using r' by (auto simp: Let_def split: if_splits)
  qed
  from assms(2) show ?thesis
    unfolding readNextToken_def using plain skip closing open_tag by (auto split: if_splits)
qed

lemma read_tokens_inv: "read_tokens r = Inr r' \<Longrightarrow> reader_inv r \<Longrightarrow> reader_inv r'"
proof (induction r rule: read_tokens.induct)
  case (1 r)
  then show ?case
    using readNextToken_inv by (subst (asm) (2) read_tokens.simps) (auto split: if_splits sum.splits)
qed

definition token_step :: "xml_reader \<Rightarrow> xml_reader \<Rightarrow> bool" where
  "token_step r r' \<longleftrightarrow> xr_rest r \<noteq> [] \<and> readNextToken r = Inr r'"

lemma token_steps_bound: "(token_step ^^ n) r r' \<Longrightarrow> n + length (xr_rest r') \<le> length (xr_rest r)"
proof (induction n arbitrary: r')
  case (Suc n)
  then obtain q where q: "(token_step ^^ n) r q" "token_step q r'" by auto
  have "length (xr_rest r') < length (xr_rest q)" using q(2) readNextToken_shorter by (simp add: token_step_def)
  with Suc.IH [OF q(1)] show ?case by simp
qed simp

section \<open>Escaped texts are read back\<close>

definition escape_char :: "char \<Rightarrow> string" where
  "escape_char c =
     (if c = CHR ''&'' then ''&amp;'' else if c = CHR ''<'' then ''&lt;'' else if c = CHR ''>'' then ''&gt;''
      else if c = CHR ''\"'' then ''&quot;'' else if c = CHR 0x27 then ''&apos;'' else [c])"

lemma escape_single_pass: "escapeXmlTextAndAttribute v = concat (map escape_char v)"
  by (induction v) (auto simp: escapeXmlTextAndAttribute_def replaceAll_def escape_char_def)

lemma escape_Cons: "escapeXmlTextAndAttribute (c # v) = escape_char c @ escapeXmlTextAndAttribute v"
  by (simp add: escape_single_pass)

lemma xml_decode_escape_char: "decodeXmlCharacterReferences (escape_char c @ s) = map_option (Cons c) (decodeXmlCharacterReferences s)"
proof -
  have d: "\<not> is_digit_char (CHR ''a'')" by code_simp
  show ?thesis
    by (auto simp: escape_char_def match_reference_def NAMED_REFERENCES_def split: option.split)
qed

lemma xml_decode_escape: "decodeXmlCharacterReferences (escapeXmlTextAndAttribute v) = Some v"
  by (induction v) (simp_all add: escape_Cons xml_decode_escape_char del: decodeXmlCharacterReferences.simps(2), simp add: escape_single_pass)

lemma escape_Nil [simp]: "escapeXmlTextAndAttribute [] = []"
  by (simp add: escape_single_pass)

lemma escape_char_facts:
  "escape_char c \<noteq> []" "CHR ''<'' \<notin> set (escape_char c)" "CHR ''\"'' \<notin> set (escape_char c)"
  "is_js_space (hd (escape_char c)) \<longleftrightarrow> is_js_space c" "is_js_space (last (escape_char c)) \<longleftrightarrow> is_js_space c"
proof -
  have sp: "\<not> is_js_space (CHR ''&'')" "\<not> is_js_space (CHR '';'')" "\<not> is_js_space (CHR ''<'')" "\<not> is_js_space (CHR ''>'')"
    "\<not> is_js_space (CHR ''\"'')" "\<not> is_js_space (CHR 0x27)" by code_simp+
  then show "escape_char c \<noteq> []" "CHR ''<'' \<notin> set (escape_char c)" "CHR ''\"'' \<notin> set (escape_char c)"
    "is_js_space (hd (escape_char c)) \<longleftrightarrow> is_js_space c" "is_js_space (last (escape_char c)) \<longleftrightarrow> is_js_space c"
    by (simp_all add: escape_char_def)
qed

lemma escape_facts:
  "CHR ''<'' \<notin> set (escapeXmlTextAndAttribute v)" "CHR ''\"'' \<notin> set (escapeXmlTextAndAttribute v)"
  "escapeXmlTextAndAttribute v = [] \<longleftrightarrow> v = []"
  "trimmed v \<Longrightarrow> trimmed (escapeXmlTextAndAttribute v)"
proof -
  show "CHR ''<'' \<notin> set (escapeXmlTextAndAttribute v)" "CHR ''\"'' \<notin> set (escapeXmlTextAndAttribute v)"
    using escape_char_facts by (auto simp: escape_single_pass)
  show "escapeXmlTextAndAttribute v = [] \<longleftrightarrow> v = []"
    using escape_char_facts by (auto simp: escape_single_pass)
  show "trimmed (escapeXmlTextAndAttribute v)" if "trimmed v"
  proof (cases "v = []")
    case False
    then obtain w d where w: "v = w @ [d]" by (cases v rule: rev_cases) auto
    obtain c u where c: "v = c # u" using False by (cases v) auto
    have "hd (escapeXmlTextAndAttribute v) = hd (escape_char c)" using escape_char_facts by (simp add: c escape_Cons)
    moreover have "last (escapeXmlTextAndAttribute v) = last (escape_char d)" using escape_char_facts by (simp add: w escape_single_pass)
    moreover have "hd v = c" "last v = d" by (simp add: c, simp add: w)
    then have "\<not> is_js_space c" "\<not> is_js_space d" using that False by (auto simp: trimmed_def)
    ultimately show ?thesis using escape_char_facts by (simp add: trimmed_def)
  qed (simp add: trimmed_def)
qed

section \<open>A plain writer\<close>

text \<open>The plain form of a tree: double quotes, no blank lines, the text before the children.\<close>

fun attribute_text :: "string \<times> string \<Rightarrow> string" where
  "attribute_text (k, v) = '' '' @ k @ ''=\"'' @ escapeXmlTextAndAttribute v @ ''\"''"

fun node_text :: "xml_node \<Rightarrow> string" where
  "node_text (XmlNode name as t children) =
     ''<'' @ name @ concat (map attribute_text as) @
     (if t = None \<and> children = [] then ''/>''
      else ''>'' @ (case t of Some v \<Rightarrow> escapeXmlTextAndAttribute v | None \<Rightarrow> []) @ concat (map node_text children) @
           ''</'' @ name @ ''>'')"

text \<open>The trees the plain form can carry below a number of open elements.\<close>

fun plain_xml :: "nat \<Rightarrow> xml_node \<Rightarrow> bool" where
  "plain_xml d (XmlNode name as t children) \<longleftrightarrow>
     tag_ok name as \<and> list_all (\<lambda>(k, v). trimmed v) as \<and> (\<forall>v. t = Some v \<longrightarrow> v \<noteq> [] \<and> trimmed v) \<and>
     (t \<noteq> None \<or> children \<noteq> [] \<longrightarrow> d < MAX_XML_NESTING_DEPTH) \<and> list_all (plain_xml (Suc d)) children"

lemma name_not_space: "isXmlNameChar c \<Longrightarrow> \<not> isXmlWhitespace c \<and> c \<noteq> CHR ''>'' \<and> c \<noteq> CHR ''/'' \<and> c \<noteq> CHR ''!'' \<and> c \<noteq> CHR ''?'' \<and> c \<noteq> CHR ''=''"
  by (auto simp: isXmlNameChar_def isXmlWhitespace_def is_letter_char_def is_digit_char_def Let_def)

lemma readName_name:
  assumes "list_all isXmlNameChar name" "s = [] \<or> \<not> isXmlNameChar (hd s)"
  shows "readName (name @ s) = (name, s)"
  using assms by (cases s) (auto simp: readName_def list_all_iff takeWhile_append dropWhile_append)

lemma skipWhitespace_keep: "s = [] \<or> \<not> isXmlWhitespace (hd s) \<Longrightarrow> skipWhitespace s = s"
  by (cases s) (auto simp: skipWhitespace_def)

lemma split_at_quote: "q \<notin> set v \<Longrightarrow> split_at_token [q] (v @ q # s) = Some (v, s)"
  by (induction v) auto

lemma readAttribute_text:
  assumes "k \<noteq> []" "list_all isXmlNameChar k" "k \<notin> set UNSAFE_XML_ATTRIBUTE_NAMES" "trimmed v"
  shows "readAttribute (k @ ''=\"'' @ escapeXmlTextAndAttribute v @ ''\"'' @ s) = Inr (k, v, s)"
proof -
  have eq: "\<not> isXmlNameChar (CHR ''='')" "\<not> isXmlWhitespace (CHR ''='')" "\<not> isXmlWhitespace (CHR ''\"'')" by code_simp+
  have name: "readName (k @ ''=\"'' @ escapeXmlTextAndAttribute v @ ''\"'' @ s) = (k, ''=\"'' @ escapeXmlTextAndAttribute v @ ''\"'' @ s)"
    using readName_name [OF assms(2)] eq by simp
  have "readAttributeValue k (CHR ''\"'' # escapeXmlTextAndAttribute v @ ''\"'' @ s) = Inr (v, s)"
    using split_at_quote [OF escape_facts(2)] js_trim_trimmed [OF escape_facts(4) [OF assms(4)]]
    by (simp add: readAttributeValue_def xml_decode_escape)
  then show ?thesis
    unfolding readAttribute_def name using assms(1,3) eq by (simp add: skipWhitespace_keep)
qed

lemma set_attribute_new: "k \<notin> fst ` set as \<Longrightarrow> set_attribute k v as = as @ [(k, v)]"
  by (induction as) auto

lemma readBody_attributes:
  assumes "tag_ok name (done_as @ as)" "list_all (\<lambda>(k, v). trimmed v) as" "take 1 s = ''>'' \<or> take 2 s = ''/>''"
  shows "readOpeningTagBody done_as (concat (map attribute_text as) @ s) =
    Inr (done_as @ as, take 1 s \<noteq> ''>'', drop (if take 1 s = ''>'' then 1 else 2) s)"
  using assms(1,2)
proof (induction as arbitrary: done_as)
  case Nil
  have "\<not> isXmlWhitespace (CHR ''>'')" "\<not> isXmlWhitespace (CHR ''/'')" by code_simp+
  with assms(3) have "skipWhitespace s = s" "s \<noteq> []"
    by (cases s; auto simp: skipWhitespace_def)+
  then show ?case using assms(3) by (subst readOpeningTagBody.simps) auto
next
  case (Cons a as)
  obtain k v where a: "a = (k, v)" by (cases a)
  let ?rest = "concat (map attribute_text as) @ s"
  let ?t = "k @ ''=\"'' @ escapeXmlTextAndAttribute v @ ''\"'' @ ?rest"
  have k: "k \<noteq> []" "list_all isXmlNameChar k" "k \<notin> set UNSAFE_XML_ATTRIBUTE_NAMES" "trimmed v" "k \<notin> fst ` set done_as"
    using Cons.prems by (auto simp: a tag_ok_def)
  then have hd: "isXmlNameChar (hd ?t)" by (cases k) auto
  have "isXmlWhitespace (CHR '' '')" by code_simp
  then have ws: "skipWhitespace (concat (map attribute_text (a # as)) @ s) = ?t"
    using skipWhitespace_keep [of ?t] name_not_space [OF hd] by (simp add: a skipWhitespace_def)
  have notend: "?t \<noteq> []" "take 1 ?t \<noteq> ''>''" "take 2 ?t \<noteq> ''/>''"
    using k(1) name_not_space [OF hd] by (cases k; auto)+
  have "readOpeningTagBody (done_as @ [(k, v)]) ?rest =
      Inr ((done_as @ [(k, v)]) @ as, take 1 s \<noteq> ''>'', drop (if take 1 s = ''>'' then 1 else 2) s)"
    using Cons.prems by (intro Cons.IH) (simp_all add: a)
  then show ?case
    unfolding readOpeningTagBody.simps [of done_as "concat (map attribute_text (a # as)) @ s"] ws Let_def
      if_not_P [OF notend(1)] if_not_P [OF notend(2)] if_not_P [OF notend(3)] readAttribute_text [OF k(1-4)]
    by (simp add: set_attribute_new [OF k(5)] a)
qed

section \<open>The plain form is read back\<close>

lemma read_tokens_step: "xr_rest r \<noteq> [] \<Longrightarrow> readNextToken r = Inr r' \<Longrightarrow> read_tokens r = read_tokens r'"
  by (simp add: read_tokens.simps [of r])

lemma name_head: "list_all isXmlNameChar name \<Longrightarrow> name \<noteq> [] \<Longrightarrow> \<exists>c s. name = c # s \<and> isXmlNameChar c"
  by (cases name) auto

lemma open_token:
  assumes "tag_ok name as" "list_all (\<lambda>(k, v). trimmed v) as" "take 1 s = ''>'' \<or> take 2 s = ''/>''"
    "xr_rest r = CHR ''<'' # name @ concat (map attribute_text as) @ s"
  shows "readNextToken r =
    (let node = XmlNode name as None []; r' = r\<lparr>xr_rest := drop (if take 1 s = ''>'' then 1 else 2) s\<rparr>
     in if take 1 s \<noteq> ''>'' then Inr (addNode node r') else pushOpenNode node r')"
proof -
  let ?u = "concat (map attribute_text as) @ s"
  have name: "name \<noteq> []" "list_all isXmlNameChar name" using assms(1) by (auto simp: tag_ok_def)
  obtain c w where c: "name = c # w" "isXmlNameChar c" using name_head name by blast
  note cn = name_not_space [OF c(2)]
  have special: "take 1 (xr_rest r) = ''<''" "take 4 (xr_rest r) \<noteq> ''<!--''" "take 2 (xr_rest r) \<noteq> ''<?''"
    "take 9 (xr_rest r) \<noteq> ''<![CDATA[''" "take 2 (xr_rest r) \<noteq> ''<!''" "take 2 (xr_rest r) \<noteq> ''</''"
    using cn by (auto simp: assms(4) c(1))
  have ends: "\<not> isXmlNameChar (CHR '' '')" "\<not> isXmlNameChar (CHR ''>'')" "\<not> isXmlNameChar (CHR ''/'')" by code_simp+
  have "?u = [] \<or> \<not> isXmlNameChar (hd ?u)"
  proof (cases as)
    case Nil
    with assms(3) ends show ?thesis by (cases s) auto
  next
    case (Cons a bs)
    with ends show ?thesis by (cases a) simp
  qed
  from readName_name [OF name(2) this] have rn: "readName (name @ ?u) = (name, ?u)" .
  have sk: "skipWhitespace (drop 1 (xr_rest r)) = name @ ?u"
    using skipWhitespace_keep [of "name @ ?u"] cn by (simp add: assms(4) c(1))
  have body: "readOpeningTagBody [] ?u = Inr (as, take 1 s \<noteq> ''>'', drop (if take 1 s = ''>'' then 1 else 2) s)"
    using readBody_attributes [of name "[]" as s] assms(1-3) by simp
  have "readNextToken r = readOpeningTag r" unfolding readNextToken_def using special by simp
  also have "\<dots> = (let node = XmlNode name as None []; r' = r\<lparr>xr_rest := drop (if take 1 s = ''>'' then 1 else 2) s\<rparr>
     in if take 1 s \<noteq> ''>'' then Inr (addNode node r') else pushOpenNode node r')"
    unfolding readOpeningTag_def sk Let_def rn prod.case if_not_P [OF name(1)] body by simp
  finally show ?thesis .
qed

lemma close_token:
  assumes "tag_ok name as" "xr_rest r = ''</'' @ name @ CHR ''>'' # s" "xr_stack r = XmlNode name as t cs # outer"
  shows "readNextToken r = Inr (addNode (XmlNode name as t cs) (r\<lparr>xr_rest := s, xr_stack := outer\<rparr>))"
proof -
  have name: "name \<noteq> []" "list_all isXmlNameChar name" using assms(1) by (auto simp: tag_ok_def)
  obtain c w where c: "name = c # w" "isXmlNameChar c" using name_head name by blast
  have ends: "\<not> isXmlNameChar (CHR ''>'')" "\<not> isXmlWhitespace (CHR ''>'')" by code_simp+
  have sk: "skipWhitespace (drop 2 (xr_rest r)) = name @ CHR ''>'' # s"
    using skipWhitespace_keep [of "name @ CHR ''>'' # s"] name_not_space [OF c(2)] by (simp add: assms(2) c(1))
  have rn: "readName (name @ CHR ''>'' # s) = (name, CHR ''>'' # s)" using readName_name [OF name(2)] ends by simp
  have "readNextToken r = readClosingTag r" unfolding readNextToken_def by (simp add: assms(2))
  also have "\<dots> = Inr (addNode (XmlNode name as t cs) (r\<lparr>xr_rest := s, xr_stack := outer\<rparr>))"
    unfolding readClosingTag_def sk rn Let_def prod.case using ends by (simp add: skipWhitespace_keep assms(3))
  finally show ?thesis .
qed

lemma text_token:
  assumes "v \<noteq> []" "trimmed v" "xr_rest r = escapeXmlTextAndAttribute v @ CHR ''<'' # s" "xr_stack r = XmlNode name as None cs # outer"
  shows "readNextToken r = Inr (r\<lparr>xr_rest := CHR ''<'' # s, xr_stack := XmlNode name as (Some v) cs # outer\<rparr>)"
proof -
  let ?e = "escapeXmlTextAndAttribute v"
  have e: "?e \<noteq> []" "CHR ''<'' \<notin> set ?e" using escape_facts assms(1) by auto
  then have "hd ?e \<noteq> CHR ''<''" by (metis list.set_sel(1))
  with e(1) have "take 1 (xr_rest r) \<noteq> ''<''" by (cases ?e) (auto simp: assms(3))
  then have "readNextToken r = readText r" by (simp add: readNextToken_def)
  moreover have "takeWhile (\<lambda>c. c \<noteq> CHR ''<'') (xr_rest r) = ?e" "dropWhile (\<lambda>c. c \<noteq> CHR ''<'') (xr_rest r) = CHR ''<'' # s"
    using e(2) by (auto simp: assms(3) takeWhile_append dropWhile_append)
  ultimately show ?thesis
    using e(1) js_trim_trimmed [OF escape_facts(4) [OF assms(2)]] by (simp add: readText_def appendText_def xml_decode_escape assms(4))
qed

lemma node_text_head: "\<exists>s. node_text n = CHR ''<'' # s"
  by (cases n) simp

lemma node_read:
  "plain_xml (length (xr_stack r)) n \<Longrightarrow> xr_rest r = node_text n @ s \<Longrightarrow> read_tokens r = read_tokens (addNode n (r\<lparr>xr_rest := s\<rparr>))"
proof (induction n arbitrary: r s)
  case (XmlNode name as t cs)
  have ok: "tag_ok name as" "list_all (\<lambda>(k, v). trimmed v) as" using XmlNode.prems(1) by simp_all
  have ne: "xr_rest r \<noteq> []" using XmlNode.prems(2) by simp
  show ?case
  proof (cases "t = None \<and> cs = []")
    case True
    then have "readNextToken r = Inr (addNode (XmlNode name as t cs) (r\<lparr>xr_rest := s\<rparr>))"
      using open_token [OF ok, of "''/>'' @ s" r] XmlNode.prems(2) by simp
    then show ?thesis by (rule read_tokens_step [OF ne])
  next
    case False
    let ?rest = "''</'' @ name @ ''>'' @ s"
    let ?body = "(case t of Some v \<Rightarrow> escapeXmlTextAndAttribute v | None \<Rightarrow> []) @ concat (map node_text cs) @ ?rest"
    define r1 where "r1 = r\<lparr>xr_rest := ?body, xr_stack := XmlNode name as None [] # xr_stack r\<rparr>"
    define r2 where "r2 = r\<lparr>xr_rest := concat (map node_text cs) @ ?rest, xr_stack := XmlNode name as t [] # xr_stack r\<rparr>"
    define r3 where "r3 = r\<lparr>xr_rest := ?rest, xr_stack := XmlNode name as t cs # xr_stack r\<rparr>"
    have "length (xr_stack r) < MAX_XML_NESTING_DEPTH" using XmlNode.prems(1) False by auto
    then have "readNextToken r = Inr r1"
      using open_token [OF ok, of "''>'' @ ?body" r] XmlNode.prems(2) False by (auto simp: pushOpenNode_def r1_def)
    then have 1: "read_tokens r = read_tokens r1" by (rule read_tokens_step [OF ne])
    have 2: "read_tokens r1 = read_tokens r2"
    proof (cases t)
      case (Some v)
      obtain u where u: "concat (map node_text cs) @ ?rest = CHR ''<'' # u"
        using node_text_head [of "hd cs"] by (cases cs) auto
      have v: "v \<noteq> []" "trimmed v" using XmlNode.prems(1) Some by simp_all
      have "readNextToken r1 = Inr r2"
        using text_token [OF v, of r1 u name as "[]" "xr_stack r"] u by (simp add: r1_def r2_def Some)
      then show ?thesis by (rule read_tokens_step [rotated]) (simp add: r1_def)
    qed (simp add: r1_def r2_def)
    have 3: "read_tokens (r\<lparr>xr_rest := concat (map node_text ds) @ ?rest, xr_stack := XmlNode name as t es # xr_stack r\<rparr>) =
        read_tokens (r\<lparr>xr_rest := ?rest, xr_stack := XmlNode name as t (es @ ds) # xr_stack r\<rparr>)"
      if "set ds \<subseteq> set cs" for ds es
      using that
    proof (induction ds arbitrary: es)
      case (Cons d ds)
      have "plain_xml (Suc (length (xr_stack r))) d" using XmlNode.prems(1) Cons.prems by (auto simp: list_all_iff)
      with XmlNode.IH [of d "r\<lparr>xr_rest := concat (map node_text (d # ds)) @ ?rest, xr_stack := XmlNode name as t es # xr_stack r\<rparr>"
          "concat (map node_text ds) @ ?rest"] Cons
      show ?case by (simp add: addNode_def add_child_def)
    qed simp
    have "read_tokens r2 = read_tokens r3" using 3 [of cs "[]"] by (simp add: r2_def r3_def)
    moreover have "readNextToken r3 = Inr (addNode (XmlNode name as t cs) (r3\<lparr>xr_rest := s, xr_stack := xr_stack r\<rparr>))"
      by (rule close_token [OF ok(1)]) (simp_all add: r3_def)
    then have "read_tokens r3 = read_tokens (addNode (XmlNode name as t cs) (r3\<lparr>xr_rest := s, xr_stack := xr_stack r\<rparr>))"
      by (rule read_tokens_step [rotated]) (simp add: r3_def)
    moreover have "r3\<lparr>xr_rest := s, xr_stack := xr_stack r\<rparr> = r\<lparr>xr_rest := s\<rparr>" by (simp add: r3_def)
    ultimately show ?thesis using 1 2 by simp
  qed
qed

lemma forest_read:
  "list_all (plain_xml 0) ns \<Longrightarrow> xr_stack r = [] \<Longrightarrow> xr_rest r = concat (map node_text ns) \<Longrightarrow>
   read_tokens r = Inr (r\<lparr>xr_rest := [], xr_roots := xr_roots r @ ns\<rparr>)"
proof (induction ns arbitrary: r)
  case Nil
  then show ?case by (subst read_tokens.simps) simp
next
  case (Cons n ns)
  have "read_tokens r = read_tokens (addNode n (r\<lparr>xr_rest := concat (map node_text ns)\<rparr>))"
    using Cons.prems by (intro node_read) simp_all
  also have "\<dots> = Inr (r\<lparr>xr_rest := [], xr_roots := xr_roots r @ n # ns\<rparr>)"
    using Cons.prems by (subst Cons.IH) (simp_all add: addNode_def)
  finally show ?case .
qed

section \<open>Properties\<close>

text \<open>C15. The reader reads every forest in plain form, whose text is within the size limit of a document, back as it is: names, attributes,
  escaped texts and the order of children.\<close>

theorem xml_document_roundtrip:
  assumes "list_all (plain_xml 0) ns" "length (concat (map node_text ns)) \<le> MAX_XML_DOCUMENT_CHARS"
  shows "parseXmlDocumentSync None (concat (map node_text ns)) = Inr ns"
  using assms(2) forest_read [OF assms(1), of "\<lparr>xr_rest = concat (map node_text ns), xr_roots = [], xr_stack = []\<rparr>"]
  by (simp add: parseXmlDocumentSync_def)

definition example_document :: "xml_node list" where
  "example_document =
     [XmlNode ''plist'' [(''version'', ''1 & 2'')] None
        [XmlNode ''key'' [] (Some ''a < b'') [], XmlNode ''node'' [(''a:b'', ''\"x\"''), (''c'', [])] (Some ''t'') [XmlNode ''br'' [] None []]]]"

theorem xml_document_roundtrip_witness:
  "parseXmlDocumentSync None (concat (map node_text example_document)) = Inr example_document"
proof (rule xml_document_roundtrip)
  show "list_all (plain_xml 0) example_document"
    by (simp add: example_document_def tag_ok_def trimmed_def MAX_XML_NESTING_DEPTH_def isXmlNameChar_def
        UNSAFE_XML_ATTRIBUTE_NAMES_def js_string_defs)
  have "length (concat (map node_text example_document)) \<le> 1000" by code_simp
  then show "length (concat (map node_text example_document)) \<le> MAX_XML_DOCUMENT_CHARS"
    by (simp add: MAX_XML_DOCUMENT_CHARS_def)
qed

text \<open>C16. The reader comes to its end: every token takes a part of the document, so no run of the reader has more tokens
  than the document has characters.\<close>

theorem xml_reader_terminates:
  "(token_step ^^ n) \<lparr>xr_rest = xml, xr_roots = [], xr_stack = []\<rparr> r \<Longrightarrow> n + length (xr_rest r) \<le> length xml"
  by (drule token_steps_bound) simp

theorem xml_reader_terminates_witness:
  "(token_step ^^ 1) \<lparr>xr_rest = ''<a/>'', xr_roots = [], xr_stack = []\<rparr> \<lparr>xr_rest = [], xr_roots = [XmlNode ''a'' [] None []], xr_stack = []\<rparr> \<and>
   1 + length (xr_rest \<lparr>xr_rest = [], xr_roots = [XmlNode ''a'' [] None []], xr_stack = []\<rparr>) \<le> length ''<a/>''"
proof -
  have "readNextToken \<lparr>xr_rest = ''<a/>'', xr_roots = [], xr_stack = []\<rparr> =
      Inr \<lparr>xr_rest = [], xr_roots = [XmlNode ''a'' [] None []], xr_stack = []\<rparr>" by code_simp
  then have "(token_step ^^ 1) \<lparr>xr_rest = ''<a/>'', xr_roots = [], xr_stack = []\<rparr>
      \<lparr>xr_rest = [], xr_roots = [XmlNode ''a'' [] None []], xr_stack = []\<rparr>"
    unfolding relpowp_1 by (simp add: token_step_def)
  then show ?thesis using xml_reader_terminates by blast
qed

text \<open>C17. A document the reader accepts is shallow and safe: its trees have at most 257 levels, and every tag has a name and
  distinct attribute names that are no members of object prototypes.\<close>

theorem accepted_xml_bounded:
  assumes "parseXmlDocumentSync limit xml = Inr ns" "n \<in> set ns"
  shows "xml_ok n \<and> xml_height n \<le> 257"
proof -
  obtain r where r: "read_tokens \<lparr>xr_rest = xml, xr_roots = [], xr_stack = []\<rparr> = Inr r" "xr_roots r = ns"
    using assms(1) by (auto simp: parseXmlDocumentSync_def Let_def rbind_Inr_iff neq_Nil_conv split: if_splits list.splits)
  have "reader_inv r" by (rule read_tokens_inv [OF r(1)]) (simp add: reader_inv_def)
  with r(2) assms(2) show ?thesis by (simp add: reader_inv_def MAX_XML_NESTING_DEPTH_def)
qed

theorem accepted_xml_bounded_witness: "xml_ok (XmlNode ''a'' [] None []) \<and> xml_height (XmlNode ''a'' [] None []) \<le> 257"
proof -
  have "parseXmlDocumentSync (Some 10) ''<a/>'' = Inr [XmlNode ''a'' [] None []]" by code_simp
  then show ?thesis by (rule accepted_xml_bounded) simp
qed

end
