(* ===== verification/AndroidXml.thy ===== *)
theory AndroidXml
  imports Xml Visibility Devices
begin

text \<open>
  The XML of an Android hierarchy (\<^verbatim>\<open>src/platforms/android/ui-hierarchy.ts\<close>): the tokens of a document, the attributes of a
  \<open>node\<close> tag, the stream of nodes with the provenance of the system bars, and the tree that is built of the same tokens.

  A document is not read by the XML reader but scanned for tags, so any text has a stream and a tree. The objects of the
  code that are still open are a stack, innermost first; a node joins its parent when it leaves the stack, and at the end all
  open nodes do. The field \<open>parentIndex\<close> of a tree node is always \<open>undefined\<close> and left out. A reference to a code point above 255
  makes the reading fail.
\<close>

section \<open>Bounds and the system bars\<close>

definition read_int :: "string \<Rightarrow> (int \<times> string) option" where
  "read_int s =
     (let negative = (take 1 s = ''-''); t = (if negative then drop 1 s else s); ds = takeWhile is_digit_char t
      in if ds = [] then None
         else Some (if negative then - int (digits_val 10 ds) else int (digits_val 10 ds), drop (length ds) t))"

definition read_char :: "char \<Rightarrow> string \<Rightarrow> string option" where
  "read_char c s = (if take 1 s = [c] then Some (drop 1 s) else None)"

definition read_point :: "string \<Rightarrow> ((int \<times> int) \<times> string) option" where
  "read_point s =
     (case read_char CHR ''['' s of None \<Rightarrow> None
      | Some s1 \<Rightarrow> (case read_int s1 of None \<Rightarrow> None
      | Some (x, s2) \<Rightarrow> (case read_char CHR '','' s2 of None \<Rightarrow> None
      | Some s3 \<Rightarrow> (case read_int s3 of None \<Rightarrow> None
      | Some (y, s4) \<Rightarrow> map_option (Pair (x, y)) (read_char CHR '']'' s4)))))"

definition bounds_at :: "string \<Rightarrow> rect option" where
  "bounds_at s =
     (case read_point s of None \<Rightarrow> None
      | Some ((x1, y1), t) \<Rightarrow>
          (case read_point t of None \<Rightarrow> None
           | Some ((x2, y2), u) \<Rightarrow>
               Some \<lparr>rx = of_int x1, ry = of_int y1, rwidth = of_int (max 0 (x2 - x1)), rheight = of_int (max 0 (y2 - y1))\<rparr>))"

fun find_bounds :: "string \<Rightarrow> rect option" where
  "find_bounds [] = None"
| "find_bounds (c # s) = (case bounds_at (c # s) of Some r \<Rightarrow> Some r | None \<Rightarrow> find_bounds s)"

definition parseBounds :: "string option \<Rightarrow> rect option" where
  "parseBounds bounds = (if \<not> truthy bounds then None else find_bounds (the bounds))"

definition ANDROID_SYSTEM_CHROME_PACKAGE :: string where
  "ANDROID_SYSTEM_CHROME_PACKAGE = ''com.android.systemui''"

text \<open>\<open>/(^|_)(status_bar|navigation_bar)(_|$)/\<close> on the leaf of an identifier.\<close>

definition bar_at :: "string \<Rightarrow> string \<Rightarrow> bool" where
  "bar_at name s \<longleftrightarrow> take (length name) s = name \<and> (drop (length name) s = [] \<or> take 1 (drop (length name) s) = ''_'')"

fun names_bar :: "bool \<Rightarrow> string \<Rightarrow> bool" where
  "names_bar atSegment [] = False"
| "names_bar atSegment (c # s) =
     ((atSegment \<and> (bar_at ''status_bar'' (c # s) \<or> bar_at ''navigation_bar'' (c # s))) \<or> names_bar (c = CHR ''_'') s)"

definition isAndroidSystemChromeWindowResourceId :: "string option \<Rightarrow> bool" where
  "isAndroidSystemChromeWindowResourceId resourceId =
     (let identifier = or_empty resourceId; start = ANDROID_SYSTEM_CHROME_PACKAGE @ '':id/''
      in if take (length start) identifier \<noteq> start then False else names_bar True (drop (length start) identifier))"

section \<open>Tags and attributes\<close>

definition NODE_START :: string where
  "NODE_START = ''<node''"

definition NODE_CLOSE :: string where
  "NODE_CLOSE = ''</node>''"

text \<open>The token at the start of a text, with the rest of the text.\<close>

definition node_token :: "string \<Rightarrow> (string \<times> string) option" where
  "node_token s =
     (let t = drop 5 s; inside = takeWhile (\<lambda>c. c \<noteq> CHR ''>'') t
      in if take 5 s = NODE_START \<and> \<not> list_ex is_word_char (take 1 t) \<and> CHR ''>'' \<in> set t
         then Some (NODE_START @ inside @ ''>'', drop (Suc (length inside)) t)
         else if take 7 s = NODE_CLOSE then Some (NODE_CLOSE, drop 7 s) else None)"

lemma node_token_shorter: "node_token (c # s) = Some (t, rest) \<Longrightarrow> length rest < Suc (length s)"
  by (auto simp: node_token_def Let_def NODE_START_def split: if_splits)

function node_tokens :: "string \<Rightarrow> string list" where
  "node_tokens [] = []"
| "node_tokens (c # s) = (case node_token (c # s) of Some (t, rest) \<Rightarrow> t # node_tokens rest | None \<Rightarrow> node_tokens s)"
  by pat_completeness auto
termination
  by (relation "measure length") (auto dest: node_token_shorter)

definition isXmlNodeEnd :: "char \<Rightarrow> bool" where
  "isXmlNodeEnd c \<longleftrightarrow> c = CHR ''/'' \<or> c = CHR ''>''"

definition isXmlQuote :: "char \<Rightarrow> bool" where
  "isXmlQuote c \<longleftrightarrow> c = CHR ''\"'' \<or> c = CHR 0x27"

definition isXmlAttributeNameTerminator :: "char \<Rightarrow> bool" where
  "isXmlAttributeNameTerminator c \<longleftrightarrow> c = CHR ''='' \<or> c = CHR ''/'' \<or> c = CHR ''>'' \<or> isXmlWhitespace c"

text \<open>The next attribute of the text between the first space of a tag and its end: its name, its decoded value
  (\<open>None\<close> for a reference above 255) and the rest.\<close>

definition readNextXmlAttribute :: "string \<Rightarrow> (string \<times> string option \<times> string) option" where
  "readNextXmlAttribute s =
     (let t = skipWhitespace s
      in if t = [] \<or> isXmlNodeEnd (hd t) then None
         else let name = takeWhile (\<lambda>c. \<not> isXmlAttributeNameTerminator c) t;
                  u = skipWhitespace (drop (length name) t)
              in if name = [] \<or> take 1 u \<noteq> ''='' then None
                 else (case skipWhitespace (drop 1 u) of
                         [] \<Rightarrow> None
                       | quote # w \<Rightarrow>
                           if \<not> isXmlQuote quote then None
                           else map_option (\<lambda>(raw, after). (name, decodeXmlCharacterReferences raw, after)) (split_at_token [quote] w)))"

lemma readNextXmlAttribute_shorter:
  "readNextXmlAttribute s = Some (name, v, after) \<Longrightarrow> length after < length s"
proof -
  assume r: "readNextXmlAttribute s = Some (name, v, after)"
  let ?t = "skipWhitespace s"
  let ?d = "drop (length (takeWhile (\<lambda>c. \<not> isXmlAttributeNameTerminator c) ?t)) ?t"
  let ?u = "skipWhitespace ?d"
  from r obtain quote w raw where q: "skipWhitespace (drop 1 ?u) = quote # w" "split_at_token [quote] w = Some (raw, after)"
    unfolding readNextXmlAttribute_def Let_def by (auto split: if_splits list.splits)
  have "length after < length (quote # w)" using split_at_token_length [OF q(2)] by simp
  also have "\<dots> \<le> length (drop 1 ?u)" using skipWhitespace_length [of "drop 1 ?u"] unfolding q(1) .
  also have "\<dots> \<le> length ?u" by simp
  also have "\<dots> \<le> length ?d" by (rule skipWhitespace_length)
  also have "\<dots> \<le> length ?t" by simp
  also have "\<dots> \<le> length s" by (rule skipWhitespace_length)
  finally show ?thesis .
qed

function attribute_loop :: "(string \<times> string) list \<Rightarrow> string \<Rightarrow> (string \<times> string) list option" where
  "attribute_loop attrs s =
     (case readNextXmlAttribute s of
        None \<Rightarrow> Some attrs
      | Some (name, None, after) \<Rightarrow> None
      | Some (name, Some v, after) \<Rightarrow> attribute_loop (set_attribute name v attrs) after)"
  by pat_completeness auto
termination
  by (relation "measure (\<lambda>(attrs, s). length s)") (auto dest: readNextXmlAttribute_shorter)

declare attribute_loop.simps [simp del]

text \<open>\<open>lastIndexOf('>')\<close> is the end of the tag.\<close>

definition parseXmlNodeAttributes :: "string \<Rightarrow> (string \<times> string) list option" where
  "parseXmlNodeAttributes node =
     (if CHR '' '' \<notin> set node \<or> CHR ''>'' \<notin> set node then Some []
      else let before = rev (drop 1 (dropWhile (\<lambda>c. c \<noteq> CHR ''>'') (rev node)))
           in attribute_loop [] (dropWhile (\<lambda>c. c \<noteq> CHR '' '') before))"

record android_metadata =
  am_text :: "string option"
  am_desc :: "string option"
  am_resourceId :: "string option"
  am_packageName :: "string option"
  am_className :: "string option"
  am_bounds :: "string option"
  am_rect :: "rect option"
  am_clickable :: "bool option"
  am_enabled :: "bool option"
  am_visibleToUser :: "bool option"
  am_drawingOrder :: "rat option"
  am_focusable :: "bool option"
  am_focused :: "bool option"
  am_password :: "bool option"
  am_scrollable :: "bool option"
  am_canScrollForward :: "bool option"
  am_canScrollBackward :: "bool option"
  am_windowIndex :: "rat option"
  am_windowType :: "rat option"
  am_windowLayer :: "rat option"
  am_windowActive :: "bool option"
  am_windowFocused :: "bool option"
  am_windowRect :: "rect option"

definition boolAttr :: "(string \<times> string) list \<Rightarrow> string \<Rightarrow> bool option" where
  "boolAttr attrs name = map_option (\<lambda>raw. raw = ''true'') (map_of attrs name)"

definition numberAttr :: "(string \<times> string) list \<Rightarrow> string \<Rightarrow> rat option" where
  "numberAttr attrs name =
     (case map_of attrs name of
        None \<Rightarrow> None
      | Some raw \<Rightarrow> if js_trim raw = [] then None else (case js_Number raw of Finite q \<Rightarrow> Some q | _ \<Rightarrow> None))"

definition metadata_of :: "(string \<times> string) list \<Rightarrow> android_metadata" where
  "metadata_of attrs =
     \<lparr>am_text = map_of attrs ''text'', am_desc = map_of attrs ''content-desc'', am_resourceId = map_of attrs ''resource-id'',
      am_packageName = map_of attrs ''package'', am_className = map_of attrs ''class'', am_bounds = map_of attrs ''bounds'',
      am_rect = parseBounds (map_of attrs ''bounds''),
      am_clickable = boolAttr attrs ''clickable'', am_enabled = boolAttr attrs ''enabled'',
      am_visibleToUser = boolAttr attrs ''visible-to-user'', am_drawingOrder = numberAttr attrs ''drawing-order'',
      am_focusable = boolAttr attrs ''focusable'', am_focused = boolAttr attrs ''focused'', am_password = boolAttr attrs ''password'',
      am_scrollable = boolAttr attrs ''scrollable'', am_canScrollForward = boolAttr attrs ''can-scroll-forward'',
      am_canScrollBackward = boolAttr attrs ''can-scroll-backward'', am_windowIndex = numberAttr attrs ''window-index'',
      am_windowType = numberAttr attrs ''window-type'', am_windowLayer = numberAttr attrs ''window-layer'',
      am_windowActive = boolAttr attrs ''window-active'', am_windowFocused = boolAttr attrs ''window-focused'',
      am_windowRect = parseBounds (map_of attrs ''window-bounds'')\<rparr>"

definition readAndroidUiNodeMetadata :: "string \<Rightarrow> android_metadata option" where
  "readAndroidUiNodeMetadata node = map_option metadata_of (parseXmlNodeAttributes node)"

definition self_closing :: "string \<Rightarrow> bool" where
  "self_closing token \<longleftrightarrow> length token \<ge> 2 \<and> drop (length token - 2) token = ''/>''"

section \<open>The stream of nodes\<close>

text \<open>The tracker of the system bars: whether each open element is inside one, innermost first.\<close>

definition inChromeNow :: "bool list \<Rightarrow> bool" where
  "inChromeNow openElements = (case openElements of [] \<Rightarrow> False | b # bs \<Rightarrow> b)"

definition chrome_open :: "string option \<Rightarrow> bool \<Rightarrow> bool list \<Rightarrow> bool \<times> bool list" where
  "chrome_open resourceId selfClosing openElements =
     (let inChrome = inChromeNow openElements \<or> isAndroidSystemChromeWindowResourceId resourceId
      in (inChrome, if selfClosing then openElements else inChrome # openElements))"

fun ui_nodes_loop :: "bool list \<Rightarrow> string list \<Rightarrow> (android_metadata \<times> bool) list option" where
  "ui_nodes_loop openElements [] = Some []"
| "ui_nodes_loop openElements (token # tokens) =
     (if take 6 token = ''</node'' then ui_nodes_loop (drop 1 openElements) tokens
      else (case readAndroidUiNodeMetadata token of
              None \<Rightarrow> None
            | Some metadata \<Rightarrow>
                (let (inChrome, opened) = chrome_open (am_resourceId metadata) (self_closing token) openElements
                 in map_option (Cons (metadata, inChrome)) (ui_nodes_loop opened tokens))))"

definition androidUiNodes :: "string \<Rightarrow> (android_metadata \<times> bool) list option" where
  "androidUiNodes xml = ui_nodes_loop [] (node_tokens xml)"

section \<open>The tree of nodes\<close>

record android_fields =
  af_type :: "string option"
  af_label :: "string option"
  af_value :: "string option"
  af_identifier :: "string option"
  af_packageName :: "string option"
  af_rect :: "rect option"
  af_enabled :: "bool option"
  af_visibleToUser :: "bool option"
  af_drawingOrder :: "rat option"
  af_focused :: "bool option"
  af_hittable :: "bool option"
  af_depth :: int
  af_hiddenContentAbove :: "bool option"
  af_hiddenContentBelow :: "bool option"
  af_scrollable :: "bool option"
  af_canScrollForward :: "bool option"
  af_canScrollBackward :: "bool option"
  af_windowIndex :: "rat option"
  af_windowType :: "rat option"
  af_windowLayer :: "rat option"
  af_windowActive :: "bool option"
  af_windowFocused :: "bool option"
  af_windowRect :: "rect option"

datatype android_node = AndroidNode (an_fields: android_fields) (an_children: "android_node list")

definition root_fields :: android_fields where
  "root_fields =
     \<lparr>af_type = None, af_label = None, af_value = None, af_identifier = None, af_packageName = None, af_rect = None,
      af_enabled = None, af_visibleToUser = None, af_drawingOrder = None, af_focused = None, af_hittable = None, af_depth = -1,
      af_hiddenContentAbove = None, af_hiddenContentBelow = None, af_scrollable = None, af_canScrollForward = None,
      af_canScrollBackward = None, af_windowIndex = None, af_windowType = None, af_windowLayer = None, af_windowActive = None,
      af_windowFocused = None, af_windowRect = None\<rparr>"

definition node_fields :: "android_metadata \<Rightarrow> int \<Rightarrow> android_fields" where
  "node_fields attrs depth =
     \<lparr>af_type = am_className attrs, af_label = (if truthy (am_text attrs) then am_text attrs else am_desc attrs),
      af_value = am_text attrs, af_identifier = am_resourceId attrs, af_packageName = am_packageName attrs, af_rect = am_rect attrs,
      af_enabled = am_enabled attrs, af_visibleToUser = am_visibleToUser attrs, af_drawingOrder = am_drawingOrder attrs,
      af_focused = am_focused attrs,
      af_hittable = (if am_clickable attrs = None then am_focusable attrs else am_clickable attrs), af_depth = depth,
      af_hiddenContentAbove = None, af_hiddenContentBelow = None, af_scrollable = am_scrollable attrs,
      af_canScrollForward = am_canScrollForward attrs, af_canScrollBackward = am_canScrollBackward attrs,
      af_windowIndex = am_windowIndex attrs, af_windowType = am_windowType attrs, af_windowLayer = am_windowLayer attrs,
      af_windowActive = am_windowActive attrs, af_windowFocused = am_windowFocused attrs, af_windowRect = am_windowRect attrs\<rparr>"

definition append_child :: "android_node \<Rightarrow> android_node \<Rightarrow> android_node" where
  "append_child node parent = AndroidNode (an_fields parent) (an_children parent @ [node])"

text \<open>The open nodes, innermost first, of which the last is the root; a closing tag never removes the root.\<close>

fun close_node :: "android_node list \<Rightarrow> android_node list" where
  "close_node (node # parent # outer) = append_child node parent # outer"
| "close_node stack = stack"

fun collapse_open :: "android_node list \<Rightarrow> android_node" where
  "collapse_open [] = AndroidNode root_fields []"
| "collapse_open [node] = node"
| "collapse_open (node # parent # outer) = collapse_open (append_child node parent # outer)"

definition open_node :: "android_metadata \<Rightarrow> bool \<Rightarrow> android_node list \<Rightarrow> android_node list" where
  "open_node attrs selfClosing stack =
     (case stack of
        [] \<Rightarrow> []
      | parent # outer \<Rightarrow>
          let node = AndroidNode (node_fields attrs (af_depth (an_fields parent) + 1)) []
          in if selfClosing then append_child node parent # outer else node # stack)"

fun tree_loop :: "android_node list \<Rightarrow> string list \<Rightarrow> android_node option" where
  "tree_loop stack [] = Some (collapse_open stack)"
| "tree_loop stack (token # tokens) =
     (if take 6 token = ''</node'' then tree_loop (close_node stack) tokens
      else (case readAndroidUiNodeMetadata token of
              None \<Rightarrow> None
            | Some attrs \<Rightarrow> tree_loop (open_node attrs (self_closing token) stack) tokens))"

text \<open>The tree as it is before any node is removed.\<close>

definition build_tree :: "string \<Rightarrow> android_node option" where
  "build_tree xml = tree_loop [AndroidNode root_fields []] (node_tokens xml)"

section \<open>The stream lists the tree\<close>

text \<open>The nodes of a tree in document order, each with whether it or a node around it is a container of a system bar.\<close>

fun marked_nodes :: "bool \<Rightarrow> android_node \<Rightarrow> (android_fields \<times> bool) list" where
  "marked_nodes around (AndroidNode f children) =
     (f, around \<or> isAndroidSystemChromeWindowResourceId (af_identifier f)) #
       concat (map (marked_nodes (around \<or> isAndroidSystemChromeWindowResourceId (af_identifier f))) children)"

definition stream_entry :: "android_metadata \<times> bool \<Rightarrow> android_fields \<times> bool" where
  "stream_entry = (\<lambda>(m, c). (node_fields m 0, c))"

definition tree_entry :: "android_fields \<times> bool \<Rightarrow> android_fields \<times> bool" where
  "tree_entry = (\<lambda>(f, c). (f\<lparr>af_depth := 0\<rparr>, c))"

definition listed_nodes :: "android_node \<Rightarrow> (android_fields \<times> bool) list" where
  "listed_nodes hierarchy = map tree_entry (concat (map (marked_nodes False) (an_children hierarchy)))"

fun stack_flags :: "android_node list \<Rightarrow> bool list" where
  "stack_flags (node # parent # outer) =
     (inChromeNow (stack_flags (parent # outer)) \<or> isAndroidSystemChromeWindowResourceId (af_identifier (an_fields node))) #
       stack_flags (parent # outer)"
| "stack_flags stack = []"

lemma no_chrome_None [simp]: "\<not> isAndroidSystemChromeWindowResourceId None"
  by (simp add: isAndroidSystemChromeWindowResourceId_def or_empty_def ANDROID_SYSTEM_CHROME_PACKAGE_def)

lemma an_fields_append [simp]: "an_fields (append_child n p) = an_fields p"
  by (simp add: append_child_def)

lemma marked_append:
  "marked_nodes c (append_child n p) =
     marked_nodes c p @ marked_nodes (c \<or> isAndroidSystemChromeWindowResourceId (af_identifier (an_fields p))) n"
  by (cases p) (simp add: append_child_def)

definition rooted :: "android_node list \<Rightarrow> bool" where
  "rooted stack \<longleftrightarrow> stack \<noteq> [] \<and> af_identifier (an_fields (last stack)) = None"

lemma stack_flags_now:
  "rooted (p # outer) \<Longrightarrow>
     inChromeNow (stack_flags (p # outer)) \<longleftrightarrow>
       inChromeNow (stack_flags outer) \<or> isAndroidSystemChromeWindowResourceId (af_identifier (an_fields p))"
  by (cases outer) (auto simp: inChromeNow_def rooted_def)

lemma stack_flags_fields: "an_fields q = an_fields p \<Longrightarrow> stack_flags (q # outer) = stack_flags (p # outer)"
  by (cases outer) auto

lemma collapse_extended:
  assumes "rooted (p # outer)" "an_fields q = an_fields p"
    "marked_nodes (inChromeNow (stack_flags outer)) q = marked_nodes (inChromeNow (stack_flags outer)) p @ xs"
  shows "marked_nodes False (collapse_open (q # outer)) = marked_nodes False (collapse_open (p # outer)) @ xs"
  using assms
proof (induction outer arbitrary: p q)
  case Nil
  then show ?case by (simp add: inChromeNow_def)
next
  case (Cons r outer)
  have r: "rooted (append_child p r # outer)" using Cons.prems(1) by (auto simp: rooted_def)
  have now: "inChromeNow (stack_flags (r # outer)) \<longleftrightarrow>
      inChromeNow (stack_flags outer) \<or> isAndroidSystemChromeWindowResourceId (af_identifier (an_fields r))"
    using Cons.prems(1) by (intro stack_flags_now) (simp add: rooted_def)
  show ?case
    using Cons.IH [OF r, of "append_child q r"] Cons.prems(3) by (simp add: marked_append now)
qed

lemma open_node_listed:
  assumes "rooted stack" "chrome_open (am_resourceId m) closing (stack_flags stack) = (inChrome, opened)"
  shows "rooted (open_node m closing stack) \<and> stack_flags (open_node m closing stack) = opened \<and>
    (\<exists>d. marked_nodes False (collapse_open (open_node m closing stack)) =
      marked_nodes False (collapse_open stack) @ [(node_fields m d, inChrome)])"
proof -
  from assms(1) obtain p outer where s: "stack = p # outer" by (cases stack) (auto simp: rooted_def)
  let ?d = "af_depth (an_fields p) + 1"
  let ?n = "AndroidNode (node_fields m ?d) []"
  have id: "af_identifier (node_fields m ?d) = am_resourceId m" by (simp add: node_fields_def)
  have flags: "inChrome \<longleftrightarrow> inChromeNow (stack_flags stack) \<or> isAndroidSystemChromeWindowResourceId (am_resourceId m)"
    "opened = (if closing then stack_flags stack else inChrome # stack_flags stack)"
    using assms(2) by (auto simp: chrome_open_def Let_def)
  have now: "inChromeNow (stack_flags stack) \<longleftrightarrow>
      inChromeNow (stack_flags outer) \<or> isAndroidSystemChromeWindowResourceId (af_identifier (an_fields p))"
    unfolding s by (rule stack_flags_now) (use assms(1) s in simp)
  have ext: "marked_nodes False (collapse_open (append_child ?n p # outer)) =
      marked_nodes False (collapse_open (p # outer)) @ [(node_fields m ?d, inChrome)]"
    by (rule collapse_extended) (use assms(1) s id flags(1) now in \<open>auto simp: marked_append\<close>)
  have fields: "stack_flags (append_child ?n p # outer) = stack_flags (p # outer)"
    by (rule stack_flags_fields) simp
  show ?thesis
    using assms(1) ext fields flags by (auto simp: s open_node_def Let_def rooted_def id)
qed

lemma close_node_listed:
  assumes "rooted stack"
  shows "rooted (close_node stack) \<and> stack_flags (close_node stack) = drop 1 (stack_flags stack) \<and>
    collapse_open (close_node stack) = collapse_open stack"
  using assms
proof (cases stack rule: close_node.cases)
  case (1 n p outer)
  then show ?thesis using assms stack_flags_fields [of "append_child n p" p outer] by (auto simp: rooted_def)
qed (auto simp: rooted_def)

lemma loops_agree:
  assumes "rooted stack"
  shows "map_option (\<lambda>ms. map tree_entry (marked_nodes False (collapse_open stack)) @ map stream_entry ms) (ui_nodes_loop (stack_flags stack) tokens) =
    map_option (\<lambda>h. map tree_entry (marked_nodes False h)) (tree_loop stack tokens)"
  using assms
proof (induction tokens arbitrary: stack)
  case (Cons token tokens)
  show ?case
  proof (cases "take 6 token = ''</node''")
    case True
    with Cons.IH [of "close_node stack"] close_node_listed [OF Cons.prems] show ?thesis by simp
  next
    case False
    show ?thesis
    proof (cases "readAndroidUiNodeMetadata token")
      case None
      with False show ?thesis by simp
    next
      case (Some m)
      obtain inChrome opened where o: "chrome_open (am_resourceId m) (self_closing token) (stack_flags stack) = (inChrome, opened)"
        by fastforce
      from open_node_listed [OF Cons.prems o] obtain d where d: "rooted (open_node m (self_closing token) stack)"
        "stack_flags (open_node m (self_closing token) stack) = opened"
        "marked_nodes False (collapse_open (open_node m (self_closing token) stack)) =
           marked_nodes False (collapse_open stack) @ [(node_fields m d, inChrome)]" by blast
      have e: "tree_entry (node_fields m d, inChrome) = stream_entry (m, inChrome)"
        by (simp add: tree_entry_def stream_entry_def node_fields_def)
      show ?thesis
        using Cons.IH [OF d(1)] False Some o d(2,3) by (simp add: option.map_comp comp_def e)
    qed
  qed
qed simp

lemma collapse_fields: "stack \<noteq> [] \<Longrightarrow> an_fields (collapse_open stack) = an_fields (last stack)"
  by (induction stack rule: collapse_open.induct) auto

lemma open_last: "stack \<noteq> [] \<Longrightarrow> open_node m closing stack \<noteq> [] \<and> an_fields (last (open_node m closing stack)) = an_fields (last stack)"
  by (cases stack) (auto simp: open_node_def Let_def)

lemma close_last: "stack \<noteq> [] \<Longrightarrow> close_node stack \<noteq> [] \<and> an_fields (last (close_node stack)) = an_fields (last stack)"
  by (cases stack rule: close_node.cases) auto

lemma tree_loop_fields: "tree_loop stack tokens = Some h \<Longrightarrow> stack \<noteq> [] \<Longrightarrow> an_fields h = an_fields (last stack)"
proof (induction stack tokens rule: tree_loop.induct)
  case (2 stack token tokens)
  then show ?case using close_last [of stack] open_last [of stack] by (auto split: if_splits option.splits)
qed (auto simp: collapse_fields)

text \<open>C18. The stream of nodes and the tree are two readings of the same document: for every text, well formed or not, the stream lists
  the nodes of the tree in document order, and marks a node exactly when it, or a node around it, is a container of a system bar.\<close>

theorem stream_lists_tree:
  "map_option (map stream_entry) (androidUiNodes xml) = map_option listed_nodes (build_tree xml)"
proof -
  let ?top = "AndroidNode root_fields []"
  have id: "af_identifier root_fields = None" by (simp add: root_fields_def)
  have "rooted [?top]" by (simp add: rooted_def id)
  from loops_agree [OF this, of "node_tokens xml"]
  have "map_option (\<lambda>ms. tree_entry (root_fields, False) # map stream_entry ms) (androidUiNodes xml) =
      map_option (\<lambda>h. map tree_entry (marked_nodes False h)) (build_tree xml)"
    by (simp add: androidUiNodes_def build_tree_def id)
  moreover have "map tree_entry (marked_nodes False h) = tree_entry (an_fields h, False) # listed_nodes h" if "build_tree xml = Some h" for h
  proof -
    have "an_fields h = root_fields" using tree_loop_fields [of "[?top]"] that by (simp add: build_tree_def)
    then show ?thesis by (cases h) (simp add: listed_nodes_def id)
  qed
  ultimately show ?thesis by (cases "androidUiNodes xml"; cases "build_tree xml") auto
qed

end
