(* ===== verification/AndroidSnapshot.thy ===== *)
theory AndroidSnapshot
  imports AndroidXml
begin

text \<open>
  From the tree of an Android hierarchy to the nodes of a snapshot (\<^verbatim>\<open>src/platforms/android/ui-hierarchy.ts\<close>): hidden subtrees,
  stale application windows and covered siblings are removed, scroll actions become hints, and a walk collects the nodes that
  the options ask for.

  The two memo tables of the code hold values of functions of subtrees that no longer change when a value is stored, so the
  model computes the functions. Stacks and queues that visit every node once are kept where their order can be
  observed. Areas are exact rationals.
\<close>

section \<open>Identifiers and types\<close>

text \<open>\<open>/^[\w.]+:id\/[\w.-]+$/i\<close> on the trimmed text.\<close>

definition generic_leaf :: "string \<Rightarrow> bool" where
  "generic_leaf s \<longleftrightarrow> s \<noteq> [] \<and> list_all (\<lambda>c. is_word_char c \<or> c = CHR ''.'' \<or> c = CHR ''-'') s"

definition isGenericAndroidId :: "string \<Rightarrow> bool" where
  "isGenericAndroidId v =
     (let t = js_trim v; package = takeWhile (\<lambda>c. is_word_char c \<or> c = CHR ''.'') t; rest = drop (length package) t
      in if t = [] then False
         else package \<noteq> [] \<and> js_lower (take 4 rest) = '':id/'' \<and> generic_leaf (drop 4 rest))"

definition normalizeAndroidType :: "string option \<Rightarrow> string" where
  "normalizeAndroidType type = (if \<not> truthy type then [] else js_lower (the type))"

definition isStructuralAndroidType :: "string \<Rightarrow> bool" where
  "isStructuralAndroidType type =
     (let short = last_segment (\<lambda>c. c = CHR ''.'') type
      in js_includes short ''layout'' \<or> short = ''viewgroup'' \<or> short = ''view'')"

definition isCollectionContainerType :: "string option \<Rightarrow> bool" where
  "isCollectionContainerType type =
     (if \<not> truthy type then False
      else includes_any (normalizeAndroidType type) [''recyclerview'', ''listview'', ''gridview''])"

section \<open>Hidden subtrees\<close>

fun pruneAndroidInvisibleSubtrees :: "android_node \<Rightarrow> android_node" where
  "pruneAndroidInvisibleSubtrees (AndroidNode f children) =
     AndroidNode f (map pruneAndroidInvisibleSubtrees
       (filter (\<lambda>child. af_visibleToUser (an_fields child) \<noteq> Some False) children))"

section \<open>Stale application windows\<close>

definition ANDROID_WINDOW_TYPE_APPLICATION :: rat where
  "ANDROID_WINDOW_TYPE_APPLICATION = 1"

definition isAndroidWindowRoot :: "android_node \<Rightarrow> bool" where
  "isAndroidWindowRoot node \<longleftrightarrow> af_windowIndex (an_fields node) \<noteq> None \<or> af_windowType (an_fields node) \<noteq> None"

definition isAndroidApplicationWindow :: "android_node \<Rightarrow> bool" where
  "isAndroidApplicationWindow node \<longleftrightarrow> af_windowType (an_fields node) = Some ANDROID_WINDOW_TYPE_APPLICATION"

definition isAndroidForegroundWindow :: "android_node \<Rightarrow> bool" where
  "isAndroidForegroundWindow node \<longleftrightarrow>
     af_windowActive (an_fields node) = Some True \<or> af_windowFocused (an_fields node) = Some True"

definition max_of :: "rat list \<Rightarrow> rat option" where
  "max_of xs = (case xs of [] \<Rightarrow> None | y # ys \<Rightarrow> Some (foldr max ys y))"

definition min_of :: "rat list \<Rightarrow> rat option" where
  "min_of xs = (case xs of [] \<Rightarrow> None | y # ys \<Rightarrow> Some (foldr min ys y))"

definition highestAndroidWindowLayer :: "android_node list \<Rightarrow> rat option" where
  "highestAndroidWindowLayer windows = max_of (List.map_filter (\<lambda>w. af_windowLayer (an_fields w)) windows)"

definition discardInactiveAndroidApplicationWindows :: "android_node \<Rightarrow> android_node" where
  "discardInactiveAndroidApplicationWindows top_node =
     (let windows = filter isAndroidWindowRoot (an_children top_node);
          foregroundApplicationWindows = filter (\<lambda>w. isAndroidApplicationWindow w \<and> isAndroidForegroundWindow w) windows;
          foregroundLayer = highestAndroidWindowLayer foregroundApplicationWindows
      in if length windows < 2 then top_node
         else if foregroundApplicationWindows = [] then top_node
         else AndroidNode (an_fields top_node) (filter (\<lambda>w.
                if \<not> isAndroidApplicationWindow w then True
                else if \<not> isAndroidForegroundWindow w then False
                else foregroundLayer = None \<or> af_windowLayer (an_fields w) = foregroundLayer) (an_children top_node)))"

section \<open>Covered siblings\<close>

definition meaningful :: "string option \<Rightarrow> bool" where
  "meaningful v = (let t = js_trim (or_empty v) in t \<noteq> [] \<and> \<not> isGenericAndroidId t)"

definition hasMeaningfulIdentifier :: "android_node \<Rightarrow> bool" where
  "hasMeaningfulIdentifier node = meaningful (af_identifier (an_fields node))"

definition isSemanticIdentifierMarker :: "android_node \<Rightarrow> bool" where
  "isSemanticIdentifierMarker node \<longleftrightarrow>
     hasMeaningfulIdentifier node \<and> af_hittable (an_fields node) \<noteq> Some True \<and> an_children node = []"

definition hasPositiveRect :: "android_node \<Rightarrow> bool" where
  "hasPositiveRect node = (case af_rect (an_fields node) of None \<Rightarrow> False | Some r \<Rightarrow> rwidth r > 0 \<and> rheight r > 0)"

definition hasOwnAgentVisibleContent :: "android_node \<Rightarrow> bool" where
  "hasOwnAgentVisibleContent node =
     (if af_visibleToUser (an_fields node) = Some False then False
      else if af_hittable (an_fields node) = Some True then True
      else meaningful (af_label (an_fields node)) \<or> meaningful (af_identifier (an_fields node)))"

fun hasActionableDescendant :: "android_node \<Rightarrow> bool" where
  "hasActionableDescendant (AndroidNode f children) =
     list_ex (\<lambda>child. af_visibleToUser (an_fields child) \<noteq> Some False \<and>
       (af_hittable (an_fields child) = Some True \<or> hasActionableDescendant child)) children"

definition canCoverSibling :: "android_node \<Rightarrow> bool" where
  "canCoverSibling node \<longleftrightarrow>
     af_visibleToUser (an_fields node) \<noteq> Some False \<and> af_drawingOrder (an_fields node) \<noteq> None \<and> hasPositiveRect node \<and>
     (hasOwnAgentVisibleContent node \<or> hasActionableDescendant node)"

definition intersectArea :: "rect \<Rightarrow> rect \<Rightarrow> rat" where
  "intersectArea left right =
     (let minX = max (rx left) (rx right); minY = max (ry left) (ry right);
          maxX = min (rx left + rwidth left) (rx right + rwidth right);
          maxY = min (ry left + rheight left) (ry right + rheight right)
      in if maxX \<le> minX \<or> maxY \<le> minY then 0 else (maxX - minX) * (maxY - minY))"

definition rectCoverage :: "rect \<Rightarrow> rect \<Rightarrow> rat" where
  "rectCoverage coveringRect targetRect =
     (let targetArea = rwidth targetRect * rheight targetRect
      in if targetArea \<le> 0 then 0 else intersectArea coveringRect targetRect / targetArea)"

text \<open>The test that a candidate is not the node itself is implied by the comparison of the drawing orders.\<close>

definition isCoveredByHigherDrawingOrderSibling :: "android_node \<Rightarrow> android_node list \<Rightarrow> bool" where
  "isCoveredByHigherDrawingOrderSibling node coveringCandidates =
     (if af_visibleToUser (an_fields node) = Some False \<or> af_drawingOrder (an_fields node) = None \<or> \<not> hasPositiveRect node then False
      else list_ex (\<lambda>sibling.
             \<not> the (af_drawingOrder (an_fields sibling)) \<le> the (af_drawingOrder (an_fields node)) \<and>
             rectCoverage (the (af_rect (an_fields sibling))) (the (af_rect (an_fields node))) \<ge> 9 / 10) coveringCandidates)"

definition shouldKeepAndroidSibling :: "android_node \<Rightarrow> android_node list \<Rightarrow> bool" where
  "shouldKeepAndroidSibling node coveringCandidates \<longleftrightarrow>
     isSemanticIdentifierMarker node \<or> \<not> isCoveredByHigherDrawingOrderSibling node coveringCandidates"

definition keep_siblings :: "android_node list \<Rightarrow> android_node list" where
  "keep_siblings siblings =
     (let coveringCandidates = filter canCoverSibling siblings
      in if length siblings < 2 then siblings
         else if coveringCandidates = [] then siblings
         else filter (\<lambda>child. shouldKeepAndroidSibling child coveringCandidates) siblings)"

fun pruneAndroidCoveredSubtrees :: "android_node \<Rightarrow> android_node" where
  "pruneAndroidCoveredSubtrees (AndroidNode f children) = AndroidNode f (keep_siblings (map pruneAndroidCoveredSubtrees children))"

section \<open>Scroll actions\<close>

definition estimateChildOverflow :: "android_node \<Rightarrow> (rat \<times> rat) option" where
  "estimateChildOverflow node =
     (let childRects = List.map_filter (\<lambda>child. af_rect (an_fields child)) (an_children node) in
      case (af_rect (an_fields node), min_of (map rx childRects), max_of (map (\<lambda>r. rx r + rwidth r) childRects),
            min_of (map ry childRects), max_of (map (\<lambda>r. ry r + rheight r) childRects)) of
        (Some r, Some minX, Some maxX, Some minY, Some maxY) \<Rightarrow>
          Some (max 0 (maxX - minX - rwidth r), max 0 (maxY - minY - rheight r))
      | _ \<Rightarrow> None)"

definition isVerticalScrollableNode :: "android_node \<Rightarrow> bool" where
  "isVerticalScrollableNode node =
     (if af_scrollable (an_fields node) \<noteq> Some True \<or> \<not> isScrollableType (af_type (an_fields node)) then False
      else if js_includes (js_lower (or_empty (af_type (an_fields node)))) ''horizontalscrollview'' then False
      else (case estimateChildOverflow node of
              Some (horizontal, vertical) \<Rightarrow> \<not> (horizontal > vertical \<and> horizontal > 16)
            | None \<Rightarrow> True))"

definition scroll_hints :: "android_node \<Rightarrow> android_fields" where
  "scroll_hints node =
     (let f = an_fields node in
      if \<not> isVerticalScrollableNode node then f
      else f\<lparr>af_hiddenContentAbove := (if af_canScrollBackward f = Some True then Some True else af_hiddenContentAbove f),
             af_hiddenContentBelow := (if af_canScrollForward f = Some True then Some True else af_hiddenContentBelow f)\<rparr>)"

fun hint_subtree :: "android_node \<Rightarrow> android_node" where
  "hint_subtree (AndroidNode f children) = AndroidNode (scroll_hints (AndroidNode f children)) (map hint_subtree children)"

definition applyAndroidScrollActionHints :: "android_node \<Rightarrow> android_node" where
  "applyAndroidScrollActionHints top_node = AndroidNode (an_fields top_node) (map hint_subtree (an_children top_node))"

definition parseUiHierarchyTree :: "string \<Rightarrow> android_node option" where
  "parseUiHierarchyTree xml =
     map_option (\<lambda>t. applyAndroidScrollActionHints (pruneAndroidCoveredSubtrees
       (discardInactiveAndroidApplicationWindows (pruneAndroidInvisibleSubtrees t)))) (build_tree xml)"

section \<open>What a snapshot includes\<close>

record snapshot_options =
  so_interactiveOnly :: bool
  so_depth :: "int option"
  so_scope :: "string option"
  so_raw :: bool

record inclusion_info =
  ii_type :: string
  ii_hasMeaningfulText :: bool
  ii_hasMeaningfulId :: bool
  ii_isStructural :: bool
  ii_isVisual :: bool

definition hasNonPositiveRect :: "android_node \<Rightarrow> bool" where
  "hasNonPositiveRect node = (case af_rect (an_fields node) of None \<Rightarrow> False | Some r \<Rightarrow> rwidth r \<le> 0 \<or> rheight r \<le> 0)"

definition getAndroidNodeInclusionInfo :: "android_node \<Rightarrow> inclusion_info" where
  "getAndroidNodeInclusionInfo node =
     (let f = an_fields node; type = normalizeAndroidType (af_type f);
          hasText = js_trim (or_empty (af_label f)) \<noteq> []; hasId = js_trim (or_empty (af_identifier f)) \<noteq> []
      in \<lparr>ii_type = type, ii_hasMeaningfulText = (hasText \<and> \<not> isGenericAndroidId (or_empty (af_label f))),
          ii_hasMeaningfulId = (hasId \<and> \<not> isGenericAndroidId (or_empty (af_identifier f))),
          ii_isStructural = isStructuralAndroidType type, ii_isVisual = (type = ''imageview'' \<or> type = ''imagebutton'')\<rparr>)"

definition shouldIncludeInteractiveProxyNode :: "inclusion_info \<Rightarrow> bool \<Rightarrow> bool \<Rightarrow> bool \<Rightarrow> bool" where
  "shouldIncludeInteractiveProxyNode info ancestorHittable descendantHittable ancestorCollection =
     (if \<not> ii_hasMeaningfulText info \<and> \<not> ii_hasMeaningfulId info then False
      else if ii_isVisual info then False
      else if ii_isStructural info \<and> \<not> ancestorCollection then False
      else ancestorHittable \<or> descendantHittable \<or> ancestorCollection)"

definition shouldIncludeInteractiveAndroidNode :: "android_node \<Rightarrow> inclusion_info \<Rightarrow> bool \<Rightarrow> bool \<Rightarrow> bool \<Rightarrow> bool" where
  "shouldIncludeInteractiveAndroidNode node info ancestorHittable descendantHittable ancestorCollection =
     (if hasNonPositiveRect node then False
      else if af_focused (an_fields node) = Some True then True
      else if af_hittable (an_fields node) = Some True then True
      else if isScrollableType (Some (ii_type info)) \<and> descendantHittable then True
      else shouldIncludeInteractiveProxyNode info ancestorHittable descendantHittable ancestorCollection)"

definition shouldIncludeStructuralAndroidNode :: "android_node \<Rightarrow> inclusion_info \<Rightarrow> bool \<Rightarrow> bool" where
  "shouldIncludeStructuralAndroidNode node info descendantHittable =
     (if af_hittable (an_fields node) = Some True then True
      else if ii_hasMeaningfulText info then True
      else if ii_hasMeaningfulId info then True
      else descendantHittable)"

definition shouldIncludeAndroidNode :: "android_node \<Rightarrow> snapshot_options \<Rightarrow> bool \<Rightarrow> bool \<Rightarrow> bool \<Rightarrow> bool" where
  "shouldIncludeAndroidNode node options ancestorHittable descendantHittable ancestorCollection =
     (if af_visibleToUser (an_fields node) = Some False then False
      else let info = getAndroidNodeInclusionInfo node
           in if so_interactiveOnly options
              then shouldIncludeInteractiveAndroidNode node info ancestorHittable descendantHittable ancestorCollection
              else if ii_isStructural info \<or> ii_isVisual info
              then shouldIncludeStructuralAndroidNode node info descendantHittable
              else True)"

text \<open>\<open>hasInteractiveDescendant\<close> of the walk: the value its memo table stores.\<close>

fun hasInteractiveDescendant :: "android_node \<Rightarrow> bool" where
  "hasInteractiveDescendant (AndroidNode f children) =
     list_ex (\<lambda>child. af_visibleToUser (an_fields child) \<noteq> Some False \<and>
       (af_hittable (an_fields child) = Some True \<or> hasInteractiveDescendant child)) children"

section \<open>The walk\<close>

record android_raw_node = raw_node +
  nd_systemChrome :: "bool option"

record build_state =
  bs_nodes :: "android_raw_node list"
  bs_sourceNodes :: "android_node list"
  bs_truncated :: bool

record walk_context =
  wc_maxNodes :: "int option"
  wc_options :: snapshot_options

definition compactedAndroidNodeDepth :: "android_raw_node list \<Rightarrow> int option \<Rightarrow> int" where
  "compactedAndroidNodeDepth nodes parentIndex =
     (case parentIndex of
        None \<Rightarrow> 0
      | Some p \<Rightarrow> (if 0 \<le> p \<and> nat p < length nodes then (case nd_depth (nodes ! nat p) of Some d \<Rightarrow> d | None \<Rightarrow> -1) else -1) + 1)"

definition snapshot_entry :: "android_raw_node list \<Rightarrow> android_node \<Rightarrow> int option \<Rightarrow> bool \<Rightarrow> android_raw_node" where
  "snapshot_entry nodes node parentIndex systemChrome =
     (let f = an_fields node in
      \<lparr>nd_index = int (length nodes), nd_type = af_type f, nd_role = None, nd_subrole = None, nd_label = af_label f,
       nd_value = af_value f, nd_identifier = af_identifier f, nd_rect = af_rect f, nd_enabled = af_enabled f, nd_selected = None,
       nd_focused = af_focused f, nd_visibleToUser = af_visibleToUser f, nd_hittable = af_hittable f,
       nd_depth = Some (compactedAndroidNodeDepth nodes parentIndex), nd_parentIndex = parentIndex, nd_pid = None,
       nd_bundleId = af_packageName f, nd_appName = None, nd_windowTitle = None, nd_surface = None,
       nd_hiddenContentAbove = (if af_hiddenContentAbove f = Some True then Some True else None),
       nd_hiddenContentBelow = (if af_hiddenContentBelow f = Some True then Some True else None),
       nd_interactionBlocked = None, nd_presentationHints = None,
       nd_systemChrome = (if systemChrome then Some True else None)\<rparr>)"

definition appendAndroidSnapshotNode :: "build_state \<Rightarrow> android_node \<Rightarrow> int option \<Rightarrow> bool \<Rightarrow> int \<times> build_state" where
  "appendAndroidSnapshotNode state node parentIndex systemChrome =
     (int (length (bs_nodes state)),
      state\<lparr>bs_sourceNodes := bs_sourceNodes state @ [node],
            bs_nodes := bs_nodes state @ [snapshot_entry (bs_nodes state) node parentIndex systemChrome]\<rparr>)"

text \<open>The walk over a node, and over the children of a node until the limit of nodes is hit.\<close>

fun walkUiHierarchyNode ::
    "walk_context \<Rightarrow> android_node \<Rightarrow> int \<Rightarrow> int option \<Rightarrow> bool \<Rightarrow> bool \<Rightarrow> bool \<Rightarrow> build_state \<Rightarrow> build_state"
  and walk_children ::
    "walk_context \<Rightarrow> android_node list \<Rightarrow> int \<Rightarrow> int option \<Rightarrow> bool \<Rightarrow> bool \<Rightarrow> bool \<Rightarrow> build_state \<Rightarrow> build_state"
where
  "walkUiHierarchyNode ctx (AndroidNode f children) depth parentIndex ancestorHittable ancestorCollection ancestorSystemChrome state =
     (if (case wc_maxNodes ctx of Some m \<Rightarrow> int (length (bs_nodes state)) \<ge> m | None \<Rightarrow> False) then state\<lparr>bs_truncated := True\<rparr>
      else if (case so_depth (wc_options ctx) of Some d \<Rightarrow> depth > d | None \<Rightarrow> False) then state
      else
        let node = AndroidNode f children;
            included = (if so_raw (wc_options ctx) then True
              else shouldIncludeAndroidNode node (wc_options ctx) ancestorHittable (hasInteractiveDescendant node) ancestorCollection);
            systemChrome = (ancestorSystemChrome \<or> isAndroidSystemChromeWindowResourceId (af_identifier f));
            appended = appendAndroidSnapshotNode state node parentIndex systemChrome
        in walk_children ctx children (depth + 1)
             (if included then Some (fst appended) else parentIndex)
             (ancestorHittable \<or> af_hittable f = Some True)
             (ancestorCollection \<or> isCollectionContainerType (af_type f)) systemChrome
             (if included then snd appended else state))"
| "walk_children ctx [] depth parentIndex ancestorHittable ancestorCollection systemChrome state = state"
| "walk_children ctx (child # rest) depth parentIndex ancestorHittable ancestorCollection systemChrome state =
     (let after = walkUiHierarchyNode ctx child depth parentIndex ancestorHittable ancestorCollection systemChrome state
      in if bs_truncated after then after
         else walk_children ctx rest depth parentIndex ancestorHittable ancestorCollection systemChrome after)"

declare walkUiHierarchyNode.simps [simp del]

section \<open>Scope, analysis and the whole snapshot\<close>

definition matches_scope :: "string \<Rightarrow> android_node \<Rightarrow> bool" where
  "matches_scope query node \<longleftrightarrow>
     (\<exists>v \<in> set [af_label (an_fields node), af_value (an_fields node), af_identifier (an_fields node)].
        js_includes (js_lower (or_empty v)) query)"

lemma children_size: "sum_list (map size (an_children node)) < size node"
proof -
  have "sum_list (map size ns) \<le> size_list size ns" for ns :: "android_node list" by (induction ns) auto
  then show ?thesis by (cases node) (auto simp: less_Suc_eq_le)
qed

function scope_loop :: "string \<Rightarrow> android_node list \<Rightarrow> android_node option" where
  "scope_loop query [] = None"
| "scope_loop query (node # queue) =
     (if matches_scope query node then Some node else scope_loop query (queue @ an_children node))"
  by pat_completeness auto
termination
  by (relation "measure (\<lambda>(query, queue). sum_list (map size queue))") (use children_size in auto)

definition findScopeNode :: "android_node \<Rightarrow> string \<Rightarrow> android_node option" where
  "findScopeNode top_node scope = scope_loop (js_lower scope) (an_children top_node)"

text \<open>The stack of the analysis, top first.\<close>

function analyze_loop :: "nat \<Rightarrow> int \<Rightarrow> android_node list \<Rightarrow> nat \<times> int" where
  "analyze_loop rawNodeCount maxDepth [] = (rawNodeCount, maxDepth)"
| "analyze_loop rawNodeCount maxDepth (node # stack) =
     analyze_loop (rawNodeCount + 1) (max maxDepth (af_depth (an_fields node))) (rev (an_children node) @ stack)"
  by pat_completeness auto
termination
  by (relation "measure (\<lambda>(n, d, stack). sum_list (map size stack))") (use children_size in \<open>auto simp: rev_map [symmetric]\<close>)

definition analyzeAndroidTree :: "android_node \<Rightarrow> nat \<times> int" where
  "analyzeAndroidTree top_node = analyze_loop 0 0 (rev (an_children top_node))"

record android_snapshot =
  ab_nodes :: "android_raw_node list"
  ab_rawNodeCount :: nat
  ab_maxDepth :: int
  ab_truncated :: "bool option"

record android_built_snapshot = android_snapshot +
  ab_sourceNodes :: "android_node list"

definition snapshot_roots :: "android_node \<Rightarrow> snapshot_options \<Rightarrow> android_node list" where
  "snapshot_roots hierarchy options =
     (case (if truthy (so_scope options) then findScopeNode hierarchy (the (so_scope options)) else None) of
        Some scopedRoot \<Rightarrow> [scopedRoot]
      | None \<Rightarrow> an_children hierarchy)"

definition buildUiHierarchySnapshot :: "android_node \<Rightarrow> int option \<Rightarrow> snapshot_options \<Rightarrow> android_built_snapshot" where
  "buildUiHierarchySnapshot hierarchy maxNodes options =
     (let state = walk_children \<lparr>wc_maxNodes = maxNodes, wc_options = options\<rparr> (snapshot_roots hierarchy options) 0 None False False False
            \<lparr>bs_nodes = [], bs_sourceNodes = [], bs_truncated = False\<rparr>;
          analysis = analyzeAndroidTree hierarchy
      in \<lparr>ab_nodes = bs_nodes state, ab_rawNodeCount = fst analysis, ab_maxDepth = snd analysis,
          ab_truncated = (if bs_truncated state then Some True else None), ab_sourceNodes = bs_sourceNodes state\<rparr>)"

definition parseUiHierarchy :: "string \<Rightarrow> int option \<Rightarrow> snapshot_options \<Rightarrow> android_snapshot option" where
  "parseUiHierarchy xml maxNodes options =
     map_option (\<lambda>hierarchy. android_snapshot.truncate (buildUiHierarchySnapshot hierarchy maxNodes options)) (parseUiHierarchyTree xml)"

section \<open>The nodes of a snapshot form a forest\<close>

definition forest_entry :: "android_raw_node list \<Rightarrow> nat \<Rightarrow> bool" where
  "forest_entry nodes i \<longleftrightarrow>
     nd_index (nodes ! i) = int i \<and>
     (case nd_parentIndex (nodes ! i) of
        None \<Rightarrow> nd_depth (nodes ! i) = Some 0
      | Some p \<Rightarrow> 0 \<le> p \<and> p < int i \<and> (\<exists>d. nd_depth (nodes ! nat p) = Some d \<and> nd_depth (nodes ! i) = Some (d + 1)))"

definition within_limit :: "int option \<Rightarrow> android_raw_node list \<Rightarrow> bool" where
  "within_limit maxNodes nodes \<longleftrightarrow> (case maxNodes of None \<Rightarrow> True | Some m \<Rightarrow> int (length nodes) \<le> max 0 m)"

definition forest :: "int option \<Rightarrow> android_raw_node list \<Rightarrow> bool" where
  "forest maxNodes nodes \<longleftrightarrow> (\<forall>i < length nodes. forest_entry nodes i) \<and> within_limit maxNodes nodes"

definition parent_fits :: "int option \<Rightarrow> android_raw_node list \<Rightarrow> bool" where
  "parent_fits parentIndex nodes \<longleftrightarrow> (case parentIndex of None \<Rightarrow> True | Some p \<Rightarrow> 0 \<le> p \<and> p < int (length nodes))"

lemma parent_fits_append: "parent_fits p nodes \<Longrightarrow> parent_fits p (nodes @ xs)"
  by (auto simp: parent_fits_def split: option.splits)

lemma forest_entry_append: "i < length nodes \<Longrightarrow> forest_entry nodes i \<Longrightarrow> forest_entry (nodes @ xs) i"
  by (auto simp: forest_entry_def nth_append split: option.splits)

lemma entry_depth: "i < length nodes \<Longrightarrow> forest_entry nodes i \<Longrightarrow> \<exists>d. nd_depth (nodes ! i) = Some d"
  by (auto simp: forest_entry_def split: option.splits)

lemma snapshot_entry_fields [simp]:
  "nd_index (snapshot_entry nodes node p chrome) = int (length nodes)"
  "nd_parentIndex (snapshot_entry nodes node p chrome) = p"
  "nd_depth (snapshot_entry nodes node p chrome) = Some (compactedAndroidNodeDepth nodes p)"
  "nd_label (snapshot_entry nodes node p chrome) = af_label (an_fields node)"
  "nd_visibleToUser (snapshot_entry nodes node p chrome) = af_visibleToUser (an_fields node)"
  "nd_systemChrome (snapshot_entry nodes node p chrome) = (if chrome then Some True else None)"
  by (simp_all add: snapshot_entry_def Let_def)

lemma forest_append:
  assumes "forest m nodes" "parent_fits p nodes" "\<not> (case m of Some k \<Rightarrow> int (length nodes) \<ge> k | None \<Rightarrow> False)"
  shows "forest m (nodes @ [snapshot_entry nodes node p chrome])"
proof -
  let ?e = "snapshot_entry nodes node p chrome"
  have "forest_entry (nodes @ [?e]) (length nodes)"
  proof (cases p)
    case None
    then show ?thesis by (simp add: forest_entry_def compactedAndroidNodeDepth_def)
  next
    case (Some k)
    then have k: "0 \<le> k" "nat k < length nodes" using assms(2) by (auto simp: parent_fits_def)
    with assms(1) obtain d where "nd_depth (nodes ! nat k) = Some d" using entry_depth [of "nat k" nodes] by (auto simp: forest_def)
    with k Some show ?thesis by (simp add: forest_entry_def compactedAndroidNodeDepth_def nth_append)
  qed
  moreover have "forest_entry (nodes @ [?e]) i" if "i < length nodes" for i
    using that assms(1) by (simp add: forest_def forest_entry_append)
  ultimately show ?thesis using assms(1,3)
    by (auto simp: forest_def within_limit_def less_Suc_eq split: option.splits)
qed

lemma walk_forest:
  "forest (wc_maxNodes ctx) (bs_nodes state) \<Longrightarrow> parent_fits parentIndex (bs_nodes state) \<Longrightarrow>
     forest (wc_maxNodes ctx) (bs_nodes (walkUiHierarchyNode ctx node depth parentIndex ah ac sc state)) \<and>
     (\<exists>xs. bs_nodes (walkUiHierarchyNode ctx node depth parentIndex ah ac sc state) = bs_nodes state @ xs)"
  "forest (wc_maxNodes ctx) (bs_nodes state) \<Longrightarrow> parent_fits parentIndex (bs_nodes state) \<Longrightarrow>
     forest (wc_maxNodes ctx) (bs_nodes (walk_children ctx nodes depth parentIndex ah ac sc state)) \<and>
     (\<exists>xs. bs_nodes (walk_children ctx nodes depth parentIndex ah ac sc state) = bs_nodes state @ xs)"
proof (induction ctx node depth parentIndex ah ac sc state and ctx nodes depth parentIndex ah ac sc state
    rule: walkUiHierarchyNode_walk_children.induct)
  case (1 ctx f children depth parentIndex ah ac sc state)
  let ?full = "case wc_maxNodes ctx of Some m \<Rightarrow> int (length (bs_nodes state)) \<ge> m | None \<Rightarrow> False"
  let ?deep = "case so_depth (wc_options ctx) of Some d \<Rightarrow> depth > d | None \<Rightarrow> False"
  let ?node = "AndroidNode f children"
  let ?inc = "if so_raw (wc_options ctx) then True
    else shouldIncludeAndroidNode ?node (wc_options ctx) ah (hasInteractiveDescendant ?node) ac"
  let ?chrome = "sc \<or> isAndroidSystemChromeWindowResourceId (af_identifier f)"
  let ?app = "appendAndroidSnapshotNode state ?node parentIndex ?chrome"
  let ?p = "if ?inc then Some (fst ?app) else parentIndex"
  let ?s = "if ?inc then snd ?app else state"
  show ?case
  proof (cases "?full \<or> ?deep")
    case True
    then show ?thesis using 1(2) by (subst (1 2) walkUiHierarchyNode.simps) auto
  next
    case False
    have ext: "\<exists>xs. bs_nodes ?s = bs_nodes state @ xs" by (simp add: appendAndroidSnapshotNode_def)
    have f: "forest (wc_maxNodes ctx) (bs_nodes ?s)"
      using 1(2) forest_append [OF 1(2) 1(3)] False by (auto simp: appendAndroidSnapshotNode_def)
    have p: "parent_fits ?p (bs_nodes ?s)"
      using 1(3) by (simp add: appendAndroidSnapshotNode_def parent_fits_def)
    from 1(1) [OF _ _ refl refl refl refl] False f p ext show ?thesis
      by (subst (1 2) walkUiHierarchyNode.simps) (fastforce simp: Let_def)
  qed
next
  case (3 ctx child rest depth parentIndex ah ac sc state)
  let ?after = "walkUiHierarchyNode ctx child depth parentIndex ah ac sc state"
  from 3(1) [OF 3(3,4)] obtain xs where a: "forest (wc_maxNodes ctx) (bs_nodes ?after)" "bs_nodes ?after = bs_nodes state @ xs" by blast
  have p: "parent_fits parentIndex (bs_nodes ?after)" unfolding a(2) using 3(4) by (rule parent_fits_append)
  show ?case
  proof (cases "bs_truncated ?after")
    case True
    then show ?thesis using a by (simp add: Let_def)
  next
    case False
    from 3(2) [OF refl False a(1) p] a(2) False show ?thesis by (auto simp: Let_def)
  qed
qed auto

definition empty_state :: build_state where
  "empty_state = \<lparr>bs_nodes = [], bs_sourceNodes = [], bs_truncated = False\<rparr>"

lemma buildUiHierarchySnapshot_nodes:
  "ab_nodes (buildUiHierarchySnapshot hierarchy maxNodes options) =
     bs_nodes (walk_children \<lparr>wc_maxNodes = maxNodes, wc_options = options\<rparr> (snapshot_roots hierarchy options) 0 None False False False empty_state)"
  by (simp add: buildUiHierarchySnapshot_def Let_def empty_state_def)

text \<open>C19. Whatever the options leave out, the nodes of an Android snapshot are numbered by position and form a forest: the parent of a
  node is an earlier node of the snapshot whose depth is one less, a node without a parent has depth zero, and there are
  no more nodes than the limit.\<close>

theorem android_snapshot_is_forest: "forest maxNodes (ab_nodes (buildUiHierarchySnapshot hierarchy maxNodes options))"
proof -
  have "forest maxNodes (bs_nodes empty_state)"
    by (auto simp: forest_def empty_state_def within_limit_def split: option.splits)
  with walk_forest(2) [of "\<lparr>wc_maxNodes = maxNodes, wc_options = options\<rparr>" empty_state None]
  show ?thesis by (simp add: buildUiHierarchySnapshot_nodes parent_fits_def)
qed

section \<open>Hidden nodes stay out\<close>

definition shown :: "android_node \<Rightarrow> bool" where
  "shown node \<longleftrightarrow> af_visibleToUser (an_fields node) \<noteq> Some False"

fun all_shown :: "android_node \<Rightarrow> bool" where
  "all_shown (AndroidNode f children) = list_all (\<lambda>child. shown child \<and> all_shown child) children"

lemma all_shown_iff: "all_shown node \<longleftrightarrow> (\<forall>child \<in> set (an_children node). shown child \<and> all_shown child)"
  by (cases node) (simp add: list_all_iff)

lemma prune_invisible_fields [simp]: "an_fields (pruneAndroidInvisibleSubtrees node) = an_fields node"
  by (cases node) simp

lemma prune_invisible_shown: "all_shown (pruneAndroidInvisibleSubtrees node)"
  by (induction node rule: pruneAndroidInvisibleSubtrees.induct) (auto simp: list_all_iff shown_def)

lemma discard_windows_subset: "set (an_children (discardInactiveAndroidApplicationWindows h)) \<subseteq> set (an_children h)"
  by (auto simp: discardInactiveAndroidApplicationWindows_def Let_def)

lemma keep_siblings_subset: "set (keep_siblings ns) \<subseteq> set ns"
  by (auto simp: keep_siblings_def Let_def)

lemma prune_covered_fields [simp]: "an_fields (pruneAndroidCoveredSubtrees node) = an_fields node"
  by (cases node) simp

lemma prune_covered_shown: "all_shown node \<Longrightarrow> all_shown (pruneAndroidCoveredSubtrees node)"
proof (induction node rule: pruneAndroidCoveredSubtrees.induct)
  case (1 f children)
  have "shown c \<and> all_shown c" if "c \<in> set (keep_siblings (map pruneAndroidCoveredSubtrees children))" for c
  proof -
    from that keep_siblings_subset obtain d where "d \<in> set children" "c = pruneAndroidCoveredSubtrees d" by fastforce
    with 1 show ?thesis by (auto simp: list_all_iff shown_def)
  qed
  then show ?case by (simp add: list_all_iff)
qed

lemma scroll_hints_visible [simp]: "af_visibleToUser (scroll_hints node) = af_visibleToUser (an_fields node)"
  by (simp add: scroll_hints_def Let_def)

lemma hint_subtree_fields [simp]: "an_fields (hint_subtree node) = scroll_hints node"
  by (cases node) simp

lemma hint_subtree_shown: "all_shown node \<Longrightarrow> all_shown (hint_subtree node)"
  by (induction node rule: hint_subtree.induct) (auto simp: list_all_iff shown_def)

lemma parsed_hierarchy_shown: "parseUiHierarchyTree xml = Some h \<Longrightarrow> all_shown h"
proof -
  assume "parseUiHierarchyTree xml = Some h"
  then obtain t where h: "h = applyAndroidScrollActionHints (pruneAndroidCoveredSubtrees
       (discardInactiveAndroidApplicationWindows (pruneAndroidInvisibleSubtrees t)))" by (auto simp: parseUiHierarchyTree_def)
  have "all_shown (discardInactiveAndroidApplicationWindows (pruneAndroidInvisibleSubtrees t))"
    using prune_invisible_shown [of t] discard_windows_subset [of "pruneAndroidInvisibleSubtrees t"]
    by (auto simp: all_shown_iff [of "discardInactiveAndroidApplicationWindows _"] all_shown_iff [of "pruneAndroidInvisibleSubtrees t"])
  then have "all_shown (pruneAndroidCoveredSubtrees (discardInactiveAndroidApplicationWindows (pruneAndroidInvisibleSubtrees t)))"
    (is "all_shown ?p") by (rule prune_covered_shown)
  then show ?thesis
    unfolding h applyAndroidScrollActionHints_def
    using hint_subtree_shown by (auto simp: all_shown_iff [of ?p] list_all_iff shown_def)
qed

lemma scope_loop_shown:
  "scope_loop query queue = Some node \<Longrightarrow> \<forall>n \<in> set queue. shown n \<and> all_shown n \<Longrightarrow> shown node \<and> all_shown node"
proof (induction query queue rule: scope_loop.induct)
  case (2 query n queue)
  then have "\<forall>c \<in> set (an_children n). shown c \<and> all_shown c" if "all_shown n" using that by (simp add: all_shown_iff [of n])
  with 2 show ?case by (auto split: if_splits)
qed simp

definition entries_shown :: "build_state \<Rightarrow> bool" where
  "entries_shown state \<longleftrightarrow> (\<forall>n \<in> set (bs_nodes state). nd_visibleToUser n \<noteq> Some False)"

lemma walk_shown:
  "entries_shown state \<Longrightarrow> shown node \<Longrightarrow> all_shown node \<Longrightarrow>
     entries_shown (walkUiHierarchyNode ctx node depth parentIndex ah ac sc state)"
  "entries_shown state \<Longrightarrow> \<forall>n \<in> set nodes. shown n \<and> all_shown n \<Longrightarrow>
     entries_shown (walk_children ctx nodes depth parentIndex ah ac sc state)"
proof (induction ctx node depth parentIndex ah ac sc state and ctx nodes depth parentIndex ah ac sc state
    rule: walkUiHierarchyNode_walk_children.induct)
  case (1 ctx f children depth parentIndex ah ac sc state)
  have app: "entries_shown (snd (appendAndroidSnapshotNode state (AndroidNode f children) parentIndex c))" for c
    using 1(2,3) by (auto simp: entries_shown_def appendAndroidSnapshotNode_def shown_def)
  have all: "\<forall>n \<in> set children. shown n \<and> all_shown n" using 1(4) by (simp add: list_all_iff)
  note step = 1(1) [OF _ _ refl refl refl refl _ all, simplified]
  have "entries_shown (if b then snd (appendAndroidSnapshotNode state (AndroidNode f children) parentIndex c) else state)" for b c
    using app 1(2) by simp
  with step show ?case
    unfolding walkUiHierarchyNode.simps Let_def using 1(2) by (simp add: entries_shown_def)
qed (auto simp: Let_def)

text \<open>C20. No node that Android marks hidden from the user reaches a snapshot of a document, whatever the options, the raw snapshot
  included.\<close>

theorem hidden_nodes_stay_out:
  assumes "parseUiHierarchy xml maxNodes options = Some s" "n \<in> set (ab_nodes s)"
  shows "nd_visibleToUser n \<noteq> Some False"
proof -
  from assms(1) obtain h where h: "parseUiHierarchyTree xml = Some h" "s = android_snapshot.truncate (buildUiHierarchySnapshot h maxNodes options)"
    by (auto simp: parseUiHierarchy_def)
  have all: "\<forall>c \<in> set (an_children h). shown c \<and> all_shown c" using parsed_hierarchy_shown [OF h(1)] by (simp add: all_shown_iff [of h])
  have "\<forall>c \<in> set (snapshot_roots h options). shown c \<and> all_shown c"
    using all scope_loop_shown [of _ "an_children h"]
    by (auto simp: snapshot_roots_def findScopeNode_def split: option.splits)
  from walk_shown(2) [OF _ this, of empty_state] assms(2) show ?thesis
    by (simp add: h(2) android_snapshot.truncate_def buildUiHierarchySnapshot_nodes entries_shown_def empty_state_def)
qed

text \<open>A document with a hidden sibling: the snapshot has the other one.\<close>

definition hidden_example :: string where
  "hidden_example = ''<node visible-to-user=\"false\"/><node/>''"

definition raw_options :: snapshot_options where
  "raw_options = \<lparr>so_interactiveOnly = False, so_depth = None, so_scope = None, so_raw = True\<rparr>"

theorem hidden_nodes_stay_out_witness:
  "\<exists>s n. parseUiHierarchy hidden_example None raw_options = Some s \<and> n \<in> set (ab_nodes s) \<and> nd_visibleToUser n \<noteq> Some False"
proof -
  have "map_option (\<lambda>s. length (ab_nodes s)) (parseUiHierarchy hidden_example None raw_options) = Some 1" by code_simp
  then obtain s where s: "parseUiHierarchy hidden_example None raw_options = Some s" "length (ab_nodes s) = 1" by auto
  then have n: "ab_nodes s ! 0 \<in> set (ab_nodes s)" by simp
  show ?thesis using s(1) n hidden_nodes_stay_out [OF s(1) n] by blast
qed

section \<open>The foreground of covered siblings\<close>

lemma keep_foreground:
  assumes "c \<in> set siblings" "c \<notin> set (keep_siblings siblings)"
  shows "\<exists>k \<in> set (keep_siblings siblings). canCoverSibling k \<and>
    the (af_drawingOrder (an_fields c)) < the (af_drawingOrder (an_fields k))"
proof -
  let ?order = "\<lambda>n. the (af_drawingOrder (an_fields n))"
  let ?cands = "filter canCoverSibling siblings"
  from assms have len: "\<not> length siblings < 2" "?cands \<noteq> []" and lost: "\<not> shouldKeepAndroidSibling c ?cands"
    by (auto simp: keep_siblings_def Let_def split: if_splits)
  then have kept: "keep_siblings siblings = filter (\<lambda>n. shouldKeepAndroidSibling n ?cands) siblings"
    by (simp add: keep_siblings_def Let_def)
  define top_order where "top_order = Max (?order ` set ?cands)"
  have "top_order \<in> ?order ` set ?cands" unfolding top_order_def using len(2) by (intro Max_in) (simp_all del: set_filter)
  then obtain k where k: "k \<in> set ?cands" "?order k = top_order" by auto
  have highest: "?order s \<le> ?order k" if "s \<in> set ?cands" for s
    unfolding k(2) top_order_def using that by (intro Max_ge) auto
  have "\<not> isCoveredByHigherDrawingOrderSibling k ?cands"
    using highest by (auto simp: isCoveredByHigherDrawingOrderSibling_def list_ex_iff)
  then have "k \<in> set (keep_siblings siblings)" using k(1) by (simp add: kept shouldKeepAndroidSibling_def)
  moreover from lost obtain s where "s \<in> set ?cands" "?order c < ?order s"
    by (auto simp: shouldKeepAndroidSibling_def isCoveredByHigherDrawingOrderSibling_def list_ex_iff not_le split: if_splits)
  then have "?order c < ?order k" using highest by fastforce
  ultimately show ?thesis using k(1) by auto
qed

text \<open>C21. A sibling that is removed as covered leaves a foreground behind: one that stays, is drawn above it and can cover siblings,
  so removing covered siblings never empties a screen.\<close>

theorem covered_sibling_has_foreground:
  assumes "c \<in> set children" "pruneAndroidCoveredSubtrees c \<notin> set (an_children (pruneAndroidCoveredSubtrees (AndroidNode f children)))"
  shows "\<exists>k \<in> set (an_children (pruneAndroidCoveredSubtrees (AndroidNode f children))).
    canCoverSibling k \<and> the (af_drawingOrder (an_fields c)) < the (af_drawingOrder (an_fields k))"
  using keep_foreground [of "pruneAndroidCoveredSubtrees c" "map pruneAndroidCoveredSubtrees children"] assms by simp

definition layer_node :: "string \<Rightarrow> rat \<Rightarrow> android_node" where
  "layer_node label order =
     AndroidNode (root_fields\<lparr>af_label := Some label, af_rect := Some \<lparr>rx = 0, ry = 0, rwidth = 100, rheight = 100\<rparr>, af_drawingOrder := Some order\<rparr>) []"

theorem covered_sibling_has_foreground_witness:
  "\<exists>k \<in> set (an_children (pruneAndroidCoveredSubtrees (AndroidNode root_fields [layer_node ''back'' 1, layer_node ''front'' 2]))).
    canCoverSibling k \<and> the (af_drawingOrder (an_fields (layer_node ''back'' 1))) < the (af_drawingOrder (an_fields k))"
proof (rule covered_sibling_has_foreground)
  show "layer_node ''back'' 1 \<in> set [layer_node ''back'' 1, layer_node ''front'' 2]" by simp
  have "map (\<lambda>n. af_label (an_fields n)) (an_children (pruneAndroidCoveredSubtrees (AndroidNode root_fields [layer_node ''back'' 1, layer_node ''front'' 2]))) =
      [Some ''front'']" by code_simp
  moreover have "af_label (an_fields (pruneAndroidCoveredSubtrees (layer_node ''back'' 1))) = Some ''back''" by code_simp
  ultimately show "pruneAndroidCoveredSubtrees (layer_node ''back'' 1) \<notin>
      set (an_children (pruneAndroidCoveredSubtrees (AndroidNode root_fields [layer_node ''back'' 1, layer_node ''front'' 2])))"
    by (auto simp: map_eq_Cons_conv)
qed

section \<open>The raw snapshot lists the tree\<close>

definition raw_entry :: "android_fields \<times> bool \<Rightarrow> string option \<times> bool option" where
  "raw_entry = (\<lambda>(f, c). (af_label f, if c then Some True else None))"

definition entry_mark :: "android_raw_node \<Rightarrow> string option \<times> bool option" where
  "entry_mark n = (nd_label n, nd_systemChrome n)"

lemma walk_raw:
  "ctx = \<lparr>wc_maxNodes = None, wc_options = opts\<rparr> \<Longrightarrow> so_raw opts \<Longrightarrow> so_depth opts = None \<Longrightarrow> \<not> bs_truncated state \<Longrightarrow>
     map entry_mark (bs_nodes (walkUiHierarchyNode ctx node depth parentIndex ah ac sc state)) =
       map entry_mark (bs_nodes state) @ map raw_entry (marked_nodes sc node) \<and>
     \<not> bs_truncated (walkUiHierarchyNode ctx node depth parentIndex ah ac sc state)"
  "ctx = \<lparr>wc_maxNodes = None, wc_options = opts\<rparr> \<Longrightarrow> so_raw opts \<Longrightarrow> so_depth opts = None \<Longrightarrow> \<not> bs_truncated state \<Longrightarrow>
     map entry_mark (bs_nodes (walk_children ctx nodes depth parentIndex ah ac sc state)) =
       map entry_mark (bs_nodes state) @ map raw_entry (concat (map (marked_nodes sc) nodes)) \<and>
     \<not> bs_truncated (walk_children ctx nodes depth parentIndex ah ac sc state)"
proof (induction ctx node depth parentIndex ah ac sc state and ctx nodes depth parentIndex ah ac sc state
    rule: walkUiHierarchyNode_walk_children.induct)
  case (1 ctx f children depth parentIndex ah ac sc state)
  then show ?case
    by (simp add: walkUiHierarchyNode.simps Let_def appendAndroidSnapshotNode_def entry_mark_def raw_entry_def)
qed (auto simp: Let_def)

text \<open>A raw snapshot without limits has every node of the tree, in document order, and marks exactly the nodes of the system
  bars, whatever was removed from the document before.\<close>

lemma raw_snapshot_lists_tree:
  assumes "so_raw options" "so_depth options = None" "so_scope options = None"
  shows "map entry_mark (ab_nodes (buildUiHierarchySnapshot hierarchy None options)) = map raw_entry (listed_nodes hierarchy)"
proof -
  have "raw_entry \<circ> tree_entry = raw_entry" by (auto simp: raw_entry_def tree_entry_def)
  then show ?thesis
    using walk_raw(2) [OF refl assms(1,2), of empty_state] assms(3)
    by (simp add: buildUiHierarchySnapshot_nodes snapshot_roots_def listed_nodes_def empty_state_def)
qed

lemma raw_snapshot_lists_tree_example:
  "map entry_mark (ab_nodes (buildUiHierarchySnapshot (AndroidNode root_fields [layer_node ''back'' 1, layer_node ''front'' 2]) None raw_options)) =
     map raw_entry (listed_nodes (AndroidNode root_fields [layer_node ''back'' 1, layer_node ''front'' 2]))"
  by (rule raw_snapshot_lists_tree) (simp_all add: raw_options_def)

end
