(* ===== verification/ReplayResume.thy ===== *)
theory ReplayResume
  imports TargetBinding
begin

text \<open>
  Resuming a diverged replay: the repair hint (\<^verbatim>\<open>src/daemon/handlers/session-replay-repair-hint.ts\<close>), the ordinals a divergence
  report offers (\<^verbatim>\<open>session-replay-resume.ts\<close>), the watermark of a corrective action that the coordinator keeps on the session
  (\<^verbatim>\<open>src/daemon/session-replay-coordinator.ts\<close>), and the checks a request with \<open>--from\<close> has to pass
  (\<^verbatim>\<open>session-replay-runtime-plan.ts\<close>, \<^verbatim>\<open>session-replay-runtime.ts\<close>).

  A session is its recorded actions and its watermark; whether it carries a repair transaction and whether arming the script
  is refused are arguments, since the theory of publications models them. The digest of a plan is an argument: the code only
  compares it.
\<close>

section \<open>The repair hint\<close>

datatype divergence_report_kind = ActionFailure | TargetBindingFailure divergence_kind

datatype repair_hint = RecordAndHeal | StateRepair | Caution | Manual

definition isIdentifiedScrollRegion :: "scroll_region \<Rightarrow> bool" where
  "isIdentifiedScrollRegion region \<longleftrightarrow> rg_id region \<noteq> None \<or> rg_label region \<noteq> None"

definition hasUsableContainerSignal :: "target_annotation \<Rightarrow> bool" where
  "hasUsableContainerSignal recorded =
     (if length (ta_ancestry recorded) > 0 then True
      else (case ta_scrollRegion recorded of None \<Rightarrow> False | Some region \<Rightarrow> isIdentifiedScrollRegion region))"

definition isScrollRegionPresent :: "scroll_region \<Rightarrow> snapshot_node list \<Rightarrow> bool" where
  "isScrollRegionPresent region nodes =
     list_ex (\<lambda>node. scrollRegionKeysEqual (computeScrollRegionKey node nodes) (Some region)) nodes"

definition isRecordedAncestryPresent :: "ancestry_entry list \<Rightarrow> snapshot_node list \<Rightarrow> bool" where
  "isRecordedAncestryPresent ancestry nodes =
     (if length ancestry = 0 then length nodes > 0
      else list_ex (\<lambda>node. let (chain, broken) = buildAncestryChain node nodes (length ancestry)
                           in \<not> broken \<and> matchesAncestryPrefix chain ancestry) nodes)"

definition isRecordedContainerPresent :: "target_annotation \<Rightarrow> snapshot_node list \<Rightarrow> bool" where
  "isRecordedContainerPresent recorded nodes =
     (let ancestryPresent = isRecordedAncestryPresent (ta_ancestry recorded) nodes in
      case ta_scrollRegion recorded of
        Some region \<Rightarrow> (if isIdentifiedScrollRegion region then ancestryPresent \<and> isScrollRegionPresent region nodes else ancestryPresent)
      | None \<Rightarrow> ancestryPresent)"

definition computeReplayRepairHint :: "divergence_report_kind \<Rightarrow> target_annotation option \<Rightarrow> snapshot_node list option \<Rightarrow> repair_hint" where
  "computeReplayRepairHint kind targetEvidence capture =
     (if kind = TargetBindingFailure DivIdentityMismatch then Caution
      else if kind = TargetBindingFailure DivIdentityUnverifiable then Manual
      else (case targetEvidence of
              None \<Rightarrow> Manual
            | Some recorded \<Rightarrow>
                (case capture of
                   None \<Rightarrow> Manual
                 | Some nodes \<Rightarrow>
                     if \<not> hasUsableContainerSignal recorded then Manual
                     else if kind = TargetBindingFailure DivSelectorMiss
                     then (if isRecordedContainerPresent recorded nodes then RecordAndHeal else StateRepair)
                     else (if isRecordedContainerPresent recorded nodes then RecordAndHeal else Manual))))"

section \<open>The ordinals of a report and the watermark\<close>

datatype divergence_resume =
    ResumeAllowed (dr_from: nat) (dr_planDigest: string) (dr_alternateFrom: "nat option")
  | ResumeRefused (dr_from: nat) (dr_planDigest: string) (dr_reason: string)

record pending_record_and_heal =
  ph_expectedFrom :: nat
  ph_actionsCountAtDivergence :: nat

record 'a replay_session =
  rs_actions :: "'a list"
  rs_pending :: "pending_record_and_heal option"

definition computeReplayResumeAlternateFrom :: "nat \<Rightarrow> nat \<Rightarrow> repair_hint \<Rightarrow> bool \<Rightarrow> nat option" where
  "computeReplayResumeAlternateFrom failedIndex actionCount repairHint sessionExists =
     (if repairHint \<noteq> Caution \<and> repairHint \<noteq> Manual then None
      else let alternateFrom = failedIndex + 1
           in if alternateFrom > actionCount \<and> \<not> sessionExists then None else Some alternateFrom)"

definition buildReplayDivergenceResume :: "nat \<Rightarrow> nat \<Rightarrow> string \<Rightarrow> repair_hint \<Rightarrow> bool \<Rightarrow> divergence_resume" where
  "buildReplayDivergenceResume failedIndex actionCount planDigest repairHint sessionExists =
     ResumeAllowed (if repairHint = RecordAndHeal then failedIndex + 1 else failedIndex) planDigest
       (computeReplayResumeAlternateFrom failedIndex actionCount repairHint sessionExists)"

definition computeRecordAndHealWatermark ::
    "divergence_resume \<Rightarrow> repair_hint \<Rightarrow> nat \<Rightarrow> nat \<Rightarrow> nat \<Rightarrow> pending_record_and_heal option" where
  "computeRecordAndHealWatermark resume repairHint failedIndex actionCount actionsCountAtDivergence =
     (if repairHint = RecordAndHeal
      then (case resume of
              ResumeAllowed from digest alternate \<Rightarrow>
                Some \<lparr>ph_expectedFrom = from, ph_actionsCountAtDivergence = actionsCountAtDivergence\<rparr>
            | ResumeRefused from digest reason \<Rightarrow> None)
      else if repairHint \<noteq> Caution \<and> repairHint \<noteq> Manual then None
      else if failedIndex \<noteq> actionCount then None
      else Some \<lparr>ph_expectedFrom = failedIndex + 1, ph_actionsCountAtDivergence = actionsCountAtDivergence\<rparr>)"

definition stampPendingRecordAndHealWatermark ::
    "divergence_resume \<Rightarrow> repair_hint \<Rightarrow> nat \<Rightarrow> nat \<Rightarrow> 'a replay_session \<Rightarrow> 'a replay_session" where
  "stampPendingRecordAndHealWatermark resume repairHint failedIndex actionCount session =
     session\<lparr>rs_pending := computeRecordAndHealWatermark resume repairHint failedIndex actionCount (length (rs_actions session))\<rparr>"

text \<open>The session the coordinator finds; without one the stamp does nothing.\<close>

definition stampCorrectiveWatermark ::
    "divergence_resume \<Rightarrow> repair_hint \<Rightarrow> nat \<Rightarrow> nat \<Rightarrow> 'a replay_session option \<Rightarrow> 'a replay_session option" where
  "stampCorrectiveWatermark resume repairHint failedIndex actionCount =
     map_option (stampPendingRecordAndHealWatermark resume repairHint failedIndex actionCount)"

definition buildAndPersistReplayDivergenceResume ::
    "nat \<Rightarrow> nat \<Rightarrow> string \<Rightarrow> repair_hint \<Rightarrow> 'a replay_session option \<Rightarrow> divergence_resume \<times> 'a replay_session option" where
  "buildAndPersistReplayDivergenceResume failedIndex actionCount planDigest repairHint session =
     (let resume = buildReplayDivergenceResume failedIndex actionCount planDigest repairHint (session \<noteq> None)
      in (resume, stampCorrectiveWatermark resume repairHint failedIndex actionCount session))"

definition clearCorrectiveWatermarkIfExpected :: "rat option \<Rightarrow> 'a replay_session option \<Rightarrow> 'a replay_session option" where
  "clearCorrectiveWatermarkIfExpected expectedFrom session =
     map_option (\<lambda>s. if map_option (\<lambda>p. of_nat (ph_expectedFrom p)) (rs_pending s) \<noteq> expectedFrom then s
                     else s\<lparr>rs_pending := None\<rparr>) session"

section \<open>A request to resume\<close>

record replay_flags =
  rf_replayFrom :: "rat option"
  rf_replayPlanDigest :: "string option"

datatype resume_error =
    FromWithoutDigest
  | OutOfRangeFrom rat nat
  | UnperformedCorrection rat
  | StalePlanDigest
  | ActiveRepairRun
  | NoActiveSession
  | SaveScriptRefused

definition describeOutOfRangeResumeFrom :: "rat \<Rightarrow> nat \<Rightarrow> pending_record_and_heal option \<Rightarrow> resume_error option" where
  "describeOutOfRangeResumeFrom from actionCount pending =
     (let isAuthorizedEmptyTail =
            from = of_nat (actionCount + 1) \<and> (case pending of None \<Rightarrow> False | Some p \<Rightarrow> of_nat (ph_expectedFrom p) = from);
          inRange = of_int \<lfloor>from\<rfloor> = from \<and> from \<ge> 1 \<and> (from \<le> of_nat actionCount \<or> isAuthorizedEmptyTail)
      in if inRange then None else Some (OutOfRangeFrom from actionCount))"

definition describeUnperformedRecordAndHeal :: "rat \<Rightarrow> pending_record_and_heal option \<Rightarrow> nat \<Rightarrow> resume_error option" where
  "describeUnperformedRecordAndHeal from pending sessionActionsLength =
     (case pending of
        None \<Rightarrow> None
      | Some p \<Rightarrow>
          if of_nat (ph_expectedFrom p) \<noteq> from \<or> sessionActionsLength \<noteq> ph_actionsCountAtDivergence p then None
          else Some (UnperformedCorrection from))"

definition describeStaleResumeDigest :: "string \<Rightarrow> string \<Rightarrow> resume_error option" where
  "describeStaleResumeDigest digest planDigest = (if digest = planDigest then None else Some StalePlanDigest)"

definition validateReplayResumeRequest ::
    "rat \<Rightarrow> string \<Rightarrow> string \<Rightarrow> nat \<Rightarrow> pending_record_and_heal option \<Rightarrow> nat \<Rightarrow> resume_error option" where
  "validateReplayResumeRequest from digest planDigest actionCount pending sessionActionsLength =
     (case describeOutOfRangeResumeFrom from actionCount pending of Some e \<Rightarrow> Some e
      | None \<Rightarrow> (case describeUnperformedRecordAndHeal from pending sessionActionsLength of Some e \<Rightarrow> Some e
      | None \<Rightarrow> describeStaleResumeDigest digest planDigest))"

definition resolveReplayEntryIndex ::
    "replay_flags \<Rightarrow> nat \<Rightarrow> string \<Rightarrow> pending_record_and_heal option \<Rightarrow> nat \<Rightarrow> resume_error + rat" where
  "resolveReplayEntryIndex flags actionCount planDigest pending sessionActionsLength =
     (case (rf_replayFrom flags, rf_replayPlanDigest flags) of
        (None, None) \<Rightarrow> Inr 0
      | (Some from, Some digest) \<Rightarrow>
          (case validateReplayResumeRequest from digest planDigest actionCount pending sessionActionsLength of
             Some e \<Rightarrow> Inl e
           | None \<Rightarrow> Inr (from - 1))
      | _ \<Rightarrow> Inl FromWithoutDigest)"

definition session_pending :: "'a replay_session option \<Rightarrow> pending_record_and_heal option" where
  "session_pending session = Option.bind session rs_pending"

definition session_length :: "'a replay_session option \<Rightarrow> nat" where
  "session_length session = (case session of None \<Rightarrow> 0 | Some s \<Rightarrow> length (rs_actions s))"

definition validateReplaySessionEntry :: "rat \<Rightarrow> bool \<Rightarrow> 'a replay_session option \<Rightarrow> resume_error option" where
  "validateReplaySessionEntry entryIndex repairActive session =
     (if \<not> entryIndex > 0 \<and> repairActive then Some ActiveRepairRun
      else if entryIndex > 0 \<and> session = None then Some NoActiveSession
      else None)"

text \<open>The preparation of a replay request up to its first step: the result, and the session it leaves.\<close>

definition prepare_replay ::
    "replay_flags \<Rightarrow> nat \<Rightarrow> string \<Rightarrow> bool \<Rightarrow> bool \<Rightarrow> 'a replay_session option \<Rightarrow> (resume_error + rat) \<times> 'a replay_session option" where
  "prepare_replay flags actionCount planDigest repairActive scriptRefused session =
     (case resolveReplayEntryIndex flags actionCount planDigest (session_pending session) (session_length session) of
        Inl e \<Rightarrow> (Inl e, session)
      | Inr entryIndex \<Rightarrow>
          (case validateReplaySessionEntry entryIndex repairActive session of
             Some e \<Rightarrow> (Inl e, session)
           | None \<Rightarrow>
               (let consumed = clearCorrectiveWatermarkIfExpected (rf_replayFrom flags) session
                in if scriptRefused then (Inl SaveScriptRefused, consumed) else (Inr entryIndex, consumed))))"

section \<open>What a report offers is accepted\<close>

definition resume_flags :: "nat \<Rightarrow> string \<Rightarrow> replay_flags" where
  "resume_flags from planDigest = \<lparr>rf_replayFrom = Some (of_nat from), rf_replayPlanDigest = Some planDigest\<rparr>"

definition offers :: "divergence_resume \<Rightarrow> nat \<Rightarrow> bool" where
  "offers resume from \<longleftrightarrow>
     (case resume of ResumeAllowed f digest alternate \<Rightarrow> from = f \<or> alternate = Some from | ResumeRefused f digest reason \<Rightarrow> False)"

definition record_actions :: "'a list \<Rightarrow> 'a replay_session \<Rightarrow> 'a replay_session" where
  "record_actions as session = session\<lparr>rs_actions := rs_actions session @ as\<rparr>"

lemma rat_nat_eq [simp]: "(of_nat a :: rat) = of_nat b \<longleftrightarrow> a = b"
  by simp

lemma in_range_accepts:
  "1 \<le> from \<Longrightarrow> from \<le> n \<Longrightarrow> describeOutOfRangeResumeFrom (of_nat from) n pending = None"
  by (simp add: describeOutOfRangeResumeFrom_def)

lemma empty_tail_accepts:
  "pending = Some p \<Longrightarrow> ph_expectedFrom p = n + 1 \<Longrightarrow> describeOutOfRangeResumeFrom (of_nat (n + 1)) n pending = None"
  by (simp add: describeOutOfRangeResumeFrom_def)

lemma out_of_range_iff:
  "describeOutOfRangeResumeFrom (of_nat from) n pending = None \<longleftrightarrow>
     1 \<le> from \<and> (from \<le> n \<or> from = n + 1 \<and> (\<exists>p. pending = Some p \<and> ph_expectedFrom p = n + 1))"
  by (auto simp: describeOutOfRangeResumeFrom_def split: option.splits simp flip: of_nat_Suc)

lemma prepared:
  assumes "describeOutOfRangeResumeFrom (of_nat from) n (session_pending session) = None"
    "describeUnperformedRecordAndHeal (of_nat from) (session_pending session) (session_length session) = None"
    "session \<noteq> None" "from = 1 \<Longrightarrow> \<not> repairActive" "1 \<le> from"
  shows "fst (prepare_replay (resume_flags from d) n d repairActive False session) = Inr (of_nat from - 1)"
proof -
  have "resolveReplayEntryIndex (resume_flags from d) n d (session_pending session) (session_length session) = Inr (of_nat from - 1)"
    using assms(1,2) by (simp add: resolveReplayEntryIndex_def resume_flags_def validateReplayResumeRequest_def describeStaleResumeDigest_def)
  moreover have "validateReplaySessionEntry (of_nat from - 1) repairActive session = None"
    using assms(3-5) by (cases "from = 1") (auto simp: validateReplaySessionEntry_def)
  ultimately show ?thesis by (simp add: prepare_replay_def Let_def)
qed

text \<open>C9. What a report offers is accepted: after a divergence at any step of a live session, once a further action is recorded, a
  replay request with an ordinal of the report, its own or the alternate one, enters the plan at that ordinal, the end of the
  plan included; the ordinal one of a session under repair is the exception.\<close>

theorem offered_resume_accepted:
  assumes "1 \<le> failedIndex" "failedIndex \<le> actionCount"
    and "buildAndPersistReplayDivergenceResume failedIndex actionCount planDigest repairHint (Some session) = (resume, Some stamped)"
    and "offers resume from" "as \<noteq> []" "from = 1 \<Longrightarrow> \<not> repairActive"
  shows "fst (prepare_replay (resume_flags from planDigest) actionCount planDigest repairActive False (Some (record_actions as stamped))) =
    Inr (of_nat from - 1)"
proof -
  let ?later = "Some (record_actions as stamped)"
  from assms(3) have resume: "resume = buildReplayDivergenceResume failedIndex actionCount planDigest repairHint True"
    and stamped: "stamped = session\<lparr>rs_pending := computeRecordAndHealWatermark resume repairHint failedIndex actionCount (length (rs_actions session))\<rparr>"
    by (auto simp: buildAndPersistReplayDivergenceResume_def Let_def stampCorrectiveWatermark_def stampPendingRecordAndHealWatermark_def)
  have pending: "session_pending ?later = computeRecordAndHealWatermark resume repairHint failedIndex actionCount (length (rs_actions session))"
    by (simp add: session_pending_def record_actions_def stamped)
  have len: "session_length ?later = length (rs_actions session) + length as"
    by (simp add: session_length_def record_actions_def stamped)
  have from_cases: "from = failedIndex \<or> from = failedIndex + 1"
    and needs: "from = failedIndex + 1 \<Longrightarrow> repairHint \<in> {RecordAndHeal, Caution, Manual}"
    using assms(4) by (auto simp: offers_def resume buildReplayDivergenceResume_def computeReplayResumeAlternateFrom_def Let_def split: if_splits)
  have tail: "\<exists>p. session_pending ?later = Some p \<and> ph_expectedFrom p = actionCount + 1" if "from = actionCount + 1"
  proof -
    from that from_cases assms(2) have "failedIndex = actionCount" by auto
    with needs that show ?thesis
      unfolding pending resume by (auto simp: computeRecordAndHealWatermark_def buildReplayDivergenceResume_def)
  qed
  show ?thesis
  proof (rule prepared)
    show "describeOutOfRangeResumeFrom (of_nat from) actionCount (session_pending ?later) = None"
      unfolding out_of_range_iff using from_cases assms(1,2) tail by auto
    show "describeUnperformedRecordAndHeal (of_nat from) (session_pending ?later) (session_length ?later) = None"
      unfolding len unfolding pending using assms(5)
      by (auto simp: describeUnperformedRecordAndHeal_def computeRecordAndHealWatermark_def split: option.splits divergence_resume.splits if_splits)
    show "1 \<le> from" using from_cases assms(1) by auto
  qed (use assms(6) in auto)
qed

theorem offered_resume_accepted_witness:
  "fst (prepare_replay (resume_flags 3 ''d'') 2 ''d'' True False (Some (record_actions [''press''] \<lparr>rs_actions = [''open''],
       rs_pending = Some \<lparr>ph_expectedFrom = 3, ph_actionsCountAtDivergence = 1\<rparr>\<rparr>))) = Inr (of_nat 3 - 1)"
proof (rule offered_resume_accepted)
  show "buildAndPersistReplayDivergenceResume 2 2 ''d'' RecordAndHeal (Some \<lparr>rs_actions = [''open''], rs_pending = None\<rparr>) =
      (ResumeAllowed 3 ''d'' None, Some \<lparr>rs_actions = [''open''], rs_pending = Some \<lparr>ph_expectedFrom = 3, ph_actionsCountAtDivergence = 1\<rparr>\<rparr>)"
    by code_simp
  show "offers (ResumeAllowed 3 ''d'' None) 3" by (simp add: offers_def)
qed simp_all

text \<open>C40. The exception is real: a session under repair whose first step diverges is offered the ordinal one, unless the hint is to record
  and heal, and refuses the request, because the entry at the first step is taken for a fresh replay.\<close>

theorem first_step_resume_refused:
  assumes "repairHint \<noteq> RecordAndHeal" "1 \<le> actionCount"
  shows "offers (buildReplayDivergenceResume 1 actionCount planDigest repairHint True) 1 \<and>
    fst (prepare_replay (resume_flags 1 planDigest) actionCount planDigest True False
      (stampCorrectiveWatermark (buildReplayDivergenceResume 1 actionCount planDigest repairHint True) repairHint 1 actionCount (Some session))) =
    Inl ActiveRepairRun"
proof -
  let ?resume = "buildReplayDivergenceResume 1 actionCount planDigest repairHint True"
  let ?s = "stampCorrectiveWatermark ?resume repairHint 1 actionCount (Some session)"
  have "describeOutOfRangeResumeFrom (of_nat 1) actionCount (session_pending ?s) = None"
    unfolding out_of_range_iff using assms(2) by simp
  moreover have "describeUnperformedRecordAndHeal (of_nat 1) (session_pending ?s) (session_length ?s) = None"
    using assms by (auto simp: stampCorrectiveWatermark_def stampPendingRecordAndHealWatermark_def session_pending_def
        describeUnperformedRecordAndHeal_def computeRecordAndHealWatermark_def)
  ultimately have "resolveReplayEntryIndex (resume_flags 1 planDigest) actionCount planDigest (session_pending ?s) (session_length ?s) = Inr 0"
    by (simp add: resolveReplayEntryIndex_def resume_flags_def validateReplayResumeRequest_def describeStaleResumeDigest_def)
  then have "fst (prepare_replay (resume_flags 1 planDigest) actionCount planDigest True False ?s) = Inl ActiveRepairRun"
    by (simp add: prepare_replay_def validateReplaySessionEntry_def)
  moreover have "offers ?resume 1" using assms(1) by (simp add: offers_def buildReplayDivergenceResume_def)
  ultimately show ?thesis by simp
qed

theorem first_step_resume_refused_witness:
  "offers (buildReplayDivergenceResume 1 2 ''d'' StateRepair True) 1 \<and>
    fst (prepare_replay (resume_flags 1 ''d'') 2 ''d'' True False
      (stampCorrectiveWatermark (buildReplayDivergenceResume 1 2 ''d'' StateRepair True) StateRepair 1 2
        (Some \<lparr>rs_actions = [''open''], rs_pending = None\<rparr>))) = Inl ActiveRepairRun"
  by (rule first_step_resume_refused) simp_all

section \<open>The end of the plan is earned\<close>

text \<open>What happens to a live session: an action is recorded, a step of some plan diverges, a replay of some plan is requested. A plan is its
  number of steps and its digest, and every event has its own.\<close>

datatype 'a replay_event =
    Recorded 'a
  | Diverged nat string nat repair_hint
  | Requested nat string replay_flags bool bool

fun replay_event_step :: "'a replay_event \<Rightarrow> 'a replay_session \<Rightarrow> 'a replay_session" where
  "replay_event_step (Recorded a) s = record_actions [a] s"
| "replay_event_step (Diverged actionCount planDigest failedIndex h) s =
     the (snd (buildAndPersistReplayDivergenceResume failedIndex actionCount planDigest h (Some s)))"
| "replay_event_step (Requested actionCount planDigest flags repairActive scriptRefused) s =
     the (snd (prepare_replay flags actionCount planDigest repairActive scriptRefused (Some s)))"

definition replay_events :: "'a replay_event list \<Rightarrow> 'a replay_session \<Rightarrow> 'a replay_session" where
  "replay_events evs s = foldl (\<lambda>s ev. replay_event_step ev s) s evs"

fun is_recorded :: "'a replay_event \<Rightarrow> bool" where
  "is_recorded (Recorded a) = True"
| "is_recorded ev = False"

text \<open>The last divergence of a run, of whatever plan, was at a step, with a hint that asks for a corrective action, and so many actions were
  recorded since.\<close>

definition diverged_since :: "'a replay_event list \<Rightarrow> nat \<Rightarrow> nat \<Rightarrow> bool" where
  "diverged_since evs i k \<longleftrightarrow>
     (\<exists>xs n d h ys. evs = xs @ Diverged n d i h # ys \<and> h \<noteq> StateRepair \<and> (\<forall>m e j h'. Diverged m e j h' \<notin> set ys) \<and>
        length (filter is_recorded ys) = k)"

lemma diverged_since_more:
  assumes "diverged_since evs i k" "\<And>m e j h. ev \<noteq> Diverged m e j h"
  shows "diverged_since (evs @ [ev]) i (k + (if is_recorded ev then 1 else 0))"
proof -
  from assms(1) obtain xs n d h ys where e: "evs = xs @ Diverged n d i h # ys" "h \<noteq> StateRepair" "\<forall>m e j h'. Diverged m e j h' \<notin> set ys"
    "length (filter is_recorded ys) = k" unfolding diverged_since_def by blast
  have "evs @ [ev] = xs @ Diverged n d i h # (ys @ [ev])"
    "length (filter is_recorded (ys @ [ev])) = k + (if is_recorded ev then 1 else 0)" using e by auto
  moreover have "\<forall>m x j h'. Diverged m x j h' \<notin> set (ys @ [ev])"
  proof (intro allI)
    fix m x j h'
    show "Diverged m x j h' \<notin> set (ys @ [ev])" using e(3) assms(2) [of m x j h'] by auto
  qed
  ultimately show ?thesis using e(2) unfolding diverged_since_def by blast
qed

lemma prepare_replay_session:
  "\<exists>t. snd (prepare_replay flags n d repairActive scriptRefused (Some s)) = Some t \<and> rs_actions t = rs_actions s \<and>
     (rs_pending t = rs_pending s \<or> rs_pending t = None)"
  by (auto simp: prepare_replay_def clearCorrectiveWatermarkIfExpected_def Let_def split: sum.split option.split)

lemma watermark_earned:
  assumes "rs_pending s = None"
  shows "\<forall>p. rs_pending (replay_events evs s) = Some p \<longrightarrow>
    (\<exists>i k. ph_expectedFrom p = i + 1 \<and> diverged_since evs i k \<and>
       length (rs_actions (replay_events evs s)) = ph_actionsCountAtDivergence p + k)"
proof (induction evs rule: rev_induct)
  case Nil
  then show ?case using assms by (simp add: replay_events_def)
next
  case (snoc ev evs)
  let ?s = "replay_events evs s"
  have step: "replay_events (evs @ [ev]) s = replay_event_step ev ?s" by (simp add: replay_events_def)
  show ?case
  proof (cases ev)
    case (Recorded a)
    show ?thesis
    proof (intro allI impI)
      fix p assume "rs_pending (replay_events (evs @ [ev]) s) = Some p"
      then have "rs_pending ?s = Some p" by (simp add: step [unfolded Recorded] Recorded record_actions_def)
      with snoc obtain i k where k: "ph_expectedFrom p = i + 1" "diverged_since evs i k"
        "length (rs_actions ?s) = ph_actionsCountAtDivergence p + k" by blast
      have "diverged_since (evs @ [ev]) i (k + 1)"
        using diverged_since_more [OF k(2), of ev] Recorded by simp
      then show "\<exists>i k. ph_expectedFrom p = i + 1 \<and> diverged_since (evs @ [ev]) i k \<and>
          length (rs_actions (replay_events (evs @ [ev]) s)) = ph_actionsCountAtDivergence p + k"
        using k by (intro exI [of _ i] exI [of _ "k + 1"]) (simp add: step [unfolded Recorded] Recorded record_actions_def)
    qed
  next
    case (Requested n d flags ra ref)
    from prepare_replay_session [of flags n d ra ref ?s] obtain t where
      "replay_event_step ev ?s = t" "rs_actions t = rs_actions ?s" "rs_pending t = rs_pending ?s \<or> rs_pending t = None"
      by (auto simp: Requested)
    moreover have "diverged_since (evs @ [ev]) i k" if "diverged_since evs i k" for i k
      using diverged_since_more [OF that, of ev] Requested by simp
    ultimately show ?thesis using snoc unfolding step by fastforce
  next
    case (Diverged n d i h)
    show ?thesis
    proof (intro allI impI)
      fix p assume "rs_pending (replay_events (evs @ [ev]) s) = Some p"
      then have p: "ph_expectedFrom p = i + 1" "ph_actionsCountAtDivergence p = length (rs_actions ?s)" "h \<noteq> StateRepair"
        by (auto simp: step [unfolded Diverged] Diverged buildAndPersistReplayDivergenceResume_def Let_def stampCorrectiveWatermark_def
            stampPendingRecordAndHealWatermark_def computeRecordAndHealWatermark_def buildReplayDivergenceResume_def split: if_splits)
      have "diverged_since (evs @ [ev]) i 0" unfolding diverged_since_def Diverged using p(3) by fastforce
      moreover have "rs_actions (replay_events (evs @ [ev]) s) = rs_actions ?s"
        by (simp add: step [unfolded Diverged] Diverged buildAndPersistReplayDivergenceResume_def Let_def stampCorrectiveWatermark_def
            stampPendingRecordAndHealWatermark_def)
      ultimately show "\<exists>i k. ph_expectedFrom p = i + 1 \<and> diverged_since (evs @ [ev]) i k \<and>
          length (rs_actions (replay_events (evs @ [ev]) s)) = ph_actionsCountAtDivergence p + k"
        using p by force
    qed
  qed
qed

text \<open>C10. A replay never skips the end of its plan without a corrective action: in every run of a session, over whatever plans, a request
  that enters behind the last of its n steps is accepted only if the last divergence of the session was at a step number n, asked for a
  corrective action, and an action has been recorded since. That divergence may have been of another plan, since the watermark
  carries no digest.\<close>

theorem empty_tail_is_earned:
  assumes "rs_pending s = None"
    and "fst (prepare_replay flags n d repairActive scriptRefused (Some (replay_events evs s))) = Inr (of_nat n)"
    and "rf_replayFrom flags \<noteq> None"
  shows "\<exists>k > 0. diverged_since evs n k"
proof -
  let ?s = "replay_events evs s"
  from assms(2) have entry: "resolveReplayEntryIndex flags n d (rs_pending ?s) (length (rs_actions ?s)) = Inr (of_nat n)"
    by (auto simp: prepare_replay_def session_pending_def session_length_def Let_def split: sum.splits option.splits if_splits)
  with assms(3) obtain start digest where f: "start = of_nat (n + 1)"
    "validateReplayResumeRequest start digest d n (rs_pending ?s) (length (rs_actions ?s)) = None"
    by (auto simp: resolveReplayEntryIndex_def algebra_simps split: option.splits)
  then have reach: "describeOutOfRangeResumeFrom (of_nat (n + 1)) n (rs_pending ?s) = None"
    and performed: "describeUnperformedRecordAndHeal (of_nat (n + 1)) (rs_pending ?s) (length (rs_actions ?s)) = None"
    by (auto simp: validateReplayResumeRequest_def split: option.splits)
  from reach obtain p where p: "rs_pending ?s = Some p" "ph_expectedFrom p = n + 1" unfolding out_of_range_iff by auto
  with watermark_earned [OF assms(1), of evs] obtain k where k: "diverged_since evs n k"
    "length (rs_actions ?s) = ph_actionsCountAtDivergence p + k" by auto
  with performed p have "k > 0" by (auto simp: describeUnperformedRecordAndHeal_def split: if_splits)
  with k show ?thesis by blast
qed

definition earned_run :: "string replay_event list" where
  "earned_run = [Recorded ''open'', Diverged 2 ''d'' 2 Caution, Recorded ''press'']"

theorem empty_tail_is_earned_witness: "\<exists>k > 0. diverged_since earned_run 2 k"
proof (rule empty_tail_is_earned)
  show "rs_pending \<lparr>rs_actions = [], rs_pending = None\<rparr> = None" by simp
  show "fst (prepare_replay (resume_flags 3 ''d'') 2 ''d'' True False
      (Some (replay_events earned_run \<lparr>rs_actions = [], rs_pending = None\<rparr>))) = Inr (of_nat 2)" by code_simp
  show "rf_replayFrom (resume_flags 3 ''d'') \<noteq> None" by (simp add: resume_flags_def)
qed

text \<open>The plan does matter: what was earned by a divergence of one plan is accepted as the end of another of the same length.\<close>

lemma other_plan_is_authorized:
  "fst (prepare_replay (resume_flags 3 ''other'') 2 ''other'' True False
      (Some (replay_events earned_run \<lparr>rs_actions = [], rs_pending = None\<rparr>))) = Inr 2"
  by code_simp

section \<open>The hint\<close>

text \<open>The hint to record and heal is given only when the recorded container is still on the screen: some evidence was recorded that
  identifies a container, and a node of the capture has the recorded ancestry above it.\<close>

lemma record_and_heal_has_container:
  assumes "computeReplayRepairHint kind targetEvidence capture = RecordAndHeal"
  shows "\<exists>recorded nodes. targetEvidence = Some recorded \<and> capture = Some nodes \<and> hasUsableContainerSignal recorded \<and>
    isRecordedAncestryPresent (ta_ancestry recorded) nodes \<and>
    (\<forall>region. ta_scrollRegion recorded = Some region \<and> isIdentifiedScrollRegion region \<longrightarrow> isScrollRegionPresent region nodes)"
  using assms
  by (auto simp: computeReplayRepairHint_def isRecordedContainerPresent_def Let_def split: if_splits option.splits)

text \<open>A request that enters the plan behind its last step but may not arm its script is refused and still uses up the watermark, so the
  same request is out of range the next time.\<close>

lemma refused_script_loses_watermark:
  assumes "rs_pending s = Some \<lparr>ph_expectedFrom = n + 1, ph_actionsCountAtDivergence = c\<rparr>" "length (rs_actions s) \<noteq> c" "0 < n"
  shows "prepare_replay (resume_flags (n + 1) d) n d repairActive True (Some s) = (Inl SaveScriptRefused, Some (s\<lparr>rs_pending := None\<rparr>))"
    and "prepare_replay (resume_flags (n + 1) d) n d repairActive False (Some (s\<lparr>rs_pending := None\<rparr>)) =
      (Inl (OutOfRangeFrom (of_nat (n + 1)) n), Some (s\<lparr>rs_pending := None\<rparr>))"
proof -
  have "describeOutOfRangeResumeFrom (of_nat (n + 1)) n (rs_pending s) = None"
    unfolding out_of_range_iff using assms(1) by simp
  then have "resolveReplayEntryIndex (resume_flags (n + 1) d) n d (rs_pending s) (length (rs_actions s)) = Inr (of_nat n)"
    using assms(1,2) by (simp add: resolveReplayEntryIndex_def resume_flags_def validateReplayResumeRequest_def
        describeUnperformedRecordAndHeal_def describeStaleResumeDigest_def)
  then show "prepare_replay (resume_flags (n + 1) d) n d repairActive True (Some s) = (Inl SaveScriptRefused, Some (s\<lparr>rs_pending := None\<rparr>))"
    using assms(1,3) by (simp add: prepare_replay_def session_pending_def session_length_def validateReplaySessionEntry_def
        clearCorrectiveWatermarkIfExpected_def resume_flags_def)
  show "prepare_replay (resume_flags (n + 1) d) n d repairActive False (Some (s\<lparr>rs_pending := None\<rparr>)) =
      (Inl (OutOfRangeFrom (of_nat (n + 1)) n), Some (s\<lparr>rs_pending := None\<rparr>))"
    by (simp add: prepare_replay_def session_pending_def resolveReplayEntryIndex_def resume_flags_def
        validateReplayResumeRequest_def describeOutOfRangeResumeFrom_def)
qed

end
