(* ===== verification/ReplayVars.thy ===== *)
theory ReplayVars
  imports AdScript
begin

text \<open>
  The variables of replayed scripts (\<^verbatim>\<open>src/replay/vars.ts\<close>, \<^verbatim>\<open>src/daemon/handlers/session-replay-vars.ts\<close>): the scope of a replay
  and its layers, interpolation, and the values that reports must not show.

  A record of strings is an association list in the order of its keys, where a new value of a key keeps the place of the key. The
  set of expanded built-ins is a list without repetitions and threaded through the resolution, since the code changes
  it also when a later variable is unresolved.
\<close>

section \<open>Records and scopes\<close>

fun set_value :: "string \<Rightarrow> 'v \<Rightarrow> (string \<times> 'v) list \<Rightarrow> (string \<times> 'v) list" where
  "set_value k v [] = [(k, v)]"
| "set_value k v ((k', v') # rest) = (if k' = k then (k, v) # rest else (k', v') # set_value k v rest)"

lemma map_of_set_value: "map_of (set_value k v m) k' = (if k' = k then Some v else map_of m k')"
  by (induction m) auto

record replay_var_scope =
  rv_values :: "(string \<times> string) list"
  rv_expandedBuiltinNames :: "string list"

datatype var_error =
    ReservedNamespace string
  | InvalidCliEntry string
  | InvalidCliKey string
  | UnresolvedVariable string string int

definition SHELL_PREFIX :: string where
  "SHELL_PREFIX = ''AD_VAR_''"

definition RESERVED_NAMESPACE_PREFIX :: string where
  "RESERVED_NAMESPACE_PREFIX = ''AD_''"

definition isReservedNamespaceKey :: "string \<Rightarrow> bool" where
  "isReservedNamespaceKey key \<longleftrightarrow> take (length RESERVED_NAMESPACE_PREFIX) key = RESERVED_NAMESPACE_PREFIX"

definition merge_builtins :: "(string \<times> string) list \<Rightarrow> (string \<times> string) list" where
  "merge_builtins builtins = foldl (\<lambda>m (k, v). set_value k v m) [] builtins"

fun merge_layer :: "(string \<times> string) list \<Rightarrow> (string \<times> string) list \<Rightarrow> var_error + (string \<times> string) list" where
  "merge_layer merged [] = Inr merged"
| "merge_layer merged ((k, v) # layer) =
     (if isReservedNamespaceKey k then Inl (ReservedNamespace k) else merge_layer (set_value k v merged) layer)"

fun merge_layers :: "(string \<times> string) list \<Rightarrow> (string \<times> string) list list \<Rightarrow> var_error + (string \<times> string) list" where
  "merge_layers merged [] = Inr merged"
| "merge_layers merged (layer # layers) = rbind (merge_layer merged layer) (\<lambda>m. merge_layers m layers)"

record replay_var_sources =
  vs_builtins :: "(string \<times> string) list"
  vs_fileEnv :: "(string \<times> string) list"
  vs_shellEnv :: "(string \<times> string) list"
  vs_cliEnv :: "(string \<times> string) list"

definition buildReplayVarScope :: "replay_var_sources \<Rightarrow> var_error + replay_var_scope" where
  "buildReplayVarScope sources =
     rbind (merge_layers (merge_builtins (vs_builtins sources)) [vs_fileEnv sources, vs_shellEnv sources, vs_cliEnv sources])
       (\<lambda>merged. Inr \<lparr>rv_values = merged, rv_expandedBuiltinNames = []\<rparr>)"

fun shell_loop :: "(string \<times> string) list \<Rightarrow> (string \<times> string option) list \<Rightarrow> (string \<times> string) list" where
  "shell_loop result [] = result"
| "shell_loop result ((rawKey, v) # rest) =
     (case v of
        None \<Rightarrow> shell_loop result rest
      | Some s \<Rightarrow>
          if take (length SHELL_PREFIX) rawKey \<noteq> SHELL_PREFIX then shell_loop result rest
          else let key = drop (length SHELL_PREFIX) rawKey
               in if length key = 0 then shell_loop result rest
                  else if \<not> REPLAY_VAR_KEY_RE key then shell_loop result rest
                  else if isReservedNamespaceKey key then shell_loop result rest
                  else shell_loop (set_value key s result) rest)"

definition collectReplayShellEnv :: "(string \<times> string option) list \<Rightarrow> (string \<times> string) list" where
  "collectReplayShellEnv processEnv = shell_loop [] processEnv"

fun cli_loop :: "(string \<times> string) list \<Rightarrow> string list \<Rightarrow> var_error + (string \<times> string) list" where
  "cli_loop result [] = Inr result"
| "cli_loop result (cli_entry # rest) =
     (case js_index_of (CHR ''='') cli_entry of
        None \<Rightarrow> Inl (InvalidCliEntry cli_entry)
      | Some eqIndex \<Rightarrow>
          if eqIndex = 0 then Inl (InvalidCliEntry cli_entry)
          else let key = take eqIndex cli_entry
               in if \<not> REPLAY_VAR_KEY_RE key then Inl (InvalidCliKey key)
                  else if isReservedNamespaceKey key then Inl (ReservedNamespace key)
                  else cli_loop (set_value key (drop (Suc eqIndex) cli_entry) result) rest)"

definition parseReplayCliEnvEntries :: "string list \<Rightarrow> var_error + (string \<times> string) list" where
  "parseReplayCliEnvEntries entries = cli_loop [] entries"

section \<open>Interpolation\<close>

definition VAR_OPEN :: string where
  "VAR_OPEN = ''${''"

definition var_start_char :: "char \<Rightarrow> bool" where
  "var_start_char c \<longleftrightarrow> is_letter_char c \<or> c = CHR ''_''"

definition var_char :: "char \<Rightarrow> bool" where
  "var_char c \<longleftrightarrow> is_letter_char c \<or> is_digit_char c \<or> c = CHR ''_'' \<or> c = CHR ''.''"

text \<open>The dot of a regular expression.\<close>

definition dot_char :: "char \<Rightarrow> bool" where
  "dot_char c \<longleftrightarrow> c \<noteq> CHR 0x0A \<and> c \<noteq> CHR 0x0D"

text \<open>A fallback: the longest run of plain characters and escaped ones, and what follows it.\<close>

fun read_fallback :: "string \<Rightarrow> string \<times> string" where
  "read_fallback [] = ([], [])"
| "read_fallback (c # s) =
     (if c = CHR ''}'' then ([], c # s)
      else if c = CHR 0x5C
      then (case s of
              [] \<Rightarrow> ([], c # s)
            | d # t \<Rightarrow> if dot_char d then (let (f, r) = read_fallback t in (c # d # f, r)) else ([], c # s))
      else (let (f, r) = read_fallback s in (c # f, r)))"

datatype interpolation = EscapedLiteral | VarReference string "string option"

definition match_reference_body :: "string \<Rightarrow> (interpolation \<times> string) option" where
  "match_reference_body s =
     (let key = takeWhile var_char s; t = drop (length key) s
      in if key = [] \<or> \<not> var_start_char (hd key) then None
         else if take 1 t = ''}'' then Some (VarReference key None, drop 1 t)
         else if take 2 t = '':-''
         then (let (f, r) = read_fallback (drop 2 t)
               in if take 1 r = ''}'' then Some (VarReference key (Some f), drop 1 r) else None)
         else None)"

text \<open>A match of the pattern at the start of a text, with the rest.\<close>

definition match_interpolation :: "string \<Rightarrow> (interpolation \<times> string) option" where
  "match_interpolation s =
     (if take 1 s = [CHR 0x5C] \<and> take 2 (drop 1 s) = VAR_OPEN then Some (EscapedLiteral, drop 3 s)
      else if take 2 s = VAR_OPEN then match_reference_body (drop 2 s)
      else None)"

lemma read_fallback_split: "read_fallback s = (f, r) \<Longrightarrow> s = f @ r"
  by (induction s arbitrary: f r rule: read_fallback.induct) (auto split: if_splits list.splits prod.splits)

lemma match_body_shorter: "match_reference_body s = Some (i, r) \<Longrightarrow> length r \<le> length s"
  using read_fallback_split [of "drop 2 (drop (length (takeWhile var_char s)) s)"]
  by (auto simp: match_reference_body_def Let_def split: if_splits prod.splits dest!: arg_cong [where f = length])

lemma match_interpolation_shorter: "match_interpolation (c # s) = Some (i, r) \<Longrightarrow> length r < Suc (length s)"
  using match_body_shorter [of "drop 2 (c # s)" i r]
  by (auto simp: match_interpolation_def split: if_splits)

text \<open>\<open>replace(/\\(.)/g, '$1')\<close> on a fallback.\<close>

fun unescape_fallback :: "string \<Rightarrow> string" where
  "unescape_fallback (c # d # s) =
     (if c = CHR 0x5C \<and> dot_char d then d # unescape_fallback s else c # unescape_fallback (d # s))"
| "unescape_fallback s = s"

definition add_name :: "string \<Rightarrow> string list \<Rightarrow> string list" where
  "add_name n names = (if n \<in> set names then names else names @ [n])"

text \<open>The value of one reference, and the built-ins expanded so far.\<close>

definition expand_reference ::
    "(string \<times> string) list \<Rightarrow> string \<times> int \<Rightarrow> string list \<Rightarrow> interpolation \<Rightarrow> string list \<times> (var_error + string)" where
  "expand_reference vals loc names i =
     (case i of
        EscapedLiteral \<Rightarrow> (names, Inr VAR_OPEN)
      | VarReference key fallback \<Rightarrow>
          (case map_of vals key of
             Some v \<Rightarrow> (if isReservedNamespaceKey key then add_name key names else names, Inr v)
           | None \<Rightarrow>
               (case fallback of
                  Some f \<Rightarrow> (names, Inr (unescape_fallback f))
                | None \<Rightarrow> (names, Inl (UnresolvedVariable key (fst loc) (snd loc))))))"

function resolve_string_loop ::
    "(string \<times> string) list \<Rightarrow> string \<times> int \<Rightarrow> string list \<Rightarrow> string \<Rightarrow> string list \<times> (var_error + string)" where
  "resolve_string_loop vals loc names [] = (names, Inr [])"
| "resolve_string_loop vals loc names (c # s) =
     (case match_interpolation (c # s) of
        None \<Rightarrow> (let (names', r) = resolve_string_loop vals loc names s in (names', rbind r (\<lambda>u. Inr (c # u))))
      | Some (i, rest) \<Rightarrow>
          (case expand_reference vals loc names i of
             (names', Inl e) \<Rightarrow> (names', Inl e)
           | (names', Inr v) \<Rightarrow>
               (let (names'', r) = resolve_string_loop vals loc names' rest in (names'', rbind r (\<lambda>u. Inr (v @ u))))))"
  by pat_completeness auto
termination
  by (relation "measure (\<lambda>(vals, loc, names, s). length s)") (auto dest: match_interpolation_shorter)

definition resolveReplayString :: "string \<Rightarrow> replay_var_scope \<Rightarrow> string \<times> int \<Rightarrow> replay_var_scope \<times> (var_error + string)" where
  "resolveReplayString raw scope loc =
     (let (names, r) = resolve_string_loop (rv_values scope) loc (rv_expandedBuiltinNames scope) raw
      in (scope\<lparr>rv_expandedBuiltinNames := names\<rparr>, r))"

text \<open>Texts in order, and the strings of a JSON-like value.\<close>

fun resolve_texts ::
    "(string \<times> string) list \<Rightarrow> string \<times> int \<Rightarrow> string list \<Rightarrow> string list \<Rightarrow> string list \<times> (var_error + string list)" where
  "resolve_texts vals loc names [] = (names, Inr [])"
| "resolve_texts vals loc names (t # ts) =
     (case resolve_string_loop vals loc names t of
        (names', Inl e) \<Rightarrow> (names', Inl e)
      | (names', Inr u) \<Rightarrow> (let (names'', r) = resolve_texts vals loc names' ts in (names'', rbind r (\<lambda>us. Inr (u # us)))))"

fun resolveStringValue ::
    "(string \<times> string) list \<Rightarrow> string \<times> int \<Rightarrow> string list \<Rightarrow> json \<Rightarrow> string list \<times> (var_error + json)"
  and resolve_values ::
    "(string \<times> string) list \<Rightarrow> string \<times> int \<Rightarrow> string list \<Rightarrow> json list \<Rightarrow> string list \<times> (var_error + json list)"
  and resolve_members ::
    "(string \<times> string) list \<Rightarrow> string \<times> int \<Rightarrow> string list \<Rightarrow> (string option \<times> json) list \<Rightarrow> string list \<times> (var_error + (string option \<times> json) list)"
where
  "resolveStringValue vals loc names (JStr t) =
     (let (names', r) = resolve_string_loop vals loc names t in (names', rbind r (\<lambda>u. Inr (JStr u))))"
| "resolveStringValue vals loc names (JArr vs) =
     (let (names', r) = resolve_values vals loc names vs in (names', rbind r (\<lambda>us. Inr (JArr us))))"
| "resolveStringValue vals loc names (JObj ms) =
     (let (names', r) = resolve_members vals loc names ms in (names', rbind r (\<lambda>us. Inr (JObj us))))"
| "resolveStringValue vals loc names v = (names, Inr v)"
| "resolve_values vals loc names [] = (names, Inr [])"
| "resolve_values vals loc names (v # vs) =
     (case resolveStringValue vals loc names v of
        (names', Inl e) \<Rightarrow> (names', Inl e)
      | (names', Inr u) \<Rightarrow> (let (names'', r) = resolve_values vals loc names' vs in (names'', rbind r (\<lambda>us. Inr (u # us)))))"
| "resolve_members vals loc names [] = (names, Inr [])"
| "resolve_members vals loc names ((k, v) # ms) =
     (case resolveStringValue vals loc names v of
        (names', Inl e) \<Rightarrow> (names', Inl e)
      | (names', Inr u) \<Rightarrow> (let (names'', r) = resolve_members vals loc names' ms in (names'', rbind r (\<lambda>us. Inr ((k, u) # us)))))"

text \<open>The parts of an action that carry texts; \<open>None\<close> is a field that is absent.\<close>

record replay_action_texts =
  ra_positionals :: "string list option"
  ra_flags :: "json option"
  ra_runtime :: "json option"

definition resolveStringProps ::
    "(string \<times> string) list \<Rightarrow> string \<times> int \<Rightarrow> string list \<Rightarrow> json option \<Rightarrow> string list \<times> (var_error + json option)" where
  "resolveStringProps vals loc names obj =
     (case obj of
        None \<Rightarrow> (names, Inr None)
      | Some v \<Rightarrow> (let (names', r) = resolveStringValue vals loc names v in (names', rbind r (\<lambda>u. Inr (Some u)))))"

definition resolveReplayAction ::
    "replay_action_texts \<Rightarrow> replay_var_scope \<Rightarrow> string \<times> int \<Rightarrow> replay_var_scope \<times> (var_error + replay_action_texts)" where
  "resolveReplayAction action scope loc =
     (let vals = rv_values scope in
      case resolve_texts vals loc (rv_expandedBuiltinNames scope) (case ra_positionals action of Some ps \<Rightarrow> ps | None \<Rightarrow> []) of
        (names1, Inl e) \<Rightarrow> (scope\<lparr>rv_expandedBuiltinNames := names1\<rparr>, Inl e)
      | (names1, Inr positionals) \<Rightarrow>
          (case resolveStringProps vals loc names1 (ra_flags action) of
             (names2, Inl e) \<Rightarrow> (scope\<lparr>rv_expandedBuiltinNames := names2\<rparr>, Inl e)
           | (names2, Inr flags) \<Rightarrow>
               (case resolveStringProps vals loc names2 (ra_runtime action) of
                  (names3, Inl e) \<Rightarrow> (scope\<lparr>rv_expandedBuiltinNames := names3\<rparr>, Inl e)
                | (names3, Inr runtime) \<Rightarrow>
                    (scope\<lparr>rv_expandedBuiltinNames := names3\<rparr>,
                     Inr \<lparr>ra_positionals = Some positionals, ra_flags = Some (case flags of Some f \<Rightarrow> f | None \<Rightarrow> JObj []),
                          ra_runtime = runtime\<rparr>))))"

section \<open>What reports scrub\<close>

definition collectReplayScrubbableVarValues :: "replay_var_scope \<Rightarrow> (string \<times> string) list" where
  "collectReplayScrubbableVarValues scope =
     sort_key (\<lambda>(name, v). - int (length v))
       (filter (\<lambda>(key, v). length v > 0 \<and> (\<not> isReservedNamespaceKey key \<or> key \<in> set (rv_expandedBuiltinNames scope))) (rv_values scope))"

text \<open>\<open>split(value).join(marker)\<close>.\<close>

function replace_text :: "string \<Rightarrow> string \<Rightarrow> string \<Rightarrow> string" where
  "replace_text v marker [] = []"
| "replace_text v marker (c # s) =
     (if v \<noteq> [] \<and> take (length v) (c # s) = v then marker @ replace_text v marker (drop (length v) (c # s))
      else c # replace_text v marker s)"
  by pat_completeness auto
termination
  by (relation "measure (\<lambda>(v, marker, s). length s)") auto

fun scrubReplayVarValues :: "string \<Rightarrow> (string \<times> string) list \<Rightarrow> string" where
  "scrubReplayVarValues v [] = v"
| "scrubReplayVarValues v ((name, secret) # entries) =
     scrubReplayVarValues (if secret = [] then v else replace_text secret (''<var:'' @ name @ ''>'') v) entries"

section \<open>Built-in variables cannot be shadowed\<close>

lemma merge_layer_reserved: "merge_layer merged layer = Inr m \<Longrightarrow> isReservedNamespaceKey k \<Longrightarrow> map_of m k = map_of merged k"
  by (induction merged layer arbitrary: m rule: merge_layer.induct) (auto simp: map_of_set_value split: if_splits)

lemma merge_layers_reserved: "merge_layers merged layers = Inr m \<Longrightarrow> isReservedNamespaceKey k \<Longrightarrow> map_of m k = map_of merged k"
  by (induction merged layers arbitrary: m rule: merge_layers.induct) (auto simp: rbind_Inr_iff dest: merge_layer_reserved)

text \<open>C7. No layer of an untrusted source shadows or adds a built-in: in an accepted scope every variable of the reserved namespace has the
  value the runtime gave it, and there is no other.\<close>

theorem builtins_not_shadowed:
  assumes "buildReplayVarScope sources = Inr scope" "isReservedNamespaceKey k"
  shows "map_of (rv_values scope) k = map_of (merge_builtins (vs_builtins sources)) k"
  using assms by (auto simp: buildReplayVarScope_def rbind_Inr_iff dest!: merge_layers_reserved simp del: merge_layers.simps)

definition scope_example :: replay_var_sources where
  "scope_example = \<lparr>vs_builtins = [(''AD_SESSION'', ''s'')], vs_fileEnv = [(''USER'', ''ann'')], vs_shellEnv = [], vs_cliEnv = [(''USER'', ''bob'')]\<rparr>"

theorem builtins_not_shadowed_witness:
  "map_of (rv_values \<lparr>rv_values = [(''AD_SESSION'', ''s''), (''USER'', ''bob'')], rv_expandedBuiltinNames = []\<rparr>) ''AD_SESSION'' =
     map_of (merge_builtins (vs_builtins scope_example)) ''AD_SESSION''"
  by (rule builtins_not_shadowed) code_simp+

section \<open>Escaped texts resolve to themselves\<close>

text \<open>Every opening of a reference escaped.\<close>

fun escape_vars :: "string \<Rightarrow> string" where
  "escape_vars [] = []"
| "escape_vars (c # s) =
     (if c = CHR ''$'' \<and> take 1 s = ''{'' then CHR 0x5C # CHR ''$'' # CHR ''{'' # escape_vars (drop 1 s) else c # escape_vars s)"

lemma escape_vars_head: "take 1 (escape_vars s) = ''{'' \<longleftrightarrow> take 1 s = ''{''"
  by (cases s) auto

lemma escape_vars_not_open: "take 2 (escape_vars s) \<noteq> VAR_OPEN"
proof (cases s)
  case (Cons c t)
  have "escape_vars t = [] \<or> take 1 (escape_vars t) = [hd (escape_vars t)]" by (cases "escape_vars t") auto
  then show ?thesis using escape_vars_head [of t] by (auto simp: Cons VAR_OPEN_def numeral_2_eq_2)
qed (simp add: VAR_OPEN_def)

text \<open>C8. Any text can be written so that it is taken literally: with every opening of a reference escaped it resolves to itself, in
  every scope, and expands nothing.\<close>

theorem escaped_text_resolves:
  "resolveReplayString (escape_vars s) scope loc = (scope, Inr s)"
proof -
  have "resolve_string_loop vals loc names (escape_vars s) = (names, Inr s)" for vals names
  proof (induction s rule: escape_vars.induct)
    case (2 c s)
    show ?case
    proof (cases "c = CHR ''$'' \<and> take 1 s = ''{''")
      case True
      then obtain t where t: "s = CHR ''{'' # t" by (cases s) auto
      with 2(1) True show ?thesis by (simp add: match_interpolation_def expand_reference_def VAR_OPEN_def)
    next
      case False
      have "match_interpolation (c # escape_vars s) = None"
        using False escape_vars_not_open [of s] escape_vars_head [of s]
        by (auto simp: match_interpolation_def VAR_OPEN_def numeral_2_eq_2 take_Suc_Cons)
      moreover have "escape_vars (c # s) = c # escape_vars s" using False by auto
      ultimately show ?thesis using 2(2) False by (simp del: escape_vars.simps)
    qed
  qed simp
  then show ?thesis by (simp add: resolveReplayString_def)
qed

section \<open>Reports scrub what was expanded\<close>

lemma expand_names: "expand_reference vals loc names i = (names', r) \<Longrightarrow> set names \<subseteq> set names'"
  by (auto simp: expand_reference_def add_name_def split: interpolation.splits option.splits if_splits)

lemma resolve_names: "resolve_string_loop vals loc names s = (names', r) \<Longrightarrow> set names \<subseteq> set names'"
proof (induction vals loc names s arbitrary: names' r rule: resolve_string_loop.induct)
  case (2 vals loc names c s)
  show ?case
  proof (cases "match_interpolation (c # s)")
    case None
    with 2(1) 2(3) show ?thesis by (fastforce split: prod.splits)
  next
    case (Some m)
    then obtain i rest where m: "match_interpolation (c # s) = Some (i, rest)" by (cases m) auto
    obtain n1 v where e: "expand_reference vals loc names i = (n1, v)" by fastforce
    show ?thesis
    proof (cases v)
      case (Inl err)
      with 2(3) m e expand_names [OF e] show ?thesis by auto
    next
      case (Inr u)
      obtain n2 q where n2: "resolve_string_loop vals loc n1 rest = (n2, q)" by fastforce
      have "set n1 \<subseteq> set n2" using 2(2) [OF m refl e [symmetric] Inr n2] .
      with 2(3) m e Inr n2 expand_names [OF e] show ?thesis by auto
    qed
  qed
qed simp

definition agrees_on :: "string set \<Rightarrow> (string \<times> string) list \<Rightarrow> (string \<times> string) list \<Rightarrow> bool" where
  "agrees_on names vals vals' \<longleftrightarrow>
     (\<forall>k. map_of vals k = None \<longleftrightarrow> map_of vals' k = None) \<and>
     (\<forall>k v. map_of vals k = Some v \<and> (isReservedNamespaceKey k \<longrightarrow> k \<in> names) \<longrightarrow> map_of vals' k = Some v)"

lemma agrees_on_subset: "agrees_on B vals vals' \<Longrightarrow> A \<subseteq> B \<Longrightarrow> agrees_on A vals vals'"
  by (auto simp: agrees_on_def)

lemma expand_agrees:
  "expand_reference vals loc names i = (names', r) \<Longrightarrow> agrees_on (set names') vals vals' \<Longrightarrow>
     expand_reference vals' loc names i = (names', r)"
  by (cases i) (auto simp: expand_reference_def agrees_on_def add_name_def split: option.splits if_splits)

lemma resolve_agrees:
  "resolve_string_loop vals loc names s = (names', r) \<Longrightarrow> agrees_on (set names') vals vals' \<Longrightarrow>
     resolve_string_loop vals' loc names s = (names', r)"
proof (induction vals loc names s arbitrary: names' r rule: resolve_string_loop.induct)
  case (2 vals loc names c s)
  show ?case
  proof (cases "match_interpolation (c # s)")
    case None
    obtain n1 q where n1: "resolve_string_loop vals loc names s = (n1, q)" by fastforce
    with 2(3) None have "n1 = names'" "r = rbind q (\<lambda>u. Inr (c # u))" by auto
    with 2(1) [OF None n1] 2(4) None show ?thesis by simp
  next
    case (Some m)
    then obtain i rest where m: "match_interpolation (c # s) = Some (i, rest)" by (cases m) auto
    obtain n1 v where e: "expand_reference vals loc names i = (n1, v)" by fastforce
    show ?thesis
    proof (cases v)
      case (Inl err)
      with 2(3) m e have "names' = n1" "r = Inl err" by auto
      with expand_agrees [OF e] 2(4) m Inl show ?thesis by simp
    next
      case (Inr u)
      obtain n2 q where n2: "resolve_string_loop vals loc n1 rest = (n2, q)" by fastforce
      with 2(3) m e Inr have r: "names' = n2" "r = rbind q (\<lambda>w. Inr (u @ w))" by auto
      have sub: "set n1 \<subseteq> set n2" by (rule resolve_names [OF n2])
      have "resolve_string_loop vals' loc n1 rest = (n2, q)"
        using 2(2) [OF m refl e [symmetric] Inr n2] 2(4) r(1) by simp
      moreover have "expand_reference vals' loc names i = (n1, v)"
        using expand_agrees [OF e] agrees_on_subset [OF 2(4) [unfolded r(1)] sub] by simp
      ultimately show ?thesis using m r Inr by simp
    qed
  qed
qed simp

text \<open>The values a report scrubs, and empty ones, of one scope are those of another with the same variables.\<close>

definition same_scrubbed :: "replay_var_scope \<Rightarrow> (string \<times> string) list \<Rightarrow> bool" where
  "same_scrubbed scope vals' \<longleftrightarrow>
     (\<forall>k. map_of (rv_values scope) k = None \<longleftrightarrow> map_of vals' k = None) \<and>
     (\<forall>k v. map_of (rv_values scope) k = Some v \<and> (v = [] \<or> (k, v) \<in> set (collectReplayScrubbableVarValues scope)) \<longrightarrow> map_of vals' k = Some v)"

text \<open>C6. Whatever variable goes into a text of the replay is among the values its reports scrub: after the resolution, a scope with the same
  variables and the same empty values that agrees on the scrubbed values resolves the text to the same result.\<close>

theorem expanded_values_are_scrubbed:
  assumes "resolveReplayString raw scope loc = (after, result)" "same_scrubbed after vals'"
  shows "snd (resolveReplayString raw (scope\<lparr>rv_values := vals'\<rparr>) loc) = result"
proof -
  from assms(1) have r: "resolve_string_loop (rv_values scope) loc (rv_expandedBuiltinNames scope) raw = (rv_expandedBuiltinNames after, result)"
    and vals: "rv_values after = rv_values scope"
    by (auto simp: resolveReplayString_def split: prod.splits)
  have "agrees_on (set (rv_expandedBuiltinNames after)) (rv_values scope) vals'"
    unfolding agrees_on_def
  proof (intro conjI allI impI)
    show "map_of (rv_values scope) k = None \<longleftrightarrow> map_of vals' k = None" for k
      using assms(2) by (simp add: same_scrubbed_def vals)
    fix k v assume k: "map_of (rv_values scope) k = Some v \<and> (isReservedNamespaceKey k \<longrightarrow> k \<in> set (rv_expandedBuiltinNames after))"
    then have "v = [] \<or> (k, v) \<in> set (collectReplayScrubbableVarValues after)"
      by (auto simp: collectReplayScrubbableVarValues_def vals dest: map_of_SomeD)
    with k assms(2) show "map_of vals' k = Some v" by (simp add: same_scrubbed_def vals)
  qed
  from resolve_agrees [OF r this] show ?thesis by (simp add: resolveReplayString_def)
qed

theorem expanded_values_are_scrubbed_witness:
  "snd (resolveReplayString ''to ${USER}'' (\<lparr>rv_values = [(''AD_SESSION'', ''s''), (''USER'', ''bob'')], rv_expandedBuiltinNames = []\<rparr>
     \<lparr>rv_values := [(''AD_SESSION'', ''t''), (''USER'', ''bob'')]\<rparr>) (''f'', 1)) = Inr ''to bob''"
proof (rule expanded_values_are_scrubbed)
  show "resolveReplayString ''to ${USER}'' \<lparr>rv_values = [(''AD_SESSION'', ''s''), (''USER'', ''bob'')], rv_expandedBuiltinNames = []\<rparr> (''f'', 1) =
      (\<lparr>rv_values = [(''AD_SESSION'', ''s''), (''USER'', ''bob'')], rv_expandedBuiltinNames = []\<rparr>, Inr ''to bob'')" by code_simp
  have "collectReplayScrubbableVarValues \<lparr>rv_values = [(''AD_SESSION'', ''s''), (''USER'', ''bob'')], rv_expandedBuiltinNames = []\<rparr> = [(''USER'', ''bob'')]"
    by code_simp
  then show "same_scrubbed \<lparr>rv_values = [(''AD_SESSION'', ''s''), (''USER'', ''bob'')], rv_expandedBuiltinNames = []\<rparr> [(''AD_SESSION'', ''t''), (''USER'', ''bob'')]"
    by (auto simp: same_scrubbed_def split: if_splits)
qed

end
