(* ===== verification/Gestures.thy ===== *)
theory Gestures
  imports AdTokens Visibility Devices
begin

text \<open>
  Gestures: the scroll and swipe plans (\<^verbatim>\<open>packages/contracts/src/scroll-gesture.ts\<close>) and the sampled pointer trajectories
  (\<^verbatim>\<open>packages/contracts/src/gesture-plan.ts\<close>).

  A number of a request is a \<open>js_num\<close> until it is checked to be finite; checked numbers are exact rationals, so the code's test
  for coordinates that overflowed has no counterpart. The cosine and the sine of an angle in degrees are an argument.
\<close>

datatype gesture_error =
    NotFinite string
  | NotPositive string
  | BadViewport
  | BadDuration string
  | BadPointerCount
  | OutOfViewport
  | BadScrollAmount
  | BadScrollPixels
  | UnknownDirection string

section \<open>Scrolls and swipes\<close>

record gesture_frame =
  gf_width :: rat
  gf_height :: rat

record scroll_options =
  sg_direction :: scroll_direction
  sg_amount :: "js_num option"
  sg_pixels :: "js_num option"
  sg_frame :: gesture_frame

record scroll_plan =
  sl_direction :: scroll_direction
  sl_x1 :: rat
  sl_y1 :: rat
  sl_x2 :: rat
  sl_y2 :: rat
  sl_frame :: gesture_frame
  sl_amount :: "js_num option"
  sl_pixels :: rat

definition parseScrollDirection :: "string \<Rightarrow> gesture_error + scroll_direction" where
  "parseScrollDirection direction =
     (if direction = ''up'' then Inr ScrollUp else if direction = ''down'' then Inr ScrollDown
      else if direction = ''left'' then Inr ScrollLeft else if direction = ''right'' then Inr ScrollRight
      else Inl (UnknownDirection direction))"

definition DEFAULT_SCROLL_AMOUNT :: rat where
  "DEFAULT_SCROLL_AMOUNT = 6 / 10"

definition DEFAULT_EDGE_PADDING_FRACTION :: rat where
  "DEFAULT_EDGE_PADDING_FRACTION = 5 / 100"

definition resolveRequestedAmount :: "js_num option \<Rightarrow> gesture_error + rat" where
  "resolveRequestedAmount amount =
     (case amount of
        None \<Rightarrow> Inr DEFAULT_SCROLL_AMOUNT
      | Some (Finite q) \<Rightarrow> if q \<le> 0 then Inl BadScrollAmount else Inr q
      | Some _ \<Rightarrow> Inl BadScrollAmount)"

definition normalizeRequestedPixels :: "js_num \<Rightarrow> gesture_error + rat" where
  "normalizeRequestedPixels pixels =
     (case pixels of Finite q \<Rightarrow> if q \<le> 0 then Inl BadScrollPixels else Inr (max 1 (js_round q)) | _ \<Rightarrow> Inl BadScrollPixels)"

definition vertical_direction :: "scroll_direction \<Rightarrow> bool" where
  "vertical_direction d \<longleftrightarrow> d = ScrollUp \<or> d = ScrollDown"

definition edge_padding :: "rat \<Rightarrow> rat" where
  "edge_padding axisLength = max 1 (js_round (axisLength * DEFAULT_EDGE_PADDING_FRACTION))"

definition travel_pixels :: "rat \<Rightarrow> rat \<Rightarrow> rat" where
  "travel_pixels axisLength requestedPixels = max 1 (min requestedPixels (max 1 (axisLength - edge_padding axisLength * 2)))"

definition scroll_points :: "scroll_direction \<Rightarrow> gesture_frame \<Rightarrow> rat \<Rightarrow> rat \<times> rat \<times> rat \<times> rat" where
  "scroll_points direction frame halfTravel =
     (let centerX = js_round (gf_width frame / 2); centerY = js_round (gf_height frame / 2) in
      case direction of
        ScrollUp \<Rightarrow> (centerX, centerY - halfTravel, centerX, centerY + halfTravel)
      | ScrollDown \<Rightarrow> (centerX, centerY + halfTravel, centerX, centerY - halfTravel)
      | ScrollLeft \<Rightarrow> (centerX - halfTravel, centerY, centerX + halfTravel, centerY)
      | ScrollRight \<Rightarrow> (centerX + halfTravel, centerY, centerX - halfTravel, centerY))"

definition buildScrollGesturePlan :: "scroll_options \<Rightarrow> gesture_error + scroll_plan" where
  "buildScrollGesturePlan options =
     (let frame = sg_frame options; direction = sg_direction options;
          axisLength = (if vertical_direction direction then gf_height frame else gf_width frame)
      in rbind (resolveRequestedAmount (sg_amount options)) (\<lambda>requestedAmount.
         rbind (case sg_pixels options of Some p \<Rightarrow> normalizeRequestedPixels p | None \<Rightarrow> Inr (js_round (axisLength * requestedAmount)))
           (\<lambda>requestedPixels.
              let travelPixels = travel_pixels axisLength requestedPixels; (x1, y1, x2, y2) = scroll_points direction frame (js_round (travelPixels / 2))
              in Inr \<lparr>sl_direction = direction, sl_x1 = x1, sl_y1 = y1, sl_x2 = x2, sl_y2 = y2, sl_frame = frame,
                      sl_amount = sg_amount options, sl_pixels = travelPixels\<rparr>)))"

definition assertScrollGestureInput :: "js_num option \<Rightarrow> js_num option \<Rightarrow> gesture_error + unit" where
  "assertScrollGestureInput amount pixels =
     rbind (resolveRequestedAmount amount) (\<lambda>_.
       case pixels of None \<Rightarrow> Inr () | Some p \<Rightarrow> rbind (normalizeRequestedPixels p) (\<lambda>_. Inr ()))"

definition js_trunc :: "rat \<Rightarrow> rat" where
  "js_trunc q = (if q < 0 then of_int \<lceil>q\<rceil> else of_int \<lfloor>q\<rfloor>)"

definition pointFromPercent :: "gesture_frame \<Rightarrow> rat \<Rightarrow> rat \<Rightarrow> point" where
  "pointFromPercent frame xPercent yPercent =
     \<lparr>px = js_trunc (gf_width frame * xPercent / 100), py = js_trunc (gf_height frame * yPercent / 100)\<rparr>"

definition clampGestureCoordinate :: "rat \<Rightarrow> rat \<Rightarrow> rat \<Rightarrow> rat" where
  "clampGestureCoordinate v marginPx extent =
     (let lower = js_round marginPx; upper = max lower (js_round (extent - marginPx)) in min upper (max lower (js_round v)))"

definition clampGesturePoint :: "point \<Rightarrow> gesture_frame \<Rightarrow> rat \<Rightarrow> point" where
  "clampGesturePoint p frame marginPx =
     \<lparr>px = clampGestureCoordinate (px p) marginPx (gf_width frame), py = clampGestureCoordinate (py p) marginPx (gf_height frame)\<rparr>"

definition SWIPE_PRESET_EDGE_MARGIN_PX :: rat where
  "SWIPE_PRESET_EDGE_MARGIN_PX = 8"

datatype swipe_preset = SwipeLeft | SwipeRight | SwipeLeftEdge | SwipeRightEdge

definition buildInPageSwipeGesturePlan :: "scroll_direction \<Rightarrow> gesture_frame \<Rightarrow> point \<times> point" where
  "buildInPageSwipeGesturePlan direction frame =
     (let forward = (direction = ScrollLeft \<or> direction = ScrollUp);
          startAxisPercent = (if forward then 85 else 15); endAxisPercent = (if forward then 15 else 85);
          vertical = vertical_direction direction
      in (clampGesturePoint (pointFromPercent frame (if vertical then 50 else startAxisPercent) (if vertical then startAxisPercent else 50))
            frame SWIPE_PRESET_EDGE_MARGIN_PX,
          clampGesturePoint (pointFromPercent frame (if vertical then 50 else endAxisPercent) (if vertical then endAxisPercent else 50))
            frame SWIPE_PRESET_EDGE_MARGIN_PX))"

definition buildSwipePresetGesturePlan :: "swipe_preset \<Rightarrow> gesture_frame \<Rightarrow> point \<times> point" where
  "buildSwipePresetGesturePlan preset frame =
     (if preset = SwipeLeft then buildInPageSwipeGesturePlan ScrollLeft frame
      else if preset = SwipeRight then buildInPageSwipeGesturePlan ScrollRight frame
      else let (startPercent, endPercent) = (if preset = SwipeLeftEdge then (99, 15) else (1, 85))
           in (clampGesturePoint (pointFromPercent frame startPercent 50) frame SWIPE_PRESET_EDGE_MARGIN_PX,
               clampGesturePoint (pointFromPercent frame endPercent 50) frame SWIPE_PRESET_EDGE_MARGIN_PX))"

definition gestureDirectionDelta :: "scroll_direction \<Rightarrow> rat \<Rightarrow> point" where
  "gestureDirectionDelta direction distance =
     (case direction of
        ScrollUp \<Rightarrow> \<lparr>px = 0, py = - distance\<rparr>
      | ScrollDown \<Rightarrow> \<lparr>px = 0, py = distance\<rparr>
      | ScrollLeft \<Rightarrow> \<lparr>px = - distance, py = 0\<rparr>
      | ScrollRight \<Rightarrow> \<lparr>px = distance, py = 0\<rparr>)"

section \<open>Sampled trajectories\<close>

datatype gesture_intent = IntentFling | IntentPan | IntentPinch | IntentRotate | IntentTransform

datatype execution_profile = EndpointHold | TimedPan

record js_point =
  jp_x :: js_num
  jp_y :: js_num

record js_viewport =
  jv_x :: js_num
  jv_y :: js_num
  jv_width :: js_num
  jv_height :: js_num

datatype gesture_input =
    FlingPoints js_point js_point
  | FlingPreset swipe_preset
  | FlingDirection scroll_direction js_point "js_num option"
  | PanInput js_point js_point "int option" "js_num option" "execution_profile option"
  | PinchInput "js_point option" js_num
  | RotateInput "js_point option" js_num
  | TransformInput js_point js_point js_num js_num "js_num option"

record pointer_sample =
  ps_offsetMs :: int
  ps_point :: point

datatype gesture_plan =
    SinglePointerPlan gesture_intent execution_profile int rect "pointer_sample list"
  | MultiTouchPlan gesture_intent int rect "pointer_sample list" "pointer_sample list"

record gesture_profile =
  gp_pinchAxisDegrees :: rat
  gp_frameCount :: "rat \<Rightarrow> int"

definition DEFAULT_GESTURE_PLATFORM_PROFILE :: gesture_profile where
  "DEFAULT_GESTURE_PLATFORM_PROFILE = \<lparr>gp_pinchAxisDegrees = -90, gp_frameCount = floor\<rparr>"

definition gesturePlatformProfile :: "platform option \<Rightarrow> gesture_profile" where
  "gesturePlatformProfile platform =
     (if platform = Some PAndroid then \<lparr>gp_pinchAxisDegrees = 0, gp_frameCount = (\<lambda>q. \<lfloor>q + 1 / 2\<rfloor>)\<rparr>
      else DEFAULT_GESTURE_PLATFORM_PROFILE)"

definition finiteNumber :: "js_num \<Rightarrow> string \<Rightarrow> gesture_error + rat" where
  "finiteNumber v field = (case v of Finite q \<Rightarrow> Inr q | _ \<Rightarrow> Inl (NotFinite field))"

definition normalizeScale :: "js_num \<Rightarrow> string \<Rightarrow> gesture_error + rat" where
  "normalizeScale v field = rbind (finiteNumber v field) (\<lambda>scale. if scale \<le> 0 then Inl (NotPositive field) else Inr scale)"

definition positiveNumber :: "js_num \<Rightarrow> string \<Rightarrow> gesture_error + rat" where
  "positiveNumber v field = rbind (finiteNumber v field) (\<lambda>number. if number \<le> 0 then Inl (NotPositive field) else Inr number)"

definition finitePoint :: "js_point \<Rightarrow> string \<Rightarrow> gesture_error + point" where
  "finitePoint p field =
     rbind (finiteNumber (jp_x p) (field @ '' x'')) (\<lambda>x. rbind (finiteNumber (jp_y p) (field @ '' y'')) (\<lambda>y. Inr \<lparr>px = x, py = y\<rparr>))"

definition js_of_point :: "point \<Rightarrow> js_point" where
  "js_of_point p = \<lparr>jp_x = Finite (px p), jp_y = Finite (py p)\<rparr>"

definition normalizeViewport :: "js_viewport \<Rightarrow> gesture_error + rect" where
  "normalizeViewport v =
     rbind (finiteNumber (jv_x v) ''gesture viewport x'') (\<lambda>x.
     rbind (finiteNumber (jv_y v) ''gesture viewport y'') (\<lambda>y.
     rbind (finiteNumber (jv_width v) ''gesture viewport width'') (\<lambda>w.
     rbind (finiteNumber (jv_height v) ''gesture viewport height'') (\<lambda>h.
       if w \<le> 0 \<or> h \<le> 0 then Inl BadViewport else Inr \<lparr>rx = x, ry = y, rwidth = w, rheight = h\<rparr>))))"

definition normalizeDuration :: "js_num option \<Rightarrow> int \<Rightarrow> string \<Rightarrow> gesture_error + int" where
  "normalizeDuration v fallback field =
     (case (case v of Some n \<Rightarrow> n | None \<Rightarrow> Finite (of_int fallback)) of
        Finite q \<Rightarrow> if of_int \<lfloor>q\<rfloor> \<noteq> q \<or> q < 16 \<or> q > 10000 then Inl (BadDuration field) else Inr \<lfloor>q\<rfloor>
      | _ \<Rightarrow> Inl (BadDuration field))"

definition defaultTransformDuration :: "rat \<Rightarrow> int" where
  "defaultTransformDuration rotationDegrees = min (max 300 (\<lceil>\<bar>rotationDegrees\<bar> / 3\<rceil> * 16)) 2400"

definition addPoints :: "point \<Rightarrow> point \<Rightarrow> point" where
  "addPoints left right = \<lparr>px = px left + px right, py = py left + py right\<rparr>"

definition interpolatePoint :: "point \<Rightarrow> point \<Rightarrow> rat \<Rightarrow> point" where
  "interpolatePoint start end_point progress =
     \<lparr>px = px start + (px end_point - px start) * progress, py = py start + (py end_point - py start) * progress\<rparr>"

definition centerOfViewport :: "rect \<Rightarrow> point" where
  "centerOfViewport viewport = \<lparr>px = rx viewport + rwidth viewport / 2, py = ry viewport + rheight viewport / 2\<rparr>"

definition frame_count :: "int \<Rightarrow> gesture_profile \<Rightarrow> int" where
  "frame_count durationMs profile = max 3 (gp_frameCount profile (of_int durationMs / 16))"

definition sampleOffsets :: "int \<Rightarrow> gesture_profile \<Rightarrow> int list" where
  "sampleOffsets durationMs profile =
     (let frameCount = frame_count durationMs profile
      in map (\<lambda>i. \<lfloor>of_int (durationMs * int i) / (of_int frameCount :: rat) + 1 / 2\<rfloor>) [0..<Suc (nat frameCount)])"

definition sample_inside :: "rect \<Rightarrow> pointer_sample \<Rightarrow> bool" where
  "sample_inside viewport s \<longleftrightarrow>
     \<not> (px (ps_point s) < rx viewport + 1 \<or> px (ps_point s) > rx viewport + rwidth viewport - 1 \<or>
        py (ps_point s) < ry viewport + 1 \<or> py (ps_point s) > ry viewport + rheight viewport - 1)"

definition assertSamplesInViewport :: "pointer_sample list \<Rightarrow> rect \<Rightarrow> gesture_error + unit" where
  "assertSamplesInViewport samples viewport = (if list_all (sample_inside viewport) samples then Inr () else Inl OutOfViewport)"

definition buildSinglePointerPlan ::
    "gesture_intent \<Rightarrow> string \<Rightarrow> js_point \<Rightarrow> js_point \<Rightarrow> int \<Rightarrow> rect \<Rightarrow> execution_profile \<Rightarrow> gesture_profile \<Rightarrow> gesture_error + gesture_plan" where
  "buildSinglePointerPlan intent name start_point end_point durationMs viewport executionProfile profile =
     rbind (finitePoint start_point (''gesture '' @ name @ '' start'')) (\<lambda>start.
     rbind (finitePoint end_point (''gesture '' @ name @ '' end'')) (\<lambda>finish.
       let samples = map (\<lambda>offsetMs. \<lparr>ps_offsetMs = offsetMs,
             ps_point = interpolatePoint start finish (of_int offsetMs / of_int durationMs)\<rparr>) (sampleOffsets durationMs profile)
       in rbind (assertSamplesInViewport samples viewport) (\<lambda>_.
            Inr (SinglePointerPlan intent executionProfile durationMs viewport samples))))"

definition presetGestureEndpoints :: "swipe_preset \<Rightarrow> rect \<Rightarrow> point \<times> point" where
  "presetGestureEndpoints preset viewport =
     (let (start, finish) = buildSwipePresetGesturePlan preset \<lparr>gf_width = rwidth viewport, gf_height = rheight viewport\<rparr>
      in (\<lparr>px = rx viewport + px start, py = ry viewport + py start\<rparr>, \<lparr>px = rx viewport + px finish, py = ry viewport + py finish\<rparr>))"

definition GESTURE_FLING_DURATION_MS :: int where
  "GESTURE_FLING_DURATION_MS = 100"

record gesture_motion =
  gm_intent :: gesture_intent
  gm_name :: string
  gm_origin :: js_point
  gm_delta :: js_point
  gm_scale :: rat
  gm_rotationDegrees :: rat
  gm_durationMs :: int

definition initialAngleForIntent :: "gesture_intent \<Rightarrow> gesture_profile \<Rightarrow> rat" where
  "initialAngleForIntent intent profile = (if intent = IntentPinch then gp_pinchAxisDegrees profile else -90)"

definition initialSpanRatioForIntent :: "gesture_intent \<Rightarrow> rat" where
  "initialSpanRatioForIntent intent = (if intent = IntentPinch then 4 / 10 else 25 / 100)"

text \<open>The point of one pointer after a time: \<open>trig\<close> gives the cosine and the sine of an angle in degrees.\<close>

definition transformPointAt ::
    "(rat \<Rightarrow> rat \<times> rat) \<Rightarrow> gesture_motion \<Rightarrow> point \<Rightarrow> point \<Rightarrow> rat \<Rightarrow> int \<Rightarrow> rat \<Rightarrow> gesture_profile \<Rightarrow> point" where
  "transformPointAt trig motion start finish initialRadius offsetMs side profile =
     (let progress = of_int offsetMs / of_int (gm_durationMs motion);
          centroid = interpolatePoint start finish progress;
          radius = initialRadius * (1 + (gm_scale motion - 1) * progress);
          (c, s) = trig (initialAngleForIntent (gm_intent motion) profile + gm_rotationDegrees motion * progress)
      in \<lparr>px = px centroid + c * radius * side, py = py centroid + s * radius * side\<rparr>)"

definition pointer_trajectory ::
    "(rat \<Rightarrow> rat \<times> rat) \<Rightarrow> gesture_motion \<Rightarrow> point \<Rightarrow> point \<Rightarrow> rat \<Rightarrow> rat \<Rightarrow> gesture_profile \<Rightarrow> pointer_sample list" where
  "pointer_trajectory trig motion start finish initialRadius side profile =
     map (\<lambda>offsetMs. \<lparr>ps_offsetMs = offsetMs, ps_point = transformPointAt trig motion start finish initialRadius offsetMs side profile\<rparr>)
       (sampleOffsets (gm_durationMs motion) profile)"

definition buildTransformPlan ::
    "(rat \<Rightarrow> rat \<times> rat) \<Rightarrow> gesture_motion \<Rightarrow> rect \<Rightarrow> gesture_profile \<Rightarrow> gesture_error + gesture_plan" where
  "buildTransformPlan trig motion viewport profile =
     rbind (finitePoint (gm_origin motion) (''gesture '' @ gm_name motion @ '' origin'')) (\<lambda>start.
     rbind (finitePoint (gm_delta motion) (''gesture '' @ gm_name motion @ '' delta'')) (\<lambda>delta.
       let finish = addPoints start delta;
           maximumSpan = min (rwidth viewport) (rheight viewport) * initialSpanRatioForIntent (gm_intent motion);
           initialSpan = (if gm_scale motion > 1 then maximumSpan / gm_scale motion else maximumSpan);
           finalSpan = initialSpan * gm_scale motion;
           first = pointer_trajectory trig motion start finish (initialSpan / 2) 1 profile;
           second = pointer_trajectory trig motion start finish (initialSpan / 2) (-1) profile
       in if min initialSpan finalSpan < 48 then Inl OutOfViewport
          else rbind (assertSamplesInViewport first viewport) (\<lambda>_. rbind (assertSamplesInViewport second viewport) (\<lambda>_.
                 Inr (MultiTouchPlan (gm_intent motion) (gm_durationMs motion) viewport first second)))))"

definition buildFlingPoints :: "js_point \<Rightarrow> js_point \<Rightarrow> rect \<Rightarrow> gesture_profile \<Rightarrow> gesture_error + gesture_plan" where
  "buildFlingPoints start finish viewport profile =
     buildSinglePointerPlan IntentFling ''fling'' start finish GESTURE_FLING_DURATION_MS viewport EndpointHold profile"

definition buildFlingDirection ::
    "scroll_direction \<Rightarrow> js_point \<Rightarrow> js_num option \<Rightarrow> rect \<Rightarrow> gesture_profile \<Rightarrow> gesture_error + gesture_plan" where
  "buildFlingDirection direction origin distance viewport profile =
     rbind (finitePoint origin ''gesture fling origin'') (\<lambda>start.
     rbind (positiveNumber (case distance of Some d \<Rightarrow> d | None \<Rightarrow> Finite 180) ''gesture fling distance'') (\<lambda>d.
       buildFlingPoints (js_of_point start) (js_of_point (addPoints start (gestureDirectionDelta direction d))) viewport profile))"

definition buildPanPlan ::
    "(rat \<Rightarrow> rat \<times> rat) \<Rightarrow> js_point \<Rightarrow> js_point \<Rightarrow> int option \<Rightarrow> js_num option \<Rightarrow> execution_profile option \<Rightarrow> rect \<Rightarrow> gesture_profile \<Rightarrow> gesture_error + gesture_plan" where
  "buildPanPlan trig origin delta pointerCount durationMs executionProfile viewport profile =
     rbind (normalizeDuration durationMs 500 ''gesture pan durationMs'') (\<lambda>duration.
       let pointers = (case pointerCount of Some n \<Rightarrow> n | None \<Rightarrow> 1) in
       if pointers = 1
       then rbind (finitePoint origin ''gesture pan origin'') (\<lambda>start.
            rbind (finitePoint delta ''gesture pan delta'') (\<lambda>d.
              buildSinglePointerPlan IntentPan ''pan'' (js_of_point start) (js_of_point (addPoints start d)) duration viewport
                (case executionProfile of Some e \<Rightarrow> e | None \<Rightarrow> TimedPan) profile))
       else if pointers \<noteq> 2 then Inl BadPointerCount
       else buildTransformPlan trig \<lparr>gm_intent = IntentPan, gm_name = ''pan'', gm_origin = origin, gm_delta = delta, gm_scale = 1,
              gm_rotationDegrees = 0, gm_durationMs = duration\<rparr> viewport profile)"

definition center_or :: "js_point option \<Rightarrow> rect \<Rightarrow> js_point" where
  "center_or origin viewport = (case origin of Some p \<Rightarrow> p | None \<Rightarrow> js_of_point (centerOfViewport viewport))"

definition no_delta :: js_point where
  "no_delta = \<lparr>jp_x = Finite 0, jp_y = Finite 0\<rparr>"

definition buildGesturePlan :: "(rat \<Rightarrow> rat \<times> rat) \<Rightarrow> gesture_input \<Rightarrow> js_viewport \<Rightarrow> platform option \<Rightarrow> gesture_error + gesture_plan" where
  "buildGesturePlan trig input viewport platform =
     rbind (normalizeViewport viewport) (\<lambda>frame.
       let profile = gesturePlatformProfile platform in
       case input of
         FlingPoints start finish \<Rightarrow> buildFlingPoints start finish frame profile
       | FlingPreset preset \<Rightarrow>
           (let (start, finish) = presetGestureEndpoints preset frame
            in buildFlingPoints (js_of_point start) (js_of_point finish) frame profile)
       | FlingDirection direction origin distance \<Rightarrow> buildFlingDirection direction origin distance frame profile
       | PanInput origin delta pointerCount durationMs executionProfile \<Rightarrow>
           buildPanPlan trig origin delta pointerCount durationMs executionProfile frame profile
       | PinchInput origin scale \<Rightarrow>
           rbind (normalizeScale scale ''gesture pinch scale'') (\<lambda>s.
             buildTransformPlan trig \<lparr>gm_intent = IntentPinch, gm_name = ''pinch'', gm_origin = center_or origin frame, gm_delta = no_delta,
               gm_scale = s, gm_rotationDegrees = 0, gm_durationMs = 300\<rparr> frame profile)
       | RotateInput origin degrees \<Rightarrow>
           rbind (finiteNumber degrees ''gesture rotate degrees'') (\<lambda>d.
             buildTransformPlan trig \<lparr>gm_intent = IntentRotate, gm_name = ''rotate'', gm_origin = center_or origin frame, gm_delta = no_delta,
               gm_scale = 1, gm_rotationDegrees = d, gm_durationMs = defaultTransformDuration d\<rparr> frame profile)
       | TransformInput origin delta scale degrees durationMs \<Rightarrow>
           rbind (finiteNumber degrees ''gesture transform degrees'') (\<lambda>d.
           rbind (normalizeScale scale ''gesture transform scale'') (\<lambda>s.
           rbind (normalizeDuration durationMs (defaultTransformDuration d) ''gesture transform durationMs'') (\<lambda>duration.
             buildTransformPlan trig \<lparr>gm_intent = IntentTransform, gm_name = ''transform'', gm_origin = origin, gm_delta = delta,
               gm_scale = s, gm_rotationDegrees = d, gm_durationMs = duration\<rparr> frame profile))))"

section \<open>Scrolls stay in their frame\<close>

lemma js_round_bounds: "q - 1 / 2 < js_round q" "js_round q \<le> q + 1 / 2"
  unfolding js_round_def by linarith+

definition inside_frame :: "gesture_frame \<Rightarrow> rat \<Rightarrow> rat \<Rightarrow> bool" where
  "inside_frame frame x y \<longleftrightarrow> 0 \<le> x \<and> x \<le> gf_width frame \<and> 0 \<le> y \<and> y \<le> gf_height frame"

lemma center_inside: "2 \<le> a \<Longrightarrow> 0 \<le> js_round (a / 2) \<and> js_round (a / 2) \<le> a"
  using js_round_bounds [of "a / 2"] by auto

lemma travel_inside:
  assumes "2 \<le> a"
  shows "0 \<le> js_round (a / 2) - js_round (travel_pixels a r / 2)" "js_round (a / 2) + js_round (travel_pixels a r / 2) \<le> a"
proof -
  let ?t = "travel_pixels a r"
  have pad: "1 \<le> edge_padding a" "edge_padding a \<le> max 1 (a * 5 / 100 + 1 / 2)"
    using js_round_bounds [of "a * 5 / 100"] by (auto simp: edge_padding_def DEFAULT_EDGE_PADDING_FRACTION_def)
  have *: "0 \<le> js_round (a / 2) - js_round (?t / 2) \<and> js_round (a / 2) + js_round (?t / 2) \<le> a"
  proof (cases "1 \<le> a - edge_padding a * 2")
    case True
    then have "?t \<le> a - edge_padding a * 2" by (auto simp: travel_pixels_def)
    with js_round_bounds [of "?t / 2"] js_round_bounds [of "a / 2"] pad(1) show ?thesis by (simp add: field_simps)
  next
    case False
    have less: "a < 3"
    proof (rule ccontr)
      assume "\<not> a < 3"
      with False pad(2) show False by (auto simp: max_def split: if_splits)
    qed
    from False have "?t = 1" by (auto simp: travel_pixels_def)
    moreover have "\<lfloor>a / 2 + 1 / 2\<rfloor> = 1" by (rule floor_unique) (use less assms in auto)
    ultimately show ?thesis using assms by (simp add: js_round_def)
  qed
  then show "0 \<le> js_round (a / 2) - js_round (?t / 2)" "js_round (a / 2) + js_round (?t / 2) \<le> a" by auto
qed

lemma travel_positive: "0 \<le> js_round (travel_pixels a r / 2)"
proof -
  have "1 \<le> travel_pixels a r" by (simp add: travel_pixels_def)
  with js_round_bounds(1) [of "travel_pixels a r / 2"] show ?thesis by linarith
qed

text \<open>C13. A scroll stays on the screen: in a frame of at least two by two pixels, whatever amount or number of pixels is asked for, both
  ends of an accepted scroll lie in the frame.\<close>

theorem scroll_stays_in_frame:
  assumes "buildScrollGesturePlan options = Inr plan"
    and "2 \<le> gf_width (sg_frame options)" "2 \<le> gf_height (sg_frame options)"
  shows "inside_frame (sg_frame options) (sl_x1 plan) (sl_y1 plan) \<and> inside_frame (sg_frame options) (sl_x2 plan) (sl_y2 plan)"
proof -
  let ?f = "sg_frame options"
  let ?a = "if vertical_direction (sg_direction options) then gf_height ?f else gf_width ?f"
  from assms(1) obtain r where plan:
    "(sl_x1 plan, sl_y1 plan, sl_x2 plan, sl_y2 plan) = scroll_points (sg_direction options) ?f (js_round (travel_pixels ?a r / 2))"
    by (auto simp: buildScrollGesturePlan_def Let_def rbind_Inr_iff case_prod_unfold)
  have w: "0 \<le> js_round (gf_width ?f / 2)" "js_round (gf_width ?f / 2) \<le> gf_width ?f"
    and h: "0 \<le> js_round (gf_height ?f / 2)" "js_round (gf_height ?f / 2) \<le> gf_height ?f"
    using center_inside assms(2,3) by auto
  note tw = travel_inside [OF assms(2), of r] and th = travel_inside [OF assms(3), of r]
    and tp = travel_positive [of "gf_width ?f" r] travel_positive [of "gf_height ?f" r]
  show ?thesis
  proof (cases "sg_direction options")
    case ScrollUp
    with plan w h th tp show ?thesis by (auto simp: scroll_points_def Let_def vertical_direction_def inside_frame_def)
  next
    case ScrollDown
    with plan w h th tp show ?thesis by (auto simp: scroll_points_def Let_def vertical_direction_def inside_frame_def)
  next
    case ScrollLeft
    with plan w h tw tp show ?thesis by (auto simp: scroll_points_def Let_def vertical_direction_def inside_frame_def)
  next
    case ScrollRight
    with plan w h tw tp show ?thesis by (auto simp: scroll_points_def Let_def vertical_direction_def inside_frame_def)
  qed
qed

definition scroll_example :: scroll_options where
  "scroll_example = \<lparr>sg_direction = ScrollDown, sg_amount = None, sg_pixels = Some (Finite 5000), sg_frame = \<lparr>gf_width = 390, gf_height = 844\<rparr>\<rparr>"

theorem scroll_stays_in_frame_witness:
  "\<exists>plan. buildScrollGesturePlan scroll_example = Inr plan \<and>
     inside_frame (sg_frame scroll_example) (sl_x1 plan) (sl_y1 plan) \<and> inside_frame (sg_frame scroll_example) (sl_x2 plan) (sl_y2 plan)"
proof -
  obtain plan where plan: "buildScrollGesturePlan scroll_example = Inr plan"
    by (auto simp: buildScrollGesturePlan_def scroll_example_def resolveRequestedAmount_def normalizeRequestedPixels_def Let_def
        case_prod_unfold)
  from scroll_stays_in_frame [OF plan] plan show ?thesis by (simp add: scroll_example_def)
qed

section \<open>Sampled plans\<close>

lemma frame_count_bounds:
  assumes "16 \<le> d"
  shows "3 \<le> frame_count d (gesturePlatformProfile platform)" "frame_count d (gesturePlatformProfile platform) \<le> d"
proof -
  let ?q = "of_int d / 16 :: rat"
  have "?q + 1 / 2 \<le> of_int d" using assms by simp
  then have "\<lfloor>?q + 1 / 2\<rfloor> \<le> d" "\<lfloor>?q\<rfloor> \<le> d" by linarith+
  then show "3 \<le> frame_count d (gesturePlatformProfile platform)" "frame_count d (gesturePlatformProfile platform) \<le> d"
    using assms by (auto simp: frame_count_def gesturePlatformProfile_def DEFAULT_GESTURE_PLATFORM_PROFILE_def)
qed

lemma offset_step:
  fixes n d :: int
  assumes "0 < n" "n \<le> d" "i < j"
  shows "\<lfloor>of_int (d * int i) / (of_int n :: rat) + 1 / 2\<rfloor> < \<lfloor>of_int (d * int j) / (of_int n :: rat) + 1 / 2\<rfloor>"
proof -
  have "d * int i + n \<le> d * int j"
  proof -
    have "d * 1 \<le> d * (int j - int i)" using assms by (intro mult_left_mono) auto
    then show ?thesis using assms(2) by (simp add: algebra_simps)
  qed
  then have "of_int (d * int i) + of_int n \<le> (of_int (d * int j) :: rat)" by (metis of_int_add of_int_le_iff)
  then have "(of_int (d * int i) + of_int n) / of_int n \<le> of_int (d * int j) / (of_int n :: rat)"
    by (rule divide_right_mono) (use assms(1) in simp)
  then have "of_int (d * int i) / of_int n + 1 \<le> of_int (d * int j) / (of_int n :: rat)"
    using assms(1) by (simp add: add_divide_distrib)
  then show ?thesis by linarith
qed

lemma floor_half: "\<lfloor>1 / 2 :: rat\<rfloor> = 0" "of_int d + 1 / 2 < (of_int d + 1 :: rat)" "\<lfloor>of_int d + 1 / 2 :: rat\<rfloor> = d"
  by (simp_all add: floor_unique)

lemma sampleOffsets_ok:
  assumes "16 \<le> d" "profile = gesturePlatformProfile platform"
  shows "sorted_wrt (<) (sampleOffsets d profile)" "sampleOffsets d profile \<noteq> []" "hd (sampleOffsets d profile) = 0"
    "last (sampleOffsets d profile) = d"
proof -
  let ?n = "frame_count d profile"
  have n: "3 \<le> ?n" "?n \<le> d" using frame_count_bounds [OF assms(1)] assms(2) by auto
  show "sampleOffsets d profile \<noteq> []" by (simp add: sampleOffsets_def Let_def)
  show "hd (sampleOffsets d profile) = 0" by (simp add: sampleOffsets_def Let_def hd_map floor_half del: upt_Suc)
  show "last (sampleOffsets d profile) = d"
    using n by (simp add: sampleOffsets_def Let_def last_map floor_half)
  show "sorted_wrt (<) (sampleOffsets d profile)"
    using offset_step [of ?n d] n by (auto simp: sampleOffsets_def Let_def sorted_wrt_map sorted_wrt_upt simp del: upt_Suc intro!: sorted_wrt_mono_rel [OF _ sorted_wrt_upt])
qed

definition trajectory_ok :: "int \<Rightarrow> rect \<Rightarrow> pointer_sample list \<Rightarrow> bool" where
  "trajectory_ok durationMs viewport samples \<longleftrightarrow>
     sorted_wrt (<) (map ps_offsetMs samples) \<and> samples \<noteq> [] \<and> ps_offsetMs (hd samples) = 0 \<and> ps_offsetMs (last samples) = durationMs \<and>
     list_all (sample_inside viewport) samples"

fun plan_ok :: "gesture_plan \<Rightarrow> bool" where
  "plan_ok (SinglePointerPlan intent executionProfile durationMs viewport samples) = trajectory_ok durationMs viewport samples"
| "plan_ok (MultiTouchPlan intent durationMs viewport first second) \<longleftrightarrow>
     trajectory_ok durationMs viewport first \<and> trajectory_ok durationMs viewport second"

lemma trajectory_okI:
  assumes "16 \<le> d" "profile = gesturePlatformProfile platform" "map ps_offsetMs samples = sampleOffsets d profile"
    "assertSamplesInViewport samples viewport = Inr u"
  shows "trajectory_ok d viewport samples"
proof -
  note ok = sampleOffsets_ok [OF assms(1,2)]
  have ne: "samples \<noteq> []" using ok(2) assms(3) by auto
  have "ps_offsetMs (hd samples) = 0" "ps_offsetMs (last samples) = d"
    using ok(3,4) ne by (simp_all flip: assms(3) add: hd_map last_map)
  with ok(1) ne assms(3,4) show ?thesis by (simp add: trajectory_ok_def assertSamplesInViewport_def split: if_splits)
qed

lemma single_plan_ok:
  assumes "buildSinglePointerPlan intent name start finish d viewport e profile = Inr plan"
    "16 \<le> d" "profile = gesturePlatformProfile platform"
  shows "plan_ok plan"
proof -
  from assms(1) obtain samples where "plan = SinglePointerPlan intent e d viewport samples"
    "map ps_offsetMs samples = sampleOffsets d profile" "assertSamplesInViewport samples viewport = Inr ()"
    by (auto simp: buildSinglePointerPlan_def rbind_Inr_iff Let_def comp_def)
  with trajectory_okI [OF assms(2,3)] show ?thesis by simp
qed

lemma offsets_of_trajectory [simp]:
  "map ps_offsetMs (pointer_trajectory trig motion start finish r side profile) = sampleOffsets (gm_durationMs motion) profile"
  by (simp add: pointer_trajectory_def comp_def)

lemma transform_plan_ok:
  assumes "buildTransformPlan trig motion viewport profile = Inr plan" "16 \<le> gm_durationMs motion"
    "profile = gesturePlatformProfile platform"
  shows "plan_ok plan"
proof -
  from assms(1) obtain start finish r where
    "plan = MultiTouchPlan (gm_intent motion) (gm_durationMs motion) viewport
       (pointer_trajectory trig motion start finish r 1 profile) (pointer_trajectory trig motion start finish r (-1) profile)"
    "assertSamplesInViewport (pointer_trajectory trig motion start finish r 1 profile) viewport = Inr ()"
    "assertSamplesInViewport (pointer_trajectory trig motion start finish r (-1) profile) viewport = Inr ()"
    by (auto simp: buildTransformPlan_def rbind_Inr_iff Let_def split: if_splits)
  with trajectory_okI [OF assms(2,3)] show ?thesis by simp
qed

lemma normalizeDuration_min: "normalizeDuration v fallback field = Inr d \<Longrightarrow> 16 \<le> d"
  by (auto simp: normalizeDuration_def le_floor_iff split: js_num.splits if_splits)

lemma default_duration_min: "16 \<le> defaultTransformDuration r"
  by (simp add: defaultTransformDuration_def)

text \<open>C5. A gesture plan is executable as it is: whatever gesture is asked for, the samples of every pointer start at time zero, end at
  the duration, are strictly ordered in time, and never leave the viewport.\<close>

theorem gesture_plan_executable:
  assumes "buildGesturePlan trig input viewport platform = Inr plan"
  shows "plan_ok plan"
proof -
  let ?profile = "gesturePlatformProfile platform"
  from assms obtain frame where frame: "normalizeViewport viewport = Inr frame" by (auto simp: buildGesturePlan_def rbind_Inr_iff)
  note build = assms [unfolded buildGesturePlan_def frame rbind_simps Let_def]
  have fling: "buildFlingPoints a b frame ?profile = Inr plan \<Longrightarrow> plan_ok plan" for a b
    unfolding buildFlingPoints_def by (erule single_plan_ok) (simp_all add: GESTURE_FLING_DURATION_MS_def)
  note transform = transform_plan_ok [OF _ _ refl]
  show ?thesis
  proof (cases input)
    case (FlingPoints a b)
    with build fling show ?thesis by simp
  next
    case (FlingPreset preset)
    with build fling show ?thesis by (auto split: prod.splits)
  next
    case (FlingDirection direction origin distance)
    with build fling show ?thesis by (auto simp: buildFlingDirection_def rbind_Inr_iff)
  next
    case (PanInput origin delta pointers duration executionProfile)
    with build have pan: "buildPanPlan trig origin delta pointers duration executionProfile frame ?profile = Inr plan" by simp
    then obtain d where d: "normalizeDuration duration 500 ''gesture pan durationMs'' = Inr d" by (auto simp: buildPanPlan_def rbind_Inr_iff)
    note min = normalizeDuration_min [OF d]
    show ?thesis
      using pan min by (auto simp: buildPanPlan_def d rbind_Inr_iff Let_def split: if_splits intro: single_plan_ok [OF _ min refl] transform)
  next
    case (PinchInput origin scale)
    with build show ?thesis by (auto simp: rbind_Inr_iff intro: transform)
  next
    case (RotateInput origin degrees)
    with build show ?thesis by (auto simp: rbind_Inr_iff default_duration_min intro: transform)
  next
    case (TransformInput origin delta scale degrees duration)
    with build show ?thesis by (auto simp: rbind_Inr_iff intro!: transform dest: normalizeDuration_min)
  qed
qed

theorem gesture_plan_executable_witness:
  "\<exists>plan. buildGesturePlan (\<lambda>_. (1, 0)) (FlingDirection ScrollDown \<lparr>jp_x = Finite 100, jp_y = Finite 100\<rparr> None)
     \<lparr>jv_x = Finite 0, jv_y = Finite 0, jv_width = Finite 390, jv_height = Finite 844\<rparr> None = Inr plan \<and> plan_ok plan"
proof -
  have "(case buildGesturePlan (\<lambda>_. (1, 0)) (FlingDirection ScrollDown \<lparr>jp_x = Finite 100, jp_y = Finite 100\<rparr> None)
     \<lparr>jv_x = Finite 0, jv_y = Finite 0, jv_width = Finite 390, jv_height = Finite 844\<rparr> None of Inr plan \<Rightarrow> True | Inl e \<Rightarrow> False)"
    by code_simp
  then obtain plan where plan: "buildGesturePlan (\<lambda>_. (1, 0)) (FlingDirection ScrollDown \<lparr>jp_x = Finite 100, jp_y = Finite 100\<rparr> None)
     \<lparr>jv_x = Finite 0, jv_y = Finite 0, jv_width = Finite 390, jv_height = Finite 844\<rparr> None = Inr plan"
    by (auto split: sum.splits)
  from gesture_plan_executable [OF plan] plan show ?thesis by blast
qed

section \<open>Two pointers\<close>

lemma trajectory_nth:
  "k < length (sampleOffsets (gm_durationMs motion) profile) \<Longrightarrow>
     pointer_trajectory trig motion start finish r side profile ! k =
       \<lparr>ps_offsetMs = sampleOffsets (gm_durationMs motion) profile ! k,
        ps_point = transformPointAt trig motion start finish r (sampleOffsets (gm_durationMs motion) profile ! k) side profile\<rparr>"
  by (simp add: pointer_trajectory_def)

definition midpoint_on :: "point \<Rightarrow> point \<Rightarrow> int \<Rightarrow> pointer_sample \<Rightarrow> pointer_sample \<Rightarrow> bool" where
  "midpoint_on start finish durationMs a b \<longleftrightarrow>
     ps_offsetMs a = ps_offsetMs b \<and>
     (let m = interpolatePoint start finish (of_int (ps_offsetMs a) / of_int durationMs)
      in px (ps_point a) + px (ps_point b) = 2 * px m \<and> py (ps_point a) + py (ps_point b) = 2 * py m)"

text \<open>C14. The two pointers of a pinch, a rotation, a two-finger pan or a transformation move as one: at every sample they have the same
  time, and the middle between them is on the straight way from the origin to the origin moved by the delta, at its share
  of the duration.\<close>

theorem two_pointers_balanced:
  assumes "buildTransformPlan trig motion viewport profile = Inr (MultiTouchPlan intent durationMs view first second)"
    and "finitePoint (gm_origin motion) origin_name = Inr start" "finitePoint (gm_delta motion) delta_name = Inr delta"
  shows "list_all2 (midpoint_on start (addPoints start delta) durationMs) first second"
proof -
  have same: "finitePoint p a = Inr u \<Longrightarrow> finitePoint p b = Inr v \<Longrightarrow> u = v" for p a b u v
    by (auto simp: finitePoint_def finiteNumber_def rbind_Inr_iff split: js_num.splits)
  from assms(1) obtain s d r where sd: "finitePoint (gm_origin motion) (''gesture '' @ gm_name motion @ '' origin'') = Inr s"
    "finitePoint (gm_delta motion) (''gesture '' @ gm_name motion @ '' delta'') = Inr d"
    and plan: "first = pointer_trajectory trig motion s (addPoints s d) r 1 profile" "second = pointer_trajectory trig motion s (addPoints s d) r (-1) profile"
    "durationMs = gm_durationMs motion"
    by (auto simp: buildTransformPlan_def rbind_Inr_iff Let_def split: if_splits)
  have "s = start" "d = delta" using same [OF sd(1) assms(2)] same [OF sd(2) assms(3)] by auto
  then show ?thesis
    unfolding list_all2_conv_all_nth plan
    by (auto simp: trajectory_nth pointer_trajectory_def midpoint_on_def transformPointAt_def Let_def split: prod.splits)
qed

definition pinch_example :: gesture_motion where
  "pinch_example = \<lparr>gm_intent = IntentPinch, gm_name = ''pinch'', gm_origin = \<lparr>jp_x = Finite 195, jp_y = Finite 422\<rparr>,
     gm_delta = no_delta, gm_scale = 2, gm_rotationDegrees = 0, gm_durationMs = 48\<rparr>"

definition pinch_plan :: "gesture_error + gesture_plan" where
  "pinch_plan = buildTransformPlan (\<lambda>_. (1, 0)) pinch_example \<lparr>rx = 0, ry = 0, rwidth = 390, rheight = 844\<rparr> (gesturePlatformProfile None)"

theorem two_pointers_balanced_witness:
  "\<exists>intent durationMs view first second. pinch_plan = Inr (MultiTouchPlan intent durationMs view first second) \<and>
     list_all2 (midpoint_on \<lparr>px = 195, py = 422\<rparr> (addPoints \<lparr>px = 195, py = 422\<rparr> \<lparr>px = 0, py = 0\<rparr>) durationMs) first second"
proof -
  have "(case pinch_plan of Inr (MultiTouchPlan intent durationMs view first second) \<Rightarrow> True | _ \<Rightarrow> False)" by code_simp
  then obtain intent durationMs view first second where plan: "pinch_plan = Inr (MultiTouchPlan intent durationMs view first second)"
    by (auto split: sum.splits gesture_plan.splits)
  have "list_all2 (midpoint_on \<lparr>px = 195, py = 422\<rparr> (addPoints \<lparr>px = 195, py = 422\<rparr> \<lparr>px = 0, py = 0\<rparr>) durationMs) first second"
    by (rule two_pointers_balanced [OF plan [unfolded pinch_plan_def]])
      (simp_all add: pinch_example_def no_delta_def finitePoint_def finiteNumber_def)
  with plan show ?thesis by blast
qed

section \<open>Swipes keep away from the edge\<close>

lemma clamp_inside:
  assumes "16 \<le> extent"
  shows "8 \<le> clampGestureCoordinate v 8 extent \<and> clampGestureCoordinate v 8 extent \<le> js_round (extent - 8)"
proof -
  have "\<lfloor>8 + 1 / 2 :: rat\<rfloor> = 8" by (rule floor_unique) auto
  then have "js_round 8 = 8" by (simp add: js_round_def)
  moreover have "8 \<le> js_round (extent - 8)" unfolding js_round_def using assms by (simp add: le_floor_iff)
  ultimately show ?thesis by (auto simp: clampGestureCoordinate_def Let_def)
qed

lemma preset_inside:
  assumes "16 \<le> gf_width frame" "16 \<le> gf_height frame" "buildSwipePresetGesturePlan preset frame = (a, b)" "p \<in> {a, b}"
  shows "8 \<le> px p \<and> px p \<le> js_round (gf_width frame - 8) \<and> 8 \<le> py p \<and> py p \<le> js_round (gf_height frame - 8)"
  using assms(3,4) clamp_inside [OF assms(1)] clamp_inside [OF assms(2)]
  by (auto simp: buildSwipePresetGesturePlan_def buildInPageSwipeGesturePlan_def clampGesturePoint_def Let_def
      SWIPE_PRESET_EDGE_MARGIN_PX_def split: if_splits)

end
