(* ===== verification/SettleChrome.thy ===== *)
theory SettleChrome
  imports SnapshotTree AndroidSnapshot
begin

text \<open>
  The keyboard and system chrome of a snapshot (\<^verbatim>\<open>src/core/snapshot-chrome.ts\<close>) with the ownership of Android inputs
  (\<^verbatim>\<open>packages/contracts/src/android-input-ownership.ts\<close>): which nodes a settled difference and the refs of a report leave out.

  The walks along parents have no guard against cycles, so they are partial functions: \<open>None\<close> is a walk that does not end. The
  sets of indexes are lists, of which only the members matter, and the map from indexes to nodes is the list of nodes with
  its lookup. A node carries whether it was stamped as part of a system bar.
\<close>

section \<open>Ownership of Android inputs\<close>

definition KNOWN_ANDROID_IME_PACKAGES :: "string list" where
  "KNOWN_ANDROID_IME_PACKAGES =
     [''com.google.android.inputmethod.latin'', ''com.samsung.android.honeyboard'', ''com.touchtype.swiftkey'', ''com.microsoft.swiftkey'']"

datatype ownership_source = ActiveInputMethod | ActiveInputMethodResource | KnownImePackage | KnownImeResource | AppSource

definition normalizeAndroidPackageName :: "string option \<Rightarrow> string option" where
  "normalizeAndroidPackageName v =
     (let normalized = js_lower (js_trim (or_empty v)) in if normalized = [] then None else Some normalized)"

definition begins_with :: "string \<Rightarrow> string \<Rightarrow> bool" where
  "begins_with s prefix_text \<longleftrightarrow> take (length prefix_text) s = prefix_text"

definition classifyAndroidInputOwnership :: "string option \<Rightarrow> string option \<Rightarrow> string option \<Rightarrow> bool \<times> ownership_source" where
  "classifyAndroidInputOwnership packageName resourceId activeInputMethodPackage =
     (let package = normalizeAndroidPackageName packageName; resource = js_lower (or_empty resourceId);
          active = normalizeAndroidPackageName activeInputMethodPackage
      in if package \<noteq> None \<and> active \<noteq> None \<and> package = active then (True, ActiveInputMethod)
         else if active \<noteq> None \<and> begins_with resource (the active @ '':id/'') then (True, ActiveInputMethodResource)
         else if package \<noteq> None \<and> the package \<in> set KNOWN_ANDROID_IME_PACKAGES then (True, KnownImePackage)
         else if list_ex (\<lambda>known. begins_with resource (known @ '':id/'')) KNOWN_ANDROID_IME_PACKAGES then (True, KnownImeResource)
         else (False, AppSource))"

definition isAndroidInputMethodOwned :: "string option \<Rightarrow> string option \<Rightarrow> string option \<Rightarrow> bool" where
  "isAndroidInputMethodOwned packageName resourceId activeInputMethodPackage =
     fst (classifyAndroidInputOwnership packageName resourceId activeInputMethodPackage)"

definition isFallbackAndroidInputMethodPackage :: "string option \<Rightarrow> bool" where
  "isFallbackAndroidInputMethodPackage packageName =
     (case normalizeAndroidPackageName packageName of None \<Rightarrow> False | Some p \<Rightarrow> p \<in> set KNOWN_ANDROID_IME_PACKAGES)"

definition isFallbackAndroidInputMethodResource :: "string option \<Rightarrow> bool" where
  "isFallbackAndroidInputMethodResource resourceId =
     list_ex (\<lambda>known. begins_with (js_lower (or_empty resourceId)) (known @ '':id/'')) KNOWN_ANDROID_IME_PACKAGES"

datatype android_input_owner = OwnerApp | OwnerIme | OwnerUnknown

definition classifyAndroidInputOwner :: "string option \<Rightarrow> string option \<Rightarrow> string option \<Rightarrow> android_input_owner" where
  "classifyAndroidInputOwner packageName resourceId activeInputMethodPackage =
     (if or_empty packageName = [] \<and> or_empty resourceId = [] then OwnerUnknown
      else if isAndroidInputMethodOwned packageName resourceId activeInputMethodPackage then OwnerIme else OwnerApp)"

definition package_char :: "char \<Rightarrow> bool" where
  "package_char c \<longleftrightarrow> is_word_char c \<or> c = CHR ''.''"

definition parseAndroidInputMethodPackage :: "string option \<Rightarrow> string option" where
  "parseAndroidInputMethodPackage v =
     (let trimmed_text = js_trim (or_empty v) in
      if trimmed_text = [] then None
      else let packageSegment = takeWhile (\<lambda>c. c \<noteq> CHR ''/'') trimmed_text
           in normalizeAndroidPackageName (Some (takeWhile package_char (dropWhile (\<lambda>c. \<not> package_char c) packageSegment))))"

text \<open>The first value of a setting, its name in lower case; the flag is whether a word character comes before.\<close>

fun find_setting :: "string \<Rightarrow> bool \<Rightarrow> string \<Rightarrow> string option" where
  "find_setting name before [] = None"
| "find_setting name before (c # s) =
     (let v = takeWhile (\<lambda>d. \<not> is_js_space d) (drop (length name) (c # s)) in
      if \<not> before \<and> js_lower (take (length name) (c # s)) = name \<and> v \<noteq> [] then Some v
      else find_setting name (is_word_char c) s)"

definition METHOD_SETTINGS :: "string list" where
  "METHOD_SETTINGS = [''mcurmethodid='', ''mcurid='', ''mcurrentinputmethodid='', ''curmethodid='']"

definition readAndroidActiveInputMethodPackage :: "string \<Rightarrow> string option" where
  "readAndroidActiveInputMethodPackage stdout =
     first_of (List.map_filter (\<lambda>setting. parseAndroidInputMethodPackage (find_setting setting False stdout)) METHOD_SETTINGS)"

record chrome_node = snapshot_node +
  cn_systemChrome :: bool

definition isAndroidInputMethodSnapshotNode :: "chrome_node \<Rightarrow> bool" where
  "isAndroidInputMethodSnapshotNode node = fst (classifyAndroidInputOwnership (nd_bundleId node) (nd_identifier node) None)"

section \<open>Walks along parents\<close>

definition parent_of :: "chrome_node list \<Rightarrow> chrome_node \<Rightarrow> chrome_node option" where
  "parent_of nodes node = (case nd_parentIndex node of None \<Rightarrow> None | Some p \<Rightarrow> node_at_index nodes p)"

text \<open>The loop of every walk: from a node upwards to the first that gives a result.\<close>

partial_function (option) walk_up :: "chrome_node list \<Rightarrow> (chrome_node \<Rightarrow> 'r option) \<Rightarrow> chrome_node option \<Rightarrow> 'r option option" where
  "walk_up nodes f current =
     (case current of
        None \<Rightarrow> Some None
      | Some node \<Rightarrow>
          (case f node of
             Some r \<Rightarrow> Some (Some r)
           | None \<Rightarrow> walk_up nodes f (parent_of nodes node)))"

partial_function (option) walk_all :: "chrome_node list \<Rightarrow> chrome_node option \<Rightarrow> int list option" where
  "walk_all nodes current =
     (case current of
        None \<Rightarrow> Some []
      | Some node \<Rightarrow> Option.bind (walk_all nodes (parent_of nodes node)) (\<lambda>is. Some (nd_index node # is)))"

definition node_kind :: "chrome_node \<Rightarrow> string" where
  "node_kind node = normalizeType (or_empty (nd_type node))"

definition findNearestWindowAncestor :: "chrome_node \<Rightarrow> chrome_node list \<Rightarrow> int option option" where
  "findNearestWindowAncestor node nodes =
     walk_up nodes (\<lambda>current. if node_kind current = ''window'' then Some (nd_index current) else None) (parent_of nodes node)"

definition hasAncestorIn :: "chrome_node \<Rightarrow> chrome_node list \<Rightarrow> int list \<Rightarrow> bool option" where
  "hasAncestorIn node nodes ancestorIndexes =
     map_option (\<lambda>found. found \<noteq> None)
       (walk_up nodes (\<lambda>current. if nd_index current \<in> set ancestorIndexes then Some () else None) (parent_of nodes node))"

text \<open>Loops over a list whose test may not end.\<close>

fun filter_walk :: "('a \<Rightarrow> bool option) \<Rightarrow> 'a list \<Rightarrow> 'a list option" where
  "filter_walk p [] = Some []"
| "filter_walk p (x # xs) =
     (case p x of None \<Rightarrow> None | Some b \<Rightarrow> map_option (\<lambda>ys. if b then x # ys else ys) (filter_walk p xs))"

fun some_walk :: "('a \<Rightarrow> bool option) \<Rightarrow> 'a list \<Rightarrow> bool option" where
  "some_walk p [] = Some False"
| "some_walk p (x # xs) = (case p x of None \<Rightarrow> None | Some True \<Rightarrow> Some True | Some False \<Rightarrow> some_walk p xs)"

fun map_walk :: "('a \<Rightarrow> 'b option) \<Rightarrow> 'a list \<Rightarrow> 'b list option" where
  "map_walk f [] = Some []"
| "map_walk f (x # xs) = (case f x of None \<Rightarrow> None | Some y \<Rightarrow> map_option (Cons y) (map_walk f xs))"

section \<open>The keyboard\<close>

definition EDITABLE_TEXT_TYPES :: "string list" where
  "EDITABLE_TEXT_TYPES = [''textfield'', ''securetextfield'', ''textview'', ''textarea'', ''searchfield'', ''edittext'']"

definition collectSubtreeIndexes :: "chrome_node list \<Rightarrow> int list \<Rightarrow> int list option" where
  "collectSubtreeIndexes nodes rootIndexes =
     (if rootIndexes = [] then Some []
      else map_option (\<lambda>inside. rootIndexes @ map nd_index inside) (filter_walk (\<lambda>node. hasAncestorIn node nodes rootIndexes) nodes))"

definition editable_outside :: "chrome_node list \<Rightarrow> int list \<Rightarrow> int \<Rightarrow> chrome_node \<Rightarrow> bool option" where
  "editable_outside nodes containerChromeIndexes windowIndex node =
     (if node_kind node \<in> set EDITABLE_TEXT_TYPES \<and> nd_index node \<notin> set containerChromeIndexes
      then hasAncestorIn node nodes [windowIndex] else Some False)"

definition keyboard_windows :: "chrome_node list \<Rightarrow> int list \<Rightarrow> int list option" where
  "keyboard_windows nodes containerChromeIndexes =
     map_option (\<lambda>found. List.map_filter id found)
       (map_walk (\<lambda>i. case node_at_index nodes i of
             None \<Rightarrow> Some None
           | Some node \<Rightarrow> if node_kind node \<noteq> ''keyboard'' then Some None else findNearestWindowAncestor node nodes)
          containerChromeIndexes)"

definition resolveKeyboardWindowIndexes :: "chrome_node list \<Rightarrow> int list \<Rightarrow> int list option" where
  "resolveKeyboardWindowIndexes nodes containerChromeIndexes =
     Option.bind (keyboard_windows nodes containerChromeIndexes)
       (filter_walk (\<lambda>windowIndex. map_option Not (some_walk (editable_outside nodes containerChromeIndexes windowIndex) nodes)))"

text \<open>The top edge of the keyboards of each window, as pairs.\<close>

definition lower_top :: "int \<Rightarrow> rat \<Rightarrow> (int \<times> rat) list \<Rightarrow> (int \<times> rat) list" where
  "lower_top window y tops =
     (case map_of tops window of
        None \<Rightarrow> tops @ [(window, y)]
      | Some currentTop \<Rightarrow> if y < currentTop then map (\<lambda>(w, t). if w = window then (w, y) else (w, t)) tops else tops)"

fun keyboard_tops_loop :: "chrome_node list \<Rightarrow> int list \<Rightarrow> (int \<times> rat) list \<Rightarrow> int list \<Rightarrow> (int \<times> rat) list option" where
  "keyboard_tops_loop nodes windowIndexes tops [] = Some tops"
| "keyboard_tops_loop nodes windowIndexes tops (i # rest) =
     (case Option.bind (node_at_index nodes i) (\<lambda>container. map_option (Pair container) (nd_rect container)) of
        None \<Rightarrow> keyboard_tops_loop nodes windowIndexes tops rest
      | Some (container, r) \<Rightarrow>
          (case findNearestWindowAncestor container nodes of
             None \<Rightarrow> None
           | Some None \<Rightarrow> keyboard_tops_loop nodes windowIndexes tops rest
           | Some (Some window) \<Rightarrow>
               if window \<notin> set windowIndexes then keyboard_tops_loop nodes windowIndexes tops rest
               else keyboard_tops_loop nodes windowIndexes (lower_top window (ry r) tops) rest))"

definition collectKeyboardTopByWindow :: "chrome_node list \<Rightarrow> int list \<Rightarrow> int list \<Rightarrow> (int \<times> rat) list option" where
  "collectKeyboardTopByWindow nodes windowIndexes containerIndexes = keyboard_tops_loop nodes windowIndexes [] containerIndexes"

definition isAboveKeyboard :: "chrome_node \<Rightarrow> chrome_node list \<Rightarrow> (int \<times> rat) list \<Rightarrow> bool option" where
  "isAboveKeyboard node nodes tops =
     (case nd_rect node of
        None \<Rightarrow> Some False
      | Some r \<Rightarrow>
          map_option (\<lambda>window. case window of
              None \<Rightarrow> False
            | Some w \<Rightarrow> (case map_of tops w of None \<Rightarrow> False | Some keyboardTop \<Rightarrow> ry r + rheight r / 2 < keyboardTop))
            (findNearestWindowAncestor node nodes))"

definition collectContainerAncestorIndexes :: "chrome_node list \<Rightarrow> int list \<Rightarrow> int list option" where
  "collectContainerAncestorIndexes nodes containerIndexes =
     map_option concat (map_walk (\<lambda>i. walk_all nodes (Option.bind (node_at_index nodes i) (parent_of nodes))) containerIndexes)"

definition collectKeyboardAccessoryIndexes :: "chrome_node list \<Rightarrow> int list \<Rightarrow> int list \<Rightarrow> int list \<Rightarrow> int list option" where
  "collectKeyboardAccessoryIndexes nodes windowIndexes containerIndexes containerSubtreeIndexes =
     (if windowIndexes = [] then Some []
      else Option.bind (collectKeyboardTopByWindow nodes windowIndexes containerIndexes) (\<lambda>tops.
        if tops = [] then Some []
        else Option.bind (collectContainerAncestorIndexes nodes containerIndexes) (\<lambda>spine.
          map_option (map nd_index) (filter_walk (\<lambda>node.
            if nd_index node \<notin> set containerSubtreeIndexes \<and> nd_index node \<notin> set spine \<and> nd_rect node \<noteq> None
            then isAboveKeyboard node nodes tops else Some False) nodes))))"

record settle_chrome =
  sc_strippedIndexes :: "int list"
  sc_refs :: "string list"

definition EMPTY_SETTLE_CHROME :: settle_chrome where
  "EMPTY_SETTLE_CHROME = \<lparr>sc_strippedIndexes = [], sc_refs = []\<rparr>"

definition chrome_refs :: "(chrome_node \<Rightarrow> bool) \<Rightarrow> chrome_node list \<Rightarrow> string list" where
  "chrome_refs p nodes = map nd_ref (filter (\<lambda>node. nd_ref node \<noteq> [] \<and> p node) nodes)"

definition keyboard_containers :: "chrome_node list \<Rightarrow> int list" where
  "keyboard_containers nodes = map nd_index (filter (\<lambda>node. node_kind node = ''keyboard'') nodes)"

definition collectKeyboardChrome :: "chrome_node list \<Rightarrow> settle_chrome option" where
  "collectKeyboardChrome nodes =
     (let containerIndexes = keyboard_containers nodes in
      if containerIndexes = [] then Some EMPTY_SETTLE_CHROME
      else Option.bind (collectSubtreeIndexes nodes containerIndexes) (\<lambda>containerSubtreeIndexes.
           Option.bind (resolveKeyboardWindowIndexes nodes containerSubtreeIndexes) (\<lambda>windowIndexes.
           Option.bind (collectSubtreeIndexes nodes windowIndexes) (\<lambda>windowSubtreeIndexes.
           Option.bind (collectKeyboardAccessoryIndexes nodes windowIndexes containerIndexes containerSubtreeIndexes) (\<lambda>accessories.
             let chromeIndexes = filter (\<lambda>i. i \<notin> set accessories) (containerSubtreeIndexes @ windowSubtreeIndexes)
             in Some \<lparr>sc_strippedIndexes = filter (\<lambda>i. i \<notin> set containerIndexes) chromeIndexes,
                      sc_refs = chrome_refs (\<lambda>node. nd_index node \<in> set chromeIndexes) nodes\<rparr>)))))"

section \<open>Android\<close>

text \<open>This walk remembers what it has seen.\<close>

function system_chrome_walk :: "chrome_node list \<Rightarrow> int list \<Rightarrow> chrome_node option \<Rightarrow> bool" where
  "system_chrome_walk nodes seen current =
     (case current of
        None \<Rightarrow> False
      | Some node \<Rightarrow>
          if nd_bundleId node \<noteq> Some ANDROID_SYSTEM_CHROME_PACKAGE \<or> nd_index node \<in> set seen then False
          else if isAndroidSystemChromeWindowResourceId (nd_identifier node) then True
          else system_chrome_walk nodes (nd_index node # seen) (parent_of nodes node))"
  by pat_completeness auto
termination
proof (relation "measure (\<lambda>(nodes, seen, current). unvisited nodes seen +
    (case current of None \<Rightarrow> 0 | Some n \<Rightarrow> if n \<in> set nodes then 0 else 1))", goal_cases)
  case 1
  then show ?case by simp
next
  case (2 nodes seen current node)
  have up: "parent_of nodes node = Some q \<Longrightarrow> q \<in> set nodes" for q
    using node_at_index_mem [of nodes _ q] by (auto simp: parent_of_def split: option.splits)
  show ?case
    using 2 up unvisited_less [of node nodes seen] unvisited_le [of nodes "nd_index node" seen]
    by (auto split: option.splits)
qed

declare system_chrome_walk.simps [simp del]

definition isAndroidSystemChromeNode :: "chrome_node \<Rightarrow> chrome_node list \<Rightarrow> bool" where
  "isAndroidSystemChromeNode node nodes =
     (if nd_bundleId node \<noteq> Some ANDROID_SYSTEM_CHROME_PACKAGE then False
      else if cn_systemChrome node then True else system_chrome_walk nodes [] (Some node))"

definition collectAndroidSystemChromeIndexes :: "chrome_node list \<Rightarrow> int list \<Rightarrow> int list" where
  "collectAndroidSystemChromeIndexes nodes imeIndexes =
     map nd_index (filter (\<lambda>node. nd_index node \<notin> set imeIndexes \<and> isAndroidSystemChromeNode node nodes) nodes)"

definition collectAndroidSettleChrome :: "chrome_node list \<Rightarrow> string option \<Rightarrow> settle_chrome" where
  "collectAndroidSettleChrome nodes appBundleId =
     (let imeIndexes = map nd_index (filter isAndroidInputMethodSnapshotNode nodes);
          imeContainerIndexes = filter (\<lambda>i. case Option.bind (node_at_index nodes i) (parent_of nodes) of
              None \<Rightarrow> True | Some parent \<Rightarrow> nd_index parent \<notin> set imeIndexes) imeIndexes;
          systemChromeIndexes = (if appBundleId = Some ANDROID_SYSTEM_CHROME_PACKAGE then []
            else collectAndroidSystemChromeIndexes nodes imeIndexes);
          strippedIndexes = filter (\<lambda>i. i \<notin> set imeContainerIndexes) imeIndexes @ systemChromeIndexes;
          refs = chrome_refs (\<lambda>node. nd_index node \<in> set imeIndexes \<or> nd_index node \<in> set systemChromeIndexes) nodes
      in if strippedIndexes = [] \<and> refs = [] then EMPTY_SETTLE_CHROME else \<lparr>sc_strippedIndexes = strippedIndexes, sc_refs = refs\<rparr>)"

section \<open>Both\<close>

definition collectSettleChrome :: "chrome_node list \<Rightarrow> string option \<Rightarrow> settle_chrome option" where
  "collectSettleChrome nodes appBundleId =
     map_option (\<lambda>keyboard. let android = collectAndroidSettleChrome nodes appBundleId
       in if sc_strippedIndexes keyboard = [] \<and> sc_refs keyboard = [] then android
          else if sc_strippedIndexes android = [] \<and> sc_refs android = [] then keyboard
          else \<lparr>sc_strippedIndexes = sc_strippedIndexes keyboard @ sc_strippedIndexes android,
                sc_refs = sc_refs keyboard @ sc_refs android\<rparr>) (collectKeyboardChrome nodes)"

definition withoutSettleChrome :: "chrome_node list \<Rightarrow> string option \<Rightarrow> chrome_node list option" where
  "withoutSettleChrome nodes appBundleId =
     map_option (\<lambda>chrome. if sc_strippedIndexes chrome = [] then nodes
       else filter (\<lambda>node. nd_index node \<notin> set (sc_strippedIndexes chrome)) nodes) (collectSettleChrome nodes appBundleId)"

definition collectSettleChromeRefs :: "chrome_node list \<Rightarrow> string option \<Rightarrow> string list option" where
  "collectSettleChromeRefs nodes appBundleId = map_option sc_refs (collectSettleChrome nodes appBundleId)"

section \<open>The walks return\<close>

text \<open>Trees whose parents come before their children, as normalization leaves them.\<close>

definition parents_below :: "chrome_node list \<Rightarrow> bool" where
  "parents_below nodes \<longleftrightarrow> list_all (\<lambda>n. case nd_parentIndex n of None \<Rightarrow> True | Some p \<Rightarrow> p < nd_index n) nodes"

lemma parent_of_mem: "parent_of nodes n = Some q \<Longrightarrow> q \<in> set nodes"
  using node_at_index_mem [of nodes _ q] by (auto simp: parent_of_def split: option.splits)

lemma parent_of_less: "parents_below nodes \<Longrightarrow> n \<in> set nodes \<Longrightarrow> parent_of nodes n = Some q \<Longrightarrow> nd_index q < nd_index n"
  using node_at_index_mem [of nodes _ q] by (fastforce simp: parents_below_def list_all_iff parent_of_def split: option.splits)

definition nodes_below :: "chrome_node list \<Rightarrow> chrome_node \<Rightarrow> nat" where
  "nodes_below nodes n = length (filter (\<lambda>m. nd_index m < nd_index n) nodes)"

lemma nodes_below_less: "nd_index q < nd_index n \<Longrightarrow> q \<in> set nodes \<Longrightarrow> nodes_below nodes q < nodes_below nodes n"
  unfolding nodes_below_def
proof (induction nodes)
  case (Cons m nodes)
  have le: "length (filter (\<lambda>m. nd_index m < nd_index q) nodes) \<le> length (filter (\<lambda>m. nd_index m < nd_index n) nodes)"
    using Cons.prems(1) by (induction nodes) auto
  show ?case
  proof (cases "m = q")
    case True
    with Cons.prems(1) le show ?thesis by simp
  next
    case False
    with Cons show ?thesis by auto
  qed
qed simp

lemma walk_up_total:
  assumes "parents_below nodes" "n \<in> set nodes"
  shows "walk_up nodes f (Some n) \<noteq> None"
  using assms(2)
proof (induction n rule: measure_induct_rule [of "nodes_below nodes"])
  case (less n)
  show ?case
  proof (cases "parent_of nodes n")
    case None
    then show ?thesis by (simp add: walk_up.simps [of nodes f "Some n"] walk_up.simps [of nodes f None] split: option.splits)
  next
    case (Some q)
    with less.IH [OF nodes_below_less [OF parent_of_less [OF assms(1) less.prems Some] parent_of_mem [OF Some]] parent_of_mem [OF Some]]
    show ?thesis by (simp add: walk_up.simps [of nodes f "Some n"] split: option.splits)
  qed
qed

lemma walk_all_total:
  assumes "parents_below nodes" "n \<in> set nodes"
  shows "walk_all nodes (Some n) \<noteq> None"
  using assms(2)
proof (induction n rule: measure_induct_rule [of "nodes_below nodes"])
  case (less n)
  show ?case
  proof (cases "parent_of nodes n")
    case None
    then show ?thesis by (simp add: walk_all.simps [of nodes "Some n"] walk_all.simps [of nodes None])
  next
    case (Some q)
    with less.IH [OF nodes_below_less [OF parent_of_less [OF assms(1) less.prems Some] parent_of_mem [OF Some]] parent_of_mem [OF Some]]
    show ?thesis by (auto simp: walk_all.simps [of nodes "Some n"])
  qed
qed

lemma walk_parent_total: "parents_below nodes \<Longrightarrow> walk_up nodes f (parent_of nodes n) \<noteq> None"
  using walk_up_total [of nodes _ f] parent_of_mem [of nodes n]
  by (cases "parent_of nodes n") (auto simp: walk_up.simps [of nodes f None])

lemma hasAncestorIn_total: "parents_below nodes \<Longrightarrow> hasAncestorIn n nodes is \<noteq> None"
  using walk_parent_total by (auto simp: hasAncestorIn_def)

lemma window_ancestor_total: "parents_below nodes \<Longrightarrow> findNearestWindowAncestor n nodes \<noteq> None"
  using walk_parent_total by (auto simp: findNearestWindowAncestor_def)

lemma window_ancestor_None: "findNearestWindowAncestor n nodes = None \<Longrightarrow> \<not> parents_below nodes"
  using window_ancestor_total by blast

lemma filter_walk_total: "(\<And>x. p x \<noteq> None) \<Longrightarrow> filter_walk p xs \<noteq> None"
  by (induction xs) (auto split: option.splits)

lemma some_walk_total: "(\<And>x. p x \<noteq> None) \<Longrightarrow> some_walk p xs \<noteq> None"
  by (induction xs) (auto split: option.splits bool.splits)

lemma map_walk_total: "(\<And>x. f x \<noteq> None) \<Longrightarrow> map_walk f xs \<noteq> None"
  by (induction xs) (auto split: option.splits)

lemma subtree_total: "parents_below nodes \<Longrightarrow> collectSubtreeIndexes nodes roots \<noteq> None"
  using filter_walk_total [of "\<lambda>node. hasAncestorIn node nodes roots" nodes, OF hasAncestorIn_total] by (auto simp: collectSubtreeIndexes_def)

lemma keyboard_windows_total: "parents_below nodes \<Longrightarrow> keyboard_windows nodes is \<noteq> None"
  unfolding keyboard_windows_def option.map_disc_iff
  by (rule map_walk_total) (auto dest: window_ancestor_total split: option.splits)

lemma windows_total: "parents_below nodes \<Longrightarrow> resolveKeyboardWindowIndexes nodes is \<noteq> None"
proof -
  assume below: "parents_below nodes"
  have "editable_outside nodes is w n \<noteq> None" for w n
    using hasAncestorIn_total [OF below, of n "[w]"] by (auto simp: editable_outside_def)
  then have "filter_walk (\<lambda>w. map_option Not (some_walk (editable_outside nodes is w) nodes)) ws \<noteq> None" for ws
    by (intro filter_walk_total) (simp add: some_walk_total del: not_None_eq)
  then show ?thesis using keyboard_windows_total [OF below, of "is"] by (auto simp: resolveKeyboardWindowIndexes_def)
qed

lemma tops_total: "parents_below nodes \<Longrightarrow> keyboard_tops_loop nodes ws tops is \<noteq> None"
  by (induction nodes ws tops "is" rule: keyboard_tops_loop.induct) (auto dest: window_ancestor_None split: option.splits)

lemma spine_total: "parents_below nodes \<Longrightarrow> collectContainerAncestorIndexes nodes is \<noteq> None"
  unfolding collectContainerAncestorIndexes_def option.map_disc_iff
proof (rule map_walk_total)
  fix i assume below: "parents_below nodes"
  show "walk_all nodes (Option.bind (node_at_index nodes i) (parent_of nodes)) \<noteq> None"
    using walk_all_total [OF below] parent_of_mem
    by (cases "Option.bind (node_at_index nodes i) (parent_of nodes)") (auto simp: walk_all.simps [of nodes None] bind_eq_Some_conv)
qed

lemma accessories_total: "parents_below nodes \<Longrightarrow> collectKeyboardAccessoryIndexes nodes ws cs is \<noteq> None"
proof -
  assume below: "parents_below nodes"
  obtain tops spine where ts: "collectKeyboardTopByWindow nodes ws cs = Some tops" "collectContainerAncestorIndexes nodes cs = Some spine"
    using tops_total [OF below] spine_total [OF below] by (fastforce simp: collectKeyboardTopByWindow_def)
  have above: "isAboveKeyboard n nodes tops \<noteq> None" for n
    using window_ancestor_total [OF below] by (auto simp: isAboveKeyboard_def split: option.splits)
  have "filter_walk (\<lambda>node. if nd_index node \<notin> set is \<and> nd_index node \<notin> set spine \<and> nd_rect node \<noteq> None
      then isAboveKeyboard node nodes tops else Some False) nodes \<noteq> None"
    by (rule filter_walk_total) (simp add: above del: not_None_eq)
  with ts show ?thesis by (auto simp: collectKeyboardAccessoryIndexes_def)
qed

lemma keyboard_chrome_total: "parents_below nodes \<Longrightarrow> collectKeyboardChrome nodes \<noteq> None"
proof -
  assume below: "parents_below nodes"
  obtain sub where sub: "collectSubtreeIndexes nodes (keyboard_containers nodes) = Some sub" using subtree_total [OF below] by blast
  obtain ws where ws: "resolveKeyboardWindowIndexes nodes sub = Some ws" using windows_total [OF below] by blast
  obtain wsub where wsub: "collectSubtreeIndexes nodes ws = Some wsub" using subtree_total [OF below] by blast
  show ?thesis
    using accessories_total [OF below, of ws "keyboard_containers nodes" sub] by (auto simp: collectKeyboardChrome_def Let_def sub ws wsub)
qed

text \<open>C12. On a tree whose parents come before their children the classification of keyboard and system chrome returns: every walk
  along parents ends, although the walks themselves have no guard.\<close>

theorem settle_chrome_returns:
  assumes "parents_below nodes"
  shows "\<exists>kept. withoutSettleChrome nodes appBundleId = Some kept"
  using keyboard_chrome_total [OF assms] by (auto simp: withoutSettleChrome_def collectSettleChrome_def)

definition chrome_example_node :: "int \<Rightarrow> int option \<Rightarrow> string \<Rightarrow> chrome_node" where
  "chrome_example_node i p t = raw_node.extend (blank_node\<lparr>nd_index := i, nd_parentIndex := p, nd_type := Some t\<rparr>)
     \<lparr>nd_ref = ''e1'', nd_inheritsLabel = False, nd_inheritsIdentifier = False, cn_systemChrome = False\<rparr>"

text \<open>A keyboard window that hosts a text field beside the keyboard.\<close>

definition keyboard_example :: "chrome_node list" where
  "keyboard_example =
     [chrome_example_node 0 None ''Window'', chrome_example_node 1 (Some 0) ''TextField'', chrome_example_node 2 (Some 0) ''Keyboard'',
      chrome_example_node 3 (Some 2) ''Key'']"

lemma chrome_example_fields [simp]:
  "nd_index (chrome_example_node i p t) = i" "nd_parentIndex (chrome_example_node i p t) = p" "nd_type (chrome_example_node i p t) = Some t"
  "nd_bundleId (chrome_example_node i p t) = None" "nd_identifier (chrome_example_node i p t) = None"
  "nd_rect (chrome_example_node i p t) = None"
  by (simp_all add: chrome_example_node_def raw_node.defs blank_node_def)

lemma keyboard_example_below: "parents_below keyboard_example"
  by (simp add: parents_below_def keyboard_example_def)

theorem settle_chrome_returns_witness: "\<exists>kept. withoutSettleChrome keyboard_example None = Some kept"
  by (rule settle_chrome_returns [OF keyboard_example_below])

section \<open>The field the user types into stays\<close>

lemma walk_up_finds:
  fixes f :: "chrome_node \<Rightarrow> 'a option"
  assumes "walk_up nodes f c = Some y"
  shows "y = Some r \<longrightarrow> (\<exists>n. f n = Some r \<and> (c = Some n \<or> n \<in> set nodes) \<and>
    (\<forall>g :: chrome_node \<Rightarrow> 'a option. (\<forall>m. f m = None \<longrightarrow> g m = None) \<and> g n \<noteq> None \<longrightarrow> walk_up nodes g c = Some (g n)))"
proof (rule walk_up.raw_induct [OF _ assms])
  fix walk nodes and f :: "chrome_node \<Rightarrow> 'a option" and current y
  assume IH: "\<And>nodes (f :: chrome_node \<Rightarrow> 'a option) current y. walk nodes f current = Some y \<Longrightarrow> y = Some r \<longrightarrow>
      (\<exists>n. f n = Some r \<and> (current = Some n \<or> n \<in> set nodes) \<and>
         (\<forall>g :: chrome_node \<Rightarrow> 'a option. (\<forall>m. f m = None \<longrightarrow> g m = None) \<and> g n \<noteq> None \<longrightarrow> walk_up nodes g current = Some (g n)))"
    and step: "(case current of None \<Rightarrow> Some None
      | Some node \<Rightarrow> (case f node of Some r \<Rightarrow> Some (Some r) | None \<Rightarrow> walk nodes f (parent_of nodes node))) = Some y"
  show "y = Some r \<longrightarrow> (\<exists>n. f n = Some r \<and> (current = Some n \<or> n \<in> set nodes) \<and>
         (\<forall>g :: chrome_node \<Rightarrow> 'a option. (\<forall>m. f m = None \<longrightarrow> g m = None) \<and> g n \<noteq> None \<longrightarrow> walk_up nodes g current = Some (g n)))"
  proof
    assume y: "y = Some r"
    with step obtain node where node: "current = Some node" by (cases current) auto
    show "\<exists>n. f n = Some r \<and> (current = Some n \<or> n \<in> set nodes) \<and>
         (\<forall>g :: chrome_node \<Rightarrow> 'a option. (\<forall>m. f m = None \<longrightarrow> g m = None) \<and> g n \<noteq> None \<longrightarrow> walk_up nodes g current = Some (g n))"
    proof (cases "f node")
      case (Some r')
      with step node y show ?thesis by (auto simp: walk_up.simps [of nodes _ "Some node"])
    next
      case None
      with step node have "walk nodes f (parent_of nodes node) = Some y" by simp
      from IH [OF this] y obtain n where "f n = Some r" "parent_of nodes node = Some n \<or> n \<in> set nodes"
        "\<forall>g :: chrome_node \<Rightarrow> 'a option. (\<forall>m. f m = None \<longrightarrow> g m = None) \<and> g n \<noteq> None \<longrightarrow> walk_up nodes g (parent_of nodes node) = Some (g n)" by blast
      note n = this
      have "walk_up nodes g current = Some (g n)" if g: "\<forall>m. f m = None \<longrightarrow> g m = None" "g n \<noteq> None" for g :: "chrome_node \<Rightarrow> 'a option"
        unfolding node using g(1) None n(3) g by (subst walk_up.simps) simp
      moreover have "n \<in> set nodes" using n(2) parent_of_mem by blast
      ultimately show ?thesis using n(1) by blast
    qed
  qed
qed

lemma ancestor_in_one:
  assumes "hasAncestorIn node nodes ws = Some True"
  shows "\<exists>w \<in> set ws. hasAncestorIn node nodes [w] = Some True"
proof -
  from assms have "walk_up nodes (\<lambda>current. if nd_index current \<in> set ws then Some () else None) (parent_of nodes node) = Some (Some ())"
    by (auto simp: hasAncestorIn_def)
  from walk_up_finds [OF this, of "()"] obtain n where n: "nd_index n \<in> set ws"
    and g: "\<forall>g :: chrome_node \<Rightarrow> unit option. (\<forall>m. (if nd_index m \<in> set ws then Some () else None) = None \<longrightarrow> g m = None) \<and> g n \<noteq> None \<longrightarrow>
       walk_up nodes g (parent_of nodes node) = Some (g n)"
    by (metis option.distinct(1))
  have "walk_up nodes (\<lambda>current. if nd_index current \<in> set [nd_index n] then Some () else None) (parent_of nodes node) =
      Some (if nd_index n \<in> set [nd_index n] then Some () else None)"
    by (rule mp [OF spec [OF g]]) (use n in auto)
  then show ?thesis using n by (intro bexI [of _ "nd_index n"]) (simp_all add: hasAncestorIn_def)
qed

lemma window_ancestor_kind:
  assumes "findNearestWindowAncestor node nodes = Some (Some w)"
  shows "\<exists>n \<in> set nodes. nd_index n = w \<and> node_kind n = ''window''"
proof -
  note walk_up_finds [OF assms [unfolded findNearestWindowAncestor_def], of w]
  then show ?thesis by (auto split: if_splits dest: parent_of_mem)
qed

lemma filter_walk_mem: "filter_walk p xs = Some ys \<Longrightarrow> x \<in> set ys \<longleftrightarrow> x \<in> set xs \<and> p x = Some True"
  by (induction xs arbitrary: ys) (auto split: option.splits bool.splits if_splits)

lemma some_walk_False: "some_walk p xs = Some False \<Longrightarrow> x \<in> set xs \<Longrightarrow> p x = Some False"
  by (induction xs) (auto split: option.splits bool.splits)

lemma map_walk_mem: "map_walk f xs = Some ys \<Longrightarrow> y \<in> set ys \<Longrightarrow> \<exists>x \<in> set xs. f x = Some y"
  by (induction xs arbitrary: ys) (auto split: option.splits)

lemma map_filter_id_mem: "x \<in> set (List.map_filter id ys) \<longleftrightarrow> Some x \<in> set ys"
  by (force simp: List.map_filter_def image_iff)

lemma keyboard_window_kind:
  assumes "keyboard_windows nodes is = Some ws" "w \<in> set ws"
  shows "\<exists>n \<in> set nodes. nd_index n = w \<and> node_kind n = ''window''"
  using assms
  by (auto simp: keyboard_windows_def map_filter_id_mem split: option.splits if_splits dest!: map_walk_mem window_ancestor_kind)

lemma windowD:
  assumes "resolveKeyboardWindowIndexes nodes is = Some ws" "w \<in> set ws"
  shows "\<exists>n \<in> set nodes. nd_index n = w \<and> node_kind n = ''window''"
    and "n \<in> set nodes \<Longrightarrow> editable_outside nodes is w n = Some False"
proof -
  from assms(1) obtain us where us: "keyboard_windows nodes is = Some us"
    and f: "filter_walk (\<lambda>w. map_option Not (some_walk (editable_outside nodes is w) nodes)) us = Some ws"
    by (auto simp: resolveKeyboardWindowIndexes_def bind_eq_Some_conv)
  have w: "w \<in> set us" "some_walk (editable_outside nodes is w) nodes = Some False"
    using filter_walk_mem [OF f, of w] assms(2) by auto
  show "\<exists>n \<in> set nodes. nd_index n = w \<and> node_kind n = ''window''" by (rule keyboard_window_kind [OF us w(1)])
  show "n \<in> set nodes \<Longrightarrow> editable_outside nodes is w n = Some False" by (rule some_walk_False [OF w(2)])
qed

lemma subtree_mem:
  assumes "collectSubtreeIndexes nodes roots = Some sub" "i \<in> set sub"
  shows "i \<in> set roots \<or> (\<exists>n \<in> set nodes. nd_index n = i \<and> hasAncestorIn n nodes roots = Some True)"
  using assms by (auto simp: collectSubtreeIndexes_def filter_walk_mem split: if_splits)

lemma same_index: "distinct (map nd_index nodes) \<Longrightarrow> n \<in> set nodes \<Longrightarrow> m \<in> set nodes \<Longrightarrow> nd_index n = nd_index m \<Longrightarrow> n = m"
  by (auto simp: distinct_map inj_on_def)

text \<open>An editable text outside every keyboard, of the app and not of the keyboard process or the system bars.\<close>

definition app_text_field :: "chrome_node list \<Rightarrow> chrome_node \<Rightarrow> bool" where
  "app_text_field nodes node \<longleftrightarrow> node_kind node \<in> set EDITABLE_TEXT_TYPES \<and> hasAncestorIn node nodes (keyboard_containers nodes) = Some False \<and>
     \<not> isAndroidInputMethodSnapshotNode node \<and> \<not> isAndroidSystemChromeNode node nodes"

lemma keyboard_chrome_keeps_field:
  assumes "collectKeyboardChrome nodes = Some chrome" "distinct (map nd_index nodes)" "node \<in> set nodes" "app_text_field nodes node"
  shows "nd_index node \<notin> set (sc_strippedIndexes chrome)"
proof (cases "keyboard_containers nodes = []")
  case True
  with assms(1) show ?thesis by (auto simp: collectKeyboardChrome_def EMPTY_SETTLE_CHROME_def)
next
  case False
  note field = assms(4) [unfolded app_text_field_def]
  from assms(1) False obtain sub ws wsub acc where sub: "collectSubtreeIndexes nodes (keyboard_containers nodes) = Some sub"
    and ws: "resolveKeyboardWindowIndexes nodes sub = Some ws" and wsub: "collectSubtreeIndexes nodes ws = Some wsub"
    and "collectKeyboardAccessoryIndexes nodes ws (keyboard_containers nodes) sub = Some acc"
    and chrome: "sc_strippedIndexes chrome =
      filter (\<lambda>i. i \<notin> set (keyboard_containers nodes)) (filter (\<lambda>i. i \<notin> set acc) (sub @ wsub))"
    by (auto simp: collectKeyboardChrome_def Let_def bind_eq_Some_conv)
  have strip: "set (sc_strippedIndexes chrome) \<subseteq> set sub \<union> set wsub" unfolding chrome by auto
  have kinds: "node_kind node \<noteq> ''window''" "node_kind node \<noteq> ''keyboard''" using field by (auto simp: EDITABLE_TEXT_TYPES_def)
  have here: "n = node" if "n \<in> set nodes" "nd_index n = nd_index node" for n
    using same_index [OF assms(2) that(1) assms(3) that(2)] .
  have out: "nd_index node \<notin> set sub"
  proof
    assume "nd_index node \<in> set sub"
    with subtree_mem [OF sub] here field kinds(2) show False by (fastforce simp: keyboard_containers_def)
  qed
  have "nd_index node \<notin> set wsub"
  proof
    assume "nd_index node \<in> set wsub"
    from subtree_mem [OF wsub this] show False
    proof
      assume "nd_index node \<in> set ws"
      from windowD(1) [OF ws this] here kinds(1) show False by auto
    next
      assume "\<exists>n \<in> set nodes. nd_index n = nd_index node \<and> hasAncestorIn n nodes ws = Some True"
      with here have "hasAncestorIn node nodes ws = Some True" by auto
      from ancestor_in_one [OF this] obtain w where "w \<in> set ws" "hasAncestorIn node nodes [w] = Some True" by blast
      with windowD(2) [OF ws _ assms(3)] field out show False by (fastforce simp: editable_outside_def)
    qed
  qed
  with out strip show ?thesis by blast
qed

lemma android_chrome_keeps_field:
  assumes "distinct (map nd_index nodes)" "node \<in> set nodes" "app_text_field nodes node"
  shows "nd_index node \<notin> set (sc_strippedIndexes (collectAndroidSettleChrome nodes appBundleId))"
  using assms(3) same_index [OF assms(1) _ assms(2)]
  by (auto simp: collectAndroidSettleChrome_def collectAndroidSystemChromeIndexes_def app_text_field_def EMPTY_SETTLE_CHROME_def Let_def)

text \<open>C11. The field the user types into is never hidden with the keyboard: an editable text outside every keyboard, of the app and not of
  the keyboard process or the system bars, is kept, also when it is in the window of the keyboard.\<close>

theorem typed_field_stays:
  assumes "withoutSettleChrome nodes appBundleId = Some kept" "distinct (map nd_index nodes)" "node \<in> set nodes" "app_text_field nodes node"
  shows "node \<in> set kept"
proof -
  from assms(1) obtain keyboard where k: "collectKeyboardChrome nodes = Some keyboard"
    by (auto simp: withoutSettleChrome_def collectSettleChrome_def)
  show ?thesis
    using assms(1,3) keyboard_chrome_keeps_field [OF k assms(2-4)] android_chrome_keeps_field [OF assms(2-4), of appBundleId]
    by (auto simp: withoutSettleChrome_def collectSettleChrome_def k Let_def split: if_splits)
qed

lemma keyboard_example_field: "app_text_field keyboard_example (keyboard_example ! 1)"
proof -
  have up: "parent_of keyboard_example (keyboard_example ! 1) = Some (keyboard_example ! 0)" "parent_of keyboard_example (keyboard_example ! 0) = None"
    by (simp_all add: parent_of_def keyboard_example_def node_at_index_def)
  have kb: "keyboard_containers keyboard_example = [2]" by code_simp
  have "hasAncestorIn (keyboard_example ! 1) keyboard_example [2] = Some False"
    unfolding hasAncestorIn_def up
    by (simp add: walk_up.simps [of _ _ "Some (keyboard_example ! 0)"] up walk_up.simps [of _ _ None]) (simp add: keyboard_example_def)
  moreover have "node_kind (keyboard_example ! 1) \<in> set EDITABLE_TEXT_TYPES" by code_simp
  moreover have "\<not> isAndroidInputMethodSnapshotNode (keyboard_example ! 1)" by code_simp
  moreover have "\<not> isAndroidSystemChromeNode (keyboard_example ! 1) keyboard_example"
    by (simp add: isAndroidSystemChromeNode_def keyboard_example_def ANDROID_SYSTEM_CHROME_PACKAGE_def)
  ultimately show ?thesis by (simp add: app_text_field_def kb)
qed

theorem typed_field_stays_witness:
  "\<exists>kept. withoutSettleChrome keyboard_example None = Some kept \<and> keyboard_example ! 1 \<in> set kept"
proof -
  obtain kept where kept: "withoutSettleChrome keyboard_example None = Some kept"
    using keyboard_chrome_total [OF keyboard_example_below] by (auto simp: withoutSettleChrome_def collectSettleChrome_def)
  have "keyboard_example ! 1 \<in> set kept"
    by (rule typed_field_stays [OF kept _ _ keyboard_example_field]) (simp_all add: keyboard_example_def)
  with kept show ?thesis by blast
qed

end
