(* ===== verification/Spec2Isabelle.thy ===== *)
theory Spec2Isabelle
  imports Leases Observation Publication LockPolicy SnapshotDiff RequestLocks AdScript TargetEvidence Xml AndroidSnapshot ReplayResume ReplayVars Gestures SettleChrome
begin

text \<open>
  A verification library for agent-device, a command line tool and daemon that drives mobile, desktop and web
  devices for agents.

  The program. A client (\<^verbatim>\<open>src/src/cli.ts\<close>, an MCP server or the Node client) sends requests to a daemon. The
  daemon admits a request under a lease on a device, resolves the device and the session it is for,
  executes it under locks per session and device, captures the accessibility tree of the screen as a snapshot,
  resolves the element a command means (a reference \<open>@e12\<close> of an earlier snapshot, or a selector), acts on it, and
  prints the tree or its difference to the last one. What a session did is recorded as an \<^verbatim>\<open>.ad\<close> script, which a later
  session replays, repairs and publishes again. The library models these parts as pure functions and explicit state; the
  calls to the devices are not modelled.

  Theories, from the bottom up, with the files they model (below \<^verbatim>\<open>src/\<close> of the repository).

  \<^item> \<open>Prelude\<close>: result and state combinators, JavaScript strings, sorting and searching, and the lemmas the others share.
    \<open>TextFields\<close>: normalization and byte caps of the texts that identify a node (\<^verbatim>\<open>target-annotation-serde.ts\<close>).
  \<^item> \<open>Leases\<close>: the lease registry (\<^verbatim>\<open>src/daemon/lease-registry.ts\<close>, \<^verbatim>\<open>lease-context.ts\<close>, \<^verbatim>\<open>request-admission.ts\<close>). Its state is
    the record of the two maps of leases and device bindings; the invariant says that bindings and leases
    agree, from which follow exclusive devices, quotas, owner scopes and expiry.
  \<^item> \<open>Snapshots\<close>: nodes, backends and the grammar of references (\<^verbatim>\<open>packages/kernel/src/snapshot.ts\<close>). \<open>RefFrame\<close>: the frame of
    references a session may act on, its expiry, its generations and what an open on the session leaves of them
    (\<^verbatim>\<open>src/daemon/ref-frame.ts\<close>). \<open>Observation\<close>: internal
    captures, their lineage and the publication of references. \<open>Publication\<close>: the life of a script that
    is armed by an open, recorded, repaired and published by a close or a command, with the file system as an association list.
  \<^item> \<open>SnapshotTree\<close>, \<open>Visibility\<close>: the capture as a tree, rectangles, what is on screen and in which direction the rest lies.
    \<open>SnapshotLines\<close>, \<open>SnapshotDiff\<close>: the printed lines of a snapshot, and the difference of two of them by
    the greedy algorithm of Myers, proved against the edit distance.
  \<^item> \<open>SelectorSyntax\<close>, \<open>SelectorMatch\<close>: the selector language, its parser and writer, matching, building of recorded
    selectors and resolution with tie breaks (\<^verbatim>\<open>src/selectors\<close>).
  \<^item> \<open>Devices\<close>, \<open>LockPolicy\<close>: the choice of a device and the agreement of a request with the device of its session
    (\<^verbatim>\<open>packages/kernel/src/device.ts\<close>, \<^verbatim>\<open>src/core\<close>, \<^verbatim>\<open>src/daemon/request-lock-policy.ts\<close>).
  \<^item> \<open>KeyedLock\<close>, \<open>RequestLocks\<close>: promise chains per key (\<^verbatim>\<open>src/utils/keyed-lock.ts\<close>) and the session and device locks of a
    request (\<^verbatim>\<open>src/daemon/request-execution-locks.ts\<close>) as a step relation on tables of tasks, with
    exclusion, first-come order and the end of every orderly run. A request may be nested in the body of another (a replay, a
    batch, a test) and then inherits the frames of its locks; two worlds in which such a nesting goes wrong are lemmas.
  \<^item> \<open>AdTokens\<close>, \<open>Json\<close>, \<open>TargetAnnotation\<close>, \<open>AdActions\<close>, \<open>AdLines\<close>, \<open>AdScript\<close>: recorded scripts (\<^verbatim>\<open>packages/ad-script/src/internal\<close>): tokens,
    the JSON of annotations, the comment that names an element, the lines of all commands, the
    parser of whole scripts with its metadata, and the proof that what the session writer formats is
    read back, line by line and as a whole.
  \<^item> \<open>TargetBinding\<close>, \<open>TargetEvidence\<close>: the evidence recorded for the element an action touched and the
    classification of the element a replay resolves (\<^verbatim>\<open>src/replay/target-*.ts\<close>,
    \<^verbatim>\<open>src/daemon/session-target-evidence.ts\<close>, \<^verbatim>\<open>src/daemon/handlers/session-replay-target-classification.ts\<close>): the
    recorder's self-check, the agreement of record and replay, and what the parser reads of it.
  \<^item> \<open>Xml\<close>: the reader of XML documents and its character references (\<^verbatim>\<open>packages/xml/src/internal\<close>), with
    the proof that every run of it ends and that written documents are read back.
  \<^item> \<open>AndroidXml\<close>, \<open>AndroidSnapshot\<close>: the hierarchy of an Android screen (\<^verbatim>\<open>src/platforms/android/ui-hierarchy.ts\<close>), from
    the text of the document over its tree to the nodes of a snapshot: the stream and the tree agree on every text, hidden
    nodes stay out, covered siblings leave their foreground, and the nodes form a forest.
  \<^item> \<open>ReplayResume\<close>: where a diverged replay may be resumed (\<^verbatim>\<open>src/daemon/handlers/session-replay-resume.ts\<close>,
    \<^verbatim>\<open>session-replay-repair-hint.ts\<close>, \<^verbatim>\<open>session-replay-runtime-plan.ts\<close>, \<^verbatim>\<open>src/daemon/session-replay-coordinator.ts\<close>): what
    a report offers is accepted, and the end of a plan is never skipped without a corrective action.
  \<^item> \<open>ReplayVars\<close>: the variables of replayed scripts (\<^verbatim>\<open>src/replay/vars.ts\<close>): layers of a scope, interpolation, and the values
    that reports scrub; built-ins are never shadowed, escaped texts resolve to themselves, and whatever variable is expanded is
    scrubbed.
  \<^item> \<open>Gestures\<close>: scroll and swipe plans and sampled pointer trajectories (\<^verbatim>\<open>packages/contracts/src/scroll-gesture.ts\<close>,
    \<^verbatim>\<open>gesture-plan.ts\<close>): every accepted plan stays on the screen and is ordered in time.
  \<^item> \<open>SettleChrome\<close>: the keyboard and the system bars that a settled difference leaves out (\<^verbatim>\<open>src/core/snapshot-chrome.ts\<close>,
    \<^verbatim>\<open>packages/contracts/src/android-input-ownership.ts\<close>): the unguarded walks end on normalized trees, and the field
    the user types into stays.
  Interfaces. \<open>machine\<close> (an invariant kept by every step) and \<open>ranked_machine\<close> (a rank that never falls) are interpreted on
  the steps of ref frames, observations and repairs; \<open>js_map\<close> (the laws of \<open>Map\<close>) on association lists, for the lease
  registry; \<open>quote_scanner\<close> on the two scanners of the selector parser; \<open>settling\<close> (a measured step relation whose
  runs come to rest) on the lock steps of requests. Each is interpreted in the theory that provides the operations.

  Groups of lemmas. Each theory states the functional behaviour of its operations branch by branch, then an invariant
  or a round trip, then the properties \<open>C1\<close> to \<open>C40\<close>, each after a text that states it in words. The properties at
  the front are the ones that hold the program together: exclusive leases and locks, lines of scripts that are read back,
  resolution of selectors, shortest differences, generations of references.

  Assumptions and bounds. Texts are Latin-1 (\<open>string\<close>); code units above 255 that escapes can produce are explicit
  failures. Integers of JavaScript are \<open>int\<close> and coordinates and parsed numbers exact rationals, so rounding beyond
  \<open>2 ^ 53\<close> is outside the model, and numbers are written in plain decimal notation. Objects that the code
  compares by identity carry an identity number. Clocks, random seeds, collation and \<open>Number\<close> of argument texts, where
  a theory does not define it, are arguments; faults of the file system are flags of the operations. No definition uses
  fuel: every loop is structural or has a measure, and the comparisons of lengths in the JSON parser are proved
  redundant.

  Not modelled: the command line and its help, descriptor tables, the HTTP server and clients, the MCP server,
  the platform drivers (calls to adb, simctl, the XCTest runner and others), screen recording, pixels, the Maestro
  engine over its YAML library, cloud providers and the on-device helpers. They are I/O, static tables or other languages;
  the manifest lists them one by one.

  Plan: batches of steps, retry policies, the verification of replayed targets against the screen, the texts of divergence reports.
\<close>

end
